(* ===== verification/Prelude.thy ===== *)
theory Prelude
  imports Main "HOL-Library.Word" "HOL-Library.AList"
begin

text \<open>
  Shared vocabulary of the development: the Go integer types, the few operations of the Go
  standard library that several components use (decimal printing, substring search, slicing),
  the reachability predicate of step relations with the locale that proves invariants over it,
  and the generic list, map and word lemmas.

  Conventions.  A Go \<open>int64\<close> or \<open>int\<close> is an \<open>int\<close> whose arithmetic is wrapped explicitly by
  \<open>wrap64\<close> wherever the source adds or subtracts; a \<open>uint64\<close> is a \<open>64 word\<close>; a byte is an
  \<open>8 word\<close>; a Go string is a \<open>string\<close>, one \<open>char\<close> per byte, so that \<open>length\<close> is Go's \<open>len\<close>.
  A fallible call returns a sum whose left injection is the error.
\<close>

unbundle bit_operations_syntax

named_theorems budget_simps \<open>facts that carry the byte budget proofs\<close>
named_theorems ring_simps \<open>facts that carry the ring buffer proofs\<close>
named_theorems queue_simps \<open>unfolding of the queue scheduler\<close>
named_theorems client_simps \<open>unfolding of the client lifecycle\<close>

type_synonym int64 = int
type_synonym uint64 = "64 word"
type_synonym byte = "8 word"
type_synonym bytes = "byte list"

subsection \<open>Fallible sequencing\<close>

text \<open>\<open>if err != nil { return err }\<close> between two calls, and the same in a loop over a slice.\<close>

fun and_then :: "'e + 'a \<Rightarrow> ('a \<Rightarrow> 'e + 'b) \<Rightarrow> 'e + 'b" where
  "and_then (Inl e) f = Inl e"
| "and_then (Inr x) f = f x"

fun for_each :: "('x \<Rightarrow> 'a \<Rightarrow> 'e + 'a) \<Rightarrow> 'x list \<Rightarrow> 'a \<Rightarrow> 'e + 'a" where
  "for_each f [] a = Inr a"
| "for_each f (x # xs) a = and_then (f x a) (for_each f xs)"

lemma and_then_Inr: "and_then m f = Inr y \<longleftrightarrow> (\<exists>x. m = Inr x \<and> f x = Inr y)"
  by (cases m) auto

lemma and_then_Inl: "and_then m f = Inl e \<longleftrightarrow> m = Inl e \<or> (\<exists>x. m = Inr x \<and> f x = Inl e)"
  by (cases m) auto

lemma and_then_assoc: "and_then (and_then m f) g = and_then m (\<lambda>x. and_then (f x) g)"
  by (cases m) auto

subsection \<open>Signed 64-bit arithmetic\<close>

definition wrap64 :: "int \<Rightarrow> int64" where
  "wrap64 x = signed_take_bit 63 x"

definition maxInt64 :: int64 where
  "maxInt64 = 9223372036854775807"

definition in_int64 :: "int \<Rightarrow> bool" where
  "in_int64 x \<longleftrightarrow> - maxInt64 - 1 \<le> x \<and> x \<le> maxInt64"

lemma wrap64_id [simp]: "in_int64 x \<Longrightarrow> wrap64 x = x"
  unfolding wrap64_def in_int64_def maxInt64_def
  by (rule signed_take_bit_int_eq_self) simp_all

lemma in_int64_wrap64 [simp]: "in_int64 (wrap64 x)"
proof -
  have "- (2 ^ 63) \<le> signed_take_bit 63 x" "signed_take_bit 63 x < 2 ^ 63"
    by (rule signed_take_bit_int_greater_eq_minus_exp, rule signed_take_bit_int_less_exp)
  then show ?thesis by (simp add: in_int64_def wrap64_def maxInt64_def)
qed

lemma in_int64_mid: "in_int64 a \<Longrightarrow> in_int64 b \<Longrightarrow> a \<le> x \<Longrightarrow> x \<le> b \<Longrightarrow> in_int64 x"
  by (simp add: in_int64_def)

lemma in_int64_diff: "0 \<le> a \<Longrightarrow> 0 \<le> b \<Longrightarrow> in_int64 a \<Longrightarrow> in_int64 b \<Longrightarrow> in_int64 (a - b)"
  by (simp add: in_int64_def maxInt64_def)

subsection \<open>Decimal printing\<close>

fun nat_digits :: "nat \<Rightarrow> string" where
  "nat_digits n =
     (if n < 10 then [char_of (48 + n)] else nat_digits (n div 10) @ [char_of (48 + n mod 10)])"

declare nat_digits.simps [simp del]

definition itoa :: "int \<Rightarrow> string" where
  "itoa z = (if z < 0 then CHR ''-'' # nat_digits (nat (- z)) else nat_digits (nat z))"

lemma char_of_digits [simp]:
  "char_of (48::nat) = CHR ''0''" "char_of (49::nat) = CHR ''1''" "char_of (50::nat) = CHR ''2''"
  "char_of (51::nat) = CHR ''3''" "char_of (52::nat) = CHR ''4''" "char_of (53::nat) = CHR ''5''"
  "char_of (54::nat) = CHR ''6''" "char_of (55::nat) = CHR ''7''" "char_of (56::nat) = CHR ''8''"
  "char_of (57::nat) = CHR ''9''"
  by code_simp+

lemma nat_digits_nonempty [simp]: "nat_digits n \<noteq> []"
  by (subst nat_digits.simps) simp

subsection \<open>Substrings and slices\<close>

fun is_prefix :: "'a list \<Rightarrow> 'a list \<Rightarrow> bool" where
  "is_prefix [] ys = True"
| "is_prefix (x # xs) [] = False"
| "is_prefix (x # xs) (y # ys) = (x = y \<and> is_prefix xs ys)"

fun contains :: "'a list \<Rightarrow> 'a list \<Rightarrow> bool" where
  "contains [] sub = (sub = [])"
| "contains (x # xs) sub = (is_prefix sub (x # xs) \<or> contains xs sub)"

definition containsAny :: "'a list \<Rightarrow> 'a list \<Rightarrow> bool" where
  "containsAny s chars = list_ex (\<lambda>c. c \<in> set chars) s"

definition subslice :: "'a list \<Rightarrow> nat \<Rightarrow> nat \<Rightarrow> 'a list" where
  "subslice xs i j = take (j - i) (drop i xs)"

lemma is_prefix_iff: "is_prefix xs ys \<longleftrightarrow> (\<exists>zs. ys = xs @ zs)"
  by (induction xs ys rule: is_prefix.induct) auto

lemma contains_iff: "contains xs sub \<longleftrightarrow> (\<exists>us vs. xs = us @ sub @ vs)"
proof (induction xs)
  case Nil
  then show ?case by auto
next
  case (Cons x xs)
  have "contains (x # xs) sub \<longleftrightarrow> (\<exists>vs. x # xs = sub @ vs) \<or> (\<exists>us vs. xs = us @ sub @ vs)"
    using Cons by (simp add: is_prefix_iff)
  also have "\<dots> \<longleftrightarrow> (\<exists>us vs. x # xs = us @ sub @ vs)" (is "?L \<longleftrightarrow> ?R")
  proof
    assume ?L
    then show ?R
      by (metis append_Cons append_Nil)
  next
    assume ?R
    then obtain us vs where eq: "x # xs = us @ sub @ vs" by blast
    then show ?L by (cases us) auto
  qed
  finally show ?case .
qed

lemma length_subslice [simp]: "i \<le> j \<Longrightarrow> j \<le> length xs \<Longrightarrow> length (subslice xs i j) = j - i"
  by (simp add: subslice_def)

lemma subslice_append_mid:
  "subslice (us @ vs @ ws) (length us) (length us + length vs) = vs"
  by (simp add: subslice_def)

lemma subslice_split: "i \<le> j \<Longrightarrow> j \<le> k \<Longrightarrow> subslice xs i k = subslice xs i j @ subslice xs j k"
  using take_add [of "j - i" "k - j" "drop i xs"] by (simp add: subslice_def)

lemma take_subslice_drop: "i \<le> j \<Longrightarrow> take i xs @ subslice xs i j @ drop j xs = xs"
  unfolding subslice_def
  by (metis append_take_drop_id drop_drop le_add_diff_inverse2)

subsection \<open>Step relations, reachable states, invariants\<close>

inductive reachable :: "('s \<Rightarrow> bool) \<Rightarrow> ('s \<Rightarrow> 's \<Rightarrow> bool) \<Rightarrow> 's \<Rightarrow> bool"
  for start :: "'s \<Rightarrow> bool" and step :: "'s \<Rightarrow> 's \<Rightarrow> bool" where
  reachable_start: "start s \<Longrightarrow> reachable start step s"
| reachable_step: "reachable start step s \<Longrightarrow> step s t \<Longrightarrow> reachable start step t"

lemma reachable_path:
  "step\<^sup>*\<^sup>* s t \<Longrightarrow> reachable start step s \<Longrightarrow> reachable start step t"
  by (induction rule: rtranclp_induct) (auto intro: reachable_step)

locale inductive_invariant =
  fixes start :: "'s \<Rightarrow> bool" and step :: "'s \<Rightarrow> 's \<Rightarrow> bool" and inv :: "'s \<Rightarrow> bool"
  assumes inv_start: "start s \<Longrightarrow> inv s"
    and inv_step: "inv s \<Longrightarrow> step s t \<Longrightarrow> inv t"
begin

lemma inv_reachable: "reachable start step s \<Longrightarrow> inv s"
  by (induction rule: reachable.induct) (auto intro: inv_start inv_step)

lemma inv_path: "step\<^sup>*\<^sup>* s t \<Longrightarrow> inv s \<Longrightarrow> inv t"
  by (induction rule: rtranclp_induct) (auto intro: inv_step)

end

subsection \<open>Generic list facts\<close>

lemma alist_update_absent: "map_of xs k = None \<Longrightarrow> AList.update k v xs = xs @ [(k, v)]"
  by (induction xs) (auto split: if_splits)

lemma sum_list_map_update_distinct:
  fixes f g :: "'a \<Rightarrow> int"
  assumes "distinct xs" and "a \<in> set xs" and "\<And>x. x \<noteq> a \<Longrightarrow> g x = f x"
  shows "sum_list (map g xs) = sum_list (map f xs) - f a + g a"
  using assms
proof (induction xs)
  case Nil
  then show ?case by simp
next
  case (Cons x xs)
  show ?case
  proof (cases "x = a")
    case True
    with Cons.prems(1) have "a \<notin> set xs" by simp
    then have "sum_list (map g xs) = sum_list (map f xs)"
      using Cons.prems(3) by (metis map_cong)
    with True show ?thesis by simp
  next
    case False
    with Cons show ?thesis by simp
  qed
qed

lemma sum_list_map_list_update:
  fixes f :: "'a \<Rightarrow> int"
  shows "i < length xs \<Longrightarrow>
    sum_list (map f (xs[i := v])) = sum_list (map f xs) - f (xs ! i) + f v"
proof (induction xs arbitrary: i)
  case Nil
  then show ?case by simp
next
  case (Cons x xs)
  then show ?case by (cases i) auto
qed

lemma sum_list_le_const:
  fixes xs :: "int list"
  shows "(\<And>x. x \<in> set xs \<Longrightarrow> c \<le> x) \<Longrightarrow> c * int (length xs) \<le> sum_list xs"
proof (induction xs)
  case Nil
  then show ?case by simp
next
  case (Cons a xs)
  then have "c \<le> a" and "c * int (length xs) \<le> sum_list xs" by simp_all
  then show ?case by (simp add: algebra_simps)
qed

end
