(* ===== verification/Errors.thy ===== *)
theory Errors
  imports Prelude
begin

text \<open>
  The error values of the SDK (\<open>sdk/errors.go\<close>) and the error classification that drives the
  reconnect policy (\<open>isTerminal\<close> in \<open>sdk/connection.go\<close>, \<open>shouldRotateEndpoint\<close> and
  \<open>isTransientDNSResolutionError\<close> in \<open>sdk/endpoint_pool.go\<close>).

  A Go error is a tree: \<open>errors.As\<close> and \<open>errors.Is\<close> visit it in preorder through \<open>Unwrap\<close>, which
  \<open>err_chain\<close> lists.  The error types of the standard library that the SDK looks for are the
  constructors \<open>LibErr\<close> (a kind, what \<open>Timeout()\<close> answers, the text, the wrapped error).
\<close>

section \<open>Error codes and error values\<close>

datatype error_code =
    ErrDNS | ErrStreamClosed | ErrTLSFailed | ErrTimeout | ErrHandshake | ErrIO
  | ErrNotConnected | ErrNotLoggedIn | ErrAlreadyLoggedIn | ErrClientClosed
  | ErrWriteBackpressure | ErrInvalidToken | ErrTokenExpired | ErrUserNotFound
  | ErrUserForbidden | ErrPermissionDenied | ErrAppActiveLimit | ErrBindAnotherDevice
  | ErrTooManyDevices | ErrResourceChanged | ErrAuthentication | ErrProtocol
  | ErrProtocolLimit | ErrRedirectLoop | ErrRedirectLimit | ErrHandlerFailed
  | ErrHandlerBacklog | ErrCallbackBacklog | ErrKickedChangePass | ErrSendOutcomeUnknown
  | ErrMessageIDExhausted

fun code_string :: "error_code \<Rightarrow> string" where
  "code_string ErrDNS = ''DNS_ERROR''"
| "code_string ErrStreamClosed = ''STREAM_CLOSED''"
| "code_string ErrTLSFailed = ''TLS_FAILED''"
| "code_string ErrTimeout = ''TIMEOUT''"
| "code_string ErrHandshake = ''HANDSHAKE_ERROR''"
| "code_string ErrIO = ''IO_ERROR''"
| "code_string ErrNotConnected = ''NOT_CONNECTED''"
| "code_string ErrNotLoggedIn = ''NOT_LOGGED_IN''"
| "code_string ErrAlreadyLoggedIn = ''ALREADY_LOGGED_IN''"
| "code_string ErrClientClosed = ''CLIENT_CLOSED''"
| "code_string ErrWriteBackpressure = ''WRITE_BACKPRESSURE''"
| "code_string ErrInvalidToken = ''INVALID_TOKEN''"
| "code_string ErrTokenExpired = ''TOKEN_EXPIRED''"
| "code_string ErrUserNotFound = ''USER_NOT_FOUND''"
| "code_string ErrUserForbidden = ''IM_FORBIDDEN''"
| "code_string ErrPermissionDenied = ''PERMISSION_DENIED''"
| "code_string ErrAppActiveLimit = ''APP_ACTIVE_LIMIT''"
| "code_string ErrBindAnotherDevice = ''USER_BIND_ANOTHER_DEVICE''"
| "code_string ErrTooManyDevices = ''USER_LOGIN_TOO_MANY_DEVICES''"
| "code_string ErrResourceChanged = ''USER_DEVICE_CHANGED''"
| "code_string ErrAuthentication = ''AUTHENTICATION_FAILED''"
| "code_string ErrProtocol = ''PROTOCOL_ERROR''"
| "code_string ErrProtocolLimit = ''PROTOCOL_LIMIT''"
| "code_string ErrRedirectLoop = ''REDIRECT_LOOP''"
| "code_string ErrRedirectLimit = ''REDIRECT_LIMIT''"
| "code_string ErrHandlerFailed = ''HANDLER_FAILED''"
| "code_string ErrHandlerBacklog = ''HANDLER_BACKLOG''"
| "code_string ErrCallbackBacklog = ''CALLBACK_BACKLOG''"
| "code_string ErrKickedChangePass = ''KICKED_BY_PASSWORD_CHANGE''"
| "code_string ErrSendOutcomeUnknown = ''SEND_OUTCOME_UNKNOWN''"
| "code_string ErrMessageIDExhausted = ''MESSAGE_ID_EXHAUSTED''"

datatype sentinel =
    CtxCanceled | CtxDeadlineExceeded | ErrLimitExceeded | ErrByteBudgetInvariant | NetErrClosed

datatype lib_kind =
    DNSError | UnknownAuthorityError | HostnameError | RecordHeaderError | NetError | PlainError

type_synonym redirect_info = "string \<times> nat"

text \<open>
  \<open>SDKErr code operation reason statusCode httpStatus cause\<close> is \<open>*SDKError\<close>, \<open>RedirectErr\<close> is
  \<open>*redirectError\<close>, \<open>WrapErr text e\<close> is the result of \<open>fmt.Errorf\<close> with a \<open>%w\<close> verb, \<open>JoinErr\<close>
  that of \<open>errors.Join\<close>.
\<close>

datatype go_error =
    SDKErr error_code string string int int "go_error option"
  | RedirectErr "redirect_info list"
  | Sentinel sentinel
  | LibErr lib_kind bool string "go_error option"
  | WrapErr string go_error
  | JoinErr "go_error list"

fun sentinel_text :: "sentinel \<Rightarrow> string" where
  "sentinel_text CtxCanceled = ''context canceled''"
| "sentinel_text CtxDeadlineExceeded = ''context deadline exceeded''"
| "sentinel_text ErrLimitExceeded = ''protocol limit exceeded''"
| "sentinel_text ErrByteBudgetInvariant = ''byte budget invariant violation''"
| "sentinel_text NetErrClosed = ''use of closed network connection''"

fun join_lines :: "string list \<Rightarrow> string" where
  "join_lines [] = []"
| "join_lines [s] = s"
| "join_lines (s # t # ts) = s @ [char_of (10::nat)] @ join_lines (t # ts)"

fun error_text :: "go_error \<Rightarrow> string" where
  "error_text (SDKErr code op reason st http cause) =
     (let msg = code_string code;
          msg1 = (if op \<noteq> [] then op @ '': '' @ msg else msg)
      in if reason \<noteq> [] then msg1 @ '': '' @ reason else msg1)"
| "error_text (RedirectErr infos) = ''server redirect''"
| "error_text (Sentinel s) = sentinel_text s"
| "error_text (LibErr k tmo txt cause) = txt"
| "error_text (WrapErr txt e) = txt"
| "error_text (JoinErr es) = join_lines (map error_text es)"

fun err_chain :: "go_error \<Rightarrow> go_error list" where
  "err_chain (SDKErr code op reason st http (Some e)) =
     SDKErr code op reason st http (Some e) # err_chain e"
| "err_chain (SDKErr code op reason st http None) = [SDKErr code op reason st http None]"
| "err_chain (RedirectErr infos) = [RedirectErr infos]"
| "err_chain (Sentinel s) = [Sentinel s]"
| "err_chain (LibErr k tmo txt (Some e)) = LibErr k tmo txt (Some e) # err_chain e"
| "err_chain (LibErr k tmo txt None) = [LibErr k tmo txt None]"
| "err_chain (WrapErr txt e) = WrapErr txt e # err_chain e"
| "err_chain (JoinErr es) = JoinErr es # concat (map err_chain es)"

definition errors_Is :: "go_error \<Rightarrow> sentinel \<Rightarrow> bool" where
  "errors_Is e s \<longleftrightarrow> Sentinel s \<in> set (err_chain e)"

fun is_sdk :: "go_error \<Rightarrow> bool" where
  "is_sdk (SDKErr code op reason st http cause) = True"
| "is_sdk _ = False"

fun is_redirect :: "go_error \<Rightarrow> bool" where
  "is_redirect (RedirectErr infos) = True"
| "is_redirect _ = False"

fun is_lib :: "lib_kind \<Rightarrow> go_error \<Rightarrow> bool" where
  "is_lib k (LibErr k' tmo txt cause) = (k = k')"
| "is_lib k _ = False"

text \<open>The types that implement \<open>net.Error\<close>; the deadline sentinel of package context is one.\<close>

fun net_error_timeout :: "go_error \<Rightarrow> bool option" where
  "net_error_timeout (Sentinel CtxDeadlineExceeded) = Some True"
| "net_error_timeout (LibErr DNSError tmo txt cause) = Some tmo"
| "net_error_timeout (LibErr NetError tmo txt cause) = Some tmo"
| "net_error_timeout _ = None"

definition errors_As :: "(go_error \<Rightarrow> bool) \<Rightarrow> go_error \<Rightarrow> go_error option" where
  "errors_As p e = List.find p (err_chain e)"

definition errors_Join :: "go_error option list \<Rightarrow> go_error option" where
  "errors_Join es =
     (let present = List.map_filter (\<lambda>e. e) es in if present = [] then None else Some (JoinErr present))"

section \<open>Construction and classification\<close>

definition newError :: "error_code \<Rightarrow> string \<Rightarrow> string \<Rightarrow> go_error" where
  "newError code op reason = SDKErr code op reason 0 0 None"

definition wrapError :: "error_code \<Rightarrow> string \<Rightarrow> go_error \<Rightarrow> go_error" where
  "wrapError code op cause = SDKErr code op (error_text cause) 0 0 (Some cause)"

definition dnsStageError :: "string \<Rightarrow> int \<Rightarrow> go_error option \<Rightarrow> go_error" where
  "dnsStageError reason status cause = SDKErr ErrDNS ''dns bootstrap'' reason 0 status cause"

fun sdk_code :: "go_error \<Rightarrow> error_code option" where
  "sdk_code (SDKErr code op reason st http cause) = Some code"
| "sdk_code _ = None"

text \<open>The empty code that \<open>errorCode\<close> returns for a foreign error is \<open>None\<close>.\<close>

definition errorCode :: "go_error option \<Rightarrow> error_code option" where
  "errorCode err =
     (case err of None \<Rightarrow> None
      | Some e \<Rightarrow> (case errors_As is_sdk e of None \<Rightarrow> None | Some se \<Rightarrow> sdk_code se))"

definition to_lower_char :: "char \<Rightarrow> char" where
  "to_lower_char c =
     (let n = (of_char c :: nat) in if 65 \<le> n \<and> n \<le> 90 then char_of (n + 32) else c)"

definition toLower :: "string \<Rightarrow> string" where
  "toLower s = map to_lower_char s"

definition classifyNetworkError :: "string \<Rightarrow> go_error option \<Rightarrow> go_error option" where
  "classifyNetworkError op err =
     (case err of None \<Rightarrow> None
      | Some e \<Rightarrow>
          if errors_As is_sdk e \<noteq> None then Some e
          else if errors_As is_redirect e \<noteq> None then Some e
          else
            let text = toLower (error_text e);
                code =
                  (if errors_Is e CtxDeadlineExceeded
                      \<or> (case errors_As (\<lambda>x. net_error_timeout x \<noteq> None) e of
                           None \<Rightarrow> False | Some ne \<Rightarrow> net_error_timeout ne = Some True)
                   then ErrTimeout
                   else if errors_As (is_lib DNSError) e \<noteq> None then ErrDNS
                   else if errors_As (is_lib UnknownAuthorityError) e \<noteq> None
                      \<or> errors_As (is_lib HostnameError) e \<noteq> None
                      \<or> errors_As (is_lib RecordHeaderError) e \<noteq> None
                      \<or> contains text ''tls'' \<or> contains text ''certificate''
                   then ErrTLSFailed
                   else if errors_Is e NetErrClosed \<or> contains text ''eof'' \<or> contains text ''close''
                   then ErrStreamClosed
                   else ErrIO)
            in Some (SDKErr code op [] 0 0 (Some e)))"

definition protocolError :: "string \<Rightarrow> int \<Rightarrow> string \<Rightarrow> go_error" where
  "protocolError op status reason =
     (let code =
        (if status = 1 then
           (if contains reason ''Sorry, token expired'' then ErrTokenExpired
            else if contains reason ''Sorry, token or password does not match login info''
            then ErrInvalidToken
            else if contains reason ''Sorry, user not found'' then ErrUserNotFound
            else ErrAuthentication)
         else if status = 6 then ErrTokenExpired
         else if status \<in> {2, 3, 4, 16, 17, 18} then ErrAuthentication
         else if status = 7 then
           (if list_ex (contains reason)
                 [''Sorry, the app month live count limit'', ''Sorry, the app day live count limit'',
                  ''Sorry, the app online count limit'']
            then ErrAppActiveLimit else ErrPermissionDenied)
         else if status = 11 then ErrBindAnotherDevice
         else if status = 12 then ErrUserForbidden
         else if status = 13 then ErrTooManyDevices
         else if status = 20 then ErrResourceChanged
         else ErrProtocol)
      in SDKErr code op reason status 0 None)"

definition isTerminal :: "go_error option \<Rightarrow> bool" where
  "isTerminal err \<longleftrightarrow>
     errorCode err \<in> Some ` {ErrTokenExpired, ErrInvalidToken, ErrUserForbidden, ErrBindAnotherDevice,
       ErrTooManyDevices, ErrResourceChanged, ErrAuthentication, ErrPermissionDenied,
       ErrAppActiveLimit, ErrUserNotFound, ErrKickedChangePass, ErrProtocolLimit}"

definition shouldRotateEndpoint :: "go_error option \<Rightarrow> bool" where
  "shouldRotateEndpoint err \<longleftrightarrow>
     errorCode err \<in> Some ` {ErrIO, ErrTimeout, ErrTLSFailed, ErrStreamClosed, ErrDNS, ErrHandshake}"

definition isTransientDNSResolutionError :: "go_error option \<Rightarrow> bool" where
  "isTransientDNSResolutionError err =
     (case err of None \<Rightarrow> False
      | Some e \<Rightarrow>
          (case errors_As is_sdk e of
             Some (SDKErr code op reason st http cause) \<Rightarrow>
               code = ErrDNS \<and>
               (http = 429 \<or> http \<ge> 500
                \<or> reason \<in> {''request failed'', ''request canceled while retrying'', ''read response''}
                \<or> (case cause of None \<Rightarrow> False
                    | Some c \<Rightarrow> errors_Is c CtxCanceled \<or> errors_Is c CtxDeadlineExceeded
                        \<or> errors_As (\<lambda>x. net_error_timeout x \<noteq> None) c \<noteq> None))
           | _ \<Rightarrow> False))"

section \<open>Facts\<close>

lemma find_Some_in: "List.find p xs = Some x \<Longrightarrow> x \<in> set xs \<and> p x"
  by (induction xs) (auto split: if_splits)

lemma err_chain_head: "\<exists>rest. err_chain e = e # rest"
  by (cases e rule: err_chain.cases) auto

lemma err_chain_self [simp]: "e \<in> set (err_chain e)"
  using err_chain_head [of e] by auto

lemma errors_As_sdk [simp]:
  "errors_As is_sdk (SDKErr code op reason st http cause) = Some (SDKErr code op reason st http cause)"
  using err_chain_head [of "SDKErr code op reason st http cause"] by (auto simp: errors_As_def)

lemma errorCode_sdk [simp]: "errorCode (Some (SDKErr code op reason st http cause)) = Some code"
  by (simp add: errorCode_def)

lemma errorCode_None [simp]: "errorCode None = None"
  by (simp add: errorCode_def)

lemma errorCode_newError [simp]: "errorCode (Some (newError code op reason)) = Some code"
  by (simp add: newError_def)

lemma errorCode_wrapError [simp]: "errorCode (Some (wrapError code op cause)) = Some code"
  by (simp add: wrapError_def)

lemma errorCode_some_iff: "errorCode (Some e) \<noteq> None \<longleftrightarrow> errors_As is_sdk e \<noteq> None"
  by (auto simp: errorCode_def errors_As_def dest!: find_Some_in elim: is_sdk.elims
      split: option.splits)

lemma errors_Is_wrap [simp]: "errors_Is (WrapErr txt e) s = errors_Is e s"
  by (simp add: errors_Is_def)

lemma errors_Is_Sentinel [simp]: "errors_Is (Sentinel t) s = (s = t)"
  by (auto simp: errors_Is_def)

lemma errorCode_protocolError:
  "\<exists>code. errorCode (Some (protocolError op status reason)) = Some code \<and>
     code \<in> {ErrTokenExpired, ErrInvalidToken, ErrUserNotFound, ErrAuthentication, ErrAppActiveLimit,
       ErrPermissionDenied, ErrBindAnotherDevice, ErrUserForbidden, ErrTooManyDevices,
       ErrResourceChanged, ErrProtocol}"
  by (simp add: protocolError_def Let_def)

lemma err_chain_classified:
  "errors_As is_sdk e = None \<Longrightarrow> errors_As is_redirect e = None \<Longrightarrow>
   \<exists>code. classifyNetworkError op (Some e) = Some (SDKErr code op [] 0 0 (Some e))"
  by (simp add: classifyNetworkError_def Let_def)

section \<open>Properties\<close>

text \<open>
  A server status is turned into exactly one error: the statuses of authentication, token,
  permission and device failures end the session (\<open>isTerminal\<close>), every other non-success status
  is a plain protocol error that is retried, and no server status ever makes the SDK fan out over
  the other DNS candidates (\<open>shouldRotateEndpoint\<close>).
\<close>

lemma protocolError_policy:
  "(isTerminal (Some (protocolError op status reason)) \<longleftrightarrow>
      status \<in> {1, 2, 3, 4, 6, 7, 11, 12, 13, 16, 17, 18, 20})
   \<and> \<not> shouldRotateEndpoint (Some (protocolError op status reason))"
  by (simp add: protocolError_def Let_def isTerminal_def shouldRotateEndpoint_def)

end
