(* ===== verification/Byte_Budget.thy ===== *)
theory Byte_Budget
  imports Errors
begin

text \<open>
  The weighted semaphore of \<open>sdk/byte_budget.go\<close> that bounds in-memory work, the contract its
  clients rely on (locale \<open>semaphore\<close>), and the protocol of concurrent callers of \<open>Acquire\<close>,
  \<open>TryAcquire\<close> and \<open>Release\<close> as a step relation.

  A \<open>*byteBudget\<close> receiver that may be nil is an option.  The wait channel is a number: \<open>bb_wait\<close> is
  the channel the field holds (\<open>None\<close> for nil), \<open>bb_made\<close> how many channels were made, \<open>bb_closed\<close>
  those that were closed.  The mutex makes every method that holds it one atomic step; \<open>Acquire\<close>,
  which drops it to wait, is split at that point.
\<close>

section \<open>State and operations\<close>

record byteBudget =
  bb_limit :: int64
  bb_used :: int64
  bb_wait :: "nat option"
  bb_made :: nat
  bb_closed :: "nat list"

definition byteBudgetInvariantf :: "string \<Rightarrow> go_error" where
  "byteBudgetInvariantf msg =
     WrapErr (sentinel_text ErrByteBudgetInvariant @ '': '' @ msg) (Sentinel ErrByteBudgetInvariant)"

definition newByteBudget :: "int64 \<Rightarrow> go_error + byteBudget" where
  "newByteBudget limit =
     (if limit < 0 then Inl (byteBudgetInvariantf (''negative limit '' @ itoa limit))
      else Inr \<lparr>bb_limit = limit, bb_used = 0, bb_wait = Some 0, bb_made = 1, bb_closed = []\<rparr>)"

definition validateLocked :: "byteBudget \<Rightarrow> go_error option" where
  "validateLocked b =
     (if bb_limit b < 0
      then Some (byteBudgetInvariantf (''negative limit '' @ itoa (bb_limit b)))
      else if bb_used b < 0
      then Some (byteBudgetInvariantf (''negative used '' @ itoa (bb_used b)))
      else if bb_used b > bb_limit b
      then Some (byteBudgetInvariantf
             (''used '' @ itoa (bb_used b) @ '' exceeds limit '' @ itoa (bb_limit b)))
      else None)"

definition validateAcquireLocked :: "byteBudget \<Rightarrow> int64 \<Rightarrow> go_error option" where
  "validateAcquireLocked b n =
     (case validateLocked b of Some e \<Rightarrow> Some e
      | None \<Rightarrow>
          if n \<le> 0 then Some (byteBudgetInvariantf (''acquire must be positive: '' @ itoa n))
          else if n > bb_limit b
          then Some (byteBudgetInvariantf
                 (''acquire '' @ itoa n @ '' exceeds limit '' @ itoa (bb_limit b)))
          else None)"

definition tryAcquireLocked :: "byteBudget \<Rightarrow> int64 \<Rightarrow> (go_error + bool) \<times> byteBudget" where
  "tryAcquireLocked b n =
     (case validateAcquireLocked b n of Some e \<Rightarrow> (Inl e, b)
      | None \<Rightarrow>
          if n > wrap64 (bb_limit b - bb_used b) then (Inr False, b)
          else (Inr True, b\<lparr>bb_used := wrap64 (bb_used b + n)\<rparr>))"

definition TryAcquire :: "byteBudget option \<Rightarrow> int64 \<Rightarrow> (go_error + bool) \<times> byteBudget option" where
  "TryAcquire bo n =
     (case bo of None \<Rightarrow> (Inl (byteBudgetInvariantf ''nil budget''), None)
      | Some b \<Rightarrow> (let (r, b') = tryAcquireLocked b n in (r, Some b')))"

definition waitLocked :: "byteBudget \<Rightarrow> nat \<times> byteBudget" where
  "waitLocked b =
     (case bb_wait b of Some w \<Rightarrow> (w, b)
      | None \<Rightarrow> (bb_made b, b\<lparr>bb_wait := Some (bb_made b), bb_made := Suc (bb_made b)\<rparr>))"

definition releaseLocked :: "byteBudget \<Rightarrow> int64 \<Rightarrow> go_error option \<times> byteBudget" where
  "releaseLocked b n =
     (case validateLocked b of Some e \<Rightarrow> (Some e, b)
      | None \<Rightarrow>
          if n \<le> 0 then (Some (byteBudgetInvariantf (''release must be positive: '' @ itoa n)), b)
          else if n > bb_used b
          then (Some (byteBudgetInvariantf
                  (''release '' @ itoa n @ '' exceeds used '' @ itoa (bb_used b))), b)
          else
            let b1 = b\<lparr>bb_used := wrap64 (bb_used b - n)\<rparr>;
                (w, b2) = waitLocked b1;
                b3 = b2\<lparr>bb_closed := w # bb_closed b2\<rparr>
            in (None, b3\<lparr>bb_wait := Some (bb_made b3), bb_made := Suc (bb_made b3)\<rparr>))"

definition Release :: "byteBudget option \<Rightarrow> int64 \<Rightarrow> go_error option \<times> byteBudget option" where
  "Release bo n =
     (case bo of None \<Rightarrow> (Some (byteBudgetInvariantf ''nil budget''), None)
      | Some b \<Rightarrow> (let (e, b') = releaseLocked b n in (e, Some b')))"

definition Used :: "byteBudget option \<Rightarrow> int64" where
  "Used bo = (case bo of None \<Rightarrow> 0 | Some b \<Rightarrow> bb_used b)"

definition Limit :: "byteBudget option \<Rightarrow> int64" where
  "Limit bo = (case bo of None \<Rightarrow> 0 | Some b \<Rightarrow> bb_limit b)"

text \<open>
  \<open>Acquire\<close> is cut at the points where it does not hold the mutex: the checks before the loop, one
  round of the loop up to the wait, and the wake-up.
\<close>

datatype acquire_pc =
    AcqLoop int64
  | AcqWait int64 nat
  | AcqReturn "go_error option"

definition acquire_enter :: "byteBudget option \<Rightarrow> bool \<Rightarrow> int64 \<Rightarrow> acquire_pc" where
  "acquire_enter bo ctx_nil n =
     (case bo of None \<Rightarrow> AcqReturn (Some (byteBudgetInvariantf ''nil budget''))
      | Some b \<Rightarrow>
          if ctx_nil then AcqReturn (Some (byteBudgetInvariantf ''nil context''))
          else (case validateAcquireLocked b n of Some e \<Rightarrow> AcqReturn (Some e) | None \<Rightarrow> AcqLoop n))"

definition acquire_round ::
  "byteBudget \<Rightarrow> go_error option \<Rightarrow> int64 \<Rightarrow> acquire_pc \<times> byteBudget" where
  "acquire_round b ctx_err n =
     (case ctx_err of Some e \<Rightarrow> (AcqReturn (Some e), b)
      | None \<Rightarrow>
          (case tryAcquireLocked b n of
             (Inl e, b') \<Rightarrow> (AcqReturn (Some e), b')
           | (Inr True, b') \<Rightarrow> (AcqReturn None, b')
           | (Inr False, b') \<Rightarrow> (let (w, b2) = waitLocked b' in (AcqWait n w, b2))))"

definition acquire_wake :: "byteBudget \<Rightarrow> int64 \<Rightarrow> nat \<Rightarrow> acquire_pc option" where
  "acquire_wake b n w = (if w \<in> set (bb_closed b) then Some (AcqLoop n) else None)"

section \<open>Validity\<close>

definition budget_ok :: "byteBudget \<Rightarrow> bool" where
  "budget_ok b \<longleftrightarrow>
     0 \<le> bb_used b \<and> bb_used b \<le> bb_limit b \<and> in_int64 (bb_limit b)
     \<and> (\<forall>w \<in> set (bb_closed b). w < bb_made b)
     \<and> (case bb_wait b of None \<Rightarrow> True | Some w \<Rightarrow> w < bb_made b \<and> w \<notin> set (bb_closed b))"

lemma budget_okD [budget_simps]:
  "budget_ok b \<Longrightarrow> validateLocked b = None"
  by (auto simp: budget_ok_def validateLocked_def)

lemma budget_ok_int64: "budget_ok b \<Longrightarrow> in_int64 (bb_used b)"
  by (auto simp: budget_ok_def in_int64_def maxInt64_def)

lemma validateLocked_None: "validateLocked b = None \<longleftrightarrow> 0 \<le> bb_used b \<and> bb_used b \<le> bb_limit b"
  by (auto simp: validateLocked_def)

lemma validateAcquireLocked_None:
  "validateAcquireLocked b n = None \<longleftrightarrow>
     0 \<le> bb_used b \<and> bb_used b \<le> bb_limit b \<and> 0 < n \<and> n \<le> bb_limit b"
proof (cases "validateLocked b")
  case None
  then show ?thesis using validateLocked_None [of b] by (auto simp: validateAcquireLocked_def)
next
  case (Some e)
  then show ?thesis using validateLocked_None [of b] by (auto simp: validateAcquireLocked_def)
qed

text \<open>The subtraction and the addition under the mutex never wrap.\<close>

lemma budget_no_wrap:
  assumes "budget_ok b"
  shows "wrap64 (bb_limit b - bb_used b) = bb_limit b - bb_used b"
    and "0 \<le> n \<Longrightarrow> n \<le> bb_limit b - bb_used b \<Longrightarrow> wrap64 (bb_used b + n) = bb_used b + n"
    and "0 \<le> n \<Longrightarrow> n \<le> bb_used b \<Longrightarrow> wrap64 (bb_used b - n) = bb_used b - n"
  using assms by (auto simp: budget_ok_def in_int64_def maxInt64_def intro!: wrap64_id)

lemma tryAcquireLocked_ok:
  assumes "budget_ok b" and "0 < n" and "n \<le> bb_limit b"
  shows "tryAcquireLocked b n =
    (if n \<le> bb_limit b - bb_used b then (Inr True, b\<lparr>bb_used := bb_used b + n\<rparr>) else (Inr False, b))"
proof -
  have "validateAcquireLocked b n = None"
    using assms by (simp add: validateAcquireLocked_None budget_ok_def)
  then show ?thesis
    using assms(2) budget_no_wrap [OF assms(1)] by (simp add: tryAcquireLocked_def)
qed

lemma tryAcquireLocked_reject:
  assumes "budget_ok b" and "n \<le> 0 \<or> bb_limit b < n"
  shows "\<exists>e. tryAcquireLocked b n = (Inl e, b) \<and> errors_Is e ErrByteBudgetInvariant"
proof -
  have "\<exists>e. validateAcquireLocked b n = Some e \<and> errors_Is e ErrByteBudgetInvariant"
    using assms by (auto simp: validateAcquireLocked_def budget_okD byteBudgetInvariantf_def)
  then show ?thesis by (auto simp: tryAcquireLocked_def)
qed

lemma releaseLocked_ok:
  assumes "budget_ok b" and "0 < n" and "n \<le> bb_used b"
  obtains b' where "releaseLocked b n = (None, b')" and "bb_used b' = bb_used b - n"
    and "bb_limit b' = bb_limit b" and "budget_ok b'"
    and "bb_closed b' = fst (waitLocked b) # bb_closed b"
proof -
  define b' where "b' = snd (releaseLocked b n)"
  note wr = budget_no_wrap(3) [OF assms(1)]
  have "releaseLocked b n = (None, b')"
    using assms by (simp add: releaseLocked_def budget_okD Let_def b'_def split: prod.splits)
  moreover have "bb_used b' = bb_used b - n" "bb_limit b' = bb_limit b"
    using assms wr [of n]
    by (auto simp: b'_def releaseLocked_def budget_okD Let_def waitLocked_def split: option.splits)
  moreover have "budget_ok b'"
    using assms wr [of n]
    by (auto simp: b'_def releaseLocked_def budget_okD Let_def waitLocked_def budget_ok_def
        split: option.splits)
  moreover have "bb_closed b' = fst (waitLocked b) # bb_closed b"
    using assms wr [of n]
    by (auto simp: b'_def releaseLocked_def budget_okD Let_def waitLocked_def split: option.splits)
  ultimately show ?thesis by (rule that)
qed

lemma releaseLocked_reject:
  assumes "budget_ok b" and "n \<le> 0 \<or> bb_used b < n"
  shows "\<exists>e. releaseLocked b n = (Some e, b) \<and> errors_Is e ErrByteBudgetInvariant"
  using assms by (auto simp: releaseLocked_def budget_okD byteBudgetInvariantf_def)

lemma budget_ok_used_upd:
  "budget_ok b \<Longrightarrow> 0 \<le> u \<Longrightarrow> u \<le> bb_limit b \<Longrightarrow> budget_ok (b\<lparr>bb_used := u\<rparr>)"
  by (simp add: budget_ok_def split: option.splits)

lemma newByteBudget_ok:
  "0 \<le> limit \<Longrightarrow> in_int64 limit \<Longrightarrow>
   \<exists>b. newByteBudget limit = Inr b \<and> budget_ok b \<and> bb_used b = 0 \<and> bb_limit b = limit"
  by (simp add: newByteBudget_def budget_ok_def)

section \<open>The contract of a semaphore\<close>

text \<open>
  What the two-level reservations of the SDK rely on: a granted acquisition charges exactly its
  weight and stays within the limit, a refused one changes nothing, and a release of charged
  weight succeeds.
\<close>

locale semaphore =
  fixes acquire :: "'b \<Rightarrow> int64 \<Rightarrow> (go_error + bool) \<times> 'b"
    and release :: "'b \<Rightarrow> int64 \<Rightarrow> go_error option \<times> 'b"
    and used :: "'b \<Rightarrow> int64" and limit :: "'b \<Rightarrow> int64" and ok :: "'b \<Rightarrow> bool"
  assumes acquire_granted:
      "ok b \<Longrightarrow> acquire b n = (Inr True, b') \<Longrightarrow>
       0 < n \<and> ok b' \<and> used b' = used b + n \<and> limit b' = limit b"
    and acquire_refused: "ok b \<Longrightarrow> acquire b n = (r, b') \<Longrightarrow> r \<noteq> Inr True \<Longrightarrow> b' = b"
    and acquire_fits: "ok b \<Longrightarrow> 0 < n \<Longrightarrow> n \<le> limit b - used b \<Longrightarrow> fst (acquire b n) = Inr True"
    and release_charged:
      "ok b \<Longrightarrow> 0 < n \<Longrightarrow> n \<le> used b \<Longrightarrow>
       \<exists>b'. release b n = (None, b') \<and> ok b' \<and> used b' = used b - n \<and> limit b' = limit b"
    and release_refused: "ok b \<Longrightarrow> release b n = (Some e, b') \<Longrightarrow> b' = b"
    and bounds: "ok b \<Longrightarrow> 0 \<le> used b \<and> used b \<le> limit b"
begin

lemma acquire_then_release:
  assumes "ok b" and "acquire b n = (Inr True, b1)"
  obtains b2 where "release b1 n = (None, b2)" and "ok b2" and "used b2 = used b"
    and "limit b2 = limit b"
proof -
  from acquire_granted [OF assms] have n: "0 < n" and b1: "ok b1" "used b1 = used b + n"
    "limit b1 = limit b" by simp_all
  have "n \<le> used b1" using bounds [OF assms(1)] b1(2) by simp
  from release_charged [OF b1(1) n this] obtain b2 where
    "release b1 n = (None, b2)" "ok b2" "used b2 = used b1 - n" "limit b2 = limit b1"
    by blast
  with b1 show ?thesis by (intro that [of b2]) simp_all
qed

lemma acquire_exact:
  assumes "ok b" and "0 < n"
  shows "fst (acquire b n) = Inr True \<longleftrightarrow> n \<le> limit b - used b"
proof
  assume g: "fst (acquire b n) = Inr True"
  then have "acquire b n = (Inr True, snd (acquire b n))" by (metis prod.collapse)
  from acquire_granted [OF assms(1) this] bounds [of "snd (acquire b n)"]
  show "n \<le> limit b - used b" by simp
next
  assume "n \<le> limit b - used b"
  with assms show "fst (acquire b n) = Inr True" by (rule acquire_fits)
qed

lemma acquire_keeps_ok: "ok b \<Longrightarrow> ok (snd (acquire b n))"
  by (metis acquire_granted acquire_refused prod.collapse)

end

lemma tryAcquireLocked_granted:
  assumes "budget_ok b" and "tryAcquireLocked b n = (Inr True, b')"
  shows "0 < n" and "n \<le> bb_limit b - bb_used b" and "b' = b\<lparr>bb_used := bb_used b + n\<rparr>"
    and "budget_ok b'"
proof -
  have v: "validateAcquireLocked b n = None"
    using assms(2) by (simp add: tryAcquireLocked_def split: option.splits)
  then have n: "0 < n" "n \<le> bb_limit b" by (simp_all add: validateAcquireLocked_None)
  with tryAcquireLocked_ok [OF assms(1) n] assms(2)
  have "n \<le> bb_limit b - bb_used b" and b': "b' = b\<lparr>bb_used := bb_used b + n\<rparr>"
    by (auto split: if_splits)
  with n assms(1) show "0 < n" "n \<le> bb_limit b - bb_used b" "b' = b\<lparr>bb_used := bb_used b + n\<rparr>"
    "budget_ok b'"
    by (auto simp: budget_ok_def split: option.splits)
qed

lemma tryAcquireLocked_refused:
  "tryAcquireLocked b n = (r, b') \<Longrightarrow> r \<noteq> Inr True \<Longrightarrow> b' = b"
  by (auto simp: tryAcquireLocked_def split: option.splits if_splits)

lemma tryAcquireLocked_error_iff:
  assumes "budget_ok b"
  shows "(\<exists>e. fst (tryAcquireLocked b n) = Inl e) \<longleftrightarrow> n \<le> 0 \<or> bb_limit b < n"
proof (cases "n \<le> 0 \<or> bb_limit b < n")
  case True
  then obtain e where "tryAcquireLocked b n = (Inl e, b)"
    using tryAcquireLocked_reject [OF assms] by blast
  with True show ?thesis by auto
next
  case False
  with tryAcquireLocked_ok [OF assms] show ?thesis by auto
qed

interpretation local_budget: semaphore tryAcquireLocked releaseLocked bb_used bb_limit budget_ok
proof (unfold_locales, goal_cases)
  case (1 b n b')
  with tryAcquireLocked_granted [OF 1] show ?case by simp
next
  case (2 b n r b')
  then show ?case by (blast dest: tryAcquireLocked_refused)
next
  case (3 b n)
  then have "n \<le> bb_limit b" by (auto simp: budget_ok_def)
  with 3 show ?case by (simp add: tryAcquireLocked_ok)
next
  case (4 b n)
  then show ?case by (metis releaseLocked_ok)
next
  case (5 b n e b')
  then show ?case
    by (auto simp: releaseLocked_def Let_def split: option.splits if_splits prod.splits)
next
  case (6 b)
  then show ?case by (simp add: budget_ok_def)
qed

section \<open>Concurrent callers\<close>

text \<open>
  Any number of goroutines share one budget.  Each is idle, inside \<open>Acquire\<close>, or holds a granted
  weight that it will release once.  A step is one goroutine executing one of its atomic sections;
  the scheduler, the contexts and the weights are arbitrary.
\<close>

datatype caller = CallerIdle | CallerAcquiring acquire_pc | CallerHolds int64

record budget_sys =
  bs_budget :: byteBudget
  bs_callers :: "caller list"

fun settle_acquire :: "int64 \<Rightarrow> acquire_pc \<Rightarrow> caller" where
  "settle_acquire n (AcqReturn None) = CallerHolds n"
| "settle_acquire n (AcqReturn (Some e)) = CallerIdle"
| "settle_acquire n pc = CallerAcquiring pc"

definition set_caller :: "budget_sys \<Rightarrow> nat \<Rightarrow> caller \<Rightarrow> byteBudget \<Rightarrow> budget_sys" where
  "set_caller s i c b = \<lparr>bs_budget = b, bs_callers = (bs_callers s)[i := c]\<rparr>"

inductive budget_step :: "budget_sys \<Rightarrow> budget_sys \<Rightarrow> bool" where
  step_try:
    "i < length (bs_callers s) \<Longrightarrow> bs_callers s ! i = CallerIdle \<Longrightarrow>
     tryAcquireLocked (bs_budget s) n = (r, b) \<Longrightarrow>
     budget_step s (set_caller s i (if r = Inr True then CallerHolds n else CallerIdle) b)"
| step_enter:
    "i < length (bs_callers s) \<Longrightarrow> bs_callers s ! i = CallerIdle \<Longrightarrow>
     budget_step s (set_caller s i
       (settle_acquire n (acquire_enter (Some (bs_budget s)) False n)) (bs_budget s))"
| step_round:
    "i < length (bs_callers s) \<Longrightarrow> bs_callers s ! i = CallerAcquiring (AcqLoop n) \<Longrightarrow>
     acquire_round (bs_budget s) ctx_err n = (pc, b) \<Longrightarrow>
     budget_step s (set_caller s i (settle_acquire n pc) b)"
| step_wake:
    "i < length (bs_callers s) \<Longrightarrow> bs_callers s ! i = CallerAcquiring (AcqWait n w) \<Longrightarrow>
     acquire_wake (bs_budget s) n w = Some pc \<Longrightarrow>
     budget_step s (set_caller s i (CallerAcquiring pc) (bs_budget s))"
| step_cancel:
    "i < length (bs_callers s) \<Longrightarrow> bs_callers s ! i = CallerAcquiring (AcqWait n w) \<Longrightarrow>
     budget_step s (set_caller s i CallerIdle (bs_budget s))"
| step_release:
    "i < length (bs_callers s) \<Longrightarrow> bs_callers s ! i = CallerHolds n \<Longrightarrow>
     releaseLocked (bs_budget s) n = (e, b) \<Longrightarrow>
     budget_step s (set_caller s i CallerIdle b)"

definition budget_start :: "int64 \<Rightarrow> nat \<Rightarrow> budget_sys \<Rightarrow> bool" where
  "budget_start limit k s \<longleftrightarrow>
     in_int64 limit \<and> newByteBudget limit = Inr (bs_budget s) \<and> bs_callers s = replicate k CallerIdle"

fun held :: "caller \<Rightarrow> int64" where
  "held (CallerHolds n) = n"
| "held _ = 0"

fun caller_ok :: "byteBudget \<Rightarrow> caller \<Rightarrow> bool" where
  "caller_ok b (CallerHolds n) = (0 < n)"
| "caller_ok b (CallerAcquiring (AcqLoop n)) = (0 < n \<and> n \<le> bb_limit b)"
| "caller_ok b (CallerAcquiring (AcqWait n w)) =
     (0 < n \<and> n \<le> bb_limit b \<and>
      (w \<in> set (bb_closed b) \<or> (bb_wait b = Some w \<and> bb_limit b - bb_used b < n)))"
| "caller_ok b (CallerAcquiring (AcqReturn r)) = False"
| "caller_ok b CallerIdle = True"

definition budget_inv :: "int64 \<Rightarrow> budget_sys \<Rightarrow> bool" where
  "budget_inv limit s \<longleftrightarrow>
     budget_ok (bs_budget s) \<and> bb_limit (bs_budget s) = limit
     \<and> bb_used (bs_budget s) = sum_list (map held (bs_callers s))
     \<and> (\<forall>c \<in> set (bs_callers s). caller_ok (bs_budget s) c)"

lemma held_nonneg: "caller_ok b c \<Longrightarrow> 0 \<le> held c"
  by (cases c rule: held.cases) auto

lemma held_le_used:
  assumes "\<And>c. c \<in> set cs \<Longrightarrow> caller_ok b c" and "i < length cs"
  shows "held (cs ! i) \<le> sum_list (map held cs)"
proof -
  have "\<And>x. x \<in> set (map held cs) \<Longrightarrow> 0 \<le> x"
    using assms(1) held_nonneg by (metis image_iff set_map)
  then have "map held cs ! i \<le> sum_list (map held cs)"
    using assms(2) by (intro member_le_sum_list) auto
  with assms(2) show ?thesis by simp
qed

text \<open>What a step of one caller must establish for the invariant of the whole system.\<close>

lemma budget_inv_set_caller:
  assumes inv: "budget_inv limit s" and i: "i < length (bs_callers s)"
    and b: "budget_ok b" "bb_limit b = bb_limit (bs_budget s)"
      "bb_used b = bb_used (bs_budget s) - held (bs_callers s ! i) + held c"
    and c: "caller_ok b c"
    and others: "\<And>d. caller_ok (bs_budget s) d \<Longrightarrow> caller_ok b d"
  shows "budget_inv limit (set_caller s i c b)"
proof -
  have "\<forall>d \<in> set ((bs_callers s)[i := c]). caller_ok b d"
    using inv others c set_update_subset_insert [of "bs_callers s" i c]
    by (auto simp: budget_inv_def)
  with inv b sum_list_map_list_update [OF i, of held c] show ?thesis
    by (simp add: budget_inv_def set_caller_def)
qed

lemma caller_ok_acquire:
  "0 \<le> n \<Longrightarrow> caller_ok b d \<Longrightarrow> caller_ok (b\<lparr>bb_used := bb_used b + n\<rparr>) d"
  by (cases "(b, d)" rule: caller_ok.cases) auto

lemma caller_ok_release:
  assumes "budget_ok b" "0 < n" "n \<le> bb_used b" "releaseLocked b n = (e, b')" "caller_ok b d"
  shows "caller_ok b' d"
proof -
  obtain b2 where "releaseLocked b n = (None, b2)" "bb_limit b2 = bb_limit b"
    "bb_closed b2 = fst (waitLocked b) # bb_closed b"
    using assms(1-3) by (rule releaseLocked_ok) blast
  with assms(4) have l: "bb_limit b' = bb_limit b"
    and c: "bb_closed b' = fst (waitLocked b) # bb_closed b" by simp_all
  show ?thesis
    using assms(5) l c by (cases "(b, d)" rule: caller_ok.cases) (auto simp: waitLocked_def)
qed

lemma acquire_round_inv:
  assumes b: "budget_ok b" and n: "0 < n" "n \<le> bb_limit b"
    and r: "acquire_round b ctx_err n = (pc, b')"
  shows "budget_ok b'" and "bb_limit b' = bb_limit b"
    and "bb_used b' = bb_used b + held (settle_acquire n pc)"
    and "caller_ok b' (settle_acquire n pc)" and "\<And>d. caller_ok b d \<Longrightarrow> caller_ok b' d"
proof -
  note t = tryAcquireLocked_ok [OF b n]
  consider (err) e where "pc = AcqReturn (Some e)" "b' = b"
    | (grant) "pc = AcqReturn None" "b' = b\<lparr>bb_used := bb_used b + n\<rparr>" "n \<le> bb_limit b - bb_used b"
    | (wait) "(pc, b') = (let (w, b2) = waitLocked b in (AcqWait n w, b2))" "bb_limit b - bb_used b < n"
    using r t by (auto simp: acquire_round_def split: option.splits if_splits)
  then have "budget_ok b' \<and> bb_limit b' = bb_limit b \<and> bb_used b' = bb_used b + held (settle_acquire n pc)
    \<and> caller_ok b' (settle_acquire n pc) \<and> (\<forall>d. caller_ok b d \<longrightarrow> caller_ok b' d)"
  proof cases
    case err
    with b show ?thesis by simp
  next
    case grant
    with b n show ?thesis
      using caller_ok_acquire [of n b] budget_ok_used_upd [OF b] by (auto simp: budget_ok_def)
  next
    case wait
    have "\<And>d. caller_ok b d \<Longrightarrow> caller_ok b' d"
      subgoal for d
        using wait by (cases "(b, d)" rule: caller_ok.cases)
          (auto simp: waitLocked_def split: option.splits)
      done
    with wait b n show ?thesis
      by (auto simp: waitLocked_def budget_ok_def split: option.splits)
  qed
  then show "budget_ok b'" "bb_limit b' = bb_limit b" "bb_used b' = bb_used b + held (settle_acquire n pc)"
    "caller_ok b' (settle_acquire n pc)" "\<And>d. caller_ok b d \<Longrightarrow> caller_ok b' d"
    by blast+
qed

lemma budget_inv_caller:
  "budget_inv limit s \<Longrightarrow> i < length (bs_callers s) \<Longrightarrow> bs_callers s ! i = c \<Longrightarrow>
   caller_ok (bs_budget s) c"
  by (auto simp: budget_inv_def dest: nth_mem)

lemma budget_inv_held:
  assumes "budget_inv limit s" and "i < length (bs_callers s)" and "bs_callers s ! i = CallerHolds n"
  shows "n \<le> bb_used (bs_budget s)"
  using held_le_used [of "bs_callers s" "bs_budget s" i] assms by (simp add: budget_inv_def)

lemma budget_inv_start: "budget_start limit k s \<Longrightarrow> budget_inv limit s"
  by (cases s) (auto simp: budget_start_def newByteBudget_def budget_inv_def budget_ok_def
      sum_list_replicate split: if_splits)

lemma budget_inv_step:
  assumes "budget_inv limit s" and "budget_step s t"
  shows "budget_inv limit t"
  using assms(2,1)
proof (induction rule: budget_step.induct)
  case (step_try i s n r b)
  then have ok: "budget_ok (bs_budget s)" by (simp add: budget_inv_def)
  show ?case
  proof (cases "r = Inr True")
    case True
    with step_try tryAcquireLocked_granted [OF ok, of n b] show ?thesis
      by (intro budget_inv_set_caller) (auto intro: caller_ok_acquire)
  next
    case False
    with step_try have "b = bs_budget s" by (blast dest: tryAcquireLocked_refused)
    with step_try False ok show ?thesis by (intro budget_inv_set_caller) auto
  qed
next
  case (step_enter i s n)
  then have ok: "budget_ok (bs_budget s)" by (simp add: budget_inv_def)
  have "caller_ok (bs_budget s) (settle_acquire n (acquire_enter (Some (bs_budget s)) False n))"
    and "held (settle_acquire n (acquire_enter (Some (bs_budget s)) False n)) = 0"
    by (auto simp: acquire_enter_def validateAcquireLocked_None split: option.splits)
  with step_enter ok show ?case by (intro budget_inv_set_caller) auto
next
  case (step_round i s n ctx_err pc b)
  then have ok: "budget_ok (bs_budget s)" by (simp add: budget_inv_def)
  have c: "caller_ok (bs_budget s) (CallerAcquiring (AcqLoop n))"
    using step_round by (blast intro: budget_inv_caller)
  from c have n: "0 < n" "n \<le> bb_limit (bs_budget s)" by simp_all
  note a = acquire_round_inv [OF ok n step_round.hyps(3)]
  from step_round a show ?case by (intro budget_inv_set_caller) auto
next
  case (step_wake i s n w pc)
  then have ok: "budget_ok (bs_budget s)" by (simp add: budget_inv_def)
  have c: "caller_ok (bs_budget s) (CallerAcquiring (AcqWait n w))"
    using step_wake by (blast intro: budget_inv_caller)
  from step_wake.hyps(3) have "pc = AcqLoop n" by (simp add: acquire_wake_def split: if_splits)
  with step_wake ok c show ?case by (intro budget_inv_set_caller) auto
next
  case (step_cancel i s n w)
  then show ?case by (intro budget_inv_set_caller) (auto simp: budget_inv_def)
next
  case (step_release i s n e b)
  then have ok: "budget_ok (bs_budget s)" by (simp add: budget_inv_def)
  from step_release have c: "caller_ok (bs_budget s) (CallerHolds n)"
    by (blast intro: budget_inv_caller)
  from step_release have le: "n \<le> bb_used (bs_budget s)" by (blast intro: budget_inv_held)
  from c have n: "0 < n" by simp
  obtain b2 where "releaseLocked (bs_budget s) n = (None, b2)"
    "bb_used b2 = bb_used (bs_budget s) - n" "bb_limit b2 = bb_limit (bs_budget s)" "budget_ok b2"
    using ok n le by (rule releaseLocked_ok) blast
  with step_release show ?case
    by (intro budget_inv_set_caller) (auto intro: caller_ok_release [OF ok n le])
qed

interpretation budget_system: inductive_invariant "budget_start limit k" budget_step "budget_inv limit"
  by unfold_locales (rule budget_inv_start, assumption, rule budget_inv_step)

section \<open>Properties\<close>

text \<open>
  C1.  Whatever the interleaving of \<open>TryAcquire\<close>, \<open>Acquire\<close>, cancellation and \<open>Release\<close> by any number
  of goroutines, the bytes a budget reports as used are exactly the bytes its holders were granted
  and have not released, and they never exceed the limit.
\<close>

theorem budget_conservation:
  assumes "reachable (budget_start limit k) budget_step s"
  shows "bb_used (bs_budget s) = sum_list (map held (bs_callers s)) \<and>
    0 \<le> bb_used (bs_budget s) \<and> bb_used (bs_budget s) \<le> limit"
  using budget_system.inv_reachable [OF assms] by (auto simp: budget_inv_def budget_ok_def)

text \<open>
  C2.  There is no lost wake-up: in every reachable state a goroutine that waits inside \<open>Acquire\<close> for
  \<open>n\<close> bytes while \<open>n\<close> bytes are free waits on a channel that is already closed, so it can run.
\<close>

theorem acquire_no_lost_wakeup:
  assumes "reachable (budget_start limit k) budget_step s"
    and "i < length (bs_callers s)" and "bs_callers s ! i = CallerAcquiring (AcqWait n w)"
    and "n \<le> bb_limit (bs_budget s) - bb_used (bs_budget s)"
  shows "acquire_wake (bs_budget s) n w = Some (AcqLoop n)"
  using budget_inv_caller [OF budget_system.inv_reachable [OF assms(1)] assms(2,3)] assms(4)
  by (simp add: acquire_wake_def)

text \<open>
  A holder can always give its bytes back: in every reachable state the \<open>Release\<close> of a granted
  weight reports no invariant error and frees exactly that weight.
\<close>

lemma release_of_grant_succeeds:
  assumes "reachable (budget_start limit k) budget_step s"
    and "i < length (bs_callers s)" and "bs_callers s ! i = CallerHolds n"
  shows "\<exists>b. Release (Some (bs_budget s)) n = (None, Some b) \<and>
    bb_used b = bb_used (bs_budget s) - n"
proof -
  note inv = budget_system.inv_reachable [OF assms(1)]
  have "0 < n" using budget_inv_caller [OF inv assms(2,3)] by simp
  moreover have "n \<le> bb_used (bs_budget s)" using inv assms(2,3) by (rule budget_inv_held)
  moreover have "budget_ok (bs_budget s)" using inv by (simp add: budget_inv_def)
  ultimately obtain b where "releaseLocked (bs_budget s) n = (None, b)"
    "bb_used b = bb_used (bs_budget s) - n"
    by (metis releaseLocked_ok)
  then show ?thesis by (simp add: Release_def)
qed

text \<open>
  A run of two goroutines over a budget of ten bytes: the first takes eight, the second asks for
  five and waits, the first releases.
\<close>

definition example_budget :: "int64 \<Rightarrow> nat \<Rightarrow> nat list \<Rightarrow> byteBudget" where
  "example_budget u w cl =
     \<lparr>bb_limit = 10, bb_used = u, bb_wait = Some w, bb_made = Suc w, bb_closed = cl\<rparr>"

lemmas example_budget_eval =
  example_budget_def set_caller_def tryAcquireLocked_def validateAcquireLocked_def
  validateLocked_def acquire_enter_def acquire_round_def waitLocked_def releaseLocked_def
  wrap64_def signed_take_bit_int_eq_self

lemma example_held:
  "reachable (budget_start 10 2) budget_step
     \<lparr>bs_budget = example_budget 8 0 [], bs_callers = [CallerHolds 8, CallerIdle]\<rparr>"
proof -
  let ?s0 = "\<lparr>bs_budget = example_budget 0 0 [], bs_callers = [CallerIdle, CallerIdle]\<rparr>"
  have "reachable (budget_start 10 2) budget_step ?s0"
    by (rule reachable_start)
      (simp add: budget_start_def in_int64_def maxInt64_def newByteBudget_def example_budget_def
        numeral_2_eq_2)
  moreover have "budget_step ?s0
      (set_caller ?s0 0 (if (Inr True :: go_error + bool) = Inr True then CallerHolds 8 else CallerIdle)
        (example_budget 8 0 []))"
    by (rule budget_step.step_try) (simp_all add: example_budget_eval)
  ultimately show ?thesis
    using reachable_step by (fastforce simp: set_caller_def)
qed

lemma example_waiting:
  "reachable (budget_start 10 2) budget_step
     \<lparr>bs_budget = example_budget 0 1 [0],
       bs_callers = [CallerIdle, CallerAcquiring (AcqWait 5 0)]\<rparr>"
proof -
  let ?b = "example_budget 8 0 []"
  let ?s1 = "\<lparr>bs_budget = ?b, bs_callers = [CallerHolds 8, CallerIdle]\<rparr>"
  let ?s2 = "\<lparr>bs_budget = ?b, bs_callers = [CallerHolds 8, CallerAcquiring (AcqLoop 5)]\<rparr>"
  let ?s3 = "\<lparr>bs_budget = ?b, bs_callers = [CallerHolds 8, CallerAcquiring (AcqWait 5 0)]\<rparr>"
  have "budget_step ?s1 (set_caller ?s1 1
      (settle_acquire 5 (acquire_enter (Some (bs_budget ?s1)) False 5)) (bs_budget ?s1))"
    by (rule budget_step.step_enter) simp_all
  then have 1: "budget_step ?s1 ?s2" by (simp add: example_budget_eval)
  have "budget_step ?s2 (set_caller ?s2 1 (settle_acquire 5 (AcqWait 5 0)) ?b)"
    by (rule budget_step.step_round [where ctx_err = None]) (simp_all add: example_budget_eval)
  then have 2: "budget_step ?s2 ?s3" by (simp add: set_caller_def)
  have "budget_step ?s3 (set_caller ?s3 0 CallerIdle (example_budget 0 1 [0]))"
    by (rule budget_step.step_release [where n = 8]) (simp_all add: example_budget_eval)
  then have 3: "budget_step ?s3 \<lparr>bs_budget = example_budget 0 1 [0],
      bs_callers = [CallerIdle, CallerAcquiring (AcqWait 5 0)]\<rparr>"
    by (simp add: set_caller_def)
  from example_held 1 2 3 show ?thesis by (blast intro: reachable_step)
qed

theorem budget_conservation_witness:
  "bb_used (example_budget 8 0 []) = sum_list (map held [CallerHolds 8, CallerIdle])"
  using budget_conservation [OF example_held] by simp

theorem acquire_no_lost_wakeup_witness:
  "acquire_wake (example_budget 0 1 [0]) 5 0 = Some (AcqLoop 5)"
  using acquire_no_lost_wakeup [OF example_waiting, of 1 5 0] by (simp add: example_budget_def)

end
