(* ===== verification/Batch_Reservation.thy ===== *)
theory Batch_Reservation
  imports Byte_Budget
begin

text \<open>
  The two-level reservations of \<open>sdk/resource_budgets.go\<close> (a batch is charged to its Client and to
  the process, or to neither) and the decode admission weights of \<open>sdk/decode_admission.go\<close>.

  The two budget pointers are passed beside the reservation and returned updated; they are distinct
  objects in every call of the SDK.
\<close>

section \<open>Budgets of the process\<close>

definition clientBatchBudgetBytes :: int64 where "clientBatchBudgetBytes = 33554432"
definition processBatchBudgetBytes :: int64 where "processBatchBudgetBytes = 268435456"
definition processDecodeBudgetBytes :: int64 where "processDecodeBudgetBytes = 268435456"
definition connectionQueueBudgetBytes :: int64 where "connectionQueueBudgetBytes = 4194304"
definition processQueueBudgetBytes :: int64 where "processQueueBudgetBytes = 67108864"

text \<open>\<open>mustNewByteBudget\<close> panics on an error, which is \<open>None\<close>.\<close>

definition mustNewByteBudget :: "int64 \<Rightarrow> byteBudget option" where
  "mustNewByteBudget limit = (case newByteBudget limit of Inl e \<Rightarrow> None | Inr b \<Rightarrow> Some b)"

section \<open>Batch reservations\<close>

record batchReservation =
  br_weight :: int64
  br_released :: bool

datatype batchBudgetScope = batchBudgetScopeNone | batchBudgetScopeClient | batchBudgetScopeProcess

record reserve_result =
  rr_reservation :: "batchReservation option"
  rr_ok :: bool
  rr_scope :: batchBudgetScope
  rr_err :: "go_error option"

fun sum_err :: "go_error + bool \<Rightarrow> go_error option" where
  "sum_err (Inl e) = Some e"
| "sum_err (Inr ok) = None"

definition tryReserveBatchScoped ::
  "byteBudget option \<Rightarrow> byteBudget option \<Rightarrow> int64 \<Rightarrow>
   reserve_result \<times> byteBudget option \<times> byteBudget option" where
  "tryReserveBatchScoped client process weight =
     (case TryAcquire client weight of
        (Inr True, client1) \<Rightarrow>
          (case TryAcquire process weight of
             (Inr True, process1) \<Rightarrow>
               (\<lparr>rr_reservation = Some \<lparr>br_weight = weight, br_released = False\<rparr>, rr_ok = True,
                 rr_scope = batchBudgetScopeNone, rr_err = None\<rparr>, client1, process1)
           | (r, process1) \<Rightarrow>
               (case Release client1 weight of
                  (Some releaseErr, client2) \<Rightarrow>
                    (\<lparr>rr_reservation = None, rr_ok = False, rr_scope = batchBudgetScopeProcess,
                      rr_err = errors_Join [sum_err r, Some releaseErr]\<rparr>, client2, process1)
                | (None, client2) \<Rightarrow>
                    (\<lparr>rr_reservation = None, rr_ok = False, rr_scope = batchBudgetScopeProcess,
                      rr_err = sum_err r\<rparr>, client2, process1)))
      | (r, client1) \<Rightarrow>
          (\<lparr>rr_reservation = None, rr_ok = False, rr_scope = batchBudgetScopeClient,
            rr_err = sum_err r\<rparr>, client1, process))"

definition tryReserveBatch ::
  "byteBudget option \<Rightarrow> byteBudget option \<Rightarrow> int64 \<Rightarrow>
   (batchReservation option \<times> bool \<times> go_error option) \<times> byteBudget option \<times> byteBudget option" where
  "tryReserveBatch client process weight =
     (let (r, c, p) = tryReserveBatchScoped client process weight
      in ((rr_reservation r, rr_ok r, rr_err r), c, p))"

definition reservation_Weight :: "batchReservation option \<Rightarrow> int64" where
  "reservation_Weight ro = (case ro of None \<Rightarrow> 0 | Some r \<Rightarrow> br_weight r)"

definition reservation_Release ::
  "batchReservation option \<Rightarrow> byteBudget option \<Rightarrow> byteBudget option \<Rightarrow>
   go_error option \<times> batchReservation option \<times> byteBudget option \<times> byteBudget option" where
  "reservation_Release ro client process =
     (case ro of
        None \<Rightarrow> (Some (byteBudgetInvariantf ''nil batch reservation''), None, client, process)
      | Some r \<Rightarrow>
          if br_released r
          then (Some (byteBudgetInvariantf ''batch reservation released twice''), Some r, client, process)
          else
            let (clientErr, client1) = Release client (br_weight r);
                (processErr, process1) = Release process (br_weight r)
            in (errors_Join [clientErr, processErr], Some (r\<lparr>br_released := True\<rparr>), client1, process1))"

section \<open>Decode admission\<close>

definition decodeAdmissionTinyBytes :: int64 where "decodeAdmissionTinyBytes = 4194304"
definition decodeAdmissionSmallBytes :: int64 where "decodeAdmissionSmallBytes = 16777216"
definition decodeAdmissionLargeBytes :: int64 where "decodeAdmissionLargeBytes = 33554432"
definition decodeAdmissionMaxBytes :: int64 where "decodeAdmissionMaxBytes = 67108864"

text \<open>The \<open>uint8\<close> class codes of \<open>internal/protocol/codec.go\<close>.\<close>

type_synonym admission_class = nat

definition DecodeAdmissionTiny :: admission_class where "DecodeAdmissionTiny = 1"
definition DecodeAdmissionSmall :: admission_class where "DecodeAdmissionSmall = 2"
definition DecodeAdmissionLarge :: admission_class where "DecodeAdmissionLarge = 3"
definition DecodeAdmissionCompressed :: admission_class where "DecodeAdmissionCompressed = 4"
definition DecodeAdmissionAmbiguous :: admission_class where "DecodeAdmissionAmbiguous = 5"

lemmas admission_class_defs = DecodeAdmissionTiny_def DecodeAdmissionSmall_def
  DecodeAdmissionLarge_def DecodeAdmissionCompressed_def DecodeAdmissionAmbiguous_def

text \<open>
  \<open>estimator\<close> is the optional interface the codec may implement: \<open>None\<close> is the failed type assertion.
\<close>

definition decodeAdmissionWeight ::
  "(bytes \<Rightarrow> go_error + admission_class) option \<Rightarrow> bytes \<Rightarrow> go_error + int64" where
  "decodeAdmissionWeight estimator data =
     (case estimator of None \<Rightarrow> Inr decodeAdmissionMaxBytes
      | Some estimate \<Rightarrow>
          (case estimate data of Inl e \<Rightarrow> Inl e
           | Inr cl \<Rightarrow>
               if cl = DecodeAdmissionTiny then Inr decodeAdmissionTinyBytes
               else if cl = DecodeAdmissionSmall then Inr decodeAdmissionSmallBytes
               else if cl = DecodeAdmissionLarge then Inr decodeAdmissionLargeBytes
               else if cl = DecodeAdmissionCompressed \<or> cl = DecodeAdmissionAmbiguous
               then Inr decodeAdmissionMaxBytes
               else Inl (LibErr PlainError False
                      (''unknown decode admission class '' @ itoa (int cl)) None)))"

section \<open>Facts\<close>

definition opt_ok :: "byteBudget option \<Rightarrow> bool" where
  "opt_ok bo \<longleftrightarrow> (case bo of None \<Rightarrow> False | Some b \<Rightarrow> budget_ok b)"

lemma opt_okE: "opt_ok bo \<Longrightarrow> (\<And>b. bo = Some b \<Longrightarrow> budget_ok b \<Longrightarrow> thesis) \<Longrightarrow> thesis"
  by (cases bo) (auto simp: opt_ok_def)

lemma opt_ok_Some [simp]: "opt_ok (Some b) = budget_ok b"
  by (simp add: opt_ok_def)

text \<open>The pointer-level operations meet the same contract as the locked ones.\<close>

interpretation shared_budget: semaphore TryAcquire Release Used Limit opt_ok
proof (unfold_locales, goal_cases)
  case (1 bo n bo')
  then obtain b b' where b: "bo = Some b" "bo' = Some b'" "budget_ok b"
    "tryAcquireLocked b n = (Inr True, b')"
    by (auto simp: TryAcquire_def elim!: opt_okE split: prod.splits)
  from local_budget.acquire_granted [OF b(3,4)] b(1,2) show ?case by (simp add: Used_def Limit_def)
next
  case (2 bo n r bo')
  then obtain b b' where b: "bo = Some b" "bo' = Some b'" "tryAcquireLocked b n = (r, b')"
    by (auto simp: TryAcquire_def elim!: opt_okE split: prod.splits)
  with tryAcquireLocked_refused [OF b(3) 2(3)] show ?case by simp
next
  case (3 bo n)
  then obtain b where b: "bo = Some b" "budget_ok b" by (auto elim: opt_okE)
  with 3 local_budget.acquire_fits [OF b(2), of n] show ?case
    by (auto simp: TryAcquire_def Used_def Limit_def split: prod.splits)
next
  case (4 bo n)
  then obtain b where b: "bo = Some b" "budget_ok b" by (auto elim: opt_okE)
  with 4 local_budget.release_charged [OF b(2), of n] show ?case
    by (auto simp: Release_def Used_def Limit_def)
next
  case (5 bo n e bo')
  then obtain b b' where b: "bo = Some b" "bo' = Some b'" "budget_ok b"
    "releaseLocked b n = (Some e, b')"
    by (auto simp: Release_def elim!: opt_okE split: prod.splits)
  from local_budget.release_refused [OF b(3,4)] b(1,2) show ?case by simp
next
  case (6 bo)
  then show ?case by (auto simp: Used_def Limit_def budget_ok_def elim!: opt_okE)
qed

lemma errors_Join_None [simp]: "errors_Join [None, None] = None"
  by (simp add: errors_Join_def List.map_filter_def)

lemma tryReserveBatchScoped_success:
  assumes "opt_ok c" and "opt_ok p"
    and "tryReserveBatchScoped c p w = (r, c', p')" and "rr_ok r"
  shows "TryAcquire c w = (Inr True, c')" and "TryAcquire p w = (Inr True, p')"
    and "rr_reservation r = Some \<lparr>br_weight = w, br_released = False\<rparr>" and "rr_err r = None"
  using assms(3,4)
  by (auto simp: tryReserveBatchScoped_def split: prod.splits sum.splits bool.splits option.splits)

lemma tryReserveBatchScoped_failure:
  assumes c: "opt_ok c" and p: "opt_ok p"
    and r: "tryReserveBatchScoped c p w = (r, c', p')" and "\<not> rr_ok r"
  shows "rr_reservation r = None" and "opt_ok c'" and "opt_ok p'"
    and "Used c' = Used c" and "Limit c' = Limit c" and "p' = p"
proof -
  have "rr_reservation r = None \<and> opt_ok c' \<and> opt_ok p' \<and> Used c' = Used c \<and> Limit c' = Limit c \<and> p' = p"
  proof (cases "fst (TryAcquire c w) = Inr True")
    case False
    obtain x c1 where t: "TryAcquire c w = (x, c1)" by fastforce
    with False have x: "x \<noteq> Inr True" by simp
    with shared_budget.acquire_refused [OF c t] have "c1 = c" by simp
    moreover have "r = \<lparr>rr_reservation = None, rr_ok = False, rr_scope = batchBudgetScopeClient,
        rr_err = sum_err x\<rparr> \<and> c' = c1 \<and> p' = p"
      using r t x by (cases x) (auto simp: tryReserveBatchScoped_def)
    ultimately show ?thesis using c p by simp
  next
    case True
    then obtain c1 where t: "TryAcquire c w = (Inr True, c1)" by (metis prod.collapse)
    obtain y p1 where u: "TryAcquire p w = (y, p1)" by fastforce
    have y: "y \<noteq> Inr True" using r t u \<open>\<not> rr_ok r\<close> by (auto simp: tryReserveBatchScoped_def)
    from shared_budget.acquire_refused [OF p u y] have "p1 = p" .
    moreover obtain c2 where "Release c1 w = (None, c2)" "opt_ok c2" "Used c2 = Used c"
      "Limit c2 = Limit c"
      using c t by (rule shared_budget.acquire_then_release) blast
    ultimately show ?thesis
      using r t u y p by (cases y) (auto simp: tryReserveBatchScoped_def)
  qed
  then show "rr_reservation r = None" "opt_ok c'" "opt_ok p'" "Used c' = Used c"
    "Limit c' = Limit c" "p' = p" by blast+
qed

lemma tryReserveBatchScoped_accepts:
  assumes "opt_ok c" and "opt_ok p" and "0 < w"
    and "w \<le> Limit c - Used c" and "w \<le> Limit p - Used p"
  shows "rr_ok (fst (tryReserveBatchScoped c p w))"
proof -
  obtain c1 p1 where "TryAcquire c w = (Inr True, c1)" "TryAcquire p w = (Inr True, p1)"
    using shared_budget.acquire_fits [OF assms(1,3,4)] shared_budget.acquire_fits [OF assms(2,3,5)]
    by (metis prod.collapse)
  then show ?thesis by (simp add: tryReserveBatchScoped_def)
qed

section \<open>Properties\<close>

text \<open>
  C3.  A batch reservation is all or nothing: with valid budgets it is granted exactly when the
  weight is positive and fits both the Client and the process budget, a grant charges the weight
  to both, and a refusal leaves the usage of both as it was.
\<close>

theorem reserve_all_or_nothing:
  assumes c: "opt_ok c" and p: "opt_ok p"
    and r: "tryReserveBatchScoped c p w = (r, c', p')"
  shows "(rr_ok r \<longleftrightarrow> 0 < w \<and> w \<le> Limit c - Used c \<and> w \<le> Limit p - Used p)
    \<and> Used c' = Used c + (if rr_ok r then w else 0)
    \<and> Used p' = Used p + (if rr_ok r then w else 0)
    \<and> opt_ok c' \<and> opt_ok p'"
proof (cases "rr_ok r")
  case True
  note s = tryReserveBatchScoped_success [OF assms True]
  from shared_budget.acquire_granted [OF c s(1)] shared_budget.acquire_granted [OF p s(2)]
    shared_budget.acquire_exact [OF c, of w] shared_budget.acquire_exact [OF p, of w] s True
  show ?thesis by simp
next
  case False
  with tryReserveBatchScoped_accepts [OF c p, of w] r
  have "\<not> (0 < w \<and> w \<le> Limit c - Used c \<and> w \<le> Limit p - Used p)" by auto
  with tryReserveBatchScoped_failure [OF assms False] False show ?thesis by simp
qed

theorem reserve_all_or_nothing_witness:
  "\<exists>c' p'. tryReserveBatchScoped (mustNewByteBudget 100) (mustNewByteBudget 10) 50 =
      (\<lparr>rr_reservation = None, rr_ok = False, rr_scope = batchBudgetScopeProcess,
        rr_err = Some (byteBudgetInvariantf ''acquire 50 exceeds limit 10'')\<rparr>, c', p')
    \<and> Used c' = 0 \<and> Used p' = 0"
proof -
  let ?c = "mustNewByteBudget 100" and ?p = "mustNewByteBudget 10"
  obtain r c' p' where t: "tryReserveBatchScoped ?c ?p 50 = (r, c', p')"
    using prod_cases3 by blast
  have ok: "opt_ok ?c" "opt_ok ?p"
    by (simp_all add: mustNewByteBudget_def newByteBudget_def budget_ok_def in_int64_def maxInt64_def)
  have r: "r = \<lparr>rr_reservation = None, rr_ok = False, rr_scope = batchBudgetScopeProcess,
      rr_err = Some (byteBudgetInvariantf ''acquire 50 exceeds limit 10'')\<rparr>"
    using t by (simp add: tryReserveBatchScoped_def mustNewByteBudget_def newByteBudget_def
        TryAcquire_def Release_def example_budget_eval Let_def itoa_def nat_digits.simps)
  from reserve_all_or_nothing [OF ok t] r t show ?thesis
    by (simp add: Used_def mustNewByteBudget_def newByteBudget_def)
qed

text \<open>
  A reservation is returned exactly once: the first \<open>Release\<close> of a granted reservation restores
  the usage of both budgets without an error, and a second \<open>Release\<close> reports the invariant error
  and changes neither budget.
\<close>

lemma reservation_released_once:
  assumes c: "opt_ok c" and p: "opt_ok p"
    and r: "tryReserveBatchScoped c p w = (r, c1, p1)" and ok: "rr_ok r"
  shows "\<exists>res c2 p2 e.
    reservation_Release (rr_reservation r) c1 p1 = (None, Some res, c2, p2)
    \<and> Used c2 = Used c \<and> Used p2 = Used p \<and> opt_ok c2 \<and> opt_ok p2
    \<and> reservation_Release (Some res) c2 p2 = (Some e, Some res, c2, p2)
    \<and> errors_Is e ErrByteBudgetInvariant"
proof -
  note s = tryReserveBatchScoped_success [OF c p r ok]
  obtain c2 where c2: "Release c1 w = (None, c2)" "opt_ok c2" "Used c2 = Used c"
    using c s(1) by (rule shared_budget.acquire_then_release) blast
  obtain p2 where p2: "Release p1 w = (None, p2)" "opt_ok p2" "Used p2 = Used p"
    using p s(2) by (rule shared_budget.acquire_then_release) blast
  from s(3) c2 p2 show ?thesis
    by (simp add: reservation_Release_def byteBudgetInvariantf_def)
qed

text \<open>
  Decode admission never asks for more than the process decode budget holds: whatever the
  codec estimates, a weight that is returned lies between 4 and 64 MiB, so \<open>Acquire\<close> on the process
  decode budget can only succeed, wait or be canceled, never fail validation.
\<close>

lemma decode_admission_weight_bounded:
  assumes "decodeAdmissionWeight estimator data = Inr w"
    and "mustNewByteBudget processDecodeBudgetBytes = Some b0"
    and "bb_limit b = bb_limit b0" and "budget_ok b"
  shows "decodeAdmissionTinyBytes \<le> w \<and> w \<le> decodeAdmissionMaxBytes
    \<and> acquire_enter (Some b) False w = AcqLoop w"
proof -
  have w: "decodeAdmissionTinyBytes \<le> w" "w \<le> decodeAdmissionMaxBytes"
    using assms(1)
    by (auto simp: decodeAdmissionWeight_def decodeAdmissionTinyBytes_def decodeAdmissionSmallBytes_def
        decodeAdmissionLargeBytes_def decodeAdmissionMaxBytes_def split: option.splits sum.splits if_splits)
  moreover have "bb_limit b = processDecodeBudgetBytes"
    using assms(2,3)
    by (simp add: mustNewByteBudget_def newByteBudget_def processDecodeBudgetBytes_def) auto
  ultimately have "validateAcquireLocked b w = None"
    using assms(4) by (simp add: validateAcquireLocked_None budget_ok_def decodeAdmissionTinyBytes_def
        decodeAdmissionMaxBytes_def processDecodeBudgetBytes_def)
  with w show ?thesis by (simp add: acquire_enter_def)
qed

end
