(* ===== verification/Protocol_Model.thy ===== *)
theory Protocol_Model
  imports Errors
begin

text \<open>
  The protobuf-independent wire model of \<open>internal/protocol/model.go\<close> and the limits of
  \<open>internal/protocol/limits.go\<close>.  A slice whose capacity matters is a pair of its elements and its
  capacity; pointers that may be nil are options; the enumerations are the integers of the source;
  floating-point fields are their IEEE bit patterns.
\<close>

type_synonym 'a goslice = "'a list \<times> nat"

section \<open>Limits\<close>

abbreviation (input) MaxCodecInputBytes :: nat where "MaxCodecInputBytes \<equiv> 16777216"
abbreviation (input) MaxSyncMetas :: nat where "MaxSyncMetas \<equiv> 256"
abbreviation (input) MaxSyncPayloadBytes :: nat where "MaxSyncPayloadBytes \<equiv> 2097152"
abbreviation (input) MaxSyncStringBytes :: nat where "MaxSyncStringBytes \<equiv> 1048576"
abbreviation (input) MaxSyncDirectedUsers :: nat where "MaxSyncDirectedUsers \<equiv> 1024"
abbreviation (input) MaxSyncRetainedWeight :: nat where "MaxSyncRetainedWeight \<equiv> 8388608"
abbreviation (input) MaxJIDComponentBytes :: nat where "MaxJIDComponentBytes \<equiv> 4096"
abbreviation (input) MaxJIDBytes :: nat where "MaxJIDBytes \<equiv> 16384"
abbreviation (input) MaxFrameCollectionItems :: nat where "MaxFrameCollectionItems \<equiv> 4096"

definition ActionVersion :: string where "ActionVersion = ''v5.1''"

section \<open>Enumerations\<close>

abbreviation (input) CommandSync :: int where "CommandSync \<equiv> 0"
abbreviation (input) CommandUnread :: int where "CommandUnread \<equiv> 1"
abbreviation (input) CommandNotice :: int where "CommandNotice \<equiv> 2"
abbreviation (input) CommandProvision :: int where "CommandProvision \<equiv> 3"
abbreviation (input) CommandLogout :: int where "CommandLogout \<equiv> 4"

abbreviation (input) NamespaceStatistic :: int where "NamespaceStatistic \<equiv> 0"
abbreviation (input) NamespaceChat :: int where "NamespaceChat \<equiv> 1"

abbreviation (input) RouteAll :: int where "RouteAll \<equiv> 0"
abbreviation (input) RouteOnline :: int where "RouteOnline \<equiv> 1"
abbreviation (input) RouteDirect :: int where "RouteDirect \<equiv> 2"

abbreviation (input) StatusOK :: int where "StatusOK \<equiv> 0"
abbreviation (input) StatusRedirect :: int where "StatusRedirect \<equiv> 5"

abbreviation (input) MessageChat :: int where "MessageChat \<equiv> 1"
abbreviation (input) MessageGroupChat :: int where "MessageGroupChat \<equiv> 2"

abbreviation (input) ContentText :: int where "ContentText \<equiv> 0"
abbreviation (input) ContentCommand :: int where "ContentCommand \<equiv> 6"
abbreviation (input) ContentCustom :: int where "ContentCustom \<equiv> 7"

abbreviation (input) StatisticInformation :: int where "StatisticInformation \<equiv> 0"
abbreviation (input) StatisticUserRemoved :: int where "StatisticUserRemoved \<equiv> 1"
abbreviation (input) StatisticUserLoginAnotherDevice :: int where "StatisticUserLoginAnotherDevice \<equiv> 2"
abbreviation (input) StatisticUserKickedByChangePassword :: int where
  "StatisticUserKickedByChangePassword \<equiv> 3"
abbreviation (input) StatisticUserKickedByOtherDevice :: int where "StatisticUserKickedByOtherDevice \<equiv> 4"

section \<open>Wire objects\<close>

record JID =
  jid_AppKey :: string
  jid_Name :: string
  jid_Domain :: string
  jid_ClientResource :: string

definition jid_ID :: "JID \<Rightarrow> string" where
  "jid_ID j = jid_AppKey j @ ''/'' @ jid_Name j @ ''/'' @ jid_Domain j @ ''/'' @ jid_ClientResource j"

definition jid_BareID :: "JID \<Rightarrow> string" where
  "jid_BareID j = jid_AppKey j @ ''/'' @ jid_Name j @ ''/'' @ jid_Domain j"

record Status =
  st_Code :: int
  st_Reason :: string
  st_Redirects :: "redirect_info goslice"

record Provision =
  pv_Status :: "Status option"
  pv_SessionID :: string
  pv_AuthToken :: bytes

record Unread =
  un_Status :: "Status option"
  un_Queues :: "JID list"
  un_Timestamp :: uint64

record KeyValue =
  kv_Key :: string
  kv_Kind :: int
  kv_Bool :: bool
  kv_Int64 :: int64
  kv_Uint64 :: uint64
  kv_Float :: "32 word"
  kv_Double :: "64 word"
  kv_String :: string

record Meta =
  me_ID :: uint64
  me_From :: JID
  me_To :: JID
  me_Timestamp :: uint64
  me_Namespace :: int
  me_Payload :: "byte goslice"
  me_Route :: int
  me_Ext :: "KeyValue goslice"
  me_DirectedUsers :: "string goslice"
  me_ExpireTime :: uint64
  me_LocalTimestamp :: uint64
  me_Environment :: string
  me_Attributes :: "byte goslice"

record Sync =
  sy_Status :: "Status option"
  sy_MetaID :: uint64
  sy_ServerID :: uint64
  sy_Metas :: "Meta goslice"
  sy_NextKey :: uint64
  sy_Queue :: "JID option"
  sy_IsLast :: bool
  sy_Timestamp :: uint64

record Logout =
  lo_Status :: "Status option"

record Frame =
  fr_Command :: int
  fr_TraceID :: uint64
  fr_Provision :: "Provision option"
  fr_Unread :: "Unread option"
  fr_Notice :: "JID option"
  fr_Sync :: "Sync option"
  fr_Logout :: "Logout option"

record Content =
  co_Kind :: int
  co_Text :: string
  co_Action :: string
  co_Params :: "KeyValue list"
  co_Event :: string
  co_CustomExts :: "KeyValue list"
  co_RawPayload :: bytes

record MessageBody =
  mb_Kind :: int
  mb_From :: JID
  mb_To :: JID
  mb_Contents :: "Content list"
  mb_Ext :: "KeyValue list"

record Statistic =
  sc_Operation :: int
  sc_ReplaceDeviceName :: string
  sc_SessionID :: string
  sc_Reason :: string

text \<open>The zero values of the structures.\<close>

definition emptyJID :: JID where
  "emptyJID = \<lparr>jid_AppKey = [], jid_Name = [], jid_Domain = [], jid_ClientResource = []\<rparr>"

definition emptyMeta :: Meta where
  "emptyMeta = \<lparr>me_ID = 0, me_From = emptyJID, me_To = emptyJID, me_Timestamp = 0, me_Namespace = 0,
     me_Payload = ([], 0), me_Route = 0, me_Ext = ([], 0), me_DirectedUsers = ([], 0),
     me_ExpireTime = 0, me_LocalTimestamp = 0, me_Environment = [], me_Attributes = ([], 0)\<rparr>"

definition emptySync :: Sync where
  "emptySync = \<lparr>sy_Status = None, sy_MetaID = 0, sy_ServerID = 0, sy_Metas = ([], 0), sy_NextKey = 0,
     sy_Queue = None, sy_IsLast = False, sy_Timestamp = 0\<rparr>"

end
