(* ===== verification/Retained_Weight.thy ===== *)
theory Retained_Weight
  imports Protocol_Model
begin

text \<open>
  \<open>SyncRetainedWeight\<close> of \<open>internal/protocol/model.go\<close>: the conservative memory charge of a decoded
  batch, computed in \<open>uint64\<close> with checked operations.  The reference definition \<open>retained_spec\<close> is
  the same charge over unbounded naturals; the main theorem is their equivalence.

  Sizes are those of the 64-bit targets the SDK is released for.
\<close>

section \<open>Checked arithmetic\<close>

definition checkedRetainedAdd :: "uint64 \<Rightarrow> uint64 \<Rightarrow> uint64 option" where
  "checkedRetainedAdd a b = (if a > NOT 0 - b then None else Some (a + b))"

definition checkedRetainedMul :: "uint64 \<Rightarrow> uint64 \<Rightarrow> uint64 option" where
  "checkedRetainedMul a b = (if a \<noteq> 0 \<and> b > NOT 0 div a then None else Some (a * b))"

definition checkedRetainedRoundUp :: "uint64 \<Rightarrow> uint64 \<Rightarrow> uint64 option" where
  "checkedRetainedRoundUp v quantum =
     (if quantum = 0 then None
      else let remainder = v mod quantum
           in if remainder = 0 then Some v else checkedRetainedAdd v (quantum - remainder))"

section \<open>The estimator\<close>

definition retainedAllocationQuantum :: uint64 where "retainedAllocationQuantum = 128"
definition retainedAllocationOverhead :: uint64 where "retainedAllocationOverhead = 16"
definition retainedSafetyFactor :: uint64 where "retainedSafetyFactor = 2"
definition retainedPageSize :: uint64 where "retainedPageSize = 4096"

definition limitErr :: "string \<Rightarrow> go_error" where
  "limitErr msg = WrapErr (sentinel_text ErrLimitExceeded @ '': '' @ msg) (Sentinel ErrLimitExceeded)"

text \<open>The methods of \<open>retainedWeightEstimator\<close> take its \<open>total\<close> and return the new one.\<close>

definition est_allocation :: "uint64 \<Rightarrow> uint64 \<Rightarrow> go_error + uint64" where
  "est_allocation sz tot =
     (if sz = 0 then Inr tot
      else (case checkedRetainedRoundUp sz retainedAllocationQuantum of
              None \<Rightarrow> Inl (limitErr ''sync retained allocation overflows'')
            | Some rounded \<Rightarrow>
                (case checkedRetainedAdd rounded retainedAllocationOverhead of
                   None \<Rightarrow> Inl (limitErr ''sync retained allocation overflows'')
                 | Some rounded' \<Rightarrow>
                     (case checkedRetainedAdd tot rounded' of
                        None \<Rightarrow> Inl (limitErr ''sync retained weight overflows'')
                      | Some tot2 \<Rightarrow> Inr tot2))))"

definition est_slice :: "nat \<Rightarrow> uint64 \<Rightarrow> uint64 \<Rightarrow> go_error + uint64" where
  "est_slice capacity elementSize tot =
     (if capacity = 0 then Inr tot
      else (case checkedRetainedMul (of_nat capacity) elementSize of
              None \<Rightarrow> Inl (limitErr ''sync retained slice overflows'')
            | Some sz \<Rightarrow> est_allocation sz tot))"

definition est_string :: "string \<Rightarrow> uint64 \<Rightarrow> go_error + uint64" where
  "est_string s = est_allocation (of_nat (length s))"

definition est_jid :: "JID \<Rightarrow> uint64 \<Rightarrow> go_error + uint64" where
  "est_jid j = for_each est_string [jid_AppKey j, jid_Name j, jid_Domain j, jid_ClientResource j]"

text \<open>\<open>unsafe.Sizeof\<close> of the structures on a 64-bit target.\<close>

abbreviation sizeof_Sync :: uint64 where "sizeof_Sync \<equiv> 80"
abbreviation sizeof_Status :: uint64 where "sizeof_Status \<equiv> 48"
abbreviation sizeof_RedirectInfo :: uint64 where "sizeof_RedirectInfo \<equiv> 24"
abbreviation sizeof_JID :: uint64 where "sizeof_JID \<equiv> 64"
abbreviation sizeof_Meta :: uint64 where "sizeof_Meta \<equiv> 288"
abbreviation sizeof_KeyValue :: uint64 where "sizeof_KeyValue \<equiv> 72"
abbreviation sizeof_string :: uint64 where "sizeof_string \<equiv> 16"

definition est_status :: "Status \<Rightarrow> uint64 \<Rightarrow> go_error + uint64" where
  "est_status st t =
     and_then (est_allocation sizeof_Status t) (\<lambda>t.
     and_then (est_string (st_Reason st) t) (\<lambda>t.
     and_then (est_slice (snd (st_Redirects st)) sizeof_RedirectInfo t)
       (for_each (\<lambda>r. est_string (fst r)) (fst (st_Redirects st)))))"

definition est_kv :: "KeyValue \<Rightarrow> uint64 \<Rightarrow> go_error + uint64" where
  "est_kv kv t = and_then (est_string (kv_Key kv) t) (est_string (kv_String kv))"

definition est_meta :: "Meta \<Rightarrow> uint64 \<Rightarrow> go_error + uint64" where
  "est_meta m t =
     and_then (est_slice (snd (me_Payload m)) 1 t) (\<lambda>t.
     and_then (est_slice (snd (me_Attributes m)) 1 t) (\<lambda>t.
     and_then (est_jid (me_From m) t) (\<lambda>t.
     and_then (est_jid (me_To m) t) (\<lambda>t.
     and_then (est_slice (snd (me_Ext m)) sizeof_KeyValue t) (\<lambda>t.
     and_then (for_each est_kv (fst (me_Ext m)) t) (\<lambda>t.
     and_then (est_slice (snd (me_DirectedUsers m)) sizeof_string t) (\<lambda>t.
     and_then (for_each est_string (fst (me_DirectedUsers m)) t)
       (est_string (me_Environment m)))))))))"

definition est_sync :: "Sync \<Rightarrow> uint64 \<Rightarrow> go_error + uint64" where
  "est_sync s t =
     and_then (est_allocation sizeof_Sync t) (\<lambda>t.
     and_then (case sy_Status s of None \<Rightarrow> Inr t | Some st \<Rightarrow> est_status st t) (\<lambda>t.
     and_then (case sy_Queue s of None \<Rightarrow> Inr t
               | Some q \<Rightarrow> and_then (est_allocation sizeof_JID t) (est_jid q)) (\<lambda>t.
     and_then (est_slice (snd (sy_Metas s)) sizeof_Meta t)
       (for_each est_meta (fst (sy_Metas s))))))"

definition SyncRetainedWeight :: "Sync option \<Rightarrow> go_error + int64" where
  "SyncRetainedWeight so =
     (case so of None \<Rightarrow> Inr 0
      | Some s \<Rightarrow>
          and_then (est_sync s 0) (\<lambda>tot.
            case checkedRetainedMul tot retainedSafetyFactor of
              None \<Rightarrow> Inl (limitErr ''sync retained weight overflows'')
            | Some weighted \<Rightarrow>
                (case checkedRetainedRoundUp weighted retainedPageSize of
                   None \<Rightarrow> Inl (limitErr ''sync retained weight exceeds 8388608 bytes'')
                 | Some weighted' \<Rightarrow>
                     if weighted' > of_nat MaxSyncRetainedWeight
                     then Inl (limitErr ''sync retained weight exceeds 8388608 bytes'')
                     else Inr (sint weighted'))))"

section \<open>The reference charge\<close>

definition round_up :: "nat \<Rightarrow> nat \<Rightarrow> nat" where
  "round_up n q = ((n + q - 1) div q) * q"

definition charge :: "nat \<Rightarrow> nat" where
  "charge n = (if n = 0 then 0 else round_up n 128 + 16)"

definition charge_jid :: "JID \<Rightarrow> nat" where
  "charge_jid j = charge (length (jid_AppKey j)) + charge (length (jid_Name j))
     + charge (length (jid_Domain j)) + charge (length (jid_ClientResource j))"

definition charge_status :: "Status \<Rightarrow> nat" where
  "charge_status st = charge 48 + charge (length (st_Reason st)) + charge (snd (st_Redirects st) * 24)
     + sum_list (map (\<lambda>r. charge (length (fst r))) (fst (st_Redirects st)))"

definition charge_meta :: "Meta \<Rightarrow> nat" where
  "charge_meta m = charge (snd (me_Payload m)) + charge (snd (me_Attributes m))
     + charge_jid (me_From m) + charge_jid (me_To m) + charge (snd (me_Ext m) * 72)
     + sum_list (map (\<lambda>kv. charge (length (kv_Key kv)) + charge (length (kv_String kv))) (fst (me_Ext m)))
     + charge (snd (me_DirectedUsers m) * 16)
     + sum_list (map (\<lambda>u. charge (length u)) (fst (me_DirectedUsers m)))
     + charge (length (me_Environment m))"

definition charge_sync :: "Sync \<Rightarrow> nat" where
  "charge_sync s = charge 80
     + (case sy_Status s of None \<Rightarrow> 0 | Some st \<Rightarrow> charge_status st)
     + (case sy_Queue s of None \<Rightarrow> 0 | Some q \<Rightarrow> charge 64 + charge_jid q)
     + charge (snd (sy_Metas s) * 288) + sum_list (map charge_meta (fst (sy_Metas s)))"

definition retained_spec :: "Sync \<Rightarrow> nat" where
  "retained_spec s = round_up (2 * charge_sync s) 4096"

text \<open>Lengths and capacities are Go ints.\<close>

definition sized :: "nat \<Rightarrow> bool" where "sized n \<longleftrightarrow> n < 2 ^ 63"

definition sized_jid :: "JID \<Rightarrow> bool" where
  "sized_jid j \<longleftrightarrow> sized (length (jid_AppKey j)) \<and> sized (length (jid_Name j))
     \<and> sized (length (jid_Domain j)) \<and> sized (length (jid_ClientResource j))"

definition sized_status :: "Status \<Rightarrow> bool" where
  "sized_status st \<longleftrightarrow> sized (length (st_Reason st)) \<and> sized (snd (st_Redirects st))
     \<and> list_all (\<lambda>r. sized (length (fst r))) (fst (st_Redirects st))"

definition sized_meta :: "Meta \<Rightarrow> bool" where
  "sized_meta m \<longleftrightarrow> sized (snd (me_Payload m)) \<and> sized (snd (me_Attributes m))
     \<and> sized_jid (me_From m) \<and> sized_jid (me_To m) \<and> sized (snd (me_Ext m))
     \<and> list_all (\<lambda>kv. sized (length (kv_Key kv)) \<and> sized (length (kv_String kv))) (fst (me_Ext m))
     \<and> sized (snd (me_DirectedUsers m))
     \<and> list_all (\<lambda>u. sized (length u)) (fst (me_DirectedUsers m))
     \<and> sized (length (me_Environment m))"

definition sized_sync :: "Sync \<Rightarrow> bool" where
  "sized_sync s \<longleftrightarrow> (case sy_Status s of None \<Rightarrow> True | Some st \<Rightarrow> sized_status st)
     \<and> (case sy_Queue s of None \<Rightarrow> True | Some q \<Rightarrow> sized_jid q)
     \<and> sized (snd (sy_Metas s)) \<and> list_all sized_meta (fst (sy_Metas s))"

section \<open>Checked arithmetic is exact\<close>

definition two64 :: nat where "two64 = 18446744073709551616"

lemma unat_uint64_less: "unat (w :: uint64) < two64"
  using unsigned_less [of w] by (simp add: two64_def)

lemma unat_not_0: "unat (NOT 0 :: uint64) = 18446744073709551615"
  by (simp add: unsigned_minus_1_eq_mask mask_eq_exp_minus_1)

lemma word_not_0_minus: "unat (NOT 0 - b :: uint64) = 18446744073709551615 - unat b"
proof -
  have "unat (NOT 0 - b) = unat (NOT 0 :: uint64) - unat b"
    by (rule unat_sub) (simp add: word_order.extremum)
  then show ?thesis by (simp only: unat_not_0)
qed

lemma checkedRetainedAdd_exact:
  "checkedRetainedAdd a b =
     (if unat a + unat b < two64 then Some (of_nat (unat a + unat b)) else None)"
proof -
  have "a > NOT 0 - b \<longleftrightarrow> \<not> unat a + unat b < two64"
    unfolding word_less_nat_alt word_not_0_minus
    using unat_uint64_less [of a] unat_uint64_less [of b] by (auto simp: two64_def)
  then show ?thesis by (simp add: checkedRetainedAdd_def)
qed

lemma checkedRetainedMul_exact:
  "checkedRetainedMul a b =
     (if unat a * unat b < two64 then Some (of_nat (unat a * unat b)) else None)"
proof (cases "a = 0")
  case True
  then show ?thesis by (simp add: checkedRetainedMul_def two64_def)
next
  case False
  then have pos: "0 < unat a" by (simp add: unat_gt_0)
  have "b > NOT 0 div a \<longleftrightarrow> 18446744073709551615 div unat a < unat b"
    by (simp only: word_less_nat_alt unat_div unat_not_0)
  also have "\<dots> \<longleftrightarrow> 18446744073709551615 < unat b * unat a"
    by (rule div_less_iff_less_mult [OF pos])
  also have "\<dots> \<longleftrightarrow> \<not> unat a * unat b < two64"
    by (auto simp: mult.commute two64_def)
  finally show ?thesis using False by (simp add: checkedRetainedMul_def)
qed

lemma round_up_eq:
  assumes q: "0 < q"
  shows "round_up n q = (if n mod q = 0 then n else n + (q - n mod q))"
proof -
  have n: "q * (n div q) + n mod q = n" by simp
  have r: "n mod q < q" using q by simp
  show ?thesis
  proof (cases "n mod q = 0")
    case True
    have "(n + q - 1) div q = n div q"
    proof (rule div_nat_eqI)
      show "q * (n div q) \<le> n + q - 1" using n q by linarith
      show "n + q - 1 < q * Suc (n div q)" using n True q by (simp only: mult_Suc_right)
    qed
    with True n show ?thesis by (simp add: round_up_def mult.commute)
  next
    case False
    have "(n + q - 1) div q = Suc (n div q)"
    proof (rule div_nat_eqI)
      show "q * Suc (n div q) \<le> n + q - 1" using n False by (simp only: mult_Suc_right; linarith)
      show "n + q - 1 < q * Suc (Suc (n div q))" using n r by (simp only: mult_Suc_right; linarith)
    qed
    then have "round_up n q = q + q * (n div q)" by (simp add: round_up_def mult.commute)
    with False n r show ?thesis by (simp only: if_False; linarith)
  qed
qed

lemma le_round_up: "0 < q \<Longrightarrow> n \<le> round_up n q"
  using mod_less_divisor [of q n] by (simp only: round_up_eq split: if_split) linarith

lemma round_up_mod [simp]: "round_up n q mod q = 0"
  by (simp add: round_up_def)

lemma checkedRetainedRoundUp_exact:
  assumes "0 < unat q"
  shows "checkedRetainedRoundUp v q =
     (if round_up (unat v) (unat q) < two64 then Some (of_nat (round_up (unat v) (unat q))) else None)"
proof -
  have q: "q \<noteq> 0" using assms by auto
  have m: "unat (v mod q) = unat v mod unat q" by (rule unat_mod)
  have le: "v mod q \<le> q" using assms m by (simp add: word_le_nat_alt less_imp_le)
  then have d: "unat (q - v mod q) = unat q - unat v mod unat q" by (simp add: unat_sub m)
  have le': "unat v mod unat q \<le> unat q" using assms by (simp add: less_imp_le)
  have z: "v mod q = 0 \<longleftrightarrow> unat v mod unat q = 0" using m by (metis unat_eq_zero)
  show ?thesis
    using q unat_uint64_less [of v] le' by (simp add: checkedRetainedRoundUp_def Let_def
        round_up_eq [OF assms] z checkedRetainedAdd_exact d)
qed

section \<open>Charging computations\<close>

text \<open>
  \<open>charges f c\<close>: the estimator step \<open>f\<close> adds exactly \<open>c\<close> to the total, or reports a limit error when
  the sum does not fit 64 bits.  The predicate composes, which gives the whole estimator.
\<close>

definition limited :: "go_error + 'a \<Rightarrow> bool" where
  "limited m \<longleftrightarrow> (\<exists>e. m = Inl e \<and> errors_Is e ErrLimitExceeded)"

definition charges :: "(uint64 \<Rightarrow> go_error + uint64) \<Rightarrow> nat \<Rightarrow> bool" where
  "charges f c \<longleftrightarrow>
     (\<forall>t. if unat t + c < two64 then f t = Inr (of_nat (unat t + c)) else limited (f t))"

lemma limited_limitErr [simp]: "limited (Inl (limitErr msg))"
  by (simp add: limited_def limitErr_def)

lemma limited_and_then [simp]: "limited m \<Longrightarrow> limited (and_then m f)"
  by (auto simp: limited_def)

lemma not_limited_Inr [simp]: "\<not> limited (Inr x)"
  by (simp add: limited_def)

lemma unat_of_nat_uint64: "n < two64 \<Longrightarrow> unat (of_nat n :: uint64) = n"
  by (simp add: unat_of_nat take_bit_nat_eq_self two64_def)

lemma charges_Inr: "charges Inr 0"
  by (simp add: charges_def unat_uint64_less)

lemma charges_seq:
  assumes f: "charges f c" and g: "charges g d"
  shows "charges (\<lambda>t. and_then (f t) g) (c + d)"
  unfolding charges_def
proof
  fix t
  show "if unat t + (c + d) < two64 then and_then (f t) g = Inr (of_nat (unat t + (c + d)))
        else limited (and_then (f t) g)"
  proof (cases "unat t + c < two64")
    case True
    then have ft: "f t = Inr (of_nat (unat t + c))" using f by (simp add: charges_def)
    have u: "unat (of_nat (unat t + c) :: uint64) = unat t + c" using True by (rule unat_of_nat_uint64)
    show ?thesis
      using g [unfolded charges_def, rule_format, of "of_nat (unat t + c)"] ft u
      by (simp add: add.assoc del: of_nat_add)
  next
    case False
    then have "limited (f t)" using f by (simp add: charges_def)
    with False show ?thesis by simp
  qed
qed

lemma charges_for_each:
  assumes "\<And>x. x \<in> set xs \<Longrightarrow> charges (f x) (c x)"
  shows "charges (for_each f xs) (sum_list (map c xs))"
  using assms
proof (induction xs)
  case Nil
  show ?case using charges_Inr by (simp add: charges_def)
next
  case (Cons x xs)
  have "charges (\<lambda>t. and_then (f x t) (for_each f xs)) (c x + sum_list (map c xs))"
    by (rule charges_seq) (use Cons in auto)
  moreover have "(\<lambda>t. and_then (f x t) (for_each f xs)) = for_each f (x # xs)" by (rule ext) simp
  ultimately show ?case by simp
qed

lemma charges_allocation:
  assumes "n < two64"
  shows "charges (est_allocation (of_nat n)) (charge n)"
proof -
  have u: "unat (of_nat n :: uint64) = n" using assms by (rule unat_of_nat_uint64)
  have z: "(of_nat n :: uint64) = 0 \<longleftrightarrow> n = 0" using u by (cases "n = 0") auto
  have r: "checkedRetainedRoundUp (of_nat n) 128 =
      (if round_up n 128 < two64 then Some (of_nat (round_up n 128)) else None)"
    using checkedRetainedRoundUp_exact [of 128 "of_nat n"] u by simp
  have a: "checkedRetainedAdd (of_nat (round_up n 128)) 16 =
      (if charge n < two64 then Some (of_nat (charge n)) else None)"
    if "round_up n 128 < two64" and "n \<noteq> 0"
    using that checkedRetainedAdd_exact [of "of_nat (round_up n 128)" 16]
    by (simp add: unat_of_nat_uint64 charge_def)
  have step: "est_allocation (of_nat n) t =
      (if n = 0 then Inr t
       else if charge n < two64 then
         (if unat t + charge n < two64 then Inr (of_nat (unat t + charge n))
          else Inl (limitErr ''sync retained weight overflows''))
       else Inl (limitErr ''sync retained allocation overflows''))" for t
  proof (cases "n \<noteq> 0 \<and> round_up n 128 < two64")
    case True
    then have nz: "n \<noteq> 0" and ru: "round_up n 128 < two64" by simp_all
    show ?thesis
      unfolding est_allocation_def retainedAllocationQuantum_def retainedAllocationOverhead_def z r
      using nz ru by (simp add: a [OF ru nz] checkedRetainedAdd_exact unat_of_nat_uint64 charge_def
          del: of_nat_add)
  next
    case False
    then show ?thesis
      unfolding est_allocation_def retainedAllocationQuantum_def retainedAllocationOverhead_def z r
      by (auto simp: charge_def)
  qed
  show ?thesis
    unfolding charges_def step by (simp add: charge_def unat_uint64_less)
qed

lemma charges_slice:
  assumes "n < two64" and "0 < k" and "k < two64"
  shows "charges (est_slice n (of_nat k)) (charge (n * k))"
proof -
  have m: "checkedRetainedMul (of_nat n) (of_nat k :: uint64) =
      (if n * k < two64 then Some (of_nat (n * k)) else None)"
    using assms by (simp add: checkedRetainedMul_exact unat_of_nat_uint64)
  show ?thesis
  proof (cases "n = 0")
    case True
    then have "est_slice n (of_nat k) = Inr" by (simp add: fun_eq_iff est_slice_def)
    with True show ?thesis using charges_Inr by (simp add: charge_def)
  next
    case n: False
    show ?thesis
    proof (cases "n * k < two64")
      case True
      then have "est_slice n (of_nat k) = est_allocation (of_nat (n * k))"
        using n m by (simp add: fun_eq_iff est_slice_def)
      with True charges_allocation show ?thesis by metis
    next
      case False
      have "n * k \<le> charge (n * k)" using n assms(2) le_round_up [of 128 "n * k"]
        by (simp add: charge_def)
      with False have "\<not> unat t + charge (n * k) < two64" for t :: uint64 by linarith
      moreover have "limited (est_slice n (of_nat k) t)" for t
        using n m False by (simp add: est_slice_def)
      ultimately show ?thesis by (simp add: charges_def)
    qed
  qed
qed

lemma sized_two64: "sized n \<Longrightarrow> n < two64"
  by (simp add: sized_def two64_def)

lemma charges_string: "sized (length s) \<Longrightarrow> charges (est_string s) (charge (length s))"
  unfolding est_string_def by (rule charges_allocation) (rule sized_two64)

lemma charges_const: "charges (est_allocation (numeral k)) (charge (numeral k))"
  if "numeral k < two64"
  using charges_allocation [OF that] by simp

lemma charges_slice_const:
  "charges (est_slice n (numeral k)) (charge (n * numeral k))" if "sized n" "numeral k < two64"
  using charges_slice [OF sized_two64 [OF that(1)] _ that(2)] by simp

lemma charges_slice_1: "sized n \<Longrightarrow> charges (est_slice n 1) (charge n)"
  using charges_slice [of n 1] sized_two64 [of n] by (simp add: two64_def)

lemma charges_jid: "sized_jid j \<Longrightarrow> charges (est_jid j) (charge_jid j)"
proof -
  assume j: "sized_jid j"
  have "charges (est_jid j)
     (sum_list (map (\<lambda>s. charge (length s)) [jid_AppKey j, jid_Name j, jid_Domain j, jid_ClientResource j]))"
    unfolding est_jid_def
    by (rule charges_for_each) (use j in \<open>auto simp: sized_jid_def intro: charges_string\<close>)
  then show ?thesis by (simp add: charge_jid_def add.assoc)
qed

lemma charges_status: "sized_status st \<Longrightarrow> charges (est_status st) (charge_status st)"
  unfolding est_status_def [abs_def] charge_status_def sized_status_def add.assoc
  by (intro charges_seq charges_const charges_string charges_slice_const charges_for_each)
     (auto simp: two64_def list_all_iff)

lemma charges_kv:
  "sized (length (kv_Key kv)) \<Longrightarrow> sized (length (kv_String kv)) \<Longrightarrow>
   charges (est_kv kv) (charge (length (kv_Key kv)) + charge (length (kv_String kv)))"
  unfolding est_kv_def [abs_def] by (intro charges_seq charges_string)

lemma charges_meta: "sized_meta m \<Longrightarrow> charges (est_meta m) (charge_meta m)"
  unfolding est_meta_def [abs_def] charge_meta_def sized_meta_def add.assoc
  by (intro charges_seq charges_slice_1 charges_jid charges_string charges_slice_const
      charges_for_each charges_kv)
     (auto simp: two64_def list_all_iff)

lemma charges_opt_status:
  "case so of None \<Rightarrow> True | Some st \<Rightarrow> sized_status st \<Longrightarrow>
   charges (\<lambda>t. case so of None \<Rightarrow> Inr t | Some st \<Rightarrow> est_status st t)
     (case so of None \<Rightarrow> 0 | Some st \<Rightarrow> charge_status st)"
  by (cases so) (simp_all add: charges_Inr charges_status)

lemma charges_opt_queue:
  "case qo of None \<Rightarrow> True | Some q \<Rightarrow> sized_jid q \<Longrightarrow>
   charges (\<lambda>t. case qo of None \<Rightarrow> Inr t | Some q \<Rightarrow> and_then (est_allocation sizeof_JID t) (est_jid q))
     (case qo of None \<Rightarrow> 0 | Some q \<Rightarrow> charge 64 + charge_jid q)"
  by (cases qo)
     (auto simp: two64_def charges_Inr intro!: charges_seq charges_const charges_jid)

lemma charges_sync: "sized_sync s \<Longrightarrow> charges (est_sync s) (charge_sync s)"
  unfolding est_sync_def [abs_def] charge_sync_def sized_sync_def add.assoc
  by (intro charges_seq charges_opt_status charges_opt_queue charges_const charges_slice_const
      charges_for_each charges_meta)
     (auto simp: two64_def list_all_iff)

lemma charge_sync_pos: "0 < charge_sync s"
  by (simp add: charge_sync_def charge_def)

section \<open>Properties\<close>

lemma SyncRetainedWeight_some:
  assumes "sized_sync s"
  shows "if retained_spec s \<le> MaxSyncRetainedWeight
         then SyncRetainedWeight (Some s) = Inr (int (retained_spec s))
         else limited (SyncRetainedWeight (Some s))"
proof (cases "charge_sync s < two64")
  case False
  then have "limited (est_sync s 0)"
    using charges_sync [OF assms] by (simp add: charges_def)
  moreover have "\<not> retained_spec s \<le> MaxSyncRetainedWeight"
    using False le_round_up [of 4096 "2 * charge_sync s"] by (simp add: retained_spec_def two64_def)
  ultimately show ?thesis by (simp add: SyncRetainedWeight_def)
next
  case True
  define c where "c = charge_sync s"
  have c: "c < two64" using True by (simp add: c_def)
  have e: "est_sync s 0 = Inr (of_nat c)"
    using charges_sync [OF assms] c by (simp add: charges_def c_def)
  have mul: "checkedRetainedMul (of_nat c) 2 =
      (if 2 * c < two64 then Some (of_nat (2 * c)) else None)"
    using c by (simp add: checkedRetainedMul_exact unat_of_nat_uint64 mult.commute)
  have up: "2 * c < two64 \<Longrightarrow> checkedRetainedRoundUp (of_nat (2 * c)) 4096 =
      (if round_up (2 * c) 4096 < two64 then Some (of_nat (round_up (2 * c) 4096)) else None)"
    using checkedRetainedRoundUp_exact [of 4096 "of_nat (2 * c)"] unat_of_nat_uint64 [of "2 * c"] by simp
  have le: "2 * c \<le> retained_spec s" and spec: "retained_spec s = round_up (2 * c) 4096"
    using le_round_up [of 4096] by (simp_all add: retained_spec_def c_def)
  show ?thesis
  proof (cases "retained_spec s < two64")
    case r: True
    have u: "unat (of_nat (retained_spec s) :: uint64) = retained_spec s"
      using r by (rule unat_of_nat_uint64)
    have sint: "sint (of_nat (retained_spec s) :: uint64) = int (retained_spec s)"
      if "retained_spec s \<le> MaxSyncRetainedWeight"
    proof -
      have "sint (of_nat (retained_spec s) :: uint64) = signed_take_bit 63 (int (retained_spec s))"
        by (simp only: signed_of_nat) simp
      also have "\<dots> = int (retained_spec s)"
        using that by (intro signed_take_bit_int_eq_self) simp_all
      finally show ?thesis .
    qed
    have "2 * c < two64" using le r by linarith
    then show ?thesis
      using r sint e mul up spec u
      by (simp add: SyncRetainedWeight_def retainedSafetyFactor_def retainedPageSize_def
          word_less_nat_alt)
  next
    case False
    then have big: "\<not> retained_spec s \<le> MaxSyncRetainedWeight" by (simp add: two64_def)
    then show ?thesis
      using False e mul up spec
      by (simp add: SyncRetainedWeight_def retainedSafetyFactor_def retainedPageSize_def)
  qed
qed

text \<open>
  C4.  The weight charged for a decoded batch is exact: over lengths and capacities that are Go
  ints, \<open>SyncRetainedWeight\<close> either returns the reference charge computed without overflow, a
  positive multiple of the page size within the 8 MiB limit, or it fails with the limit error, and
  then the reference charge really exceeds the limit.  No 64-bit overflow can shrink the charge.
\<close>

theorem retained_weight_exact:
  assumes "sized_sync s"
  shows "case SyncRetainedWeight (Some s) of
           Inr w \<Rightarrow> w = int (retained_spec s) \<and> 0 < w \<and> w mod 4096 = 0 \<and> w \<le> 8388608
         | Inl e \<Rightarrow> errors_Is e ErrLimitExceeded \<and> 8388608 < retained_spec s"
proof -
  have "0 < retained_spec s"
    using charge_sync_pos [of s] le_round_up [of 4096 "2 * charge_sync s"] by (simp add: retained_spec_def)
  moreover have "int (retained_spec s) mod 4096 = 0"
  proof -
    have "int (retained_spec s mod 4096) = 0" by (simp add: retained_spec_def)
    then show ?thesis by (simp only: of_nat_mod) simp
  qed
  ultimately show ?thesis
    using SyncRetainedWeight_some [OF assms] by (auto simp: limited_def split: if_splits)
qed

definition exampleSync :: Sync where
  "exampleSync = emptySync\<lparr>sy_Queue := Some (emptyJID\<lparr>jid_Name := ''q''\<rparr>),
     sy_Metas := ([emptyMeta\<lparr>me_Payload := (replicate 3 0, 8), me_Ext := ([], 2)\<rparr>], 4)\<rparr>"

definition hugeSync :: Sync where
  "hugeSync = emptySync\<lparr>sy_Metas := ([], 9000000000000000000)\<rparr>"

theorem retained_weight_exact_witness:
  "(case SyncRetainedWeight (Some exampleSync) of
      Inr w \<Rightarrow> w = int (retained_spec exampleSync) \<and> 0 < w \<and> w mod 4096 = 0 \<and> w \<le> 8388608
    | Inl e \<Rightarrow> errors_Is e ErrLimitExceeded \<and> 8388608 < retained_spec exampleSync)
   \<and> SyncRetainedWeight (Some exampleSync) = Inr 4096
   \<and> (case SyncRetainedWeight (Some hugeSync) of
      Inr w \<Rightarrow> w = int (retained_spec hugeSync) \<and> 0 < w \<and> w mod 4096 = 0 \<and> w \<le> 8388608
    | Inl e \<Rightarrow> errors_Is e ErrLimitExceeded \<and> 8388608 < retained_spec hugeSync)"
proof -
  have a: "sized_sync exampleSync" and b: "sized_sync hugeSync"
    by (simp_all add: sized_sync_def sized_jid_def sized_meta_def sized_def exampleSync_def
        hugeSync_def emptySync_def emptyMeta_def emptyJID_def)
  have spec: "retained_spec exampleSync = 4096"
    by (simp add: retained_spec_def charge_sync_def charge_meta_def charge_jid_def charge_def
        round_up_def exampleSync_def emptySync_def emptyMeta_def emptyJID_def)
  have "SyncRetainedWeight (Some exampleSync) = Inr 4096"
    using SyncRetainedWeight_some [OF a] spec by simp
  with retained_weight_exact [OF a] retained_weight_exact [OF b] show ?thesis by blast
qed

end
