(* ===== verification/Queue_Ring.thy ===== *)
theory Queue_Ring
  imports Prelude
begin

text \<open>
  The fixed ring of deferred queues (\<open>deferredQueueRing\<close> of \<open>sdk/queue.go\<close>), the contract of a
  bounded first-in first-out buffer (locale \<open>bounded_fifo\<close>) and the refinement: the ring implements
  the contract through the abstraction \<open>ring_contents\<close>.

  The elements are the pointers \<open>*queueState\<close>: nil is \<open>None\<close>, an address is \<open>Some\<close>.
\<close>

section \<open>The ring\<close>

record 'a deferredQueueRing =
  dq_items :: "'a option list"
  dq_head :: nat
  dq_size :: nat

definition newDeferredQueueRing :: "nat \<Rightarrow> 'a deferredQueueRing" where
  "newDeferredQueueRing capacity =
     \<lparr>dq_items = replicate capacity None, dq_head = 0, dq_size = 0\<rparr>"

definition ring_Len :: "'a deferredQueueRing \<Rightarrow> nat" where
  "ring_Len q = dq_size q"

definition ring_Push :: "'a deferredQueueRing \<Rightarrow> 'a option \<Rightarrow> bool \<times> 'a deferredQueueRing" where
  "ring_Push q st =
     (if st = None \<or> dq_size q = length (dq_items q) then (False, q)
      else
        let index = (dq_head q + dq_size q) mod length (dq_items q)
        in (True, q\<lparr>dq_items := (dq_items q)[index := st], dq_size := dq_size q + 1\<rparr>))"

definition ring_Pop :: "'a deferredQueueRing \<Rightarrow> 'a option \<times> 'a deferredQueueRing" where
  "ring_Pop q =
     (if dq_size q = 0 then (None, q)
      else
        let st = dq_items q ! dq_head q
        in (st, q\<lparr>dq_items := (dq_items q)[dq_head q := None],
                   dq_head := (dq_head q + 1) mod length (dq_items q),
                   dq_size := dq_size q - 1\<rparr>))"

section \<open>Bounded first-in first-out buffers\<close>

text \<open>
  What the scheduler relies on.  \<open>contents\<close> is the abstract sequence; a push is refused exactly on a
  full buffer, a pop returns the oldest element, and both keep the buffer well formed.
\<close>

locale bounded_fifo =
  fixes push :: "'r \<Rightarrow> 'a option \<Rightarrow> bool \<times> 'r"
    and pop :: "'r \<Rightarrow> 'a option \<times> 'r"
    and capacity :: "'r \<Rightarrow> nat"
    and contents :: "'r \<Rightarrow> 'a list"
    and ok :: "'r \<Rightarrow> bool"
  assumes bounded: "ok r \<Longrightarrow> length (contents r) \<le> capacity r"
    and push_room: "ok r \<Longrightarrow> length (contents r) < capacity r \<Longrightarrow>
      fst (push r (Some x)) \<and> ok (snd (push r (Some x)))
      \<and> contents (snd (push r (Some x))) = contents r @ [x]
      \<and> capacity (snd (push r (Some x))) = capacity r"
    and push_full: "ok r \<Longrightarrow> length (contents r) = capacity r \<Longrightarrow> push r y = (False, r)"
    and push_nil: "push r None = (False, r)"
    and pop_empty: "ok r \<Longrightarrow> contents r = [] \<Longrightarrow> pop r = (None, r)"
    and pop_cons: "ok r \<Longrightarrow> contents r = x # xs \<Longrightarrow>
      fst (pop r) = Some x \<and> ok (snd (pop r)) \<and> contents (snd (pop r)) = xs
      \<and> capacity (snd (pop r)) = capacity r"
begin

fun push_all :: "'a list \<Rightarrow> 'r \<Rightarrow> 'r" where
  "push_all [] r = r"
| "push_all (x # xs) r = push_all xs (snd (push r (Some x)))"

fun pop_n :: "nat \<Rightarrow> 'r \<Rightarrow> 'a option list \<times> 'r" where
  "pop_n 0 r = ([], r)"
| "pop_n (Suc n) r = (let (x, r1) = pop r; (xs, r2) = pop_n n r1 in (x # xs, r2))"

lemma push_cases:
  assumes "ok r"
  shows "(fst (push r (Some x)) \<longleftrightarrow> length (contents r) < capacity r)
     \<and> ok (snd (push r (Some x)))
     \<and> contents (snd (push r (Some x))) =
         (if length (contents r) < capacity r then contents r @ [x] else contents r)
     \<and> capacity (snd (push r (Some x))) = capacity r"
proof (cases "length (contents r) < capacity r")
  case True
  then show ?thesis using push_room [OF assms] by simp
next
  case False
  then have "length (contents r) = capacity r" using bounded [OF assms] by simp
  then show ?thesis using push_full [OF assms] False assms by simp
qed

lemma pop_cases:
  assumes "ok r"
  shows "(contents r = [] \<and> pop r = (None, r)) \<or>
    (\<exists>x xs r'. contents r = x # xs \<and> pop r = (Some x, r') \<and> ok r' \<and> contents r' = xs
       \<and> capacity r' = capacity r)"
proof (cases "contents r")
  case Nil
  then show ?thesis using pop_empty assms by simp
next
  case (Cons x xs)
  then show ?thesis using pop_cons [OF assms Cons] by (metis prod.collapse)
qed

lemma push_all_contents:
  "ok r \<Longrightarrow> length (contents r) + length xs \<le> capacity r \<Longrightarrow>
   ok (push_all xs r) \<and> contents (push_all xs r) = contents r @ xs
   \<and> capacity (push_all xs r) = capacity r"
  by (induction xs arbitrary: r) (use push_room in auto)

lemma pop_n_contents:
  "ok r \<Longrightarrow> n \<le> length (contents r) \<Longrightarrow>
   fst (pop_n n r) = map Some (take n (contents r)) \<and> ok (snd (pop_n n r))
   \<and> contents (snd (pop_n n r)) = drop n (contents r)"
proof (induction n arbitrary: r)
  case 0
  then show ?case by simp
next
  case (Suc n)
  then obtain x xs where c: "contents r = x # xs" by (cases "contents r") auto
  obtain y r1 where p: "pop r = (y, r1)" by (cases "pop r")
  from pop_cons [OF Suc.prems(1) c] p
  have r1: "y = Some x" "ok r1" "contents r1 = xs" by simp_all
  with Suc c p show ?case by (auto simp: case_prod_beta)
qed

lemma fifo_order:
  assumes "ok r" and "contents r = []" and "length xs \<le> capacity r"
  shows "fst (pop_n (length xs) (push_all xs r)) = map Some xs"
  using push_all_contents [of r xs] pop_n_contents [of "push_all xs r" "length xs"] assms by simp

end

section \<open>The ring is a bounded buffer\<close>

definition ring_index :: "'a deferredQueueRing \<Rightarrow> nat \<Rightarrow> nat" where
  "ring_index q i = (dq_head q + i) mod length (dq_items q)"

definition ring_contents :: "'a deferredQueueRing \<Rightarrow> 'a list" where
  "ring_contents q = map (\<lambda>i. the (dq_items q ! ring_index q i)) [0..<dq_size q]"

text \<open>Well-formedness: the window holds pointers, and every slot outside of it is nil.\<close>

definition ring_ok :: "'a deferredQueueRing \<Rightarrow> bool" where
  "ring_ok q \<longleftrightarrow>
     dq_size q \<le> length (dq_items q)
     \<and> (dq_items q = [] \<or> dq_head q < length (dq_items q))
     \<and> (\<forall>i < length (dq_items q). dq_items q ! ring_index q i \<noteq> None \<longleftrightarrow> i < dq_size q)"

definition ring_capacity :: "'a deferredQueueRing \<Rightarrow> nat" where
  "ring_capacity q = length (dq_items q)"

lemma ring_index_eq [ring_simps]:
  "h < n \<Longrightarrow> i \<le> n \<Longrightarrow> (h + i) mod n = (if h + i < n then h + i else h + i - n)" for h i n :: nat
  by (simp add: le_mod_geq)

lemma ring_index_inj:
  "h < n \<Longrightarrow> i < n \<Longrightarrow> j < n \<Longrightarrow> (h + i) mod n = (h + j) mod n \<longleftrightarrow> i = j" for h i j n :: nat
  by (auto simp: ring_index_eq split: if_splits)

lemma ring_index_onto: "h < n \<Longrightarrow> k < n \<Longrightarrow> \<exists>i < n. (h + i) mod n = k" for h k n :: nat
  by (rule exI [of _ "if h \<le> k then k - h else n + k - h"]) (auto simp: ring_index_eq)

lemma length_ring_contents [simp]: "length (ring_contents q) = dq_size q"
  by (simp add: ring_contents_def)

lemma ring_ok_new: "ring_ok (newDeferredQueueRing n) \<and> ring_contents (newDeferredQueueRing n) = []
    \<and> ring_capacity (newDeferredQueueRing n) = n"
  by (auto simp: ring_ok_def newDeferredQueueRing_def ring_contents_def ring_capacity_def
      ring_index_def)

lemma ring_Push_room:
  assumes ok: "ring_ok q" and room: "dq_size q < length (dq_items q)"
  shows "fst (ring_Push q (Some x)) \<and> ring_ok (snd (ring_Push q (Some x)))
     \<and> ring_contents (snd (ring_Push q (Some x))) = ring_contents q @ [x]
     \<and> ring_capacity (snd (ring_Push q (Some x))) = ring_capacity q"
proof -
  let ?n = "length (dq_items q)" and ?h = "dq_head q" and ?s = "dq_size q"
  have h: "?h < ?n" using ok room by (auto simp: ring_ok_def)
  have win: "\<And>i. i < ?n \<Longrightarrow> dq_items q ! ((?h + i) mod ?n) \<noteq> None \<longleftrightarrow> i < ?s"
    using ok by (simp add: ring_ok_def ring_index_def)
  have b: "(?h + ?s) mod ?n < ?n" using room by (intro mod_less_divisor) linarith
  have upd: "(dq_items q)[(?h + ?s) mod ?n := Some x] ! ((?h + i) mod ?n)
      = (if i = ?s then Some x else dq_items q ! ((?h + i) mod ?n))" if "i < ?n" for i
    using ring_index_inj [OF h that room] nth_list_update_eq [OF b, of "Some x"] by auto
  have q': "ring_Push q (Some x) =
      (True, q\<lparr>dq_items := (dq_items q)[(?h + ?s) mod ?n := Some x], dq_size := ?s + 1\<rparr>)"
    using room by (simp add: ring_Push_def Let_def)
  have "ring_ok (snd (ring_Push q (Some x)))"
    using room h win by (auto simp: q' ring_ok_def ring_index_def upd less_Suc_eq)
  moreover have "ring_contents (snd (ring_Push q (Some x))) = ring_contents q @ [x]"
    using room upd [OF room] by (auto simp: q' ring_contents_def ring_index_def upd)
  ultimately show ?thesis by (simp add: q' ring_capacity_def)
qed

lemma ring_Pop_cons:
  assumes ok: "ring_ok q" and c: "ring_contents q = x # xs"
  shows "fst (ring_Pop q) = Some x \<and> ring_ok (snd (ring_Pop q)) \<and> ring_contents (snd (ring_Pop q)) = xs
     \<and> ring_capacity (snd (ring_Pop q)) = ring_capacity q"
proof -
  let ?n = "length (dq_items q)" and ?h = "dq_head q" and ?s = "dq_size q"
  have s: "0 < ?s" using c length_ring_contents [of q] by (cases "?s") auto
  have n: "0 < ?n" and sn: "?s \<le> ?n" and h: "?h < ?n" using ok s by (auto simp: ring_ok_def)
  have win: "\<And>i. i < ?n \<Longrightarrow> dq_items q ! ((?h + i) mod ?n) \<noteq> None \<longleftrightarrow> i < ?s"
    using ok by (simp add: ring_ok_def ring_index_def)
  have up: "[0..<?s] = 0 # map Suc [0..<?s - 1]"
    using s by (cases "?s") (simp_all add: upt_conv_Cons map_Suc_upt del: upt_Suc)
  have x: "dq_items q ! ?h = Some x"
    using c win [of 0] n s h by (auto simp: ring_contents_def ring_index_def up)
  have shift: "((?h + Suc 0) mod ?n + i) mod ?n = (?h + Suc i) mod ?n" for i
    by (simp add: mod_simps)
  have upd: "(dq_items q)[?h := None] ! ((?h + Suc i) mod ?n) =
      (if Suc i = ?n then None else dq_items q ! ((?h + Suc i) mod ?n))" if "Suc i \<le> ?n" for i
  proof (cases "Suc i = ?n")
    case True
    then show ?thesis using h by (simp add: nth_list_update flip: add_Suc_right)
  next
    case False
    then have "(?h + Suc i) mod ?n \<noteq> ?h"
      using ring_index_inj [OF h, of "Suc i" 0] that h n by simp
    with False show ?thesis by simp
  qed
  have q': "ring_Pop q = (Some x, q\<lparr>dq_items := (dq_items q)[?h := None],
      dq_head := (?h + 1) mod ?n, dq_size := ?s - 1\<rparr>)"
    using s x by (simp add: ring_Pop_def Let_def)
  have "ring_contents (snd (ring_Pop q)) = map (\<lambda>i. the (dq_items q ! ((?h + Suc i) mod ?n))) [0..<?s - 1]"
    unfolding q' ring_contents_def ring_index_def using sn
    by (auto simp: shift upd simp del: add_Suc_right)
  also have "\<dots> = xs" using c by (simp add: ring_contents_def ring_index_def up comp_def)
  finally have "ring_contents (snd (ring_Pop q)) = xs" .
  moreover have "ring_ok (snd (ring_Pop q))"
    unfolding q' ring_ok_def ring_index_def using sn s n win
    by (auto simp: shift upd simp del: add_Suc_right)
  ultimately show ?thesis by (simp add: q' ring_capacity_def)
qed

interpretation deferred_ring: bounded_fifo ring_Push ring_Pop ring_capacity ring_contents ring_ok
proof
  fix r :: "'a deferredQueueRing" and x y and xs :: "'a list"
  show "ring_ok r \<Longrightarrow> length (ring_contents r) \<le> ring_capacity r"
    by (simp add: ring_ok_def ring_capacity_def)
  show "ring_ok r \<Longrightarrow> length (ring_contents r) < ring_capacity r \<Longrightarrow>
      fst (ring_Push r (Some x)) \<and> ring_ok (snd (ring_Push r (Some x)))
      \<and> ring_contents (snd (ring_Push r (Some x))) = ring_contents r @ [x]
      \<and> ring_capacity (snd (ring_Push r (Some x))) = ring_capacity r"
    by (rule ring_Push_room) (simp_all add: ring_capacity_def)
  show "ring_ok r \<Longrightarrow> length (ring_contents r) = ring_capacity r \<Longrightarrow> ring_Push r y = (False, r)"
    by (simp add: ring_Push_def ring_capacity_def)
  show "ring_Push r None = (False, r)" by (simp add: ring_Push_def)
  show "ring_ok r \<Longrightarrow> ring_contents r = [] \<Longrightarrow> ring_Pop r = (None, r)"
    using length_ring_contents [of r] by (simp add: ring_Pop_def del: length_ring_contents)
  show "ring_ok r \<Longrightarrow> ring_contents r = x # xs \<Longrightarrow>
      fst (ring_Pop r) = Some x \<and> ring_ok (snd (ring_Pop r)) \<and> ring_contents (snd (ring_Pop r)) = xs
      \<and> ring_capacity (snd (ring_Pop r)) = ring_capacity r"
    by (rule ring_Pop_cons)
qed

lemma ring_items_contents:
  assumes "ring_ok q"
  shows "{x. Some x \<in> set (dq_items q)} = set (ring_contents q)"
proof (cases "dq_items q = []")
  case True
  then show ?thesis using assms by (simp add: ring_ok_def ring_contents_def)
next
  case False
  let ?n = "length (dq_items q)"
  have h: "dq_head q < ?n" and sn: "dq_size q \<le> ?n" using assms False by (auto simp: ring_ok_def)
  have win: "\<And>i. i < ?n \<Longrightarrow> dq_items q ! ring_index q i \<noteq> None \<longleftrightarrow> i < dq_size q"
    using assms by (simp add: ring_ok_def)
  have lt: "ring_index q i < ?n" for i using False by (simp add: ring_index_def)
  show ?thesis
  proof (intro set_eqI iffI)
    fix x
    assume "x \<in> {x. Some x \<in> set (dq_items q)}"
    then obtain k where k: "k < ?n" "dq_items q ! k = Some x" by (auto simp: in_set_conv_nth)
    then obtain i where i: "i < ?n" "ring_index q i = k"
      using ring_index_onto [OF h] unfolding ring_index_def by blast
    with k win [OF i(1)] have "i < dq_size q" by simp
    with i k show "x \<in> set (ring_contents q)" by (force simp: ring_contents_def)
  next
    fix x
    assume "x \<in> set (ring_contents q)"
    then obtain i where i: "i < dq_size q" "x = the (dq_items q ! ring_index q i)"
      by (auto simp: ring_contents_def)
    then have "dq_items q ! ring_index q i = Some x" using win [of i] sn by auto
    then show "x \<in> {x. Some x \<in> set (dq_items q)}" using lt [of i] by (metis mem_Collect_eq nth_mem)
  qed
qed

section \<open>Properties\<close>

text \<open>
  C14.  The ring is a bounded first-in first-out queue: a push of a queue pointer succeeds exactly
  when the ring is not full and then appends it, a pop returns the oldest entry, and the array holds
  no pointer but those of the current entries, so a popped queue is not kept alive by the ring.
\<close>

theorem ring_refines_fifo:
  assumes "ring_ok q"
  shows "(fst (ring_Push q (Some x)) \<longleftrightarrow> length (ring_contents q) < ring_capacity q)
    \<and> ring_contents (snd (ring_Push q (Some x))) =
        ring_contents q @ (if length (ring_contents q) < ring_capacity q then [x] else [])
    \<and> fst (ring_Pop q) = (case ring_contents q of [] \<Rightarrow> None | y # ys \<Rightarrow> Some y)
    \<and> ring_contents (snd (ring_Pop q)) = drop 1 (ring_contents q)
    \<and> ring_ok (snd (ring_Push q (Some x))) \<and> ring_ok (snd (ring_Pop q))
    \<and> {y. Some y \<in> set (dq_items (snd (ring_Pop q)))} = set (drop 1 (ring_contents q))"
proof -
  note push = deferred_ring.push_cases [OF assms, of x]
  have pop: "ring_ok (snd (ring_Pop q)) \<and> ring_contents (snd (ring_Pop q)) = drop 1 (ring_contents q)
      \<and> fst (ring_Pop q) = (case ring_contents q of [] \<Rightarrow> None | y # ys \<Rightarrow> Some y)"
    using deferred_ring.pop_cases [OF assms] assms by auto
  then have "{y. Some y \<in> set (dq_items (snd (ring_Pop q)))} = set (drop 1 (ring_contents q))"
    using ring_items_contents by metis
  with push pop show ?thesis by simp
qed

definition exampleRing :: "nat deferredQueueRing" where
  "exampleRing = snd (ring_Push (snd (ring_Pop (snd (ring_Push (snd (ring_Push
     (newDeferredQueueRing 2) (Some 7))) (Some 8))))) (Some 9))"

theorem ring_refines_fifo_witness:
  "ring_contents exampleRing = [8, 9] \<and> dq_head exampleRing = 1
   \<and> \<not> fst (ring_Push exampleRing (Some 5)) \<and> fst (ring_Pop exampleRing) = Some 8
   \<and> {y. Some y \<in> set (dq_items (snd (ring_Pop exampleRing)))} = {9}"
proof -
  have c: "ring_contents exampleRing = [8, 9]" "ring_capacity exampleRing = 2" "dq_head exampleRing = 1"
    by code_simp+
  have "ring_ok exampleRing" by code_simp
  from ring_refines_fifo [OF this, of 5] c show ?thesis by simp
qed

end
