(* ===== verification/Run_State.thy ===== *)
theory Run_State
  imports Batch_Reservation Retained_Weight Queue_Ring
begin

text \<open>
  The state of one connection (\<open>connectionRun\<close> of \<open>sdk/connection.go\<close>) with the part of the Client
  and of the process it shares, its construction in \<open>dial\<close>, the failure path \<open>fail\<close>, and the table of
  sends that wait for an acknowledgement (\<open>completeACK\<close>, \<open>cancelPending\<close> and the registration in
  \<open>Send\<close>, \<open>sdk/queue.go\<close>).

  Pointers to \<open>queueState\<close> are positions in the store \<open>rn_objs\<close>.  Channels are lists of the buffered
  elements, oldest first.  A run is identified by its generation, which \<open>dial\<close> takes from an atomic
  counter.  The record of the run extends the record of what it shares, as \<open>r.client\<close> does.
\<close>

section \<open>Types\<close>

record queueKey =
  qk_appKey :: string
  qk_name :: string
  qk_domain :: string

datatype queuePhase = queueIdle | queueDeferred | queueActive

text \<open>\<open>qs_pullSentAt\<close> is a time in nanoseconds, \<open>None\<close> for the zero \<open>time.Time\<close>.\<close>

record queueState =
  qs_identity :: queueKey
  qs_jid :: JID
  qs_key :: uint64
  qs_phase :: queuePhase
  qs_processing :: bool
  qs_noticePending :: bool
  qs_pullQueued :: bool
  qs_pullInFlight :: bool
  qs_pullSentAt :: "int option"
  qs_weight :: int64

record batchJob =
  bj_queue :: queueKey
  bj_d :: Sync
  bj_r :: "uint64 option"
  bj_reservation :: "batchReservation option"

record SendResult =
  sr_MessageID :: uint64
  sr_ClientMessageID :: uint64
  sr_ServerMessageID :: uint64
  sr_ServerTimestamp :: uint64

datatype ackResult = AckResult SendResult | AckError go_error

text \<open>What the runs of a Client share: fields of \<open>Client\<close> and the process-wide budgets.\<close>

record clientShared =
  cl_generation :: uint64
  cl_lifetimeDone :: bool
  cl_lastErr :: "go_error option"
  cl_batches :: "batchJob list"
  cl_batchBudget :: "byteBudget option"
  cl_clientBatchRejects :: uint64
  cl_processBatchRejects :: uint64
  processBatchBudget :: "byteBudget option"
  processQueueBudget :: "byteBudget option"

text \<open>
  \<open>rn_done\<close>: \<open>closeOnce\<close> has run, so \<open>done\<close> is closed and \<open>ctx\<close> is cancelled.  \<open>rn_ackChans\<close> are the
  channels that \<open>Send\<close> made, by number.  \<open>rn_activeQueues\<close> is an \<open>atomic.Int32\<close> kept as an integer; it
  stays between 0 and 256.
\<close>

record connectionRun = clientShared +
  rn_generation :: uint64
  rn_done :: bool
  rn_finalized :: bool
  rn_provision :: "(go_error + Provision) list"
  rn_logout :: "go_error option list"
  rn_pending :: "(uint64 \<times> nat) list"
  rn_ackChans :: "ackResult list list"
  rn_objs :: "queueState list"
  rn_queues :: "(queueKey \<times> nat) list option"
  rn_deferred :: "nat deferredQueueRing"
  rn_pullRequests :: "nat list option"
  rn_queueBudget :: "byteBudget option"
  rn_queueTimeout :: int64
  rn_processBatchBudget :: "byteBudget option"
  rn_activeQueues :: int
  rn_capacityHits :: uint64
  rn_lastPong :: int64

abbreviation (input) maxActiveQueues :: int where "maxActiveQueues \<equiv> 256"
abbreviation (input) pullWorkerCount :: nat where "pullWorkerCount \<equiv> 8"
abbreviation (input) pullRequestCapacity :: nat where "pullRequestCapacity \<equiv> 256"
abbreviation (input) writeQueueSize :: nat where "writeQueueSize \<equiv> 256"
abbreviation (input) queueResponseTimeout :: int64 where "queueResponseTimeout \<equiv> 30000000000"
abbreviation (input) minQueueWeight :: int64 where "minQueueWeight \<equiv> 1024"

definition maxTrackedQueues :: nat where
  "maxTrackedQueues = nat (connectionQueueBudgetBytes div minQueueWeight)"

section \<open>Construction\<close>

text \<open>The run that \<open>dial\<close> builds after the handshake succeeded, over the shared part \<open>c\<close>.\<close>

definition dial_run :: "clientShared \<Rightarrow> int64 \<Rightarrow> connectionRun" where
  "dial_run c now =
     clientShared.extend (c\<lparr>cl_generation := cl_generation c + 1\<rparr>)
       \<lparr>rn_generation = cl_generation c + 1, rn_done = False, rn_finalized = False,
        rn_provision = [], rn_logout = [], rn_pending = [], rn_ackChans = [], rn_objs = [],
        rn_queues = Some [], rn_deferred = newDeferredQueueRing maxTrackedQueues,
        rn_pullRequests = Some [], rn_queueBudget = mustNewByteBudget connectionQueueBudgetBytes,
        rn_queueTimeout = queueResponseTimeout, rn_processBatchBudget = None,
        rn_activeQueues = 0, rn_capacityHits = 0, rn_lastPong = now\<rparr>"

section \<open>Pending acknowledgements\<close>

definition ack_send :: "connectionRun \<Rightarrow> nat \<Rightarrow> ackResult \<Rightarrow> connectionRun" where
  "ack_send r ch a = r\<lparr>rn_ackChans := (rn_ackChans r)[ch := rn_ackChans r ! ch @ [a]]\<rparr>"

definition unknownOutcome :: "go_error option \<Rightarrow> go_error" where
  "unknownOutcome cause =
     SDKErr ErrSendOutcomeUnknown ''send'' ''connection closed before ACK'' 0 0 cause"

definition cancelPending :: "go_error option \<Rightarrow> connectionRun \<Rightarrow> connectionRun" where
  "cancelPending cause r =
     fold (\<lambda>(mid, ch) r. (ack_send r ch (AckError (unknownOutcome cause)))
                           \<lparr>rn_pending := AList.delete mid (rn_pending r)\<rparr>) (rn_pending r) r"

definition completeACK :: "Sync \<Rightarrow> connectionRun \<Rightarrow> connectionRun" where
  "completeACK d r =
     (let ch = map_of (rn_pending r) (sy_MetaID d);
          r1 = r\<lparr>rn_pending := AList.delete (sy_MetaID d) (rn_pending r)\<rparr>
      in case ch of None \<Rightarrow> r1
         | Some ch \<Rightarrow>
             (case sy_Status d of
                Some st \<Rightarrow>
                  if st_Code st \<noteq> StatusOK
                  then ack_send r1 ch (AckError (protocolError ''send ack'' (st_Code st) (st_Reason st)))
                  else ack_send r1 ch (AckResult \<lparr>sr_MessageID = sy_ServerID d,
                         sr_ClientMessageID = sy_MetaID d, sr_ServerMessageID = sy_ServerID d,
                         sr_ServerTimestamp = sy_Timestamp d\<rparr>)
              | None \<Rightarrow> ack_send r1 ch (AckResult \<lparr>sr_MessageID = sy_ServerID d,
                         sr_ClientMessageID = sy_MetaID d, sr_ServerMessageID = sy_ServerID d,
                         sr_ServerTimestamp = sy_Timestamp d\<rparr>)))"

text \<open>
  The registration of \<open>Send\<close>: a fresh channel of capacity one under the message id, refused when the
  id is already pending; and the deferred removal when \<open>Send\<close> returns.
\<close>

definition send_register :: "uint64 \<Rightarrow> connectionRun \<Rightarrow> (go_error + nat) \<times> connectionRun" where
  "send_register mid r =
     (let wait = length (rn_ackChans r);
          r1 = r\<lparr>rn_ackChans := rn_ackChans r @ [[]]\<rparr>
      in if map_of (rn_pending r) mid \<noteq> None
         then (Inl (LibErr PlainError False
                 (''ClientMessageID '' @ itoa (uint mid) @ '' is already pending'') None), r1)
         else (Inr wait, r1\<lparr>rn_pending := AList.update mid wait (rn_pending r1)\<rparr>))"

definition send_unregister :: "uint64 \<Rightarrow> connectionRun \<Rightarrow> connectionRun" where
  "send_unregister mid r = r\<lparr>rn_pending := AList.delete mid (rn_pending r)\<rparr>"

section \<open>Failure\<close>

definition run_fail :: "go_error option \<Rightarrow> connectionRun \<Rightarrow> connectionRun" where
  "run_fail err r =
     (if rn_done r then r
      else cancelPending err
             (r\<lparr>cl_lastErr := classifyNetworkError ''connection'' err, rn_done := True\<rparr>))"

text \<open>\<open>tryProvision\<close>: a send that never blocks on a channel of capacity one.\<close>

definition tryProvision :: "go_error + Provision \<Rightarrow> connectionRun \<Rightarrow> connectionRun" where
  "tryProvision p r =
     (if length (rn_provision r) < 1 then r\<lparr>rn_provision := rn_provision r @ [p]\<rparr> else r)"

section \<open>The pending table\<close>

definition pending_ok :: "connectionRun \<Rightarrow> bool" where
  "pending_ok r \<longleftrightarrow>
     distinct (map fst (rn_pending r)) \<and> distinct (map snd (rn_pending r))
     \<and> (\<forall>(mid, ch) \<in> set (rn_pending r). ch < length (rn_ackChans r) \<and> rn_ackChans r ! ch = [])
     \<and> (\<forall>buf \<in> set (rn_ackChans r). length buf \<le> 1)"

lemma ack_send_simps [simp]:
  "rn_pending (ack_send r ch a) = rn_pending r"
  "length (rn_ackChans (ack_send r ch a)) = length (rn_ackChans r)"
  by (simp_all add: ack_send_def)

lemma set_delete_alist: "set (AList.delete k xs) = {p \<in> set xs. fst p \<noteq> k}"
  by (auto simp: AList.delete_eq)

lemma distinct_snd_delete: "distinct (map snd xs) \<Longrightarrow> distinct (map snd (AList.delete k xs))"
  by (auto simp: AList.delete_eq distinct_map_filter)

lemma pending_ok_delete:
  assumes "pending_ok r"
  shows "pending_ok (r\<lparr>rn_pending := AList.delete mid (rn_pending r)\<rparr>)"
  using assms by (auto simp: pending_ok_def set_delete_alist distinct_snd_delete distinct_delete)

lemma pending_ok_ack:
  assumes ok: "pending_ok r" and p: "map_of (rn_pending r) mid = Some ch"
  shows "pending_ok (ack_send (r\<lparr>rn_pending := AList.delete mid (rn_pending r)\<rparr>) ch a)
    \<and> rn_ackChans (ack_send (r\<lparr>rn_pending := AList.delete mid (rn_pending r)\<rparr>) ch a) ! ch = [a]"
proof -
  have mem: "(mid, ch) \<in> set (rn_pending r)" using p by (rule map_of_SomeD)
  then have ch: "ch < length (rn_ackChans r)" "rn_ackChans r ! ch = []"
    using ok by (auto simp: pending_ok_def)
  have other: "ch' \<noteq> ch" if "(mid2, ch') \<in> set (rn_pending r)" "mid2 \<noteq> mid" for mid2 ch'
    using ok mem that unfolding pending_ok_def by (metis (no_types, lifting) Pair_inject eq_key_imp_eq_value
        distinct_map inj_on_eq_iff snd_conv)
  show ?thesis
    using ok ch other pending_ok_delete [OF ok, of mid]
    by (auto simp: pending_ok_def ack_send_def set_delete_alist nth_list_update
        dest!: subsetD [OF set_update_subset_insert])
qed

lemma pending_ok_completeACK: "pending_ok r \<Longrightarrow> pending_ok (completeACK d r)"
  by (auto simp: completeACK_def Let_def pending_ok_delete
      intro: conjunct1 [OF pending_ok_ack] split: option.splits)

lemma pending_ok_register:
  assumes "pending_ok r"
  shows "pending_ok (snd (send_register mid r))"
  using assms
  by (auto simp: send_register_def Let_def pending_ok_def alist_update_absent nth_append
      map_of_eq_None_iff)

definition ack_all :: "ackResult \<Rightarrow> (uint64 \<times> nat) list \<Rightarrow> ackResult list list \<Rightarrow> ackResult list list" where
  "ack_all a ps bufs = fold (\<lambda>(mid, ch) bufs. bufs[ch := bufs ! ch @ [a]]) ps bufs"

lemma fold_cancel:
  "fold (\<lambda>(mid, ch) r. (ack_send r ch a)\<lparr>rn_pending := AList.delete mid (rn_pending r)\<rparr>) ps r =
   r\<lparr>rn_pending := filter (\<lambda>p. fst p \<notin> fst ` set ps) (rn_pending r),
     rn_ackChans := ack_all a ps (rn_ackChans r)\<rparr>"
proof (induction ps arbitrary: r)
  case Nil
  then show ?case by (simp add: ack_all_def)
next
  case (Cons p ps)
  have "filter (\<lambda>q. fst q \<notin> fst ` set ps) (AList.delete (fst p) (rn_pending r)) =
      filter (\<lambda>q. fst q \<notin> insert (fst p) (fst ` set ps)) (rn_pending r)"
    unfolding AList.delete_eq by (auto intro!: filter_cong simp: case_prod_beta)
  with Cons show ?case by (cases p) (simp add: ack_send_def ack_all_def)
qed

lemma length_ack_all [simp]: "length (ack_all a ps bufs) = length bufs"
  unfolding ack_all_def by (induction ps arbitrary: bufs) (auto simp: case_prod_beta)

lemma nth_ack_all:
  "distinct (map snd ps) \<Longrightarrow> \<forall>p \<in> set ps. snd p < length bufs \<Longrightarrow>
   ack_all a ps bufs ! k = (if k \<in> snd ` set ps then bufs ! k @ [a] else bufs ! k)"
proof (induction ps arbitrary: bufs)
  case Nil
  then show ?case by (simp add: ack_all_def)
next
  case (Cons p ps)
  let ?b = "bufs[snd p := bufs ! snd p @ [a]]"
  have "ack_all a (p # ps) bufs ! k = ack_all a ps ?b ! k"
    by (simp add: ack_all_def case_prod_beta)
  also have "\<dots> = (if k \<in> snd ` set ps then ?b ! k @ [a] else ?b ! k)"
    using Cons.prems by (intro Cons.IH) auto
  also have "\<dots> = (if k \<in> snd ` set (p # ps) then bufs ! k @ [a] else bufs ! k)"
    using Cons.prems by (auto simp: nth_list_update)
  finally show ?case .
qed

lemma cancelPending_eq:
  "cancelPending e r = r\<lparr>rn_pending := [],
     rn_ackChans := ack_all (AckError (unknownOutcome e)) (rn_pending r) (rn_ackChans r)\<rparr>"
proof -
  have "filter (\<lambda>p. fst p \<notin> fst ` set (rn_pending r)) (rn_pending r) = []"
    by (auto simp: filter_empty_conv)
  then show ?thesis unfolding cancelPending_def fold_cancel by simp
qed

lemma run_fail_eq [queue_simps]:
  "run_fail e r =
     (if rn_done r then r
      else r\<lparr>cl_lastErr := classifyNetworkError ''connection'' e, rn_done := True, rn_pending := [],
        rn_ackChans := ack_all (AckError (unknownOutcome e)) (rn_pending r) (rn_ackChans r)\<rparr>)"
  by (simp add: run_fail_def cancelPending_eq)

lemma run_fail_done [simp]: "rn_done (run_fail e r)"
  by (simp add: run_fail_eq)

lemma pending_ok_fail:
  assumes "pending_ok r"
  shows "pending_ok (run_fail e r)"
proof (cases "rn_done r")
  case True
  then show ?thesis using assms by (simp add: run_fail_eq)
next
  case False
  have d: "distinct (map snd (rn_pending r))" and
    b: "\<forall>p \<in> set (rn_pending r). snd p < length (rn_ackChans r) \<and> rn_ackChans r ! snd p = []"
    using assms by (auto simp: pending_ok_def)
  have len: "\<forall>k < length (rn_ackChans r). length (rn_ackChans r ! k) \<le> 1"
    using assms by (auto simp: pending_ok_def)
  have "\<forall>k < length (rn_ackChans r).
      length (ack_all (AckError (unknownOutcome e)) (rn_pending r) (rn_ackChans r) ! k) \<le> 1"
    using len b by (auto simp: nth_ack_all [OF d])
  then show ?thesis
    using False by (auto simp: run_fail_eq pending_ok_def in_set_conv_nth)
qed

section \<open>The acknowledgement protocol\<close>

inductive pending_step :: "connectionRun \<Rightarrow> connectionRun \<Rightarrow> bool" where
  pending_register: "pending_step r (snd (send_register mid r))"
| pending_unregister: "pending_step r (send_unregister mid r)"
| pending_complete: "pending_step r (completeACK d r)"
| pending_failed: "pending_step r (run_fail e r)"

definition pending_start :: "connectionRun \<Rightarrow> bool" where
  "pending_start r \<longleftrightarrow> (\<exists>c now. r = dial_run c now)"

interpretation pending_system: inductive_invariant pending_start pending_step pending_ok
proof
  fix s t :: connectionRun
  show "pending_start s \<Longrightarrow> pending_ok s"
    by (auto simp: pending_start_def pending_ok_def dial_run_def clientShared.defs)
  show "pending_ok s \<Longrightarrow> pending_step s t \<Longrightarrow> pending_ok t"
    by (auto elim!: pending_step.cases simp: pending_ok_register pending_ok_completeACK pending_ok_fail
        send_unregister_def pending_ok_delete)
qed

section \<open>Properties\<close>

definition ack_answer :: "Sync \<Rightarrow> ackResult" where
  "ack_answer d =
     (if sy_Status d \<noteq> None \<and> st_Code (the (sy_Status d)) \<noteq> StatusOK
      then AckError (protocolError ''send ack'' (st_Code (the (sy_Status d))) (st_Reason (the (sy_Status d))))
      else AckResult \<lparr>sr_MessageID = sy_ServerID d, sr_ClientMessageID = sy_MetaID d,
        sr_ServerMessageID = sy_ServerID d, sr_ServerTimestamp = sy_Timestamp d\<rparr>)"

lemma completeACK_found:
  "map_of (rn_pending r) (sy_MetaID d) = Some ch \<Longrightarrow>
   completeACK d r = ack_send (r\<lparr>rn_pending := AList.delete (sy_MetaID d) (rn_pending r)\<rparr>) ch (ack_answer d)"
  by (auto simp: completeACK_def ack_answer_def Let_def split: option.splits)

lemma pending_entry:
  assumes "pending_ok r" and "map_of (rn_pending r) mid = Some ch"
  shows "(mid, ch) \<in> set (rn_pending r)" "ch < length (rn_ackChans r)" "rn_ackChans r ! ch = []"
    "(m, ch) \<in> set (rn_pending r) \<Longrightarrow> m = mid"
proof -
  show mem: "(mid, ch) \<in> set (rn_pending r)" using assms(2) by (rule map_of_SomeD)
  show "ch < length (rn_ackChans r)" "rn_ackChans r ! ch = []" using assms(1) mem by (auto simp: pending_ok_def)
  show "m = mid" if "(m, ch) \<in> set (rn_pending r)"
    using assms(1) that mem unfolding pending_ok_def distinct_map inj_on_def by fastforce
qed

text \<open>What an acknowledgement and a failure do to the channels, channel by channel.\<close>

lemma completeACK_chans:
  "rn_ackChans (completeACK d r) = (case map_of (rn_pending r) (sy_MetaID d) of None \<Rightarrow> rn_ackChans r
     | Some ch \<Rightarrow> (rn_ackChans r)[ch := rn_ackChans r ! ch @ [ack_answer d]])"
  "rn_pending (completeACK d r) = AList.delete (sy_MetaID d) (rn_pending r)"
  by (auto simp: completeACK_def ack_answer_def ack_send_def Let_def split: option.split)

lemma run_fail_chan:
  assumes "pending_ok r" and "\<not> rn_done r"
  shows "rn_ackChans (run_fail e r) ! c
    = (if c \<in> snd ` set (rn_pending r) then [AckError (unknownOutcome e)] else rn_ackChans r ! c)"
proof -
  have "distinct (map snd (rn_pending r))" "\<forall>p \<in> set (rn_pending r). snd p < length (rn_ackChans r)"
    using assms(1) by (auto simp: pending_ok_def)
  then have "rn_ackChans (run_fail e r) ! c
    = (if c \<in> snd ` set (rn_pending r) then rn_ackChans r ! c @ [AckError (unknownOutcome e)] else rn_ackChans r ! c)"
    using assms(2) by (simp add: run_fail_eq nth_ack_all)
  then show ?thesis using assms(1) by (auto simp: pending_ok_def)
qed

lemma register_chans:
  "rn_ackChans (snd (send_register m r)) = rn_ackChans r @ [[]]"
  "map_of (rn_pending r) mid = Some ch \<Longrightarrow> map_of (rn_pending (snd (send_register m r))) mid = Some ch"
  by (auto simp: send_register_def Let_def update_conv)

lemma answered_step:
  assumes "pending_ok r" and "pending_step r r'" and "c < length (rn_ackChans r)" and "rn_ackChans r ! c = [a]"
  shows "c < length (rn_ackChans r') \<and> rn_ackChans r' ! c = [a]"
  using assms(2)
proof cases
  case (pending_complete d)
  show ?thesis
  proof (cases "map_of (rn_pending r) (sy_MetaID d)")
    case None
    then show ?thesis using assms by (simp add: pending_complete completeACK_chans)
  next
    case (Some ch)
    then have "ch \<noteq> c" using pending_entry(3) [OF assms(1) Some] assms(4) by auto
    then show ?thesis using assms Some by (simp add: pending_complete completeACK_chans)
  qed
next
  case (pending_failed e)
  have "c \<notin> snd ` set (rn_pending r)" using assms(1,4) by (force simp: pending_ok_def)
  then show ?thesis using assms run_fail_chan [OF assms(1)] by (cases "rn_done r") (simp_all add: pending_failed run_fail_eq)
qed (use assms in \<open>simp_all add: register_chans nth_append send_unregister_def\<close>)

lemma answered_forever:
  assumes "pending_step\<^sup>*\<^sup>* r r'" and "pending_ok r" and "c < length (rn_ackChans r)" and "rn_ackChans r ! c = [a]"
  shows "rn_ackChans r' ! c = [a]"
proof -
  have "pending_ok r' \<and> c < length (rn_ackChans r') \<and> rn_ackChans r' ! c = [a]"
    using assms(1)
  proof (induction rule: rtranclp_induct)
    case (step y z)
    then show ?case using answered_step pending_system.inv_step by blast
  qed (use assms in simp)
  then show ?thesis by simp
qed

text \<open>How a registered sender can leave the table.\<close>

lemma registered_step:
  assumes ok: "pending_ok r" and p: "map_of (rn_pending r) mid = Some ch" and "pending_step r r'"
  shows "r' = send_unregister mid r
    \<or> (map_of (rn_pending r') mid = Some ch \<and> rn_ackChans r' ! ch = [])
    \<or> (map_of (rn_pending r') mid = None \<and> (\<exists>a. rn_ackChans r' ! ch = [a]))"
  using assms(3)
proof cases
  case (pending_register m)
  then show ?thesis using p pending_entry(2,3) [OF ok p] by (simp add: register_chans nth_append)
next
  case (pending_unregister m)
  then show ?thesis using p pending_entry(3) [OF ok p] by (cases "m = mid") (simp_all add: send_unregister_def delete_conv)
next
  case (pending_complete d)
  show ?thesis
  proof (cases "sy_MetaID d = mid")
    case True
    then show ?thesis using p pending_entry(2,3) [OF ok p] by (simp add: pending_complete completeACK_chans delete_conv)
  next
    case False
    have "c \<noteq> ch" if "map_of (rn_pending r) (sy_MetaID d) = Some c" for c
      using pending_entry(1) [OF ok that] pending_entry(4) [OF ok p] False by blast
    then show ?thesis using False p pending_entry(3) [OF ok p]
      by (auto simp: pending_complete completeACK_chans delete_conv split: option.split)
  qed
next
  case (pending_failed e)
  show ?thesis
  proof (cases "rn_done r")
    case False
    have "ch \<in> snd ` set (rn_pending r)" using pending_entry(1) [OF ok p] by force
    then show ?thesis using run_fail_chan [OF ok False, of e ch] False by (simp add: pending_failed run_fail_eq)
  qed (use p pending_entry(3) [OF ok p] in \<open>simp add: pending_failed run_fail_eq\<close>)
qed


definition idleClient :: clientShared where
  "idleClient = \<lparr>cl_generation = 0, cl_lifetimeDone = False, cl_lastErr = None, cl_batches = [],
     cl_batchBudget = mustNewByteBudget clientBatchBudgetBytes, cl_clientBatchRejects = 0,
     cl_processBatchRejects = 0, processBatchBudget = mustNewByteBudget processBatchBudgetBytes,
     processQueueBudget = mustNewByteBudget processQueueBudgetBytes\<rparr>"


text \<open>
  C15.  The removal that \<open>Send\<close> defers is by message id, not by channel: when an id is used again as soon
  as its first send was answered, the first \<open>Send\<close> removes the second one's entry on return, and the
  acknowledgement of the second send finds no channel.
\<close>

theorem send_unregister_drops_reused_id:
  assumes "pending_ok r" and "map_of (rn_pending r) mid = None" and "sy_MetaID d = mid"
    and "sy_MetaID d2 = mid"
  shows "let r1 = snd (send_register mid r); r2 = completeACK d r1; r3 = snd (send_register mid r2);
             r4 = send_unregister mid r3
         in fst (send_register mid r2) = Inr (Suc (length (rn_ackChans r)))
            \<and> rn_ackChans (completeACK d2 r4) ! Suc (length (rn_ackChans r)) = []"
proof -
  define n where "n = length (rn_ackChans r)"
  define r1 where "r1 = snd (send_register mid r)"
  define r2 where "r2 = completeACK d r1"
  define r3 where "r3 = snd (send_register mid r2)"
  have 1: "map_of (rn_pending r1) mid = Some n" "length (rn_ackChans r1) = Suc n"
    using assms(2) by (simp_all add: r1_def n_def send_register_def alist_update_absent map_add_def Let_def)
  then have 2: "map_of (rn_pending r2) mid = None" "length (rn_ackChans r2) = Suc n"
    using assms(3) by (simp_all add: r2_def completeACK_found map_of_delete delete_conv)
  then have 3: "fst (send_register mid r2) = Inr (Suc n)" "rn_ackChans r3 = rn_ackChans r2 @ [[]]"
    by (simp_all add: r3_def send_register_def Let_def)
  have "rn_ackChans (completeACK d2 (send_unregister mid r3)) = rn_ackChans r3"
    using assms(4) by (simp add: completeACK_def send_unregister_def delete_conv)
  with 2 3 have "rn_ackChans (completeACK d2 (send_unregister mid r3)) ! Suc n = []"
    by (simp add: nth_append)
  with 3 show ?thesis by (simp add: Let_def r1_def r2_def r3_def n_def)
qed

theorem send_unregister_drops_reused_id_witness:
  "let r = dial_run idleClient 0; d = emptySync\<lparr>sy_MetaID := 5, sy_ServerID := 9\<rparr>;
       r2 = completeACK d (snd (send_register 5 r)); r3 = snd (send_register 5 r2)
   in fst (send_register 5 r2) = Inr 1 \<and> rn_ackChans (completeACK d (send_unregister 5 r3)) ! 1 = []"
proof -
  let ?r = "dial_run idleClient 0"
  have "pending_ok ?r" "map_of (rn_pending ?r) 5 = None" "length (rn_ackChans ?r) = 0"
    by (simp_all add: pending_ok_def dial_run_def clientShared.defs)
  with send_unregister_drops_reused_id [of ?r 5 "emptySync\<lparr>sy_MetaID := 5, sy_ServerID := 9\<rparr>"
      "emptySync\<lparr>sy_MetaID := 5, sy_ServerID := 9\<rparr>"]
  show ?thesis by (simp add: Let_def)
qed

end
