(* ===== verification/Queue_Sched.thy ===== *)
theory Queue_Sched
  imports Run_State
begin

text \<open>
  The queue scheduler of \<open>sdk/queue.go\<close>: which message queues of the connection are active, which wait
  in the deferred ring, when a pull is requested, sent and answered, and what memory they are charged.

  Every definition is the code between two acquisitions of \<open>queueMu\<close>; a function of the source that
  releases the mutex in the middle is cut there and composed at the end of its section.
\<close>

section \<open>Store access\<close>

definition qobj :: "connectionRun \<Rightarrow> nat \<Rightarrow> queueState" where
  "qobj r a = rn_objs r ! a"

definition upd_obj :: "nat \<Rightarrow> (queueState \<Rightarrow> queueState) \<Rightarrow> connectionRun \<Rightarrow> connectionRun" where
  "upd_obj a f r = r\<lparr>rn_objs := (rn_objs r)[a := f (rn_objs r ! a)]\<rparr>"

definition tracked :: "connectionRun \<Rightarrow> (queueKey \<times> nat) list" where
  "tracked r = (case rn_queues r of None \<Rightarrow> [] | Some m \<Rightarrow> m)"

definition queue_lookup :: "connectionRun \<Rightarrow> queueKey \<Rightarrow> nat option" where
  "queue_lookup r k = map_of (tracked r) k"

definition add_active :: "int \<Rightarrow> connectionRun \<Rightarrow> connectionRun" where
  "add_active n r = r\<lparr>rn_activeQueues := rn_activeQueues r + n\<rparr>"

definition hit_capacity :: "connectionRun \<Rightarrow> connectionRun" where
  "hit_capacity r = r\<lparr>rn_capacityHits := rn_capacityHits r + 1\<rparr>"

section \<open>Identities and weights\<close>

definition newQueueKey :: "JID \<Rightarrow> queueKey" where
  "newQueueKey j = \<lparr>qk_appKey = jid_AppKey j, qk_name = jid_Name j, qk_domain = jid_Domain j\<rparr>"

definition queueKey_String :: "queueKey \<Rightarrow> string" where
  "queueKey_String k =
     ''app_bytes='' @ itoa (int (length (qk_appKey k))) @ ''/name_bytes='' @ itoa (int (length (qk_name k)))
     @ ''/domain_bytes='' @ itoa (int (length (qk_domain k)))"

fun jid_components_total :: "string list \<Rightarrow> nat \<Rightarrow> go_error + nat" where
  "jid_components_total [] tot = Inr tot"
| "jid_components_total (c # cs) tot =
     (if length c > MaxJIDComponentBytes
      then Inl (newError ErrProtocolLimit ''queue jid'' ''component exceeds 4096 bytes'')
      else jid_components_total cs (tot + length c))"

definition validateQueueJID :: "JID \<Rightarrow> go_error option" where
  "validateQueueJID j =
     (case jid_components_total [jid_AppKey j, jid_Name j, jid_Domain j, jid_ClientResource j] 0 of
        Inl e \<Rightarrow> Some e
      | Inr tot \<Rightarrow>
          if tot > MaxJIDBytes
          then Some (newError ErrProtocolLimit ''queue jid'' ''total length exceeds 16384 bytes'')
          else None)"

definition queueRetainedWeight :: "JID \<Rightarrow> int64" where
  "queueRetainedWeight j =
     (let bytes = wrap64 (minQueueWeight + int (length (jid_AppKey j) + length (jid_Name j)
                    + length (jid_Domain j) + length (jid_ClientResource j)))
      in wrap64 ((wrap64 (bytes + minQueueWeight - 1) div minQueueWeight) * minQueueWeight))"

section \<open>Structures, budget, pull requests\<close>

definition ensureQueueStructuresLocked :: "connectionRun \<Rightarrow> connectionRun" where
  "ensureQueueStructuresLocked r =
     (let r1 = (if rn_queues r = None then r\<lparr>rn_queues := Some []\<rparr> else r);
          r2 = (if dq_items (rn_deferred r1) = []
                then r1\<lparr>rn_deferred := newDeferredQueueRing maxTrackedQueues\<rparr> else r1);
          r3 = (if rn_pullRequests r2 = None then r2\<lparr>rn_pullRequests := Some []\<rparr> else r2);
          r4 = (if rn_queueBudget r3 = None
                then r3\<lparr>rn_queueBudget := mustNewByteBudget connectionQueueBudgetBytes\<rparr> else r3)
      in if rn_queueTimeout r4 \<le> 0 then r4\<lparr>rn_queueTimeout := queueResponseTimeout\<rparr> else r4)"

definition queueHealth :: "connectionRun \<Rightarrow> int \<times> nat \<times> nat \<times> nat \<times> int64 \<times> uint64" where
  "queueHealth r =
     (rn_activeQueues r, length (tracked r), ring_Len (rn_deferred r),
      length (filter (\<lambda>(k, a). qs_pullQueued (qobj r a) \<or> qs_pullInFlight (qobj r a)) (tracked r)),
      (if rn_queueBudget r \<noteq> None then Used (rn_queueBudget r) else 0), rn_capacityHits r)"

definition reserveQueueLocked :: "int64 \<Rightarrow> connectionRun \<Rightarrow> (go_error + bool) \<times> connectionRun" where
  "reserveQueueLocked weight r =
     (let r0 = ensureQueueStructuresLocked r
      in case TryAcquire (rn_queueBudget r0) weight of
           (Inr True, local) \<Rightarrow>
             (case TryAcquire (processQueueBudget r0) weight of
                (Inr True, proc) \<Rightarrow> (Inr True, r0\<lparr>rn_queueBudget := local, processQueueBudget := proc\<rparr>)
              | (res, proc) \<Rightarrow>
                  (case Release local weight of
                     (releaseErr, local2) \<Rightarrow>
                       ((case (case sum_err res of Some e \<Rightarrow> errors_Join [Some e, releaseErr]
                               | None \<Rightarrow> releaseErr) of
                           Some e \<Rightarrow> Inl e | None \<Rightarrow> Inr False),
                        r0\<lparr>rn_queueBudget := local2, processQueueBudget := proc\<rparr>)))
         | (Inr False, local) \<Rightarrow> (Inr False, r0\<lparr>rn_queueBudget := local\<rparr>)
         | (Inl e, local) \<Rightarrow> (Inl e, r0\<lparr>rn_queueBudget := local\<rparr>))"

definition enqueuePullLocked :: "nat option \<Rightarrow> connectionRun \<Rightarrow> go_error option \<times> connectionRun" where
  "enqueuePullLocked q r =
     (case q of None \<Rightarrow> (None, r)
      | Some a \<Rightarrow>
          if qs_phase (qobj r a) \<noteq> queueActive \<or> qs_processing (qobj r a) \<or> qs_pullQueued (qobj r a)
             \<or> qs_pullInFlight (qobj r a)
          then (None, r)
          else
            let r1 = upd_obj a (\<lambda>q. q\<lparr>qs_pullQueued := True\<rparr>) r;
                full = (Some (newError ErrHandlerBacklog ''queue pull''
                           ''pull scheduler invariant: request queue full''),
                        upd_obj a (\<lambda>q. q\<lparr>qs_pullQueued := False\<rparr>) r1)
            in case rn_pullRequests r1 of None \<Rightarrow> full
               | Some chan \<Rightarrow>
                   if length chan < pullRequestCapacity
                   then (None, r1\<lparr>rn_pullRequests := Some (chan @ [a])\<rparr>) else full)"

section \<open>Active and deferred queues\<close>

definition activateOrDeferLocked :: "nat \<Rightarrow> connectionRun \<Rightarrow> go_error option \<times> connectionRun" where
  "activateOrDeferLocked a r =
     (if rn_activeQueues r < maxActiveQueues
      then enqueuePullLocked (Some a) (add_active 1 (upd_obj a (\<lambda>q. q\<lparr>qs_phase := queueActive\<rparr>) r))
      else
        let r1 = upd_obj a (\<lambda>q. q\<lparr>qs_phase := queueDeferred\<rparr>) r;
            (pushed, ring) = ring_Push (rn_deferred r1) (Some a);
            r2 = r1\<lparr>rn_deferred := ring\<rparr>
        in if pushed then (None, r2)
           else (Some (newError ErrHandlerBacklog ''queue notice'' ''queue_capacity: deferred queue full''), r2))"

lemma ring_Pop_size: "ring_Pop q = (Some a, q') \<Longrightarrow> dq_size q' < dq_size q"
  by (auto simp: ring_Pop_def Let_def split: if_splits)

function promoteDeferredLocked :: "connectionRun \<Rightarrow> go_error option \<times> connectionRun" where
  "promoteDeferredLocked r =
     (if rn_activeQueues r < maxActiveQueues
      then (case ring_Pop (rn_deferred r) of
              (None, ring) \<Rightarrow> (None, r\<lparr>rn_deferred := ring\<rparr>)
            | (Some a, ring) \<Rightarrow>
                let r1 = r\<lparr>rn_deferred := ring\<rparr>
                in if qs_phase (qobj r1 a) \<noteq> queueDeferred then promoteDeferredLocked r1
                   else enqueuePullLocked (Some a)
                          (add_active 1 (upd_obj a (\<lambda>q. q\<lparr>qs_phase := queueActive\<rparr>) r1)))
      else (None, r))"
  by pat_completeness auto
termination
  by (relation "measure (\<lambda>r. dq_size (rn_deferred r))") (auto dest: ring_Pop_size [OF sym])

declare promoteDeferredLocked.simps [simp del]

section \<open>Notices\<close>

definition capacity_reason :: "string \<Rightarrow> go_error + bool \<Rightarrow> go_error" where
  "capacity_reason reason res =
     newError ErrHandlerBacklog ''queue notice''
       (case res of Inl e \<Rightarrow> reason @ '': '' @ error_text e | Inr ok \<Rightarrow> reason)"

definition startQueue_known :: "nat \<Rightarrow> JID \<Rightarrow> connectionRun \<Rightarrow> connectionRun" where
  "startQueue_known a j r =
     (let ident = qs_identity (qobj r a);
          canonical = \<lparr>jid_AppKey = qk_appKey ident, jid_Name = qk_name ident,
                       jid_Domain = qk_domain ident, jid_ClientResource = jid_ClientResource j\<rparr>;
          newWeight = queueRetainedWeight canonical;
          grown = (if newWeight > qs_weight (qobj r a)
                   then (case reserveQueueLocked (wrap64 (newWeight - qs_weight (qobj r a))) r of
                           (Inr True, r1) \<Rightarrow> Inr (upd_obj a (\<lambda>q. q\<lparr>qs_weight := newWeight\<rparr>) r1)
                         | (res, r1) \<Rightarrow> Inl (run_fail (Some (capacity_reason
                             ''queue_capacity: tracked queue byte budget exhausted while growing identity''
                             res)) (hit_capacity r1)))
                   else Inr r)
      in case grown of Inl r2 \<Rightarrow> r2
         | Inr r2 \<Rightarrow>
             let r3 = upd_obj a (\<lambda>q. q\<lparr>qs_jid := canonical\<rparr>) r2;
                 (scheduleErr, r4) =
                   (case qs_phase (qobj r3 a) of
                      queueActive \<Rightarrow> (None, upd_obj a (\<lambda>q. q\<lparr>qs_noticePending := True\<rparr>) r3)
                    | queueDeferred \<Rightarrow> (None, r3)
                    | queueIdle \<Rightarrow> activateOrDeferLocked a r3)
             in case scheduleErr of None \<Rightarrow> r4 | Some e \<Rightarrow> run_fail (Some e) (hit_capacity r4))"

definition startQueue_new :: "JID \<Rightarrow> connectionRun \<Rightarrow> connectionRun" where
  "startQueue_new j r =
     (let ident = newQueueKey j; weight = queueRetainedWeight j
      in case reserveQueueLocked weight r of
           (Inr True, r1) \<Rightarrow>
             (let a = length (rn_objs r1);
                  q = \<lparr>qs_identity = ident, qs_jid = j, qs_key = 0, qs_phase = queueIdle,
                       qs_processing = False, qs_noticePending = False, qs_pullQueued = False,
                       qs_pullInFlight = False, qs_pullSentAt = None, qs_weight = weight\<rparr>;
                  r2 = r1\<lparr>rn_objs := rn_objs r1 @ [q],
                          rn_queues := Some (AList.update ident a (tracked r1))\<rparr>
              in case activateOrDeferLocked a r2 of
                   (None, r3) \<Rightarrow> r3
                 | (Some e, r3) \<Rightarrow>
                     let r4 = r3\<lparr>rn_queues := Some (AList.delete ident (tracked r3))\<rparr>;
                         r5 = (if qs_phase (qobj r4 a) = queueActive then add_active (- 1) r4 else r4);
                         r6 = upd_obj a (\<lambda>q. q\<lparr>qs_phase := queueIdle\<rparr>) r5;
                         r7 = r6\<lparr>rn_queueBudget := snd (Release (rn_queueBudget r6) weight),
                                 processQueueBudget := snd (Release (processQueueBudget r6) weight)\<rparr>
                     in run_fail (Some e) (hit_capacity r7))
         | (res, r1) \<Rightarrow>
             run_fail (Some (capacity_reason ''queue_capacity: tracked queue byte budget exhausted'' res))
               (hit_capacity r1))"

definition startQueue :: "JID \<Rightarrow> connectionRun \<Rightarrow> connectionRun" where
  "startQueue j r =
     (case validateQueueJID j of Some e \<Rightarrow> run_fail (Some e) r
      | None \<Rightarrow>
          let r1 = ensureQueueStructuresLocked r
          in case queue_lookup r1 (newQueueKey j) of
               Some a \<Rightarrow> startQueue_known a j r1
             | None \<Rightarrow> startQueue_new j r1)"

section \<open>Pulls\<close>

text \<open>
  \<open>pullWorker\<close> receives a queue and runs \<open>executePull\<close>: a first critical section decides whether a
  request is sent (the cursor and the address to pull, or nothing), the request is sent without the
  mutex, and a second one records the outcome \<open>sendErr\<close>.
\<close>

definition pull_receive :: "connectionRun \<Rightarrow> (nat \<times> connectionRun) option" where
  "pull_receive r =
     (case rn_pullRequests r of
        Some (a # chan) \<Rightarrow> Some (a, r\<lparr>rn_pullRequests := Some chan\<rparr>)
      | _ \<Rightarrow> None)"

definition executePull_begin ::
  "nat \<Rightarrow> connectionRun \<Rightarrow> (JID \<times> uint64 \<times> int64) option \<times> connectionRun" where
  "executePull_begin a r =
     (let q = qobj r a
      in if rn_done r \<or> qs_phase q \<noteq> queueActive \<or> \<not> qs_pullQueued q \<or> qs_processing q \<or> qs_pullInFlight q
         then (None, upd_obj a (\<lambda>q. q\<lparr>qs_pullQueued := False\<rparr>) r)
         else (Some (qs_jid q, qs_key q, rn_queueTimeout r),
               upd_obj a (\<lambda>q. q\<lparr>qs_pullQueued := False, qs_pullInFlight := True\<rparr>) r))"

definition executePull_end ::
  "nat \<Rightarrow> int64 \<Rightarrow> go_error option \<Rightarrow> int \<Rightarrow> connectionRun \<Rightarrow> connectionRun" where
  "executePull_end a timeout sendErr now r =
     (case sendErr of
        Some e \<Rightarrow>
          let r1 = upd_obj a (\<lambda>q. q\<lparr>qs_pullInFlight := False, qs_pullSentAt := None\<rparr>) r
          in if rn_done r1 then r1 else run_fail (Some e) r1
      | None \<Rightarrow>
          if qs_pullInFlight (qobj r a) \<and> \<not> qs_processing (qobj r a)
          then upd_obj a (\<lambda>q. q\<lparr>qs_pullSentAt := if timeout \<le> 0 then None else Some now\<rparr>) r
          else r)"

definition executePull ::
  "nat \<Rightarrow> (JID \<Rightarrow> uint64 \<Rightarrow> go_error option) \<Rightarrow> int \<Rightarrow> connectionRun \<Rightarrow> connectionRun" where
  "executePull a send now r =
     (case executePull_begin a r of
        (None, r1) \<Rightarrow> r1
      | (Some (j, key, timeout), r1) \<Rightarrow> executePull_end a timeout (send j key) now r1)"

text \<open>
  One tick of \<open>pullResponseWatchdog\<close>.  The iteration order of a Go map is arbitrary, so the queue
  that is reported is any of the stalled ones; \<open>pick\<close> chooses it.
\<close>

definition watchdogTimeout :: "int64 \<Rightarrow> int64" where
  "watchdogTimeout queueTimeout = (if queueTimeout \<le> 0 then queueResponseTimeout else queueTimeout)"

definition watchdogInterval :: "int64 \<Rightarrow> int64" where
  "watchdogInterval queueTimeout =
     (let interval = watchdogTimeout queueTimeout div 4
      in if interval \<le> 0 \<or> interval > 1000000000 then 1000000000 else interval)"

definition stalled :: "int64 \<Rightarrow> int \<Rightarrow> queueState \<Rightarrow> bool" where
  "stalled timeout now q \<longleftrightarrow>
     qs_pullInFlight q \<and> (case qs_pullSentAt q of None \<Rightarrow> False | Some t \<Rightarrow> now - t > timeout)"

definition watchdog_tick ::
  "(queueState list \<Rightarrow> nat) \<Rightarrow> int64 \<Rightarrow> int \<Rightarrow> connectionRun \<Rightarrow> connectionRun" where
  "watchdog_tick pick timeout now r =
     (let late = filter (stalled timeout now) (map (\<lambda>(k, a). qobj r a) (tracked r))
      in if late = [] then r
         else run_fail (Some (newError ErrTimeout ''queue pull''
                (''SYNC response timeout for '' @
                 queueKey_String (qs_identity (late ! (pick late mod length late)))))) r)"

section \<open>Batches\<close>

definition resetProcessing :: "queueKey \<Rightarrow> nat \<Rightarrow> connectionRun \<Rightarrow> connectionRun" where
  "resetProcessing k a r =
     (if queue_lookup r k = Some a then upd_obj a (\<lambda>q. q\<lparr>qs_processing := False\<rparr>) r else r)"

text \<open>\<open>handleBatch\<close> up to the release of the mutex: the queue that is now being processed, if any.\<close>

definition handleBatch_enter :: "Sync \<Rightarrow> connectionRun \<Rightarrow> (queueKey \<times> nat) option \<times> connectionRun" where
  "handleBatch_enter d r =
     (case sy_Queue d of None \<Rightarrow> (None, r)
      | Some j \<Rightarrow>
          (case validateQueueJID j of Some e \<Rightarrow> (None, run_fail (Some e) r)
           | None \<Rightarrow>
               (case queue_lookup r (newQueueKey j) of None \<Rightarrow> (None, r)
                | Some a \<Rightarrow>
                    if qs_phase (qobj r a) \<noteq> queueActive \<or> qs_processing (qobj r a) then (None, r)
                    else (Some (newQueueKey j, a),
                          upd_obj a (\<lambda>q. q\<lparr>qs_pullQueued := False, qs_pullInFlight := False,
                                           qs_pullSentAt := None, qs_processing := True\<rparr>) r))))"

definition handleBatch_begin :: "Sync \<Rightarrow> connectionRun \<Rightarrow> (queueKey \<times> nat) option \<times> connectionRun" where
  "handleBatch_begin d r =
     (case sy_Status d of
        Some st \<Rightarrow>
          if st_Code st \<noteq> StatusOK
          then (None, run_fail (Some (protocolError ''sync'' (st_Code st) (st_Reason st))) r)
          else handleBatch_enter d r
      | None \<Rightarrow> handleBatch_enter d r)"

text \<open>
  The rest of \<open>handleBatch\<close>: charge the batch, then hand it to the workers without blocking.  When the
  run is done, the \<open>select\<close> may take either ready case; \<open>prefer_done\<close> is that choice.
\<close>

definition batch_process_budget :: "connectionRun \<Rightarrow> byteBudget option" where
  "batch_process_budget r =
     (if rn_processBatchBudget r = None then processBatchBudget r else rn_processBatchBudget r)"

definition set_batch_budgets :: "byteBudget option \<Rightarrow> byteBudget option \<Rightarrow> connectionRun \<Rightarrow> connectionRun" where
  "set_batch_budgets c p r =
     (if rn_processBatchBudget r = None then r\<lparr>cl_batchBudget := c, processBatchBudget := p\<rparr>
      else r\<lparr>cl_batchBudget := c, rn_processBatchBudget := p\<rparr>)"

definition release_reservation :: "batchReservation option \<Rightarrow> connectionRun \<Rightarrow> connectionRun" where
  "release_reservation res r =
     (case reservation_Release res (cl_batchBudget r) (batch_process_budget r) of
        (err, res', c, p) \<Rightarrow> set_batch_budgets c p r)"

definition handleBatch_finish :: "bool \<Rightarrow> Sync \<Rightarrow> queueKey \<Rightarrow> nat \<Rightarrow> connectionRun \<Rightarrow> connectionRun" where
  "handleBatch_finish prefer_done d k a r =
     (case SyncRetainedWeight (Some d) of
        Inl e \<Rightarrow>
          run_fail (Some (wrapError (if errors_Is e ErrLimitExceeded then ErrProtocolLimit else ErrProtocol)
            ''sync batch weight'' e)) (resetProcessing k a r)
      | Inr weight \<Rightarrow>
          if cl_batchBudget r = None
          then run_fail (Some (newError ErrHandlerBacklog ''sync'' ''client batch budget is not initialized''))
                 (resetProcessing k a r)
          else
            (case tryReserveBatchScoped (cl_batchBudget r) (batch_process_budget r) weight of
               (res, c, p) \<Rightarrow>
                 let r1 = set_batch_budgets c p r
                 in if rr_err res \<noteq> None \<or> \<not> rr_ok res
                    then
                      let r2 = resetProcessing k a r1;
                          r3 = (case rr_scope res of
                                  batchBudgetScopeClient \<Rightarrow>
                                    r2\<lparr>cl_clientBatchRejects := cl_clientBatchRejects r2 + 1\<rparr>
                                | batchBudgetScopeProcess \<Rightarrow>
                                    r2\<lparr>cl_processBatchRejects := cl_processBatchRejects r2 + 1\<rparr>
                                | batchBudgetScopeNone \<Rightarrow> r2);
                          reason = ''batch byte budget exhausted'' @
                            (case rr_err res of None \<Rightarrow> [] | Some e \<Rightarrow> '': '' @ error_text e)
                      in run_fail (Some (newError ErrHandlerBacklog ''sync'' reason)) r3
                    else if rn_done r1 \<and> (prefer_done \<or> length (cl_batches r1) \<ge> writeQueueSize)
                    then release_reservation (rr_reservation res) (resetProcessing k a r1)
                    else if length (cl_batches r1) < writeQueueSize
                    then r1\<lparr>cl_batches := cl_batches r1 @ [\<lparr>bj_queue = k, bj_d = d,
                           bj_r = Some (rn_generation r1), bj_reservation = rr_reservation res\<rparr>]\<rparr>
                    else run_fail (Some (newError ErrHandlerBacklog ''sync'' ''batch queue full''))
                           (release_reservation (rr_reservation res) (resetProcessing k a r1))))"

definition handleBatch :: "bool \<Rightarrow> Sync \<Rightarrow> connectionRun \<Rightarrow> connectionRun" where
  "handleBatch prefer_done d r =
     (case handleBatch_begin d r of
        (None, r1) \<Rightarrow> r1
      | (Some (k, a), r1) \<Rightarrow> handleBatch_finish prefer_done d k a r1)"

text \<open>
  \<open>processBatch\<close> after \<open>processMetas\<close> returned and the run is still alive: move the cursor and decide
  whether the queue pulls again, or goes idle and lets a deferred queue in.
\<close>

definition processBatch_advance :: "queueKey \<Rightarrow> Sync \<Rightarrow> connectionRun \<Rightarrow> connectionRun" where
  "processBatch_advance k d r =
     (case queue_lookup r k of None \<Rightarrow> r
      | Some a \<Rightarrow>
          if rn_generation r \<noteq> cl_generation r then r
          else
            let r1 = upd_obj a (\<lambda>q. q\<lparr>qs_processing := False\<rparr>) r;
                r2 = (if sy_NextKey d \<noteq> 0 then upd_obj a (\<lambda>q. q\<lparr>qs_key := sy_NextKey d\<rparr>) r1 else r1);
                (scheduleErr, r3) =
                  (if sy_IsLast d \<or> sy_NextKey d = 0 then
                     (if qs_noticePending (qobj r2 a)
                      then enqueuePullLocked (Some a) (upd_obj a (\<lambda>q. q\<lparr>qs_noticePending := False\<rparr>) r2)
                      else promoteDeferredLocked
                             (add_active (- 1) (upd_obj a (\<lambda>q. q\<lparr>qs_phase := queueIdle\<rparr>) r2)))
                   else enqueuePullLocked (Some a) (upd_obj a (\<lambda>q. q\<lparr>qs_noticePending := False\<rparr>) r2))
            in case scheduleErr of None \<Rightarrow> r3 | Some e \<Rightarrow> run_fail (Some e) (hit_capacity r3))"

definition processBatch ::
  "(Meta list \<Rightarrow> connectionRun \<Rightarrow> go_error option \<times> connectionRun) \<Rightarrow>
   queueKey \<Rightarrow> Sync \<Rightarrow> connectionRun \<Rightarrow> connectionRun" where
  "processBatch processMetas k d r =
     (case processMetas (fst (sy_Metas d)) r of
        (err, r1) \<Rightarrow> if rn_done r1 then r1 else processBatch_advance k d r1)"

text \<open>When \<open>processBatchJob\<close> only returns the reservation; a job of another run is not this run's to process.\<close>

definition job_skips :: "batchJob \<Rightarrow> connectionRun \<Rightarrow> bool" where
  "job_skips job r \<longleftrightarrow>
     bj_reservation job = None \<or> bj_r job \<noteq> Some (rn_generation r) \<or> rn_done r
     \<or> rn_generation r \<noteq> cl_generation r \<or> cl_lifetimeDone r"

definition job_release :: "batchJob \<Rightarrow> connectionRun \<Rightarrow> connectionRun" where
  "job_release job r =
     (case bj_reservation job of None \<Rightarrow> r | Some res \<Rightarrow> release_reservation (Some res) r)"

definition processBatchJob ::
  "(Meta list \<Rightarrow> connectionRun \<Rightarrow> go_error option \<times> connectionRun) \<Rightarrow>
   batchJob \<Rightarrow> connectionRun \<Rightarrow> connectionRun" where
  "processBatchJob processMetas job r =
     job_release job (if job_skips job r then r else processBatch processMetas (bj_queue job) (bj_d job) r)"

section \<open>The end of the run\<close>

definition tracked_weight :: "connectionRun \<Rightarrow> int64" where
  "tracked_weight r = fold (\<lambda>(k, a) tot. wrap64 (tot + qs_weight (qobj r a))) (tracked r) 0"

definition finalizeQueues :: "connectionRun \<Rightarrow> connectionRun" where
  "finalizeQueues r =
     (if rn_finalized r then r
      else
        let tot = tracked_weight r;
            r1 = r\<lparr>rn_finalized := True, rn_queues := None,
                   rn_deferred := \<lparr>dq_items = [], dq_head = 0, dq_size = 0\<rparr>, rn_activeQueues := 0\<rparr>
        in if tot = 0 then r1
           else r1\<lparr>rn_queueBudget := snd (Release (rn_queueBudget r1) tot),
                   processQueueBudget := snd (Release (processQueueBudget r1) tot)\<rparr>)"

end
