(* ===== verification/Queue_Invariant.thy ===== *)
theory Queue_Invariant
  imports Queue_Sched
begin

text \<open>
  The accounting invariant of the queue scheduler and its preservation by every operation of
  \<open>Queue_Sched\<close>: the map and the store agree (\<open>map_ok\<close>), the active counter and the deferred ring
  describe the phases of the tracked queues (\<open>phase_ok\<close>), the byte budgets are charged with exactly the
  tracked weights (\<open>charge_ok\<close>), and the pull channel stays within its capacity (\<open>chan_ok\<close>).
\<close>

section \<open>The invariant\<close>

definition addrs :: "connectionRun \<Rightarrow> nat list" where
  "addrs r = map snd (tracked r)"

definition map_ok :: "connectionRun \<Rightarrow> bool" where
  "map_ok r \<longleftrightarrow>
     rn_queues r \<noteq> None \<and> distinct (map fst (tracked r)) \<and> distinct (addrs r)
     \<and> (\<forall>(k, a) \<in> set (tracked r). a < length (rn_objs r) \<and> qs_identity (qobj r a) = k)"

definition count_if :: "('a \<Rightarrow> bool) \<Rightarrow> 'a list \<Rightarrow> int" where
  "count_if P xs = sum_list (map (\<lambda>x. of_bool (P x)) xs)"

definition is_phase :: "connectionRun \<Rightarrow> queuePhase \<Rightarrow> nat \<Rightarrow> bool" where
  "is_phase r p a \<longleftrightarrow> qs_phase (qobj r a) = p"

text \<open>
  \<open>slack\<close> is 0 between operations; it is 1 inside \<open>processBatch\<close>, where a slot has been given up and
  not yet offered to the deferred queues.
\<close>

definition phase_ok :: "int \<Rightarrow> connectionRun \<Rightarrow> bool" where
  "phase_ok slack r \<longleftrightarrow>
     ring_ok (rn_deferred r) \<and> ring_capacity (rn_deferred r) = maxTrackedQueues
     \<and> distinct (ring_contents (rn_deferred r))
     \<and> set (ring_contents (rn_deferred r)) = {a \<in> set (addrs r). is_phase r queueDeferred a}
     \<and> rn_activeQueues r = count_if (is_phase r queueActive) (addrs r)
     \<and> rn_activeQueues r \<le> 256
     \<and> (ring_contents (rn_deferred r) \<noteq> [] \<longrightarrow> 256 - slack \<le> rn_activeQueues r)"

definition weight_at :: "connectionRun \<Rightarrow> nat \<Rightarrow> int64" where
  "weight_at r a = qs_weight (qobj r a)"

definition charge_ok :: "connectionRun \<Rightarrow> bool" where
  "charge_ok r \<longleftrightarrow>
     opt_ok (rn_queueBudget r) \<and> Limit (rn_queueBudget r) = connectionQueueBudgetBytes
     \<and> Used (rn_queueBudget r) = sum_list (map (weight_at r) (addrs r))
     \<and> (\<forall>a \<in> set (addrs r). 1024 \<le> weight_at r a)
     \<and> opt_ok (processQueueBudget r) \<and> Used (rn_queueBudget r) \<le> Used (processQueueBudget r)"

definition chan_ok :: "connectionRun \<Rightarrow> bool" where
  "chan_ok r \<longleftrightarrow>
     (\<exists>chan. rn_pullRequests r = Some chan \<and> length chan \<le> 256 \<and> (\<forall>a \<in> set chan. a < length (rn_objs r)))
     \<and> 0 < rn_queueTimeout r"

definition sched_ok :: "int \<Rightarrow> connectionRun \<Rightarrow> bool" where
  "sched_ok slack r \<longleftrightarrow> map_ok r \<and> phase_ok slack r \<and> charge_ok r \<and> chan_ok r"

section \<open>Updates of the store and of unrelated fields\<close>

lemma upd_obj_simps [simp]:
  "rn_queues (upd_obj a f r) = rn_queues r" "rn_deferred (upd_obj a f r) = rn_deferred r"
  "rn_activeQueues (upd_obj a f r) = rn_activeQueues r" "rn_queueBudget (upd_obj a f r) = rn_queueBudget r"
  "processQueueBudget (upd_obj a f r) = processQueueBudget r"
  "rn_pullRequests (upd_obj a f r) = rn_pullRequests r" "rn_queueTimeout (upd_obj a f r) = rn_queueTimeout r"
  "length (rn_objs (upd_obj a f r)) = length (rn_objs r)" "rn_done (upd_obj a f r) = rn_done r"
  "rn_generation (upd_obj a f r) = rn_generation r" "cl_generation (upd_obj a f r) = cl_generation r"
  "rn_finalized (upd_obj a f r) = rn_finalized r" "cl_batches (upd_obj a f r) = cl_batches r"
  "cl_lifetimeDone (upd_obj a f r) = cl_lifetimeDone r" "tracked (upd_obj a f r) = tracked r"
  "addrs (upd_obj a f r) = addrs r"
  by (simp_all add: upd_obj_def tracked_def addrs_def)

lemma qobj_upd [simp]:
  "a < length (rn_objs r) \<Longrightarrow> qobj (upd_obj a f r) b = (if b = a then f (qobj r a) else qobj r b)"
  by (simp add: qobj_def upd_obj_def)

lemma view_simps [simp]:
  "tracked (r\<lparr>rn_queueBudget := x0\<rparr>) = tracked r" "addrs (r\<lparr>rn_queueBudget := x0\<rparr>) = addrs r"
  "qobj (r\<lparr>rn_queueBudget := x0\<rparr>) = qobj r" "is_phase (r\<lparr>rn_queueBudget := x0\<rparr>) = is_phase r"
  "weight_at (r\<lparr>rn_queueBudget := x0\<rparr>) = weight_at r"
  "tracked (r\<lparr>processQueueBudget := x1\<rparr>) = tracked r" "addrs (r\<lparr>processQueueBudget := x1\<rparr>) = addrs r"
  "qobj (r\<lparr>processQueueBudget := x1\<rparr>) = qobj r" "is_phase (r\<lparr>processQueueBudget := x1\<rparr>) = is_phase r"
  "weight_at (r\<lparr>processQueueBudget := x1\<rparr>) = weight_at r"
  "tracked (r\<lparr>rn_pullRequests := x2\<rparr>) = tracked r" "addrs (r\<lparr>rn_pullRequests := x2\<rparr>) = addrs r"
  "qobj (r\<lparr>rn_pullRequests := x2\<rparr>) = qobj r" "is_phase (r\<lparr>rn_pullRequests := x2\<rparr>) = is_phase r"
  "weight_at (r\<lparr>rn_pullRequests := x2\<rparr>) = weight_at r"
  "tracked (r\<lparr>rn_deferred := x3\<rparr>) = tracked r" "addrs (r\<lparr>rn_deferred := x3\<rparr>) = addrs r"
  "qobj (r\<lparr>rn_deferred := x3\<rparr>) = qobj r" "is_phase (r\<lparr>rn_deferred := x3\<rparr>) = is_phase r"
  "weight_at (r\<lparr>rn_deferred := x3\<rparr>) = weight_at r"
  "tracked (r\<lparr>rn_activeQueues := x4\<rparr>) = tracked r" "addrs (r\<lparr>rn_activeQueues := x4\<rparr>) = addrs r"
  "qobj (r\<lparr>rn_activeQueues := x4\<rparr>) = qobj r" "is_phase (r\<lparr>rn_activeQueues := x4\<rparr>) = is_phase r"
  "weight_at (r\<lparr>rn_activeQueues := x4\<rparr>) = weight_at r"
  "tracked (r\<lparr>cl_batches := x5\<rparr>) = tracked r" "addrs (r\<lparr>cl_batches := x5\<rparr>) = addrs r"
  "qobj (r\<lparr>cl_batches := x5\<rparr>) = qobj r" "is_phase (r\<lparr>cl_batches := x5\<rparr>) = is_phase r"
  "weight_at (r\<lparr>cl_batches := x5\<rparr>) = weight_at r"
  "tracked (r\<lparr>rn_done := x6\<rparr>) = tracked r" "addrs (r\<lparr>rn_done := x6\<rparr>) = addrs r"
  "qobj (r\<lparr>rn_done := x6\<rparr>) = qobj r" "is_phase (r\<lparr>rn_done := x6\<rparr>) = is_phase r"
  "weight_at (r\<lparr>rn_done := x6\<rparr>) = weight_at r"
  by (simp_all add: tracked_def addrs_def qobj_def fun_eq_iff is_phase_def weight_at_def)

lemma tracked_simps [simp]:
  "tracked (r\<lparr>rn_queues := Some m\<rparr>) = m" "tracked (r\<lparr>rn_objs := os\<rparr>) = tracked r"
  by (simp_all add: tracked_def)

lemma map_ok_bound: "map_ok r \<Longrightarrow> a \<in> set (addrs r) \<Longrightarrow> a < length (rn_objs r)"
  by (auto simp: map_ok_def addrs_def)

lemma map_ok_lookup:
  "map_ok r \<Longrightarrow> queue_lookup r k = Some a \<longleftrightarrow> (k, a) \<in> set (tracked r)"
  by (simp add: queue_lookup_def map_ok_def)

lemma lookup_addr: "queue_lookup r k = Some a \<Longrightarrow> a \<in> set (addrs r)"
  by (force simp: queue_lookup_def addrs_def dest: map_of_SomeD)

text \<open>A view of the run that determines the invariant; steps that keep it keep the invariant.\<close>

definition same_queues :: "connectionRun \<Rightarrow> connectionRun \<Rightarrow> bool" where
  "same_queues r r' \<longleftrightarrow>
     rn_queues r' = rn_queues r \<and> rn_objs r' = rn_objs r \<and> rn_deferred r' = rn_deferred r
     \<and> rn_activeQueues r' = rn_activeQueues r \<and> rn_queueBudget r' = rn_queueBudget r
     \<and> processQueueBudget r' = processQueueBudget r \<and> rn_pullRequests r' = rn_pullRequests r
     \<and> rn_queueTimeout r' = rn_queueTimeout r"

lemma same_queues_views:
  assumes "same_queues r r'"
  shows "tracked r' = tracked r" "addrs r' = addrs r" "qobj r' = qobj r" "is_phase r' = is_phase r"
    "weight_at r' = weight_at r"
  using assms by (simp_all add: same_queues_def tracked_def addrs_def qobj_def fun_eq_iff is_phase_def
      weight_at_def)

lemma sched_ok_same: "same_queues r r' \<Longrightarrow> sched_ok s r' = sched_ok s r"
  using same_queues_views [of r r']
  by (simp add: sched_ok_def map_ok_def phase_ok_def charge_ok_def chan_ok_def same_queues_def)

lemma same_queues_refl [simp]: "same_queues r r"
  by (simp add: same_queues_def)

lemma same_queues_trans: "same_queues r s \<Longrightarrow> same_queues s t \<Longrightarrow> same_queues r t"
  by (simp add: same_queues_def)

lemma same_queues_fail [simp]: "same_queues r (run_fail e r)"
  by (simp add: same_queues_def run_fail_eq)

lemma same_queues_hit [simp]: "same_queues r (hit_capacity r)"
  by (simp add: same_queues_def hit_capacity_def)

lemma sched_ok_fail [simp]: "sched_ok s (run_fail e r) = sched_ok s r"
  by (rule sched_ok_same) simp

lemma sched_ok_hit [simp]: "sched_ok s (hit_capacity r) = sched_ok s r"
  by (rule sched_ok_same) simp

lemma ensure_id: "sched_ok s r \<Longrightarrow> ensureQueueStructuresLocked r = r"
proof -
  assume ok: "sched_ok s r"
  then have "dq_items (rn_deferred r) \<noteq> []"
    by (auto simp: sched_ok_def phase_ok_def ring_capacity_def maxTrackedQueues_def
        connectionQueueBudgetBytes_def)
  with ok show ?thesis
    by (auto simp: ensureQueueStructuresLocked_def sched_ok_def map_ok_def charge_ok_def chan_ok_def
        opt_ok_def)
qed

section \<open>Changing one queue\<close>

lemma count_if_change:
  assumes "distinct xs" and "a \<in> set xs" and "\<And>x. x \<noteq> a \<Longrightarrow> Q x = P x"
  shows "count_if Q xs = count_if P xs - of_bool (P a) + of_bool (Q a)"
  unfolding count_if_def using assms by (intro sum_list_map_update_distinct) auto

lemma phase_ok_change:
  assumes m: "map_ok r" and p: "phase_ok s r" and a: "a \<in> set (addrs r)"
    and view: "addrs r' = addrs r" "\<And>b. qs_phase (qobj r' b) = (if b = a then ph else qs_phase (qobj r b))"
    and ring: "ring_ok (rn_deferred r')" "ring_capacity (rn_deferred r') = maxTrackedQueues"
      "distinct (ring_contents (rn_deferred r'))"
      "set (ring_contents (rn_deferred r')) =
         {b \<in> set (addrs r). b \<noteq> a \<and> is_phase r queueDeferred b} \<union> (if ph = queueDeferred then {a} else {})"
    and act: "rn_activeQueues r' =
         rn_activeQueues r - of_bool (is_phase r queueActive a) + of_bool (ph = queueActive)"
      "rn_activeQueues r' \<le> 256"
      "ring_contents (rn_deferred r') \<noteq> [] \<Longrightarrow> 256 - s' \<le> rn_activeQueues r'"
  shows "phase_ok s' r'"
proof -
  have d: "distinct (addrs r)" using m by (simp add: map_ok_def)
  have "count_if (is_phase r' queueActive) (addrs r) = count_if (is_phase r queueActive) (addrs r)
      - of_bool (is_phase r queueActive a) + of_bool (is_phase r' queueActive a)"
    using d a by (rule count_if_change) (simp add: is_phase_def view)
  moreover have "{b \<in> set (addrs r'). is_phase r' queueDeferred b} =
      {b \<in> set (addrs r). b \<noteq> a \<and> is_phase r queueDeferred b} \<union> (if ph = queueDeferred then {a} else {})"
    using a by (auto simp: is_phase_def view split: if_splits)
  ultimately show ?thesis
    using p ring act by (simp add: phase_ok_def view is_phase_def)
qed

text \<open>An update that keeps identity, phase and weight keeps everything.\<close>

definition keeps_core :: "(queueState \<Rightarrow> queueState) \<Rightarrow> bool" where
  "keeps_core f \<longleftrightarrow> (\<forall>q. qs_identity (f q) = qs_identity q \<and> qs_phase (f q) = qs_phase q
     \<and> qs_weight (f q) = qs_weight q)"

lemma qobj_upd_core:
  "keeps_core f \<Longrightarrow> qs_identity (qobj (upd_obj a f r) b) = qs_identity (qobj r b)
     \<and> qs_phase (qobj (upd_obj a f r) b) = qs_phase (qobj r b)
     \<and> qs_weight (qobj (upd_obj a f r) b) = qs_weight (qobj r b)"
  by (cases "a < length (rn_objs r)") (auto simp: keeps_core_def qobj_def upd_obj_def
      nth_list_update list_update_beyond)

lemma sched_ok_flags:
  assumes "keeps_core f"
  shows "sched_ok s (upd_obj a f r) = sched_ok s r"
proof -
  note v = qobj_upd_core [OF assms, of a r]
  have "is_phase (upd_obj a f r) = is_phase r" "weight_at (upd_obj a f r) = weight_at r"
    using v by (simp_all add: fun_eq_iff is_phase_def weight_at_def)
  then show ?thesis
    using v by (simp add: sched_ok_def map_ok_def phase_ok_def charge_ok_def chan_ok_def)
qed

lemma keeps_core_flags [simp]:
  "keeps_core (\<lambda>q. q\<lparr>qs_pullQueued := x\<rparr>)" "keeps_core (\<lambda>q. q\<lparr>qs_noticePending := x\<rparr>)"
  "keeps_core (\<lambda>q. q\<lparr>qs_processing := x\<rparr>)" "keeps_core (\<lambda>q. q\<lparr>qs_key := k\<rparr>)"
  "keeps_core (\<lambda>q. q\<lparr>qs_jid := j\<rparr>)" "keeps_core (\<lambda>q. q\<lparr>qs_pullSentAt := t\<rparr>)"
  "keeps_core (\<lambda>q. q\<lparr>qs_pullQueued := x, qs_pullInFlight := y\<rparr>)"
  "keeps_core (\<lambda>q. q\<lparr>qs_pullInFlight := y, qs_pullSentAt := t\<rparr>)"
  "keeps_core (\<lambda>q. q\<lparr>qs_pullQueued := x, qs_pullInFlight := y, qs_pullSentAt := t, qs_processing := z\<rparr>)"
  by (simp_all add: keeps_core_def)

lemma sched_ok_chan:
  assumes "sched_ok s r" and "length chan \<le> 256" and "\<forall>a \<in> set chan. a < length (rn_objs r)"
  shows "sched_ok s (r\<lparr>rn_pullRequests := Some chan\<rparr>)"
proof -
  let ?r = "r\<lparr>rn_pullRequests := Some chan\<rparr>"
  have "tracked ?r = tracked r" "addrs ?r = addrs r" "qobj ?r = qobj r" "is_phase ?r = is_phase r"
    "weight_at ?r = weight_at r"
    by (simp_all add: tracked_def addrs_def qobj_def fun_eq_iff is_phase_def weight_at_def)
  then show ?thesis
    using assms by (auto simp: sched_ok_def map_ok_def phase_ok_def charge_ok_def chan_ok_def)
qed

text \<open>The store may grow, and the budgets may be exchanged for equivalent ones.\<close>

lemma sched_ok_extend:
  assumes ok: "sched_ok s r" and q: "rn_queues r' = rn_queues r"
    and obj: "\<And>b. b \<in> set (addrs r) \<Longrightarrow> qobj r' b = qobj r b" "length (rn_objs r) \<le> length (rn_objs r')"
    and same: "rn_deferred r' = rn_deferred r" "rn_activeQueues r' = rn_activeQueues r"
      "rn_pullRequests r' = rn_pullRequests r" "rn_queueTimeout r' = rn_queueTimeout r"
    and bud: "opt_ok (rn_queueBudget r')" "Limit (rn_queueBudget r') = Limit (rn_queueBudget r)"
      "Used (rn_queueBudget r') = Used (rn_queueBudget r)" "opt_ok (processQueueBudget r')"
      "Used (rn_queueBudget r) \<le> Used (processQueueBudget r')"
  shows "sched_ok s r'"
proof -
  have t: "tracked r' = tracked r" "addrs r' = addrs r" using q by (simp_all add: tracked_def addrs_def)
  have w: "sum_list (map (weight_at r') (addrs r)) = sum_list (map (weight_at r) (addrs r))"
    by (rule arg_cong [of _ _ sum_list]) (auto simp: weight_at_def obj(1))
  have c: "count_if (is_phase r' queueActive) (addrs r) = count_if (is_phase r queueActive) (addrs r)"
    unfolding count_if_def by (rule arg_cong [of _ _ sum_list]) (auto simp: is_phase_def obj(1))
  have d: "{a \<in> set (addrs r). is_phase r' queueDeferred a} = {a \<in> set (addrs r). is_phase r queueDeferred a}"
    using obj(1) by (auto simp: is_phase_def)
  have "map_ok r'"
    using ok obj q unfolding sched_ok_def map_ok_def t by (force simp: addrs_def t)
  moreover have "phase_ok s r'" using ok same by (auto simp: sched_ok_def phase_ok_def t c d)
  moreover have "charge_ok r'"
    using ok bud w obj(1) by (auto simp: sched_ok_def charge_ok_def t weight_at_def)
  moreover have "chan_ok r'" using ok same obj(2) by (fastforce simp: sched_ok_def chan_ok_def)
  ultimately show ?thesis by (simp add: sched_ok_def)
qed

section \<open>Pull requests, activation, promotion\<close>

lemma enqueuePull_ok:
  assumes "sched_ok s r" and "a < length (rn_objs r)"
  shows "sched_ok s (snd (enqueuePullLocked (Some a) r))"
proof -
  let ?r = "upd_obj a (\<lambda>q. q\<lparr>qs_pullQueued := True\<rparr>) r"
  obtain chan where chan: "rn_pullRequests r = Some chan" "\<forall>b \<in> set chan. b < length (rn_objs r)"
    using assms(1) by (auto simp: sched_ok_def chan_ok_def)
  have ok: "sched_ok s ?r" using assms(1) by (simp add: sched_ok_flags)
  then have "length chan < 256 \<Longrightarrow> sched_ok s (?r\<lparr>rn_pullRequests := Some (chan @ [a])\<rparr>)"
    using chan assms(2) by (intro sched_ok_chan) auto
  then show ?thesis
    using assms(1) ok chan by (simp add: enqueuePullLocked_def Let_def sched_ok_flags)
qed

lemma sched_ok_phase_fields:
  assumes "sched_ok s r" and "a < length (rn_objs r)"
    and "phase_ok s' (upd_obj a (\<lambda>q. q\<lparr>qs_phase := ph\<rparr>) r\<lparr>rn_deferred := ring, rn_activeQueues := n\<rparr>)"
  shows "sched_ok s' (upd_obj a (\<lambda>q. q\<lparr>qs_phase := ph\<rparr>) r\<lparr>rn_deferred := ring, rn_activeQueues := n\<rparr>)"
proof -
  let ?r = "upd_obj a (\<lambda>q. q\<lparr>qs_phase := ph\<rparr>) r\<lparr>rn_deferred := ring, rn_activeQueues := n\<rparr>"
  have v: "tracked ?r = tracked r" "addrs ?r = addrs r"
    "\<And>b. qobj ?r b = (if b = a then (qobj r a)\<lparr>qs_phase := ph\<rparr> else qobj r b)"
    using assms(2) by (auto simp: tracked_def addrs_def qobj_def upd_obj_def)
  have w: "weight_at ?r = weight_at r" using assms(2) by (simp add: fun_eq_iff weight_at_def)
  have "map_ok ?r" using assms(1,2) by (auto simp: sched_ok_def map_ok_def)
  moreover have "charge_ok ?r" using assms(1) w by (simp add: sched_ok_def charge_ok_def)
  moreover have "chan_ok ?r" using assms(1) by (simp add: sched_ok_def chan_ok_def)
  ultimately show ?thesis using assms(3) by (simp add: sched_ok_def)
qed

text \<open>The three changes of phase.\<close>

definition set_phase :: "nat \<Rightarrow> queuePhase \<Rightarrow> nat deferredQueueRing \<Rightarrow> int \<Rightarrow> connectionRun \<Rightarrow> connectionRun" where
  "set_phase a ph ring n r =
     upd_obj a (\<lambda>q. q\<lparr>qs_phase := ph\<rparr>) r\<lparr>rn_deferred := ring, rn_activeQueues := n\<rparr>"

lemma set_phase_ok:
  assumes ok: "sched_ok s r" and a: "a \<in> set (addrs r)"
    and ring: "ring_ok ring" "ring_capacity ring = maxTrackedQueues" "distinct (ring_contents ring)"
      "set (ring_contents ring) =
         {b \<in> set (addrs r). b \<noteq> a \<and> is_phase r queueDeferred b} \<union> (if ph = queueDeferred then {a} else {})"
    and n: "n = rn_activeQueues r - of_bool (is_phase r queueActive a) + of_bool (ph = queueActive)"
      "n \<le> 256" "ring_contents ring \<noteq> [] \<Longrightarrow> 256 - s' \<le> n"
  shows "sched_ok s' (set_phase a ph ring n r)"
proof -
  let ?r = "upd_obj a (\<lambda>q. q\<lparr>qs_phase := ph\<rparr>) r\<lparr>rn_deferred := ring, rn_activeQueues := n\<rparr>"
  have m: "map_ok r" and p: "phase_ok s r" using ok by (simp_all add: sched_ok_def)
  have b: "a < length (rn_objs r)" using m a by (rule map_ok_bound)
  have "phase_ok s' ?r"
    by (rule phase_ok_change [OF m p a, where ph = ph])
       (use ring n b in \<open>auto simp: addrs_def tracked_def qobj_def upd_obj_def\<close>)
  then show ?thesis unfolding set_phase_def by (rule sched_ok_phase_fields [OF ok b])
qed

lemma tracked_bound:
  assumes "sched_ok s r"
  shows "length (addrs r) \<le> maxTrackedQueues"
proof -
  have c: "charge_ok r" using assms by (simp add: sched_ok_def)
  have "1024 * int (length (map (weight_at r) (addrs r))) \<le> sum_list (map (weight_at r) (addrs r))"
    using c by (intro sum_list_le_const) (auto simp: charge_ok_def)
  moreover have "Used (rn_queueBudget r) \<le> Limit (rn_queueBudget r)"
    using c shared_budget.bounds unfolding charge_ok_def by blast
  ultimately show ?thesis
    using c by (simp add: charge_ok_def connectionQueueBudgetBytes_def maxTrackedQueues_def)
qed

lemma active_set_phase:
  "add_active n (upd_obj a (\<lambda>q. q\<lparr>qs_phase := ph\<rparr>) r) =
     set_phase a ph (rn_deferred r) (rn_activeQueues r + n) r"
  by (simp add: add_active_def set_phase_def upd_obj_def)

lemma set_phase_simps [simp]:
  "addrs (set_phase a ph ring n r) = addrs r" "tracked (set_phase a ph ring n r) = tracked r"
  "length (rn_objs (set_phase a ph ring n r)) = length (rn_objs r)"
  "rn_pullRequests (set_phase a ph ring n r) = rn_pullRequests r"
  "rn_done (set_phase a ph ring n r) = rn_done r"
  "rn_activeQueues (set_phase a ph ring n r) = n" "rn_deferred (set_phase a ph ring n r) = ring"
  by (simp_all add: set_phase_def addrs_def tracked_def upd_obj_def)

lemma qobj_set_phase [simp]:
  "a < length (rn_objs r) \<Longrightarrow>
   qobj (set_phase a ph ring n r) b = (if b = a then (qobj r a)\<lparr>qs_phase := ph\<rparr> else qobj r b)"
  by (simp add: set_phase_def qobj_def upd_obj_def)

lemma activate_room_ok:
  assumes ok: "sched_ok 0 r" and a: "a \<in> set (addrs r)" and idle: "is_phase r queueIdle a"
    and room: "rn_activeQueues r < 256"
  shows "sched_ok 0 (set_phase a queueActive (rn_deferred r) (rn_activeQueues r + 1) r)"
  by (rule set_phase_ok [OF ok a])
     (use ok idle room in \<open>auto simp: sched_ok_def phase_ok_def is_phase_def\<close>)

lemma defer_push:
  assumes ok: "sched_ok s r" and a: "a \<in> set (addrs r)" and idle: "is_phase r queueIdle a"
  shows "fst (ring_Push (rn_deferred r) (Some a)) \<and> ring_ok (snd (ring_Push (rn_deferred r) (Some a)))
    \<and> ring_contents (snd (ring_Push (rn_deferred r) (Some a))) = ring_contents (rn_deferred r) @ [a]
    \<and> ring_capacity (snd (ring_Push (rn_deferred r) (Some a))) = maxTrackedQueues"
proof -
  have p: "phase_ok s r" and d: "distinct (addrs r)" using ok by (simp_all add: sched_ok_def map_ok_def)
  have "set (ring_contents (rn_deferred r)) \<subseteq> set (addrs r) - {a}"
    using p idle by (auto simp: phase_ok_def is_phase_def)
  then have "card (set (ring_contents (rn_deferred r))) \<le> card (set (addrs r) - {a})"
    by (intro card_mono) auto
  also have "\<dots> < length (addrs r)"
    using a d by (metis card_Diff1_less distinct_card List.finite_set)
  finally have "length (ring_contents (rn_deferred r)) < ring_capacity (rn_deferred r)"
    using p tracked_bound [OF ok] distinct_card [of "ring_contents (rn_deferred r)"]
    by (simp add: phase_ok_def)
  with p show ?thesis
    using deferred_ring.push_room [of "rn_deferred r" a] by (simp add: phase_ok_def)
qed

lemma activateOrDefer_ok:
  assumes ok: "sched_ok 0 r" and a: "a \<in> set (addrs r)" and idle: "is_phase r queueIdle a"
  shows "sched_ok 0 (snd (activateOrDeferLocked a r))"
proof (cases "rn_activeQueues r < 256")
  case True
  have "a < length (rn_objs r)" using ok a by (simp add: sched_ok_def map_ok_bound)
  then show ?thesis
    using True activate_room_ok [OF ok a idle True]
    by (simp add: activateOrDeferLocked_def active_set_phase enqueuePull_ok)
next
  case False
  let ?ring = "snd (ring_Push (rn_deferred r) (Some a))"
  note push = defer_push [OF ok a idle]
  have "sched_ok 0 (set_phase a queueDeferred ?ring (rn_activeQueues r) r)"
    by (rule set_phase_ok [OF ok a])
       (use ok idle push False in \<open>auto simp: sched_ok_def phase_ok_def is_phase_def\<close>)
  moreover have "activateOrDeferLocked a r = (None, set_phase a queueDeferred ?ring (rn_activeQueues r) r)"
    using False push
    by (cases "ring_Push (rn_deferred r) (Some a)") (simp add: activateOrDeferLocked_def set_phase_def upd_obj_def)
  ultimately show ?thesis by simp
qed

text \<open>A pull that cannot be queued is the only way activation fails, and it leaves the queue active.\<close>

lemma activateOrDefer_error:
  assumes ok: "sched_ok 0 r" and a: "a \<in> set (addrs r)" and idle: "is_phase r queueIdle a"
    and err: "activateOrDeferLocked a r = (Some e, r')"
  shows "rn_activeQueues r < 256 \<and>
     (\<exists>q. qs_phase q = queueActive \<and> r' = r\<lparr>rn_objs := (rn_objs r)[a := q], rn_activeQueues := rn_activeQueues r + 1\<rparr>)"
proof (cases "rn_activeQueues r < 256")
  case True
  have b: "a < length (rn_objs r)" using ok a by (simp add: sched_ok_def map_ok_bound)
  let ?r = "set_phase a queueActive (rn_deferred r) (rn_activeQueues r + 1) r"
  have "enqueuePullLocked (Some a) ?r = (Some e, r')"
    using err True by (simp add: activateOrDeferLocked_def active_set_phase)
  then have "r' = upd_obj a (\<lambda>q. q\<lparr>qs_pullQueued := False\<rparr>) (upd_obj a (\<lambda>q. q\<lparr>qs_pullQueued := True\<rparr>) ?r)"
    by (auto simp: enqueuePullLocked_def Let_def split: if_splits option.splits)
  then have "r' = r\<lparr>rn_objs := (rn_objs r)[a := (qobj r a)\<lparr>qs_phase := queueActive, qs_pullQueued := False\<rparr>],
      rn_activeQueues := rn_activeQueues r + 1\<rparr>"
    using b by (simp add: set_phase_def upd_obj_def qobj_def)
  with True show ?thesis by (intro conjI exI) auto
next
  case False
  note push = defer_push [OF ok a idle]
  then have "fst (activateOrDeferLocked a r) = None"
    using False by (cases "ring_Push (rn_deferred r) (Some a)") (simp add: activateOrDeferLocked_def)
  with err show ?thesis by simp
qed

lemma promote_step:
  assumes ok: "sched_ok 1 r"
  shows "promoteDeferredLocked r =
    (if rn_activeQueues r < 256 \<and> ring_contents (rn_deferred r) \<noteq> []
     then enqueuePullLocked (Some (hd (ring_contents (rn_deferred r))))
       (set_phase (hd (ring_contents (rn_deferred r))) queueActive (snd (ring_Pop (rn_deferred r)))
         (rn_activeQueues r + 1) r)
     else (None, r))"
proof -
  have p: "ring_ok (rn_deferred r)" using ok by (simp add: sched_ok_def phase_ok_def)
  show ?thesis
  proof (cases "ring_contents (rn_deferred r)")
    case Nil
    then show ?thesis
      using deferred_ring.pop_empty [OF p] by (subst promoteDeferredLocked.simps) simp
  next
    case (Cons a xs)
    obtain ring where pop: "ring_Pop (rn_deferred r) = (Some a, ring)"
      using deferred_ring.pop_cons [OF p Cons] by (cases "ring_Pop (rn_deferred r)") auto
    have "a \<in> {b \<in> set (addrs r). is_phase r queueDeferred b}"
      using ok Cons by (auto simp: sched_ok_def phase_ok_def)
    then have "qs_phase (qobj (r\<lparr>rn_deferred := ring\<rparr>) a) = queueDeferred"
      by (simp add: is_phase_def qobj_def)
    moreover have "add_active 1 (upd_obj a (\<lambda>q. q\<lparr>qs_phase := queueActive\<rparr>) (r\<lparr>rn_deferred := ring\<rparr>)) =
        set_phase a queueActive ring (rn_activeQueues r + 1) r"
      unfolding add_active_def upd_obj_def set_phase_def by (rule connectionRun.equality) simp_all
    ultimately show ?thesis using pop Cons by (subst promoteDeferredLocked.simps) simp
  qed
qed

lemma promote_ok:
  assumes ok: "sched_ok 1 r"
  shows "sched_ok 0 (snd (promoteDeferredLocked r))"
proof (cases "rn_activeQueues r < 256 \<and> ring_contents (rn_deferred r) \<noteq> []")
  case False
  then show ?thesis
    using ok promote_step [OF ok] by (auto simp: sched_ok_def phase_ok_def)
next
  case True
  then obtain a xs where c: "ring_contents (rn_deferred r) = a # xs" by (meson list.exhaust)
  have p: "phase_ok 1 r" using ok by (simp add: sched_ok_def)
  note pop = deferred_ring.pop_cons [of "rn_deferred r", OF _ c]
  have a: "a \<in> set (addrs r)" "is_phase r queueDeferred a" using p c by (auto simp: phase_ok_def)
  have "sched_ok 0 (set_phase a queueActive (snd (ring_Pop (rn_deferred r))) (rn_activeQueues r + 1) r)"
    by (rule set_phase_ok [OF ok a(1)])
       (use p pop True a c in \<open>auto simp: phase_ok_def is_phase_def\<close>)
  moreover have "a < length (rn_objs r)" using ok a by (simp add: sched_ok_def map_ok_bound)
  ultimately show ?thesis using True c promote_step [OF ok] by (simp add: enqueuePull_ok)
qed

section \<open>Charging\<close>

lemma validateQueueJID_bound:
  "validateQueueJID j = None \<longleftrightarrow>
     length (jid_AppKey j) \<le> 4096 \<and> length (jid_Name j) \<le> 4096 \<and> length (jid_Domain j) \<le> 4096
     \<and> length (jid_ClientResource j) \<le> 4096"
  by (auto simp: validateQueueJID_def split: if_splits)

lemma queueRetainedWeight_valid:
  assumes "validateQueueJID j = None"
  shows "1024 \<le> queueRetainedWeight j \<and> queueRetainedWeight j \<le> 17408"
proof -
  define n where "n = int (length (jid_AppKey j) + length (jid_Name j) + length (jid_Domain j)
    + length (jid_ClientResource j))"
  have n: "0 \<le> n" "n \<le> 16384" using assms by (auto simp: validateQueueJID_bound n_def)
  have i: "in_int64 (1024 + n)" "in_int64 (1024 + n + 1024 - 1)"
    using n by (simp_all add: in_int64_def maxInt64_def)
  have "0 \<le> (1024 + n + 1024 - 1) div 1024 * 1024" "(1024 + n + 1024 - 1) div 1024 * 1024 \<le> 17408"
    "1024 \<le> (1024 + n + 1024 - 1) div 1024 * 1024"
    using n by auto
  moreover from this have "in_int64 ((1024 + n + 1024 - 1) div 1024 * 1024)"
    by (simp add: in_int64_def maxInt64_def)
  ultimately show ?thesis
    using i unfolding queueRetainedWeight_def n_def [symmetric] by (simp add: Let_def)
qed

lemma reserve_cases:
  assumes ok: "sched_ok s r"
  obtains (granted) l p where
      "reserveQueueLocked w r = (Inr True, r\<lparr>rn_queueBudget := l, processQueueBudget := p\<rparr>)"
      "0 < w" "opt_ok l" "Limit l = Limit (rn_queueBudget r)" "Used l = Used (rn_queueBudget r) + w"
      "opt_ok p" "Used p = Used (processQueueBudget r) + w" "Limit p = Limit (processQueueBudget r)"
  | (refused) res l p where "reserveQueueLocked w r = (res, r\<lparr>rn_queueBudget := l, processQueueBudget := p\<rparr>)"
      "res \<noteq> Inr True" "sched_ok s (r\<lparr>rn_queueBudget := l, processQueueBudget := p\<rparr>)"
      "Used l = Used (rn_queueBudget r)" "p = processQueueBudget r"
proof -
  have c: "opt_ok (rn_queueBudget r)" and p: "opt_ok (processQueueBudget r)"
    and le: "Used (rn_queueBudget r) \<le> Used (processQueueBudget r)"
    using ok by (simp_all add: sched_ok_def charge_ok_def)
  have keep: "sched_ok s (r\<lparr>rn_queueBudget := l, processQueueBudget := processQueueBudget r\<rparr>)"
    if "opt_ok l" "Limit l = Limit (rn_queueBudget r)" "Used l = Used (rn_queueBudget r)" for l
    by (rule sched_ok_extend [OF ok]) (use that p le in \<open>simp_all add: qobj_def\<close>)
  obtain x l1 where t: "TryAcquire (rn_queueBudget r) w = (x, l1)" by fastforce
  obtain y p1 where u: "TryAcquire (processQueueBudget r) w = (y, p1)" by fastforce
  show ?thesis
  proof (cases "x = Inr True")
    case False
    with shared_budget.acquire_refused [OF c t] have "l1 = rn_queueBudget r" by simp
    with False t keep [OF c] show ?thesis
      by (intro refused [where res = x and l = l1 and p = "processQueueBudget r"])
         (auto simp: reserveQueueLocked_def ensure_id [OF ok] Let_def split: sum.splits bool.splits)
  next
    case x: True
    show ?thesis
    proof (cases "y = Inr True")
      case True
      from shared_budget.acquire_granted [OF c t [unfolded x]]
        shared_budget.acquire_granted [OF p u [unfolded True]]
      show ?thesis using t u x True
        by (intro granted [where l = l1 and p = p1]) (simp_all add: reserveQueueLocked_def ensure_id [OF ok] Let_def)
    next
      case False
      with shared_budget.acquire_refused [OF p u] have p1: "p1 = processQueueBudget r" by simp
      obtain l2 where l2: "Release l1 w = (None, l2)" "opt_ok l2" "Used l2 = Used (rn_queueBudget r)"
        "Limit l2 = Limit (rn_queueBudget r)"
        using c t [unfolded x] by (rule shared_budget.acquire_then_release) blast
      define res where "res = fst (reserveQueueLocked w r)"
      have e: "reserveQueueLocked w r = (res, r\<lparr>rn_queueBudget := l2, processQueueBudget := p1\<rparr>)"
        using False t u x l2 by (cases y) (auto simp: res_def reserveQueueLocked_def ensure_id [OF ok] Let_def)
      moreover have "res \<noteq> Inr True"
        using False t u x l2 by (cases y)
          (auto simp: res_def reserveQueueLocked_def ensure_id [OF ok] Let_def split: option.splits)
      ultimately show ?thesis using keep [OF l2(2,4,3)] p1 l2(3)
        by (intro refused [where res = res and l = l2 and p = p1]) simp_all
    qed
  qed
qed

lemma sched_ok_grow:
  assumes ok: "sched_ok s r" and a: "a \<in> set (addrs r)" and w: "weight_at r a < w"
    and l: "opt_ok l" "Limit l = Limit (rn_queueBudget r)" "Used l = Used (rn_queueBudget r) + (w - weight_at r a)"
    and p: "opt_ok p" "Used p = Used (processQueueBudget r) + (w - weight_at r a)"
  shows "sched_ok s (upd_obj a (\<lambda>q. q\<lparr>qs_weight := w\<rparr>) (r\<lparr>rn_queueBudget := l, processQueueBudget := p\<rparr>))"
proof -
  define r' where "r' = upd_obj a (\<lambda>q. q\<lparr>qs_weight := w\<rparr>) (r\<lparr>rn_queueBudget := l, processQueueBudget := p\<rparr>)"
  have b: "a < length (rn_objs r)" and d: "distinct (addrs r)"
    using ok a by (auto simp: sched_ok_def map_ok_bound map_ok_def)
  have v: "tracked r' = tracked r" "addrs r' = addrs r"
    "\<And>b. qobj r' b = (if b = a then (qobj r a)\<lparr>qs_weight := w\<rparr> else qobj r b)"
    using b by (auto simp: r'_def)
  have f: "rn_queueBudget r' = l" "processQueueBudget r' = p" "rn_queues r' = rn_queues r"
    "length (rn_objs r') = length (rn_objs r)" "rn_deferred r' = rn_deferred r"
    "rn_activeQueues r' = rn_activeQueues r" "rn_pullRequests r' = rn_pullRequests r"
    "rn_queueTimeout r' = rn_queueTimeout r"
    by (simp_all add: r'_def)
  have ph: "is_phase r' = is_phase r" by (simp add: fun_eq_iff is_phase_def v)
  have sum: "sum_list (map (weight_at r') (addrs r)) = sum_list (map (weight_at r) (addrs r)) - weight_at r a + w"
    using sum_list_map_update_distinct [OF d a, of "weight_at r'" "weight_at r"]
    by (simp add: weight_at_def v)
  have "charge_ok r'"
    using ok l p w unfolding sched_ok_def charge_ok_def f v(2) sum by (auto simp: weight_at_def v)
  moreover have "map_ok r'" using ok by (auto simp: sched_ok_def map_ok_def v f)
  moreover have "phase_ok s r'" using ok by (auto simp: sched_ok_def phase_ok_def v ph f)
  moreover have "chan_ok r'" using ok by (simp add: sched_ok_def chan_ok_def f)
  ultimately show ?thesis by (simp add: sched_ok_def r'_def)
qed

lemma sched_ok_insert:
  assumes ok: "sched_ok s r" and k: "queue_lookup r k = None"
    and q: "qs_identity q = k" "qs_phase q = queueIdle" "1024 \<le> qs_weight q"
    and l: "opt_ok l" "Limit l = Limit (rn_queueBudget r)" "Used l = Used (rn_queueBudget r) + qs_weight q"
    and p: "opt_ok p" "Used p = Used (processQueueBudget r) + qs_weight q"
  shows "sched_ok s (r\<lparr>rn_queueBudget := l, processQueueBudget := p, rn_objs := rn_objs r @ [q],
     rn_queues := Some (tracked r @ [(k, length (rn_objs r))])\<rparr>)"
proof -
  define r' where "r' = r\<lparr>rn_queueBudget := l, processQueueBudget := p, rn_objs := rn_objs r @ [q],
     rn_queues := Some (tracked r @ [(k, length (rn_objs r))])\<rparr>"
  let ?n = "length (rn_objs r)"
  have bound: "\<And>b. b \<in> set (addrs r) \<Longrightarrow> b < ?n" using ok by (simp add: sched_ok_def map_ok_bound)
  have v: "tracked r' = tracked r @ [(k, ?n)]" "addrs r' = addrs r @ [?n]"
    by (simp_all add: tracked_def addrs_def r'_def)
  have f: "rn_queues r' \<noteq> None" "length (rn_objs r') = Suc ?n" "rn_deferred r' = rn_deferred r"
    "rn_activeQueues r' = rn_activeQueues r" "rn_queueBudget r' = l" "processQueueBudget r' = p"
    "rn_pullRequests r' = rn_pullRequests r" "rn_queueTimeout r' = rn_queueTimeout r"
    by (simp_all add: r'_def)
  have o: "qobj r' ?n = q" "\<And>b. b < ?n \<Longrightarrow> qobj r' b = qobj r b" by (simp_all add: qobj_def nth_append r'_def)
  have new: "?n \<notin> set (addrs r)" "k \<notin> set (map fst (tracked r))"
    using bound k by (auto simp: queue_lookup_def map_of_eq_None_iff)
  have w: "sum_list (map (weight_at r') (addrs r)) = sum_list (map (weight_at r) (addrs r))"
    by (rule arg_cong [of _ _ sum_list]) (use bound in \<open>auto simp: weight_at_def o\<close>)
  have c: "count_if (is_phase r' queueActive) (addrs r') = count_if (is_phase r queueActive) (addrs r)"
    unfolding count_if_def v using q
    by (simp add: is_phase_def o) (rule arg_cong [of _ _ sum_list], use bound in \<open>auto simp: o\<close>)
  have ph: "{a \<in> set (addrs r'). is_phase r' queueDeferred a} = {a \<in> set (addrs r). is_phase r queueDeferred a}"
    using bound q by (auto simp: v is_phase_def o)
  have "map_ok r'"
    unfolding map_ok_def v
  proof (intro conjI ballI)
    show "case x of (k, a) \<Rightarrow> a < length (rn_objs r') \<and> qs_identity (qobj r' a) = k"
      if "x \<in> set (tracked r @ [(k, ?n)])" for x
    proof (cases "x = (k, ?n)")
      case True
      then show ?thesis by (simp add: f o q(1))
    next
      case False
      then have x: "x \<in> set (tracked r)" using that by simp
      then have "snd x < ?n" using bound by (auto simp: addrs_def)
      with x ok show ?thesis by (auto simp: sched_ok_def map_ok_def f o)
    qed
  qed (use ok new f in \<open>auto simp: sched_ok_def map_ok_def\<close>)
  moreover have "phase_ok s r'"
    using ok unfolding sched_ok_def phase_ok_def c f ph by blast
  moreover have "charge_ok r'"
    using ok q(3) l p w bound unfolding sched_ok_def charge_ok_def v f by (auto simp: weight_at_def o)
  moreover have "chan_ok r'" using ok by (fastforce simp: sched_ok_def chan_ok_def f)
  ultimately show ?thesis by (simp add: sched_ok_def r'_def)
qed

section \<open>The operations keep the invariant\<close>

lemma lookup_upd [simp]: "queue_lookup (upd_obj a f r) k = queue_lookup r k"
  by (simp add: queue_lookup_def)

definition known_schedule :: "nat \<Rightarrow> connectionRun \<Rightarrow> go_error option \<times> connectionRun" where
  "known_schedule a r =
     (case qs_phase (qobj r a) of
        queueActive \<Rightarrow> (None, upd_obj a (\<lambda>q. q\<lparr>qs_noticePending := True\<rparr>) r)
      | queueDeferred \<Rightarrow> (None, r) | queueIdle \<Rightarrow> activateOrDeferLocked a r)"

definition finish_schedule :: "go_error option \<times> connectionRun \<Rightarrow> connectionRun" where
  "finish_schedule x = (case x of (None, r) \<Rightarrow> r | (Some e, r) \<Rightarrow> run_fail (Some e) (hit_capacity r))"

lemma finish_schedule_ok [simp]: "sched_ok s (finish_schedule x) = sched_ok s (snd x)"
  by (auto simp: finish_schedule_def split: prod.split option.split)

lemma known_schedule_ok:
  assumes "sched_ok 0 r" and "a \<in> set (addrs r)"
  shows "sched_ok 0 (snd (known_schedule a r))"
  using assms activateOrDefer_ok [OF assms]
  by (auto simp: known_schedule_def sched_ok_flags is_phase_def split: queuePhase.split)

text \<open>
  A notice for a known queue either fails the run for lack of budget, or schedules the queue in a state
  \<open>r'\<close> that differs from \<open>r\<close> in the address and the weight of that queue and in the budgets.
\<close>

definition regrown :: "nat \<Rightarrow> connectionRun \<Rightarrow> connectionRun \<Rightarrow> bool" where
  "regrown a r r' \<longleftrightarrow> (\<exists>f l p. r' = upd_obj a f (r\<lparr>rn_queueBudget := l, processQueueBudget := p\<rparr>)
     \<and> (\<forall>q. f q = q\<lparr>qs_jid := qs_jid (f q), qs_weight := qs_weight (f q)\<rparr>))"

lemma startQueue_known_cases:
  assumes ok: "sched_ok 0 r" and j: "validateQueueJID j = None"
    and a: "queue_lookup r (newQueueKey j) = Some a"
  shows "(\<exists>e r1. startQueue_known a j r = run_fail (Some e) (hit_capacity r1) \<and> sched_ok 0 r1) \<or>
    (\<exists>r'. startQueue_known a j r = finish_schedule (known_schedule a r') \<and> sched_ok 0 r' \<and> regrown a r r')"
proof -
  have mem: "(newQueueKey j, a) \<in> set (tracked r)" using ok a by (simp add: sched_ok_def map_ok_lookup)
  then have ident: "qs_identity (qobj r a) = newQueueKey j" and b: "a < length (rn_objs r)"
    using ok by (auto simp: sched_ok_def map_ok_def)
  have aa: "a \<in> set (addrs r)" using a by (rule lookup_addr)
  have canon: "\<lparr>jid_AppKey = qk_appKey (newQueueKey j), jid_Name = qk_name (newQueueKey j),
      jid_Domain = qk_domain (newQueueKey j), jid_ClientResource = jid_ClientResource j\<rparr> = j"
    by (simp add: newQueueKey_def)
  note w = queueRetainedWeight_valid [OF j]
  show ?thesis
  proof (cases "queueRetainedWeight j > qs_weight (qobj r a)")
    case False
    let ?r = "upd_obj a (\<lambda>q. q\<lparr>qs_jid := j\<rparr>) r"
    have "startQueue_known a j r = finish_schedule (known_schedule a ?r)"
      using False by (simp add: startQueue_known_def ident canon Let_def finish_schedule_def
          known_schedule_def case_prod_unfold split: option.splits)
    moreover have "regrown a r ?r"
      unfolding regrown_def
      by (rule exI [of _ "\<lambda>q. q\<lparr>qs_jid := j\<rparr>"], rule exI [of _ "rn_queueBudget r"],
          rule exI [of _ "processQueueBudget r"]) simp
    ultimately show ?thesis using ok by (auto simp: sched_ok_flags)
  next
    case True
    have wa: "1024 \<le> weight_at r a" using ok aa by (simp add: sched_ok_def charge_ok_def)
    then have delta: "wrap64 (queueRetainedWeight j - qs_weight (qobj r a)) =
        queueRetainedWeight j - weight_at r a"
      using w True by (simp add: weight_at_def in_int64_def maxInt64_def)
    show ?thesis
    proof (rule reserve_cases [OF ok, of "queueRetainedWeight j - weight_at r a"])
      fix l p
      assume g: "reserveQueueLocked (queueRetainedWeight j - weight_at r a) r =
          (Inr True, r\<lparr>rn_queueBudget := l, processQueueBudget := p\<rparr>)"
        "opt_ok l" "Limit l = Limit (rn_queueBudget r)"
        "Used l = Used (rn_queueBudget r) + (queueRetainedWeight j - weight_at r a)"
        "opt_ok p" "Used p = Used (processQueueBudget r) + (queueRetainedWeight j - weight_at r a)"
      let ?base = "r\<lparr>rn_queueBudget := l, processQueueBudget := p\<rparr>"
      let ?r = "upd_obj a (\<lambda>q. q\<lparr>qs_jid := j\<rparr>) (upd_obj a (\<lambda>q. q\<lparr>qs_weight := queueRetainedWeight j\<rparr>) ?base)"
      have "sched_ok 0 (upd_obj a (\<lambda>q. q\<lparr>qs_weight := queueRetainedWeight j\<rparr>) ?base)"
        using ok aa True g by (intro sched_ok_grow) (simp_all add: weight_at_def)
      then have "sched_ok 0 ?r" by (simp add: sched_ok_flags)
      moreover have "?r = upd_obj a (\<lambda>q. q\<lparr>qs_weight := queueRetainedWeight j, qs_jid := j\<rparr>) ?base"
        using b by (simp add: upd_obj_def)
      then have "regrown a r ?r" unfolding regrown_def by (intro exI conjI) auto
      moreover have "startQueue_known a j r = finish_schedule (known_schedule a ?r)"
        using True g(1) delta by (simp add: startQueue_known_def ident canon Let_def finish_schedule_def
            known_schedule_def case_prod_unfold split: option.splits)
      ultimately show ?thesis by blast
    next
      fix res l p
      assume "reserveQueueLocked (queueRetainedWeight j - weight_at r a) r =
          (res, r\<lparr>rn_queueBudget := l, processQueueBudget := p\<rparr>)" and "res \<noteq> Inr True"
        and "sched_ok 0 (r\<lparr>rn_queueBudget := l, processQueueBudget := p\<rparr>)"
      then show ?thesis using True delta
        by (cases res) (auto simp: startQueue_known_def ident canon Let_def split: bool.splits)
    qed
  qed
qed

lemma regrown_views:
  assumes "regrown a r r'"
  shows "tracked r' = tracked r" "addrs r' = addrs r" "rn_pullRequests r' = rn_pullRequests r"
    "length (rn_objs r') = length (rn_objs r)"
  using assms by (auto simp: regrown_def)

lemma startQueue_known_ok:
  assumes "sched_ok 0 r" and "validateQueueJID j = None" and "queue_lookup r (newQueueKey j) = Some a"
  shows "sched_ok 0 (startQueue_known a j r)"
  using startQueue_known_cases [OF assms]
proof (elim disjE exE conjE)
  fix r'
  assume "startQueue_known a j r = finish_schedule (known_schedule a r')" and ok: "sched_ok 0 r'"
    and "regrown a r r'"
  moreover from this have "a \<in> set (addrs r')" using lookup_addr [OF assms(3)] by (simp add: regrown_views(2))
  ultimately show ?thesis by (simp add: known_schedule_ok)
qed simp

text \<open>The rollback of a new queue whose activation failed.\<close>

lemma startQueue_rollback_ok:
  assumes ok: "sched_ok 0 r" and k: "queue_lookup r k = None" and w: "0 < w"
    and l: "opt_ok l" "Limit l = Limit (rn_queueBudget r)" "Used l = Used (rn_queueBudget r) + w"
    and p: "opt_ok p" "Used p = Used (processQueueBudget r) + w"
    and r': "rn_queues r' = Some (tracked r)" "rn_objs r' = rn_objs r @ [q]"
      "rn_deferred r' = rn_deferred r" "rn_activeQueues r' = rn_activeQueues r"
      "rn_pullRequests r' = rn_pullRequests r" "rn_queueTimeout r' = rn_queueTimeout r"
      "rn_queueBudget r' = snd (Release l w)" "processQueueBudget r' = snd (Release p w)"
  shows "sched_ok 0 r'"
proof -
  have m: "map_ok r" and c: "charge_ok r" using ok by (simp_all add: sched_ok_def)
  have "0 \<le> Used (rn_queueBudget r)" "0 \<le> Used (processQueueBudget r)"
    using c shared_budget.bounds unfolding charge_ok_def by blast+
  then obtain l2 p2 where
    l2: "Release l w = (None, l2)" "opt_ok l2" "Used l2 = Used (rn_queueBudget r)" "Limit l2 = Limit l" and
    p2: "Release p w = (None, p2)" "opt_ok p2" "Used p2 = Used (processQueueBudget r)"
    using shared_budget.release_charged [OF l(1) w] shared_budget.release_charged [OF p(1) w] l p by auto
  show ?thesis
  proof (rule sched_ok_extend [OF ok])
    show "rn_queues r' = rn_queues r" using r'(1) m by (auto simp: map_ok_def tracked_def)
    show "qobj r' b = qobj r b" if "b \<in> set (addrs r)" for b
      using map_ok_bound [OF m that] r'(2) by (simp add: qobj_def nth_append)
    show "Used (rn_queueBudget r) \<le> Used (processQueueBudget r')"
      using c p2 r' by (simp add: charge_ok_def)
  qed (use r' l2 p2 l in simp_all)
qed

lemma startQueue_new_cases:
  assumes ok: "sched_ok 0 r" and j: "validateQueueJID j = None"
    and k: "queue_lookup r (newQueueKey j) = None"
  shows "(\<exists>e r1. startQueue_new j r = run_fail (Some e) (hit_capacity r1) \<and> sched_ok 0 r1) \<or>
    (\<exists>q l p r2. startQueue_new j r = snd (activateOrDeferLocked (length (rn_objs r)) r2)
       \<and> fst (activateOrDeferLocked (length (rn_objs r)) r2) = None
       \<and> r2 = r\<lparr>rn_queueBudget := l, processQueueBudget := p, rn_objs := rn_objs r @ [q],
           rn_queues := Some (tracked r @ [(newQueueKey j, length (rn_objs r))])\<rparr>
       \<and> sched_ok 0 r2 \<and> qs_phase q = queueIdle \<and> \<not> qs_processing q \<and> \<not> qs_pullQueued q
       \<and> \<not> qs_pullInFlight q)"
proof (rule reserve_cases [OF ok, of "queueRetainedWeight j"])
  fix res l p
  assume "reserveQueueLocked (queueRetainedWeight j) r = (res, r\<lparr>rn_queueBudget := l, processQueueBudget := p\<rparr>)"
    and "res \<noteq> Inr True" and "sched_ok 0 (r\<lparr>rn_queueBudget := l, processQueueBudget := p\<rparr>)"
  then show ?thesis by (cases res) (auto simp: startQueue_new_def Let_def split: bool.splits)
next
  fix l p
  let ?w = "queueRetainedWeight j" and ?n = "length (rn_objs r)"
  assume g: "reserveQueueLocked ?w r = (Inr True, r\<lparr>rn_queueBudget := l, processQueueBudget := p\<rparr>)"
    "0 < ?w" and l: "opt_ok l" "Limit l = Limit (rn_queueBudget r)" "Used l = Used (rn_queueBudget r) + ?w"
    and p: "opt_ok p" "Used p = Used (processQueueBudget r) + ?w"
  define q where "q = \<lparr>qs_identity = newQueueKey j, qs_jid = j, qs_key = 0, qs_phase = queueIdle,
    qs_processing = False, qs_noticePending = False, qs_pullQueued = False,
    qs_pullInFlight = False, qs_pullSentAt = None, qs_weight = ?w\<rparr>"
  define r2 where "r2 = r\<lparr>rn_queueBudget := l, processQueueBudget := p, rn_objs := rn_objs r @ [q],
     rn_queues := Some (tracked r @ [(newQueueKey j, ?n)])\<rparr>"
  have ok2: "sched_ok 0 r2"
    unfolding r2_def using ok k queueRetainedWeight_valid [OF j] l p
    by (intro sched_ok_insert) (auto simp: q_def)
  have a: "?n \<in> set (addrs r2)" "is_phase r2 queueIdle ?n"
    by (simp_all add: r2_def addrs_def tracked_def is_phase_def qobj_def q_def)
  have upd: "AList.update (newQueueKey j) ?n (tracked r) = tracked r @ [(newQueueKey j, ?n)]"
    using k by (simp add: alist_update_absent queue_lookup_def)
  obtain err r3 where act: "activateOrDeferLocked ?n r2 = (err, r3)" by fastforce
  show ?thesis
  proof (cases err)
    case None
    have "startQueue_new j r = snd (activateOrDeferLocked ?n r2)"
      using g(1) act None
      by (simp add: startQueue_new_def Let_def upd q_def [symmetric] r2_def [symmetric])
    moreover have "fst (activateOrDeferLocked ?n r2) = None" using act None by simp
    ultimately show ?thesis
      using ok2 r2_def by (intro disjI2 exI [of _ q] exI [of _ l] exI [of _ p] exI [of _ r2])
        (simp add: q_def)
  next
    case (Some e)
    from activateOrDefer_error [OF ok2 a act [unfolded Some]] obtain q' where
      q': "qs_phase q' = queueActive"
      "r3 = r2\<lparr>rn_objs := (rn_objs r2)[?n := q'], rn_activeQueues := rn_activeQueues r2 + 1\<rparr>"
      by blast
    have del: "AList.delete (newQueueKey j) (tracked r @ [(newQueueKey j, ?n)]) = tracked r"
      using k by (force simp: AList.delete_eq queue_lookup_def map_of_eq_None_iff filter_id_conv)
    have ph: "qs_phase (qobj r3 ?n) = queueActive" by (simp add: q' qobj_def r2_def)
    let ?r7 = "let r4 = r3\<lparr>rn_queues := Some (AList.delete (newQueueKey j) (tracked r3))\<rparr>;
        r5 = (if qs_phase (qobj r4 ?n) = queueActive then add_active (- 1) r4 else r4);
        r6 = upd_obj ?n (\<lambda>q. q\<lparr>qs_phase := queueIdle\<rparr>) r5
      in r6\<lparr>rn_queueBudget := snd (Release (rn_queueBudget r6) ?w),
            processQueueBudget := snd (Release (processQueueBudget r6) ?w)\<rparr>"
    have "sched_ok 0 ?r7"
      by (rule startQueue_rollback_ok [OF ok k g(2) l p])
         (simp_all add: Let_def del ph [unfolded qobj_def] q'(2) r2_def add_active_def upd_obj_def qobj_def q'(1))
    moreover have "startQueue_new j r = run_fail (Some e) (hit_capacity ?r7)"
      using g(1) act Some
      by (simp add: startQueue_new_def Let_def upd q_def [symmetric] r2_def [symmetric])
    ultimately show ?thesis by blast
  qed
qed

lemma startQueue_new_ok:
  assumes "sched_ok 0 r" and "validateQueueJID j = None" and "queue_lookup r (newQueueKey j) = None"
  shows "sched_ok 0 (startQueue_new j r)"
  using startQueue_new_cases [OF assms]
proof (elim disjE exE conjE)
  fix q l p r2
  assume r2: "r2 = r\<lparr>rn_queueBudget := l, processQueueBudget := p, rn_objs := rn_objs r @ [q],
      rn_queues := Some (tracked r @ [(newQueueKey j, length (rn_objs r))])\<rparr>"
    and ok: "sched_ok 0 r2" and q: "qs_phase q = queueIdle"
    and s: "startQueue_new j r = snd (activateOrDeferLocked (length (rn_objs r)) r2)"
  have "length (rn_objs r) \<in> set (addrs r2)" "is_phase r2 queueIdle (length (rn_objs r))"
    using q by (simp_all add: r2 addrs_def is_phase_def qobj_def)
  from activateOrDefer_ok [OF ok this] s show ?thesis by simp
qed simp

lemma startQueue_ok: "sched_ok 0 r \<Longrightarrow> sched_ok 0 (startQueue j r)"
  by (auto simp: startQueue_def ensure_id Let_def startQueue_known_ok startQueue_new_ok split: option.splits)

lemma pull_receive_ok:
  assumes "sched_ok 0 r" and "pull_receive r = Some (a, r')"
  shows "sched_ok 0 r' \<and> a < length (rn_objs r)"
proof -
  obtain chan where c: "rn_pullRequests r = Some (a # chan)" and r': "r' = r\<lparr>rn_pullRequests := Some chan\<rparr>"
    using assms(2) by (auto simp: pull_receive_def split: option.splits list.splits)
  have "length (a # chan) \<le> 256" "\<forall>b \<in> set (a # chan). b < length (rn_objs r)"
    using assms(1) c by (auto simp: sched_ok_def chan_ok_def)
  then show ?thesis using assms(1) r' by (auto intro: sched_ok_chan)
qed

lemma executePull_ok:
  "sched_ok s (snd (executePull_begin a r)) = sched_ok s r"
  "sched_ok s (executePull_end a t e now r) = sched_ok s r"
  by (auto simp: executePull_begin_def executePull_end_def Let_def sched_ok_flags split: option.splits)

lemma watchdog_ok: "sched_ok s (watchdog_tick pick t now r) = sched_ok s r"
  by (simp add: watchdog_tick_def Let_def)

lemma handleBatch_begin_ok: "sched_ok s (snd (handleBatch_begin d r)) = sched_ok s r"
  by (auto simp: handleBatch_begin_def handleBatch_enter_def sched_ok_flags split: option.splits)

lemma same_queues_batch [simp]:
  "same_queues r (set_batch_budgets c p r)" "same_queues r (release_reservation res r)"
  "same_queues r (r\<lparr>cl_clientBatchRejects := n\<rparr>)" "same_queues r (r\<lparr>cl_processBatchRejects := n\<rparr>)"
  "same_queues r (r\<lparr>cl_batches := js\<rparr>)"
  by (simp_all add: same_queues_def set_batch_budgets_def release_reservation_def split: prod.splits)

lemmas sched_ok_batch [simp] = same_queues_batch [THEN sched_ok_same]

lemma resetProcessing_ok [simp]: "sched_ok s (resetProcessing k a r) = sched_ok s r"
  by (simp add: resetProcessing_def sched_ok_flags)

lemma handleBatch_finish_ok: "sched_ok s (handleBatch_finish pd d k a r) = sched_ok s r"
  unfolding handleBatch_finish_def
  by (simp add: Let_def split: sum.split prod.split batchBudgetScope.split)

lemma processBatch_advance_ok:
  assumes ok: "sched_ok 0 r" and act: "\<And>a. queue_lookup r k = Some a \<Longrightarrow> is_phase r queueActive a"
  shows "sched_ok 0 (processBatch_advance k d r)"
proof (cases "queue_lookup r k")
  case None
  then show ?thesis using ok by (simp add: processBatch_advance_def)
next
  case (Some a)
  have aa: "a \<in> set (addrs r)" using Some by (rule lookup_addr)
  have b: "a < length (rn_objs r)" using ok aa by (simp add: sched_ok_def map_ok_bound)
  define r2 where "r2 = (let r1 = upd_obj a (\<lambda>q. q\<lparr>qs_processing := False\<rparr>) r
     in if sy_NextKey d \<noteq> 0 then upd_obj a (\<lambda>q. q\<lparr>qs_key := sy_NextKey d\<rparr>) r1 else r1)"
  have r2: "sched_ok 0 r2" "addrs r2 = addrs r" "is_phase r2 queueActive a" "a < length (rn_objs r2)"
    using ok b act [OF Some] by (auto simp: r2_def Let_def sched_ok_flags is_phase_def)
  have idle: "sched_ok 1 (set_phase a queueIdle (rn_deferred r2) (rn_activeQueues r2 - 1) r2)"
    by (rule set_phase_ok [OF r2(1)])
       (use r2 aa in \<open>auto simp: sched_ok_def phase_ok_def is_phase_def\<close>)
  have pull: "sched_ok 0 (snd (enqueuePullLocked (Some a) (upd_obj a (\<lambda>q. q\<lparr>qs_noticePending := False\<rparr>) r2)))"
    using r2 by (intro enqueuePull_ok) (simp_all add: sched_ok_flags)
  have fin: "sched_ok 0 (case x of (None, r3) \<Rightarrow> r3 | (Some e, r3) \<Rightarrow> run_fail (Some e) (hit_capacity r3))"
    if "sched_ok 0 (snd x)" for x
    using that by (auto split: prod.split option.split)
  have "processBatch_advance k d r =
     (if rn_generation r \<noteq> cl_generation r then r
      else case (if sy_IsLast d \<or> sy_NextKey d = 0 then
                (if qs_noticePending (qobj r2 a)
                 then enqueuePullLocked (Some a) (upd_obj a (\<lambda>q. q\<lparr>qs_noticePending := False\<rparr>) r2)
                 else promoteDeferredLocked (set_phase a queueIdle (rn_deferred r2) (rn_activeQueues r2 - 1) r2))
              else enqueuePullLocked (Some a) (upd_obj a (\<lambda>q. q\<lparr>qs_noticePending := False\<rparr>) r2)) of
        (None, r3) \<Rightarrow> r3 | (Some e, r3) \<Rightarrow> run_fail (Some e) (hit_capacity r3))"
    unfolding processBatch_advance_def Some
    by (simp add: Let_def r2_def active_set_phase case_prod_unfold split: option.splits)
  then show ?thesis
    using ok fin [OF pull] fin [OF promote_ok [OF idle]] by simp
qed

text \<open>Finalization returns every tracked byte.\<close>

lemma tracked_weight_sum:
  assumes "sched_ok s r"
  shows "tracked_weight r = Used (rn_queueBudget r)"
proof -
  have c: "charge_ok r" using assms by (simp add: sched_ok_def)
  have lim: "sum_list (map (weight_at r) (addrs r)) \<le> 4194304"
    using c shared_budget.bounds [of "rn_queueBudget r"]
    by (simp add: charge_ok_def connectionQueueBudgetBytes_def)
  have "fold (\<lambda>(k, a) tot. wrap64 (tot + qs_weight (qobj r a))) xs t = t + sum_list (map (weight_at r) (map snd xs))"
    if "\<forall>a \<in> set (map snd xs). 0 \<le> weight_at r a" and "0 \<le> t"
      and "t + sum_list (map (weight_at r) (map snd xs)) \<le> 4194304" for xs :: "(queueKey \<times> nat) list" and t
    using that
  proof (induction xs arbitrary: t)
    case Nil
    then show ?case by simp
  next
    case (Cons x xs)
    have nn: "0 \<le> sum_list (map (weight_at r) (map snd xs))"
      using Cons.prems by (intro sum_list_nonneg) auto
    have "in_int64 (t + weight_at r (snd x))"
      using Cons.prems nn by (simp add: in_int64_def maxInt64_def)
    then have "wrap64 (t + qs_weight (qobj r (snd x))) = t + weight_at r (snd x)"
      by (simp add: weight_at_def)
    with Cons nn show ?case by (cases x) simp
  qed
  from this [of "tracked r" 0] c lim show ?thesis
    by (fastforce simp: tracked_weight_def charge_ok_def addrs_def)
qed

definition fin_ok :: "connectionRun \<Rightarrow> bool" where
  "fin_ok r \<longleftrightarrow> rn_queues r = None \<and> ring_contents (rn_deferred r) = [] \<and> rn_activeQueues r = 0
     \<and> opt_ok (rn_queueBudget r) \<and> Used (rn_queueBudget r) = 0 \<and> opt_ok (processQueueBudget r)"

lemma finalizeQueues_fin:
  assumes ok: "sched_ok s r" and "\<not> rn_finalized r"
  shows "fin_ok (finalizeQueues r) \<and> rn_finalized (finalizeQueues r)
    \<and> Used (processQueueBudget (finalizeQueues r)) = Used (processQueueBudget r) - Used (rn_queueBudget r)"
proof -
  have c: "charge_ok r" using ok by (simp add: sched_ok_def)
  have w: "tracked_weight r = Used (rn_queueBudget r)" using ok by (rule tracked_weight_sum)
  have nn: "0 \<le> Used (rn_queueBudget r)" using c shared_budget.bounds unfolding charge_ok_def by blast
  show ?thesis
  proof (cases "Used (rn_queueBudget r) = 0")
    case True
    then show ?thesis
      using c assms(2) by (simp add: finalizeQueues_def w Let_def fin_ok_def charge_ok_def ring_contents_def)
  next
    case False
    then obtain l p where
      "Release (rn_queueBudget r) (Used (rn_queueBudget r)) = (None, l)" "opt_ok l" "Used l = 0"
      "Release (processQueueBudget r) (Used (rn_queueBudget r)) = (None, p)" "opt_ok p"
      "Used p = Used (processQueueBudget r) - Used (rn_queueBudget r)"
      using c nn shared_budget.release_charged [of "rn_queueBudget r" "Used (rn_queueBudget r)"]
        shared_budget.release_charged [of "processQueueBudget r" "Used (rn_queueBudget r)"]
      unfolding charge_ok_def by auto
    then show ?thesis
      using False assms(2) by (simp add: finalizeQueues_def w Let_def fin_ok_def ring_contents_def)
  qed
qed

end
