(* ===== verification/Queue_System.thy ===== *)
theory Queue_System
  imports Queue_Invariant "HOL-Library.Multiset"
begin

text \<open>
  The scheduler under concurrency: the reader, eight pull workers, the watchdog, the batch workers, the
  failure path, finalization and the rest of the process interleave, one critical section per step.
  The invariant adds to the accounting of \<open>Queue_Invariant\<close> that, while the connection is alive, every
  active queue has somebody who will move it on.

  \<open>startQueue\<close> and \<open>processBatch\<close> release the mutex before they report a scheduling error with \<open>fail\<close>; the
  model takes the section and its \<open>fail\<close> as one step.  What the steps of others could see in between is a
  connection that is about to fail, in which the queue of the failed section may be without an activity;
  the statements about living connections are not about that moment.  \<open>step_answers\<close> is the exchange over
  the login and logout channels and the time of the last pong, which no other step reads.
\<close>

section \<open>Processes\<close>

text \<open>
  \<open>RdBatch d k a\<close>: \<open>handleBatch\<close> has marked the queue and released the mutex.  \<open>WkGot a\<close>: a pull worker
  received \<open>a\<close> and has not entered \<open>executePull\<close>'s first section; \<open>WkSending a t\<close>: it is between the two
  sections.  A job of \<open>sd_jobs\<close> was received by a batch worker; the flag tells whether it passed the
  checks of \<open>processBatchJob\<close>.
\<close>

datatype reader_pc = RdIdle | RdBatch Sync queueKey nat
datatype worker_pc = WkIdle | WkGot nat | WkSending nat int64

record sched =
  sd_run :: connectionRun
  sd_reader :: reader_pc
  sd_workers :: "worker_pc list"
  sd_jobs :: "(batchJob \<times> bool) list"

definition remove_nth :: "nat \<Rightarrow> 'a list \<Rightarrow> 'a list" where
  "remove_nth i xs = take i xs @ drop (Suc i) xs"

definition own_job :: "connectionRun \<Rightarrow> batchJob \<Rightarrow> bool" where
  "own_job r job \<longleftrightarrow> bj_r job = Some (rn_generation r)"

inductive sched_step :: "sched \<Rightarrow> sched \<Rightarrow> bool" where
  step_notice:
    "sd_reader s = RdIdle \<Longrightarrow> \<not> rn_finalized (sd_run s) \<Longrightarrow>
     sched_step s (s\<lparr>sd_run := startQueue j (sd_run s)\<rparr>)"
| step_sync:
    "sd_reader s = RdIdle \<Longrightarrow> \<not> rn_finalized (sd_run s) \<Longrightarrow> handleBatch_begin d (sd_run s) = (res, r') \<Longrightarrow>
     sched_step s (s\<lparr>sd_run := r',
       sd_reader := (case res of None \<Rightarrow> RdIdle | Some (k, a) \<Rightarrow> RdBatch d k a)\<rparr>)"
| step_sync_finish:
    "sd_reader s = RdBatch d k a \<Longrightarrow>
     sched_step s (s\<lparr>sd_run := handleBatch_finish pd d k a (sd_run s), sd_reader := RdIdle\<rparr>)"
| step_receive:
    "i < length (sd_workers s) \<Longrightarrow> sd_workers s ! i = WkIdle \<Longrightarrow> \<not> rn_finalized (sd_run s) \<Longrightarrow>
     pull_receive (sd_run s) = Some (a, r') \<Longrightarrow>
     sched_step s (s\<lparr>sd_run := r', sd_workers := (sd_workers s)[i := WkGot a]\<rparr>)"
| step_pull_begin:
    "i < length (sd_workers s) \<Longrightarrow> sd_workers s ! i = WkGot a \<Longrightarrow>
     executePull_begin a (sd_run s) = (res, r') \<Longrightarrow>
     sched_step s (s\<lparr>sd_run := r', sd_workers := (sd_workers s)
       [i := (case res of None \<Rightarrow> WkIdle | Some (j, key, t) \<Rightarrow> WkSending a t)]\<rparr>)"
| step_pull_end:
    "i < length (sd_workers s) \<Longrightarrow> sd_workers s ! i = WkSending a t \<Longrightarrow>
     sched_step s (s\<lparr>sd_run := executePull_end a t e now (sd_run s),
       sd_workers := (sd_workers s)[i := WkIdle]\<rparr>)"
| step_watchdog:
    "\<not> rn_finalized (sd_run s) \<Longrightarrow>
     sched_step s (s\<lparr>sd_run :=
       watchdog_tick pick (watchdogTimeout (rn_queueTimeout (sd_run s))) now (sd_run s)\<rparr>)"
| step_take:
    "cl_batches (sd_run s) = job # js \<Longrightarrow>
     sched_step s (s\<lparr>sd_run := (sd_run s)\<lparr>cl_batches := js\<rparr>, sd_jobs := sd_jobs s @ [(job, False)]\<rparr>)"
| step_job_skip:
    "i < length (sd_jobs s) \<Longrightarrow> sd_jobs s ! i = (job, False) \<Longrightarrow> job_skips job (sd_run s) \<Longrightarrow>
     sched_step s (s\<lparr>sd_run := job_release job (sd_run s), sd_jobs := remove_nth i (sd_jobs s)\<rparr>)"
| step_job_start:
    "i < length (sd_jobs s) \<Longrightarrow> sd_jobs s ! i = (job, False) \<Longrightarrow> \<not> job_skips job (sd_run s) \<Longrightarrow>
     sched_step s (s\<lparr>sd_jobs := (sd_jobs s)[i := (job, True)]\<rparr>)"
| step_job_end:
    "i < length (sd_jobs s) \<Longrightarrow> sd_jobs s ! i = (job, True) \<Longrightarrow>
     sched_step s (s\<lparr>sd_run := job_release job (if rn_done (sd_run s) then sd_run s
         else processBatch_advance (bj_queue job) (bj_d job) (sd_run s)),
       sd_jobs := remove_nth i (sd_jobs s)\<rparr>)"
| step_fail: "sched_step s (s\<lparr>sd_run := run_fail e (sd_run s)\<rparr>)"
| step_finalize:
    "rn_done (sd_run s) \<Longrightarrow> \<not> rn_finalized (sd_run s) \<Longrightarrow> sd_reader s = RdIdle \<Longrightarrow>
     (\<forall>w \<in> set (sd_workers s). w = WkIdle) \<Longrightarrow>
     sched_step s (s\<lparr>sd_run := finalizeQueues (sd_run s)\<rparr>)"
| step_ack: "pending_step (sd_run s) r' \<Longrightarrow> sched_step s (s\<lparr>sd_run := r'\<rparr>)"
| step_foreign_job:
    "length (cl_batches (sd_run s)) < writeQueueSize \<Longrightarrow> \<not> own_job (sd_run s) job \<Longrightarrow>
     sched_step s (s\<lparr>sd_run := (sd_run s)\<lparr>cl_batches := cl_batches (sd_run s) @ [job]\<rparr>\<rparr>)"
| step_batch_budgets: "sched_step s (s\<lparr>sd_run := set_batch_budgets c p (sd_run s)\<rparr>)"
| step_queue_budget:
    "opt_ok p \<Longrightarrow> Limit p = Limit (processQueueBudget (sd_run s)) \<Longrightarrow> Used (rn_queueBudget (sd_run s)) \<le> Used p \<Longrightarrow>
     sched_step s (s\<lparr>sd_run := (sd_run s)\<lparr>processQueueBudget := p\<rparr>\<rparr>)"
| step_supersede:
    "rn_done (sd_run s) \<Longrightarrow> sched_step s (s\<lparr>sd_run := (sd_run s)\<lparr>cl_generation := g\<rparr>\<rparr>)"
| step_answers:
    "sched_step s (s\<lparr>sd_run := (sd_run s)\<lparr>rn_provision := answers, rn_logout := errs, rn_lastPong := now\<rparr>\<rparr>)"
| step_close: "sched_step s (s\<lparr>sd_run := (sd_run s)\<lparr>cl_lifetimeDone := True\<rparr>\<rparr>)"

text \<open>The state after \<open>dial\<close>: what is left in the shared channel belongs to earlier runs.\<close>

definition sched_start :: "sched \<Rightarrow> bool" where
  "sched_start s \<longleftrightarrow> (\<exists>c now. sd_run s = dial_run c now \<and> opt_ok (processQueueBudget c)
     \<and> Limit (processQueueBudget c) = processQueueBudgetBytes
     \<and> sd_reader s = RdIdle \<and> sd_workers s = replicate pullWorkerCount WkIdle
     \<and> list_all (\<lambda>job. \<not> own_job (sd_run s) job) (cl_batches c)
     \<and> list_all (\<lambda>(job, b). \<not> own_job (sd_run s) job \<and> \<not> b) (sd_jobs s))"

section \<open>The invariant\<close>

definition run_ok :: "connectionRun \<Rightarrow> bool" where
  "run_ok r \<longleftrightarrow> (if rn_finalized r then fin_ok r \<and> rn_done r else sched_ok 0 r)"

fun worker_ok :: "nat \<Rightarrow> worker_pc \<Rightarrow> bool" where
  "worker_ok n WkIdle = True"
| "worker_ok n (WkGot a) = (a < n)"
| "worker_ok n (WkSending a t) = (a < n \<and> 0 < t)"

definition pcs_ok :: "sched \<Rightarrow> bool" where
  "pcs_ok s \<longleftrightarrow>
     (\<forall>w \<in> set (sd_workers s). worker_ok (length (rn_objs (sd_run s))) w)
     \<and> (rn_finalized (sd_run s) \<longrightarrow> sd_reader s = RdIdle \<and> (\<forall>w \<in> set (sd_workers s). w = WkIdle))
     \<and> (\<forall>(job, b) \<in> set (sd_jobs s). b \<longrightarrow> own_job (sd_run s) job)
     \<and> length (sd_workers s) = pullWorkerCount"

definition owned_keys :: "sched \<Rightarrow> queueKey multiset" where
  "owned_keys s =
     (case sd_reader s of RdIdle \<Rightarrow> {#} | RdBatch d k a \<Rightarrow> {#k#})
     + image_mset bj_queue (filter_mset (own_job (sd_run s)) (mset (cl_batches (sd_run s))))
     + image_mset bj_queue (filter_mset (own_job (sd_run s)) (mset (map fst (sd_jobs s))))"

definition processing_keys :: "connectionRun \<Rightarrow> queueKey set" where
  "processing_keys r = fst ` {p \<in> set (tracked r). qs_processing (qobj r (snd p))}"

definition pull_pending :: "sched \<Rightarrow> nat \<Rightarrow> bool" where
  "pull_pending s a \<longleftrightarrow> a \<in> set (the (rn_pullRequests (sd_run s))) \<or> WkGot a \<in> set (sd_workers s)"

definition pull_sending :: "sched \<Rightarrow> nat \<Rightarrow> bool" where
  "pull_sending s a \<longleftrightarrow> (\<exists>t. WkSending a t \<in> set (sd_workers s))"

definition one_activity :: "queueState \<Rightarrow> bool" where
  "one_activity q \<longleftrightarrow>
     (if qs_phase q = queueActive
      then of_bool (qs_processing q) + of_bool (qs_pullQueued q) + of_bool (qs_pullInFlight q) = (1::nat)
      else \<not> qs_processing q \<and> \<not> qs_pullQueued q \<and> \<not> qs_pullInFlight q)"

definition queue_live :: "sched \<Rightarrow> nat \<Rightarrow> bool" where
  "queue_live s a \<longleftrightarrow> (let q = qobj (sd_run s) a in
     one_activity q
     \<and> (qs_pullQueued q \<longrightarrow> pull_pending s a)
     \<and> (qs_pullInFlight q \<longrightarrow> pull_sending s a \<or> qs_pullSentAt q \<noteq> None))"

definition live :: "sched \<Rightarrow> bool" where
  "live s \<longleftrightarrow>
     rn_generation (sd_run s) = cl_generation (sd_run s)
     \<and> owned_keys s \<subseteq># mset_set (processing_keys (sd_run s))
     \<and> (\<not> cl_lifetimeDone (sd_run s) \<longrightarrow> owned_keys s = mset_set (processing_keys (sd_run s)))
     \<and> (\<forall>d k a. sd_reader s = RdBatch d k a \<longrightarrow> (k, a) \<in> set (tracked (sd_run s)))
     \<and> (\<forall>job \<in> set (cl_batches (sd_run s)) \<union> fst ` set (sd_jobs s).
          own_job (sd_run s) job \<longrightarrow> bj_reservation job \<noteq> None)
     \<and> (\<forall>a \<in> set (addrs (sd_run s)). queue_live s a)"

definition sched_inv :: "sched \<Rightarrow> bool" where
  "sched_inv s \<longleftrightarrow> run_ok (sd_run s) \<and> pcs_ok s
     \<and> (\<not> rn_done (sd_run s) \<longrightarrow> live s)"

section \<open>Frames\<close>

text \<open>What every operation leaves alone: identities, the shared batch channel, and it never revives a run.\<close>

definition frame :: "connectionRun \<Rightarrow> connectionRun \<Rightarrow> bool" where
  "frame r r' \<longleftrightarrow>
     rn_generation r' = rn_generation r \<and> cl_generation r' = cl_generation r
     \<and> rn_finalized r' = rn_finalized r \<and> cl_lifetimeDone r' = cl_lifetimeDone r
     \<and> cl_batches r' = cl_batches r \<and> (rn_done r \<longrightarrow> rn_done r')
     \<and> length (rn_objs r) \<le> length (rn_objs r')"

lemma frame_refl [simp]: "frame r r"
  by (simp add: frame_def)

lemma frame_trans: "frame r s \<Longrightarrow> frame s t \<Longrightarrow> frame r t"
  by (auto simp: frame_def)

lemma frame_basic [simp]:
  "frame r (upd_obj a f r') = frame r r'" "frame r (hit_capacity r') = frame r r'"
  "frame r (add_active n r') = frame r r'" "frame r (r'\<lparr>rn_pullRequests := x\<rparr>) = frame r r'"
  "frame r (r'\<lparr>rn_deferred := y\<rparr>) = frame r r'" "frame r (r'\<lparr>rn_queueBudget := z\<rparr>) = frame r r'"
  "frame r (r'\<lparr>processQueueBudget := z\<rparr>) = frame r r'" "frame r (r'\<lparr>rn_queues := v\<rparr>) = frame r r'"
  "frame r (r'\<lparr>rn_queueTimeout := u\<rparr>) = frame r r'"
  "frame r r' \<Longrightarrow> frame r (run_fail e r')"
  by (auto simp: frame_def hit_capacity_def add_active_def run_fail_eq)

lemma frame_grow [simp]: "frame r r' \<Longrightarrow> frame r (r'\<lparr>rn_objs := rn_objs r' @ qs\<rparr>)"
  by (auto simp: frame_def)

lemma frame_ensure [simp]: "frame r r' \<Longrightarrow> frame r (ensureQueueStructuresLocked r')"
  by (simp add: ensureQueueStructuresLocked_def Let_def)

lemma frame_reserve: "frame r r' \<Longrightarrow> frame r (snd (reserveQueueLocked w r'))"
  by (auto simp: reserveQueueLocked_def Let_def split: prod.split sum.split bool.split)

lemma frame_enqueue: "frame r r' \<Longrightarrow> frame r (snd (enqueuePullLocked q r'))"
  by (auto simp: enqueuePullLocked_def Let_def split: option.split)

lemma frame_activate: "frame r r' \<Longrightarrow> frame r (snd (activateOrDeferLocked a r'))"
  by (auto simp: activateOrDeferLocked_def Let_def frame_enqueue split: prod.split)

lemma frame_promote: "frame r r' \<Longrightarrow> frame r (snd (promoteDeferredLocked r'))"
proof (induction r' rule: promoteDeferredLocked.induct)
  case (1 r')
  then show ?case
    by (subst promoteDeferredLocked.simps) (auto simp: Let_def frame_enqueue split: prod.split option.split)
qed

lemma frame_fail_pair:
  "frame r (snd x) \<Longrightarrow> frame r (case x of (None, r1) \<Rightarrow> r1 | (Some e, r1) \<Rightarrow> run_fail (Some e) (hit_capacity r1))"
  by (auto split: prod.split option.split)

lemma frame_startQueue_known:
  assumes f: "frame r r'"
  shows "frame r (startQueue_known a j r')"
proof -
  have tail: "frame r (let r3 = upd_obj a (\<lambda>q. q\<lparr>qs_jid := c\<rparr>) r2;
       (scheduleErr, r4) = (case qs_phase (qobj r3 a) of
            queueActive \<Rightarrow> (None, upd_obj a (\<lambda>q. q\<lparr>qs_noticePending := True\<rparr>) r3)
          | queueDeferred \<Rightarrow> (None, r3) | queueIdle \<Rightarrow> activateOrDeferLocked a r3)
     in case scheduleErr of None \<Rightarrow> r4 | Some e \<Rightarrow> run_fail (Some e) (hit_capacity r4))"
    if "frame r r2" for r2 c
    using that frame_activate [of r "upd_obj a (\<lambda>q. q\<lparr>qs_jid := c\<rparr>) r2" a]
    by (cases "activateOrDeferLocked a (upd_obj a (\<lambda>q. q\<lparr>qs_jid := c\<rparr>) r2)")
       (auto simp: Let_def split: queuePhase.split option.split)
  obtain D where D: "D = wrap64 (queueRetainedWeight \<lparr>jid_AppKey = qk_appKey (qs_identity (qobj r' a)),
      jid_Name = qk_name (qs_identity (qobj r' a)), jid_Domain = qk_domain (qs_identity (qobj r' a)),
      jid_ClientResource = jid_ClientResource j\<rparr> - qs_weight (qobj r' a))" by simp
  obtain res r1 where R: "reserveQueueLocked D r' = (res, r1)" by fastforce
  have "frame r r1" using frame_reserve [OF f, of D] R by simp
  then show ?thesis
    unfolding startQueue_known_def using f R D
    by (cases res) (simp_all add: Let_def [of "qs_identity _"] tail [unfolded Let_def] Let_def split: bool.split)
qed

lemma frame_startQueue_new:
  assumes f: "frame r r'"
  shows "frame r (startQueue_new j r')"
proof -
  obtain res r1 where R: "reserveQueueLocked (queueRetainedWeight j) r' = (res, r1)" by fastforce
  have f1: "frame r r1" using frame_reserve [OF f, of "queueRetainedWeight j"] R by simp
  define q where "q = \<lparr>qs_identity = newQueueKey j, qs_jid = j, qs_key = 0, qs_phase = queueIdle,
    qs_processing = False, qs_noticePending = False, qs_pullQueued = False,
    qs_pullInFlight = False, qs_pullSentAt = None, qs_weight = queueRetainedWeight j\<rparr>"
  define r2 where "r2 = r1\<lparr>rn_objs := rn_objs r1 @ [q],
    rn_queues := Some (AList.update (newQueueKey j) (length (rn_objs r1)) (tracked r1))\<rparr>"
  obtain err r3 where A: "activateOrDeferLocked (length (rn_objs r1)) r2 = (err, r3)" by fastforce
  have f2: "frame r r2" using f1 by (simp add: r2_def)
  have "frame r r3" using frame_activate [OF f2, of "length (rn_objs r1)"] A by simp
  then show ?thesis
    using R f1 A unfolding startQueue_new_def
    by (cases res; cases err)
       (simp_all add: Let_def q_def [symmetric] r2_def [symmetric] split: bool.split)
qed

lemma frame_startQueue: "frame r (startQueue j r)"
  by (auto simp: startQueue_def Let_def frame_startQueue_known frame_startQueue_new split: option.split)

lemma frame_pull [simp]:
  "frame r (snd (executePull_begin a r))" "frame r (executePull_end a t e now r)"
  "frame r (watchdog_tick pick t now r)" "frame r (snd (handleBatch_begin d r))"
  "frame r (resetProcessing k a r)"
  by (auto simp: executePull_begin_def executePull_end_def watchdog_tick_def handleBatch_begin_def
      handleBatch_enter_def resetProcessing_def Let_def split: option.split)

lemma frame_advance: "frame r (processBatch_advance k d r)"
  unfolding processBatch_advance_def Let_def
  by (simp add: case_prod_unfold frame_enqueue frame_promote split: option.split)

lemma frame_set_batch [simp]:
  "frame r (set_batch_budgets c p r') = frame r r'" "frame r (release_reservation res r') = frame r r'"
  "frame r (job_release job r') = frame r r'"
  by (auto simp: frame_def set_batch_budgets_def release_reservation_def job_release_def
      split: prod.split option.split)

lemma same_queues_job_release [simp]: "same_queues r (job_release job r)"
  by (simp add: job_release_def split: option.split)

lemma job_release_done [simp]: "rn_done (job_release job r) = rn_done r"
  by (auto simp: job_release_def release_reservation_def set_batch_budgets_def split: prod.split option.split)

section \<open>Effects on the activity of queues\<close>

definition same_flags :: "queueState \<Rightarrow> queueState \<Rightarrow> bool" where
  "same_flags q q' \<longleftrightarrow> qs_phase q' = qs_phase q \<and> qs_processing q' = qs_processing q
     \<and> qs_pullQueued q' = qs_pullQueued q \<and> qs_pullInFlight q' = qs_pullInFlight q
     \<and> qs_pullSentAt q' = qs_pullSentAt q"

text \<open>\<open>settled r q a\<close>: the queue at \<open>a\<close> is not being processed; if it is active its pull is queued.\<close>

definition settled :: "connectionRun \<Rightarrow> nat \<Rightarrow> bool" where
  "settled r a \<longleftrightarrow> \<not> qs_processing (qobj r a) \<and> \<not> qs_pullInFlight (qobj r a) \<and> one_activity (qobj r a)
     \<and> (qs_pullQueued (qobj r a) \<longrightarrow> a \<in> set (the (rn_pullRequests r)))"

text \<open>\<open>settles r r' a\<close>: from \<open>r\<close> to \<open>r'\<close> only the queue at \<open>a\<close> changed its activity, and it is settled.\<close>

definition settles :: "connectionRun \<Rightarrow> connectionRun \<Rightarrow> nat \<Rightarrow> bool" where
  "settles r r' a \<longleftrightarrow>
     (\<forall>b. b \<noteq> a \<longrightarrow> b < length (rn_objs r) \<longrightarrow> same_flags (qobj r b) (qobj r' b))
     \<and> set (the (rn_pullRequests r)) \<subseteq> set (the (rn_pullRequests r'))
     \<and> (same_flags (qobj r a) (qobj r' a) \<or> settled r' a)"

lemma same_flags_refl [simp]: "same_flags q q"
  by (simp add: same_flags_def)

lemma enqueue_effect:
  assumes b: "a < length (rn_objs r)" and q: "qs_phase (qobj r a) = queueActive" "\<not> qs_processing (qobj r a)"
      "\<not> qs_pullQueued (qobj r a)" "\<not> qs_pullInFlight (qobj r a)"
    and e: "enqueuePullLocked (Some a) r = (None, r')"
  shows "r' = upd_obj a (\<lambda>q. q\<lparr>qs_pullQueued := True\<rparr>) r
      \<lparr>rn_pullRequests := Some (the (rn_pullRequests r) @ [a])\<rparr>"
  using e q by (auto simp: enqueuePullLocked_def Let_def split: option.splits if_splits)

lemma enqueue_settles:
  assumes "a < length (rn_objs r)" and "qs_phase (qobj r a) = queueActive" "\<not> qs_processing (qobj r a)"
      "\<not> qs_pullQueued (qobj r a)" "\<not> qs_pullInFlight (qobj r a)"
    and "enqueuePullLocked (Some a) r = (None, r')"
  shows "settles r r' a \<and> settled r' a \<and> tracked r' = tracked r"
  unfolding enqueue_effect [OF assms] using assms
  by (auto simp: settles_def settled_def one_activity_def)

lemma settles_trans_upd:
  assumes "settles r1 r' a" and "settled r' a" and "a < length (rn_objs r)"
    and "\<And>b. b \<noteq> a \<Longrightarrow> qobj r1 b = qobj r b" and "rn_pullRequests r1 = rn_pullRequests r"
    and "length (rn_objs r1) = length (rn_objs r)"
  shows "settles r r' a"
  using assms by (auto simp: settles_def)

lemma activate_settles:
  assumes ok: "sched_ok 0 r" and a: "a \<in> set (addrs r)" and idle: "qs_phase (qobj r a) = queueIdle"
    and flags: "one_activity (qobj r a)" and e: "activateOrDeferLocked a r = (None, r')"
  shows "settles r r' a \<and> settled r' a \<and> tracked r' = tracked r"
proof -
  have b: "a < length (rn_objs r)" using ok a by (simp add: sched_ok_def map_ok_bound)
  have f: "\<not> qs_processing (qobj r a)" "\<not> qs_pullQueued (qobj r a)" "\<not> qs_pullInFlight (qobj r a)"
    using flags idle by (simp_all add: one_activity_def)
  show ?thesis
  proof (cases "rn_activeQueues r < 256")
    case True
    let ?r = "set_phase a queueActive (rn_deferred r) (rn_activeQueues r + 1) r"
    have "enqueuePullLocked (Some a) ?r = (None, r')"
      using e True by (simp add: activateOrDeferLocked_def active_set_phase)
    from enqueue_settles [OF _ _ _ _ _ this] b f
    have 1: "settles ?r r' a" "settled r' a" "tracked r' = tracked r" by simp_all
    from settles_trans_upd [OF 1(1,2) b] b 1 show ?thesis by simp
  next
    case False
    have "r' = upd_obj a (\<lambda>q. q\<lparr>qs_phase := queueDeferred\<rparr>) r\<lparr>rn_deferred := snd (ring_Push (rn_deferred r) (Some a))\<rparr>"
      using e False by (auto simp: activateOrDeferLocked_def Let_def split: prod.splits if_splits)
    then show ?thesis
      using b f by (auto simp: settles_def settled_def one_activity_def)
  qed
qed

lemma promote_settles:
  assumes ok: "sched_ok 1 r" and flags: "\<And>a. a \<in> set (addrs r) \<Longrightarrow> qs_phase (qobj r a) = queueDeferred \<Longrightarrow> one_activity (qobj r a)"
    and e: "promoteDeferredLocked r = (None, r')"
  shows "r' = r \<or> (\<exists>a \<in> set (addrs r). \<not> qs_processing (qobj r a) \<and> settles r r' a \<and> settled r' a
     \<and> tracked r' = tracked r)"
proof (cases "rn_activeQueues r < 256 \<and> ring_contents (rn_deferred r) \<noteq> []")
  case False
  then show ?thesis using e promote_step [OF ok] by auto
next
  case True
  define a where "a = hd (ring_contents (rn_deferred r))"
  have "a \<in> {b \<in> set (addrs r). is_phase r queueDeferred b}"
    using ok True by (metis a_def hd_in_set phase_ok_def sched_ok_def)
  then have a: "a \<in> set (addrs r)" "qs_phase (qobj r a) = queueDeferred" by (auto simp: is_phase_def)
  have b: "a < length (rn_objs r)" using ok a by (simp add: sched_ok_def map_ok_bound)
  have f: "\<not> qs_processing (qobj r a)" "\<not> qs_pullQueued (qobj r a)" "\<not> qs_pullInFlight (qobj r a)"
    using flags [OF a] a by (simp_all add: one_activity_def)
  let ?r = "set_phase a queueActive (snd (ring_Pop (rn_deferred r))) (rn_activeQueues r + 1) r"
  have "enqueuePullLocked (Some a) ?r = (None, r')"
    using e True promote_step [OF ok] by (simp add: a_def)
  from enqueue_settles [OF _ _ _ _ _ this] b f
  have 1: "settles ?r r' a" "settled r' a" "tracked r' = tracked r" by simp_all
  from settles_trans_upd [OF 1(1,2) b] b 1 a f show ?thesis by auto
qed

text \<open>What a step of one queue means for the whole: the activity at \<open>a\<close> settled, or a new queue appeared.\<close>

definition settles_queue :: "connectionRun \<Rightarrow> connectionRun \<Rightarrow> bool" where
  "settles_queue r r' \<longleftrightarrow> (\<exists>a. settles r r' a \<and>
     (tracked r' = tracked r \<and> (same_flags (qobj r a) (qobj r' a) \<or> settled r' a \<and> \<not> qs_processing (qobj r a))
      \<or> (\<exists>k. tracked r' = tracked r @ [(k, a)] \<and> settled r' a \<and> a = length (rn_objs r))))"

lemma fail_alive: "\<not> rn_done (run_fail e r) \<longleftrightarrow> False"
  by simp

lemma settles_same:
  assumes "\<And>b. same_flags (qobj r b) (qobj r' b)" and "rn_pullRequests r' = rn_pullRequests r"
    and "tracked r' = tracked r"
  shows "settles_queue r r'"
  using assms by (auto simp: settles_queue_def settles_def)

lemma same_flags_trans: "same_flags q q' \<Longrightarrow> same_flags q' q'' \<Longrightarrow> same_flags q q''"
  by (simp add: same_flags_def)

lemma settles_prefix:
  assumes "settles r1 r' a" and "settled r' a" and "tracked r' = tracked r1" and "tracked r1 = tracked r"
    and "\<And>b. same_flags (qobj r b) (qobj r1 b)" and "rn_pullRequests r1 = rn_pullRequests r"
    and "length (rn_objs r1) = length (rn_objs r)" and "\<not> qs_processing (qobj r a)"
  shows "settles_queue r r'"
  unfolding settles_queue_def
proof (intro exI conjI)
  have "same_flags (qobj r b) (qobj r' b)" if "b \<noteq> a" "b < length (rn_objs r)" for b
    using that assms(1,7) by (intro same_flags_trans [OF assms(5)]) (simp add: settles_def)
  then show "settles r r' a" using assms(1,2,6) by (simp add: settles_def)
  show "tracked r' = tracked r \<and> (same_flags (qobj r a) (qobj r' a) \<or> settled r' a \<and> \<not> qs_processing (qobj r a))
      \<or> (\<exists>k. tracked r' = tracked r @ [(k, a)] \<and> settled r' a \<and> a = length (rn_objs r))"
    using assms(2,3,4,8) by simp
qed

lemma finish_schedule_alive:
  "\<not> rn_done (finish_schedule x) \<Longrightarrow> \<exists>r. x = (None, r) \<and> finish_schedule x = r"
  by (cases x) (auto simp: finish_schedule_def split: option.splits)

lemma regrown_flags:
  assumes "regrown a r r'"
  shows "same_flags (qobj r b) (qobj r' b)"
proof -
  obtain f l p where r': "r' = upd_obj a f (r\<lparr>rn_queueBudget := l, processQueueBudget := p\<rparr>)"
    and f: "\<And>q. f q = q\<lparr>qs_jid := qs_jid (f q), qs_weight := qs_weight (f q)\<rparr>"
    using assms by (auto simp: regrown_def)
  have "same_flags q (f q)" for q by (subst f) (simp add: same_flags_def)
  then show ?thesis
    by (cases "a < length (rn_objs r)") (auto simp: r' upd_obj_def qobj_def nth_list_update list_update_beyond)
qed

lemma startQueue_known_settles:
  assumes ok: "sched_ok 0 r" and j: "validateQueueJID j = None"
    and k: "queue_lookup r (newQueueKey j) = Some a" and one: "one_activity (qobj r a)"
    and alive: "\<not> rn_done (startQueue_known a j r)"
  shows "settles_queue r (startQueue_known a j r)"
proof -
  from startQueue_known_cases [OF ok j k] alive obtain r3 where
    s: "startQueue_known a j r = finish_schedule (known_schedule a r3)" and ok3: "sched_ok 0 r3"
    and g: "regrown a r r3" by auto
  note v = regrown_views [OF g]
  obtain r4 where r4: "known_schedule a r3 = (None, r4)" "startQueue_known a j r = r4"
    using finish_schedule_alive alive unfolding s by blast
  have a3: "a \<in> set (addrs r3)" using lookup_addr [OF k] v by simp
  have fl: "\<And>b. same_flags (qobj r b) (qobj r3 b)" using g by (rule regrown_flags)
  then have one3: "one_activity (qobj r3 a)" using one by (simp add: one_activity_def same_flags_def)
  have "settles_queue r r4"
  proof (cases "qs_phase (qobj r3 a)")
    case queueIdle
    with r4 have "activateOrDeferLocked a r3 = (None, r4)" by (simp add: known_schedule_def)
    with activate_settles [OF ok3 a3 queueIdle one3] have
      x: "settles r3 r4 a" "settled r4 a" "tracked r4 = tracked r3" by simp_all
    have "\<not> qs_processing (qobj r a)" using one fl [of a] queueIdle by (simp add: one_activity_def same_flags_def)
    from settles_prefix [OF x v(1) fl v(3,4) this] show ?thesis .
  next
    case queueDeferred
    with r4 fl v show ?thesis by (intro settles_same) (simp_all add: known_schedule_def)
  next
    case queueActive
    with r4 have r4: "r4 = upd_obj a (\<lambda>q. q\<lparr>qs_noticePending := True\<rparr>) r3" by (simp add: known_schedule_def)
    have "a < length (rn_objs r3)" using ok3 a3 by (simp add: sched_ok_def map_ok_bound)
    then have "same_flags (qobj r3 b) (qobj r4 b)" for b by (simp add: r4 same_flags_def)
    with same_flags_trans [OF fl] v show ?thesis by (intro settles_same) (simp_all add: r4)
  qed
  with r4 show ?thesis by simp
qed

lemma startQueue_new_settles:
  assumes ok: "sched_ok 0 r" and j: "validateQueueJID j = None"
    and k: "queue_lookup r (newQueueKey j) = None"
    and alive: "\<not> rn_done (startQueue_new j r)"
  shows "settles_queue r (startQueue_new j r)"
proof -
  let ?n = "length (rn_objs r)"
  from startQueue_new_cases [OF ok j k] alive obtain q l p r2 where
    s: "startQueue_new j r = snd (activateOrDeferLocked ?n r2)" "fst (activateOrDeferLocked ?n r2) = None"
    and r2: "r2 = r\<lparr>rn_queueBudget := l, processQueueBudget := p, rn_objs := rn_objs r @ [q],
        rn_queues := Some (tracked r @ [(newQueueKey j, ?n)])\<rparr>" and ok2: "sched_ok 0 r2"
    and q: "qs_phase q = queueIdle" "\<not> qs_processing q" "\<not> qs_pullQueued q" "\<not> qs_pullInFlight q"
    by auto
  obtain r3 where r3: "activateOrDeferLocked ?n r2 = (None, r3)" using s(2) by (metis prod.collapse)
  have o: "qobj r2 ?n = q" "\<And>b. b < ?n \<Longrightarrow> qobj r2 b = qobj r b"
    by (simp_all add: r2 qobj_def nth_append)
  have a: "?n \<in> set (addrs r2)" by (simp add: r2 addrs_def)
  from activate_settles [OF ok2 a _ _ r3] o q have
    x: "settles r2 r3 ?n" "settled r3 ?n" "tracked r3 = tracked r2" by (simp_all add: one_activity_def)
  have "settles r r3 ?n"
    using x(1,2) o(2) by (auto simp: settles_def r2)
  moreover have "tracked r3 = tracked r @ [(newQueueKey j, ?n)]" using x(3) by (simp add: r2)
  ultimately show ?thesis using x(2) s(1) r3 by (auto simp: settles_queue_def)
qed

lemma startQueue_settles:
  assumes ok: "sched_ok 0 r" and one: "\<And>a. a \<in> set (addrs r) \<Longrightarrow> one_activity (qobj r a)"
    and alive: "\<not> rn_done (startQueue j r)"
  shows "settles_queue r (startQueue j r)"
proof (cases "validateQueueJID j")
  case (Some e)
  with alive show ?thesis by (simp add: startQueue_def)
next
  case None
  show ?thesis
  proof (cases "queue_lookup r (newQueueKey j)")
    case (Some a)
    with startQueue_known_settles [OF ok None Some] one [OF lookup_addr [OF Some]] alive None show ?thesis
      by (simp add: startQueue_def ensure_id [OF ok])
  next
    case none: None
    with startQueue_new_settles [OF ok None none] alive None show ?thesis
      by (simp add: startQueue_def ensure_id [OF ok])
  qed
qed

section \<open>Liveness of the whole is kept\<close>

lemma own_job_frame: "frame r r' \<Longrightarrow> own_job r' = own_job r"
  by (simp add: fun_eq_iff own_job_def frame_def)

lemma own_job_upd [simp]: "own_job (upd_obj a f r) = own_job r" "own_job (r\<lparr>cl_batches := js\<rparr>) = own_job r"
  "own_job (r\<lparr>rn_pullRequests := c\<rparr>) = own_job r" "own_job (set_batch_budgets c2 p r) = own_job r"
  by (simp_all add: fun_eq_iff own_job_def set_batch_budgets_def)

lemma owned_keys_frame:
  "frame (sd_run s) r' \<Longrightarrow> owned_keys (s\<lparr>sd_run := r'\<rparr>) = owned_keys s"
  by (simp add: owned_keys_def own_job_frame) (simp add: frame_def)

lemma queue_live_same:
  assumes "queue_live s b" and "same_flags (qobj (sd_run s) b) (qobj (sd_run s') b)"
    and "pull_pending s b \<Longrightarrow> pull_pending s' b"
    and "pull_sending s b \<Longrightarrow> pull_sending s' b"
  shows "queue_live s' b"
  using assms by (auto simp: queue_live_def Let_def one_activity_def same_flags_def)

lemma queue_live_settled: "settled (sd_run s) a \<Longrightarrow> queue_live s a"
  by (auto simp: settled_def queue_live_def Let_def pull_pending_def)

lemma processing_keys_cong:
  "tracked r' = tracked r \<Longrightarrow> (\<And>a. a \<in> set (addrs r) \<Longrightarrow> qs_processing (qobj r' a) = qs_processing (qobj r a)) \<Longrightarrow>
   processing_keys r' = processing_keys r"
  by (force simp: processing_keys_def addrs_def)

text \<open>The state parts other than the run that \<open>live\<close> looks at are unchanged, and so is the set of owners.\<close>

lemma live_same_owners:
  assumes L: "live s" and f: "frame (sd_run s) r'"
    and p: "processing_keys r' = processing_keys (sd_run s)" and t: "set (tracked (sd_run s)) \<subseteq> set (tracked r')"
    and q: "\<And>b. b \<in> set (addrs r') \<Longrightarrow> queue_live (s\<lparr>sd_run := r'\<rparr>) b"
  shows "live (s\<lparr>sd_run := r'\<rparr>)"
proof -
  have "rn_generation r' = rn_generation (sd_run s)" "cl_generation r' = cl_generation (sd_run s)"
    "cl_batches r' = cl_batches (sd_run s)" "cl_lifetimeDone r' = cl_lifetimeDone (sd_run s)"
    using f by (simp_all add: frame_def)
  then show ?thesis
    using L t q own_job_frame [OF f] owned_keys_frame [OF f] by (auto simp: live_def p)
qed

lemma live_settles:
  assumes L: "live s" and m: "map_ok (sd_run s)" and st: "settles_queue (sd_run s) r'"
    and f: "frame (sd_run s) r'"
  shows "live (s\<lparr>sd_run := r'\<rparr>)"
proof -
  let ?r = "sd_run s" and ?s = "s\<lparr>sd_run := r'\<rparr>"
  obtain a where a: "settles ?r r' a"
    and c: "tracked r' = tracked ?r \<and> (same_flags (qobj ?r a) (qobj r' a) \<or> settled r' a \<and> \<not> qs_processing (qobj ?r a))
      \<or> (\<exists>k. tracked r' = tracked ?r @ [(k, a)] \<and> settled r' a \<and> a = length (rn_objs ?r))"
    using st by (auto simp: settles_queue_def)
  have bound: "\<And>b. b \<in> set (addrs ?r) \<Longrightarrow> b < length (rn_objs ?r)" using m by (rule map_ok_bound)
  have old: "same_flags (qobj ?r b) (qobj r' b)" if "b \<in> set (addrs ?r)" "b \<noteq> a" for b
    using a bound that by (simp add: settles_def)
  have chan: "pull_pending s b \<Longrightarrow> pull_pending ?s b" "pull_sending s b \<Longrightarrow> pull_sending ?s b" for b
    using a by (auto simp: settles_def pull_pending_def pull_sending_def)
  have proc: "qs_processing (qobj r' b) = qs_processing (qobj ?r b)" if "b \<in> set (addrs ?r)" for b
    using c bound [OF that] old [OF that] by (cases "b = a") (auto simp: same_flags_def settled_def)
  have "processing_keys r' = processing_keys ?r"
  proof (cases "tracked r' = tracked ?r")
    case True
    then show ?thesis using proc by (rule processing_keys_cong)
  next
    case False
    then obtain k where t: "tracked r' = tracked ?r @ [(k, a)]" and "settled r' a" using c by blast
    then have "\<not> qs_processing (qobj r' a)" by (simp add: settled_def)
    then show ?thesis using proc t by (force simp: processing_keys_def addrs_def)
  qed
  moreover have "queue_live ?s b" if "b \<in> set (addrs r')" for b
  proof (cases "settled r' b")
    case True
    then show ?thesis by (intro queue_live_settled) simp
  next
    case False
    have b: "b \<in> set (addrs ?r)" using that False c by (auto simp: addrs_def)
    then have "same_flags (qobj ?r b) (qobj r' b)" using old c False by (cases "b = a") auto
    moreover have "queue_live s b" using L b by (simp add: live_def)
    ultimately show ?thesis by (intro queue_live_same [OF _ _ chan]) simp_all
  qed
  moreover have "set (tracked ?r) \<subseteq> set (tracked r')" using c by auto
  ultimately show ?thesis by (intro live_same_owners [OF L f])
qed

lemma live_same_queues:
  assumes L: "live s" and q: "same_queues (sd_run s) r'" and f: "frame (sd_run s) r'"
  shows "live (s\<lparr>sd_run := r'\<rparr>)"
proof (rule live_same_owners [OF L f])
  note v = same_queues_views [OF q]
  show "processing_keys r' = processing_keys (sd_run s)" by (simp add: processing_keys_def v)
  show "set (tracked (sd_run s)) \<subseteq> set (tracked r')" by (simp add: v)
  show "queue_live (s\<lparr>sd_run := r'\<rparr>) b" if "b \<in> set (addrs r')" for b
  proof (rule queue_live_same [of s])
    show "queue_live s b" using L that by (simp add: live_def v)
  qed (use q in \<open>simp_all add: v pull_pending_def pull_sending_def same_queues_def\<close>)
qed

lemma finite_processing [simp]: "finite (processing_keys r)"
  by (simp add: processing_keys_def)

lemma handleBatch_begin_effect:
  assumes "handleBatch_begin d r = (res, r')"
  shows "(res = None \<and> (r' = r \<or> rn_done r')) \<or>
    (\<exists>k a. res = Some (k, a) \<and> queue_lookup r k = Some a \<and> qs_phase (qobj r a) = queueActive
       \<and> \<not> qs_processing (qobj r a)
       \<and> r' = upd_obj a (\<lambda>q. q\<lparr>qs_pullQueued := False, qs_pullInFlight := False,
                                qs_pullSentAt := None, qs_processing := True\<rparr>) r)"
  using assms by (auto simp: handleBatch_begin_def handleBatch_enter_def split: option.splits if_splits)

lemma map_ok_ident: "map_ok r \<Longrightarrow> (k, a) \<in> set (tracked r) \<Longrightarrow> qs_identity (qobj r a) = k"
  by (auto simp: map_ok_def)

lemma processing_keys_insert:
  assumes "map_ok r" and "(k, a) \<in> set (tracked r)" and "tracked r' = tracked r"
    and "\<And>b. b \<noteq> a \<Longrightarrow> qs_processing (qobj r' b) = qs_processing (qobj r b)"
  shows "qs_processing (qobj r' a) \<Longrightarrow> processing_keys r' = insert k (processing_keys r)"
    and "\<not> qs_processing (qobj r' a) \<Longrightarrow> processing_keys r' = processing_keys r - {k}"
proof -
  have inj: "(k', b) \<in> set (tracked r) \<Longrightarrow> k' = k \<longleftrightarrow> b = a" for k' b
  proof
    assume kb: "(k', b) \<in> set (tracked r)"
    show "b = a \<Longrightarrow> k' = k" using map_ok_ident [OF assms(1) kb] map_ok_ident [OF assms(1,2)] by simp
    show "k' = k \<Longrightarrow> b = a" using kb assms(1,2) by (auto simp: map_ok_def dest: eq_key_imp_eq_value)
  qed
  show "qs_processing (qobj r' a) \<Longrightarrow> processing_keys r' = insert k (processing_keys r)"
    using assms(2,4) inj by (force simp: processing_keys_def assms(3))
  show "\<not> qs_processing (qobj r' a) \<Longrightarrow> processing_keys r' = processing_keys r - {k}"
    using assms(2,4) inj by (force simp: processing_keys_def assms(3))
qed

lemma processing_key_iff:
  assumes "map_ok r" and "(k, a) \<in> set (tracked r)"
  shows "k \<in> processing_keys r \<longleftrightarrow> qs_processing (qobj r a)"
  using assms by (force simp: processing_keys_def map_ok_def dest: eq_key_imp_eq_value)

lemma live_sync:
  assumes L: "live s" and m: "map_ok (sd_run s)" and idle: "sd_reader s = RdIdle"
    and k: "queue_lookup (sd_run s) k = Some a" and act: "qs_phase (qobj (sd_run s) a) = queueActive"
      "\<not> qs_processing (qobj (sd_run s) a)"
    and r': "r' = upd_obj a (\<lambda>q. q\<lparr>qs_pullQueued := False, qs_pullInFlight := False,
                                qs_pullSentAt := None, qs_processing := True\<rparr>) (sd_run s)"
  shows "live (s\<lparr>sd_run := r', sd_reader := RdBatch d k a\<rparr>)" (is "live ?s")
proof -
  let ?r = "sd_run s"
  have ka: "(k, a) \<in> set (tracked ?r)" using k m by (simp add: map_ok_lookup)
  have b: "a < length (rn_objs ?r)" using m lookup_addr [OF k] by (rule map_ok_bound)
  have pk: "processing_keys r' = insert k (processing_keys ?r)"
    by (rule processing_keys_insert [OF m ka]) (use b in \<open>simp_all add: r'\<close>)
  have nk: "k \<notin> processing_keys ?r" using act(2) by (simp add: processing_key_iff [OF m ka])
  have own: "own_job r' = own_job ?r" by (simp add: r')
  have ok: "owned_keys ?s = add_mset k (owned_keys s)"
    using idle by (simp add: owned_keys_def own r')
  have ql: "queue_live ?s c" if "c \<in> set (addrs ?r)" for c
  proof (cases "c = a")
    case True
    then show ?thesis using act b by (simp add: queue_live_def Let_def one_activity_def r')
  next
    case False
    have "queue_live s c" using L that by (simp add: live_def)
    then show ?thesis
      by (rule queue_live_same)
         (use False b in \<open>simp_all add: r' pull_pending_def pull_sending_def\<close>)
  qed
  have ms: "mset_set (processing_keys r') = add_mset k (mset_set (processing_keys ?r))"
    using nk by (simp add: pk)
  have fr: "rn_generation r' = rn_generation ?r" "cl_generation r' = cl_generation ?r"
    "cl_lifetimeDone r' = cl_lifetimeDone ?r" "tracked r' = tracked ?r" "cl_batches r' = cl_batches ?r"
    "addrs r' = addrs ?r"
    by (simp_all add: r')
  show ?thesis
    using L ka ql unfolding live_def ok by (simp add: ms own fr)
qed

text \<open>The only way through \<open>handleBatch\<close> that keeps the run alive hands over exactly one job.\<close>

lemma handleBatch_finish_alive:
  assumes "\<not> rn_done (handleBatch_finish pd d k a r)"
  shows "\<not> rn_done r \<and> (\<exists>c p job. bj_queue job = k \<and> own_job r job \<and> bj_reservation job \<noteq> None
     \<and> handleBatch_finish pd d k a r = (set_batch_budgets c p r)\<lparr>cl_batches := cl_batches r @ [job]\<rparr>)"
proof -
  obtain weight where w: "SyncRetainedWeight (Some d) = Inr weight"
    using assms by (cases "SyncRetainedWeight (Some d)") (auto simp: handleBatch_finish_def)
  obtain res c p where t: "tryReserveBatchScoped (cl_batchBudget r) (batch_process_budget r) weight = (res, c, p)"
    using prod_cases3 by blast
  have bs: "cl_batches (set_batch_budgets c p r) = cl_batches r" "rn_done (set_batch_budgets c p r) = rn_done r"
    "rn_generation (set_batch_budgets c p r) = rn_generation r"
    by (simp_all add: set_batch_budgets_def)
  have rel: "rn_done (release_reservation x (resetProcessing k a r')) = rn_done r'" for x r'
    by (auto simp: release_reservation_def resetProcessing_def set_batch_budgets_def split: prod.split)
  have ok: "cl_batchBudget r \<noteq> None" "rr_err res = None" "rr_ok res"
    using assms w t by (auto simp: handleBatch_finish_def Let_def split: if_splits)
  have res: "rr_reservation res \<noteq> None"
    using t ok(2,3) by (auto simp: tryReserveBatchScoped_def split: prod.splits sum.splits bool.splits option.splits)
  let ?job = "\<lparr>bj_queue = k, bj_d = d, bj_r = Some (rn_generation r), bj_reservation = rr_reservation res\<rparr>"
  have "\<not> rn_done r \<and> handleBatch_finish pd d k a r = (set_batch_budgets c p r)\<lparr>cl_batches := cl_batches r @ [?job]\<rparr>"
    using assms w t ok res bs rel by (auto simp: handleBatch_finish_def Let_def split: if_splits)
  then show ?thesis
    using res by (intro conjI exI [of _ c] exI [of _ p] exI [of _ ?job]) (simp_all add: own_job_def)
qed

lemma live_hand_over:
  assumes L: "live s" and rd: "sd_reader s = RdBatch d k a"
    and job: "bj_queue job = k" "own_job (sd_run s) job" "bj_reservation job \<noteq> None"
    and r': "r' = (set_batch_budgets c p (sd_run s))\<lparr>cl_batches := cl_batches (sd_run s) @ [job]\<rparr>"
  shows "live (s\<lparr>sd_run := r', sd_reader := RdIdle\<rparr>)"
proof -
  have sq: "same_queues (sd_run s) r'" by (simp add: r' same_queues_def set_batch_budgets_def)
  note v = same_queues_views [OF sq]
  have own: "own_job r' = own_job (sd_run s)" by (simp add: r')
  have fr: "rn_generation r' = rn_generation (sd_run s)" "cl_generation r' = cl_generation (sd_run s)"
    "cl_lifetimeDone r' = cl_lifetimeDone (sd_run s)" "cl_batches r' = cl_batches (sd_run s) @ [job]"
    by (simp_all add: r' set_batch_budgets_def)
  have ok: "owned_keys (s\<lparr>sd_run := r', sd_reader := RdIdle\<rparr>) = owned_keys s"
    using job rd by (simp add: owned_keys_def own fr)
  have ql: "queue_live (s\<lparr>sd_run := r', sd_reader := RdIdle\<rparr>) b" if "queue_live s b" for b
    using that by (rule queue_live_same)
      (use sq in \<open>simp_all add: v pull_pending_def pull_sending_def same_queues_def\<close>)
  have pk: "processing_keys r' = processing_keys (sd_run s)" by (simp add: processing_keys_def v)
  show ?thesis
    using L job ql unfolding live_def ok by (auto simp: own fr v pk)
qed

text \<open>Pull workers.\<close>

lemma worker_set_update:
  assumes "i < length ws" and "w \<in> set ws" and "w \<noteq> ws ! i"
  shows "w \<in> set (ws[i := x])"
proof -
  obtain j where j: "j < length ws" "ws ! j = w" using assms(2) by (auto simp: in_set_conv_nth)
  then have "j \<noteq> i" using assms(3) by auto
  with j show ?thesis by (metis length_list_update nth_list_update_neq nth_mem)
qed

lemma live_workers:
  assumes L: "live s" and f: "frame (sd_run s) r'"
    and t: "tracked r' = tracked (sd_run s)"
    and pr: "\<And>b. qs_processing (qobj r' b) = qs_processing (qobj (sd_run s) b)"
    and ql: "\<And>b. b \<in> set (addrs (sd_run s)) \<Longrightarrow> queue_live (s\<lparr>sd_run := r', sd_workers := ws\<rparr>) b"
  shows "live (s\<lparr>sd_run := r', sd_workers := ws\<rparr>)"
proof -
  have pk: "processing_keys r' = processing_keys (sd_run s)" using t pr by (intro processing_keys_cong) auto
  have fr: "rn_generation r' = rn_generation (sd_run s)" "cl_generation r' = cl_generation (sd_run s)"
    "cl_lifetimeDone r' = cl_lifetimeDone (sd_run s)" "cl_batches r' = cl_batches (sd_run s)"
    using f by (simp_all add: frame_def)
  have own: "own_job r' = own_job (sd_run s)" using f by (rule own_job_frame)
  have ok: "owned_keys (s\<lparr>sd_run := r', sd_workers := ws\<rparr>) = owned_keys s"
    by (simp add: owned_keys_def own fr)
  have ad: "addrs r' = addrs (sd_run s)" using t by (simp add: addrs_def)
  show ?thesis using L ql unfolding live_def ok by (simp add: own fr t pk ad)
qed

lemma live_receive:
  assumes L: "live s" and i: "i < length (sd_workers s)" "sd_workers s ! i = WkIdle"
    and p: "pull_receive (sd_run s) = Some (a, r')"
  shows "live (s\<lparr>sd_run := r', sd_workers := (sd_workers s)[i := WkGot a]\<rparr>)"
proof -
  obtain chan where c: "rn_pullRequests (sd_run s) = Some (a # chan)"
    and r': "r' = (sd_run s)\<lparr>rn_pullRequests := Some chan\<rparr>"
    using p by (auto simp: pull_receive_def split: option.splits list.splits)
  have new: "WkGot a \<in> set ((sd_workers s)[i := WkGot a])" using i(1) by (simp add: set_update_memI)
  show ?thesis
  proof (rule live_workers [OF L])
    show "queue_live (s\<lparr>sd_run := r', sd_workers := (sd_workers s)[i := WkGot a]\<rparr>) b"
      if "b \<in> set (addrs (sd_run s))" for b
    proof (rule queue_live_same [of s])
      show "queue_live s b" using L that by (simp add: live_def)
      show "pull_pending s b \<Longrightarrow> pull_pending (s\<lparr>sd_run := r', sd_workers := (sd_workers s)[i := WkGot a]\<rparr>) b"
        using c i new worker_set_update [OF i(1), of "WkGot b"] by (auto simp: pull_pending_def r')
      show "pull_sending s b \<Longrightarrow> pull_sending (s\<lparr>sd_run := r', sd_workers := (sd_workers s)[i := WkGot a]\<rparr>) b"
        using i worker_set_update [OF i(1)] by (auto simp: pull_sending_def)
    qed (simp add: r')
  qed (simp_all add: r')
qed

lemma live_pull_begin:
  assumes L: "live s" and m: "map_ok (sd_run s)" and alive: "\<not> rn_done (sd_run s)"
    and i: "i < length (sd_workers s)" "sd_workers s ! i = WkGot a" and b: "a < length (rn_objs (sd_run s))"
    and e: "executePull_begin a (sd_run s) = (res, r')"
  shows "live (s\<lparr>sd_run := r', sd_workers := (sd_workers s)
      [i := (case res of None \<Rightarrow> WkIdle | Some (j, key, t) \<Rightarrow> WkSending a t)]\<rparr>)"
proof -
  let ?w = "case res of None \<Rightarrow> WkIdle | Some (j, key, t) \<Rightarrow> WkSending a t"
  let ?s = "s\<lparr>sd_run := r', sd_workers := (sd_workers s)[i := ?w]\<rparr>" and ?q = "qobj (sd_run s) a"
  define go where "go \<longleftrightarrow> res \<noteq> None"
  have r': "r' = upd_obj a (\<lambda>q. q\<lparr>qs_pullQueued := False, qs_pullInFlight := qs_pullInFlight q \<or> go\<rparr>) (sd_run s)"
    and go: "go \<longleftrightarrow> qs_phase ?q = queueActive \<and> qs_pullQueued ?q \<and> \<not> qs_processing ?q \<and> \<not> qs_pullInFlight ?q"
    using e alive b by (auto simp: executePull_begin_def Let_def go_def upd_obj_def qobj_def split: if_splits)
  have f: "frame (sd_run s) r'" using frame_pull(1) [of "sd_run s" a] e by simp
  have others: "pull_pending s c \<Longrightarrow> pull_pending ?s c" "pull_sending s c \<Longrightarrow> pull_sending ?s c" if "c \<noteq> a" for c
    using that i worker_set_update [OF i(1)] by (auto simp: pull_pending_def pull_sending_def r')
  have self: "queue_live ?s a" if "a \<in> set (addrs (sd_run s))"
  proof -
    have q: "queue_live s a" using L that by (simp add: live_def)
    show ?thesis
    proof (cases go)
      case True
      then obtain t where "?w = WkSending a t" by (auto simp: go_def)
      then have "WkSending a t \<in> set ((sd_workers s)[i := ?w])" using i(1) by (metis set_update_memI)
      then have "pull_sending ?s a" by (auto simp: pull_sending_def)
      with True go q b show ?thesis by (auto simp: queue_live_def Let_def one_activity_def r')
    next
      case False
      then have nq: "\<not> qs_pullQueued ?q" using q go by (auto simp: queue_live_def Let_def one_activity_def split: if_splits)
      have "pull_sending s a \<Longrightarrow> pull_sending ?s a"
        using i worker_set_update [OF i(1)] by (auto simp: pull_sending_def)
      with nq False q b show ?thesis by (auto simp: queue_live_def Let_def one_activity_def r')
    qed
  qed
  show ?thesis
  proof (rule live_workers [OF L f])
    show "queue_live ?s c" if "c \<in> set (addrs (sd_run s))" for c
    proof (cases "c = a")
      case True
      then show ?thesis using self that by simp
    next
      case False
      have "queue_live s c" using L that by (simp add: live_def)
      then show ?thesis by (rule queue_live_same) (use False others b in \<open>simp_all add: r'\<close>)
    qed
  qed (use b in \<open>simp_all add: r'\<close>)
qed

lemma live_pull_end:
  assumes L: "live s" and m: "map_ok (sd_run s)"
    and i: "i < length (sd_workers s)" "sd_workers s ! i = WkSending a t" and t: "0 < t"
    and b: "a < length (rn_objs (sd_run s))" and alive: "\<not> rn_done (executePull_end a t e now (sd_run s))"
  shows "live (s\<lparr>sd_run := executePull_end a t e now (sd_run s), sd_workers := (sd_workers s)[i := WkIdle]\<rparr>)"
proof -
  define r' where "r' = executePull_end a t e now (sd_run s)"
  let ?s = "s\<lparr>sd_run := r', sd_workers := (sd_workers s)[i := WkIdle]\<rparr>" and ?q = "qobj (sd_run s) a"
  have e: "e = None" using alive by (auto simp: executePull_end_def Let_def split: option.splits if_splits)
  then have r': "r' = (if qs_pullInFlight ?q \<and> \<not> qs_processing ?q
      then upd_obj a (\<lambda>q. q\<lparr>qs_pullSentAt := Some now\<rparr>) (sd_run s) else sd_run s)"
    using t by (simp add: r'_def executePull_end_def)
  have f: "frame (sd_run s) r'" by (simp add: r'_def)
  have chan: "rn_pullRequests r' = rn_pullRequests (sd_run s)" by (simp add: r')
  have pend: "pull_pending s c \<Longrightarrow> pull_pending ?s c" for c
    using i worker_set_update [OF i(1)] chan by (auto simp: pull_pending_def)
  have send: "pull_sending s c \<Longrightarrow> pull_sending ?s c" if "c \<noteq> a" for c
    using that i worker_set_update [OF i(1)] by (auto simp: pull_sending_def)
  have "live ?s"
  proof (rule live_workers [OF L f])
    show "queue_live ?s c" if "c \<in> set (addrs (sd_run s))" for c
    proof (cases "c = a")
      case True
      have "queue_live s a" using L that True by (simp add: live_def)
      then show ?thesis using True b pend [of a]
        by (auto simp: queue_live_def Let_def one_activity_def r' split: if_splits)
    next
      case False
      have "queue_live s c" using L that by (simp add: live_def)
      then show ?thesis by (rule queue_live_same) (use False pend send b in \<open>simp_all add: r'\<close>)
    qed
  qed (use b in \<open>auto simp: r'\<close>)
  then show ?thesis by (simp add: r'_def)
qed

text \<open>Batch workers.\<close>

lemma mset_remove_nth: "i < length xs \<Longrightarrow> mset xs = add_mset (xs ! i) (mset (remove_nth i xs))"
  by (simp add: remove_nth_def) (metis id_take_nth_drop mset.simps(2) mset_append union_mset_add_mset_right)

lemma set_remove_nth: "set (remove_nth i xs) \<subseteq> set xs"
  by (auto simp: remove_nth_def dest: in_set_takeD in_set_dropD)

lemma live_reservations:
  "live s \<Longrightarrow> \<forall>job \<in> set (cl_batches (sd_run s)) \<union> fst ` set (sd_jobs s).
     own_job (sd_run s) job \<longrightarrow> bj_reservation job \<noteq> None"
  by (simp add: live_def)

lemma live_jobs:
  assumes L: "live s" and own: "owned_keys (s\<lparr>sd_run := r', sd_jobs := js\<rparr>) \<subseteq># owned_keys s"
      "\<not> cl_lifetimeDone (sd_run s) \<Longrightarrow> owned_keys (s\<lparr>sd_run := r', sd_jobs := js\<rparr>) = owned_keys s"
    and sq: "same_queues (sd_run s) r'"
    and fr: "rn_generation r' = rn_generation (sd_run s)" "cl_generation r' = cl_generation (sd_run s)"
      "cl_lifetimeDone r' = cl_lifetimeDone (sd_run s)"
    and sub: "set (cl_batches r') \<union> fst ` set js \<subseteq> set (cl_batches (sd_run s)) \<union> fst ` set (sd_jobs s)"
  shows "live (s\<lparr>sd_run := r', sd_jobs := js\<rparr>)"
proof -
  note v = same_queues_views [OF sq]
  have oj: "own_job r' = own_job (sd_run s)" by (simp add: fun_eq_iff own_job_def fr)
  have pk: "processing_keys r' = processing_keys (sd_run s)" by (simp add: processing_keys_def v)
  have ql: "queue_live (s\<lparr>sd_run := r', sd_jobs := js\<rparr>) b" if "queue_live s b" for b
    using that by (rule queue_live_same)
      (use sq in \<open>simp_all add: v pull_pending_def pull_sending_def same_queues_def\<close>)
  have "\<forall>job \<in> set (cl_batches r') \<union> fst ` set js. own_job (sd_run s) job \<longrightarrow> bj_reservation job \<noteq> None"
    using live_reservations [OF L] sub by blast
  moreover have "owned_keys (s\<lparr>sd_run := r', sd_jobs := js\<rparr>) \<subseteq># mset_set (processing_keys (sd_run s))"
    using L own(1) by (auto simp: live_def intro: subset_mset.order_trans)
  ultimately show ?thesis
    using L ql own(2) unfolding live_def by (simp add: fr v pk oj)
qed

lemma owned_remove_job:
  assumes i: "i < length (sd_jobs s)" "sd_jobs s ! i = (job, x)" and f: "frame (sd_run s) r'"
  shows "owned_keys s = (if own_job (sd_run s) job then {#bj_queue job#} else {#})
     + owned_keys (s\<lparr>sd_run := r', sd_jobs := remove_nth i (sd_jobs s)\<rparr>)"
proof -
  have "mset (map fst (sd_jobs s)) = add_mset job (mset (map fst (remove_nth i (sd_jobs s))))"
    using arg_cong [OF mset_remove_nth [OF i(1)], of "image_mset fst"] i(2) by simp
  moreover have "own_job r' = own_job (sd_run s)" using f by (rule own_job_frame)
  moreover have "cl_batches r' = cl_batches (sd_run s)" using f by (simp add: frame_def)
  ultimately show ?thesis by (simp add: owned_keys_def)
qed

lemma live_finish_job:
  assumes L: "live s" and m: "map_ok (sd_run s)" and f: "frame (sd_run s) r'"
    and i: "i < length (sd_jobs s)" "sd_jobs s ! i = (job, x)" and own: "own_job (sd_run s) job"
    and ka: "(bj_queue job, a) \<in> set (tracked (sd_run s))"
    and st: "settles (sd_run s) r' a" "settled r' a" "tracked r' = tracked (sd_run s)"
  shows "live (s\<lparr>sd_run := r', sd_jobs := remove_nth i (sd_jobs s)\<rparr>)" (is "live ?s")
proof -
  let ?r = "sd_run s" and ?k = "bj_queue job"
  have b: "a < length (rn_objs ?r)" using m ka by (auto simp: map_ok_def)
  have bound: "\<And>c. c \<in> set (addrs ?r) \<Longrightarrow> c < length (rn_objs ?r)" using m by (rule map_ok_bound)
  have keys: "owned_keys s = add_mset ?k (owned_keys ?s)" using owned_remove_job [OF i f] own by simp
  have "owned_keys s \<subseteq># mset_set (processing_keys ?r)" using L by (simp add: live_def)
  then have kp: "?k \<in> processing_keys ?r" using keys by (simp add: insert_subset_eq_iff)
  have "processing_keys r' = processing_keys ?r - {?k}"
  proof -
    have same: "qs_processing (qobj r' c) = qs_processing (qobj ?r c)" if "c \<in> set (addrs ?r)" "c \<noteq> a" for c
      using st(1) bound that by (simp add: settles_def same_flags_def)
    have na: "\<not> qs_processing (qobj r' a)" using st(2) by (simp add: settled_def)
    have inj: "k' = ?k \<longleftrightarrow> c = a" if "(k', c) \<in> set (tracked ?r)" for k' c
      using that ka map_ok_ident [OF m that] map_ok_ident [OF m ka] m
      by (auto simp: map_ok_def dest: eq_key_imp_eq_value)
    show ?thesis
      using same na inj by (force simp: processing_keys_def st(3) addrs_def)
  qed
  then have ms: "mset_set (processing_keys ?r) = add_mset ?k (mset_set (processing_keys r'))"
    using kp by (simp add: mset_set.remove)
  have ql: "queue_live ?s c" if "c \<in> set (addrs ?r)" for c
  proof (cases "c = a")
    case True
    then show ?thesis using st(2) by (intro queue_live_settled) simp
  next
    case False
    have "queue_live s c" using L that by (simp add: live_def)
    then show ?thesis
      by (rule queue_live_same)
         (use False st(1) bound [OF that] in \<open>auto simp: settles_def pull_pending_def pull_sending_def\<close>)
  qed
  have fr: "rn_generation r' = rn_generation ?r" "cl_generation r' = cl_generation ?r"
    "cl_lifetimeDone r' = cl_lifetimeDone ?r" "cl_batches r' = cl_batches ?r"
    using f by (simp_all add: frame_def)
  have oj: "own_job r' = own_job ?r" using f by (rule own_job_frame)
  have ad: "addrs r' = addrs ?r" using st(3) by (simp add: addrs_def)
  have "\<forall>job \<in> set (cl_batches ?r) \<union> fst ` set (remove_nth i (sd_jobs s)).
      own_job ?r job \<longrightarrow> bj_reservation job \<noteq> None"
    using live_reservations [OF L] set_remove_nth [of i "sd_jobs s"] by blast
  then show ?thesis
    using L ql keys ms unfolding live_def by (simp add: fr oj st(3) ad)
qed

text \<open>The end of a batch, in the state \<open>r2\<close> where the queue is no longer processing.\<close>

definition advanced :: "nat \<Rightarrow> Sync \<Rightarrow> connectionRun \<Rightarrow> connectionRun" where
  "advanced a d r =
     (let r1 = upd_obj a (\<lambda>q. q\<lparr>qs_processing := False\<rparr>) r
      in if sy_NextKey d \<noteq> 0 then upd_obj a (\<lambda>q. q\<lparr>qs_key := sy_NextKey d\<rparr>) r1 else r1)"

lemma advance_eq:
  assumes "queue_lookup r k = Some a" and "rn_generation r = cl_generation r"
  shows "processBatch_advance k d r = finish_schedule
     (if (sy_IsLast d \<or> sy_NextKey d = 0) \<and> \<not> qs_noticePending (qobj (advanced a d r) a)
      then promoteDeferredLocked (set_phase a queueIdle (rn_deferred (advanced a d r))
             (rn_activeQueues (advanced a d r) - 1) (advanced a d r))
      else enqueuePullLocked (Some a) (upd_obj a (\<lambda>q. q\<lparr>qs_noticePending := False\<rparr>) (advanced a d r)))"
  unfolding processBatch_advance_def assms(1)
  using assms(2) by (simp add: Let_def advanced_def active_set_phase finish_schedule_def case_prod_unfold
      split: option.split)

lemma advanced_views:
  assumes "a < length (rn_objs r)"
  shows "\<And>b. b \<noteq> a \<Longrightarrow> qobj (advanced a d r) b = qobj r b"
    and "qs_phase (qobj (advanced a d r) a) = qs_phase (qobj r a)"
    and "\<not> qs_processing (qobj (advanced a d r) a)"
    and "qs_pullQueued (qobj (advanced a d r) a) = qs_pullQueued (qobj r a)"
    and "qs_pullInFlight (qobj (advanced a d r) a) = qs_pullInFlight (qobj r a)"
    and "length (rn_objs (advanced a d r)) = length (rn_objs r)"
    and "rn_pullRequests (advanced a d r) = rn_pullRequests r"
    and "tracked (advanced a d r) = tracked r"
    and "frame r (advanced a d r)"
    and "sched_ok n (advanced a d r) = sched_ok n r"
  using assms by (auto simp: advanced_def Let_def sched_ok_flags)

lemma live_job_end:
  assumes L: "live s" and ok: "sched_ok 0 (sd_run s)"
    and i: "i < length (sd_jobs s)" "sd_jobs s ! i = (job, x)" and own: "own_job (sd_run s) job"
    and alive: "\<not> rn_done (processBatch_advance (bj_queue job) d (sd_run s))"
  shows "live (s\<lparr>sd_run := processBatch_advance (bj_queue job) d (sd_run s), sd_jobs := remove_nth i (sd_jobs s)\<rparr>)"
proof -
  let ?r = "sd_run s" and ?k = "bj_queue job"
  have m: "map_ok ?r" using ok by (simp add: sched_ok_def)
  have "owned_keys s \<subseteq># mset_set (processing_keys ?r)" using L by (simp add: live_def)
  then have "?k \<in> processing_keys ?r"
    using owned_remove_job [OF i frame_refl] own by (simp add: insert_subset_eq_iff)
  then obtain a where ka: "(?k, a) \<in> set (tracked ?r)" and pr: "qs_processing (qobj ?r a)"
    by (auto simp: processing_keys_def)
  have look: "queue_lookup ?r ?k = Some a" using m ka by (simp add: map_ok_lookup)
  have aa: "a \<in> set (addrs ?r)" using look by (rule lookup_addr)
  have b: "a < length (rn_objs ?r)" using m aa by (rule map_ok_bound)
  have "queue_live s a" using L aa by (simp add: live_def)
  then have q: "qs_phase (qobj ?r a) = queueActive" "\<not> qs_pullQueued (qobj ?r a)" "\<not> qs_pullInFlight (qobj ?r a)"
    using pr by (auto simp: queue_live_def Let_def one_activity_def split: if_splits)
  have gen: "rn_generation ?r = cl_generation ?r" using L by (simp add: live_def)
  define r2 where "r2 = advanced a d ?r"
  note v = advanced_views [OF b, where d = d, folded r2_def]
  note adv = advance_eq [OF look gen, where d = d, folded r2_def]
  have f: "frame ?r (processBatch_advance ?k d ?r)" by (rule frame_advance)
  show ?thesis
  proof (cases "(sy_IsLast d \<or> sy_NextKey d = 0) \<and> \<not> qs_noticePending (qobj r2 a)")
    case False
    let ?n = "upd_obj a (\<lambda>q. q\<lparr>qs_noticePending := False\<rparr>) r2"
    from False adv alive obtain r' where e: "enqueuePullLocked (Some a) ?n = (None, r')"
      and r': "processBatch_advance ?k d ?r = r'"
      using finish_schedule_alive [of "enqueuePullLocked (Some a) ?n"] by auto
    from enqueue_settles [OF _ _ _ _ _ e] b v q
    have 1: "settles ?n r' a" "settled r' a" "tracked r' = tracked r2" by simp_all
    have "settles ?r r' a" by (rule settles_trans_upd [OF 1(1,2) b]) (use v b in simp_all)
    then show ?thesis
      using 1 v f unfolding r' by (intro live_finish_job [OF L m _ i own ka]) simp_all
  next
    case True
    let ?i = "set_phase a queueIdle (rn_deferred r2) (rn_activeQueues r2 - 1) r2"
    have ok2: "sched_ok 0 r2" using ok v(10) by simp
    have ad: "addrs r2 = addrs ?r" using v(8) by (simp add: addrs_def)
    have ok1: "sched_ok 1 ?i"
      by (rule set_phase_ok [OF ok2])
         (use ok2 ad aa v(2) q in \<open>auto simp: sched_ok_def phase_ok_def is_phase_def\<close>)
    have st: "settled ?i a" using b v q by (simp add: settled_def one_activity_def)
    have "settles ?r ?i a" using st v b by (auto simp: settles_def)
    moreover have fi: "frame ?r ?i" using v(9) by (simp add: set_phase_def frame_def)
    ultimately have Li: "live (s\<lparr>sd_run := ?i, sd_jobs := remove_nth i (sd_jobs s)\<rparr>)" (is "live ?s")
      using st v(8) by (intro live_finish_job [OF L m _ i own ka]) simp_all
    from True adv alive obtain r' where e: "promoteDeferredLocked ?i = (None, r')"
      and r': "processBatch_advance ?k d ?r = r'"
      using finish_schedule_alive [of "promoteDeferredLocked ?i"] by auto
    have one: "one_activity (qobj ?i c)" if "c \<in> set (addrs ?i)" for c
      using Li that by (simp add: live_def queue_live_def Let_def)
    have fp: "frame ?i r'" using frame_promote [OF frame_refl, of ?i] e by simp
    have mi: "map_ok ?i" using ok1 by (simp add: sched_ok_def)
    from promote_settles [OF ok1 one e]
    have "r' = ?i \<or> settles_queue ?i r'" by (auto simp: settles_queue_def)
    then show ?thesis
    proof
      assume "r' = ?i"
      then show ?thesis using Li by (simp only: r')
    next
      assume st: "settles_queue ?i r'"
      have "?s\<lparr>sd_run := r'\<rparr> = s\<lparr>sd_run := r', sd_jobs := remove_nth i (sd_jobs s)\<rparr>" by simp
      with live_settles [OF Li, of r'] st mi fp show ?thesis by (simp add: r')
    qed
  qed
qed

section \<open>The invariant holds\<close>

lemma run_ok_sched: "run_ok r \<Longrightarrow> \<not> rn_finalized r \<Longrightarrow> sched_ok 0 r"
  by (simp add: run_ok_def)

lemma run_ok_alive: "run_ok r \<Longrightarrow> \<not> rn_done r \<Longrightarrow> \<not> rn_finalized r \<and> sched_ok 0 r"
  by (auto simp: run_ok_def split: if_splits)

lemma run_ok_same:
  assumes "run_ok r" and "same_queues r r'" and "rn_finalized r' = rn_finalized r" and "rn_done r \<Longrightarrow> rn_done r'"
  shows "run_ok r'"
  using assms sched_ok_same [OF assms(2)] by (auto simp: run_ok_def fin_ok_def same_queues_def split: if_splits)

lemma frame_finalized: "frame r r' \<Longrightarrow> rn_finalized r' = rn_finalized r"
  by (simp add: frame_def)

lemma worker_ok_mono: "worker_ok n w \<Longrightarrow> n \<le> n' \<Longrightarrow> worker_ok n' w"
  by (cases w) auto

lemma pcs_ok_run:
  assumes "pcs_ok s" and "frame (sd_run s) r'"
  shows "pcs_ok (s\<lparr>sd_run := r'\<rparr>)"
proof -
  have "length (rn_objs (sd_run s)) \<le> length (rn_objs r')" "rn_finalized r' = rn_finalized (sd_run s)"
    "own_job r' = own_job (sd_run s)"
    using assms(2) by (simp_all add: frame_def fun_eq_iff own_job_def)
  then show ?thesis
    using assms(1) worker_ok_mono by (auto simp: pcs_ok_def)
qed

lemma pcs_ok_worker:
  assumes p: "pcs_ok s"
    and w: "worker_ok (length (rn_objs (sd_run s))) w"
    and "\<not> rn_finalized (sd_run s)"
  shows "pcs_ok (s\<lparr>sd_workers := (sd_workers s)[i := w]\<rparr>)"
  using assms set_update_subset_insert [of "sd_workers s" i w]
  by (auto simp: pcs_ok_def dest!: subsetD)

lemma pcs_ok_jobs:
  assumes "pcs_ok s" and "\<And>job b. (job, b) \<in> set js \<Longrightarrow> b \<Longrightarrow> own_job (sd_run s) job"
  shows "pcs_ok (s\<lparr>sd_jobs := js\<rparr>)"
  using assms by (auto simp: pcs_ok_def)

lemma pcs_ok_reader:
  assumes "pcs_ok s" and "\<not> rn_finalized (sd_run s)"
  shows "pcs_ok (s\<lparr>sd_reader := x\<rparr>)"
  using assms by (simp add: pcs_ok_def)

lemma sched_inv_run:
  assumes i: "sched_inv s" and r: "run_ok r'" and f: "frame (sd_run s) r'"
    and l: "\<not> rn_done r' \<Longrightarrow> live s \<Longrightarrow> live (s\<lparr>sd_run := r'\<rparr>)"
  shows "sched_inv (s\<lparr>sd_run := r'\<rparr>)"
  using i r l pcs_ok_run [OF _ f] f by (auto simp: sched_inv_def frame_def)

lemma run_ok_frame: "sched_ok 0 r' \<Longrightarrow> frame r r' \<Longrightarrow> \<not> rn_finalized r \<Longrightarrow> run_ok r'"
  by (simp add: run_ok_def frame_def)

lemma run_ok_view: "run_ok r \<Longrightarrow> same_queues r r' \<Longrightarrow> frame r r' \<Longrightarrow> run_ok r'"
  by (erule run_ok_same) (auto simp: frame_def)

lemma sched_inv_view:
  assumes "sched_inv s" and "same_queues (sd_run s) r'" and "frame (sd_run s) r'"
  shows "sched_inv (s\<lparr>sd_run := r'\<rparr>)"
  using assms run_ok_view by (intro sched_inv_run live_same_queues) (auto simp: sched_inv_def)

lemma inv_notice:
  assumes i: "sched_inv s" and n: "\<not> rn_finalized (sd_run s)"
  shows "sched_inv (s\<lparr>sd_run := startQueue j (sd_run s)\<rparr>)"
proof (rule sched_inv_run [OF i _ frame_startQueue])
  have ok: "sched_ok 0 (sd_run s)" using i n by (simp add: sched_inv_def run_ok_def)
  show "run_ok (startQueue j (sd_run s))" using ok n by (intro run_ok_frame [OF _ frame_startQueue] startQueue_ok)
  assume a: "\<not> rn_done (startQueue j (sd_run s))" and L: "live s"
  have "one_activity (qobj (sd_run s) a)" if "a \<in> set (addrs (sd_run s))" for a
    using L that by (simp add: live_def queue_live_def Let_def)
  then have "settles_queue (sd_run s) (startQueue j (sd_run s))" using ok a by (intro startQueue_settles)
  then show "live (s\<lparr>sd_run := startQueue j (sd_run s)\<rparr>)"
    using ok by (intro live_settles [OF L] frame_startQueue) (simp_all add: sched_ok_def)
qed

lemma inv_sync:
  assumes i: "sched_inv s" and n: "\<not> rn_finalized (sd_run s)" and idle: "sd_reader s = RdIdle"
    and e: "handleBatch_begin d (sd_run s) = (res, r')"
  shows "sched_inv (s\<lparr>sd_run := r', sd_reader := (case res of None \<Rightarrow> RdIdle | Some (k, a) \<Rightarrow> RdBatch d k a)\<rparr>)"
proof -
  have ok: "sched_ok 0 (sd_run s)" using i n by (simp add: sched_inv_def run_ok_def)
  have f: "frame (sd_run s) r'" using frame_pull(4) [of "sd_run s" d] e by simp
  have ok': "sched_ok 0 r'" using handleBatch_begin_ok [of 0 d "sd_run s"] ok e by simp
  let ?s = "s\<lparr>sd_run := r', sd_reader := (case res of None \<Rightarrow> RdIdle | Some (k, a) \<Rightarrow> RdBatch d k a)\<rparr>"
  have nf: "\<not> rn_finalized r'" using f n by (simp add: frame_def)
  have "pcs_ok (s\<lparr>sd_run := r'\<rparr>)" using i f by (intro pcs_ok_run) (simp_all add: sched_inv_def)
  from pcs_ok_reader [OF this] nf have pcs: "pcs_ok ?s" by simp
  have lv: "live ?s" if "\<not> rn_done r'"
  proof -
    have L: "live s" using i that f by (auto simp: sched_inv_def frame_def)
    from handleBatch_begin_effect [OF e] that show ?thesis
    proof (elim disjE exE conjE)
      assume "res = None" and "r' = sd_run s"
      then have "?s = s" using idle by simp
      then show ?thesis using L by simp
    next
      fix k a
      assume "res = Some (k, a)" "queue_lookup (sd_run s) k = Some a" "qs_phase (qobj (sd_run s) a) = queueActive"
        "\<not> qs_processing (qobj (sd_run s) a)"
        "r' = upd_obj a (\<lambda>q. q\<lparr>qs_pullQueued := False, qs_pullInFlight := False, qs_pullSentAt := None, qs_processing := True\<rparr>) (sd_run s)"
      with live_sync [OF L _ idle] ok show ?thesis by (simp add: sched_ok_def)
    qed simp
  qed
  show ?thesis using ok' nf pcs lv by (auto simp: sched_inv_def run_ok_def)
qed

lemma frame_finish_weak:
  "rn_finalized (handleBatch_finish pd d k a r) = rn_finalized r
   \<and> rn_generation (handleBatch_finish pd d k a r) = rn_generation r
   \<and> length (rn_objs (handleBatch_finish pd d k a r)) = length (rn_objs r)
   \<and> (rn_done r \<longrightarrow> rn_done (handleBatch_finish pd d k a r))"
proof -
  have rp: "rn_finalized (resetProcessing k a r') = rn_finalized r'" "rn_generation (resetProcessing k a r') = rn_generation r'"
    "length (rn_objs (resetProcessing k a r')) = length (rn_objs r')" "rn_done (resetProcessing k a r') = rn_done r'" for r'
    by (simp_all add: resetProcessing_def)
  have sb: "rn_finalized (set_batch_budgets c p r') = rn_finalized r'" "rn_generation (set_batch_budgets c p r') = rn_generation r'"
    "rn_objs (set_batch_budgets c p r') = rn_objs r'" "rn_done (set_batch_budgets c p r') = rn_done r'" for c p r'
    by (simp_all add: set_batch_budgets_def)
  have rr: "rn_finalized (release_reservation x r') = rn_finalized r'" "rn_generation (release_reservation x r') = rn_generation r'"
    "rn_objs (release_reservation x r') = rn_objs r'" "rn_done (release_reservation x r') = rn_done r'" for x r'
    by (simp_all add: release_reservation_def sb split: prod.split)
  show ?thesis
    unfolding handleBatch_finish_def run_fail_eq
    by (simp add: Let_def rp sb rr split: sum.split prod.split batchBudgetScope.split)
qed

lemma inv_sync_finish:
  assumes i: "sched_inv s" and rd: "sd_reader s = RdBatch d k a"
  shows "sched_inv (s\<lparr>sd_run := handleBatch_finish pd d k a (sd_run s), sd_reader := RdIdle\<rparr>)"
proof -
  let ?r' = "handleBatch_finish pd d k a (sd_run s)"
  have nf: "\<not> rn_finalized (sd_run s)" using i rd by (auto simp: sched_inv_def pcs_ok_def)
  note w = frame_finish_weak [of pd d k a "sd_run s"]
  have "sched_ok 0 ?r'" using i nf by (simp add: sched_inv_def run_ok_def handleBatch_finish_ok)
  then have "run_ok ?r'" using nf w by (simp add: run_ok_def)
  moreover have "own_job ?r' = own_job (sd_run s)" using w by (simp add: fun_eq_iff own_job_def)
  then have "pcs_ok (s\<lparr>sd_run := ?r', sd_reader := RdIdle\<rparr>)"
    using i w nf by (simp add: sched_inv_def pcs_ok_def)
  moreover have "live (s\<lparr>sd_run := ?r', sd_reader := RdIdle\<rparr>)" if a: "\<not> rn_done ?r'"
  proof -
    from handleBatch_finish_alive [OF a] obtain c p job where nd: "\<not> rn_done (sd_run s)"
      and job: "bj_queue job = k" "own_job (sd_run s) job" "bj_reservation job \<noteq> None"
      and r': "?r' = (set_batch_budgets c p (sd_run s))\<lparr>cl_batches := cl_batches (sd_run s) @ [job]\<rparr>"
      by auto
    have "live s" using i nd by (simp add: sched_inv_def)
    then show ?thesis using rd job r' by (rule live_hand_over)
  qed
  ultimately show ?thesis by (simp add: sched_inv_def)
qed

lemma inv_worker:
  assumes i: "sched_inv s" and n: "\<not> rn_finalized (sd_run s)" and ok: "sched_ok 0 r'"
    and f: "frame (sd_run s) r'" and w: "worker_ok (length (rn_objs r')) w"
    and l: "\<not> rn_done r' \<Longrightarrow> live s \<Longrightarrow> live (s\<lparr>sd_run := r', sd_workers := (sd_workers s)[i := w]\<rparr>)"
  shows "sched_inv (s\<lparr>sd_run := r', sd_workers := (sd_workers s)[i := w]\<rparr>)"
proof -
  have p: "pcs_ok (s\<lparr>sd_run := r'\<rparr>)" using i f by (intro pcs_ok_run) (simp_all add: sched_inv_def)
  have nf: "\<not> rn_finalized r'" using n f by (simp add: frame_def)
  from pcs_ok_worker [OF p, of w i] w nf have "pcs_ok (s\<lparr>sd_run := r', sd_workers := (sd_workers s)[i := w]\<rparr>)"
    by simp
  moreover have "live s" if "\<not> rn_done r'" using that i f by (auto simp: sched_inv_def frame_def)
  ultimately show ?thesis using ok nf l by (auto simp: sched_inv_def run_ok_def)
qed

lemma inv_receive:
  assumes i: "sched_inv s" and w: "i < length (sd_workers s)" "sd_workers s ! i = WkIdle"
    and n: "\<not> rn_finalized (sd_run s)" and p: "pull_receive (sd_run s) = Some (a, r')"
  shows "sched_inv (s\<lparr>sd_run := r', sd_workers := (sd_workers s)[i := WkGot a]\<rparr>)"
proof -
  have ok: "sched_ok 0 (sd_run s)" using i n by (simp add: sched_inv_def run_ok_def)
  have r': "\<exists>chan. r' = (sd_run s)\<lparr>rn_pullRequests := chan\<rparr>"
    using p by (auto simp: pull_receive_def split: option.splits list.splits)
  show ?thesis
    by (rule inv_worker [OF i n]) (use pull_receive_ok [OF ok p] r' live_receive [OF _ w p] in auto)
qed

lemma worker_alive:
  assumes "sched_inv s" and "i < length (sd_workers s)" and "sd_workers s ! i \<noteq> WkIdle"
  shows "\<not> rn_finalized (sd_run s)" "sched_ok 0 (sd_run s)"
    "worker_ok (length (rn_objs (sd_run s))) (sd_workers s ! i)"
proof -
  have "sd_workers s ! i \<in> set (sd_workers s)" using assms(2) by simp
  then show "\<not> rn_finalized (sd_run s)" "worker_ok (length (rn_objs (sd_run s))) (sd_workers s ! i)"
    using assms by (auto simp: sched_inv_def pcs_ok_def)
  then show "sched_ok 0 (sd_run s)" using assms(1) by (simp add: sched_inv_def run_ok_def)
qed

lemma inv_pull_begin:
  assumes i: "sched_inv s" and w: "i < length (sd_workers s)" "sd_workers s ! i = WkGot a"
    and e: "executePull_begin a (sd_run s) = (res, r')"
  shows "sched_inv (s\<lparr>sd_run := r', sd_workers := (sd_workers s)
      [i := (case res of None \<Rightarrow> WkIdle | Some (j, key, t) \<Rightarrow> WkSending a t)]\<rparr>)"
proof -
  have a: "\<not> rn_finalized (sd_run s)" "sched_ok 0 (sd_run s)" "a < length (rn_objs (sd_run s))"
    using worker_alive [OF i w(1)] w(2) by simp_all
  have f: "frame (sd_run s) r'" using frame_pull(1) [of "sd_run s" a] e by simp
  have len: "length (rn_objs r') = length (rn_objs (sd_run s))"
    using e by (auto simp: executePull_begin_def Let_def split: if_splits)
  have t: "case res of None \<Rightarrow> True | Some (j, key, t) \<Rightarrow> 0 < t"
    using e a(2) by (auto simp: executePull_begin_def Let_def sched_ok_def chan_ok_def split: if_splits)
  show ?thesis
  proof (rule inv_worker [OF i a(1) _ f])
    show "sched_ok 0 r'" using executePull_ok(1) [of 0 a "sd_run s"] a(2) e by simp
    show "worker_ok (length (rn_objs r')) (case res of None \<Rightarrow> WkIdle | Some (j, key, t) \<Rightarrow> WkSending a t)"
      using t a(3) len by (auto split: option.splits)
    assume "\<not> rn_done r'" and "live s"
    moreover have "\<not> rn_done (sd_run s)" using \<open>\<not> rn_done r'\<close> f by (auto simp: frame_def)
    ultimately show "live (s\<lparr>sd_run := r', sd_workers := (sd_workers s)
        [i := (case res of None \<Rightarrow> WkIdle | Some (j, key, t) \<Rightarrow> WkSending a t)]\<rparr>)"
      using a(2,3) by (intro live_pull_begin [OF _ _ _ w _ e]) (simp_all add: sched_ok_def)
  qed
qed

lemma inv_pull_end:
  assumes i: "sched_inv s" and w: "i < length (sd_workers s)" "sd_workers s ! i = WkSending a t"
  shows "sched_inv (s\<lparr>sd_run := executePull_end a t e now (sd_run s), sd_workers := (sd_workers s)[i := WkIdle]\<rparr>)"
proof -
  have a: "\<not> rn_finalized (sd_run s)" "sched_ok 0 (sd_run s)" "a < length (rn_objs (sd_run s))" "0 < t"
    using worker_alive [OF i w(1)] w(2) by simp_all
  show ?thesis
    by (rule inv_worker [OF i a(1)])
       (use a executePull_ok(2) live_pull_end [OF _ _ w a(4,3)] in \<open>auto simp: sched_ok_def\<close>)
qed

lemma inv_jobs:
  assumes i: "sched_inv s" and q: "same_queues (sd_run s) r'"
    and fr: "rn_generation r' = rn_generation (sd_run s)" "cl_generation r' = cl_generation (sd_run s)"
      "cl_lifetimeDone r' = cl_lifetimeDone (sd_run s)" "rn_done r' = rn_done (sd_run s)"
      "rn_finalized r' = rn_finalized (sd_run s)"
    and sub: "set (cl_batches r') \<union> fst ` set js \<subseteq> set (cl_batches (sd_run s)) \<union> fst ` set (sd_jobs s)"
    and own: "\<And>job b. (job, b) \<in> set js \<Longrightarrow> b \<Longrightarrow> own_job (sd_run s) job"
    and keys: "owned_keys (s\<lparr>sd_run := r', sd_jobs := js\<rparr>) \<subseteq># owned_keys s"
      "\<not> rn_done (sd_run s) \<Longrightarrow> \<not> cl_lifetimeDone (sd_run s) \<Longrightarrow> live s \<Longrightarrow>
       owned_keys (s\<lparr>sd_run := r', sd_jobs := js\<rparr>) = owned_keys s"
  shows "sched_inv (s\<lparr>sd_run := r', sd_jobs := js\<rparr>)"
proof -
  have r: "run_ok r'" using i q fr by (intro run_ok_same [OF _ q]) (auto simp: sched_inv_def)
  have oj: "own_job r' = own_job (sd_run s)" using fr by (simp add: fun_eq_iff own_job_def)
  have "length (rn_objs r') = length (rn_objs (sd_run s))" using q by (simp add: same_queues_def)
  then have "pcs_ok (s\<lparr>sd_run := r', sd_jobs := js\<rparr>)"
    using i own fr oj by (auto simp: sched_inv_def pcs_ok_def)
  moreover have "live (s\<lparr>sd_run := r', sd_jobs := js\<rparr>)" if "\<not> rn_done (sd_run s)"
    using i that keys sub by (intro live_jobs [OF _ _ _ q fr(1,2,3)]) (simp_all add: sched_inv_def)
  ultimately show ?thesis using r fr(4) by (auto simp: sched_inv_def)
qed

lemma inv_take:
  assumes i: "sched_inv s" and b: "cl_batches (sd_run s) = job # js"
  shows "sched_inv (s\<lparr>sd_run := (sd_run s)\<lparr>cl_batches := js\<rparr>, sd_jobs := sd_jobs s @ [(job, False)]\<rparr>)"
  by (rule inv_jobs [OF i]) (use i b in \<open>auto simp: owned_keys_def sched_inv_def pcs_ok_def\<close>)

lemma inv_job_start:
  assumes i: "sched_inv s" and j: "i < length (sd_jobs s)" "sd_jobs s ! i = (job, False)"
    and n: "\<not> job_skips job (sd_run s)"
  shows "sched_inv (s\<lparr>sd_jobs := (sd_jobs s)[i := (job, True)]\<rparr>)"
proof -
  have m: "map fst ((sd_jobs s)[i := (job, True)]) = map fst (sd_jobs s)"
    using j by (metis fst_conv list_update_id map_update)
  have "sched_inv (s\<lparr>sd_run := sd_run s, sd_jobs := (sd_jobs s)[i := (job, True)]\<rparr>)"
  proof (rule inv_jobs [OF i])
    show "set (cl_batches (sd_run s)) \<union> fst ` set ((sd_jobs s)[i := (job, True)])
        \<subseteq> set (cl_batches (sd_run s)) \<union> fst ` set (sd_jobs s)"
      using arg_cong [OF m, of set] by simp
    show "own_job (sd_run s) job'" if "(job', b) \<in> set ((sd_jobs s)[i := (job, True)])" and b for job' b
      using that i n set_update_subset_insert [of "sd_jobs s" i "(job, True)"]
      by (auto simp: sched_inv_def pcs_ok_def job_skips_def own_job_def)
    have "owned_keys (s\<lparr>sd_run := sd_run s, sd_jobs := (sd_jobs s)[i := (job, True)]\<rparr>) = owned_keys s"
      using arg_cong [OF m, of mset] by (simp add: owned_keys_def)
    then show "owned_keys (s\<lparr>sd_run := sd_run s, sd_jobs := (sd_jobs s)[i := (job, True)]\<rparr>) \<subseteq># owned_keys s"
      "owned_keys (s\<lparr>sd_run := sd_run s, sd_jobs := (sd_jobs s)[i := (job, True)]\<rparr>) = owned_keys s"
      by simp_all
  qed simp_all
  then show ?thesis by simp
qed

lemma job_release_frame [simp]: "frame r (job_release job r)"
  by simp

lemma inv_job_skip:
  assumes i: "sched_inv s" and j: "i < length (sd_jobs s)" "sd_jobs s ! i = (job, False)"
    and n: "job_skips job (sd_run s)"
  shows "sched_inv (s\<lparr>sd_run := job_release job (sd_run s), sd_jobs := remove_nth i (sd_jobs s)\<rparr>)"
proof -
  have f: "frame (sd_run s) (job_release job (sd_run s))" by simp
  note keys = owned_remove_job [OF j f]
  have mem: "job \<in> fst ` set (sd_jobs s)" using j by (metis fst_conv image_eqI nth_mem)
  show ?thesis
  proof (rule inv_jobs [OF i])
    show "owned_keys (s\<lparr>sd_run := job_release job (sd_run s), sd_jobs := remove_nth i (sd_jobs s)\<rparr>) \<subseteq># owned_keys s"
      unfolding keys by (rule mset_subset_eq_add_right)
    assume "\<not> rn_done (sd_run s)" "\<not> cl_lifetimeDone (sd_run s)" "live s"
    then have "\<not> own_job (sd_run s) job"
      using n mem live_reservations [of s] by (auto simp: job_skips_def own_job_def live_def)
    then show "owned_keys (s\<lparr>sd_run := job_release job (sd_run s), sd_jobs := remove_nth i (sd_jobs s)\<rparr>) = owned_keys s"
      using keys by simp
  next
    show "own_job (sd_run s) job'" if "(job', b) \<in> set (remove_nth i (sd_jobs s))" and b for job' b
      using that i set_remove_nth [of i "sd_jobs s"] by (auto simp: sched_inv_def pcs_ok_def)
    show "set (cl_batches (job_release job (sd_run s))) \<union> fst ` set (remove_nth i (sd_jobs s))
        \<subseteq> set (cl_batches (sd_run s)) \<union> fst ` set (sd_jobs s)"
      using f set_remove_nth [of i "sd_jobs s"] unfolding frame_def by auto
  qed (use f in \<open>simp_all add: frame_def\<close>)
qed

lemma inv_job_end:
  assumes i: "sched_inv s" and j: "i < length (sd_jobs s)" "sd_jobs s ! i = (job, True)"
  shows "sched_inv (s\<lparr>sd_run := job_release job (if rn_done (sd_run s) then sd_run s
      else processBatch_advance (bj_queue job) (bj_d job) (sd_run s)), sd_jobs := remove_nth i (sd_jobs s)\<rparr>)"
proof -
  define r1 where "r1 = (if rn_done (sd_run s) then sd_run s else processBatch_advance (bj_queue job) (bj_d job) (sd_run s))"
  have own: "own_job (sd_run s) job" using i j nth_mem [OF j(1)] by (auto simp: sched_inv_def pcs_ok_def)
  have f: "frame (sd_run s) r1" by (simp add: r1_def frame_advance)
  have lv: "live (s\<lparr>sd_run := r1, sd_jobs := remove_nth i (sd_jobs s)\<rparr>)" if "\<not> rn_done r1"
  proof -
    have nd: "\<not> rn_done (sd_run s)" using that f by (auto simp: frame_def)
    then have "sched_ok 0 (sd_run s)" "live s" using i by (auto simp: sched_inv_def dest: run_ok_alive)
    with live_job_end [OF _ _ j own] that nd show ?thesis by (simp add: r1_def)
  qed
  have ok1: "run_ok r1"
  proof (cases "rn_done (sd_run s)")
    case True
    then show ?thesis using i by (simp add: r1_def sched_inv_def)
  next
    case False
    then have ok: "\<not> rn_finalized (sd_run s)" "sched_ok 0 (sd_run s)" "live s"
      using i by (auto simp: sched_inv_def dest: run_ok_alive)
    have "is_phase (sd_run s) queueActive a" if "queue_lookup (sd_run s) (bj_queue job) = Some a" for a
    proof -
      have ka: "(bj_queue job, a) \<in> set (tracked (sd_run s))" using that ok(2) by (simp add: sched_ok_def map_ok_lookup)
      have "owned_keys s \<subseteq># mset_set (processing_keys (sd_run s))" using ok(3) by (simp add: live_def)
      then have "bj_queue job \<in> processing_keys (sd_run s)"
        using owned_remove_job [OF j frame_refl] own by (simp add: insert_subset_eq_iff)
      then have "qs_processing (qobj (sd_run s) a)"
        using ok(2) ka by (simp add: processing_key_iff sched_ok_def)
      moreover have "queue_live s a" using ok(3) lookup_addr [OF that] by (simp add: live_def)
      ultimately show ?thesis by (auto simp: queue_live_def Let_def one_activity_def is_phase_def split: if_splits)
    qed
    then have "sched_ok 0 r1" using ok(2) False by (simp add: r1_def processBatch_advance_ok)
    then show ?thesis using f ok(1) by (intro run_ok_frame)
  qed
  let ?s1 = "s\<lparr>sd_run := r1, sd_jobs := remove_nth i (sd_jobs s)\<rparr>"
  have "pcs_ok (s\<lparr>sd_run := r1\<rparr>)" using i f by (intro pcs_ok_run) (simp_all add: sched_inv_def)
  then have "pcs_ok ?s1" using set_remove_nth [of i "sd_jobs s"] by (auto simp: pcs_ok_def)
  with lv ok1 have "sched_inv ?s1" by (simp add: sched_inv_def)
  then have "sched_inv (?s1\<lparr>sd_run := job_release job r1\<rparr>)" by (rule sched_inv_view) simp_all
  moreover have "?s1\<lparr>sd_run := job_release job r1\<rparr> =
      s\<lparr>sd_run := job_release job r1, sd_jobs := remove_nth i (sd_jobs s)\<rparr>" by simp
  ultimately show ?thesis unfolding r1_def by simp
qed

lemma pending_step_view: "pending_step r r' \<Longrightarrow> same_queues r r' \<and> frame r r'"
proof (induction rule: pending_step.induct)
  case (pending_register r mid)
  then show ?case by (simp add: send_register_def Let_def same_queues_def frame_def)
next
  case (pending_unregister r mid)
  then show ?case by (simp add: send_unregister_def same_queues_def frame_def)
next
  case (pending_complete r d)
  then show ?case
    by (simp add: completeACK_def Let_def ack_send_def same_queues_def frame_def split: option.split)
next
  case (pending_failed r e)
  then show ?case by simp
qed

lemma live_queue_budget:
  assumes "live s"
  shows "live (s\<lparr>sd_run := (sd_run s)\<lparr>processQueueBudget := p\<rparr>\<rparr>)"
proof (rule live_same_owners [OF assms])
  show "queue_live (s\<lparr>sd_run := (sd_run s)\<lparr>processQueueBudget := p\<rparr>\<rparr>) b"
    if "b \<in> set (addrs ((sd_run s)\<lparr>processQueueBudget := p\<rparr>))" for b
    using assms that by (simp add: live_def queue_live_def pull_pending_def pull_sending_def)
qed (simp_all add: processing_keys_def)

lemma inv_queue_budget:
  assumes i: "sched_inv s" and p: "opt_ok p" "Used (rn_queueBudget (sd_run s)) \<le> Used p"
  shows "sched_inv (s\<lparr>sd_run := (sd_run s)\<lparr>processQueueBudget := p\<rparr>\<rparr>)"
proof (rule sched_inv_run [OF i])
  have r: "run_ok (sd_run s)" using i by (simp add: sched_inv_def)
  have "sched_ok 0 ((sd_run s)\<lparr>processQueueBudget := p\<rparr>)" if "sched_ok 0 (sd_run s)"
    by (rule sched_ok_extend [OF that]) (use that p in \<open>auto simp: sched_ok_def charge_ok_def\<close>)
  then show "run_ok ((sd_run s)\<lparr>processQueueBudget := p\<rparr>)"
    using r p by (auto simp: run_ok_def fin_ok_def split: if_splits)
qed (simp_all add: live_queue_budget)

lemma inv_foreign_job:
  assumes i: "sched_inv s" and j: "\<not> own_job (sd_run s) job"
  shows "sched_inv (s\<lparr>sd_run := (sd_run s)\<lparr>cl_batches := cl_batches (sd_run s) @ [job]\<rparr>\<rparr>)"
proof -
  let ?r = "(sd_run s)\<lparr>cl_batches := cl_batches (sd_run s) @ [job]\<rparr>"
  have "run_ok ?r" by (rule run_ok_same [of "sd_run s"]) (use i in \<open>simp_all add: sched_inv_def\<close>)
  moreover have "pcs_ok (s\<lparr>sd_run := ?r\<rparr>)" using i by (simp add: sched_inv_def pcs_ok_def)
  moreover have "live (s\<lparr>sd_run := ?r\<rparr>)" if "live s"
  proof -
    have "owned_keys (s\<lparr>sd_run := ?r\<rparr>) = owned_keys s" using j by (simp add: owned_keys_def)
    moreover have "queue_live (s\<lparr>sd_run := ?r\<rparr>) b = queue_live s b" for b
      by (simp add: queue_live_def pull_pending_def pull_sending_def)
    ultimately show ?thesis using that j by (auto simp: live_def processing_keys_def)
  qed
  ultimately show ?thesis using i by (auto simp: sched_inv_def)
qed

lemma inv_close:
  assumes i: "sched_inv s"
  shows "sched_inv (s\<lparr>sd_run := (sd_run s)\<lparr>cl_lifetimeDone := True\<rparr>\<rparr>)"
proof -
  let ?r = "(sd_run s)\<lparr>cl_lifetimeDone := True\<rparr>"
  have sq: "same_queues (sd_run s) ?r" by (simp add: same_queues_def)
  note v = same_queues_views [OF sq]
  have oj: "own_job ?r = own_job (sd_run s)" by (simp add: fun_eq_iff own_job_def)
  have "run_ok ?r" using i by (intro run_ok_same [OF _ sq]) (simp_all add: sched_inv_def)
  moreover have "pcs_ok (s\<lparr>sd_run := ?r\<rparr>)" using i oj by (simp add: sched_inv_def pcs_ok_def)
  moreover have "live (s\<lparr>sd_run := ?r\<rparr>)" if "live s"
  proof -
    have "owned_keys (s\<lparr>sd_run := ?r\<rparr>) = owned_keys s" by (simp add: owned_keys_def oj)
    moreover have "queue_live (s\<lparr>sd_run := ?r\<rparr>) b = queue_live s b" for b
      by (simp add: queue_live_def pull_pending_def pull_sending_def v)
    ultimately show ?thesis using that by (auto simp: live_def processing_keys_def v oj)
  qed
  ultimately show ?thesis using i by (auto simp: sched_inv_def)
qed

lemma inv_finalize:
  assumes i: "sched_inv s" and d: "rn_done (sd_run s)" "\<not> rn_finalized (sd_run s)" "sd_reader s = RdIdle"
    and w: "\<forall>w \<in> set (sd_workers s). w = WkIdle"
  shows "sched_inv (s\<lparr>sd_run := finalizeQueues (sd_run s)\<rparr>)"
proof -
  have "sched_ok 0 (sd_run s)" using i d by (simp add: sched_inv_def run_ok_def)
  from finalizeQueues_fin [OF this d(2)]
  have f: "fin_ok (finalizeQueues (sd_run s))" "rn_finalized (finalizeQueues (sd_run s))" by simp_all
  have v: "rn_done (finalizeQueues (sd_run s)) = rn_done (sd_run s)"
    "own_job (finalizeQueues (sd_run s)) = own_job (sd_run s)"
    by (simp_all add: finalizeQueues_def Let_def fun_eq_iff own_job_def)
  have "pcs_ok (s\<lparr>sd_run := finalizeQueues (sd_run s)\<rparr>)"
    using i d(3) w by (auto simp: sched_inv_def pcs_ok_def v)
  then show ?thesis using f d by (simp add: sched_inv_def run_ok_def v)
qed

lemma inv_supersede:
  assumes i: "sched_inv s" and d: "rn_done (sd_run s)"
  shows "sched_inv (s\<lparr>sd_run := (sd_run s)\<lparr>cl_generation := g\<rparr>\<rparr>)"
proof -
  let ?r = "(sd_run s)\<lparr>cl_generation := g\<rparr>"
  have "run_ok ?r" by (rule run_ok_same [of "sd_run s"]) (use i in \<open>simp_all add: sched_inv_def same_queues_def\<close>)
  moreover have "own_job ?r = own_job (sd_run s)" by (simp add: fun_eq_iff own_job_def)
  ultimately show ?thesis using i d by (simp add: sched_inv_def pcs_ok_def)
qed

lemma sched_inv_step: "sched_step s t \<Longrightarrow> sched_inv s \<Longrightarrow> sched_inv t"
proof (induction rule: sched_step.induct)
  case (step_watchdog s pick now)
  then show ?case by (intro sched_inv_view) (simp_all add: watchdog_tick_def Let_def)
next
  case (step_ack s r')
  then show ?case using pending_step_view by (intro sched_inv_view) simp_all
next
  case (step_answers s answers errs now)
  then show ?case by (intro sched_inv_view) (simp_all add: same_queues_def frame_def)
qed (simp_all add: inv_notice inv_sync inv_sync_finish inv_receive inv_pull_begin inv_pull_end inv_take
    inv_job_skip inv_job_start inv_job_end inv_finalize inv_foreign_job inv_queue_budget inv_supersede
    inv_close sched_inv_view)

section \<open>Start\<close>

lemma mustNewByteBudget_ok:
  assumes "0 \<le> n" and "in_int64 n"
  shows "opt_ok (mustNewByteBudget n) \<and> Used (mustNewByteBudget n) = 0 \<and> Limit (mustNewByteBudget n) = n"
proof -
  obtain b where "newByteBudget n = Inr b" "budget_ok b" "bb_used b = 0" "bb_limit b = n"
    using newByteBudget_ok [OF assms] by blast
  then show ?thesis by (simp add: mustNewByteBudget_def Used_def Limit_def)
qed

lemma dial_run_ok:
  assumes "opt_ok (processQueueBudget c)"
  shows "sched_ok 0 (dial_run c now)"
proof -
  have b: "opt_ok (mustNewByteBudget connectionQueueBudgetBytes)" "Used (mustNewByteBudget connectionQueueBudgetBytes) = 0"
    "Limit (mustNewByteBudget connectionQueueBudgetBytes) = connectionQueueBudgetBytes"
    using mustNewByteBudget_ok [of connectionQueueBudgetBytes]
    by (simp_all add: connectionQueueBudgetBytes_def in_int64_def maxInt64_def)
  have u: "0 \<le> Used (processQueueBudget c)" using assms shared_budget.bounds by blast
  have v: "tracked (dial_run c now) = []" "addrs (dial_run c now) = []"
    by (simp_all add: addrs_def tracked_def dial_run_def clientShared.defs)
  show ?thesis
    unfolding sched_ok_def map_ok_def phase_ok_def charge_ok_def chan_ok_def v
    using b u assms by (simp add: ring_ok_new dial_run_def clientShared.defs count_if_def)
qed

lemma sched_inv_start:
  assumes "sched_start s"
  shows "sched_inv s"
proof -
  obtain c now where r: "sd_run s = dial_run c now" and p: "opt_ok (processQueueBudget c)"
    and rd: "sd_reader s = RdIdle" and w: "sd_workers s = replicate 8 WkIdle"
    and b: "list_all (\<lambda>job. \<not> own_job (sd_run s) job) (cl_batches c)"
    and j: "list_all (\<lambda>(job, b). \<not> own_job (sd_run s) job \<and> \<not> b) (sd_jobs s)"
    using assms by (auto simp: sched_start_def)
  have v: "tracked (dial_run c now) = []" "addrs (dial_run c now) = []" "\<not> rn_finalized (dial_run c now)"
    "rn_generation (dial_run c now) = cl_generation (dial_run c now)" "cl_batches (dial_run c now) = cl_batches c"
    by (simp_all add: addrs_def tracked_def dial_run_def clientShared.defs)
  have nb: "filter_mset (own_job (sd_run s)) (mset (cl_batches c)) = {#}"
    using b by (simp add: list_all_iff)
  have nj: "filter_mset (own_job (sd_run s)) (mset (map fst (sd_jobs s))) = {#}"
    using j by (auto simp: list_all_iff)
  have k: "owned_keys s = {#}" using rd nb nj by (simp add: owned_keys_def r v)
  have "run_ok (sd_run s)" using dial_run_ok [OF p] by (simp add: run_ok_def r v)
  moreover have "pcs_ok s" using w j by (auto simp: pcs_ok_def r v list_all_iff)
  moreover have "live s"
    unfolding live_def k using b j rd by (auto simp: r v processing_keys_def list_all_iff)
  ultimately show ?thesis by (simp add: sched_inv_def)
qed

interpretation queue_system: inductive_invariant sched_start sched_step sched_inv
  by unfold_locales (simp_all add: sched_inv_start sched_inv_step)

end
