(* ===== verification/Queue_Budgets.thy ===== *)
theory Queue_Budgets
  imports Queue_System
begin

text \<open>
  The two byte budgets of the queues: the connection's own, and the one all connections of the process
  share.  Every step of a connection charges both by the same amount or neither, so that what the rest of
  the process holds of the shared budget never changes by a step of this connection.
\<close>

section \<open>Operations that leave the budgets alone\<close>

definition queue_budgets :: "connectionRun \<Rightarrow> byteBudget option \<times> byteBudget option" where
  "queue_budgets r = (rn_queueBudget r, processQueueBudget r)"

lemma queue_budgets_upd [simp]:
  "queue_budgets (upd_obj a f r) = queue_budgets r" "queue_budgets (hit_capacity r) = queue_budgets r"
  "queue_budgets (add_active n r) = queue_budgets r" "queue_budgets (run_fail e r) = queue_budgets r"
  "queue_budgets (r\<lparr>rn_pullRequests := x\<rparr>) = queue_budgets r" "queue_budgets (r\<lparr>rn_deferred := y\<rparr>) = queue_budgets r"
  "queue_budgets (r\<lparr>rn_queues := z\<rparr>) = queue_budgets r" "queue_budgets (r\<lparr>rn_objs := os\<rparr>) = queue_budgets r"
  "queue_budgets (r\<lparr>cl_batches := bs\<rparr>) = queue_budgets r" "queue_budgets (set_batch_budgets c p r) = queue_budgets r"
  "queue_budgets (r\<lparr>cl_clientBatchRejects := u\<rparr>) = queue_budgets r"
  "queue_budgets (r\<lparr>cl_processBatchRejects := u\<rparr>) = queue_budgets r"
  "queue_budgets (resetProcessing k a r) = queue_budgets r"
  "queue_budgets (r\<lparr>cl_generation := g\<rparr>) = queue_budgets r"
  "queue_budgets (r\<lparr>cl_lifetimeDone := d\<rparr>) = queue_budgets r"
  "queue_budgets (r\<lparr>rn_provision := ps, rn_logout := ls, rn_lastPong := now\<rparr>) = queue_budgets r"
  by (simp_all add: queue_budgets_def hit_capacity_def add_active_def run_fail_eq set_batch_budgets_def
      resetProcessing_def upd_obj_def)

lemma queue_budgets_release [simp]:
  "queue_budgets (release_reservation res r) = queue_budgets r" "queue_budgets (job_release job r) = queue_budgets r"
  by (simp_all add: release_reservation_def job_release_def split: prod.split option.split)

lemma queue_budgets_enqueue [simp]: "queue_budgets (snd (enqueuePullLocked q r)) = queue_budgets r"
  by (simp add: enqueuePullLocked_def Let_def split: option.split)

lemma queue_budgets_activate [simp]: "queue_budgets (snd (activateOrDeferLocked a r)) = queue_budgets r"
  by (simp add: activateOrDeferLocked_def Let_def split: prod.split)

lemma queue_budgets_promote [simp]: "queue_budgets (snd (promoteDeferredLocked r)) = queue_budgets r"
proof (induction r rule: promoteDeferredLocked.induct)
  case (1 r)
  then show ?case by (subst promoteDeferredLocked.simps) (simp add: Let_def split: prod.split option.split)
qed

lemma queue_budgets_scheduled [simp]:
  "queue_budgets (case x of (None, r1) \<Rightarrow> r1 | (Some e, r1) \<Rightarrow> run_fail (Some e) (hit_capacity r1)) = queue_budgets (snd x)"
  by (simp split: prod.split option.split)

lemma queue_budgets_batch [simp]:
  "queue_budgets (snd (handleBatch_begin d r)) = queue_budgets r"
  "queue_budgets (handleBatch_finish pd d k a r) = queue_budgets r"
  "queue_budgets (processBatch_advance k d r) = queue_budgets r"
  by (simp_all add: handleBatch_begin_def handleBatch_enter_def handleBatch_finish_def processBatch_advance_def Let_def
      split: option.split sum.split prod.split batchBudgetScope.split)

lemma queue_budgets_pull [simp]:
  "queue_budgets (snd (executePull_begin a r)) = queue_budgets r"
  "queue_budgets (executePull_end a t e now r) = queue_budgets r"
  "queue_budgets (watchdog_tick pick timeout now r) = queue_budgets r"
  by (simp_all add: executePull_begin_def executePull_end_def watchdog_tick_def Let_def split: option.split)

lemma queue_budgets_receive: "pull_receive r = Some (a, r') \<Longrightarrow> queue_budgets r' = queue_budgets r"
  by (auto simp: pull_receive_def split: option.splits list.splits)

section \<open>What the rest of the process holds\<close>

definition others_charge :: "connectionRun \<Rightarrow> int64" where
  "others_charge r = Used (processQueueBudget r) - Used (rn_queueBudget r)"

definition others_kept :: "connectionRun \<Rightarrow> connectionRun \<Rightarrow> bool" where
  "others_kept r r' \<longleftrightarrow> others_charge r' = others_charge r \<and> Limit (processQueueBudget r') = Limit (processQueueBudget r)"

lemma others_kept_same: "queue_budgets r' = queue_budgets r \<Longrightarrow> others_kept r r'"
  by (simp add: others_kept_def others_charge_def queue_budgets_def)

lemma others_kept_cong: "queue_budgets r2 = queue_budgets r1 \<Longrightarrow> others_kept r r1 \<Longrightarrow> others_kept r r2"
  by (simp add: others_kept_def others_charge_def queue_budgets_def)

lemma reserve_others:
  assumes ok: "sched_ok s r" and e: "reserveQueueLocked w r = (res, r1)"
  shows "others_kept r r1"
proof (rule reserve_cases [OF ok, of w])
  fix l p
  assume "reserveQueueLocked w r = (Inr True, r\<lparr>rn_queueBudget := l, processQueueBudget := p\<rparr>)"
    "Used l = Used (rn_queueBudget r) + w" "Used p = Used (processQueueBudget r) + w" "Limit p = Limit (processQueueBudget r)"
  with e show ?thesis by (auto simp: others_kept_def others_charge_def)
next
  fix res' l p
  assume "reserveQueueLocked w r = (res', r\<lparr>rn_queueBudget := l, processQueueBudget := p\<rparr>)"
    "Used l = Used (rn_queueBudget r)" "p = processQueueBudget r"
  with e show ?thesis by (auto simp: others_kept_def others_charge_def)
qed

lemma startQueue_known_others:
  assumes ok: "sched_ok 0 r"
  shows "others_kept r (startQueue_known a j r)"
proof -
  define D where "D = wrap64 (queueRetainedWeight \<lparr>jid_AppKey = qk_appKey (qs_identity (qobj r a)),
      jid_Name = qk_name (qs_identity (qobj r a)), jid_Domain = qk_domain (qs_identity (qobj r a)),
      jid_ClientResource = jid_ClientResource j\<rparr> - qs_weight (qobj r a))"
  obtain res r1 where R: "reserveQueueLocked D r = (res, r1)" by fastforce
  have k: "others_kept r r1" using reserve_others [OF ok R] .
  have tail: "queue_budgets (snd (case ph of
            queueIdle \<Rightarrow> activateOrDeferLocked a r3 | queueDeferred \<Rightarrow> (None, r3)
          | queueActive \<Rightarrow> (None, upd_obj a (\<lambda>q. q\<lparr>qs_noticePending := True\<rparr>) r3))) = queue_budgets r3" for r3 ph
    by (simp split: queuePhase.split)
  have "queue_budgets (startQueue_known a j r) = queue_budgets r1 \<or> queue_budgets (startQueue_known a j r) = queue_budgets r"
    unfolding startQueue_known_def using R
    by (cases res) (simp_all add: Let_def tail D_def [symmetric] split: bool.split)
  then show ?thesis using k by (auto intro: others_kept_cong others_kept_same)
qed

lemma startQueue_new_others:
  assumes ok: "sched_ok 0 r"
  shows "others_kept r (startQueue_new j r)"
proof (rule reserve_cases [OF ok, of "queueRetainedWeight j"])
  fix res l p
  assume "reserveQueueLocked (queueRetainedWeight j) r = (res, r\<lparr>rn_queueBudget := l, processQueueBudget := p\<rparr>)"
    and "res \<noteq> Inr True" and "Used l = Used (rn_queueBudget r)" "p = processQueueBudget r"
  then show ?thesis
    by (cases res) (auto simp: startQueue_new_def Let_def others_kept_def others_charge_def hit_capacity_def run_fail_eq
        split: bool.splits)
next
  fix l p
  let ?w = "queueRetainedWeight j" and ?r1 = "r\<lparr>rn_queueBudget := l, processQueueBudget := p\<rparr>"
  assume g: "reserveQueueLocked ?w r = (Inr True, ?r1)" "0 < ?w"
    and l: "opt_ok l" "Used l = Used (rn_queueBudget r) + ?w"
    and p: "opt_ok p" "Used p = Used (processQueueBudget r) + ?w" "Limit p = Limit (processQueueBudget r)"
  have c: "opt_ok (rn_queueBudget r)" "opt_ok (processQueueBudget r)" using ok by (simp_all add: sched_ok_def charge_ok_def)
  then have nn: "0 \<le> Used (rn_queueBudget r)" "0 \<le> Used (processQueueBudget r)" using shared_budget.bounds by blast+
  obtain l2 where l2: "Release l ?w = (None, l2)" "Used l2 = Used (rn_queueBudget r)"
    using shared_budget.release_charged [OF l(1) g(2)] nn l by auto
  obtain p2 where p2: "Release p ?w = (None, p2)" "Used p2 = Used (processQueueBudget r)" "Limit p2 = Limit (processQueueBudget r)"
    using shared_budget.release_charged [OF p(1) g(2)] nn p by auto
  define q where "q = \<lparr>qs_identity = newQueueKey j, qs_jid = j, qs_key = 0, qs_phase = queueIdle,
    qs_processing = False, qs_noticePending = False, qs_pullQueued = False,
    qs_pullInFlight = False, qs_pullSentAt = None, qs_weight = ?w\<rparr>"
  define r1 where "r1 = ?r1"
  define r2 where "r2 = r1\<lparr>rn_objs := rn_objs r1 @ [q],
    rn_queues := Some (AList.update (newQueueKey j) (length (rn_objs r1)) (tracked r1))\<rparr>"
  have R: "reserveQueueLocked ?w r = (Inr True, r1)" using g(1) by (simp add: r1_def)
  obtain err r3 where A: "activateOrDeferLocked (length (rn_objs r1)) r2 = (err, r3)" by fastforce
  have b3: "rn_queueBudget r3 = l" "processQueueBudget r3 = p"
    using queue_budgets_activate [of "length (rn_objs r1)" r2] A by (simp_all add: queue_budgets_def r2_def r1_def)
  have keep: "others_kept r x" if "rn_queueBudget x = l \<and> processQueueBudget x = p
      \<or> rn_queueBudget x = l2 \<and> processQueueBudget x = p2" for x
    using that l p l2 p2 by (auto simp: others_kept_def others_charge_def)
  have rf: "rn_queueBudget (run_fail e x) = rn_queueBudget x" "processQueueBudget (run_fail e x) = processQueueBudget x"
    "rn_queueBudget (hit_capacity x) = rn_queueBudget x" "processQueueBudget (hit_capacity x) = processQueueBudget x"
    "rn_queueBudget (add_active n x) = rn_queueBudget x" "processQueueBudget (add_active n x) = processQueueBudget x" for e x n
    by (simp_all add: run_fail_eq hit_capacity_def add_active_def)
  show ?thesis
    by (rule keep) (cases err, simp_all add: startQueue_new_def R A Let_def q_def [symmetric] r2_def [symmetric] b3 rf l2 p2)
qed

lemma startQueue_others:
  assumes ok: "sched_ok 0 r"
  shows "others_kept r (startQueue j r)"
  using startQueue_known_others [OF ok] startQueue_new_others [OF ok]
  by (simp add: startQueue_def ensure_id [OF ok] Let_def others_kept_same split: option.split)

lemma finalizeQueues_others:
  assumes ok: "sched_ok 0 r" and "\<not> rn_finalized r"
  shows "others_kept r (finalizeQueues r)"
proof -
  have c: "charge_ok r" using ok by (simp add: sched_ok_def)
  have w: "tracked_weight r = Used (rn_queueBudget r)" using ok by (rule tracked_weight_sum)
  have "Limit (processQueueBudget (finalizeQueues r)) = Limit (processQueueBudget r)"
  proof (cases "Used (rn_queueBudget r) = 0")
    case False
    have "0 \<le> Used (rn_queueBudget r)" using c shared_budget.bounds unfolding charge_ok_def by blast
    then obtain p where "Release (processQueueBudget r) (Used (rn_queueBudget r)) = (None, p)"
      "Limit p = Limit (processQueueBudget r)"
      using c False shared_budget.release_charged [of "processQueueBudget r" "Used (rn_queueBudget r)"]
      unfolding charge_ok_def by auto
    then show ?thesis using False assms(2) by (simp add: finalizeQueues_def w Let_def)
  qed (simp add: finalizeQueues_def w Let_def)
  then show ?thesis
    using finalizeQueues_fin [OF assms] by (simp add: others_kept_def others_charge_def fin_ok_def)
qed

lemma pending_budgets: "pending_step r r' \<Longrightarrow> queue_budgets r' = queue_budgets r"
  using pending_step_view [of r r'] by (simp add: queue_budgets_def same_queues_def)

section \<open>The steps of a connection\<close>

text \<open>
  Every step of the connection leaves what the others hold, and the limit, as they are; the one step that
  does not is the step of the others, which changes nothing else.
\<close>

lemma sched_step_others:
  "sched_step s t \<Longrightarrow> sched_inv s \<Longrightarrow>
     others_kept (sd_run s) (sd_run t)
     \<or> (\<exists>p. t = s\<lparr>sd_run := (sd_run s)\<lparr>processQueueBudget := p\<rparr>\<rparr> \<and> Limit p = Limit (processQueueBudget (sd_run s)))"
proof (induction rule: sched_step.induct)
  case (step_notice s j)
  then show ?case by (simp add: sched_inv_def run_ok_def startQueue_others)
next
  case (step_finalize s)
  then show ?case by (simp add: sched_inv_def run_ok_def finalizeQueues_others)
next
  case (step_sync s d res r')
  then have "queue_budgets r' = queue_budgets (sd_run s)" using queue_budgets_batch(1) [of d "sd_run s"] by simp
  then show ?case by (simp add: others_kept_same)
next
  case (step_pull_begin i s a res r')
  then have "queue_budgets r' = queue_budgets (sd_run s)" using queue_budgets_pull(1) [of a "sd_run s"] by simp
  then show ?case by (simp add: others_kept_same)
next
  case (step_queue_budget p s)
  then show ?case by blast
qed (simp_all add: others_kept_same queue_budgets_receive pending_budgets)

lemma process_limit:
  "reachable sched_start sched_step s \<Longrightarrow> Limit (processQueueBudget (sd_run s)) = processQueueBudgetBytes"
proof (induction rule: reachable.induct)
  case (reachable_start s)
  then show ?case by (auto simp: sched_start_def dial_run_def clientShared.defs)
next
  case (reachable_step s t)
  then show ?case using sched_step_others queue_system.inv_reachable
    by (fastforce simp: others_kept_def)
qed

end
