(* ===== verification/Queue_Properties.thy ===== *)
theory Queue_Properties
  imports Queue_Budgets
begin

text \<open>
  What the queue scheduler guarantees, drawn from the invariant of \<open>Queue_System\<close>: accounting, progress,
  the bound of the deferred ring, the return of all bytes at the end, and the behaviour of single
  operations on the branches that matter.
\<close>

section \<open>A concrete connection\<close>

definition exampleQueue :: JID where
  "exampleQueue = \<lparr>jid_AppKey = ''org#app'', jid_Name = ''bob'', jid_Domain = ''easemob.com'',
     jid_ClientResource = ''mobile''\<rparr>"

definition exampleDialed :: connectionRun where
  "exampleDialed = dial_run idleClient 0"

definition exampleNoticed :: connectionRun where
  "exampleNoticed = startQueue exampleQueue exampleDialed"

definition exampleStart :: sched where
  "exampleStart = \<lparr>sd_run = exampleDialed, sd_reader = RdIdle, sd_workers = replicate 8 WkIdle, sd_jobs = []\<rparr>"

lemma exampleDialed_ok: "sched_ok 0 exampleDialed"
proof -
  have "opt_ok (processQueueBudget idleClient)"
    using mustNewByteBudget_ok [of processQueueBudgetBytes]
    by (simp add: idleClient_def processQueueBudgetBytes_def in_int64_def maxInt64_def)
  then show ?thesis unfolding exampleDialed_def by (rule dial_run_ok)
qed

lemma exampleStart_ok: "sched_start exampleStart"
proof -
  have "opt_ok (processQueueBudget idleClient)" "Limit (processQueueBudget idleClient) = processQueueBudgetBytes"
    using mustNewByteBudget_ok [of processQueueBudgetBytes]
    by (simp_all add: idleClient_def processQueueBudgetBytes_def in_int64_def maxInt64_def)
  then show ?thesis
    unfolding sched_start_def exampleStart_def exampleDialed_def
    by (intro exI [of _ idleClient] exI [of _ 0]) (simp add: idleClient_def)
qed

lemma exampleReachable: "reachable sched_start sched_step (exampleStart\<lparr>sd_run := exampleNoticed\<rparr>)"
proof (rule reachable_step)
  show "reachable sched_start sched_step exampleStart" using exampleStart_ok by (rule reachable_start)
  have "\<not> rn_finalized exampleDialed" by (simp add: exampleDialed_def dial_run_def clientShared.defs)
  then show "sched_step exampleStart (exampleStart\<lparr>sd_run := exampleNoticed\<rparr>)"
    using step_notice [of exampleStart exampleQueue] by (simp add: exampleStart_def exampleNoticed_def)
qed

lemma reserve_fits:
  assumes ok: "sched_ok s r" and "0 < w" and "w \<le> Limit (rn_queueBudget r) - Used (rn_queueBudget r)"
    and "w \<le> Limit (processQueueBudget r) - Used (processQueueBudget r)"
  shows "fst (reserveQueueLocked w r) = Inr True"
proof -
  have "opt_ok (rn_queueBudget r)" "opt_ok (processQueueBudget r)"
    using ok by (simp_all add: sched_ok_def charge_ok_def)
  then have "fst (TryAcquire (rn_queueBudget r) w) = Inr True" "fst (TryAcquire (processQueueBudget r) w) = Inr True"
    using assms by (auto intro: shared_budget.acquire_fits)
  then obtain l p where "TryAcquire (rn_queueBudget r) w = (Inr True, l)" "TryAcquire (processQueueBudget r) w = (Inr True, p)"
    by (metis prod.collapse)
  then show ?thesis by (simp add: reserveQueueLocked_def ensure_id [OF ok] Let_def)
qed

lemma exampleDialed_eval:
  "rn_objs exampleDialed = []" "tracked exampleDialed = []" "rn_pullRequests exampleDialed = Some []"
  "rn_activeQueues exampleDialed = 0" "\<not> rn_done exampleDialed" "\<not> rn_finalized exampleDialed"
  "\<not> cl_lifetimeDone exampleDialed" "Used (rn_queueBudget exampleDialed) = 0"
  "Limit (rn_queueBudget exampleDialed) = 4194304" "Used (processQueueBudget exampleDialed) = 0"
  "Limit (processQueueBudget exampleDialed) = 67108864"
  using mustNewByteBudget_ok [of processQueueBudgetBytes] mustNewByteBudget_ok [of connectionQueueBudgetBytes]
  by (simp_all add: exampleDialed_def tracked_def dial_run_def clientShared.defs idleClient_def
      processQueueBudgetBytes_def connectionQueueBudgetBytes_def in_int64_def maxInt64_def)

lemma exampleNoticed_form:
  "\<exists>l p. Used l = 2048 \<and> exampleNoticed = exampleDialed\<lparr>rn_queueBudget := l, processQueueBudget := p,
     rn_objs := [\<lparr>qs_identity = newQueueKey exampleQueue, qs_jid = exampleQueue, qs_key = 0,
       qs_phase = queueActive, qs_processing = False, qs_noticePending = False, qs_pullQueued = True,
       qs_pullInFlight = False, qs_pullSentAt = None, qs_weight = 2048\<rparr>],
     rn_queues := Some [(newQueueKey exampleQueue, 0)], rn_activeQueues := 1, rn_pullRequests := Some [0]\<rparr>"
proof -
  have w: "queueRetainedWeight exampleQueue = 2048" by code_simp
  have v: "validateQueueJID exampleQueue = None" by (simp add: validateQueueJID_bound exampleQueue_def)
  have fits: "fst (reserveQueueLocked 2048 exampleDialed) = Inr True"
    by (rule reserve_fits [OF exampleDialed_ok]) (simp_all add: exampleDialed_eval)
  have "\<exists>l p. reserveQueueLocked 2048 exampleDialed =
      (Inr True, exampleDialed\<lparr>rn_queueBudget := l, processQueueBudget := p\<rparr>) \<and> Used l = 2048"
  proof (rule reserve_cases [OF exampleDialed_ok, of 2048])
    fix l p
    assume "reserveQueueLocked 2048 exampleDialed =
      (Inr True, exampleDialed\<lparr>rn_queueBudget := l, processQueueBudget := p\<rparr>)"
      and "Used l = Used (rn_queueBudget exampleDialed) + 2048"
    then show ?thesis by (auto simp: exampleDialed_eval)
  qed (use fits in simp_all)
  then obtain l p where g: "reserveQueueLocked 2048 exampleDialed =
      (Inr True, exampleDialed\<lparr>rn_queueBudget := l, processQueueBudget := p\<rparr>)" and u: "Used l = 2048"
    by blast
  have "exampleNoticed = exampleDialed\<lparr>rn_queueBudget := l, processQueueBudget := p,
     rn_objs := [\<lparr>qs_identity = newQueueKey exampleQueue, qs_jid = exampleQueue, qs_key = 0,
       qs_phase = queueActive, qs_processing = False, qs_noticePending = False, qs_pullQueued = True,
       qs_pullInFlight = False, qs_pullSentAt = None, qs_weight = 2048\<rparr>],
     rn_queues := Some [(newQueueKey exampleQueue, 0)], rn_activeQueues := 1, rn_pullRequests := Some [0]\<rparr>"
    unfolding exampleNoticed_def
    by (simp add: startQueue_def v ensure_id [OF exampleDialed_ok] queue_lookup_def exampleDialed_eval
        startQueue_new_def w g Let_def activateOrDeferLocked_def add_active_def upd_obj_def enqueuePullLocked_def
        qobj_def)
  with u show ?thesis by blast
qed

lemma exampleNoticed_eval:
  "tracked exampleNoticed = [(newQueueKey exampleQueue, 0)]" "rn_pullRequests exampleNoticed = Some [0]"
  "qs_phase (qobj exampleNoticed 0) = queueActive" "qs_pullQueued (qobj exampleNoticed 0)"
  "\<not> qs_processing (qobj exampleNoticed 0)" "\<not> rn_done exampleNoticed" "\<not> rn_finalized exampleNoticed"
  "\<not> cl_lifetimeDone exampleNoticed" "rn_activeQueues exampleNoticed = 1"
  "Used (rn_queueBudget exampleNoticed) = 2048" "addrs exampleNoticed = [0]"
proof -
  obtain l p where u: "Used l = 2048" and e: "exampleNoticed = exampleDialed\<lparr>rn_queueBudget := l, processQueueBudget := p,
     rn_objs := [\<lparr>qs_identity = newQueueKey exampleQueue, qs_jid = exampleQueue, qs_key = 0,
       qs_phase = queueActive, qs_processing = False, qs_noticePending = False, qs_pullQueued = True,
       qs_pullInFlight = False, qs_pullSentAt = None, qs_weight = 2048\<rparr>],
     rn_queues := Some [(newQueueKey exampleQueue, 0)], rn_activeQueues := 1, rn_pullRequests := Some [0]\<rparr>"
    using exampleNoticed_form by blast
  show "tracked exampleNoticed = [(newQueueKey exampleQueue, 0)]" "rn_pullRequests exampleNoticed = Some [0]"
    "qs_phase (qobj exampleNoticed 0) = queueActive" "qs_pullQueued (qobj exampleNoticed 0)"
    "\<not> qs_processing (qobj exampleNoticed 0)" "\<not> rn_done exampleNoticed" "\<not> rn_finalized exampleNoticed"
    "\<not> cl_lifetimeDone exampleNoticed" "rn_activeQueues exampleNoticed = 1"
    "Used (rn_queueBudget exampleNoticed) = 2048" "addrs exampleNoticed = [0]"
    using u by (simp_all add: e tracked_def qobj_def addrs_def exampleDialed_eval)
qed

section \<open>Properties\<close>

lemma finalized_empty: "rn_queues r = None \<Longrightarrow> addrs r = []"
  by (simp add: addrs_def tracked_def)

text \<open>
  A finished connection gives everything back: \<open>finalizeQueues\<close> brings the connection's budget to zero
  and takes exactly the connection's charge off the process budget; a second call changes nothing.
\<close>

lemma finalize_returns_all_bytes:
  assumes "run_ok r"
  shows "Used (rn_queueBudget (finalizeQueues r)) = 0
     \<and> Used (processQueueBudget (finalizeQueues r)) = Used (processQueueBudget r) - Used (rn_queueBudget r)
     \<and> finalizeQueues (finalizeQueues r) = finalizeQueues r"
proof (cases "rn_finalized r")
  case True
  then have "finalizeQueues r = r" by (simp add: finalizeQueues_def)
  with assms True show ?thesis by (simp add: run_ok_def fin_ok_def)
next
  case False
  then have "sched_ok 0 r" using assms by (simp add: run_ok_def)
  from finalizeQueues_fin [OF this False] have f: "fin_ok (finalizeQueues r)" "rn_finalized (finalizeQueues r)"
    "Used (processQueueBudget (finalizeQueues r)) = Used (processQueueBudget r) - Used (rn_queueBudget r)" by simp_all
  moreover have "finalizeQueues (finalizeQueues r) = finalizeQueues r" using f(2) by (subst finalizeQueues_def) simp
  ultimately show ?thesis by (simp add: fin_ok_def)
qed

text \<open>The accounting of the connection itself, before and after its end.\<close>

definition accounts :: "connectionRun \<Rightarrow> bool" where
  "accounts r \<longleftrightarrow>
     rn_activeQueues r = int (length (filter (\<lambda>a. qs_phase (qobj r a) = queueActive) (addrs r)))
     \<and> rn_activeQueues r \<le> 256
     \<and> distinct (ring_contents (rn_deferred r))
     \<and> set (ring_contents (rn_deferred r)) = {a \<in> set (addrs r). qs_phase (qobj r a) = queueDeferred}
     \<and> (ring_contents (rn_deferred r) = [] \<or> rn_activeQueues r = 256)
     \<and> Used (rn_queueBudget r) = sum_list (map (\<lambda>a. qs_weight (qobj r a)) (addrs r))
     \<and> Used (rn_queueBudget r) \<le> 4194304 \<and> length (addrs r) \<le> 4096
     \<and> Used (rn_queueBudget r) \<le> Used (processQueueBudget r)"

lemma run_ok_accounts:
  assumes "run_ok r"
  shows "accounts r"
proof (cases "rn_finalized r")
  case True
  then have f: "fin_ok r" using assms by (simp add: run_ok_def)
  then have "0 \<le> Used (processQueueBudget r)" using shared_budget.bounds unfolding fin_ok_def by blast
  with f show ?thesis by (simp add: accounts_def fin_ok_def finalized_empty)
next
  case False
  then have ok: "sched_ok 0 r" using assms by (simp add: run_ok_def)
  have n: "count_if P xs = int (length (filter P xs))" for P and xs :: "nat list"
    by (induction xs) (simp_all add: count_if_def)
  have p: "phase_ok 0 r" and c: "charge_ok r" using ok by (simp_all add: sched_ok_def)
  have u: "Used (rn_queueBudget r) \<le> Limit (rn_queueBudget r)"
    using c shared_budget.bounds unfolding charge_ok_def by blast
  have l: "length (addrs r) \<le> 4096"
    using tracked_bound [OF ok] by (simp add: maxTrackedQueues_def connectionQueueBudgetBytes_def)
  show ?thesis
    using p c u l unfolding accounts_def phase_ok_def charge_ok_def n is_phase_def weight_at_def
    by (auto simp: connectionQueueBudgetBytes_def weight_at_def [abs_def])
qed

text \<open>
  C6.  Queue accounting.  In every reachable state of a connection, finalized or not: the active counter
  is exactly the number of active queues and at most 256; the deferred ring holds exactly the deferred
  queues, each once, and is used only while all 256 slots are taken; the connection's budget is charged
  with exactly the weights of the tracked queues, and at most 4096 queues and 4 MiB are tracked.  A
  finalized connection tracks nothing and is charged nothing.  The process budget, which the connection
  shares with all others, holds at least the connection's charge and at most 64 MiB; no step of the
  connection changes what the others hold of it, so the connection's share in it is exactly its own
  charge; and \<open>finalizeQueues\<close> takes exactly that charge off both budgets, once.
\<close>

theorem queue_accounting:
  assumes "reachable sched_start sched_step s"
  shows "let r = sd_run s; phase = (\<lambda>a. qs_phase (qobj r a)); fin = finalizeQueues r in
     rn_activeQueues r = int (length (filter (\<lambda>a. phase a = queueActive) (addrs r)))
     \<and> rn_activeQueues r \<le> 256
     \<and> distinct (ring_contents (rn_deferred r))
     \<and> set (ring_contents (rn_deferred r)) = {a \<in> set (addrs r). phase a = queueDeferred}
     \<and> (ring_contents (rn_deferred r) = [] \<or> rn_activeQueues r = 256)
     \<and> Used (rn_queueBudget r) = sum_list (map (\<lambda>a. qs_weight (qobj r a)) (addrs r))
     \<and> Used (rn_queueBudget r) \<le> 4194304 \<and> length (addrs r) \<le> 4096
     \<and> (rn_finalized r \<longrightarrow> rn_queues r = None \<and> rn_activeQueues r = 0 \<and> ring_contents (rn_deferred r) = []
          \<and> Used (rn_queueBudget r) = 0)
     \<and> Used (rn_queueBudget r) \<le> Used (processQueueBudget r) \<and> Used (processQueueBudget r) \<le> 67108864
     \<and> (\<forall>t. sched_step s t \<longrightarrow>
          Used (processQueueBudget (sd_run t)) - Used (rn_queueBudget (sd_run t))
            = Used (processQueueBudget r) - Used (rn_queueBudget r)
          \<or> (\<exists>p. t = s\<lparr>sd_run := r\<lparr>processQueueBudget := p\<rparr>\<rparr>))
     \<and> Used (rn_queueBudget fin) = 0
     \<and> Used (processQueueBudget fin) = Used (processQueueBudget r) - Used (rn_queueBudget r)
     \<and> finalizeQueues fin = fin"
proof -
  let ?r = "sd_run s"
  have i: "sched_inv s" using assms by (rule queue_system.inv_reachable)
  then have ok: "run_ok ?r" by (simp add: sched_inv_def)
  have "opt_ok (processQueueBudget ?r)"
    using ok by (auto simp: run_ok_def fin_ok_def sched_ok_def charge_ok_def split: if_splits)
  then have "Used (processQueueBudget ?r) \<le> 67108864"
    using shared_budget.bounds process_limit [OF assms] by (fastforce simp: processQueueBudgetBytes_def)
  moreover have "\<forall>t. sched_step s t \<longrightarrow> others_charge (sd_run t) = others_charge ?r
      \<or> (\<exists>p. t = s\<lparr>sd_run := ?r\<lparr>processQueueBudget := p\<rparr>\<rparr>)"
    using sched_step_others i by (fastforce simp: others_kept_def)
  moreover have "rn_finalized ?r \<longrightarrow> rn_queues ?r = None \<and> rn_activeQueues ?r = 0 \<and> ring_contents (rn_deferred ?r) = []
      \<and> Used (rn_queueBudget ?r) = 0"
    using ok by (auto simp: run_ok_def fin_ok_def)
  ultimately show ?thesis
    using run_ok_accounts [OF ok] finalize_returns_all_bytes [OF ok]
    unfolding accounts_def others_charge_def Let_def by blast
qed

theorem queue_accounting_witness:
  "rn_activeQueues exampleNoticed = int (length (filter (\<lambda>a. qs_phase (qobj exampleNoticed a) = queueActive) (addrs exampleNoticed)))
   \<and> addrs exampleNoticed = [0] \<and> Used (rn_queueBudget exampleNoticed) = 2048
   \<and> Used (rn_queueBudget exampleNoticed) \<le> Used (processQueueBudget exampleNoticed)
   \<and> Used (processQueueBudget (finalizeQueues exampleNoticed)) = Used (processQueueBudget exampleNoticed) - 2048"
  using queue_accounting [OF exampleReachable] exampleNoticed_eval by (simp add: Let_def)

text \<open>
  C5.  No queue gets stuck.  In every reachable state of a living connection, every active queue is in
  exactly one activity, and somebody will end it: a queue that is being processed is held by the reader
  or by exactly one batch job; a queued pull is in the pull channel or in the hands of a worker; a pull
  in flight is still being sent by a worker, or carries the time it was sent, which the watchdog compares
  with the response timeout.  Queues that are not active have no activity.
\<close>

theorem no_stuck_queue:
  assumes "reachable sched_start sched_step s" and "\<not> rn_done (sd_run s)" and "\<not> cl_lifetimeDone (sd_run s)"
    and "(k, a) \<in> set (tracked (sd_run s))"
  shows "let q = qobj (sd_run s) a in
     (if qs_phase q = queueActive
      then of_bool (qs_processing q) + of_bool (qs_pullQueued q) + of_bool (qs_pullInFlight q) = (1::nat)
      else \<not> qs_processing q \<and> \<not> qs_pullQueued q \<and> \<not> qs_pullInFlight q)
     \<and> count (owned_keys s) k = of_bool (qs_processing q)
     \<and> (qs_pullQueued q \<longrightarrow> a \<in> set (the (rn_pullRequests (sd_run s))) \<or> WkGot a \<in> set (sd_workers s))
     \<and> (qs_pullInFlight q \<longrightarrow> (\<exists>t. WkSending a t \<in> set (sd_workers s)) \<or> qs_pullSentAt q \<noteq> None)"
proof -
  have i: "sched_inv s" using assms(1) by (rule queue_system.inv_reachable)
  then have L: "live s" and m: "map_ok (sd_run s)"
    using assms(2) by (auto simp: sched_inv_def sched_ok_def dest: run_ok_alive)
  have "count (owned_keys s) k = of_bool (qs_processing (qobj (sd_run s) a))"
    using L assms(3) by (simp add: live_def count_mset_set' processing_key_iff [OF m assms(4)])
  moreover have "a \<in> set (addrs (sd_run s))" using assms(4) by (force simp: addrs_def)
  then have "queue_live s a" using L by (simp add: live_def)
  ultimately show ?thesis
    by (simp add: queue_live_def Let_def one_activity_def pull_pending_def pull_sending_def)
qed

theorem no_stuck_queue_witness:
  "let s = exampleStart\<lparr>sd_run := exampleNoticed\<rparr> in
     qs_pullQueued (qobj (sd_run s) 0) \<and> count (owned_keys s) (newQueueKey exampleQueue) = 0
     \<and> (0 \<in> set (the (rn_pullRequests (sd_run s))) \<or> WkGot 0 \<in> set (sd_workers s))"
  using no_stuck_queue [OF exampleReachable, of "newQueueKey exampleQueue" 0] exampleNoticed_eval
  by (simp add: Let_def)

section \<open>Notices and cursors\<close>

lemma enqueue_phase:
  "a < length (rn_objs r) \<Longrightarrow> qs_phase (qobj (snd (enqueuePullLocked (Some a) r)) b) = qs_phase (qobj r b)"
  by (auto simp: enqueuePullLocked_def Let_def split: option.split)

lemma enqueue_tracked [simp]: "tracked (snd (enqueuePullLocked q r)) = tracked r"
  by (auto simp: enqueuePullLocked_def Let_def split: option.split)

lemma activate_not_idle:
  assumes "a < length (rn_objs r)"
  shows "qs_phase (qobj (snd (activateOrDeferLocked a r)) a) \<noteq> queueIdle
    \<and> tracked (snd (activateOrDeferLocked a r)) = tracked r"
  using assms
  by (auto simp: activateOrDeferLocked_def Let_def active_set_phase enqueue_phase split: prod.split)

lemma run_fail_views [simp]:
  "qobj (run_fail e r) = qobj r" "tracked (run_fail e r) = tracked r" "addrs (run_fail e r) = addrs r"
  "qobj (hit_capacity r) = qobj r" "tracked (hit_capacity r) = tracked r"
  using same_queues_views [OF same_queues_fail] same_queues_views [OF same_queues_hit] by simp_all

lemma activate_other:
  "b \<noteq> a \<Longrightarrow> qs_phase (qobj (snd (activateOrDeferLocked a r)) b) = qs_phase (qobj r b)"
  by (auto simp: activateOrDeferLocked_def Let_def enqueuePullLocked_def upd_obj_def qobj_def add_active_def
      split: prod.split option.split)

text \<open>
  A notice on a connection that survives it leaves its queue tracked and not idle, remembers itself on a
  queue that was active already, and takes no other queue out of service.
\<close>

lemma startQueue_serves:
  assumes ok: "sched_ok 0 r" and alive: "\<not> rn_done (startQueue j r)"
  shows "\<exists>a. queue_lookup (startQueue j r) (newQueueKey j) = Some a
    \<and> qs_phase (qobj (startQueue j r) a) \<noteq> queueIdle
    \<and> (\<forall>b. queue_lookup r (newQueueKey j) = Some b \<and> qs_phase (qobj r b) = queueActive
          \<longrightarrow> a = b \<and> qs_noticePending (qobj (startQueue j r) a))
    \<and> (\<forall>k b. queue_lookup r k = Some b \<and> qs_phase (qobj r b) \<noteq> queueIdle
          \<longrightarrow> queue_lookup (startQueue j r) k = Some b \<and> qs_phase (qobj (startQueue j r) b) \<noteq> queueIdle)"
proof -
  let ?k = "newQueueKey j"
  have v: "validateQueueJID j = None" using alive by (auto simp: startQueue_def split: option.splits)
  show ?thesis
  proof (cases "queue_lookup r ?k")
    case (Some a)
    then have st: "startQueue j r = startQueue_known a j r" by (simp add: startQueue_def v ensure_id [OF ok])
    from startQueue_known_cases [OF ok v Some] alive st obtain r' where
      s: "startQueue j r = finish_schedule (known_schedule a r')" and ok': "sched_ok 0 r'" and g: "regrown a r r'"
      by auto
    obtain r4 where r4: "known_schedule a r' = (None, r4)" "startQueue j r = r4"
      using finish_schedule_alive alive unfolding s by blast
    note w = regrown_views [OF g]
    have b: "a < length (rn_objs r')" using ok' lookup_addr [OF Some] w(2) by (simp add: sched_ok_def map_ok_bound)
    have ph: "qs_phase (qobj r a) = qs_phase (qobj r' a)" using regrown_flags [OF g] by (simp add: same_flags_def)
    have t: "tracked r4 = tracked r \<and> qs_phase (qobj r4 a) \<noteq> queueIdle
        \<and> (qs_phase (qobj r' a) = queueActive \<longrightarrow> qs_noticePending (qobj r4 a))"
      using r4(1) b w(1) activate_not_idle [OF b]
      by (auto simp: known_schedule_def split: queuePhase.splits)
    then have "queue_lookup r4 ?k = Some a" using Some by (simp add: queue_lookup_def)
    moreover have "qs_phase (qobj r4 b) = qs_phase (qobj r b)" if "b \<noteq> a" for b
    proof -
      have "qs_phase (qobj r4 b) = qs_phase (qobj r' b)"
        using r4(1) that b activate_other [OF that, of r']
        by (auto simp: known_schedule_def split: queuePhase.splits)
      then show ?thesis using regrown_flags [OF g, of b] by (simp add: same_flags_def)
    qed
    then have "queue_lookup r4 k = Some b \<and> qs_phase (qobj r4 b) \<noteq> queueIdle"
      if "queue_lookup r k = Some b" "qs_phase (qobj r b) \<noteq> queueIdle" for k b
      using that t by (cases "b = a") (simp_all add: queue_lookup_def)
    ultimately show ?thesis using t ph Some unfolding r4(2) by auto
  next
    case None
    then have st: "startQueue j r = startQueue_new j r" by (simp add: startQueue_def v ensure_id [OF ok])
    from startQueue_new_cases [OF ok v None] alive st obtain q l p r2 where
      s: "startQueue j r = snd (activateOrDeferLocked (length (rn_objs r)) r2)"
      and r2: "r2 = r\<lparr>rn_queueBudget := l, processQueueBudget := p, rn_objs := rn_objs r @ [q],
          rn_queues := Some (tracked r @ [(?k, length (rn_objs r))])\<rparr>" by auto
    have "length (rn_objs r) < length (rn_objs r2)" by (simp add: r2)
    note act = activate_not_idle [OF this]
    have "queue_lookup (startQueue j r) k = Some b \<and> qs_phase (qobj (startQueue j r) b) \<noteq> queueIdle"
      if q: "queue_lookup r k = Some b" "qs_phase (qobj r b) \<noteq> queueIdle" for k b
    proof -
      have b: "b < length (rn_objs r)" using ok lookup_addr [OF q(1)] by (simp add: sched_ok_def map_ok_bound)
      then have "qs_phase (qobj (startQueue j r) b) = qs_phase (qobj r b)"
        unfolding s using activate_other [of b "length (rn_objs r)" r2] by (simp add: r2 qobj_def nth_append)
      moreover have "queue_lookup (startQueue j r) k = Some b"
        using act q(1) None unfolding s by (auto simp: queue_lookup_def r2 map_add_def tracked_def split: option.splits)
      ultimately show ?thesis using q(2) by simp
    qed
    moreover from act None have "queue_lookup (startQueue j r) ?k = Some (length (rn_objs r))"
      "qs_phase (qobj (startQueue j r) (length (rn_objs r))) \<noteq> queueIdle"
      unfolding s by (auto simp: queue_lookup_def r2 map_add_def)
    ultimately show ?thesis using None by auto
  qed
qed

text \<open>
  C7.  No notice is lost.  If the connection survives a notice for a queue, the queue is tracked and
  not idle afterwards, so it is active or waits for a slot; if it was already active, the notice is
  remembered and the end of the running batch will pull again.
\<close>

theorem notice_not_lost:
  assumes "reachable sched_start sched_step s" and "\<not> rn_finalized (sd_run s)"
    and "\<not> rn_done (startQueue j (sd_run s))"
  shows "\<exists>a. queue_lookup (startQueue j (sd_run s)) (newQueueKey j) = Some a
    \<and> qs_phase (qobj (startQueue j (sd_run s)) a) \<noteq> queueIdle
    \<and> (\<forall>b. queue_lookup (sd_run s) (newQueueKey j) = Some b \<and> qs_phase (qobj (sd_run s) b) = queueActive
          \<longrightarrow> a = b \<and> qs_noticePending (qobj (startQueue j (sd_run s)) a))"
proof -
  have "sched_ok 0 (sd_run s)"
    using queue_system.inv_reachable [OF assms(1)] assms(2) by (simp add: sched_inv_def run_ok_def)
  from startQueue_serves [OF this assms(3)] show ?thesis by blast
qed

theorem notice_not_lost_witness:
  "\<exists>a. queue_lookup (startQueue exampleQueue exampleDialed) (newQueueKey exampleQueue) = Some a
     \<and> qs_phase (qobj (startQueue exampleQueue exampleDialed) a) \<noteq> queueIdle"
proof -
  have "reachable sched_start sched_step exampleStart" using exampleStart_ok by (rule reachable_start)
  from notice_not_lost [OF this, of exampleQueue] exampleNoticed_eval exampleDialed_eval show ?thesis
    by (auto simp: exampleStart_def exampleNoticed_def)
qed

section \<open>Admission and capacity\<close>

text \<open>A batch that fits both budgets and finds room in the channel is handed over with its reservation.\<close>

lemma handleBatch_finish_success:
  assumes "SyncRetainedWeight (Some d) = Inr w" and "opt_ok (cl_batchBudget r)" and "opt_ok (batch_process_budget r)"
    and "0 < w" and "w \<le> Limit (cl_batchBudget r) - Used (cl_batchBudget r)"
    and "w \<le> Limit (batch_process_budget r) - Used (batch_process_budget r)"
    and "\<not> rn_done r" and "length (cl_batches r) < 256"
  shows "\<exists>c p. handleBatch_finish pd d k a r = (set_batch_budgets c p r)\<lparr>cl_batches := cl_batches r @
     [\<lparr>bj_queue = k, bj_d = d, bj_r = Some (rn_generation r), bj_reservation = Some \<lparr>br_weight = w, br_released = False\<rparr>\<rparr>]\<rparr>"
proof -
  obtain res c p where t: "tryReserveBatchScoped (cl_batchBudget r) (batch_process_budget r) w = (res, c, p)"
    using prod_cases3 by blast
  have ok: "rr_ok res" using tryReserveBatchScoped_accepts [OF assms(2-6)] t by simp
  note g = tryReserveBatchScoped_success [OF assms(2,3) t ok]
  have b: "cl_batches (set_batch_budgets c p r) = cl_batches r" "rn_done (set_batch_budgets c p r) = rn_done r"
    "rn_generation (set_batch_budgets c p r) = rn_generation r" by (simp_all add: set_batch_budgets_def)
  have n: "cl_batchBudget r \<noteq> None" using assms(2) by (auto elim: opt_okE)
  show ?thesis
    using assms(1,7,8) t ok g n
    by (intro exI [of _ c] exI [of _ p]) (auto simp: handleBatch_finish_def Let_def b)
qed

text \<open>
  The deferred ring cannot overflow.  In every reachable state, a tracked idle queue that finds all
  256 slots taken is appended to the ring: the error \<open>deferred queue full\<close> is unreachable, because every
  tracked queue costs at least 1 KiB of the 4 MiB that size the ring.
\<close>

lemma deferred_ring_never_full:
  assumes "reachable sched_start sched_step s" and "\<not> rn_finalized (sd_run s)"
    and "a \<in> set (addrs (sd_run s))" and "qs_phase (qobj (sd_run s) a) = queueIdle"
  shows "fst (activateOrDeferLocked a (sd_run s)) \<noteq>
       Some (newError ErrHandlerBacklog ''queue notice'' ''queue_capacity: deferred queue full'')
    \<and> (256 \<le> rn_activeQueues (sd_run s) \<longrightarrow>
         fst (activateOrDeferLocked a (sd_run s)) = None
         \<and> ring_contents (rn_deferred (snd (activateOrDeferLocked a (sd_run s))))
             = ring_contents (rn_deferred (sd_run s)) @ [a]
         \<and> qs_phase (qobj (snd (activateOrDeferLocked a (sd_run s))) a) = queueDeferred)"
proof -
  have ok: "sched_ok 0 (sd_run s)"
    using queue_system.inv_reachable [OF assms(1)] assms(2) by (simp add: sched_inv_def run_ok_def)
  have b: "a < length (rn_objs (sd_run s))" using ok assms(3) by (simp add: sched_ok_def map_ok_bound)
  note push = defer_push [OF ok assms(3)]
  show ?thesis
  proof (cases "rn_activeQueues (sd_run s) < 256")
    case True
    have "fst (enqueuePullLocked q r) \<noteq>
       Some (newError ErrHandlerBacklog ''queue notice'' ''queue_capacity: deferred queue full'')" for q r
      by (auto simp: enqueuePullLocked_def Let_def newError_def split: option.split)
    with True show ?thesis by (simp add: activateOrDeferLocked_def)
  next
    case False
    then show ?thesis
      using push assms(4) b
      by (cases "ring_Push (rn_deferred (sd_run s)) (Some a)") (simp add: activateOrDeferLocked_def is_phase_def)
  qed
qed

section \<open>Watchdog, cursor, stale pull requests\<close>

text \<open>
  The watchdog finds exactly the stalled pulls: a tick fails the connection with a timeout if and
  only if some tracked queue has a pull in flight whose request was sent more than the timeout ago;
  otherwise it changes nothing.
\<close>

lemma watchdog_detects_stall:
  assumes "\<not> rn_done r"
  shows "(rn_done (watchdog_tick pick timeout now r) \<longleftrightarrow>
       list_ex (\<lambda>(k, a). qs_pullInFlight (qobj r a)
          \<and> (case qs_pullSentAt (qobj r a) of None \<Rightarrow> False | Some t \<Rightarrow> now - t > timeout)) (tracked r))
    \<and> (rn_done (watchdog_tick pick timeout now r) \<longrightarrow>
         errorCode (cl_lastErr (watchdog_tick pick timeout now r)) = Some ErrTimeout)
    \<and> (\<not> rn_done (watchdog_tick pick timeout now r) \<longrightarrow> watchdog_tick pick timeout now r = r)"
proof -
  have e: "filter (stalled timeout now) (map (\<lambda>(k, a). qobj r a) (tracked r)) \<noteq> [] \<longleftrightarrow>
      list_ex (\<lambda>(k, a). stalled timeout now (qobj r a)) (tracked r)"
    by (auto simp: filter_empty_conv list_ex_iff case_prod_unfold)
  have c: "errorCode (classifyNetworkError ''connection'' (Some (newError ErrTimeout op msg))) = Some ErrTimeout" for op msg
    by (simp add: classifyNetworkError_def newError_def)
  show ?thesis
    using assms e unfolding watchdog_tick_def Let_def
    by (auto simp: run_fail_eq c stalled_def)
qed

lemma enqueue_keeps:
  "a < length (rn_objs r) \<Longrightarrow> b < length (rn_objs r) \<Longrightarrow>
   qs_key (qobj (snd (enqueuePullLocked (Some a) r)) b) = qs_key (qobj r b)
   \<and> qs_noticePending (qobj (snd (enqueuePullLocked (Some a) r)) b) = qs_noticePending (qobj r b)"
  by (auto simp: enqueuePullLocked_def Let_def split: option.split)

lemma promote_other:
  assumes ok: "sched_ok 1 r" and a: "\<not> is_phase r queueDeferred a"
  shows "qobj (snd (promoteDeferredLocked r)) a = qobj r a"
proof (cases "rn_activeQueues r < 256 \<and> ring_contents (rn_deferred r) \<noteq> []")
  case True
  define h where "h = hd (ring_contents (rn_deferred r))"
  have hb: "h \<in> {c \<in> set (addrs r). is_phase r queueDeferred c}"
    using ok True by (metis h_def hd_in_set phase_ok_def sched_ok_def)
  then have ha: "h \<noteq> a" using a by auto
  have hl: "h < length (rn_objs r)" using hb ok map_ok_bound [of r h] by (simp add: sched_ok_def)
  have "qobj (snd (enqueuePullLocked (Some h) x)) a = qobj x a" if "h < length (rn_objs x)" for x
    using ha that by (auto simp: enqueuePullLocked_def Let_def split: option.split)
  then show ?thesis
    using True promote_step [OF ok] ha hl by (simp add: h_def [symmetric])
next
  case False
  then show ?thesis using promote_step [OF ok] by auto
qed

lemma finish_schedule_qobj [simp]: "qobj (finish_schedule x) = qobj (snd x)"
  by (cases x) (auto simp: finish_schedule_def split: option.split)

text \<open>
  The end of a batch.  For a queue that is being processed: the cursor moves to \<open>NextKey\<close> unless it
  is zero, which means the tail and keeps the last cursor; at the tail without a pending notice the queue
  becomes idle; otherwise, if the connection survives, the queue stays active with exactly one new pull
  request, and the notice that was remembered is used up.
\<close>

lemma batch_end_moves_on:
  assumes "reachable sched_start sched_step s" and "\<not> rn_done (sd_run s)"
    and "queue_lookup (sd_run s) k = Some a" and "qs_processing (qobj (sd_run s) a)"
    and "r' = processBatch_advance k d (sd_run s)"
  shows "qs_key (qobj r' a) = (if sy_NextKey d = 0 then qs_key (qobj (sd_run s) a) else sy_NextKey d)
    \<and> (if (sy_IsLast d \<or> sy_NextKey d = 0) \<and> \<not> qs_noticePending (qobj (sd_run s) a)
       then qs_phase (qobj r' a) = queueIdle \<and> \<not> qs_pullQueued (qobj r' a)
       else \<not> qs_noticePending (qobj r' a) \<and> qs_phase (qobj r' a) = queueActive
         \<and> (\<not> rn_done r' \<longrightarrow> qs_pullQueued (qobj r' a)
              \<and> rn_pullRequests r' = Some (the (rn_pullRequests (sd_run s)) @ [a])))"
proof -
  let ?r = "sd_run s" and ?r2 = "advanced a d (sd_run s)"
  have i: "sched_inv s" using assms(1) by (rule queue_system.inv_reachable)
  then have L: "live s" and ok: "sched_ok 0 ?r" using assms(2) by (auto simp: sched_inv_def dest: run_ok_alive)
  have aa: "a \<in> set (addrs ?r)" using assms(3) by (rule lookup_addr)
  have b: "a < length (rn_objs ?r)" using ok aa by (simp add: sched_ok_def map_ok_bound)
  have "queue_live s a" using L aa by (simp add: live_def)
  then have q: "qs_phase (qobj ?r a) = queueActive" "\<not> qs_pullQueued (qobj ?r a)" "\<not> qs_pullInFlight (qobj ?r a)"
    using assms(4) by (auto simp: queue_live_def Let_def one_activity_def split: if_splits)
  have gen: "rn_generation ?r = cl_generation ?r" using L by (simp add: live_def)
  note adv = advance_eq [OF assms(3) gen, where d = d]
  note v = advanced_views [OF b, where d = d]
  have key: "qs_key (qobj ?r2 a) = (if sy_NextKey d = 0 then qs_key (qobj ?r a) else sy_NextKey d)"
    and np: "qs_noticePending (qobj ?r2 a) = qs_noticePending (qobj ?r a)"
    using b by (auto simp: advanced_def Let_def)
  show ?thesis
  proof (cases "(sy_IsLast d \<or> sy_NextKey d = 0) \<and> \<not> qs_noticePending (qobj ?r a)")
    case True
    let ?i = "set_phase a queueIdle (rn_deferred ?r2) (rn_activeQueues ?r2 - 1) ?r2"
    have ok2: "sched_ok 0 ?r2" using ok v(10) by simp
    have ad: "addrs ?r2 = addrs ?r" using v(8) by (simp add: addrs_def)
    have ok1: "sched_ok 1 ?i"
      by (rule set_phase_ok [OF ok2])
         (use ok2 ad aa v(2) q in \<open>auto simp: sched_ok_def phase_ok_def is_phase_def\<close>)
    have "qobj (snd (promoteDeferredLocked ?i)) a = qobj ?i a"
      using b v(6) by (intro promote_other [OF ok1]) (simp add: is_phase_def)
    then show ?thesis
      using True adv np key q v b unfolding assms(5) by simp
  next
    case False
    let ?n = "upd_obj a (\<lambda>q. q\<lparr>qs_noticePending := False\<rparr>) ?r2"
    have e: "r' = finish_schedule (enqueuePullLocked (Some a) ?n)" using False adv np unfolding assms(5) by auto
    have bn: "a < length (rn_objs ?n)" using b v by simp
    have al: "qs_pullQueued (qobj r' a) \<and> rn_pullRequests r' = Some (the (rn_pullRequests ?r) @ [a])"
      if alive: "\<not> rn_done r'"
    proof -
      obtain r4 where r4: "enqueuePullLocked (Some a) ?n = (None, r4)" "r' = r4"
        using finish_schedule_alive alive unfolding e by blast
      have "r4 = upd_obj a (\<lambda>q. q\<lparr>qs_pullQueued := True\<rparr>) ?n\<lparr>rn_pullRequests := Some (the (rn_pullRequests ?n) @ [a])\<rparr>"
        by (rule enqueue_effect [OF bn _ _ _ _ r4(1)]) (use b v q in simp_all)
      then show ?thesis using r4(2) bn v by simp
    qed
    have "qs_key (qobj r' a) = qs_key (qobj ?n a)" "qs_noticePending (qobj r' a) = qs_noticePending (qobj ?n a)"
      "qs_phase (qobj r' a) = qs_phase (qobj ?n a)"
      unfolding e using enqueue_keeps [OF bn bn] enqueue_phase [OF bn] by simp_all
    then show ?thesis using al key bn b v q False by auto
  qed
qed

text \<open>
  C16.  A batch that the server sends without having been asked, while the pull of its queue is still in the
  channel, is accepted and clears \<open>pullQueued\<close>, but the request stays in the channel; when the batch
  continues, a second request for the same queue is queued behind it.  The capacity of 256, one request
  per active queue, is therefore not an invariant of the channel.
\<close>

theorem unsolicited_batch_duplicates_request:
  assumes "reachable sched_start sched_step s" and "\<not> rn_done (sd_run s)"
    and "validateQueueJID j = None" and "queue_lookup (sd_run s) (newQueueKey j) = Some a"
    and "qs_pullQueued (qobj (sd_run s) a)" and "rn_pullRequests (sd_run s) = Some chan" and "length chan < 256"
    and "sy_Queue d = Some j" and "sy_Status d = None" and "sy_NextKey d \<noteq> 0" and "\<not> sy_IsLast d"
  shows "rn_pullRequests (processBatch_advance (newQueueKey j) d (snd (handleBatch_begin d (sd_run s)))) = Some (chan @ [a])"
proof -
  let ?r = "sd_run s"
  have i: "sched_inv s" using assms(1) by (rule queue_system.inv_reachable)
  then have L: "live s" and ok: "sched_ok 0 ?r" using assms(2) by (auto simp: sched_inv_def dest: run_ok_alive)
  have aa: "a \<in> set (addrs ?r)" using assms(4) by (rule lookup_addr)
  have b: "a < length (rn_objs ?r)" using ok aa by (simp add: sched_ok_def map_ok_bound)
  have "queue_live s a" using L aa by (simp add: live_def)
  then have q: "qs_phase (qobj ?r a) = queueActive" "\<not> qs_processing (qobj ?r a)"
    using assms(5) by (auto simp: queue_live_def Let_def one_activity_def split: if_splits)
  have gen: "rn_generation ?r = cl_generation ?r" using L by (simp add: live_def)
  define r1 where "r1 = upd_obj a (\<lambda>q. q\<lparr>qs_pullQueued := False, qs_pullInFlight := False,
     qs_pullSentAt := None, qs_processing := True\<rparr>) ?r"
  have h: "snd (handleBatch_begin d ?r) = r1"
    using assms q by (simp add: handleBatch_begin_def handleBatch_enter_def r1_def)
  have r1: "a < length (rn_objs r1)" "queue_lookup r1 (newQueueKey j) = Some a" "rn_generation r1 = cl_generation r1"
    "qs_phase (qobj r1 a) = queueActive" "\<not> qs_pullQueued (qobj r1 a)" "\<not> qs_pullInFlight (qobj r1 a)"
    "rn_pullRequests r1 = Some chan"
    using b assms gen q by (simp_all add: r1_def)
  show ?thesis
    unfolding h advance_eq [OF r1(2,3)] using r1 assms(7,10,11) advanced_views [OF r1(1), where d = d]
    by (simp add: finish_schedule_def enqueuePullLocked_def Let_def)
qed

theorem unsolicited_batch_duplicates_request_witness:
  "let d = emptySync\<lparr>sy_Queue := Some exampleQueue, sy_NextKey := 7\<rparr>
   in rn_pullRequests exampleNoticed = Some [0]
      \<and> rn_pullRequests (processBatch_advance (newQueueKey exampleQueue) d
            (snd (handleBatch_begin d exampleNoticed))) = Some [0, 0]"
proof -
  let ?d = "emptySync\<lparr>sy_Queue := Some exampleQueue, sy_NextKey := 7\<rparr>"
  have v: "validateQueueJID exampleQueue = None" by (simp add: validateQueueJID_bound exampleQueue_def)
  have l: "queue_lookup exampleNoticed (newQueueKey exampleQueue) = Some 0"
    using exampleNoticed_eval(1) by (simp add: queue_lookup_def tracked_def)
  show ?thesis
    using unsolicited_batch_duplicates_request [OF exampleReachable, of exampleQueue 0 "[0]" ?d]
    by (simp add: exampleNoticed_eval v l Let_def) (simp add: emptySync_def)
qed

end
