(* ===== verification/Wire.thy ===== *)
theory Wire
  imports Retained_Weight Batch_Reservation
begin

text \<open>
  The protobuf wire primitives of \<open>internal/protocol/nativecodec\<close> (\<open>envelope.go\<close>,
  \<open>provision_action.go\<close>): varints, field keys, and \<open>skipField\<close>.

  A Go slice index is a \<open>nat\<close>; a comparison \<open>length > uint64(len(data)-offset)\<close> is made on naturals,
  which is the same since slices are shorter than \<open>2^63\<close> and the offset is within the slice there.
  \<open>binary.PutUvarint\<close> of the standard library is \<open>putUvarint\<close>.

  Every reader of the package has the same contract: it stays within the slice, moves forward, reads
  nothing behind the position it returns and does not depend on where in the slice it stands.  The
  locale \<open>wire_reader\<close> states it once; the readers of this theory and of \<open>Envelope\<close> interpret it.
\<close>

section \<open>Definitions\<close>

definition errorf :: "string \<Rightarrow> go_error" where
  "errorf txt = LibErr PlainError False txt None"

abbreviation (input) wireVarint :: byte where "wireVarint \<equiv> 0"
abbreviation (input) wireFixed64 :: byte where "wireFixed64 \<equiv> 1"
abbreviation (input) wireBytes :: byte where "wireBytes \<equiv> 2"
abbreviation (input) wireStartGroup :: byte where "wireStartGroup \<equiv> 3"
abbreviation (input) wireEndGroup :: byte where "wireEndGroup \<equiv> 4"
abbreviation (input) wireFixed32 :: byte where "wireFixed32 \<equiv> 5"

function readVarint_loop :: "bytes \<Rightarrow> nat \<Rightarrow> nat \<Rightarrow> uint64 \<Rightarrow> go_error + (uint64 \<times> nat)" where
  "readVarint_loop data off i v =
     (if i \<ge> 10 then Inl (errorf ''varint overflow'')
      else if off \<ge> length data then Inl (errorf ''truncated varint'')
      else
        let b = data ! off
        in if i = 9 \<and> b > 1 then Inl (errorf ''varint overflow'')
           else
             let v' = v OR push_bit (7 * i) (ucast (b AND 0x7f))
             in if b < 0x80 then Inr (v', Suc off) else readVarint_loop data (Suc off) (Suc i) v')"
  by pat_completeness auto
termination by (relation "measure (\<lambda>(data, off, i, v). 10 - i)") auto

declare readVarint_loop.simps [simp del]

definition readVarint :: "bytes \<Rightarrow> nat \<Rightarrow> go_error + (uint64 \<times> nat)" where
  "readVarint data off = readVarint_loop data off 0 0"

lemma drop_bit_7_less: "0x80 \<le> x \<Longrightarrow> unat (drop_bit 7 x) < unat (x :: uint64)"
proof -
  assume "0x80 \<le> x"
  then have "0 < unat x" by (simp add: word_le_nat_alt)
  then show ?thesis by (simp add: drop_bit_eq_div unat_div)
qed

function putUvarint :: "uint64 \<Rightarrow> bytes" where
  "putUvarint x = (if x \<ge> 0x80 then (ucast x OR 0x80) # putUvarint (drop_bit 7 x) else [ucast x])"
  by pat_completeness auto
termination by (relation "measure unat") (auto simp: drop_bit_7_less)

declare putUvarint.simps [simp del]

definition varintSize :: "uint64 \<Rightarrow> nat" where
  "varintSize x = length (putUvarint x)"

definition appendVarint :: "bytes \<Rightarrow> uint64 \<Rightarrow> bytes" where
  "appendVarint dst x = dst @ putUvarint x"

definition appendKey :: "bytes \<Rightarrow> uint64 \<Rightarrow> byte \<Rightarrow> bytes" where
  "appendKey dst number wireType = appendVarint dst (push_bit 3 number OR ucast wireType)"

text \<open>\<open>string(b)\<close> and the append of a string to a byte slice keep the bytes.\<close>

definition string_bytes :: "string \<Rightarrow> bytes" where
  "string_bytes s = map (\<lambda>c. of_nat (of_char c)) s"

definition appendStringField :: "bytes \<Rightarrow> uint64 \<Rightarrow> string \<Rightarrow> bytes" where
  "appendStringField dst number s =
     appendVarint (appendKey dst number wireBytes) (of_nat (length s)) @ string_bytes s"

definition bytesFieldSize :: "uint64 \<Rightarrow> nat \<Rightarrow> nat" where
  "bytesFieldSize number payloadLen =
     varintSize (push_bit 3 number OR 2) + varintSize (of_nat payloadLen) + payloadLen"

definition skipField :: "bytes \<Rightarrow> nat \<Rightarrow> byte \<Rightarrow> go_error + nat" where
  "skipField data off wireType =
     (if wireType = wireVarint then map_sum id snd (readVarint data off)
      else if wireType = wireFixed64 then
        (if length data - off < 8 then Inl (errorf ''truncated fixed64'') else Inr (off + 8))
      else if wireType = wireBytes then
        (case readVarint data off of Inl e \<Rightarrow> Inl e
         | Inr (len, nxt) \<Rightarrow>
             if unat len > length data - nxt then Inl (errorf ''truncated bytes'') else Inr (nxt + unat len))
      else if wireType = wireFixed32 then
        (if length data - off < 4 then Inl (errorf ''truncated fixed32'') else Inr (off + 4))
      else Inl (errorf (''unsupported wire type '' @ itoa (uint wireType))))"

section \<open>The contract of a reader\<close>

fun shift_result :: "nat \<Rightarrow> go_error + ('a \<times> nat) \<Rightarrow> go_error + ('a \<times> nat)" where
  "shift_result k (Inl e) = Inl e"
| "shift_result k (Inr (x, n)) = Inr (x, k + n)"

text \<open>
  \<open>reads rd d off ps n\<close>: reading again and again from \<open>off\<close> yields the items of \<open>ps\<close>, each with the
  range it was read from, and ends at \<open>n\<close>.
\<close>

fun reads ::
  "(bytes \<Rightarrow> nat \<Rightarrow> go_error + ('a \<times> nat)) \<Rightarrow> bytes \<Rightarrow> nat \<Rightarrow> ('a \<times> nat \<times> nat) list \<Rightarrow> nat \<Rightarrow> bool" where
  "reads rd d off [] n = (off = n)"
| "reads rd d off ((x, s, e) # ps) n = (s = off \<and> rd d off = Inr (x, e) \<and> reads rd d e ps n)"

lemma reads_append: "reads rd d off (ps @ qs) n \<longleftrightarrow> (\<exists>m. reads rd d off ps m \<and> reads rd d m qs n)"
  by (induction rd d off ps n rule: reads.induct) auto

locale wire_reader =
  fixes rd :: "bytes \<Rightarrow> nat \<Rightarrow> go_error + ('a \<times> nat)"
  assumes rd_bounds: "rd d off = Inr (x, n) \<Longrightarrow> off < n \<and> n \<le> length d"
    and rd_local: "rd d off = Inr (x, n) \<Longrightarrow> take n d' = take n d \<Longrightarrow> rd d' off = Inr (x, n)"
    and rd_shift: "rd (us @ d) (length us + off) = shift_result (length us) (rd d off)"
begin

lemma rd_unshift: "rd (us @ d) (length us + off) = Inr (x, length us + n) \<longleftrightarrow> rd d off = Inr (x, n)"
  by (cases "rd d off") (auto simp: rd_shift)

lemma rd_drop: "off \<le> length d \<Longrightarrow> rd d off = shift_result off (rd (drop off d) 0)"
  using rd_shift [of "take off d" "drop off d" 0] by (simp add: min_absorb2)

lemma rd_prefix: "rd d off = Inr (x, n) \<Longrightarrow> rd (d @ vs) off = Inr (x, n)"
  using rd_bounds rd_local [of d off x n "d @ vs"] by fastforce

lemma rd_segment:
  assumes "rd d off = Inr (x, n)"
  shows "rd (us @ subslice d off n @ vs) (length us) = Inr (x, length us + (n - off))"
proof -
  have b: "off < n" "n \<le> length d" using rd_bounds [OF assms] by auto
  then have "rd (drop off d) 0 = Inr (x, n - off)"
    using assms by (cases "rd (drop off d) 0") (auto simp: rd_drop [of off d])
  then have "rd (subslice d off n @ vs) 0 = Inr (x, n - off)"
    by (rule rd_local) (use b in \<open>simp add: subslice_def\<close>)
  then show ?thesis using rd_shift [of us "subslice d off n @ vs" 0] by simp
qed

text \<open>A whole segment: what the reader makes of it alone it makes of it anywhere.\<close>

lemma rd_whole:
  assumes "rd seg 0 = Inr (x, length seg)"
  shows "rd (us @ seg @ vs) (length us) = Inr (x, length us + length seg)"
  using rd_segment [OF assms, of us vs] by (simp add: subslice_def)

lemma reads_bounds: "reads rd d off ps n \<Longrightarrow> off \<le> length d \<Longrightarrow> off \<le> n \<and> n \<le> length d"
proof (induction ps arbitrary: off)
  case Nil
  then show ?case by simp
next
  case (Cons p ps)
  obtain x s e where p: "p = (x, s, e)" by (cases p)
  with Cons.prems have "rd d off = Inr (x, e)" and "reads rd d e ps n" by auto
  with rd_bounds [OF this(1)] Cons.IH [of e] show ?case by auto
qed

lemma reads_at_end: "reads rd d (length d) ps n \<longleftrightarrow> ps = [] \<and> n = length d"
  by (cases ps) (auto dest!: rd_bounds)

lemma reads_ranges:
  "reads rd d off ps n \<Longrightarrow> (x, s, e) \<in> set ps \<Longrightarrow> off \<le> length d \<Longrightarrow> off \<le> s \<and> s < e \<and> e \<le> n \<and> rd d s = Inr (x, e)"
proof (induction ps arbitrary: off)
  case Nil
  then show ?case by simp
next
  case (Cons p ps)
  obtain y a b where p: "p = (y, a, b)" by (cases p)
  with Cons.prems have r: "rd d off = Inr (y, b)" "a = off" and q: "reads rd d b ps n" by auto
  have b: "off < b" "b \<le> length d" using rd_bounds [OF r(1)] by auto
  show ?case
  proof (cases "(x, s, e) = (y, a, b)")
    case True
    then show ?thesis using r b reads_bounds [OF q] by auto
  next
    case False
    then have "(x, s, e) \<in> set ps" using Cons.prems(2) p by auto
    from Cons.IH [OF q this b(2)] b show ?thesis by auto
  qed
qed

text \<open>Reading a stretch of the slice gives the same items wherever the stretch is copied to.\<close>

lemma reads_segment:
  assumes "reads rd d off ps n" and "off \<le> length d"
  shows "\<exists>qs. reads rd (us @ subslice d off n @ vs) (length us) qs (length us + (n - off)) \<and> map fst qs = map fst ps"
  using assms
proof (induction ps arbitrary: off us)
  case Nil
  then show ?case by (auto simp: subslice_def intro!: exI [of _ "[]"])
next
  case (Cons p ps)
  obtain x s e where p: "p = (x, s, e)" by (cases p)
  with Cons.prems have r: "rd d off = Inr (x, e)" and q: "reads rd d e ps n" by auto
  have b: "off < e" "e \<le> length d" using rd_bounds [OF r] by auto
  then have n: "e \<le> n" "n \<le> length d" using reads_bounds [OF q] by auto
  have sp: "subslice d off n = subslice d off e @ subslice d e n"
    using b n by (intro subslice_split) simp_all
  obtain qs where qs: "reads rd ((us @ subslice d off e) @ subslice d e n @ vs) (length (us @ subslice d off e)) qs
      (length (us @ subslice d off e) + (n - e))" "map fst qs = map fst ps"
    using Cons.IH [OF q b(2)] by blast
  have "rd (us @ subslice d off n @ vs) (length us) = Inr (x, length us + (e - off))"
    using rd_segment [OF r, of us "subslice d e n @ vs"] by (simp add: sp)
  moreover have "length us + (e - off) + (n - e) = length us + (n - off)" using b n by simp
  ultimately have "reads rd (us @ subslice d off n @ vs) (length us) ((x, length us, length us + (e - off)) # qs)
      (length us + (n - off))"
    using qs(1) b n by (simp add: sp)
  with qs(2) p show ?case by (metis fst_conv list.simps(9))
qed

lemma reads_local:
  assumes "reads rd d off ps n" and "take n d' = take n d" and "off \<le> length d"
  shows "reads rd d' off ps n"
  using assms
proof (induction ps arbitrary: off)
  case Nil
  then show ?case by simp
next
  case (Cons p ps)
  obtain x s e where p: "p = (x, s, e)" by (cases p)
  with Cons.prems have r: "rd d off = Inr (x, e)" "s = off" and q: "reads rd d e ps n" by auto
  have e: "e \<le> length d" using rd_bounds [OF r(1)] by simp
  then have "take e d' = take e d"
    using reads_bounds [OF q] Cons.prems(2) by (metis min_absorb1 take_take)
  then have "rd d' off = Inr (x, e)" using r(1) rd_local by blast
  with r p Cons.IH [OF q Cons.prems(2) e] show ?case by simp
qed

text \<open>Replacing one item of a slice by another encoding leaves the items around it as they are.\<close>

lemma reads_splice:
  assumes "reads rd d 0 (ps @ (x, s, e) # qs) (length d)" and "rd seg 0 = Inr (y, length seg)"
  shows "\<exists>qs'. reads rd (take s d @ seg @ drop e d) 0 (ps @ (y, s, s + length seg) # qs')
      (length (take s d @ seg @ drop e d)) \<and> map fst qs' = map fst qs"
proof -
  let ?d = "take s d @ seg @ drop e d"
  have p: "reads rd d 0 ps s" and x: "rd d s = Inr (x, e)" and q: "reads rd d e qs (length d)"
    using assms(1) by (auto simp: reads_append)
  have b: "s < e" "e \<le> length d" using rd_bounds [OF x] by auto
  then have ls: "length (take s d) = s" by simp
  have "reads rd ?d 0 ps s" by (rule reads_local [OF p]) (use ls in simp_all)
  moreover have "rd ?d s = Inr (y, s + length seg)" using rd_whole [OF assms(2), of "take s d" "drop e d"] ls by simp
  moreover obtain qs' where "reads rd ((take s d @ seg) @ subslice d e (length d) @ []) (length (take s d @ seg)) qs'
      (length (take s d @ seg) + (length d - e))" "map fst qs' = map fst qs"
    using reads_segment [OF q b(2)] by blast
  ultimately show ?thesis using ls b by (intro exI [of _ qs']) (auto simp: reads_append subslice_def add.assoc)
qed

lemma reads_splice2:
  assumes r: "reads rd d 0 (ps @ (x, s1, e1) # qs @ (y, s2, e2) # rs) (length d)"
    and "rd segx 0 = Inr (x', length segx)" and "rd segy 0 = Inr (y', length segy)"
  defines "out \<equiv> take s1 d @ segx @ subslice d e1 s2 @ segy @ drop e2 d"
  shows "s1 < e1 \<and> e1 \<le> s2 \<and> s2 < e2 \<and> e2 \<le> length d
    \<and> (\<exists>ts. reads rd out 0 ts (length out)
         \<and> map fst ts = map fst ps @ x' # map fst qs @ y' # map fst rs)"
proof -
  have x: "rd d s1 = Inr (x, e1)" and q: "reads rd d e1 qs s2" and y: "rd d s2 = Inr (y, e2)"
    using r by (auto simp: reads_append)
  have b: "s1 < e1" "e1 \<le> s2" "s2 < e2" "e2 \<le> length d"
    using rd_bounds [OF x] rd_bounds [OF y] reads_bounds [OF q] by auto
  let ?d = "take s2 d @ segy @ drop e2 d"
  have "reads rd d 0 ((ps @ (x, s1, e1) # qs) @ (y, s2, e2) # rs) (length d)" using r by simp
  from reads_splice [OF this assms(3)] obtain rs' where
    1: "reads rd ?d 0 (ps @ (x, s1, e1) # (qs @ (y', s2, s2 + length segy) # rs')) (length ?d)"
    "map fst rs' = map fst rs"
    by auto
  have "take s1 ?d @ segx @ drop e1 ?d = out"
    unfolding out_def subslice_def using b by (simp add: drop_take min_absorb1)
  with reads_splice [OF 1(1) assms(2)] 1(2) b show ?thesis by fastforce
qed

end

section \<open>Varints\<close>

lemma readVarint_loop_bounds:
  "readVarint_loop d off i v = Inr (x, n) \<Longrightarrow> off < n \<and> n \<le> length d"
proof (induction d off i v rule: readVarint_loop.induct)
  case (1 d off i v)
  from 1(2) show ?case
    by (subst (asm) readVarint_loop.simps) (auto simp: Let_def split: if_splits dest: 1(1) Suc_lessD)
qed

lemma readVarint_loop_local:
  "readVarint_loop d off i v = Inr (x, n) \<Longrightarrow> take n d' = take n d \<Longrightarrow> readVarint_loop d' off i v = Inr (x, n)"
proof (induction d off i v rule: readVarint_loop.induct)
  case (1 d off i v)
  have b: "off < n" "n \<le> length d" using readVarint_loop_bounds [OF 1(2)] by auto
  have l: "off < length d'" using arg_cong [OF 1(3), of length] b by simp
  have "d' ! off = take n d' ! off" using b by simp
  also have "\<dots> = d ! off" using 1(3) b by simp
  finally have e: "d' ! off = d ! off" .
  from 1(2) show ?case
    apply (subst (asm) readVarint_loop.simps)
    apply (subst readVarint_loop.simps)
    using b l e 1(1) 1(3) by (auto simp: Let_def split: if_splits)
qed

lemma readVarint_loop_shift:
  "readVarint_loop (us @ d) (length us + off) i v = shift_result (length us) (readVarint_loop d off i v)"
proof (induction d off i v rule: readVarint_loop.induct)
  case (1 d off i v)
  show ?case
    apply (subst readVarint_loop.simps)
    apply (subst (2) readVarint_loop.simps)
    using 1 by (auto simp: Let_def)
qed

text \<open>Seven bits of the value per byte.\<close>

lemma byte_7f: "(0x7f :: byte) = mask 7"
  by (simp add: mask_eq_exp_minus_1)

lemma byte_80: "bit (0x80 :: int) n \<longleftrightarrow> n = 7"
proof -
  have "(0x80 :: int) = 2 ^ 7" by simp
  then show ?thesis by (simp only: bit_exp_iff) auto
qed

lemma varint_group_low:
  "ucast (((ucast (x :: uint64) :: byte) OR 0x80) AND 0x7f) = take_bit 7 x"
  unfolding byte_7f by (rule bit_word_eqI) (auto simp: bit_simps byte_80)

lemma varint_more_flag: "0x80 \<le> (y OR 0x80 :: byte)"
proof -
  have "128 \<le> uint y OR 128" by (metis or.commute or_greater_eq uint_ge_0)
  then show ?thesis by (simp add: word_le_def uint_or)
qed

lemma varint_last_group:
  assumes "x < (0x80 :: uint64)"
  shows "(ucast x :: byte) < 0x80" and "ucast ((ucast x :: byte) AND 0x7f) = x"
    and "unat (ucast x :: byte) = unat x"
proof -
  have l: "unat x < 128" using assms by (simp add: word_less_nat_alt)
  then show u: "unat (ucast x :: byte) = unat x" by (simp add: unsigned_ucast_eq take_bit_eq_mod)
  then show "(ucast x :: byte) < 0x80" using l by (simp add: word_less_nat_alt)
  have "unat (take_bit 7 x) = unat x" using l by (simp add: take_bit_eq_mod unat_mod)
  then have "take_bit 7 x = x" by (simp only: word_unat_eq_iff)
  moreover have "ucast ((ucast x :: byte) AND 0x7f) = take_bit 7 x"
    unfolding byte_7f by (rule bit_word_eqI) (auto simp: bit_simps)
  ultimately show "ucast ((ucast x :: byte) AND 0x7f) = x" by simp
qed

lemma varint_split: "push_bit k (x :: uint64) = push_bit k (take_bit 7 x) OR push_bit (7 + k) (drop_bit 7 x)"
proof (rule bit_word_eqI)
  fix n
  have "7 + (n - (7 + k)) = n - k" if "\<not> n - k < 7" using that by simp
  then show "bit (push_bit k x) n = bit (push_bit k (take_bit 7 x) OR push_bit (7 + k) (drop_bit 7 x)) n"
    by (cases "n - k < 7") (auto simp: bit_simps)
qed

lemma readVarint_put:
  assumes "i \<le> 9" and "unat x < 2 ^ (64 - 7 * i)"
  shows "readVarint_loop (us @ putUvarint x @ vs) (length us) i v
    = Inr (v OR push_bit (7 * i) x, length us + length (putUvarint x))"
  using assms
proof (induction x arbitrary: us i v rule: putUvarint.induct)
  case (1 x)
  show ?case
  proof (cases "x \<ge> 0x80")
    case True
    then have "128 \<le> unat x" by (simp add: word_le_nat_alt)
    then have "(2::nat) ^ 7 < 2 ^ (64 - 7 * i)" using 1(3) by simp
    then have "7 < 64 - 7 * i" by (rule power_less_imp_less_exp [rotated]) simp
    then have i: "i \<le> 8" by simp
    have "unat (drop_bit 7 x) < 2 ^ (64 - 7 * Suc i)"
    proof -
      have "(2::nat) ^ (64 - 7 * i) = 2 ^ (64 - 7 * Suc i) * 128"
        using i power_add [of "2::nat" "64 - 7 * Suc i" 7] by simp
      then show ?thesis using 1(3) by (simp add: drop_bit_eq_div unat_div less_mult_imp_div_less)
    qed
    with 1(1) [OF True, of "Suc i" "us @ [ucast x OR 0x80]" "v OR push_bit (7 * i) (take_bit 7 x)"] i
    have IH: "readVarint_loop (us @ (ucast x OR 0x80) # putUvarint (drop_bit 7 x) @ vs) (Suc (length us)) (Suc i)
        (v OR push_bit (7 * i) (take_bit 7 x)) =
      Inr (v OR push_bit (7 * i) x, Suc (length us) + length (putUvarint (drop_bit 7 x)))"
      by (simp add: varint_split [of "7 * i" x] or.assoc)
    have "putUvarint x = (ucast x OR 0x80) # putUvarint (drop_bit 7 x)"
      using True by (subst putUvarint.simps) simp
    moreover have "\<not> (ucast x OR 0x80 :: byte) < 0x80" using varint_more_flag by (simp add: not_less)
    ultimately show ?thesis
      using i IH by (subst readVarint_loop.simps) (simp add: nth_append varint_group_low Let_def)
  next
    case False
    then have x: "x < 0x80" by simp
    then have p: "putUvarint x = [ucast x]" by (subst putUvarint.simps) auto
    have "\<not> (i = 9 \<and> (ucast x :: byte) > 1)"
      using 1(3) varint_last_group(3) [OF x] by (auto simp: word_less_nat_alt)
    then show ?thesis
      using 1(2) varint_last_group [OF x]
      by (subst readVarint_loop.simps) (simp add: p nth_append Let_def)
  qed
qed

interpretation varint: wire_reader readVarint
  unfolding readVarint_def
  by unfold_locales (rule readVarint_loop_bounds readVarint_loop_local readVarint_loop_shift; assumption)+

lemma putUvarint_length: "0 < k \<Longrightarrow> unat x < 2 ^ (7 * k) \<Longrightarrow> length (putUvarint x) \<le> k"
proof (induction x arbitrary: k rule: putUvarint.induct)
  case (1 x)
  show ?case
  proof (cases "x \<ge> 0x80")
    case True
    then have "128 \<le> unat x" by (simp add: word_le_nat_alt)
    then have "(2::nat) ^ 7 < 2 ^ (7 * k)" using 1(3) by simp
    then have "7 < 7 * k" by (rule power_less_imp_less_exp [rotated]) simp
    then obtain m where k: "k = Suc m" "0 < m" by (cases k) auto
    have "unat (drop_bit 7 x) < 2 ^ (7 * m)"
      using 1(3) k by (simp add: drop_bit_eq_div unat_div less_mult_imp_div_less power_add)
    then have "length (putUvarint (drop_bit 7 x)) \<le> m" using 1(1) [OF True] k by simp
    with True k show ?thesis by (subst putUvarint.simps) simp
  next
    case False
    with 1(2) show ?thesis by (subst putUvarint.simps) auto
  qed
qed

lemma varintSize_pos [simp]: "0 < varintSize x"
  unfolding varintSize_def by (subst putUvarint.simps) simp

lemma varintSize_le: "varintSize x \<le> 10"
proof -
  have "unat x < 2 ^ 64" using unsigned_less [of x] by simp
  then show ?thesis unfolding varintSize_def by (intro putUvarint_length) simp_all
qed

lemma varintSize_mono_bound: "0 < k \<Longrightarrow> n < 2 ^ (7 * k) \<Longrightarrow> varintSize (of_nat n) \<le> k"
  unfolding varintSize_def
  by (rule putUvarint_length, assumption) (metis unat_of_nat mod_less_eq_dividend le_less_trans)

lemma readVarint_encoded:
  "readVarint (us @ putUvarint x @ vs) (length us) = Inr (x, length us + varintSize x)"
proof -
  have "unat x < 2 ^ (64 - 7 * 0)" using unsigned_less [of x] by simp
  from readVarint_put [OF _ this, of us vs 0] show ?thesis by (simp add: readVarint_def varintSize_def)
qed

text \<open>
  Varint round trip.  Wherever a value was written with \<open>appendVarint\<close>, \<open>readVarint\<close> reads the
  same value back and stops right behind it; the encoding takes between one and ten bytes.
\<close>

lemma varint_round_trip:
  "readVarint (appendVarint us x @ vs) (length us) = Inr (x, length (appendVarint us x))
   \<and> length (appendVarint us x) = length us + varintSize x
   \<and> 1 \<le> varintSize x \<and> varintSize x \<le> 10"
  using readVarint_encoded [of us x vs] varintSize_pos [of x] varintSize_le [of x]
  by (simp add: appendVarint_def varintSize_def Suc_le_eq)

section \<open>Field keys\<close>

lemma word_bits_below:
  fixes w :: "'a::len word"
  assumes "unat w < 2 ^ m" and "bit w k"
  shows "k < m"
proof -
  have "unat (take_bit m w) = unat w" using assms(1) by (simp add: unsigned_take_bit_eq take_bit_nat_eq_self)
  then have "take_bit m w = w" by (simp only: word_unat_eq_iff)
  then show ?thesis using assms(2) by (metis bit_take_bit_iff)
qed

lemma key_split:
  assumes "unat number < 2 ^ 61" and "wt < (8 :: byte)"
  shows "drop_bit 3 (push_bit 3 number OR ucast wt) = (number :: uint64)"
    and "ucast ((push_bit 3 number OR ucast wt :: uint64) AND 7) = wt"
proof -
  have n: "k < 61" if "bit number k" for k using word_bits_below [OF assms(1) that] .
  have "unat wt < 2 ^ 3" using assms(2) by (simp add: word_less_nat_alt)
  then have w: "k < 3" if "bit wt k" for k using word_bits_below that by blast
  have 7: "(7 :: uint64) = mask 3" by (simp add: mask_eq_exp_minus_1)
  show "ucast ((push_bit 3 number OR ucast wt :: uint64) AND 7) = wt"
    unfolding 7 using w by (auto intro!: bit_word_eqI simp: bit_simps)
  show "drop_bit 3 (push_bit 3 number OR ucast wt) = number"
    using n w by (auto intro!: bit_word_eqI simp: bit_simps) fastforce+
qed

section \<open>Skipping a field\<close>

definition skip_unit :: "byte \<Rightarrow> bytes \<Rightarrow> nat \<Rightarrow> go_error + (unit \<times> nat)" where
  "skip_unit wt d off = map_sum id (Pair ()) (skipField d off wt)"

lemma skip_unit_Inr: "skip_unit wt d off = Inr (u, n) \<longleftrightarrow> skipField d off wt = Inr n"
  by (cases "skipField d off wt") (auto simp: skip_unit_def)

lemma skipField_Inr:
  "skipField d off wt = Inr n \<longleftrightarrow>
     (wt = wireVarint \<and> (\<exists>x. readVarint d off = Inr (x, n)))
     \<or> (wt = wireFixed64 \<and> 8 \<le> length d - off \<and> n = off + 8)
     \<or> (wt = wireBytes \<and> (\<exists>len nxt. readVarint d off = Inr (len, nxt) \<and> unat len \<le> length d - nxt
            \<and> n = nxt + unat len))
     \<or> (wt = wireFixed32 \<and> 4 \<le> length d - off \<and> n = off + 4)"
  by (cases "readVarint d off") (auto simp: skipField_def split: prod.splits)

lemma skipField_bounds: "skipField d off wt = Inr n \<Longrightarrow> off < n \<and> n \<le> length d"
  by (auto simp: skipField_Inr dest: varint.rd_bounds)

lemma skipField_local:
  assumes "skipField d off wt = Inr n" and t: "take n d' = take n d"
  shows "skipField d' off wt = Inr n"
proof -
  have l: "n \<le> length d'" using skipField_bounds [OF assms(1)] arg_cong [OF t, of length] by simp
  have "readVarint d' off = Inr (x, k)" if "readVarint d off = Inr (x, k)" "k \<le> n" for x k
    by (rule varint.rd_local [OF that(1)]) (metis t that(2) min_absorb1 take_take)
  then show ?thesis using assms(1) l unfolding skipField_Inr by auto
qed

lemma skipField_shift:
  "skipField (us @ d) (length us + off) wt = map_sum id ((+) (length us)) (skipField d off wt)"
  by (cases "readVarint d off") (auto simp: skipField_def varint.rd_shift)

interpretation skip: wire_reader "skip_unit wt" for wt
proof
  show "off < n \<and> n \<le> length d" if "skip_unit wt d off = Inr (x, n)" for d off x n
    using that by (auto simp: skip_unit_Inr dest: skipField_bounds)
  show "skip_unit wt d' off = Inr (x, n)" if "skip_unit wt d off = Inr (x, n)" "take n d' = take n d"
    for d off x n d'
    using that by (auto simp: skip_unit_Inr dest: skipField_local)
  show "skip_unit wt (us @ d) (length us + off) = shift_result (length us) (skip_unit wt d off)" for us d off
    by (cases "skipField d off wt") (simp_all add: skip_unit_def skipField_shift)
qed

lemma string_bytes_length [simp]: "length (string_bytes s) = length s"
  by (simp add: string_bytes_def)

end
