(* ===== verification/Envelope.thy ===== *)
theory Envelope
  imports Wire
begin

text \<open>
  The MSync envelope adapter of \<open>internal/protocol/nativecodec/envelope.go\<close>: the constant-memory
  scan of the outer protobuf message, the removal of the zlib compression of its payload, and the
  class that decides how much decode memory a frame is admitted with.

  \<open>compress/zlib\<close> is a parameter: for the compressed bytes it answers the error of \<open>NewReader\<close>, or
  the bytes the stream yields together with the error that ends it (\<open>None\<close> at a clean end) and the
  error of \<open>Close\<close>.

  \<open>wire_fields\<close> is the plain list of the fields of a protobuf message, by the same readers; \<open>Wire_Grammar\<close>
  proves it, and the scan, equal to a grammar of the format that does not use them.
\<close>

section \<open>Definitions\<close>

abbreviation (input) msyncCompressField :: uint64 where "msyncCompressField \<equiv> 4"
abbreviation (input) msyncPayloadField :: uint64 where "msyncPayloadField \<equiv> 9"
abbreviation (input) maxEnvelopeFields :: nat where "maxEnvelopeFields \<equiv> 4096"

type_synonym wireRange = "nat \<times> nat"

record envelopeScan =
  es_fieldCount :: nat
  es_hasCompression :: bool
  es_compression :: uint64
  es_compressionRaw :: wireRange
  es_hasPayload :: bool
  es_payload :: bytes
  es_payloadRaw :: wireRange

definition zeroScan :: envelopeScan where
  "zeroScan = \<lparr>es_fieldCount = 0, es_hasCompression = False, es_compression = 0, es_compressionRaw = (0, 0),
     es_hasPayload = False, es_payload = [], es_payloadRaw = (0, 0)\<rparr>"

definition wrapf :: "string \<Rightarrow> go_error \<Rightarrow> go_error" where
  "wrapf prefix e = WrapErr (prefix @ '': '' @ error_text e) e"

text \<open>The value of a field: its varint, its bytes, and the offset behind it.\<close>

definition scan_value :: "bytes \<Rightarrow> nat \<Rightarrow> uint64 \<Rightarrow> byte \<Rightarrow> go_error + ((uint64 \<times> bytes) \<times> nat)" where
  "scan_value data off number wireType =
     (if wireType = wireVarint then
        (case readVarint data off of Inl e \<Rightarrow> Inl e | Inr (v, nxt) \<Rightarrow> Inr ((v, []), nxt))
      else if wireType = wireFixed64 then
        (if length data - off < 8 then Inl (errorf (''truncated fixed64 field '' @ itoa (uint number)))
         else Inr ((0, []), off + 8))
      else if wireType = wireBytes then
        (case readVarint data off of Inl e \<Rightarrow> Inl e
         | Inr (len, nxt) \<Rightarrow>
             if unat len > length data - nxt
             then Inl (errorf (''truncated bytes field '' @ itoa (uint number)))
             else Inr ((0, subslice data nxt (nxt + unat len)), nxt + unat len))
      else if wireType = wireFixed32 then
        (if length data - off < 4 then Inl (errorf (''truncated fixed32 field '' @ itoa (uint number)))
         else Inr ((0, []), off + 4))
      else if wireType = wireStartGroup \<or> wireType = wireEndGroup
      then Inl (errorf (''unsupported group wire type '' @ itoa (uint wireType)))
      else Inl (errorf (''unsupported wire type '' @ itoa (uint wireType))))"

text \<open>The final switch of the loop: what a field contributes to the result.\<close>

definition scan_record ::
  "uint64 \<Rightarrow> byte \<Rightarrow> uint64 \<times> bytes \<Rightarrow> wireRange \<Rightarrow> envelopeScan \<Rightarrow> go_error + envelopeScan" where
  "scan_record number wireType val raw r =
     (if number = msyncCompressField then
        (if wireType \<noteq> wireVarint
         then Inl (errorf (''msync compress_algorimth has wire type '' @ itoa (uint wireType)))
         else Inr (r\<lparr>es_hasCompression := True, es_compression := fst val, es_compressionRaw := raw\<rparr>))
      else if number = msyncPayloadField then
        (if wireType \<noteq> wireBytes
         then Inl (errorf (''msync payload has wire type '' @ itoa (uint wireType)))
         else Inr (r\<lparr>es_hasPayload := True, es_payload := snd val, es_payloadRaw := raw\<rparr>))
      else Inr r)"

text \<open>One round of the loop of \<open>scanEnvelope\<close>.\<close>

definition scan_round :: "bytes \<Rightarrow> nat \<Rightarrow> envelopeScan \<Rightarrow> go_error + (nat \<times> envelopeScan)" where
  "scan_round data start r =
     (case readVarint data start of Inl e \<Rightarrow> Inl e
      | Inr (tag, off) \<Rightarrow>
          let number = drop_bit 3 tag; wireType = ucast (tag AND 7)
          in if number = 0 then Inl (errorf ''invalid field number 0'')
             else
               let r1 = r\<lparr>es_fieldCount := Suc (es_fieldCount r)\<rparr>
               in if es_fieldCount r1 > maxEnvelopeFields
                  then Inl (limitErr (''msync envelope has more than '' @ itoa (int maxEnvelopeFields) @ '' fields''))
                  else if number = msyncCompressField \<and> es_hasCompression r1
                  then Inl (limitErr ''duplicate msync compression field'')
                  else if number = msyncPayloadField \<and> es_hasPayload r1
                  then Inl (limitErr ''duplicate msync payload field'')
                  else
                    (case scan_value data off number wireType of Inl e \<Rightarrow> Inl e
                     | Inr (val, nxt) \<Rightarrow>
                         (case scan_record number wireType val (start, nxt) r1 of Inl e \<Rightarrow> Inl e
                          | Inr r2 \<Rightarrow> Inr (nxt, r2))))"

lemma scan_value_bounds: "scan_value d off number wt = Inr (val, n) \<Longrightarrow> off < n \<and> n \<le> length d"
  by (auto simp: scan_value_def split: if_splits sum.splits prod.splits dest: varint.rd_bounds)

lemma scan_round_advances: "scan_round d off r = Inr (n, r') \<Longrightarrow> off < n \<and> n \<le> length d"
  by (auto simp: scan_round_def Let_def split: if_splits sum.splits prod.splits
      dest!: scan_value_bounds varint.rd_bounds)

function scan_loop :: "bytes \<Rightarrow> nat \<Rightarrow> envelopeScan \<Rightarrow> go_error + envelopeScan" where
  "scan_loop data off r =
     (if off < length data then
        (case scan_round data off r of Inl e \<Rightarrow> Inl e | Inr (nxt, r1) \<Rightarrow> scan_loop data nxt r1)
      else Inr r)"
  by pat_completeness auto
termination
  by (relation "measure (\<lambda>(data, off, r). length data - off)") (auto dest!: scan_round_advances)

declare scan_loop.simps [simp del]

definition scanEnvelope :: "bytes \<Rightarrow> go_error + envelopeScan" where
  "scanEnvelope data = scan_loop data 0 zeroScan"

definition checkedAdd :: "uint64 \<Rightarrow> uint64 \<Rightarrow> uint64 \<times> bool" where
  "checkedAdd a b = (if a > NOT 0 - b then (0, False) else (a + b, True))"

text \<open>\<open>inputLen\<close> and \<open>payloadLen\<close> are lengths of slices, so they are natural numbers.\<close>

definition rebuiltEnvelopeSize :: "nat \<Rightarrow> envelopeScan \<Rightarrow> nat \<Rightarrow> go_error + nat" where
  "rebuiltEnvelopeSize inputLen envelope payloadLen =
     (let removed = (int (snd (es_compressionRaw envelope)) - int (fst (es_compressionRaw envelope)))
                  + (int (snd (es_payloadRaw envelope)) - int (fst (es_payloadRaw envelope)))
      in if removed < 0 \<or> removed > int inputLen
         then Inl (errorf ''invalid msync envelope field ranges'')
         else
           let overflow = Inl (limitErr ''rebuilt msync envelope length overflows'');
               n0 = (of_int (int inputLen - removed) :: uint64);
               (n1, ok1) = checkedAdd n0 (of_nat (varintSize (push_bit 3 msyncCompressField OR ucast wireVarint) + 1))
           in if \<not> ok1 then overflow
              else
                let (n2, ok2) = checkedAdd n1 (of_nat (varintSize (push_bit 3 msyncPayloadField OR ucast wireBytes)))
                in if \<not> ok2 then overflow
                   else
                     let (n3, ok3) = checkedAdd n2 (of_nat (varintSize (of_nat payloadLen)))
                     in if \<not> ok3 then overflow
                        else
                          let (n4, ok4) = checkedAdd n3 (of_nat payloadLen)
                          in if \<not> ok4 \<or> n4 > of_nat MaxCodecInputBytes
                             then Inl (limitErr (''rebuilt msync envelope exceeds ''
                                    @ itoa (int MaxCodecInputBytes) @ '' bytes''))
                             else Inr (unat n4))"

definition appendCompressionField :: "bytes \<Rightarrow> bytes" where
  "appendCompressionField dst = appendVarint (appendKey dst msyncCompressField wireVarint) 0"

definition appendPayloadField :: "bytes \<Rightarrow> bytes \<Rightarrow> bytes" where
  "appendPayloadField dst payload =
     appendVarint (appendKey dst msyncPayloadField wireBytes) (of_nat (length payload)) @ payload"

type_synonym zlib_reader = "bytes \<Rightarrow> go_error + (bytes \<times> go_error option \<times> go_error option)"

text \<open>\<open>io.ReadAll\<close> of \<open>io.LimitReader\<close>: at the limit the stream counts as ended.\<close>

definition readAllLimited :: "nat \<Rightarrow> bytes \<times> go_error option \<Rightarrow> bytes \<times> go_error option" where
  "readAllLimited limit s = (if limit \<le> length (fst s) then (take limit (fst s), None) else s)"

text \<open>The splice at the end of \<open>decompressEnvelopePayload\<close>.\<close>

definition rebuild :: "bytes \<Rightarrow> envelopeScan \<Rightarrow> bytes \<Rightarrow> bytes" where
  "rebuild data envelope payload =
     (let c = es_compressionRaw envelope; p = es_payloadRaw envelope;
          firstPayload = fst p < fst c;
          first = (if firstPayload then p else c);
          second = (if firstPayload then c else p);
          out1 = take (fst first) data;
          out2 = (if firstPayload then appendPayloadField out1 payload else appendCompressionField out1);
          out3 = out2 @ subslice data (snd first) (fst second);
          out4 = (if firstPayload then appendCompressionField out3 else appendPayloadField out3 payload)
      in out4 @ drop (snd second) data)"

definition envelopeTooLong :: go_error where
  "envelopeTooLong = limitErr (''msync envelope exceeds '' @ itoa (int MaxCodecInputBytes) @ '' bytes'')"

definition decompressEnvelopePayload :: "zlib_reader \<Rightarrow> bytes \<Rightarrow> go_error + bytes" where
  "decompressEnvelopePayload zlib data =
     (if length data > MaxCodecInputBytes then Inl envelopeTooLong
      else
        (case scanEnvelope data of Inl e \<Rightarrow> Inl (wrapf ''parse msync envelope'' e)
         | Inr envelope \<Rightarrow>
             if \<not> es_hasCompression envelope \<or> es_compression envelope = 0 then Inr data
             else if es_compression envelope \<noteq> 1
             then Inl (errorf (''unsupported payload compression algorithm '' @ itoa (uint (es_compression envelope))))
             else if \<not> es_hasPayload envelope
             then Inl (errorf ''compressed msync envelope has no payload'')
             else
               (case zlib (es_payload envelope) of Inl e \<Rightarrow> Inl (wrapf ''open zlib payload'' e)
                | Inr (stream, streamErr, closeErr) \<Rightarrow>
                    (case readAllLimited (MaxCodecInputBytes + 1) (stream, streamErr) of
                       (payload, Some readErr) \<Rightarrow> Inl (wrapf ''read zlib payload'' readErr)
                     | (payload, None) \<Rightarrow>
                         (case closeErr of Some e \<Rightarrow> Inl (wrapf ''close zlib payload'' e)
                          | None \<Rightarrow>
                              if length payload > MaxCodecInputBytes
                              then Inl (limitErr (''decompressed payload exceeds ''
                                     @ itoa (int MaxCodecInputBytes) @ '' bytes''))
                              else
                                (case rebuiltEnvelopeSize (length data) envelope (length payload) of Inl e \<Rightarrow> Inl e
                                 | Inr outLen \<Rightarrow> Inr (rebuild data envelope payload)))))))"

definition estimateDecodeAdmission :: "bytes \<Rightarrow> go_error + admission_class" where
  "estimateDecodeAdmission data =
     (if length data > MaxCodecInputBytes then Inl envelopeTooLong
      else
        (case scanEnvelope data of Inl e \<Rightarrow> Inl (wrapf ''parse msync envelope admission'' e)
         | Inr envelope \<Rightarrow>
             if es_hasCompression envelope \<and> es_compression envelope = 1 then
               (if \<not> es_hasPayload envelope
                then Inl (errorf ''compressed msync envelope has no payload'')
                else Inr DecodeAdmissionCompressed)
             else if es_hasCompression envelope \<and> es_compression envelope \<noteq> 0
             then Inr DecodeAdmissionAmbiguous
             else if length data \<le> 65536 then Inr DecodeAdmissionTiny
             else if length data \<le> 1048576 then Inr DecodeAdmissionSmall
             else if length data \<le> 4194304 then Inr DecodeAdmissionLarge
             else Inr DecodeAdmissionAmbiguous))"

section \<open>The reference parser\<close>

record wireField =
  wf_number :: uint64
  wf_type :: byte
  wf_value :: "uint64 \<times> bytes"

definition readField :: "bytes \<Rightarrow> nat \<Rightarrow> go_error + (wireField \<times> nat)" where
  "readField d off =
     (case readVarint d off of Inl e \<Rightarrow> Inl e
      | Inr (tag, n) \<Rightarrow>
          (case scan_value d n (drop_bit 3 tag) (ucast (tag AND 7)) of Inl e \<Rightarrow> Inl e
           | Inr (val, m) \<Rightarrow>
               Inr (\<lparr>wf_number = drop_bit 3 tag, wf_type = ucast (tag AND 7), wf_value = val\<rparr>, m)))"

lemma readField_bounds: "readField d off = Inr (f, n) \<Longrightarrow> off < n \<and> n \<le> length d"
  by (auto simp: readField_def split: sum.splits prod.splits dest!: scan_value_bounds varint.rd_bounds)

function wire_fields_from :: "bytes \<Rightarrow> nat \<Rightarrow> wireField list option" where
  "wire_fields_from d off =
     (if off < length d then
        (case readField d off of Inl e \<Rightarrow> None
         | Inr (f, n) \<Rightarrow> map_option ((#) f) (wire_fields_from d n))
      else Some [])"
  by pat_completeness auto
termination
  by (relation "measure (\<lambda>(d, off). length d - off)") (auto dest!: readField_bounds)

declare wire_fields_from.simps [simp del]

definition wire_fields :: "bytes \<Rightarrow> wireField list option" where
  "wire_fields d = wire_fields_from d 0"

section \<open>The field reader\<close>

lemma subslice_local: "take n d' = take n d \<Longrightarrow> i \<le> n \<Longrightarrow> subslice d' i n = subslice d i n"
  by (simp add: subslice_def take_drop)

lemma subslice_shift: "subslice (us @ d) (length us + i) (length us + j) = subslice d i j"
  by (simp add: subslice_def)

lemma scan_value_local:
  assumes "scan_value d off number wt = Inr (val, n)" and t: "take n d' = take n d"
  shows "scan_value d' off number wt = Inr (val, n)"
proof -
  have l: "n \<le> length d'" using scan_value_bounds [OF assms(1)] arg_cong [OF t, of length] by simp
  have r: "readVarint d' off = Inr (x, k)" if "readVarint d off = Inr (x, k)" "k \<le> n" for x k
    by (rule varint.rd_local [OF that(1)]) (metis t that(2) min_absorb1 take_take)
  show ?thesis
    using assms(1) l subslice_local [OF t]
    by (auto simp: scan_value_def r split: if_splits sum.splits prod.splits)
qed

lemma scan_value_shift:
  "scan_value (us @ d) (length us + off) number wt = shift_result (length us) (scan_value d off number wt)"
  by (cases "readVarint d off") (auto simp: scan_value_def varint.rd_shift add.assoc subslice_shift)

interpretation field_value: wire_reader "\<lambda>d off. scan_value d off number wt" for number wt
  by unfold_locales (rule scan_value_bounds scan_value_local scan_value_shift; assumption)+

lemma readField_Inr:
  "readField d off = Inr (f, n) \<longleftrightarrow>
     (\<exists>tag k. readVarint d off = Inr (tag, k) \<and> wf_number f = drop_bit 3 tag \<and> wf_type f = ucast (tag AND 7)
        \<and> scan_value d k (wf_number f) (wf_type f) = Inr (wf_value f, n))"
  by (cases f) (auto simp: readField_def split: sum.splits prod.splits)

interpretation field: wire_reader readField
proof
  show "off < n \<and> n \<le> length d" if "readField d off = Inr (x, n)" for d off x n
    using that by (rule readField_bounds)
  show "readField d' off = Inr (x, n)" if f: "readField d off = Inr (x, n)" and d: "take n d' = take n d" for d off x n d'
  proof -
    obtain tag k where t: "readVarint d off = Inr (tag, k)" "wf_number x = drop_bit 3 tag" "wf_type x = ucast (tag AND 7)"
      and v: "scan_value d k (wf_number x) (wf_type x) = Inr (wf_value x, n)"
      using f by (auto simp: readField_Inr)
    have "k \<le> n" using scan_value_bounds [OF v] by simp
    then have "readVarint d' off = Inr (tag, k)"
      by (intro varint.rd_local [OF t(1)]) (metis d min_absorb1 take_take)
    with t scan_value_local [OF v d] show ?thesis by (auto simp: readField_Inr)
  qed
  show "readField (us @ d) (length us + off) = shift_result (length us) (readField d off)" for us d off
    by (cases "readVarint d off")
       (auto simp: readField_def varint.rd_shift scan_value_shift split: sum.splits prod.splits)
qed

lemma wire_fields_from_reads:
  "wire_fields_from d off = Some fs \<longleftrightarrow> (\<exists>ps. reads readField d off ps (length d) \<and> map fst ps = fs)"
  if "off \<le> length d"
  using that
proof (induction d off arbitrary: fs rule: wire_fields_from.induct)
  case (1 d off)
  show ?case
  proof (cases "off < length d")
    case False
    then have e: "off = length d" using 1(2) by simp
    show ?thesis by (subst wire_fields_from.simps) (auto simp: e field.reads_at_end)
  next
    case True
    show ?thesis
    proof (cases "readField d off")
      case (Inl e)
      have "\<not> reads readField d off ps (length d)" for ps using True Inl by (cases ps) auto
      then show ?thesis using True Inl by (subst wire_fields_from.simps) auto
    next
      case (Inr fn)
      obtain f n where fn: "fn = (f, n)" by (cases fn)
      with Inr have r: "readField d off = Inr (f, n)" by simp
      then have n: "n \<le> length d" using readField_bounds by blast
      have IH: "wire_fields_from d n = Some gs \<longleftrightarrow> (\<exists>ps. reads readField d n ps (length d) \<and> map fst ps = gs)" for gs
        using 1(1) [OF True Inr, of f n gs] fn n by simp
      have "(\<exists>ps. reads readField d off ps (length d) \<and> map fst ps = fs)
          \<longleftrightarrow> (\<exists>gs. fs = f # gs \<and> (\<exists>ps. reads readField d n ps (length d) \<and> map fst ps = gs))" (is "?L \<longleftrightarrow> ?R")
      proof
        assume ?L
        then obtain ps where "reads readField d off ps (length d)" "map fst ps = fs" by blast
        then show ?R using r True by (cases ps) auto
      next
        assume ?R
        then obtain ps where "reads readField d n ps (length d)" "fs = f # map fst ps" by auto
        then have "reads readField d off ((f, off, n) # ps) (length d)" "map fst ((f, off, n) # ps) = fs" using r by auto
        then show ?L by blast
      qed
      then show ?thesis using True r IH by (subst wire_fields_from.simps) auto
    qed
  qed
qed

lemma wire_fields_reads: "wire_fields d = Some fs \<longleftrightarrow> (\<exists>ps. reads readField d 0 ps (length d) \<and> map fst ps = fs)"
  unfolding wire_fields_def by (rule wire_fields_from_reads) simp

section \<open>What the scan computes\<close>

definition field_apply :: "wireField \<times> nat \<times> nat \<Rightarrow> envelopeScan \<Rightarrow> envelopeScan option" where
  "field_apply p r =
     (let f = fst p in
      if wf_number f = 0 \<or> es_fieldCount r \<ge> maxEnvelopeFields
         \<or> (wf_number f = msyncCompressField \<and> es_hasCompression r) \<or> (wf_number f = msyncPayloadField \<and> es_hasPayload r)
      then None
      else
        (case scan_record (wf_number f) (wf_type f) (wf_value f) (snd p) (r\<lparr>es_fieldCount := Suc (es_fieldCount r)\<rparr>) of
           Inl e \<Rightarrow> None | Inr r1 \<Rightarrow> Some r1))"

fun fold_fields :: "(wireField \<times> nat \<times> nat) list \<Rightarrow> envelopeScan \<Rightarrow> envelopeScan option" where
  "fold_fields [] r = Some r"
| "fold_fields (p # ps) r = (case field_apply p r of None \<Rightarrow> None | Some r1 \<Rightarrow> fold_fields ps r1)"

lemma scan_round_iff:
  "scan_round d off r = Inr (n, r') \<longleftrightarrow> (\<exists>f. readField d off = Inr (f, n) \<and> field_apply (f, off, n) r = Some r')"
proof (cases "readVarint d off")
  case (Inl e)
  then show ?thesis by (simp add: scan_round_def readField_def)
next
  case (Inr x)
  obtain tag k where x: "readVarint d off = Inr (tag, k)" using Inr by (cases x) auto
  show ?thesis
  proof (cases "scan_value d k (drop_bit 3 tag) (ucast (tag AND 7))")
    case (Inl e)
    then show ?thesis by (simp add: scan_round_def readField_def x Let_def)
  next
    case (Inr y)
    obtain val m where y: "scan_value d k (drop_bit 3 tag) (ucast (tag AND 7)) = Inr (val, m)"
      using Inr by (cases y) auto
    let ?f = "\<lparr>wf_number = drop_bit 3 tag, wf_type = ucast (tag AND 7), wf_value = val\<rparr>"
    have "readField d off = Inr (?f, m)" by (simp add: readField_def x y)
    moreover have "scan_round d off r = Inr (n, r') \<longleftrightarrow> n = m \<and> field_apply (?f, off, m) r = Some r'"
      by (cases "scan_record (drop_bit 3 tag) (ucast (tag AND 7)) val (off, m) (r\<lparr>es_fieldCount := Suc (es_fieldCount r)\<rparr>)")
         (simp_all add: scan_round_def x y field_apply_def Let_def, auto)
    ultimately show ?thesis by auto
  qed
qed

lemma scan_loop_iff:
  "off \<le> length d \<Longrightarrow>
   scan_loop d off r = Inr r' \<longleftrightarrow> (\<exists>ps. reads readField d off ps (length d) \<and> fold_fields ps r = Some r')"
proof (induction d off r rule: scan_loop.induct)
  case (1 d off r)
  show ?case
  proof (cases "off < length d")
    case False
    then have e: "off = length d" using 1(2) by simp
    show ?thesis by (subst scan_loop.simps) (auto simp: e field.reads_at_end)
  next
    case True
    have "scan_loop d off r = Inr r' \<longleftrightarrow> (\<exists>n r1. scan_round d off r = Inr (n, r1) \<and> scan_loop d n r1 = Inr r')"
      using True by (subst scan_loop.simps) (auto split: sum.splits prod.splits)
    also have "\<dots> \<longleftrightarrow> (\<exists>n r1 ps. scan_round d off r = Inr (n, r1) \<and> reads readField d n ps (length d)
        \<and> fold_fields ps r1 = Some r')"
      using 1(1) [OF True] scan_round_advances [of d off r] by blast
    also have "\<dots> \<longleftrightarrow> (\<exists>ps. reads readField d off ps (length d) \<and> fold_fields ps r = Some r')" (is "?L \<longleftrightarrow> ?R")
    proof
      assume ?L
      then obtain n r1 ps f where "readField d off = Inr (f, n)" "field_apply (f, off, n) r = Some r1"
        "reads readField d n ps (length d)" "fold_fields ps r1 = Some r'"
        by (auto simp: scan_round_iff)
      then show ?R by (intro exI [of _ "(f, off, n) # ps"]) simp
    next
      assume ?R
      then obtain ps where ps: "reads readField d off ps (length d)" "fold_fields ps r = Some r'" by blast
      with True obtain p qs where "ps = p # qs" by (cases ps) auto
      then show ?L using ps by (cases p) (auto simp: scan_round_iff split: option.splits)
    qed
    finally show ?thesis .
  qed
qed

lemma scanEnvelope_iff:
  "scanEnvelope d = Inr r \<longleftrightarrow> (\<exists>ps. reads readField d 0 ps (length d) \<and> fold_fields ps zeroScan = Some r)"
  unfolding scanEnvelope_def by (rule scan_loop_iff) simp

text \<open>Which lists of fields are accepted, and what the result then says.\<close>

definition field_ok :: "wireField \<Rightarrow> bool" where
  "field_ok f \<longleftrightarrow> wf_number f \<noteq> 0 \<and> (wf_number f = msyncCompressField \<longrightarrow> wf_type f = wireVarint)
     \<and> (wf_number f = msyncPayloadField \<longrightarrow> wf_type f = wireBytes)"

fun occurrences :: "uint64 \<Rightarrow> wireField list \<Rightarrow> nat" where
  "occurrences n [] = 0"
| "occurrences n (f # fs) = (if wf_number f = n then 1 else 0) + occurrences n fs"

definition envelope_ok :: "nat \<Rightarrow> bool \<Rightarrow> bool \<Rightarrow> wireField list \<Rightarrow> bool" where
  "envelope_ok k hc hp fs \<longleftrightarrow> list_all field_ok fs \<and> k + length fs \<le> maxEnvelopeFields
     \<and> occurrences msyncCompressField fs + (if hc then 1 else 0) \<le> 1
     \<and> occurrences msyncPayloadField fs + (if hp then 1 else 0) \<le> 1"

lemma field_apply_Some:
  "field_apply (f, raw) r = Some r1 \<longleftrightarrow>
     field_ok f \<and> es_fieldCount r < maxEnvelopeFields
     \<and> (wf_number f = msyncCompressField \<longrightarrow> \<not> es_hasCompression r) \<and> (wf_number f = msyncPayloadField \<longrightarrow> \<not> es_hasPayload r)
     \<and> r1 = (if wf_number f = msyncCompressField
             then r\<lparr>es_fieldCount := Suc (es_fieldCount r), es_hasCompression := True,
                    es_compression := fst (wf_value f), es_compressionRaw := raw\<rparr>
             else if wf_number f = msyncPayloadField
             then r\<lparr>es_fieldCount := Suc (es_fieldCount r), es_hasPayload := True,
                    es_payload := snd (wf_value f), es_payloadRaw := raw\<rparr>
             else r\<lparr>es_fieldCount := Suc (es_fieldCount r)\<rparr>)"
  by (auto simp: field_apply_def scan_record_def field_ok_def Let_def not_le)

lemma field_apply_None:
  "field_apply (f, raw) r = None \<longleftrightarrow>
     \<not> (field_ok f \<and> es_fieldCount r < maxEnvelopeFields
        \<and> (wf_number f = msyncCompressField \<longrightarrow> \<not> es_hasCompression r)
        \<and> (wf_number f = msyncPayloadField \<longrightarrow> \<not> es_hasPayload r))"
proof -
  have "field_apply (f, raw) r = None \<longleftrightarrow> (\<forall>r1. field_apply (f, raw) r \<noteq> Some r1)" by (cases "field_apply (f, raw) r") auto
  then show ?thesis unfolding field_apply_Some by simp
qed

lemma field_apply_views:
  assumes "field_apply (f, raw) r = Some r1"
  shows "field_ok f" and "es_fieldCount r < maxEnvelopeFields"
    and "wf_number f = msyncCompressField \<Longrightarrow> \<not> es_hasCompression r"
    and "wf_number f = msyncPayloadField \<Longrightarrow> \<not> es_hasPayload r"
    and "es_fieldCount r1 = Suc (es_fieldCount r)"
    and "es_hasCompression r1 = (wf_number f = msyncCompressField \<or> es_hasCompression r)"
    and "es_hasPayload r1 = (wf_number f = msyncPayloadField \<or> es_hasPayload r)"
    and "es_compression r1 = (if wf_number f = msyncCompressField then fst (wf_value f) else es_compression r)"
    and "es_compressionRaw r1 = (if wf_number f = msyncCompressField then raw else es_compressionRaw r)"
    and "es_payload r1 = (if wf_number f = msyncPayloadField then snd (wf_value f) else es_payload r)"
    and "es_payloadRaw r1 = (if wf_number f = msyncPayloadField then raw else es_payloadRaw r)"
  using assms unfolding field_apply_Some by simp_all

lemma fold_fields_accepts:
  "(\<exists>r'. fold_fields ps r = Some r') \<longleftrightarrow>
     envelope_ok (es_fieldCount r) (es_hasCompression r) (es_hasPayload r) (map fst ps)"
  if "es_fieldCount r \<le> maxEnvelopeFields"
  using that
proof (induction ps arbitrary: r)
  case Nil
  then show ?case by (simp add: envelope_ok_def)
next
  case (Cons p ps)
  obtain f raw where p: "p = (f, raw)" by (cases p)
  show ?case
  proof (cases "field_apply p r")
    case None
    then have "\<not> (field_ok f \<and> es_fieldCount r < maxEnvelopeFields
      \<and> (wf_number f = msyncCompressField \<longrightarrow> \<not> es_hasCompression r) \<and> (wf_number f = msyncPayloadField \<longrightarrow> \<not> es_hasPayload r))"
      unfolding p field_apply_None .
    then show ?thesis using None p by (auto simp: envelope_ok_def)
  next
    case (Some r1)
    note r1 = field_apply_views [OF Some [unfolded p]]
    show ?thesis
      using r1 Some p Cons.IH [of r1]
      by (cases "wf_number f = msyncCompressField"; cases "wf_number f = msyncPayloadField") (simp_all add: envelope_ok_def)
  qed
qed

lemma occurrences_append [simp]: "occurrences n (fs @ gs) = occurrences n fs + occurrences n gs"
  by (induction fs) auto

lemma occurrences_0: "occurrences n fs = 0 \<longleftrightarrow> (\<forall>f \<in> set fs. wf_number f \<noteq> n)"
  by (induction fs) auto

text \<open>Fields that are neither the compression nor the payload only count.\<close>

lemma fold_fields_other:
  assumes "fold_fields ps r = Some r'"
  shows "es_fieldCount r' = es_fieldCount r + length ps"
    and "occurrences msyncCompressField (map fst ps) = 0 \<Longrightarrow> es_hasCompression r' = es_hasCompression r
      \<and> es_compression r' = es_compression r \<and> es_compressionRaw r' = es_compressionRaw r"
    and "occurrences msyncPayloadField (map fst ps) = 0 \<Longrightarrow> es_hasPayload r' = es_hasPayload r
      \<and> es_payload r' = es_payload r \<and> es_payloadRaw r' = es_payloadRaw r"
  using assms
proof (induction ps arbitrary: r)
  case (Cons p ps)
  {
    case 1
    then obtain r1 where "field_apply p r = Some r1" "fold_fields ps r1 = Some r'" by (auto split: option.splits)
    with Cons.IH(1) [of r1] show ?case by (cases p) (simp add: field_apply_views(5))
  next
    case 2
    obtain r1 where "field_apply p r = Some r1" "fold_fields ps r1 = Some r'" using 2(2) by (auto split: option.splits)
    with 2(1) Cons.IH(2) [of r1] show ?case by (cases p) (auto simp: field_apply_views split: if_splits)
  next
    case 3
    obtain r1 where "field_apply p r = Some r1" "fold_fields ps r1 = Some r'" using 3(2) by (auto split: option.splits)
    with 3(1) Cons.IH(3) [of r1] show ?case by (cases p) (auto simp: field_apply_views split: if_splits)
  }
qed simp_all

lemma fold_fields_append:
  "fold_fields (ps @ qs) r = (case fold_fields ps r of None \<Rightarrow> None | Some r1 \<Rightarrow> fold_fields qs r1)"
  by (induction ps arbitrary: r) (auto split: option.splits)

lemma fold_fields_split:
  assumes "fold_fields (ps @ (f, raw) # qs) zeroScan = Some r"
  shows "wf_number f = msyncCompressField \<Longrightarrow> es_hasCompression r \<and> es_compression r = fst (wf_value f) \<and> es_compressionRaw r = raw"
    and "wf_number f = msyncPayloadField \<Longrightarrow> es_hasPayload r \<and> es_payload r = snd (wf_value f) \<and> es_payloadRaw r = raw"
proof -
  obtain r1 r2 where 1: "fold_fields ps zeroScan = Some r1" and 2: "field_apply (f, raw) r1 = Some r2"
    and 3: "fold_fields qs r2 = Some r"
    using assms by (auto simp: fold_fields_append split: option.splits)
  have "envelope_ok 0 False False (map fst (ps @ (f, raw) # qs))"
    using fold_fields_accepts [of zeroScan "ps @ (f, raw) # qs"] assms by (auto simp: zeroScan_def)
  then have o: "wf_number f = msyncCompressField \<Longrightarrow> occurrences msyncCompressField (map fst qs) = 0"
    "wf_number f = msyncPayloadField \<Longrightarrow> occurrences msyncPayloadField (map fst qs) = 0"
    by (auto simp: envelope_ok_def)
  show "es_hasCompression r \<and> es_compression r = fst (wf_value f) \<and> es_compressionRaw r = raw"
    if "wf_number f = msyncCompressField"
    using fold_fields_other(2) [OF 3 o(1) [OF that]] that by (simp add: field_apply_views [OF 2])
  show "es_hasPayload r \<and> es_payload r = snd (wf_value f) \<and> es_payloadRaw r = raw"
    if "wf_number f = msyncPayloadField"
    using fold_fields_other(3) [OF 3 o(2) [OF that]] that by (simp add: field_apply_views [OF 2])
qed

lemma fold_fields_member:
  assumes "fold_fields ps zeroScan = Some r" and "(f, raw) \<in> set ps"
  shows "wf_number f = msyncCompressField \<Longrightarrow> es_hasCompression r \<and> es_compression r = fst (wf_value f) \<and> es_compressionRaw r = raw"
    and "wf_number f = msyncPayloadField \<Longrightarrow> es_hasPayload r \<and> es_payload r = snd (wf_value f) \<and> es_payloadRaw r = raw"
proof -
  obtain us vs where "ps = us @ (f, raw) # vs" using split_list [OF assms(2)] by blast
  then have "fold_fields (us @ (f, raw) # vs) zeroScan = Some r" using assms(1) by simp
  from fold_fields_split [OF this]
  show "wf_number f = msyncCompressField \<Longrightarrow> es_hasCompression r \<and> es_compression r = fst (wf_value f) \<and> es_compressionRaw r = raw"
    and "wf_number f = msyncPayloadField \<Longrightarrow> es_hasPayload r \<and> es_payload r = snd (wf_value f) \<and> es_payloadRaw r = raw"
    by blast+
qed

lemma fold_fields_found:
  assumes "fold_fields ps zeroScan = Some r"
  shows "es_hasCompression r \<Longrightarrow> \<exists>f raw. (f, raw) \<in> set ps \<and> wf_number f = msyncCompressField"
    and "es_hasPayload r \<Longrightarrow> \<exists>f raw. (f, raw) \<in> set ps \<and> wf_number f = msyncPayloadField"
proof -
  show "\<exists>f raw. (f, raw) \<in> set ps \<and> wf_number f = msyncCompressField" if h: "es_hasCompression r"
  proof (rule ccontr)
    assume "\<not> ?thesis"
    then have "occurrences msyncCompressField (map fst ps) = 0" by (fastforce simp: occurrences_0)
    with fold_fields_other(2) [OF assms] h show False by (simp add: zeroScan_def)
  qed
  show "\<exists>f raw. (f, raw) \<in> set ps \<and> wf_number f = msyncPayloadField" if h: "es_hasPayload r"
  proof (rule ccontr)
    assume "\<not> ?thesis"
    then have "occurrences msyncPayloadField (map fst ps) = 0" by (fastforce simp: occurrences_0)
    with fold_fields_other(3) [OF assms] h show False by (simp add: zeroScan_def)
  qed
qed

section \<open>Encoded fields\<close>

definition compressionSeg :: bytes where
  "compressionSeg = putUvarint (push_bit 3 msyncCompressField OR ucast wireVarint) @ putUvarint 0"

definition bytesSeg :: "uint64 \<Rightarrow> bytes \<Rightarrow> bytes" where
  "bytesSeg number p = putUvarint (push_bit 3 number OR ucast wireBytes) @ putUvarint (of_nat (length p)) @ p"

lemma appendCompressionField_eq: "appendCompressionField us = us @ compressionSeg"
  by (simp add: appendCompressionField_def appendVarint_def appendKey_def compressionSeg_def)

lemma appendPayloadField_eq: "appendPayloadField us p = us @ bytesSeg msyncPayloadField p"
  by (simp add: appendPayloadField_def appendVarint_def appendKey_def bytesSeg_def)

lemma bytesSeg_length: "length (bytesSeg number p) = bytesFieldSize number (length p)"
  by (simp add: bytesSeg_def bytesFieldSize_def varintSize_def)

lemma readVarint_front: "readVarint (putUvarint x @ vs) 0 = Inr (x, length (putUvarint x))"
  using readVarint_encoded [of "[]" x vs] by (simp add: varintSize_def)

lemma compressionSeg_read:
  "readField compressionSeg 0 = Inr (\<lparr>wf_number = msyncCompressField, wf_type = wireVarint, wf_value = (0, [])\<rparr>,
     length compressionSeg)"
proof -
  let ?k = "putUvarint (push_bit 3 msyncCompressField OR ucast wireVarint)"
  have k: "drop_bit 3 (push_bit 3 msyncCompressField OR ucast wireVarint) = msyncCompressField"
    "ucast ((push_bit 3 msyncCompressField OR ucast wireVarint :: uint64) AND 7) = wireVarint"
    by (rule key_split; simp)+
  have "readVarint compressionSeg 0 = Inr (push_bit 3 msyncCompressField OR ucast wireVarint, length ?k)"
    unfolding compressionSeg_def by (rule readVarint_front)
  moreover have "readVarint compressionSeg (length ?k) = Inr (0, length compressionSeg)"
    using readVarint_encoded [of ?k 0 "[]"] by (simp add: compressionSeg_def varintSize_def)
  ultimately show ?thesis using k unfolding readField_def by (simp add: scan_value_def)
qed

lemma bytesSeg_read:
  assumes "unat number < 2 ^ 61" and "length p < 2 ^ 64"
  shows "readField (bytesSeg number p) 0 = Inr (\<lparr>wf_number = number, wf_type = wireBytes, wf_value = (0, p)\<rparr>,
     length (bytesSeg number p))"
proof -
  let ?k = "putUvarint (push_bit 3 number OR ucast wireBytes)" and ?l = "putUvarint (of_nat (length p))"
  have k: "drop_bit 3 (push_bit 3 number OR ucast wireBytes) = number"
    "ucast ((push_bit 3 number OR ucast wireBytes) AND 7) = wireBytes"
    using assms(1) by (rule key_split; simp)+
  have "readVarint (bytesSeg number p) 0 = Inr (push_bit 3 number OR ucast wireBytes, length ?k)"
    unfolding bytesSeg_def by (rule readVarint_front)
  moreover have "readVarint (bytesSeg number p) (length ?k) = Inr (of_nat (length p), length (?k @ ?l))"
    using readVarint_encoded [of ?k "of_nat (length p)" p] by (simp add: bytesSeg_def varintSize_def)
  moreover have "unat (of_nat (length p) :: uint64) = length p" using assms(2) by (simp add: unat_of_nat)
  ultimately show ?thesis
    using k unfolding readField_def by (simp add: scan_value_def bytesSeg_def subslice_def)
qed

section \<open>Decompression rewrites exactly two fields\<close>

definition inflated :: "bytes \<Rightarrow> wireField \<Rightarrow> wireField" where
  "inflated payload f =
     (if wf_number f = msyncCompressField then f\<lparr>wf_value := (0, [])\<rparr>
      else if wf_number f = msyncPayloadField then f\<lparr>wf_value := (0, payload)\<rparr> else f)"

lemma inflated_number [simp]: "wf_number (inflated p f) = wf_number f" "wf_type (inflated p f) = wf_type f"
  by (simp_all add: inflated_def)

lemma field_ok_inflated [simp]: "field_ok (inflated p f) = field_ok f"
  by (simp add: field_ok_def)

lemma envelope_ok_inflated: "envelope_ok k hc hp (map (inflated p) fs) = envelope_ok k hc hp fs"
proof -
  have "occurrences n (map (inflated p) fs) = occurrences n fs" for n by (induction fs) auto
  then show ?thesis by (simp add: envelope_ok_def list_all_iff)
qed

lemma inflated_others:
  "occurrences msyncCompressField fs = 0 \<Longrightarrow> occurrences msyncPayloadField fs = 0 \<Longrightarrow> map (inflated p) fs = fs"
  by (induction fs) (auto simp: inflated_def split: if_splits)

lemma inflated_pair:
  assumes "envelope_ok 0 False False (as @ x # ms @ y # zs)"
    and "wf_number x = msyncCompressField \<and> wf_number y = msyncPayloadField
       \<or> wf_number x = msyncPayloadField \<and> wf_number y = msyncCompressField"
  shows "map (inflated p) (as @ x # ms @ y # zs) = as @ inflated p x # ms @ inflated p y # zs"
proof -
  have o: "occurrences msyncCompressField (as @ x # ms @ y # zs) \<le> 1" "occurrences msyncPayloadField (as @ x # ms @ y # zs) \<le> 1"
    using assms(1) by (simp_all add: envelope_ok_def)
  have "map (inflated p) as = as" "map (inflated p) ms = ms" "map (inflated p) zs = zs"
    by (rule inflated_others; insert o assms(2); auto)+
  then show ?thesis by simp
qed

lemma two_members:
  assumes "x \<in> set ps" and "y \<in> set ps" and "x \<noteq> y"
  shows "(\<exists>as bs cs. ps = as @ x # bs @ y # cs) \<or> (\<exists>as bs cs. ps = as @ y # bs @ x # cs)"
proof -
  obtain as zs where 1: "ps = as @ x # zs" using assms(1) by (meson split_list)
  with assms(2,3) consider "y \<in> set as" | "y \<in> set zs" by auto
  then show ?thesis
  proof cases
    case 1
    then obtain us vs where "as = us @ y # vs" by (meson split_list)
    with \<open>ps = as @ x # zs\<close> have "ps = us @ y # vs @ x # zs" by simp
    then show ?thesis by blast
  next
    case 2
    then obtain us vs where "zs = us @ y # vs" by (meson split_list)
    with \<open>ps = as @ x # zs\<close> have "ps = as @ x # us @ y # vs" by simp
    then show ?thesis by blast
  qed
qed

lemma rebuild_reads:
  assumes r: "reads readField d 0 ps (length d)" and f: "fold_fields ps zeroScan = Some env"
    and h: "es_hasCompression env" "es_hasPayload env" and l: "length payload < 2 ^ 64"
  shows "\<exists>qs. reads readField (rebuild d env payload) 0 qs (length (rebuild d env payload))
      \<and> map fst qs = map (inflated payload) (map fst ps)" (is ?reads)
    and "let (s1, e1) = es_compressionRaw env; (s2, e2) = es_payloadRaw env
         in s1 < e1 \<and> s2 < e2 \<and> (e1 - s1) + (e2 - s2) \<le> length d
            \<and> length (rebuild d env payload) + (e1 - s1) + (e2 - s2)
              = length d + length compressionSeg + bytesFieldSize msyncPayloadField (length payload)" (is ?size)
proof -
  obtain c s1 e1 where c: "(c, s1, e1) \<in> set ps" "wf_number c = msyncCompressField"
    using fold_fields_found(1) [OF f h(1)] by (metis prod.collapse)
  obtain p s2 e2 where p: "(p, s2, e2) \<in> set ps" "wf_number p = msyncPayloadField"
    using fold_fields_found(2) [OF f h(2)] by (metis prod.collapse)
  have ok: "envelope_ok 0 False False (map fst ps)"
    using fold_fields_accepts [of zeroScan ps] f by (auto simp: zeroScan_def)
  have t: "wf_type c = wireVarint" "wf_type p = wireBytes"
    using ok c p by (fastforce simp: envelope_ok_def list_all_iff field_ok_def)+
  have ic: "inflated payload c = \<lparr>wf_number = msyncCompressField, wf_type = wireVarint, wf_value = (0, [])\<rparr>"
    and ip: "inflated payload p = \<lparr>wf_number = msyncPayloadField, wf_type = wireBytes, wf_value = (0, payload)\<rparr>"
    using c(2) p(2) t by (simp_all add: inflated_def)
  note cs = compressionSeg_read [folded ic]
  have bs: "readField (bytesSeg msyncPayloadField payload) 0
      = Inr (inflated payload p, length (bytesSeg msyncPayloadField payload))"
    unfolding ip using l by (intro bytesSeg_read) simp_all
  have ne: "(c, s1, e1) \<noteq> (p, s2, e2)" using c(2) p(2) by auto
  have rc: "es_compressionRaw env = (s1, e1)" using fold_fields_member(1) [OF f c] by blast
  have rp: "es_payloadRaw env = (s2, e2)" using fold_fields_member(2) [OF f p] by blast
  from two_members [OF c(1) p(1) ne] have "?reads \<and> ?size"
  proof (elim disjE exE)
    fix as ms zs assume ps: "ps = as @ (c, s1, e1) # ms @ (p, s2, e2) # zs"
    note sp = field.reads_splice2 [OF r [unfolded ps] cs bs]
    have out: "rebuild d env payload =
        take s1 d @ compressionSeg @ subslice d e1 s2 @ bytesSeg msyncPayloadField payload @ drop e2 d"
      using sp by (simp add: rebuild_def rc rp appendCompressionField_eq appendPayloadField_eq)
    have "map (inflated payload) (map fst ps)
        = map fst as @ inflated payload c # map fst ms @ inflated payload p # map fst zs"
      using inflated_pair [of "map fst as" c "map fst ms" p "map fst zs" payload] ok c(2) p(2) by (simp add: ps)
    then have "?reads" unfolding out using sp by metis
    moreover have "?size" using sp by (auto simp: out rc rp bytesSeg_length)
    ultimately show ?thesis by blast
  next
    fix as ms zs assume ps: "ps = as @ (p, s2, e2) # ms @ (c, s1, e1) # zs"
    note sp = field.reads_splice2 [OF r [unfolded ps] bs cs]
    have out: "rebuild d env payload =
        take s2 d @ bytesSeg msyncPayloadField payload @ subslice d e2 s1 @ compressionSeg @ drop e1 d"
      using sp by (simp add: rebuild_def rc rp appendCompressionField_eq appendPayloadField_eq)
    have "map (inflated payload) (map fst ps)
        = map fst as @ inflated payload p # map fst ms @ inflated payload c # map fst zs"
      using inflated_pair [of "map fst as" p "map fst ms" c "map fst zs" payload] ok c(2) p(2) by (simp add: ps)
    then have "?reads" unfolding out using sp by metis
    moreover have "?size" using sp by (auto simp: out rc rp bytesSeg_length)
    ultimately show ?thesis by blast
  qed
  then show ?reads ?size by auto
qed

lemma checkedAdd_ok: "checkedAdd a b = (c, True) \<Longrightarrow> unat c = unat a + unat b"
proof -
  assume "checkedAdd a b = (c, True)"
  then have "checkedRetainedAdd a b = Some c"
    by (auto simp: checkedAdd_def checkedRetainedAdd_def split: if_splits)
  then have "unat a + unat b < two64" "c = of_nat (unat a + unat b)"
    by (auto simp: checkedRetainedAdd_exact split: if_splits)
  then show ?thesis by (simp only: unat_of_nat) (simp add: two64_def)
qed

lemma compressionSeg_length: "length compressionSeg = 2"
  unfolding compressionSeg_def by (simp add: putUvarint.simps)

lemma rebuiltEnvelopeSize_value:
  assumes "rebuiltEnvelopeSize n env k = Inr m" and "es_compressionRaw env = (s1, e1)" "es_payloadRaw env = (s2, e2)"
    and "s1 < e1" "s2 < e2" "(e1 - s1) + (e2 - s2) \<le> n" and "n < 2 ^ 63" "k < 2 ^ 63"
  shows "m + (e1 - s1) + (e2 - s2) = n + 2 + bytesFieldSize msyncPayloadField k \<and> m \<le> MaxCodecInputBytes"
proof -
  let ?rem = "(int e1 - int s1) + (int e2 - int s2)"
  let ?n0 = "of_int (int n - ?rem) :: uint64"
  have rem: "\<not> ?rem < 0" "\<not> ?rem > int n" using assms(4-6) by auto
  have v: "varintSize (32 :: uint64) = 1" "varintSize (74 :: uint64) = 1"
    by (simp_all add: varintSize_def putUvarint.simps)
  obtain n1 n2 n3 n4 where
    c: "checkedAdd ?n0 (of_nat (varintSize (32 :: uint64) + 1)) = (n1, True)"
       "checkedAdd n1 (of_nat (varintSize (74 :: uint64))) = (n2, True)"
       "checkedAdd n2 (of_nat (varintSize (of_nat k))) = (n3, True)" "checkedAdd n3 (of_nat k) = (n4, True)"
    and m: "m = unat n4" "\<not> n4 > of_nat MaxCodecInputBytes"
    using assms(1) rem unfolding rebuiltEnvelopeSize_def assms(2,3)
    by (auto simp: Let_def split: prod.splits if_splits)
  have "uint (of_int z :: uint64) = z" if "0 \<le> z" "z \<le> int n" for z
    using that assms(7) by (simp add: uint_word_of_int)
  from this [of "int n - ?rem"] have "int (unat ?n0) = int n - ?rem" using rem by (simp only: uint_nat)
  then have n0: "unat ?n0 + (e1 - s1) + (e2 - s2) = n" using assms(4,5) by linarith
  have "unat (of_nat (varintSize (of_nat k)) :: uint64) = varintSize (of_nat k)"
    using varintSize_le [of "of_nat k"] by (simp add: unat_of_nat)
  moreover have "unat (of_nat k :: uint64) = k" using assms(8) by (simp add: unat_of_nat)
  ultimately have "unat n4 = unat ?n0 + 3 + varintSize (of_nat k) + k"
    using checkedAdd_ok [OF c(1)] checkedAdd_ok [OF c(2)] checkedAdd_ok [OF c(3)] checkedAdd_ok [OF c(4)] v by simp
  moreover have "bytesFieldSize msyncPayloadField k = 1 + varintSize (of_nat k) + k"
    using v by (simp add: bytesFieldSize_def)
  moreover have "m \<le> MaxCodecInputBytes" using m by (simp add: not_less word_le_nat_alt)
  ultimately show ?thesis using n0 m(1) by simp
qed

lemma scan_compression_value:
  assumes "reads readField d 0 ps (length d)" and "fold_fields ps zeroScan = Some r"
  shows "es_hasCompression r \<and> es_compression r \<noteq> 0
    \<longleftrightarrow> (\<exists>f \<in> set (map fst ps). wf_number f = msyncCompressField \<and> fst (wf_value f) \<noteq> 0)"
proof -
  have v: "es_hasCompression r \<and> es_compression r = fst (wf_value f)"
    if "(f, raw) \<in> set ps" "wf_number f = msyncCompressField" for f raw
    using fold_fields_member(1) [OF assms(2) that] by blast
  show ?thesis
  proof
    assume l: "es_hasCompression r \<and> es_compression r \<noteq> 0"
    then obtain f raw where f: "(f, raw) \<in> set ps" "wf_number f = msyncCompressField"
      using fold_fields_found(1) [OF assms(2)] by blast
    then have "f \<in> set (map fst ps)" and "fst (wf_value f) \<noteq> 0" using v [OF f] l by (force, simp)
    with f(2) show "\<exists>f \<in> set (map fst ps). wf_number f = msyncCompressField \<and> fst (wf_value f) \<noteq> 0" by blast
  next
    assume "\<exists>f \<in> set (map fst ps). wf_number f = msyncCompressField \<and> fst (wf_value f) \<noteq> 0"
    then show "es_hasCompression r \<and> es_compression r \<noteq> 0" using v by fastforce
  qed
qed

lemma scan_of_fields:
  assumes "reads readField out 0 qs (length out)" and "envelope_ok 0 False False (map fst qs)"
  obtains env where "fold_fields qs zeroScan = Some env" "scanEnvelope out = Inr env"
proof -
  obtain env where f: "fold_fields qs zeroScan = Some env"
    using assms(2) fold_fields_accepts [of zeroScan qs] by (auto simp: zeroScan_def)
  then have "scanEnvelope out = Inr env" using assms(1) by (auto simp: scanEnvelope_iff)
  with f show thesis by (rule that)
qed

text \<open>The rebuilt envelope: within the limit, its fields known, and not compressed any more.\<close>

lemma rebuilt_envelope:
  assumes r: "reads readField data 0 ps (length data)" and f: "fold_fields ps zeroScan = Some env"
    and c: "es_hasCompression env \<and> es_compression env \<noteq> 0" and h: "es_hasPayload env"
    and l: "length payload \<le> MaxCodecInputBytes" "length data \<le> MaxCodecInputBytes"
    and sz: "rebuiltEnvelopeSize (length data) env (length payload) = Inr n" and out: "out = rebuild data env payload"
  shows "length out \<le> MaxCodecInputBytes \<and> decompressEnvelopePayload zlib' out = Inr out
    \<and> wire_fields out = Some (map (inflated payload) (map fst ps))"
proof -
  obtain s1 e1 s2 e2 where raw: "es_compressionRaw env = (s1, e1)" "es_payloadRaw env = (s2, e2)" by (metis prod.exhaust)
  have "length payload < 2 ^ 64" "length payload < 2 ^ 63" "length data < 2 ^ 63" using l by simp_all
  note rb = rebuild_reads [OF r f _ h this(1)] and ln = this
  obtain qs where q: "reads readField out 0 qs (length out)" "map fst qs = map (inflated payload) (map fst ps)"
    using rb(1) c unfolding out by blast
  have lo: "length out = n \<and> n \<le> MaxCodecInputBytes"
    using rb(2) c rebuiltEnvelopeSize_value [OF sz raw _ _ _ ln(3,2)] raw unfolding out by (auto simp: compressionSeg_length)
  have "envelope_ok 0 False False (map fst qs)"
    unfolding q(2) envelope_ok_inflated using fold_fields_accepts [of zeroScan ps] f by (auto simp: zeroScan_def)
  with q(1) obtain env' where e: "fold_fields qs zeroScan = Some env'" "scanEnvelope out = Inr env'" by (rule scan_of_fields)
  have "\<not> (es_hasCompression env' \<and> es_compression env' \<noteq> 0)"
    unfolding scan_compression_value [OF q(1) e(1)] q(2) by (auto simp: inflated_def)
  then have "decompressEnvelopePayload zlib' out = Inr out" using lo e(2) by (auto simp: decompressEnvelopePayload_def)
  moreover have "wire_fields out = Some (map (inflated payload) (map fst ps))" using q wire_fields_reads by blast
  ultimately show ?thesis using lo by simp
qed

text \<open>
  C18.  Decompression rewrites exactly two fields.  When \<open>decompressEnvelopePayload\<close> succeeds, the
  result is at most 16 MiB and is a well-formed envelope that needs no further decompression.  If the
  input has no compression field, or the value 0 in it, the result is the input itself; otherwise its
  fields are those of the input, in order and unchanged, but for the compression field, now 0, and the
  payload field, now the bytes zlib yields for the old payload.
\<close>

theorem decompress_rewrites_two_fields:
  assumes "decompressEnvelopePayload zlib data = Inr out"
  shows "length out \<le> MaxCodecInputBytes \<and> decompressEnvelopePayload zlib' out = Inr out
    \<and> (\<exists>fs. wire_fields data = Some fs
        \<and> (if \<exists>f \<in> set fs. wf_number f = msyncCompressField \<and> fst (wf_value f) \<noteq> 0
           then \<exists>f payload. f \<in> set fs \<and> wf_number f = msyncPayloadField
              \<and> zlib (snd (wf_value f)) = Inr (payload, None, None) \<and> wire_fields out = Some (map (inflated payload) fs)
           else out = data))"
proof -
  have ld: "length data \<le> MaxCodecInputBytes" using assms by (simp add: decompressEnvelopePayload_def split: if_splits)
  obtain env where env: "scanEnvelope data = Inr env"
    using assms by (auto simp: decompressEnvelopePayload_def split: if_splits sum.splits)
  then obtain ps where r: "reads readField data 0 ps (length data)" and f: "fold_fields ps zeroScan = Some env"
    by (auto simp: scanEnvelope_iff)
  have wf: "wire_fields data = Some (map fst ps)" using r wire_fields_reads by blast
  note cv = scan_compression_value [OF r f]
  show ?thesis
  proof (cases "es_hasCompression env \<and> es_compression env \<noteq> 0")
    case False
    then have "out = data" using assms ld env by (auto simp: decompressEnvelopePayload_def)
    moreover have "decompressEnvelopePayload zlib' data = Inr data"
      using False ld env by (simp add: decompressEnvelopePayload_def)
    ultimately show ?thesis using ld wf cv False by auto
  next
    case True
    then have h: "es_hasPayload env"
      using assms ld env by (simp add: decompressEnvelopePayload_def split: if_splits)
    from True h obtain payload n where z: "zlib (es_payload env) = Inr (payload, None, None)"
      and lp: "length payload \<le> MaxCodecInputBytes"
      and sz: "rebuiltEnvelopeSize (length data) env (length payload) = Inr n" and out: "out = rebuild data env payload"
      using assms ld env
      by (auto simp: decompressEnvelopePayload_def readAllLimited_def split: if_splits sum.splits prod.splits option.splits)
    note rb = rebuilt_envelope [OF r f True h lp ld sz out]
    obtain p raw' where p: "(p, raw') \<in> set ps" "wf_number p = msyncPayloadField"
      using fold_fields_found(2) [OF f h] by blast
    then have "snd (wf_value p) = es_payload env" using fold_fields_member(2) [OF f p] by simp
    then show ?thesis using rb wf cv True z p by force
  qed
qed

definition exampleZlib :: zlib_reader where
  "exampleZlib z = (if z = [7] then Inr ([1, 2], None, None) else Inl (errorf ''zlib: invalid header''))"

lemma example_decompress: "decompressEnvelopePayload exampleZlib [32, 1, 74, 1, 7] = Inr [32, 0, 74, 2, 1, 2]"
  by (simp add: decompressEnvelopePayload_def scanEnvelope_def scan_loop.simps scan_round_def readVarint_def
      readVarint_loop.simps Let_def zeroScan_def scan_value_def scan_record_def exampleZlib_def readAllLimited_def
      rebuiltEnvelopeSize_def checkedAdd_def varintSize_def putUvarint.simps subslice_def rebuild_def
      appendPayloadField_def appendCompressionField_def appendKey_def appendVarint_def)

theorem decompress_rewrites_two_fields_witness:
  "wire_fields [32, 1, 74, 1, 7] = Some
     [\<lparr>wf_number = 4, wf_type = 0, wf_value = (1, [])\<rparr>, \<lparr>wf_number = 9, wf_type = 2, wf_value = (0, [7])\<rparr>]
   \<and> (\<exists>payload. wire_fields [32, 0, 74, 2, 1, 2] = Some
     [\<lparr>wf_number = 4, wf_type = 0, wf_value = (0, [])\<rparr>, \<lparr>wf_number = 9, wf_type = 2, wf_value = (0, payload)\<rparr>]
     \<and> exampleZlib [7] = Inr (payload, None, None))"
proof -
  have w: "wire_fields [32, 1, 74, 1, 7] = Some
     [\<lparr>wf_number = 4, wf_type = 0, wf_value = (1, [])\<rparr>, \<lparr>wf_number = 9, wf_type = 2, wf_value = (0, [7])\<rparr>]"
    by (simp add: wire_fields_def wire_fields_from.simps readField_def readVarint_def readVarint_loop.simps Let_def
        scan_value_def subslice_def)
  from decompress_rewrites_two_fields [OF example_decompress, of exampleZlib] w show ?thesis by (auto simp: inflated_def)
qed

end
