(* ===== verification/Provision_Action.thy ===== *)
theory Provision_Action
  imports Envelope
begin

text \<open>
  The feature version that the SDK writes into the Provision message after the native encoder has run
  (\<open>internal/protocol/nativecodec/provision_action.go\<close>).
\<close>

section \<open>Definitions\<close>

abbreviation (input) provisionActionVersionField :: uint64 where "provisionActionVersionField \<equiv> 17"

text \<open>
  One round of the loop of \<open>upsertStringField\<close>: an error, the result of an early return, or the offset
  behind a field with another number.
\<close>

definition upsert_round ::
  "bytes \<Rightarrow> nat \<Rightarrow> uint64 \<Rightarrow> string \<Rightarrow> go_error + ((bytes \<times> bool) + nat)" where
  "upsert_round message start number val =
     (case readVarint message start of Inl e \<Rightarrow> Inl e
      | Inr (tag, off) \<Rightarrow>
          let fld = drop_bit 3 tag; wireType = ucast (tag AND 7)
          in case skipField message off wireType of Inl e \<Rightarrow> Inl e
             | Inr end \<Rightarrow>
                 if fld = number then
                   (if wireType \<noteq> wireBytes
                    then Inl (errorf (''provision field '' @ itoa (uint number) @ '' has wire type ''
                           @ itoa (uint wireType)))
                    else
                      (case readVarint message off of Inl e \<Rightarrow> Inl e
                       | Inr (len, valueStart) \<Rightarrow>
                           if unat len > length message - valueStart
                           then Inl (errorf (''truncated string field '' @ itoa (uint number)))
                           else if subslice message valueStart (valueStart + unat len) = string_bytes val
                           then Inr (Inl (message, False))
                           else Inr (Inl (appendStringField (take start message) number val @ drop end message, True))))
                 else Inr (Inr end))"

lemma upsert_round_advances: "upsert_round m off n v = Inr (Inr k) \<Longrightarrow> off < k \<and> k \<le> length m"
  by (auto simp: upsert_round_def Let_def split: sum.splits prod.splits if_splits
      dest!: skipField_bounds varint.rd_bounds)

function upsert_loop :: "bytes \<Rightarrow> nat \<Rightarrow> uint64 \<Rightarrow> string \<Rightarrow> go_error + (bytes \<times> bool)" where
  "upsert_loop message off number val =
     (if off < length message then
        (case upsert_round message off number val of
           Inl e \<Rightarrow> Inl e
         | Inr (Inl res) \<Rightarrow> Inr res
         | Inr (Inr nxt) \<Rightarrow> upsert_loop message nxt number val)
      else Inr (appendStringField message number val, True))"
  by pat_completeness auto
termination
  by (relation "measure (\<lambda>(m, off, n, v). length m - off)") (auto dest!: upsert_round_advances)

declare upsert_loop.simps [simp del]

definition upsertStringField :: "bytes \<Rightarrow> uint64 \<Rightarrow> string \<Rightarrow> go_error + (bytes \<times> bool)" where
  "upsertStringField message number val = upsert_loop message 0 number val"

definition withProvisionActionVersion :: "bytes \<Rightarrow> go_error + bytes" where
  "withProvisionActionVersion data =
     (if data = [] then Inr data
      else
        (case scanEnvelope data of Inl e \<Rightarrow> Inl (wrapf ''parse msync envelope'' e)
         | Inr envelope \<Rightarrow>
             if \<not> es_hasPayload envelope then Inl (errorf ''msync envelope has no payload'')
             else
               (case upsertStringField (es_payload envelope) provisionActionVersionField ActionVersion of
                  Inl e \<Rightarrow> Inl e
                | Inr (payload, changed) \<Rightarrow>
                    if \<not> changed then Inr data
                    else
                      let start = fst (es_payloadRaw envelope); end = snd (es_payloadRaw envelope);
                          outLen = int start + int (bytesFieldSize msyncPayloadField (length payload))
                                 + (int (length data) - int end)
                      in if outLen < 0 \<or> outLen > int MaxCodecInputBytes
                         then Inl (limitErr (''rebuilt msync envelope exceeds ''
                                @ itoa (int MaxCodecInputBytes) @ '' bytes''))
                         else Inr (appendPayloadField (take start data) payload @ drop end data))))"

section \<open>The first field with a number\<close>

definition first_field_is :: "bytes \<Rightarrow> uint64 \<Rightarrow> bytes \<Rightarrow> bool" where
  "first_field_is m n b \<longleftrightarrow>
     (\<exists>ps f s e. reads readField m 0 (ps @ [(f, s, e)]) e \<and> list_all (\<lambda>p. wf_number (fst p) \<noteq> n) ps
        \<and> wf_number f = n \<and> wf_type f = wireBytes \<and> snd (wf_value f) = b)"

lemma appendStringField_eq: "appendStringField us n s = us @ bytesSeg n (string_bytes s)"
  by (simp add: appendStringField_def appendVarint_def appendKey_def bytesSeg_def)

lemma skipField_value: "skipField d k wt = Inr n \<longleftrightarrow> (\<exists>val. scan_value d k num wt = Inr (val, n))"
  by (cases "readVarint d k") (auto simp: skipField_def scan_value_def)

lemma scan_value_bytes:
  "scan_value d k n wireBytes = Inr (val, e) \<longleftrightarrow>
     (\<exists>len nxt. readVarint d k = Inr (len, nxt) \<and> unat len \<le> length d - nxt
        \<and> val = (0, subslice d nxt (nxt + unat len)) \<and> e = nxt + unat len)"
proof (cases "readVarint d k")
  case (Inr x)
  obtain len nxt where "x = (len, nxt)" by (cases x)
  with Inr show ?thesis by (auto simp: scan_value_def)
qed (simp add: scan_value_def)

lemma upsert_round_cases:
  assumes "upsert_round m off n v = Inr res"
  obtains (skipped) f k where "readField m off = Inr (f, k)" "wf_number f \<noteq> n" "res = Inr k"
  | (same) f k where "readField m off = Inr (f, k)" "wf_number f = n" "wf_type f = wireBytes"
      "snd (wf_value f) = string_bytes v" "res = Inl (m, False)"
  | (replaced) f k where "readField m off = Inr (f, k)" "wf_number f = n" "wf_type f = wireBytes"
      "snd (wf_value f) \<noteq> string_bytes v" "res = Inl (take off m @ bytesSeg n (string_bytes v) @ drop k m, True)"
proof -
  obtain tag k where t: "readVarint m off = Inr (tag, k)"
    using assms by (auto simp: upsert_round_def split: sum.splits)
  define wt where "wt = (ucast (tag AND 7) :: byte)"
  obtain e where e: "skipField m k wt = Inr e"
    using assms by (auto simp: upsert_round_def t Let_def wt_def split: sum.splits)
  then obtain val where val: "scan_value m k (drop_bit 3 tag) wt = Inr (val, e)" using skipField_value by blast
  let ?f = "\<lparr>wf_number = drop_bit 3 tag, wf_type = wt, wf_value = val\<rparr>"
  have f: "readField m off = Inr (?f, e)" using t val by (simp add: readField_def wt_def)
  show thesis
  proof (cases "drop_bit 3 tag = n")
    case False
    then have "res = Inr e" using assms e by (simp add: upsert_round_def t Let_def wt_def)
    with False f show thesis by (intro skipped [of ?f e]) simp_all
  next
    case True
    then have wt: "wt = wireBytes" using assms e by (auto simp: upsert_round_def t Let_def wt_def split: if_splits)
    then obtain len nxt where l: "readVarint m k = Inr (len, nxt)" "unat len \<le> length m - nxt" "e = nxt + unat len"
      using e by (auto simp: skipField_Inr)
    have v: "snd val = subslice m nxt (nxt + unat len)" using val l by (auto simp: scan_value_def wt)
    show thesis
    proof (cases "snd val = string_bytes v")
      case True
      then have "res = Inl (m, False)"
        using assms e l v \<open>drop_bit 3 tag = n\<close> wt by (simp add: upsert_round_def t Let_def flip: wt_def)
      then show thesis using f True wt \<open>drop_bit 3 tag = n\<close> by (intro same [of ?f e]) simp_all
    next
      case False
      then have "res = Inl (take off m @ bytesSeg n (string_bytes v) @ drop e m, True)"
        using assms e l v \<open>drop_bit 3 tag = n\<close> wt
        by (simp add: upsert_round_def t Let_def appendStringField_eq flip: wt_def)
      then show thesis using f False wt \<open>drop_bit 3 tag = n\<close> by (intro replaced [of ?f e]) simp_all
    qed
  qed
qed

lemma upsert_loop_result:
  assumes "upsert_loop m off n v = Inr (out, ch)" and "off \<le> length m"
    and "unat n < 2 ^ 61" and "length v < 2 ^ 64"
  shows "\<exists>ps f s e. reads readField out off (ps @ [(f, s, e)]) e \<and> list_all (\<lambda>p. wf_number (fst p) \<noteq> n) ps
      \<and> wf_number f = n \<and> wf_type f = wireBytes \<and> snd (wf_value f) = string_bytes v
      \<and> take off out = take off m \<and> off \<le> length out \<and> (\<not> ch \<longrightarrow> out = m)
      \<and> length out \<le> length m + bytesFieldSize n (length v)"
  using assms
proof (induction m off n v rule: upsert_loop.induct)
  case (1 m off n v)
  let ?g = "\<lparr>wf_number = n, wf_type = wireBytes, wf_value = (0 :: uint64, string_bytes v)\<rparr>"
  let ?seg = "bytesSeg n (string_bytes v)"
  have seg: "readField ?seg 0 = Inr (?g, length ?seg)" using 1(4,5) by (intro bytesSeg_read) simp_all
  have lseg: "length ?seg = bytesFieldSize n (length v)" by (simp add: bytesSeg_length)
  show ?case
  proof (cases "off < length m")
    case False
    then have o: "off = length m" using 1(3) by simp
    have out: "out = m @ ?seg" "ch" using 1(2) False by (auto simp: upsert_loop.simps appendStringField_eq)
    have "readField (m @ ?seg @ []) off = Inr (?g, off + length ?seg)" unfolding o by (rule field.rd_whole [OF seg])
    then have "reads readField out off ([] @ [(?g, off, off + length ?seg)]) (off + length ?seg)" by (simp add: out)
    then show ?thesis using out o lseg by (intro exI [of _ "[]"] exI [of _ ?g] exI [of _ off] exI [of _ "off + length ?seg"]) simp
  next
    case True
    then obtain res where res: "upsert_round m off n v = Inr res"
      and c: "case res of Inl r \<Rightarrow> r = (out, ch) | Inr nxt \<Rightarrow> upsert_loop m nxt n v = Inr (out, ch)"
      using 1(2) by (subst (asm) upsert_loop.simps) (auto split: sum.splits)
    from res show ?thesis
    proof (cases rule: upsert_round_cases)
      case (skipped f k)
      have k: "off < k" "k \<le> length m" using readField_bounds [OF skipped(1)] by auto
      have l: "upsert_loop m k n v = Inr (out, ch)" using c skipped(3) by simp
      have "upsert_round m off n v = Inr (Inr k)" using res skipped(3) by simp
      from 1(1) [OF True this refl l k(2) 1(4,5)] obtain ps f' s e where
        ih: "reads readField out k (ps @ [(f', s, e)]) e" "list_all (\<lambda>p. wf_number (fst p) \<noteq> n) ps"
        "wf_number f' = n" "wf_type f' = wireBytes" "snd (wf_value f') = string_bytes v"
        "take k out = take k m" "k \<le> length out" "\<not> ch \<longrightarrow> out = m" "length out \<le> length m + bytesFieldSize n (length v)"
        by blast
      have "readField out off = Inr (f, k)" using field.rd_local [OF skipped(1) ih(6)] .
      then have "reads readField out off (((f, off, k) # ps) @ [(f', s, e)]) e" using ih(1) by simp
      moreover have "take off out = take off m" using ih(6) k by (metis min_absorb1 take_take less_imp_le)
      moreover have "list_all (\<lambda>p. wf_number (fst p) \<noteq> n) ((f, off, k) # ps)" using ih(2) skipped(2) by simp
      moreover have "off \<le> length out" using ih(7) k by simp
      ultimately show ?thesis using ih(3-5,8,9) by blast
    next
      case (same f k)
      then have "reads readField out off ([] @ [(f, off, k)]) k" "out = m" "\<not> ch" using c by auto
      with same 1(3) show ?thesis by (intro exI [of _ "[]"] exI [of _ f] exI [of _ off] exI [of _ k]) simp
    next
      case (replaced f k)
      then have out: "out = take off m @ ?seg @ drop k m" "ch" using c by auto
      have k: "off < k" "k \<le> length m" using readField_bounds [OF replaced(1)] by auto
      have lo: "length (take off m) = off" using True by simp
      have "readField out off = Inr (?g, off + length ?seg)"
        using field.rd_whole [OF seg, of "take off m" "drop k m"] lo unfolding out by simp
      then have "reads readField out off ([] @ [(?g, off, off + length ?seg)]) (off + length ?seg)" by simp
      moreover have "take off out = take off m" "off \<le> length out" using lo out by simp_all
      moreover have "length out \<le> length m + bytesFieldSize n (length v)" using out lo k lseg by simp
      ultimately show ?thesis using out(2)
        by (intro exI [of _ "[]"] exI [of _ ?g] exI [of _ off] exI [of _ "off + length ?seg"]) simp
    qed
  qed
qed

lemma upsert_loop_same:
  assumes "reads readField m off (ps @ [(f, s, e)]) e" and "list_all (\<lambda>p. wf_number (fst p) \<noteq> n) ps"
    and "wf_number f = n" "wf_type f = wireBytes" "snd (wf_value f) = string_bytes v"
  shows "upsert_loop m off n v = Inr (m, False)"
  using assms
proof (induction ps arbitrary: off)
  case Nil
  then have f: "readField m off = Inr (f, e)" by simp
  have "off < length m" using readField_bounds [OF f] by simp
  moreover have "upsert_round m off n v = Inr (Inl (m, False))"
  proof -
    obtain tag k where t: "readVarint m off = Inr (tag, k)" "n = drop_bit 3 tag" "ucast (tag AND 7) = wireBytes"
      and sv: "scan_value m k n wireBytes = Inr (wf_value f, e)"
      using f Nil by (auto simp: readField_Inr)
    from sv obtain len nxt where l: "readVarint m k = Inr (len, nxt)" "unat len \<le> length m - nxt"
      "wf_value f = (0, subslice m nxt (nxt + unat len))" "e = nxt + unat len"
      unfolding scan_value_bytes by blast
    then show ?thesis using t Nil(5) by (simp add: upsert_round_def skipField_def)
  qed
  ultimately show ?case by (subst upsert_loop.simps) simp
next
  case (Cons p ps)
  obtain g a k where p: "p = (g, a, k)" by (cases p)
  then have g: "readField m off = Inr (g, k)" "wf_number g \<noteq> n" and r: "reads readField m k (ps @ [(f, s, e)]) e"
    using Cons.prems by auto
  have "off < length m" using readField_bounds [OF g(1)] by simp
  moreover have "upsert_round m off n v = Inr (Inr k)"
  proof -
    obtain tag j where t: "readVarint m off = Inr (tag, j)" "wf_number g = drop_bit 3 tag"
      "scan_value m j (wf_number g) (ucast (tag AND 7)) = Inr (wf_value g, k)"
      using g(1) by (auto simp: readField_Inr)
    then have "skipField m j (ucast (tag AND 7)) = Inr k" using skipField_value by blast
    with t g(2) show ?thesis by (simp add: upsert_round_def)
  qed
  moreover have "upsert_loop m k n v = Inr (m, False)" using Cons.IH [OF r] Cons.prems by simp
  ultimately show ?case by (subst upsert_loop.simps) simp
qed

lemma upsert_first_field:
  assumes "upsertStringField m n v = Inr (out, ch)" and "unat n < 2 ^ 61" and "length v < 2 ^ 64"
  shows "first_field_is out n (string_bytes v) \<and> upsertStringField out n v = Inr (out, False)
    \<and> (\<not> ch \<longrightarrow> out = m) \<and> length out \<le> length m + bytesFieldSize n (length v)"
proof -
  from assms obtain ps f s e where r: "reads readField out 0 (ps @ [(f, s, e)]) e"
    "list_all (\<lambda>p. wf_number (fst p) \<noteq> n) ps" "wf_number f = n" "wf_type f = wireBytes"
    "snd (wf_value f) = string_bytes v" "\<not> ch \<longrightarrow> out = m" "length out \<le> length m + bytesFieldSize n (length v)"
    using upsert_loop_result [of m 0 n v out ch] unfolding upsertStringField_def by auto
  then have "upsert_loop out 0 n v = Inr (out, False)" by (intro upsert_loop_same) simp_all
  with r show ?thesis unfolding first_field_is_def upsertStringField_def by blast
qed

section \<open>The advertised version\<close>

definition with_payload :: "bytes \<Rightarrow> wireField \<Rightarrow> wireField" where
  "with_payload p f = (if wf_number f = msyncPayloadField then f\<lparr>wf_value := (0, p)\<rparr> else f)"

lemma envelope_ok_with_payload: "envelope_ok k hc hp (map (with_payload p) fs) = envelope_ok k hc hp fs"
proof -
  have n: "wf_number (with_payload p f) = wf_number f" "wf_type (with_payload p f) = wf_type f" for f
    by (simp_all add: with_payload_def)
  then have "field_ok (with_payload p f) = field_ok f" for f by (simp add: field_ok_def)
  moreover have "occurrences i (map (with_payload p) fs) = occurrences i fs" for i by (induction fs) (auto simp: n)
  ultimately show ?thesis by (simp add: envelope_ok_def list_all_iff)
qed

lemma with_payload_others: "occurrences msyncPayloadField fs = 0 \<Longrightarrow> map (with_payload p) fs = fs"
  by (induction fs) (auto simp: with_payload_def split: if_splits)

lemma payload_member:
  assumes "reads readField d 0 ps (length d)" and "(f, s, e) \<in> set ps" and "wf_type f = wireBytes"
  shows "s < e" and "e \<le> length d" and "fst (wf_value f) = 0" and "length (snd (wf_value f)) \<le> length d"
proof -
  have r: "readField d s = Inr (f, e)" using field.reads_ranges [OF assms(1,2)] by simp
  then show "s < e" "e \<le> length d" using readField_bounds by auto
  obtain k where "scan_value d k (wf_number f) wireBytes = Inr (wf_value f, e)"
    using r assms(3) by (auto simp: readField_Inr)
  then show "fst (wf_value f) = 0" "length (snd (wf_value f)) \<le> length d"
    unfolding scan_value_bytes by (auto simp: subslice_def)
qed

lemma with_payload_split:
  assumes r: "reads readField d 0 ps (length d)" and f: "fold_fields ps zeroScan = Some env" and h: "es_hasPayload env"
  obtains as x s e zs where "ps = as @ (x, s, e) # zs" and "wf_number x = msyncPayloadField" and "wf_type x = wireBytes"
    and "wf_value x = (0, es_payload env)" and "es_payloadRaw env = (s, e)"
    and "\<And>p. map (with_payload p) (map fst ps) = map fst as @ with_payload p x # map fst zs"
    and "s < e" and "e \<le> length d" and "length (es_payload env) \<le> length d"
proof -
  obtain x s e where x: "(x, s, e) \<in> set ps" "wf_number x = msyncPayloadField"
    using fold_fields_found(2) [OF f h] by (metis prod.collapse)
  then obtain as zs where ps: "ps = as @ (x, s, e) # zs" by (meson split_list)
  have ok: "envelope_ok 0 False False (map fst ps)"
    using fold_fields_accepts [of zeroScan ps] f by (auto simp: zeroScan_def)
  have t: "wf_type x = wireBytes" using ok x(2) by (simp add: envelope_ok_def ps field_ok_def)
  have "occurrences msyncPayloadField (map fst as) = 0" "occurrences msyncPayloadField (map fst zs) = 0"
    using ok x(2) by (simp_all add: envelope_ok_def ps)
  then have "map (with_payload p) (map fst ps) = map fst as @ with_payload p x # map fst zs" for p
    by (simp only: ps map_append list.map with_payload_others fst_conv)
  moreover note m = payload_member [OF r x(1) t]
  moreover have "wf_value x = (0, es_payload env)" "es_payloadRaw env = (s, e)"
    using m(3) fold_fields_member(2) [OF f x] by (auto simp: prod_eq_iff)
  moreover from this m(4) have "length (es_payload env) \<le> length d" by simp
  ultimately show thesis using that ps x(2) t by blast
qed

text \<open>Replacing the payload of an envelope by one that is up to date.\<close>

lemma replaced_payload:
  assumes r: "reads readField data 0 (as @ (x, s, e) # zs) (length data)"
    and f: "fold_fields (as @ (x, s, e) # zs) zeroScan = Some env"
    and x: "wf_number x = msyncPayloadField" "wf_type x = wireBytes"
    and mp: "map (with_payload payload) (map fst (as @ (x, s, e) # zs)) = map fst as @ with_payload payload x # map fst zs"
    and lp: "length payload < 2 ^ 64"
    and again: "upsertStringField payload provisionActionVersionField ActionVersion = Inr (payload, False)"
    and out: "out = take s data @ bytesSeg msyncPayloadField payload @ drop e data"
  shows "withProvisionActionVersion out = Inr out
    \<and> wire_fields out = Some (map (with_payload payload) (map fst (as @ (x, s, e) # zs)))"
proof -
  have seg: "readField (bytesSeg msyncPayloadField payload) 0
      = Inr (with_payload payload x, length (bytesSeg msyncPayloadField payload))"
    using bytesSeg_read [of msyncPayloadField payload] lp x by (simp add: with_payload_def)
  from field.reads_splice [OF r seg] obtain qs' where
    q: "reads readField out 0 (as @ (with_payload payload x, s, s + length (bytesSeg msyncPayloadField payload)) # qs') (length out)"
    "map fst qs' = map fst zs"
    unfolding out by blast
  define qs where "qs = as @ (with_payload payload x, s, s + length (bytesSeg msyncPayloadField payload)) # qs'"
  have rq: "reads readField out 0 qs (length out)" using q(1) by (simp add: qs_def)
  have mq: "map fst qs = map (with_payload payload) (map fst (as @ (x, s, e) # zs))" unfolding mp qs_def using q(2) by simp
  have "envelope_ok 0 False False (map fst qs)"
    unfolding mq envelope_ok_with_payload using fold_fields_accepts [of zeroScan "as @ (x, s, e) # zs"] f by (auto simp: zeroScan_def)
  with rq obtain env' where e': "fold_fields qs zeroScan = Some env'" "scanEnvelope out = Inr env'" by (rule scan_of_fields)
  have "es_hasPayload env' \<and> es_payload env' = payload"
    using fold_fields_member(2) [OF e'(1), of "with_payload payload x"] x(1) by (auto simp: qs_def with_payload_def)
  moreover have "out \<noteq> []" unfolding out bytesSeg_def by (subst putUvarint.simps) simp
  ultimately have "withProvisionActionVersion out = Inr out" using e'(2) again by (simp add: withProvisionActionVersion_def)
  moreover have "wire_fields out = Some (map (with_payload payload) (map fst (as @ (x, s, e) # zs)))"
    using rq mq wire_fields_reads by metis
  ultimately show ?thesis by blast
qed

text \<open>
  C19.  The advertised version.  When \<open>withProvisionActionVersion\<close> succeeds on a frame, the result is a
  well-formed envelope with the same fields but for the payload, whose first field 17 is the string
  \<open>v5.1\<close>; applying the function again changes nothing.
\<close>

theorem provision_version_written:
  assumes "withProvisionActionVersion data = Inr out" and "data \<noteq> []" and "length data < 2 ^ 62"
  shows "withProvisionActionVersion out = Inr out
    \<and> (\<exists>fs payload. wire_fields data = Some fs \<and> wire_fields out = Some (map (with_payload payload) fs)
         \<and> first_field_is payload provisionActionVersionField (string_bytes ''v5.1''))"
proof -
  obtain env where env: "scanEnvelope data = Inr env" and h: "es_hasPayload env"
    using assms(1,2) by (auto simp: withProvisionActionVersion_def split: sum.splits if_splits)
  then obtain ps where r: "reads readField data 0 ps (length data)" and f: "fold_fields ps zeroScan = Some env"
    by (auto simp: scanEnvelope_iff)
  have wf: "wire_fields data = Some (map fst ps)" using r wire_fields_reads by blast
  from with_payload_split [OF r f h] obtain as x s e zs where ps: "ps = as @ (x, s, e) # zs"
    and x: "wf_number x = msyncPayloadField" "wf_type x = wireBytes" "wf_value x = (0, es_payload env)"
    and raw: "es_payloadRaw env = (s, e)"
    and mp: "\<And>p. map (with_payload p) (map fst ps) = map fst as @ with_payload p x # map fst zs"
    and b: "s < e" "e \<le> length data" "length (es_payload env) \<le> length data"
    by blast
  obtain payload ch where u: "upsertStringField (es_payload env) provisionActionVersionField ActionVersion = Inr (payload, ch)"
    using assms(1,2) env h by (auto simp: withProvisionActionVersion_def split: sum.splits)
  have av: "length ActionVersion = 4" by (simp add: ActionVersion_def)
  note up = upsert_first_field [OF u, unfolded av]
  have ff: "first_field_is payload provisionActionVersionField (string_bytes ''v5.1'')"
    and again: "upsertStringField payload provisionActionVersionField ActionVersion = Inr (payload, False)"
    and keep: "\<not> ch \<Longrightarrow> payload = es_payload env"
    and lp: "length payload \<le> length (es_payload env) + bytesFieldSize provisionActionVersionField 4"
    using up by (simp_all add: ActionVersion_def)
  show ?thesis
  proof (cases ch)
    case False
    then have "out = data" using assms(1,2) env h u by (simp add: withProvisionActionVersion_def)
    moreover have "with_payload payload x = x" using keep False x by (simp add: with_payload_def)
    then have "map (with_payload payload) (map fst ps) = map fst ps" unfolding mp by (simp add: ps)
    ultimately show ?thesis using wf ff assms(1) by metis
  next
    case True
    then have out: "out = take s data @ bytesSeg msyncPayloadField payload @ drop e data"
      using assms(1,2) env h u raw
      by (simp add: withProvisionActionVersion_def Let_def appendPayloadField_eq split: if_splits)
    have "bytesFieldSize provisionActionVersionField 4 \<le> 24"
      using varintSize_le [of "push_bit 3 provisionActionVersionField OR 2"] varintSize_le [of "of_nat 4"]
      by (simp add: bytesFieldSize_def)
    then have "length payload < 2 ^ 64" using lp b(3) assms(3) by simp
    then have "withProvisionActionVersion out = Inr out \<and> wire_fields out = Some (map (with_payload payload) (map fst ps))"
      using replaced_payload [OF r [unfolded ps] f [unfolded ps] x(1,2) mp [unfolded ps] _ again out] by (simp only: ps)
    then show ?thesis using wf ff by blast
  qed
qed

lemma example_provision: "withProvisionActionVersion [74, 0] = Inr [74, 7, 138, 1, 4, 118, 53, 46, 49]"
  by (simp add: withProvisionActionVersion_def scanEnvelope_def scan_loop.simps scan_round_def readVarint_def
      readVarint_loop.simps Let_def zeroScan_def scan_value_def scan_record_def upsertStringField_def
      upsert_loop.simps upsert_round_def appendStringField_def appendPayloadField_def appendKey_def appendVarint_def
      putUvarint.simps string_bytes_def ActionVersion_def bytesFieldSize_def varintSize_def subslice_def)
    (simp add: word_le_nat_alt)

theorem provision_version_written_witness:
  "withProvisionActionVersion [74, 7, 138, 1, 4, 118, 53, 46, 49] = Inr [74, 7, 138, 1, 4, 118, 53, 46, 49]
   \<and> (\<exists>fs payload. wire_fields [74, 0] = Some fs
        \<and> wire_fields [74, 7, 138, 1, 4, 118, 53, 46, 49] = Some (map (with_payload payload) fs)
        \<and> first_field_is payload 17 (string_bytes ''v5.1''))"
  using provision_version_written [OF example_provision] by simp

end
