(* ===== verification/Identifiers.thy ===== *)
theory Identifiers
  imports Errors
begin

text \<open>
  The two generators of identifiers: the trace ids of \<open>sdk/traceid.go\<close> (42 bits of milliseconds, 22
  bits of sequence) and the automatic message ids of \<open>sdk/client.go\<close>.

  The clock is a parameter: \<open>clock i\<close> is the value of the \<open>i\<close>-th reading of \<open>time.Now().UnixMilli()\<close>,
  as a \<open>uint64\<close>; it may go back.  The wait for a new millisecond may last as long as the clock stands
  still, so it is a partial function, and that it ends is a theorem.
\<close>

section \<open>Trace ids\<close>

record traceIDGenerator =
  tg_lastMs :: uint64
  tg_sequence :: uint64

abbreviation (input) traceSequenceBits :: nat where "traceSequenceBits \<equiv> 22"

definition traceSequenceMask :: uint64 where
  "traceSequenceMask = push_bit traceSequenceBits 1 - 1"

text \<open>The loop that sleeps until the clock has passed \<open>lastMs\<close>: the reading and the index behind it.\<close>

partial_function (option) trace_wait :: "(nat \<Rightarrow> uint64) \<Rightarrow> nat \<Rightarrow> uint64 \<Rightarrow> uint64 \<Rightarrow> (uint64 \<times> nat) option" where
  "trace_wait clock i ms lastMs =
     (if ms \<le> lastMs then trace_wait clock (Suc i) (clock i) lastMs else Some (ms, i))"

definition trace_pack :: "traceIDGenerator \<Rightarrow> uint64" where
  "trace_pack g = push_bit traceSequenceBits (tg_lastMs g) OR tg_sequence g"

definition trace_next :: "(nat \<Rightarrow> uint64) \<Rightarrow> nat \<Rightarrow> traceIDGenerator \<Rightarrow> (uint64 \<times> nat \<times> traceIDGenerator) option" where
  "trace_next clock i g =
     (let ms = clock i
      in if ms > tg_lastMs g
         then let g1 = g\<lparr>tg_lastMs := ms, tg_sequence := 0\<rparr> in Some (trace_pack g1, Suc i, g1)
         else
           let g1 = g\<lparr>tg_sequence := (tg_sequence g + 1) AND traceSequenceMask\<rparr>
           in if tg_sequence g1 = 0
              then (case trace_wait clock (Suc i) ms (tg_lastMs g1) of None \<Rightarrow> None
                    | Some (ms', j) \<Rightarrow> let g2 = g1\<lparr>tg_lastMs := ms'\<rparr> in Some (trace_pack g2, j, g2))
              else Some (trace_pack g1, Suc i, g1))"

text \<open>A run of calls of one generator.\<close>

fun trace_run :: "(nat \<Rightarrow> uint64) \<Rightarrow> nat \<Rightarrow> traceIDGenerator \<Rightarrow> nat \<Rightarrow> (uint64 list \<times> traceIDGenerator) option" where
  "trace_run clock i g 0 = Some ([], g)"
| "trace_run clock i g (Suc n) =
     (case trace_next clock i g of None \<Rightarrow> None
      | Some (v, j, g1) \<Rightarrow>
          (case trace_run clock j g1 n of None \<Rightarrow> None | Some (vs, g2) \<Rightarrow> Some (v # vs, g2)))"

section \<open>Message ids\<close>

text \<open>\<open>binary.BigEndian.Uint32\<close>.\<close>

definition bigEndianUint32 :: "bytes \<Rightarrow> 32 word" where
  "bigEndianUint32 b =
     ucast (b ! 3) OR push_bit 8 (ucast (b ! 2)) OR push_bit 16 (ucast (b ! 1)) OR push_bit 24 (ucast (b ! 0))"

definition initialMessageIDCounter :: "bytes \<Rightarrow> uint64" where
  "initialMessageIDCounter seed = push_bit 31 (ucast (bigEndianUint32 seed))"

text \<open>
  One round of \<open>nextMessageID\<close> on the shared counter: what \<open>Load\<close> saw is an argument, so that other
  callers may run between \<open>Load\<close> and \<open>CompareAndSwap\<close>.  \<open>None\<close> is another round.
\<close>

definition messageIDExhausted :: go_error where
  "messageIDExhausted = newError ErrMessageIDExhausted ''send''
     ''automatic ClientMessageID space exhausted; provide a non-zero ClientMessageID''"

definition nextMessageID_round :: "uint64 \<Rightarrow> uint64 \<Rightarrow> (go_error + uint64) option \<times> uint64" where
  "nextMessageID_round current counter =
     (if current = - 1 then (Some (Inl messageIDExhausted), counter)
      else
        let nxt = current + 1
        in if counter = current then (Some (Inr nxt), nxt) else (None, counter))"

text \<open>
  Concurrent callers: the counter, what each caller has loaded (\<open>None\<close> before the load), and the
  ids returned so far.
\<close>

record id_system =
  is_counter :: uint64
  is_loaded :: "uint64 option list"
  is_returned :: "uint64 list"

inductive id_step :: "id_system \<Rightarrow> id_system \<Rightarrow> bool" where
  id_load: "t < length (is_loaded s) \<Longrightarrow> is_loaded s ! t = None \<Longrightarrow>
     id_step s (s\<lparr>is_loaded := (is_loaded s)[t := Some (is_counter s)]\<rparr>)"
| id_swap: "t < length (is_loaded s) \<Longrightarrow> is_loaded s ! t = Some cur \<Longrightarrow>
     nextMessageID_round cur (is_counter s) = (res, ctr) \<Longrightarrow>
     id_step s (s\<lparr>is_counter := ctr, is_loaded := (is_loaded s)[t := None],
        is_returned := (case res of Some (Inr v) \<Rightarrow> is_returned s @ [v] | _ \<Rightarrow> is_returned s)\<rparr>)"

definition id_start :: "bytes \<Rightarrow> id_system \<Rightarrow> bool" where
  "id_start seed s \<longleftrightarrow> is_counter s = initialMessageIDCounter seed \<and> is_returned s = [] \<and> list_all (\<lambda>l. l = None) (is_loaded s)"

section \<open>Facts on trace ids\<close>

lemma trace_wait_result:
  assumes "trace_wait clock i ms lastMs = Some r"
  shows "lastMs < fst r \<and> i \<le> snd r"
proof (rule trace_wait.raw_induct [where P = "\<lambda>clock i ms lastMs r. lastMs < fst r \<and> i \<le> snd r", OF _ assms])
  fix f :: "(nat \<Rightarrow> uint64) \<Rightarrow> nat \<Rightarrow> uint64 \<Rightarrow> uint64 \<Rightarrow> (uint64 \<times> nat) option" and clock i ms lastMs y
  assume "\<And>clock i ms lastMs y. f clock i ms lastMs = Some y \<Longrightarrow> lastMs < fst y \<and> i \<le> snd y"
    and "(if ms \<le> lastMs then f clock (Suc i) (clock i) lastMs else Some (ms, i)) = Some y"
  then show "lastMs < fst y \<and> i \<le> snd y" by (fastforce split: if_splits)
qed

lemma trace_wait_ends:
  assumes "lastMs < clock k" and "i \<le> k"
  shows "\<exists>r. trace_wait clock i ms lastMs = Some r"
  using assms(2)
proof (induction "k - i" arbitrary: i ms)
  case 0
  with assms(1) have "trace_wait clock (Suc i) (clock i) lastMs = Some (clock i, Suc i)"
    by (subst trace_wait.simps) auto
  then show ?case by (subst trace_wait.simps) auto
next
  case (Suc n)
  then have "\<exists>r. trace_wait clock (Suc i) (clock i) lastMs = Some r" by auto
  then show ?case by (subst trace_wait.simps) auto
qed

lemma traceSequenceMask_mask: "traceSequenceMask = mask 22"
  by (simp add: traceSequenceMask_def mask_eq_exp_minus_1)

lemma trace_pack_value:
  assumes "unat (tg_lastMs g) < 2 ^ 42" and "unat (tg_sequence g) < 2 ^ 22"
  shows "unat (trace_pack g) = unat (tg_lastMs g) * 2 ^ 22 + unat (tg_sequence g)"
proof -
  have s: "take_bit 22 (tg_sequence g) = tg_sequence g"
    using assms(2) by (simp only: word_unat_eq_iff unsigned_take_bit_eq take_bit_nat_eq_self)
  have "push_bit 22 (tg_lastMs g) AND take_bit 22 (tg_sequence g) = 0"
    by (rule bit_word_eqI) (auto simp: bit_simps)
  then have "push_bit 22 (tg_lastMs g) AND tg_sequence g = 0" by (simp only: s)
  then have "trace_pack g = push_bit 22 (tg_lastMs g) + tg_sequence g"
    unfolding trace_pack_def by (simp add: disjunctive_add_eq_or)
  moreover have "unat (push_bit 22 (tg_lastMs g)) = unat (tg_lastMs g) * 2 ^ 22"
    using assms(1) by (simp add: push_bit_eq_mult unat_word_ariths)
  ultimately show ?thesis using assms by (simp add: unat_word_ariths)
qed

definition trace_ok :: "traceIDGenerator \<Rightarrow> bool" where
  "trace_ok g \<longleftrightarrow> unat (tg_sequence g) < 2 ^ 22"

text \<open>Every id is larger than the one before, as long as the clock stays within its 42 bits.\<close>

lemma trace_next_step:
  assumes "trace_next clock i g = Some (v, j, g')" and "trace_ok g"
  shows "trace_ok g' \<and> v = trace_pack g' \<and> tg_lastMs g \<le> tg_lastMs g'
    \<and> (tg_lastMs g = tg_lastMs g' \<longrightarrow> tg_sequence g < tg_sequence g')"
proof (cases "clock i > tg_lastMs g")
  case True
  then show ?thesis using assms by (auto simp: trace_next_def Let_def trace_ok_def)
next
  case False
  let ?s = "(tg_sequence g + 1) AND traceSequenceMask"
  have s: "?s = take_bit 22 (tg_sequence g + 1)" by (simp add: traceSequenceMask_mask take_bit_eq_mask)
  have b: "unat ?s < 2 ^ 22" unfolding s by (simp only: unsigned_take_bit_eq take_bit_nat_less_exp)
  have lt: "tg_sequence g < ?s" if "?s \<noteq> 0"
  proof -
    have n: "unat (tg_sequence g + 1) = unat (tg_sequence g) + 1"
      using assms(2) by (simp add: trace_ok_def unat_word_ariths)
    have "unat ?s = (unat (tg_sequence g) + 1) mod 2 ^ 22"
      unfolding s by (simp only: unsigned_take_bit_eq n) (simp add: take_bit_eq_mod)
    moreover have "unat ?s \<noteq> 0" using that by (simp add: unat_eq_0)
    ultimately have "unat ?s = unat (tg_sequence g) + 1"
      using assms(2) unfolding trace_ok_def by (cases "unat (tg_sequence g) + 1 = 2 ^ 22") auto
    then show ?thesis by (simp add: word_less_nat_alt)
  qed
  show ?thesis
  proof (cases "?s = 0")
    case True
    then obtain ms' where w: "trace_wait clock (Suc i) (clock i) (tg_lastMs g) = Some (ms', j)"
      and g': "g' = g\<lparr>tg_sequence := 0, tg_lastMs := ms'\<rparr>" "v = trace_pack g'"
      using assms(1) False by (auto simp: trace_next_def Let_def split: option.splits)
    have "tg_lastMs g < ms'" using trace_wait_result [OF w] by simp
    then show ?thesis using g' by (auto simp: trace_ok_def)
  next
    case nz: False
    then have "g' = g\<lparr>tg_sequence := ?s\<rparr>" "v = trace_pack g'"
      using assms(1) False by (auto simp: trace_next_def Let_def)
    then show ?thesis using b lt [OF nz] by (simp add: trace_ok_def)
  qed
qed

lemma trace_run_ids:
  assumes "trace_run clock i g n = Some (vs, g')" and "trace_ok g" and "unat (tg_lastMs g') < 2 ^ 42"
  shows "sorted_wrt (<) (trace_pack g # vs) \<and> tg_lastMs g \<le> tg_lastMs g' \<and> length vs = n"
  using assms
proof (induction n arbitrary: i g vs)
  case 0
  then show ?case by simp
next
  case (Suc n)
  from Suc.prems(1) obtain v j g1 vs1 where nx: "trace_next clock i g = Some (v, j, g1)"
    and r: "trace_run clock j g1 n = Some (vs1, g')" and vs: "vs = v # vs1"
    by (auto split: option.splits)
  note st = trace_next_step [OF nx Suc.prems(2)]
  have ih: "sorted_wrt (<) (trace_pack g1 # vs1)" "tg_lastMs g1 \<le> tg_lastMs g'" "length vs1 = n"
    using Suc.IH [OF r _ Suc.prems(3)] st by simp_all
  then have l: "unat (tg_lastMs g1) < 2 ^ 42" "unat (tg_lastMs g) \<le> unat (tg_lastMs g1)"
    using Suc.prems(3) st by (auto simp: word_le_nat_alt)
  have "unat (trace_pack g) < unat (trace_pack g1)"
  proof (cases "tg_lastMs g = tg_lastMs g1")
    case True
    then have "unat (tg_sequence g) < unat (tg_sequence g1)" using st by (simp add: word_less_nat_alt)
    then show ?thesis using l True st Suc.prems(2) by (simp add: trace_pack_value trace_ok_def)
  next
    case False
    then have "unat (tg_lastMs g) < unat (tg_lastMs g1)" using l(2) by (metis le_less word_unat_eq_iff)
    then have "unat (tg_lastMs g) * 2 ^ 22 + 2 ^ 22 \<le> unat (tg_lastMs g1) * 2 ^ 22" by simp
    then show ?thesis using l st Suc.prems(2) by (simp add: trace_pack_value trace_ok_def)
  qed
  then have "trace_pack g < v" using st by (simp add: word_less_nat_alt)
  with ih vs st show ?case by (auto intro: less_trans order_trans)
qed

text \<open>
  Trace ids never repeat.  Whatever the clock does, standing still or going back, the ids that
  successive calls return are strictly increasing, as long as the milliseconds fit their 42 bits.
\<close>

lemma trace_ids_increase:
  assumes "trace_run clock i g n = Some (vs, g')" and "trace_ok g" and "unat (tg_lastMs g') < 2 ^ 42"
  shows "sorted_wrt (<) vs \<and> distinct vs \<and> length vs = n"
proof -
  have "sorted_wrt (<) vs" "length vs = n" using trace_run_ids [OF assms] by simp_all
  moreover from this(1) have "distinct vs" by (induction vs) auto
  ultimately show ?thesis by simp
qed

text \<open>
  The generator returns.  A call comes back as soon as the clock passes the last millisecond used,
  also when the sequence of that millisecond is exhausted and the call has to wait.
\<close>

lemma trace_next_terminates:
  assumes "\<forall>m. \<exists>k \<ge> m. tg_lastMs g < clock k"
  shows "\<exists>v j g'. trace_next clock i g = Some (v, j, g') \<and> i < j"
proof -
  obtain k where "Suc i \<le> k" "tg_lastMs g < clock k" using assms by blast
  with trace_wait_ends [of "tg_lastMs g" clock k "Suc i" "clock i"] obtain ms j
    where w: "trace_wait clock (Suc i) (clock i) (tg_lastMs g) = Some (ms, j)" by auto
  with trace_wait_result [OF w] show ?thesis by (auto simp: trace_next_def Let_def)
qed

section \<open>Facts on message ids\<close>

definition id_inv :: "bytes \<Rightarrow> id_system \<Rightarrow> bool" where
  "id_inv seed s \<longleftrightarrow> sorted_wrt (<) (initialMessageIDCounter seed # is_returned s)
     \<and> last (initialMessageIDCounter seed # is_returned s) = is_counter s"

lemma nextMessageID_round_cases:
  "nextMessageID_round cur ctr = (res, ctr') \<Longrightarrow>
     (\<exists>v. res = Some (Inr v) \<and> v = ctr + 1 \<and> ctr' = v \<and> ctr < v) \<or> (ctr' = ctr \<and> (\<forall>v. res \<noteq> Some (Inr v)))"
proof -
  have "ctr < ctr + 1" if n: "ctr \<noteq> - 1"
  proof -
    have "unat ctr \<noteq> 2 ^ 64 - 1"
    proof
      assume "unat ctr = 2 ^ 64 - 1"
      then have "of_nat (unat ctr) = (of_nat (2 ^ 64 - 1) :: uint64)" by (rule arg_cong)
      with n show False by simp
    qed
    moreover have "unat ctr < 2 ^ 64" using unsigned_less [of ctr] by simp
    ultimately show ?thesis by (simp add: word_less_nat_alt unat_word_ariths)
  qed
  then show "nextMessageID_round cur ctr = (res, ctr') \<Longrightarrow> ?thesis"
    by (auto simp: nextMessageID_round_def Let_def split: if_splits)
qed

lemma sorted_le_last:
  fixes xs :: "'a::linorder list"
  shows "sorted_wrt (<) xs \<Longrightarrow> y \<in> set xs \<Longrightarrow> y \<le> last xs"
  by (induction xs) (auto simp: less_imp_le)

lemma sorted_last_snoc:
  fixes xs :: "'a::linorder list"
  shows "sorted_wrt (<) (x # xs) \<Longrightarrow> last (x # xs) < v \<Longrightarrow> sorted_wrt (<) (x # xs @ [v])"
proof -
  assume s: "sorted_wrt (<) (x # xs)" and l: "last (x # xs) < v"
  show ?thesis using s l sorted_le_last [OF s] by (auto simp: sorted_wrt_append intro: le_less_trans)
qed

interpretation message_ids: inductive_invariant "id_start seed" id_step "id_inv seed" for seed
proof
  show "id_inv seed s" if "id_start seed s" for s using that by (simp add: id_start_def id_inv_def)
  show "id_inv seed t" if i: "id_inv seed s" and st: "id_step s t" for s t
    using st
  proof cases
    case (id_load k)
    then show ?thesis using i by (simp add: id_inv_def)
  next
    case (id_swap k cur res ctr)
    from nextMessageID_round_cases [OF id_swap(4)] show ?thesis
    proof (elim disjE exE conjE)
      fix v assume v: "res = Some (Inr v)" "ctr = v" "is_counter s < v"
      then have "sorted_wrt (<) (initialMessageIDCounter seed # is_returned s @ [v])"
        using i by (intro sorted_last_snoc) (simp_all add: id_inv_def)
      then show ?thesis using id_swap(1) v by (simp add: id_inv_def)
    next
      assume "ctr = is_counter s" and "\<forall>v. res \<noteq> Some (Inr v)"
      then show ?thesis using id_swap(1) i by (auto simp: id_inv_def split: option.splits sum.splits)
    qed
  qed
qed

lemma initialMessageIDCounter_bound: "unat (initialMessageIDCounter seed) \<le> 2 ^ 63 - 2 ^ 31"
proof -
  let ?w = "bigEndianUint32 seed"
  have "unat ?w < 2 ^ LENGTH(32)" by (rule unsigned_less)
  then have w: "unat ?w \<le> 2 ^ 32 - 1" by simp
  then have "unat (ucast ?w :: uint64) = unat ?w"
    by (simp only: unsigned_ucast_eq) (simp add: take_bit_nat_eq_self)
  then have "unat (initialMessageIDCounter seed) = unat ?w * 2 ^ 31"
    using w by (simp add: initialMessageIDCounter_def push_bit_eq_mult unat_word_ariths)
  then show ?thesis using w by simp
qed

text \<open>
  C20.  Message ids are unique.  However concurrent callers of \<open>nextMessageID\<close> interleave their loads
  and swaps, the ids they get are pairwise different, not zero and above the start of the Client's
  range; and at least \<open>2^63\<close> ids are available before the error of exhaustion.
\<close>

theorem message_ids_unique:
  assumes "reachable (id_start seed) id_step s"
  shows "distinct (is_returned s) \<and> 0 \<notin> set (is_returned s)
    \<and> list_all (\<lambda>v. initialMessageIDCounter seed < v \<and> v \<le> is_counter s) (is_returned s)
    \<and> unat (initialMessageIDCounter seed) + 2 ^ 63 \<le> unat (- 1 :: uint64)"
proof -
  let ?c = "initialMessageIDCounter seed"
  have i: "sorted_wrt (<) (?c # is_returned s)" "last (?c # is_returned s) = is_counter s"
    using message_ids.inv_reachable [OF assms] by (simp_all add: id_inv_def)
  have "distinct xs" if "sorted_wrt (<) xs" for xs :: "uint64 list" using that by (induction xs) auto
  then have d: "distinct (is_returned s)" using i(1) by simp
  have le: "v \<le> last (?c # is_returned s)" if "v \<in> set (is_returned s)" for v
    using sorted_le_last [OF i(1)] that by simp
  have above: "?c < v" if "v \<in> set (is_returned s)" for v using i(1) that by simp
  then have "0 \<notin> set (is_returned s)" by force
  moreover have "unat (- 1 :: uint64) = 2 ^ 64 - 1" by (simp add: unsigned_minus_1_eq_mask mask_eq_exp_minus_1)
  ultimately show ?thesis
    using d le above i(2) initialMessageIDCounter_bound [of seed] by (simp add: list_all_iff)
qed

theorem message_ids_unique_witness:
  "let s = \<lparr>is_counter = 1, is_loaded = [None, None], is_returned = [1]\<rparr>
   in reachable (id_start [0, 0, 0, 0]) id_step s \<and> distinct (is_returned s) \<and> 0 \<notin> set (is_returned s)"
proof -
  let ?start = "\<lparr>is_counter = 0, is_loaded = [None, None], is_returned = []\<rparr>"
  let ?loaded = "\<lparr>is_counter = 0, is_loaded = [Some 0, None], is_returned = []\<rparr>"
  let ?s = "\<lparr>is_counter = 1, is_loaded = [None, None], is_returned = [1]\<rparr>"
  have "initialMessageIDCounter [0, 0, 0, 0] = 0" by code_simp
  then have "id_start [0, 0, 0, 0] ?start" by (simp add: id_start_def)
  moreover have "id_step ?start ?loaded" using id_load [of 0 ?start] by simp
  moreover have "id_step ?loaded ?s" using id_swap [of 0 ?loaded 0 "Some (Inr 1)" 1] by (simp add: nextMessageID_round_def)
  ultimately have "reachable (id_start [0, 0, 0, 0]) id_step ?s" by (blast intro: reachable_start reachable_step)
  with message_ids_unique [OF this] show ?thesis by simp
qed

end
