(* ===== verification/Go_Strings.thy ===== *)
theory Go_Strings
  imports Errors
begin

text \<open>
  The functions of Go's packages \<open>strings\<close>, \<open>strconv\<close>, \<open>net\<close> and \<open>net/url\<close> that the SDK applies to
  configuration, DNS documents and redirects, on strings as lists of bytes.
\<close>

section \<open>Trimming and splitting\<close>

text \<open>
  The encodings of the characters that \<open>unicode.IsSpace\<close> accepts, ASCII and UTF-8.
  \<open>strings.TrimSpace\<close> removes them from both ends.
\<close>

definition space_encodings :: "string list" where
  "space_encodings =
     [[CHR 0x09], [CHR 0x0A], [CHR 0x0B], [CHR 0x0C], [CHR 0x0D], [CHR 0x20], [CHR 0xC2, CHR 0x85],
      [CHR 0xC2, CHR 0xA0], [CHR 0xE1, CHR 0x9A, CHR 0x80], [CHR 0xE2, CHR 0x80, CHR 0x80],
      [CHR 0xE2, CHR 0x80, CHR 0x81], [CHR 0xE2, CHR 0x80, CHR 0x82], [CHR 0xE2, CHR 0x80, CHR 0x83],
      [CHR 0xE2, CHR 0x80, CHR 0x84], [CHR 0xE2, CHR 0x80, CHR 0x85], [CHR 0xE2, CHR 0x80, CHR 0x86],
      [CHR 0xE2, CHR 0x80, CHR 0x87], [CHR 0xE2, CHR 0x80, CHR 0x88], [CHR 0xE2, CHR 0x80, CHR 0x89],
      [CHR 0xE2, CHR 0x80, CHR 0x8A], [CHR 0xE2, CHR 0x80, CHR 0xA8], [CHR 0xE2, CHR 0x80, CHR 0xA9],
      [CHR 0xE2, CHR 0x80, CHR 0xAF], [CHR 0xE2, CHR 0x81, CHR 0x9F], [CHR 0xE3, CHR 0x80, CHR 0x80]]"

fun prefix_length :: "string list \<Rightarrow> string \<Rightarrow> nat" where
  "prefix_length [] s = 0"
| "prefix_length (p # ps) s = (if is_prefix p s then length p else prefix_length ps s)"

lemma prefix_length_le: "prefix_length ps s \<le> length s"
  by (induction ps) (auto simp: is_prefix_iff)

function strip_prefixes :: "string list \<Rightarrow> string \<Rightarrow> string" where
  "strip_prefixes ps s =
     (if prefix_length ps s = 0 then s else strip_prefixes ps (drop (prefix_length ps s) s))"
  by pat_completeness auto
termination
proof (relation "measure (\<lambda>(ps, s). length s)")
  fix ps :: "string list" and s :: string
  assume "prefix_length ps s \<noteq> 0"
  with prefix_length_le [of ps s] show "((ps, drop (prefix_length ps s) s), (ps, s)) \<in> measure (\<lambda>(ps, s). length s)"
    by auto
qed simp

declare strip_prefixes.simps [simp del]

definition trimSpace :: "string \<Rightarrow> string" where
  "trimSpace s =
     rev (strip_prefixes (map rev space_encodings) (rev (strip_prefixes space_encodings s)))"

text \<open>\<open>strings.Trim\<close> and \<open>strings.TrimRight\<close> with a cutset of single bytes, \<open>strings.TrimSuffix\<close>.\<close>

definition trimRightSet :: "string \<Rightarrow> string \<Rightarrow> string" where
  "trimRightSet cutset s = rev (dropWhile (\<lambda>c. c \<in> set cutset) (rev s))"

definition trimSet :: "string \<Rightarrow> string \<Rightarrow> string" where
  "trimSet cutset s = trimRightSet cutset (dropWhile (\<lambda>c. c \<in> set cutset) s)"

definition trimSuffix :: "string \<Rightarrow> string \<Rightarrow> string" where
  "trimSuffix suffix s = (if is_prefix (rev suffix) (rev s) then take (length s - length suffix) s else s)"

text \<open>\<open>strings.Cut\<close> and \<open>strings.Split\<close> at a single byte.\<close>

definition cut :: "char \<Rightarrow> string \<Rightarrow> string \<times> string \<times> bool" where
  "cut sep s = (if sep \<in> set s then (takeWhile (\<lambda>c. c \<noteq> sep) s, tl (dropWhile (\<lambda>c. c \<noteq> sep) s), True) else (s, [], False))"

fun split_on :: "char \<Rightarrow> string \<Rightarrow> string list" where
  "split_on sep [] = [[]]"
| "split_on sep (c # cs) =
     (if c = sep then [] # split_on sep cs
      else (case split_on sep cs of [] \<Rightarrow> [[c]] | w # ws \<Rightarrow> (c # w) # ws))"

section \<open>Numbers\<close>

definition is_digit :: "char \<Rightarrow> bool" where
  "is_digit c \<longleftrightarrow> 48 \<le> (of_char c :: nat) \<and> (of_char c :: nat) \<le> 57"

definition digits_value :: "string \<Rightarrow> nat" where
  "digits_value s = foldl (\<lambda>n c. 10 * n + (of_char c - 48)) 0 s"

text \<open>\<open>strconv.Atoi\<close>: an optional sign, decimal digits, and the range of \<open>int\<close>.\<close>

definition atoi :: "string \<Rightarrow> int option" where
  "atoi s =
     (let (neg, ds) = (case s of [] \<Rightarrow> (False, [])
            | c # cs \<Rightarrow> if c = CHR ''-'' then (True, cs) else if c = CHR ''+'' then (False, cs) else (False, s));
          v = (if neg then - int (digits_value ds) else int (digits_value ds))
      in if ds = [] \<or> \<not> list_all is_digit ds \<or> \<not> in_int64 v then None else Some v)"

section \<open>URLs and addresses\<close>

definition is_alnum :: "char \<Rightarrow> bool" where
  "is_alnum c \<longleftrightarrow> (let n = (of_char c :: nat) in
     (97 \<le> n \<and> n \<le> 122) \<or> (65 \<le> n \<and> n \<le> 90) \<or> (48 \<le> n \<and> n \<le> 57))"

definition hostSafe :: "char \<Rightarrow> bool" where
  "hostSafe c \<longleftrightarrow> is_alnum c \<or> c \<in> set ''!$&'' \<or> of_char c = (39 :: nat) \<or> c \<in> set ''()*+,;=:[]<>-_.~''
     \<or> of_char c = (34 :: nat)"

definition pathSafe :: "char \<Rightarrow> bool" where
  "pathSafe c \<longleftrightarrow> is_alnum c \<or> c \<in> set ''-_.~$&+,/:;=@''"

definition upperHex :: "nat \<Rightarrow> char" where
  "upperHex n = ''0123456789ABCDEF'' ! n"

text \<open>\<open>url.escape\<close> with the set of bytes that stay as they are.\<close>

definition escape :: "(char \<Rightarrow> bool) \<Rightarrow> string \<Rightarrow> string" where
  "escape safe s = concat (map (\<lambda>c. if safe c then [c]
     else [CHR ''%'', upperHex (of_char c div 16), upperHex (of_char c mod 16)]) s)"

text \<open>\<open>URL.String\<close> for a URL that has a scheme, a host and an absolute path or none.\<close>

definition urlString :: "string \<Rightarrow> string \<Rightarrow> string \<Rightarrow> string" where
  "urlString scheme host path = scheme @ ''://'' @ escape hostSafe host @ escape pathSafe path"

definition joinHostPort :: "string \<Rightarrow> string \<Rightarrow> string" where
  "joinHostPort host port =
     (if CHR '':'' \<in> set host then ''['' @ host @ '']:'' @ port else host @ '':'' @ port)"

section \<open>Facts\<close>

lemma escape_safe: "list_all safe s \<Longrightarrow> escape safe s = s"
  by (induction s) (auto simp: escape_def)

lemma split_on_nonempty [simp]: "split_on sep s \<noteq> []"
  by (induction s) (auto split: list.splits)

lemma split_on_set: "w \<in> set (split_on sep s) \<Longrightarrow> set w \<subseteq> set s - {sep}"
proof (induction s arbitrary: w)
  case (Cons c s)
  then show ?case by (cases "split_on sep s") (fastforce split: if_splits)+
qed simp

lemma split_on_cover: "c \<in> set s \<Longrightarrow> c \<noteq> sep \<Longrightarrow> \<exists>w \<in> set (split_on sep s). c \<in> set w"
proof (induction s)
  case (Cons d s)
  then show ?case by (cases "split_on sep s") (auto split: if_splits)
qed simp

lemma cut_parts: "cut sep s = (a, b, True) \<Longrightarrow> s = a @ sep # b \<and> sep \<notin> set a"
proof -
  assume c: "cut sep s = (a, b, True)"
  then have m: "sep \<in> set s" and ab: "a = takeWhile (\<lambda>c. c \<noteq> sep) s" "b = tl (dropWhile (\<lambda>c. c \<noteq> sep) s)"
    by (auto simp: cut_def split: if_splits)
  have ne: "dropWhile (\<lambda>c. c \<noteq> sep) s \<noteq> []" using m by (auto simp: dropWhile_eq_Nil_conv)
  then have "hd (dropWhile (\<lambda>c. c \<noteq> sep) s) = sep" using hd_dropWhile by blast
  then have "dropWhile (\<lambda>c. c \<noteq> sep) s = sep # b" using ne ab(2) by (cases "dropWhile (\<lambda>c. c \<noteq> sep) s") auto
  then show ?thesis using takeWhile_dropWhile_id [of "\<lambda>c. c \<noteq> sep" s] ab(1)
    by (metis (mono_tags, lifting) set_takeWhileD)
qed

lemma set_strip_prefixes: "set (strip_prefixes ps s) \<subseteq> set s"
proof (induction ps s rule: strip_prefixes.induct)
  case (1 ps s)
  then show ?case using set_drop_subset [of "prefix_length ps s" s] by (subst strip_prefixes.simps) auto
qed

lemma set_trimSpace: "set (trimSpace s) \<subseteq> set s"
  unfolding trimSpace_def using set_strip_prefixes [of space_encodings s]
    set_strip_prefixes [of "map rev space_encodings" "rev (strip_prefixes space_encodings s)"] by auto

lemma set_trimSet: "set (trimSet cs s) \<subseteq> set s"
  unfolding trimSet_def trimRightSet_def by (auto dest!: set_dropWhileD)

end
