(* ===== verification/DNS_Endpoints.thy ===== *)
theory DNS_Endpoints
  imports Go_Strings
begin

text \<open>
  The bootstrap lookup of \<open>sdk/dns.go\<close>: from the hosts of the DNS document to the ordered list of WSS
  candidates and the REST base, and the bounded, retried request that fetches the document.

  What the code relies on is collected in \<open>dns_env\<close>: \<open>encoding/json\<close> applied to the document,
  \<open>net.ParseIP\<close> (whether it recognises an address), \<open>url.Parse\<close> (scheme and host), and the HTTP
  exchange of an attempt (a transport error, or the status, the body and the error that ends the body).
\<close>

section \<open>Definitions\<close>

record loginEndpoints =
  le_WSS :: "string list"
  le_REST :: string

text \<open>The JSON values that \<open>flexibleString\<close> tells apart.\<close>

datatype json_scalar = JString string | JNumber string | JNull | JOther

definition flexibleString_UnmarshalJSON :: "json_scalar \<Rightarrow> go_error + string" where
  "flexibleString_UnmarshalJSON data =
     (case data of JString text \<Rightarrow> Inr text | JNull \<Rightarrow> Inr [] | JNumber number \<Rightarrow> Inr number
      | JOther \<Rightarrow> Inl (LibErr PlainError False ''must be a string or number'' None))"

record dnsHost =
  dh_Protocol :: string
  dh_Port :: string
  dh_Domain :: string
  dh_Priority :: string

record dnsDocument =
  dd_MsyncWX :: "dnsHost list"
  dd_REST :: "dnsHost list"

record dns_env =
  de_unmarshal :: "bytes \<Rightarrow> go_error + dnsDocument"
  de_parseIP :: "string \<Rightarrow> bool"
  de_urlParse :: "string \<Rightarrow> go_error + (string \<times> string)"
  de_http :: "nat \<Rightarrow> string \<Rightarrow> go_error + (int \<times> bytes \<times> go_error option)"

definition label_ok :: "string \<Rightarrow> bool" where
  "label_ok w \<longleftrightarrow> w \<noteq> [] \<and> length w \<le> 63 \<and> hd w \<noteq> CHR ''-'' \<and> last w \<noteq> CHR ''-''
     \<and> list_all (\<lambda>c. is_alnum c \<or> c = CHR ''-'') w"

definition validDNSDomain :: "(string \<Rightarrow> bool) \<Rightarrow> string \<Rightarrow> bool" where
  "validDNSDomain parseIP domain \<longleftrightarrow>
     parseIP domain
     \<or> (domain \<noteq> [] \<and> length domain \<le> 253 \<and> list_all label_ok (split_on CHR ''.'' (trimSuffix ''.'' domain)))"

text \<open>The blanks of the cutset \<open>" \t\r\n/@?#"\<close> are 9, 13 and 10.\<close>

definition blanks :: string where
  "blanks = [CHR '' '', CHR 0x09, CHR 0x0D, CHR 0x0A]"

definition dns_port :: "string \<Rightarrow> int option" where
  "dns_port raw0 =
     (let raw = trimSpace raw0
      in if raw = [] then Some 443
         else (case atoi raw of None \<Rightarrow> None | Some p \<Rightarrow> if p < 1 \<or> p > 65535 then None else Some p))"

definition makeDNSEndpoint :: "(string \<Rightarrow> bool) \<Rightarrow> dnsHost \<Rightarrow> bool \<Rightarrow> string option" where
  "makeDNSEndpoint parseIP host websocket =
     (let domain = trimSpace (dh_Domain host)
      in if domain = [] \<or> containsAny domain (blanks @ ''/@?#'') then None
         else
           let normalizedDomain = trimSet ''[]'' domain;
               isIPv6 = (contains normalizedDomain '':'' \<and> parseIP normalizedDomain)
           in if \<not> validDNSDomain parseIP normalizedDomain \<or> (contains normalizedDomain '':'' \<and> \<not> isIPv6) then None
              else
                let scheme = toLower (trimSpace (dh_Protocol host))
                in if websocket \<and> scheme \<noteq> ''wss'' \<and> scheme \<noteq> ''https'' then None
                   else if \<not> websocket \<and> scheme \<noteq> ''https'' then None
                   else
                     (case dns_port (dh_Port host) of None \<Rightarrow> None
                      | Some port \<Rightarrow>
                          let scheme = (if websocket then ''wss'' else scheme);
                              hostPort = (if port \<noteq> 443 then joinHostPort normalizedDomain (itoa port)
                                          else if isIPv6 then ''['' @ normalizedDomain @ '']'' else normalizedDomain)
                          in Some (urlString scheme hostPort (if websocket then ''/websocket'' else []))))"

text \<open>The first loop of \<open>selectDNSHosts\<close>: the priority and the fallback endpoints, in document order.\<close>

definition has_priority :: "dnsHost \<Rightarrow> bool" where
  "has_priority host \<longleftrightarrow> trimSpace (dh_Priority host) = ''1''"

fun partition_hosts :: "(string \<Rightarrow> bool) \<Rightarrow> bool \<Rightarrow> dnsHost list \<Rightarrow> string list \<times> string list \<Rightarrow> string list \<times> string list" where
  "partition_hosts parseIP websocket [] acc = acc"
| "partition_hosts parseIP websocket (host # hosts) (priority, fallback) =
     (case makeDNSEndpoint parseIP host websocket of
        None \<Rightarrow> partition_hosts parseIP websocket hosts (priority, fallback)
      | Some endpoint \<Rightarrow>
          if has_priority host then partition_hosts parseIP websocket hosts (priority @ [endpoint], fallback)
          else partition_hosts parseIP websocket hosts (priority, fallback @ [endpoint]))"

text \<open>The second loop; the keys of \<open>seen\<close> are the elements of \<open>ordered\<close>.\<close>

fun dedup :: "string list \<Rightarrow> string list \<Rightarrow> string list" where
  "dedup [] ordered = ordered"
| "dedup (endpoint # grp) ordered =
     (if endpoint \<in> set ordered then dedup grp ordered else dedup grp (ordered @ [endpoint]))"

definition selectDNSHosts :: "(string \<Rightarrow> bool) \<Rightarrow> dnsHost list \<Rightarrow> bool \<Rightarrow> string list" where
  "selectDNSHosts parseIP hosts websocket =
     (let (priority, fallback) = partition_hosts parseIP websocket hosts ([], [])
      in dedup fallback (dedup priority []))"

definition selectDNSHost :: "(string \<Rightarrow> bool) \<Rightarrow> dnsHost list \<Rightarrow> bool \<Rightarrow> string option" where
  "selectDNSHost parseIP hosts websocket =
     (case selectDNSHosts parseIP hosts websocket of [] \<Rightarrow> None | endpoint # rest \<Rightarrow> Some endpoint)"

text \<open>The form \<open>org#app\<close> of an AppKey, checked here and by \<open>applyDefaultsAndValidate\<close>.\<close>

definition split_app_key :: "string \<Rightarrow> (string \<times> string) option" where
  "split_app_key appKey =
     (let (org, app, ok) = cut CHR ''#'' appKey
      in if \<not> ok \<or> org = [] \<or> app = [] \<or> contains app ''#'' \<or> containsAny (org @ app) (blanks @ ''/'') then None
         else Some (org, app))"

abbreviation (input) dnsMaxWSSCandidates :: nat where "dnsMaxWSSCandidates \<equiv> 64"

definition resolveDNSCandidates :: "dns_env \<Rightarrow> bytes \<Rightarrow> string \<Rightarrow> go_error + loginEndpoints" where
  "resolveDNSCandidates env body appKey =
     (case de_unmarshal env body of
        Inl e \<Rightarrow> Inl (dnsStageError ''invalid JSON response'' 0 (Some e))
      | Inr document \<Rightarrow>
          let wss = selectDNSHosts (de_parseIP env) (dd_MsyncWX document) True
          in if wss = [] then Inl (dnsStageError ''response has no valid WSS host in msync-wx.hosts'' 0 None)
             else if length wss > dnsMaxWSSCandidates
             then Inl (dnsStageError (''response has more than '' @ itoa (int dnsMaxWSSCandidates) @ '' valid WSS hosts'') 0 None)
             else
               (case selectDNSHost (de_parseIP env) (dd_REST document) False of
                  None \<Rightarrow> Inl (dnsStageError ''response has no valid HTTPS host in rest.hosts'' 0 None)
                | Some rest \<Rightarrow>
                    (case split_app_key appKey of
                       None \<Rightarrow> Inl (dnsStageError ''AppKey must have org#app form'' 0 None)
                     | Some (org, app) \<Rightarrow>
                         (case de_urlParse env rest of
                            Inl e \<Rightarrow> Inl (dnsStageError ''invalid selected REST host'' 0 (Some e))
                          | Inr (scheme, host) \<Rightarrow>
                              Inr \<lparr>le_WSS = wss,
                                le_REST = trimRightSet ''/'' (urlString scheme host (''/'' @ org @ ''/'' @ app))\<rparr>))))"

abbreviation (input) dnsResponseMaxBytes :: nat where "dnsResponseMaxBytes \<equiv> 1048576"

definition readBoundedDNSResponse :: "bytes \<times> go_error option \<Rightarrow> go_error + bytes" where
  "readBoundedDNSResponse stream =
     (let (body, err) = (if dnsResponseMaxBytes + 1 \<le> length (fst stream)
                         then (take (dnsResponseMaxBytes + 1) (fst stream), None) else stream)
      in case err of Some e \<Rightarrow> Inl (dnsStageError ''read response'' 0 (Some e))
         | None \<Rightarrow>
             if length body > dnsResponseMaxBytes
             then Inl (dnsStageError (''response exceeds '' @ itoa (int dnsResponseMaxBytes) @ '' bytes'') 0 None)
             else Inr body)"

text \<open>
  One attempt: the result, or the error with the flag that asks for another attempt.  The request is
  built from a constant URL, so its construction does not fail.
\<close>

definition fetchLoginEndpointCandidates ::
  "dns_env \<Rightarrow> string \<Rightarrow> nat \<Rightarrow> string \<Rightarrow> (go_error \<times> bool) + loginEndpoints" where
  "fetchLoginEndpointCandidates env appKey attempt endpoint =
     (case de_http env attempt endpoint of
        Inl e \<Rightarrow> Inl (dnsStageError ''request failed'' 0 (Some e), True)
      | Inr (status, stream) \<Rightarrow>
          if status < 200 \<or> status \<ge> 300
          then Inl (dnsStageError ''unexpected HTTP status'' status None, status \<ge> 500 \<or> status = 429)
          else
            (case readBoundedDNSResponse stream of Inl e \<Rightarrow> Inl (e, False)
             | Inr body \<Rightarrow>
                 (case resolveDNSCandidates env body appKey of Inl e \<Rightarrow> Inl (e, False) | Inr res \<Rightarrow> Inr res)))"

definition querySafe :: "char \<Rightarrow> bool" where
  "querySafe c \<longleftrightarrow> is_alnum c \<or> c \<in> set ''-_.~''"

definition queryEscape :: "string \<Rightarrow> string" where
  "queryEscape s = concat (map (\<lambda>c. if c = CHR '' '' then ''+'' else escape querySafe [c]) s)"

definition bootstrapURL :: "string \<Rightarrow> string" where
  "bootstrapURL appKey = ''https://rs.easemob.com/easemob/server.json?app_key='' @ queryEscape appKey
     @ ''&file_version=1&sdk_version=5.0''"

abbreviation (input) dnsMaxAttempts :: nat where "dnsMaxAttempts \<equiv> 2"

text \<open>
  The retry loop from an attempt on.  \<open>canceled attempt\<close> is the context's error when it ends during the
  pause after that attempt.
\<close>

function dns_attempts ::
  "dns_env \<Rightarrow> (nat \<Rightarrow> go_error option) \<Rightarrow> string \<Rightarrow> nat \<Rightarrow> go_error + loginEndpoints" where
  "dns_attempts env canceled appKey attempt =
     (case fetchLoginEndpointCandidates env appKey attempt (bootstrapURL appKey) of
        Inr resolved \<Rightarrow> Inr resolved
      | Inl (err, retry) \<Rightarrow>
          if \<not> retry \<or> attempt \<ge> dnsMaxAttempts then Inl err
          else
            (case canceled attempt of
               Some e \<Rightarrow> Inl (dnsStageError ''request canceled while retrying'' 0 (Some e))
             | None \<Rightarrow> dns_attempts env canceled appKey (Suc attempt)))"
  by pat_completeness auto
termination by (relation "measure (\<lambda>(env, canceled, appKey, attempt). dnsMaxAttempts - attempt)") auto

declare dns_attempts.simps [simp del]

definition resolveLoginEndpointCandidates ::
  "dns_env \<Rightarrow> (nat \<Rightarrow> go_error option) \<Rightarrow> string \<Rightarrow> go_error + loginEndpoints" where
  "resolveLoginEndpointCandidates env canceled appKey = dns_attempts env canceled appKey 1"

definition resolveLoginEndpoints ::
  "dns_env \<Rightarrow> (nat \<Rightarrow> go_error option) \<Rightarrow> string \<Rightarrow> go_error + (string \<times> string)" where
  "resolveLoginEndpoints env canceled appKey =
     (case resolveLoginEndpointCandidates env canceled appKey of Inl e \<Rightarrow> Inl e
      | Inr resolved \<Rightarrow> Inr (hd (le_WSS resolved), le_REST resolved))"

section \<open>The order of the candidates\<close>

definition endpoints_of :: "(string \<Rightarrow> bool) \<Rightarrow> bool \<Rightarrow> dnsHost list \<Rightarrow> string list" where
  "endpoints_of parseIP websocket hosts = List.map_filter (\<lambda>h. makeDNSEndpoint parseIP h websocket) hosts"

lemma partition_hosts_eq:
  "partition_hosts parseIP ws hosts (p, f) =
     (p @ endpoints_of parseIP ws (filter has_priority hosts),
      f @ endpoints_of parseIP ws (filter (\<lambda>h. \<not> has_priority h) hosts))"
  by (induction hosts arbitrary: p f) (auto simp: endpoints_of_def map_filter_simps split: option.splits)

definition first_occurrences :: "'a list \<Rightarrow> 'a list" where
  "first_occurrences xs = rev (remdups (rev xs))"

lemma dedup_first_occurrences: "distinct acc \<Longrightarrow> dedup xs acc = first_occurrences (acc @ xs)"
proof (induction xs arbitrary: acc)
  case Nil
  then show ?case by (simp add: first_occurrences_def distinct_remdups_id)
next
  case (Cons x xs)
  show ?case
  proof (cases "x \<in> set acc")
    case True
    then have "remdups (rev xs @ x # rev acc) = remdups (rev xs @ rev acc)"
      by (metis remdups.simps(2) remdups_append2 set_rev)
    with True Cons show ?thesis by (simp add: first_occurrences_def)
  next
    case False
    with Cons.prems Cons.IH [of "acc @ [x]"] show ?thesis by simp
  qed
qed

lemma endpoints_of_set: "set (endpoints_of parseIP ws hosts) = {u. \<exists>h \<in> set hosts. makeDNSEndpoint parseIP h ws = Some u}"
  by (auto simp: endpoints_of_def List.map_filter_def image_iff) force

lemma selectDNSHosts_eq:
  "selectDNSHosts parseIP hosts ws =
     first_occurrences (endpoints_of parseIP ws (filter has_priority hosts)
       @ endpoints_of parseIP ws (filter (\<lambda>h. \<not> has_priority h) hosts))"
proof -
  let ?p = "endpoints_of parseIP ws (filter has_priority hosts)"
  let ?f = "endpoints_of parseIP ws (filter (\<lambda>h. \<not> has_priority h) hosts)"
  have "selectDNSHosts parseIP hosts ws = dedup ?f (dedup ?p [])"
    by (simp add: selectDNSHosts_def partition_hosts_eq)
  also have "\<dots> = first_occurrences (first_occurrences ?p @ ?f)"
    by (simp add: dedup_first_occurrences) (simp add: dedup_first_occurrences first_occurrences_def)
  also have "\<dots> = first_occurrences (?p @ ?f)" by (simp add: first_occurrences_def remdups_append2)
  finally show ?thesis .
qed

lemma selectDNSHosts_set:
  "distinct (selectDNSHosts parseIP hosts ws)"
  "set (selectDNSHosts parseIP hosts ws) = {u. \<exists>h \<in> set hosts. makeDNSEndpoint parseIP h ws = Some u}"
  unfolding selectDNSHosts_eq by (auto simp: first_occurrences_def endpoints_of_set)

text \<open>
  The order of the candidates.  The endpoints chosen from a list of hosts are the first occurrences
  in the sequence of the endpoints of the hosts with priority 1, in document order, followed by those
  of the other hosts; each endpoint appears once, and every host that yields an endpoint is there.
\<close>

lemma dns_hosts_ordered:
  "let us = selectDNSHosts parseIP hosts ws
   in us = first_occurrences (endpoints_of parseIP ws (filter has_priority hosts)
             @ endpoints_of parseIP ws (filter (\<lambda>h. \<not> has_priority h) hosts))
      \<and> distinct us \<and> set us = set (endpoints_of parseIP ws hosts)"
  by (simp add: Let_def selectDNSHosts_set endpoints_of_set) (rule selectDNSHosts_eq)

section \<open>The shape of an endpoint\<close>

text \<open>
  What \<open>net.ParseIP\<close> accepts is not empty and written with hexadecimal digits, dots and colons; and
  \<open>url.Parse\<close> of a scheme and a host in such characters gives them back when it succeeds.
\<close>

definition parseIP_chars :: "(string \<Rightarrow> bool) \<Rightarrow> bool" where
  "parseIP_chars parseIP \<longleftrightarrow> (\<forall>s. parseIP s \<longrightarrow> s \<noteq> [] \<and> list_all (\<lambda>c. is_alnum c \<or> c \<in> set ''.:'') s)"

definition host_char :: "char \<Rightarrow> bool" where
  "host_char c \<longleftrightarrow> is_alnum c \<or> c \<in> set ''-.:[]''"

lemma trimSuffix_set: "c \<in> set s \<Longrightarrow> c \<notin> set x \<Longrightarrow> c \<in> set (trimSuffix x s)"
proof (cases "is_prefix (rev x) (rev s)")
  case True
  assume c: "c \<in> set s" "c \<notin> set x"
  from True obtain zs where "rev s = rev x @ zs" by (auto simp: is_prefix_iff)
  then have s: "s = rev zs @ x" by (metis rev_append rev_rev_ident)
  with c show ?thesis using True by (simp add: trimSuffix_def)
qed (simp add: trimSuffix_def)

lemma validDNSDomain_chars:
  assumes "validDNSDomain parseIP d" and "parseIP_chars parseIP"
  shows "list_all host_char d"
proof (cases "parseIP d")
  case True
  then show ?thesis using assms(2) by (auto simp: parseIP_chars_def list_all_iff host_char_def)
next
  case False
  then have l: "list_all label_ok (split_on CHR ''.'' (trimSuffix ''.'' d))" using assms(1) by (simp add: validDNSDomain_def)
  have "host_char c" if "c \<in> set d" for c
  proof (cases "c = CHR ''.''")
    case False
    then have "c \<in> set (trimSuffix ''.'' d)" using that by (intro trimSuffix_set) simp_all
    then obtain w where "w \<in> set (split_on CHR ''.'' (trimSuffix ''.'' d))" "c \<in> set w"
      using split_on_cover False by metis
    then show ?thesis using l by (auto simp: list_all_iff label_ok_def host_char_def)
  qed (simp add: host_char_def)
  then show ?thesis by (simp add: list_all_iff)
qed

lemma nat_digits_alnum: "list_all is_alnum (nat_digits n)"
proof (induction n rule: nat_digits.induct)
  case (1 n)
  have d: "is_alnum (char_of (48 + m))" if "m < 10" for m :: nat using that by (simp add: is_alnum_def)
  show ?case
  proof (cases "n < 10")
    case True
    then show ?thesis by (subst nat_digits.simps) (simp add: d)
  next
    case False
    then show ?thesis using 1 by (subst nat_digits.simps) (simp add: d)
  qed
qed

definition urlParse_host :: "(string \<Rightarrow> go_error + (string \<times> string)) \<Rightarrow> bool" where
  "urlParse_host urlParse \<longleftrightarrow>
     (\<forall>hp scheme host. list_all host_char hp \<longrightarrow> urlParse (''https://'' @ hp) = Inr (scheme, host) \<longrightarrow> scheme = ''https'' \<and> host = hp)"

lemma host_char_safe: "list_all host_char s \<Longrightarrow> list_all hostSafe s"
proof -
  have "set ''-.:[]'' \<subseteq> set ''()*+,;=:[]<>-_.~''" by simp
  then have "hostSafe c" if "host_char c" for c using that unfolding host_char_def hostSafe_def by blast
  then show "list_all host_char s \<Longrightarrow> list_all hostSafe s" by (simp add: list_all_iff)
qed

lemma itoa_host: "0 \<le> p \<Longrightarrow> list_all host_char (itoa p)"
  using nat_digits_alnum [of "nat p"] by (auto simp: itoa_def list_all_iff host_char_def)

lemma joinHostPort_chars: "list_all host_char d \<Longrightarrow> list_all host_char p \<Longrightarrow> list_all host_char (joinHostPort d p)"
  by (auto simp: joinHostPort_def host_char_def)

lemma escape_websocket: "escape pathSafe ''/websocket'' = ''/websocket''" "escape pathSafe [] = []"
  by (rule escape_safe, simp add: pathSafe_def is_alnum_def) (simp add: escape_def)

lemma makeDNSEndpoint_shape:
  assumes "makeDNSEndpoint parseIP h ws = Some u" and "parseIP_chars parseIP"
  shows "\<exists>hp. hp \<noteq> [] \<and> list_all host_char hp \<and> u = (if ws then ''wss://'' @ hp @ ''/websocket'' else ''https://'' @ hp)"
proof -
  define d where "d = trimSet ''[]'' (trimSpace (dh_Domain h))"
  have v: "validDNSDomain parseIP d"
    using assms(1) by (auto simp: makeDNSEndpoint_def Let_def d_def split: if_splits)
  then have d: "list_all host_char d" "d \<noteq> []"
    using validDNSDomain_chars [OF v assms(2)] assms(2) by (auto simp: validDNSDomain_def parseIP_chars_def)
  obtain port where port: "dns_port (dh_Port h) = Some port"
    using assms(1) by (auto simp: makeDNSEndpoint_def Let_def split: if_splits option.splits)
  then have "1 \<le> port" by (auto simp: dns_port_def Let_def split: if_splits option.splits)
  then have it: "list_all host_char (itoa port)" by (intro itoa_host) simp
  define hp where "hp = (if port \<noteq> 443 then joinHostPort d (itoa port)
       else if contains d '':'' \<and> parseIP d then ''['' @ d @ '']'' else d)"
  have hp: "list_all host_char hp"
    unfolding hp_def using d joinHostPort_chars [OF d(1) it] by (auto simp: host_char_def)
  have ne: "hp \<noteq> []" unfolding hp_def using d(2) by (auto simp: joinHostPort_def)
  have "u = urlString (if ws then ''wss'' else ''https'') hp (if ws then ''/websocket'' else [])"
    using assms(1) port unfolding makeDNSEndpoint_def hp_def d_def
    by (simp add: Let_def split: if_splits)
  with hp ne show ?thesis by (auto simp: urlString_def escape_safe host_char_safe escape_websocket)
qed

lemma escape_last:
  assumes "app \<noteq> []" and "CHR ''/'' \<notin> set app"
  shows "escape pathSafe app \<noteq> [] \<and> last (escape pathSafe app) \<noteq> CHR ''/''"
proof -
  obtain as c where app: "app = as @ [c]" using assms(1) by (metis rev_exhaust)
  have h: "upperHex (n mod 16) \<noteq> CHR ''/''" for n :: nat
  proof -
    have "n mod 16 < length ''0123456789ABCDEF''" by simp
    then have "upperHex (n mod 16) \<in> set ''0123456789ABCDEF''" unfolding upperHex_def by (rule nth_mem)
    then show ?thesis by auto
  qed
  show ?thesis using assms(2) h by (auto simp: app escape_def)
qed

lemma trimRightSet_id: "s \<noteq> [] \<Longrightarrow> last s \<notin> set cs \<Longrightarrow> trimRightSet cs s = s"
  by (cases s rule: rev_cases) (auto simp: trimRightSet_def)

lemma split_app_key_parts:
  assumes "split_app_key k = Some (org, app)"
  shows "k = org @ ''#'' @ app \<and> org \<noteq> [] \<and> app \<noteq> [] \<and> CHR ''/'' \<notin> set app"
proof -
  have "cut CHR ''#'' k = (org, app, True)" and n: "org \<noteq> []" "app \<noteq> []" "\<not> containsAny (org @ app) (blanks @ ''/'')"
    using assms by (auto simp: split_app_key_def split: prod.splits if_splits)
  then have "k = org @ CHR ''#'' # app" using cut_parts by blast
  with n show ?thesis by (auto simp: containsAny_def list_ex_iff)
qed

text \<open>
  C21.  The candidates of a lookup.  When \<open>resolveDNSCandidates\<close> succeeds there are between one and 64
  candidates, all different, each of the form \<open>wss://\<close> host \<open>/websocket\<close> with a host that has no
  byte that could change the meaning of the URL; and the REST base is one HTTPS host followed by the
  escaped organisation and application of the AppKey.
\<close>

theorem dns_candidates_valid:
  assumes "resolveDNSCandidates env body appKey = Inr res"
    and "parseIP_chars (de_parseIP env)" and "urlParse_host (de_urlParse env)"
  shows "1 \<le> length (le_WSS res) \<and> length (le_WSS res) \<le> dnsMaxWSSCandidates \<and> distinct (le_WSS res)
    \<and> list_all (\<lambda>u. \<exists>hp. list_all host_char hp \<and> u = ''wss://'' @ hp @ ''/websocket'') (le_WSS res)
    \<and> (\<exists>hp org app. list_all host_char hp \<and> appKey = org @ ''#'' @ app
         \<and> le_REST res = ''https://'' @ hp @ ''/'' @ escape pathSafe org @ ''/'' @ escape pathSafe app)"
proof -
  obtain doc where doc: "de_unmarshal env body = Inr doc"
    using assms(1) by (auto simp: resolveDNSCandidates_def split: sum.splits)
  define wss where "wss = selectDNSHosts (de_parseIP env) (dd_MsyncWX doc) True"
  obtain rest where rest: "selectDNSHost (de_parseIP env) (dd_REST doc) False = Some rest"
    using assms(1) by (auto simp: resolveDNSCandidates_def doc Let_def split: if_splits option.splits)
  obtain org app where key: "split_app_key appKey = Some (org, app)"
    using assms(1) by (auto simp: resolveDNSCandidates_def doc Let_def rest split: if_splits option.splits)
  obtain scheme host where url: "de_urlParse env rest = Inr (scheme, host)"
    using assms(1) by (auto simp: resolveDNSCandidates_def doc Let_def rest key split: if_splits sum.splits)
  have w: "wss \<noteq> []" "length wss \<le> dnsMaxWSSCandidates" "le_WSS res = wss"
    "le_REST res = trimRightSet ''/'' (urlString scheme host (''/'' @ org @ ''/'' @ app))"
    using assms(1) by (auto simp: resolveDNSCandidates_def doc Let_def rest key url wss_def split: if_splits)
  have "distinct wss" "set wss = {u. \<exists>h \<in> set (dd_MsyncWX doc). makeDNSEndpoint (de_parseIP env) h True = Some u}"
    unfolding wss_def by (rule selectDNSHosts_set)+
  moreover have "\<exists>hp. list_all host_char hp \<and> u = ''wss://'' @ hp @ ''/websocket''" if u: "u \<in> set wss" for u
  proof -
    obtain h where "makeDNSEndpoint (de_parseIP env) h True = Some u" using u selectDNSHosts_set(2) by (auto simp: wss_def)
    from makeDNSEndpoint_shape [OF this assms(2)] show ?thesis by auto
  qed
  ultimately have 1: "distinct wss" "list_all (\<lambda>u. \<exists>hp. list_all host_char hp \<and> u = ''wss://'' @ hp @ ''/websocket'') wss"
    by (simp_all add: list_all_iff)
  have "rest \<in> set (selectDNSHosts (de_parseIP env) (dd_REST doc) False)"
    using rest by (auto simp: selectDNSHost_def split: list.splits)
  then obtain h where "makeDNSEndpoint (de_parseIP env) h False = Some rest" by (auto simp: selectDNSHosts_set)
  from makeDNSEndpoint_shape [OF this assms(2)] obtain hp where hp: "list_all host_char hp" "rest = ''https://'' @ hp"
    by auto
  then have sh: "scheme = ''https''" "host = hp" using url assms(3) by (auto simp: urlParse_host_def)
  note k = split_app_key_parts [OF key]
  have e: "escape pathSafe (''/'' @ org @ ''/'' @ app) = ''/'' @ escape pathSafe org @ ''/'' @ escape pathSafe app"
    by (simp add: escape_def pathSafe_def)
  have "le_REST res = ''https://'' @ hp @ ''/'' @ escape pathSafe org @ ''/'' @ escape pathSafe app"
    unfolding w(4) sh urlString_def e using escape_last [of app] k hp(1)
    by (subst trimRightSet_id) (auto simp: escape_safe host_char_safe)
  then have r: "\<exists>hp org app. list_all host_char hp \<and> appKey = org @ ''#'' @ app
      \<and> le_REST res = ''https://'' @ hp @ ''/'' @ escape pathSafe org @ ''/'' @ escape pathSafe app"
    using hp(1) k by blast
  show ?thesis unfolding w(3) using 1 w(1,2) r by (simp only: length_greater_0_conv Suc_le_eq One_nat_def simp_thms)
qed

definition exampleHosts :: "dnsHost list" where
  "exampleHosts =
     [\<lparr>dh_Protocol = ''https'', dh_Port = ''99'', dh_Domain = ''a.io'', dh_Priority = ''2''\<rparr>,
      \<lparr>dh_Protocol = '' WSS '', dh_Port = [], dh_Domain = ''b.io'', dh_Priority = ''1''\<rparr>]"

definition exampleDNS :: dns_env where
  "exampleDNS = \<lparr>de_unmarshal = (\<lambda>body. Inr \<lparr>dd_MsyncWX = exampleHosts,
       dd_REST = [\<lparr>dh_Protocol = ''https'', dh_Port = [], dh_Domain = ''b.io'', dh_Priority = []\<rparr>]\<rparr>),
     de_parseIP = (\<lambda>s. False),
     de_urlParse = (\<lambda>s. if is_prefix ''https://'' s then Inr (''https'', drop 8 s) else Inl (RedirectErr [])),
     de_http = (\<lambda>attempt endpoint. Inr (200, [], None))\<rparr>"


lemma exampleDNS_strings:
  "trimSpace ''a.io'' = ''a.io''" "trimSpace ''b.io'' = ''b.io''" "trimSpace ''https'' = ''https''"
  "trimSpace '' WSS '' = ''WSS''" "trimSpace ''2'' = ''2''" "trimSpace ''1'' = ''1''" "trimSpace [] = []"
  "toLower ''WSS'' = ''wss''" "toLower ''https'' = ''https''" "dns_port ''99'' = Some 99" "dns_port [] = Some 443"
  "itoa 99 = ''99''" "trimSet ''[]'' ''a.io'' = ''a.io''" "trimSet ''[]'' ''b.io'' = ''b.io''"
  by code_simp+

lemma exampleDNS_domains:
  "validDNSDomain (\<lambda>s. False) ''a.io''" "validDNSDomain (\<lambda>s. False) ''b.io''"
  "\<not> containsAny ''a.io'' (blanks @ ''/@?#'')" "\<not> containsAny ''b.io'' (blanks @ ''/@?#'')"
  "split_app_key ''org#app'' = Some (''org'', ''app'')"
  by code_simp+

lemma exampleDNS_urls:
  "urlString ''wss'' ''a.io:99'' ''/websocket'' = ''wss://a.io:99/websocket''"
  "urlString ''wss'' ''b.io'' ''/websocket'' = ''wss://b.io/websocket''" "urlString ''https'' ''b.io'' [] = ''https://b.io''"
  "trimRightSet ''/'' (urlString ''https'' ''b.io'' ''/org/app'') = ''https://b.io/org/app''"
  by code_simp+

lemma exampleDNS_result:
  "resolveDNSCandidates exampleDNS [] ''org#app'' =
     Inr \<lparr>le_WSS = [''wss://b.io/websocket'', ''wss://a.io:99/websocket''], le_REST = ''https://b.io/org/app''\<rparr>"
  by (simp add: resolveDNSCandidates_def exampleDNS_def exampleHosts_def selectDNSHost_def selectDNSHosts_def
      makeDNSEndpoint_def has_priority_def joinHostPort_def Let_def exampleDNS_strings exampleDNS_domains exampleDNS_urls)

lemma exampleDNS_laws: "parseIP_chars (de_parseIP exampleDNS)" "urlParse_host (de_urlParse exampleDNS)"
  by (simp_all add: parseIP_chars_def urlParse_host_def exampleDNS_def)

theorem dns_candidates_valid_witness:
  "distinct [''wss://b.io/websocket'', ''wss://a.io:99/websocket'']
   \<and> (\<exists>hp. list_all host_char hp \<and> ''wss://b.io/websocket'' = ''wss://'' @ hp @ ''/websocket'')"
  using dns_candidates_valid [OF exampleDNS_result exampleDNS_laws] by (simp only: loginEndpoints.simps list.pred_inject simp_thms)

end
