(* ===== verification/DNS_Resolver.thy ===== *)
theory DNS_Resolver
  imports DNS_Endpoints
begin

text \<open>
  The shared DNS cache of \<open>sdk/dns.go\<close>: a bounded map with LRU eviction in which at most one load per
  key is in flight.

  Entries and flights are objects that goroutines share by pointer, so they live in two heaps and are
  named by their index.  The map is an association list, the LRU list has the most recently used entry
  first, the semaphore \<open>overflow\<close> is the number of its tokens.  Times and durations are integers in
  nanoseconds; \<open>None\<close> is the zero time.  \<open>resolveWithSettlement\<close> is cut where it releases the mutex: the
  lookup, the end of the load in its goroutine, and the wait of the caller.
\<close>

section \<open>Definitions\<close>

type_synonym dnsCacheKey = "string \<times> nat"

record dnsResolution =
  dr_Endpoints :: loginEndpoints
  dr_Generation :: uint64
  dr_Stale :: bool

record dnsFlight =
  fl_done :: bool
  fl_resolution :: "dnsResolution option"
  fl_err :: "go_error option"

record dnsCacheEntry =
  ce_key :: dnsCacheKey
  ce_endpoints :: loginEndpoints
  ce_hasValue :: bool
  ce_fetchedAt :: int
  ce_generation :: uint64
  ce_flight :: "nat option"
  ce_failures :: int
  ce_refreshNotBefore :: "int option"
  ce_lastErr :: "go_error option"
  ce_lastTransient :: bool
  ce_element :: bool

record dnsResolver =
  rv_entries :: "(dnsCacheKey \<times> nat) list"
  rv_lru :: "nat list"
  rv_capacity :: nat
  rv_freshTTL :: int
  rv_staleTTL :: int
  rv_generation :: uint64
  rv_overflow :: nat
  rv_objs :: "dnsCacheEntry list"
  rv_flights :: "dnsFlight list"

abbreviation (input) dnsResolverOverflow :: nat where "dnsResolverOverflow \<equiv> 8"
abbreviation (input) dnsFailureCooldown :: int where "dnsFailureCooldown \<equiv> 5000000000"
abbreviation (input) dnsMaxFailureCooldown :: int where "dnsMaxFailureCooldown \<equiv> 120000000000"

definition newDNSResolver :: "int \<Rightarrow> int \<Rightarrow> int \<Rightarrow> dnsResolver" where
  "newDNSResolver capacity freshTTL staleTTL =
     \<lparr>rv_entries = [], rv_lru = [], rv_capacity = (if capacity < 1 then 1 else nat capacity),
      rv_freshTTL = freshTTL, rv_staleTTL = staleTTL, rv_generation = 0, rv_overflow = 0, rv_objs = [], rv_flights = []\<rparr>"

definition emptyEndpoints :: loginEndpoints where
  "emptyEndpoints = \<lparr>le_WSS = [], le_REST = []\<rparr>"

definition newEntry :: "dnsCacheKey \<Rightarrow> dnsCacheEntry" where
  "newEntry key = \<lparr>ce_key = key, ce_endpoints = emptyEndpoints, ce_hasValue = False, ce_fetchedAt = 0, ce_generation = 0,
     ce_flight = None, ce_failures = 0, ce_refreshNotBefore = None, ce_lastErr = None, ce_lastTransient = False,
     ce_element = True\<rparr>"

definition newFlight :: dnsFlight where
  "newFlight = \<lparr>fl_done = False, fl_resolution = None, fl_err = None\<rparr>"

abbreviation cobj :: "dnsResolver \<Rightarrow> nat \<Rightarrow> dnsCacheEntry" where
  "cobj r a \<equiv> rv_objs r ! a"

definition upd_entry :: "nat \<Rightarrow> (dnsCacheEntry \<Rightarrow> dnsCacheEntry) \<Rightarrow> dnsResolver \<Rightarrow> dnsResolver" where
  "upd_entry a f r = r\<lparr>rv_objs := (rv_objs r)[a := f (cobj r a)]\<rparr>"

definition touchLocked :: "nat \<Rightarrow> dnsResolver \<Rightarrow> dnsResolver" where
  "touchLocked a r = (if ce_element (cobj r a) then r\<lparr>rv_lru := a # remove1 a (rv_lru r)\<rparr> else r)"

definition resolutionFromEntry :: "dnsCacheEntry \<Rightarrow> bool \<Rightarrow> dnsResolution" where
  "resolutionFromEntry e stale = \<lparr>dr_Endpoints = ce_endpoints e, dr_Generation = ce_generation e, dr_Stale = stale\<rparr>"

text \<open>The loop of \<open>dnsRefreshCooldown\<close>, \<open>n\<close> rounds of which are left.\<close>

fun cooldown_loop :: "nat \<Rightarrow> int \<Rightarrow> int" where
  "cooldown_loop 0 delay = delay"
| "cooldown_loop (Suc n) delay =
     (if delay < dnsMaxFailureCooldown then
        (if delay * 2 \<ge> dnsMaxFailureCooldown then dnsMaxFailureCooldown else cooldown_loop n (delay * 2))
      else delay)"

definition dnsRefreshCooldown :: "int \<Rightarrow> int" where
  "dnsRefreshCooldown failures =
     (if failures < 1 then 0 else cooldown_loop (nat (failures - 1)) dnsFailureCooldown)"

text \<open>The victim is the last idle entry of the LRU list.\<close>

definition find_victim :: "dnsResolver \<Rightarrow> nat option" where
  "find_victim r = List.find (\<lambda>a. ce_flight (cobj r a) = None) (rev (rv_lru r))"

definition evict :: "nat \<Rightarrow> dnsResolver \<Rightarrow> dnsResolver" where
  "evict a r = upd_entry a (\<lambda>e. e\<lparr>ce_element := False\<rparr>)
     (r\<lparr>rv_entries := AList.delete (ce_key (cobj r a)) (rv_entries r), rv_lru := remove1 a (rv_lru r)\<rparr>)"

lemma find_victim_Some: "find_victim r = Some a \<Longrightarrow> a \<in> set (rv_lru r) \<and> ce_flight (cobj r a) = None"
  by (auto simp: find_victim_def find_Some_iff) (metis nth_mem set_rev length_rev)

text \<open>The loop at the start of \<open>insertLocked\<close>: whether there is room in the end.\<close>

function make_room :: "dnsResolver \<Rightarrow> bool \<times> dnsResolver" where
  "make_room r =
     (if length (rv_entries r) \<ge> rv_capacity r then
        (case find_victim r of None \<Rightarrow> (False, r) | Some a \<Rightarrow> make_room (evict a r))
      else (True, r))"
  by pat_completeness auto
termination
proof (relation "measure (\<lambda>r. length (rv_lru r))")
  fix r a
  assume "find_victim r = Some a"
  then have "a \<in> set (rv_lru r)" using find_victim_Some by blast
  then have "0 < length (rv_lru r)" by (rule length_pos_if_in_set)
  with \<open>a \<in> set (rv_lru r)\<close> show "(evict a r, r) \<in> measure (\<lambda>r. length (rv_lru r))"
    by (simp add: evict_def upd_entry_def length_remove1)
qed simp

declare make_room.simps [simp del]

definition insertLocked :: "dnsCacheKey \<Rightarrow> dnsResolver \<Rightarrow> nat option \<times> dnsResolver" where
  "insertLocked key r0 =
     (case make_room r0 of (False, r) \<Rightarrow> (None, r)
      | (True, r) \<Rightarrow>
          let a = length (rv_objs r)
          in (Some a, r\<lparr>rv_objs := rv_objs r @ [newEntry key], rv_lru := a # rv_lru r,
                       rv_entries := AList.update key a (rv_entries r)\<rparr>))"

text \<open>What the critical section of \<open>resolveWithSettlement\<close> decides.\<close>

datatype lookup_result =
    LkAnswer "go_error + dnsResolution"
  | LkJoin nat
  | LkUncached
  | LkStart nat nat

definition start_flight :: "nat \<Rightarrow> dnsResolver \<Rightarrow> lookup_result \<times> dnsResolver" where
  "start_flight a r =
     (let f = length (rv_flights r)
      in (LkStart a f, upd_entry a (\<lambda>e. e\<lparr>ce_flight := Some f\<rparr>) (r\<lparr>rv_flights := rv_flights r @ [newFlight]\<rparr>)))"

definition resolve_lookup ::
  "int \<Rightarrow> dnsCacheKey \<Rightarrow> uint64 \<Rightarrow> dnsResolver \<Rightarrow> lookup_result \<times> dnsResolver" where
  "resolve_lookup now key knownGeneration r0 =
     (case map_of (rv_entries r0) key of
        Some a \<Rightarrow>
          let r = touchLocked a r0; e = cobj r a; age = now - ce_fetchedAt e
          in if ce_hasValue e \<and> age \<le> rv_freshTTL r \<and> ce_generation e > knownGeneration
             then (LkAnswer (Inr (resolutionFromEntry e False)), r)
             else
               (case ce_flight e of
                  Some f \<Rightarrow> (LkJoin f, r)
                | None \<Rightarrow>
                    if (case ce_refreshNotBefore e of None \<Rightarrow> False | Some t \<Rightarrow> now < t)
                    then
                      (if ce_lastTransient e \<and> ce_hasValue e \<and> age \<le> rv_staleTTL r
                       then (LkAnswer (Inr (resolutionFromEntry e True)), r)
                       else
                         (LkAnswer (Inl (case ce_lastErr e of Some err \<Rightarrow> err
                            | None \<Rightarrow> dnsStageError ''DNS refresh is temporarily throttled'' 0 None)), r))
                    else start_flight a r)
      | None \<Rightarrow>
          (case insertLocked key r0 of
             (None, r) \<Rightarrow> (LkUncached, r)
           | (Some a, r) \<Rightarrow> start_flight a r))"

text \<open>The checks before the lookup: a context that has ended, a missing loader.\<close>

definition resolveWithSettlement_begin ::
  "go_error option \<Rightarrow> bool \<Rightarrow> int \<Rightarrow> dnsCacheKey \<Rightarrow> uint64 \<Rightarrow> dnsResolver \<Rightarrow> lookup_result \<times> dnsResolver" where
  "resolveWithSettlement_begin ctxErr hasLoader now key knownGeneration r =
     (case ctxErr of
        Some e \<Rightarrow> (LkAnswer (Inl (dnsStageError ''request canceled before DNS lookup'' 0 (Some e))), r)
      | None \<Rightarrow>
          if \<not> hasLoader then (LkAnswer (Inl (dnsStageError ''DNS resolver has no loader'' 0 None)), r)
          else resolve_lookup now key knownGeneration r)"

definition close_flight :: "nat \<Rightarrow> dnsResolution option \<Rightarrow> go_error option \<Rightarrow> dnsResolver \<Rightarrow> dnsResolver" where
  "close_flight f res err r = r\<lparr>rv_flights := (rv_flights r)[f := \<lparr>fl_done = True, fl_resolution = res, fl_err = err\<rparr>]\<rparr>"

text \<open>\<open>runLoad\<close> from the return of the loader on; the loader's error carries the transient flag.\<close>

type_synonym load_result = "(go_error \<times> bool) + loginEndpoints"

definition runLoad_end ::
  "int \<Rightarrow> dnsCacheKey \<Rightarrow> nat \<Rightarrow> nat \<Rightarrow> load_result \<Rightarrow> dnsResolver \<Rightarrow> dnsResolver" where
  "runLoad_end now key a f res r =
     (if map_of (rv_entries r) key \<noteq> Some a \<or> ce_flight (cobj r a) \<noteq> Some f
      then close_flight f None (Some (dnsStageError ''DNS resolver flight was superseded'' 0 None)) r
      else
        (case res of
           Inr endpoints \<Rightarrow>
             let r1 = r\<lparr>rv_generation := rv_generation r + 1\<rparr>;
                 r2 = upd_entry a (\<lambda>e. e\<lparr>ce_flight := None, ce_endpoints := endpoints, ce_hasValue := True,
                        ce_fetchedAt := now, ce_generation := rv_generation r1, ce_failures := 0,
                        ce_refreshNotBefore := None, ce_lastErr := None, ce_lastTransient := False\<rparr>) r1
             in close_flight f (Some (resolutionFromEntry (cobj r2 a) False)) None r2
         | Inl (err, transient) \<Rightarrow>
             let r1 = upd_entry a (\<lambda>e. e\<lparr>ce_flight := None, ce_failures := ce_failures e + 1, ce_lastErr := Some err,
                        ce_lastTransient := transient,
                        ce_refreshNotBefore := Some (now + dnsRefreshCooldown (ce_failures e + 1))\<rparr>) r;
                 e = cobj r1 a
             in if transient \<and> ce_hasValue e \<and> now - ce_fetchedAt e \<le> rv_staleTTL r1
                then close_flight f (Some (resolutionFromEntry e True)) None r1
                else close_flight f None (Some err) r1))"

text \<open>
  \<open>resolveUncached\<close>: taking a token of the semaphore, which succeeds only while fewer than eight are
  taken, the end of the load, and the return of the token.
\<close>

definition uncached_begin :: "dnsResolver \<Rightarrow> (nat \<times> dnsResolver) option" where
  "uncached_begin r =
     (if rv_overflow r < dnsResolverOverflow
      then Some (length (rv_flights r), r\<lparr>rv_overflow := rv_overflow r + 1, rv_flights := rv_flights r @ [newFlight]\<rparr>)
      else None)"

definition uncached_end :: "nat \<Rightarrow> load_result \<Rightarrow> dnsResolver \<Rightarrow> dnsResolver" where
  "uncached_end f res r =
     (case res of
        Inr endpoints \<Rightarrow>
          let g = rv_generation r + 1
          in close_flight f (Some \<lparr>dr_Endpoints = endpoints, dr_Generation = g, dr_Stale = False\<rparr>) None
               (r\<lparr>rv_generation := g\<rparr>)
      | Inl (err, transient) \<Rightarrow> close_flight f None (Some err) r)"

definition uncached_release :: "dnsResolver \<Rightarrow> dnsResolver" where
  "uncached_release r = r\<lparr>rv_overflow := rv_overflow r - 1\<rparr>"

text \<open>
  \<open>waitDNSFlight\<close>: \<open>None\<close> is still waiting; when the flight and the context have both ended, either
  branch of the select may run, which \<open>ctxFirst\<close> chooses.
\<close>

definition waitDNSFlight ::
  "go_error option \<Rightarrow> bool \<Rightarrow> dnsFlight \<Rightarrow> (dnsResolution option \<times> go_error option) option" where
  "waitDNSFlight ctxErr ctxFirst flight =
     (if fl_done flight \<and> (ctxErr = None \<or> \<not> ctxFirst) then Some (fl_resolution flight, fl_err flight)
      else (case ctxErr of None \<Rightarrow> None
            | Some e \<Rightarrow> Some (None, Some (dnsStageError ''request canceled while waiting for shared DNS lookup'' 0 (Some e)))))"

section \<open>Concurrent callers\<close>

text \<open>
  The resolver with the goroutines that run loads: those of the cache, those of \<open>resolveUncached\<close>, and
  the number of the latter that have closed their flight and not yet returned their token.
\<close>

record dns_system =
  ds_r :: dnsResolver
  ds_loads :: "(dnsCacheKey \<times> nat \<times> nat) list"
  ds_uncached :: "nat list"
  ds_releasing :: nat

fun started :: "dnsCacheKey \<Rightarrow> lookup_result \<Rightarrow> (dnsCacheKey \<times> nat \<times> nat) list" where
  "started key (LkStart a f) = [(key, a, f)]"
| "started key _ = []"

inductive dns_step :: "dns_system \<Rightarrow> dns_system \<Rightarrow> bool" where
  dns_lookup: "resolve_lookup now key known (ds_r s) = (res, r) \<Longrightarrow>
     dns_step s (s\<lparr>ds_r := r, ds_loads := started key res @ ds_loads s\<rparr>)"
| dns_load_end: "(key, a, f) \<in> set (ds_loads s) \<Longrightarrow>
     dns_step s (s\<lparr>ds_r := runLoad_end now key a f res (ds_r s), ds_loads := remove1 (key, a, f) (ds_loads s)\<rparr>)"
| dns_uncached_begin: "uncached_begin (ds_r s) = Some (f, r) \<Longrightarrow>
     dns_step s (s\<lparr>ds_r := r, ds_uncached := f # ds_uncached s\<rparr>)"
| dns_uncached_end: "f \<in> set (ds_uncached s) \<Longrightarrow>
     dns_step s (s\<lparr>ds_r := uncached_end f res (ds_r s), ds_uncached := remove1 f (ds_uncached s),
                  ds_releasing := Suc (ds_releasing s)\<rparr>)"
| dns_release: "ds_releasing s > 0 \<Longrightarrow>
     dns_step s (s\<lparr>ds_r := uncached_release (ds_r s), ds_releasing := ds_releasing s - 1\<rparr>)"

definition dns_start :: "dns_system \<Rightarrow> bool" where
  "dns_start s \<longleftrightarrow> (\<exists>capacity fresh stale. ds_r s = newDNSResolver capacity fresh stale)
     \<and> ds_loads s = [] \<and> ds_uncached s = [] \<and> ds_releasing s = 0"

section \<open>The invariant\<close>

definition entry_ok :: "dnsResolver \<Rightarrow> dnsCacheKey \<times> nat \<Rightarrow> bool" where
  "entry_ok r ka \<longleftrightarrow> snd ka < length (rv_objs r) \<and> ce_key (cobj r (snd ka)) = fst ka \<and> ce_element (cobj r (snd ka))"

definition cache_ok :: "dnsResolver \<Rightarrow> bool" where
  "cache_ok r \<longleftrightarrow> distinct (map fst (rv_entries r)) \<and> distinct (rv_lru r) \<and> set (rv_lru r) = snd ` set (rv_entries r)
     \<and> list_all (entry_ok r) (rv_entries r) \<and> length (rv_entries r) \<le> rv_capacity r \<and> 0 < rv_capacity r"

text \<open>A load runs for an entry exactly when the entry says so, and its flight is open.\<close>

definition open_flight :: "dnsResolver \<Rightarrow> nat \<Rightarrow> bool" where
  "open_flight r f \<longleftrightarrow> f < length (rv_flights r) \<and> \<not> fl_done (rv_flights r ! f)"

definition load_ok :: "dnsResolver \<Rightarrow> dnsCacheKey \<times> nat \<times> nat \<Rightarrow> bool" where
  "load_ok r l \<longleftrightarrow> (fst l, fst (snd l)) \<in> set (rv_entries r) \<and> ce_flight (cobj r (fst (snd l))) = Some (snd (snd l))"

definition flights_ok :: "dnsResolver \<Rightarrow> (dnsCacheKey \<times> nat \<times> nat) list \<Rightarrow> nat list \<Rightarrow> bool" where
  "flights_ok r loads unc \<longleftrightarrow> list_all (load_ok r) loads
     \<and> (\<forall>k a f. (k, a) \<in> set (rv_entries r) \<longrightarrow> ce_flight (cobj r a) = Some f \<longrightarrow> (k, a, f) \<in> set loads)
     \<and> distinct (map (snd \<circ> snd) loads @ unc) \<and> list_all (open_flight r) (map (snd \<circ> snd) loads @ unc)"

definition dns_inv :: "dns_system \<Rightarrow> bool" where
  "dns_inv s \<longleftrightarrow> cache_ok (ds_r s) \<and> flights_ok (ds_r s) (ds_loads s) (ds_uncached s)
     \<and> rv_overflow (ds_r s) = length (ds_uncached s) + ds_releasing s \<and> rv_overflow (ds_r s) \<le> dnsResolverOverflow"

lemma flights_load:
  "flights_ok r loads unc \<Longrightarrow> (k, a) \<in> set (rv_entries r) \<Longrightarrow> ce_flight (cobj r a) = Some f \<Longrightarrow> (k, a, f) \<in> set loads"
  unfolding flights_ok_def by blast

lemma map_of_entries: "cache_ok r \<Longrightarrow> map_of (rv_entries r) k = Some a \<longleftrightarrow> (k, a) \<in> set (rv_entries r)"
  by (simp add: cache_ok_def)

lemma entry_facts:
  assumes "cache_ok r" and "(k, a) \<in> set (rv_entries r)"
  shows "a < length (rv_objs r)" and "ce_key (cobj r a) = k" and "ce_element (cobj r a)" and "a \<in> set (rv_lru r)"
  using assms by (force simp: cache_ok_def list_all_iff entry_ok_def image_iff)+

lemma lru_entry:
  assumes "cache_ok r" and "a \<in> set (rv_lru r)"
  shows "(ce_key (cobj r a), a) \<in> set (rv_entries r)"
  using assms by (auto simp: cache_ok_def list_all_iff entry_ok_def)

subsection \<open>Updates of one entry\<close>

lemma upd_entry_sel [simp]:
  "rv_entries (upd_entry a g r) = rv_entries r" "rv_lru (upd_entry a g r) = rv_lru r"
  "rv_capacity (upd_entry a g r) = rv_capacity r" "rv_freshTTL (upd_entry a g r) = rv_freshTTL r"
  "rv_staleTTL (upd_entry a g r) = rv_staleTTL r" "rv_generation (upd_entry a g r) = rv_generation r"
  "rv_overflow (upd_entry a g r) = rv_overflow r" "rv_flights (upd_entry a g r) = rv_flights r"
  "length (rv_objs (upd_entry a g r)) = length (rv_objs r)"
  by (simp_all add: upd_entry_def)

lemma cobj_upd_entry:
  "a < length (rv_objs r) \<Longrightarrow> cobj (upd_entry a g r) b = (if b = a then g (cobj r a) else cobj r b)"
  by (simp add: upd_entry_def nth_list_update)

lemma cache_ok_upd_entry:
  assumes "cache_ok r" and "a < length (rv_objs r)"
    and "ce_key (g (cobj r a)) = ce_key (cobj r a)" and "ce_element (g (cobj r a)) = ce_element (cobj r a)"
  shows "cache_ok (upd_entry a g r)"
  using assms by (auto simp: cache_ok_def list_all_iff entry_ok_def cobj_upd_entry)

lemma close_flight_sel [simp]:
  "rv_entries (close_flight f x y r) = rv_entries r" "rv_lru (close_flight f x y r) = rv_lru r"
  "rv_capacity (close_flight f x y r) = rv_capacity r" "rv_objs (close_flight f x y r) = rv_objs r"
  "rv_overflow (close_flight f x y r) = rv_overflow r"
  "length (rv_flights (close_flight f x y r)) = length (rv_flights r)"
  by (simp_all add: close_flight_def)

lemma open_close_flight: "g \<noteq> f \<Longrightarrow> open_flight (close_flight f x y r) g = open_flight r g"
  by (simp add: open_flight_def close_flight_def)

lemma cache_ok_cong:
  "rv_entries r' = rv_entries r \<Longrightarrow> rv_lru r' = rv_lru r \<Longrightarrow> rv_capacity r' = rv_capacity r \<Longrightarrow> rv_objs r' = rv_objs r
   \<Longrightarrow> cache_ok r' = cache_ok r"
  by (simp add: cache_ok_def entry_ok_def list_all_iff)

lemma flights_ok_cong:
  "rv_entries r' = rv_entries r \<Longrightarrow> rv_objs r' = rv_objs r \<Longrightarrow> rv_flights r' = rv_flights r
   \<Longrightarrow> flights_ok r' loads unc = flights_ok r loads unc"
  by (simp add: flights_ok_def load_ok_def open_flight_def list_all_iff)

lemma touchLocked_ok:
  assumes "cache_ok r" and "(k, a) \<in> set (rv_entries r)"
  shows "cache_ok (touchLocked a r)" and "flights_ok (touchLocked a r) loads unc = flights_ok r loads unc"
    and "rv_entries (touchLocked a r) = rv_entries r" and "rv_objs (touchLocked a r) = rv_objs r"
    and "rv_overflow (touchLocked a r) = rv_overflow r" and "rv_flights (touchLocked a r) = rv_flights r"
proof -
  have "a \<in> set (rv_lru r)" using entry_facts [OF assms] by simp
  then show "cache_ok (touchLocked a r)"
    using assms(1) by (auto simp: touchLocked_def cache_ok_def entry_ok_def list_all_iff)
  show "flights_ok (touchLocked a r) loads unc = flights_ok r loads unc"
    by (rule flights_ok_cong) (simp_all add: touchLocked_def)
qed (simp_all add: touchLocked_def)

subsection \<open>Eviction and insertion\<close>

lemma evict_ok:
  assumes ok: "cache_ok r" and fl: "flights_ok r loads unc" and v: "find_victim r = Some a"
  shows "cache_ok (evict a r)" and "flights_ok (evict a r) loads unc" and "length (rv_entries (evict a r)) < rv_capacity r"
    and "rv_capacity (evict a r) = rv_capacity r" and "rv_overflow (evict a r) = rv_overflow r"
    and "rv_flights (evict a r) = rv_flights r" and "length (rv_objs (evict a r)) = length (rv_objs r)"
    and "map_of (rv_entries r) k = None \<Longrightarrow> map_of (rv_entries (evict a r)) k = None"
proof -
  let ?k = "ce_key (cobj r a)"
  have a: "a \<in> set (rv_lru r)" "ce_flight (cobj r a) = None" using find_victim_Some [OF v] by auto
  have ka: "(?k, a) \<in> set (rv_entries r)" using lru_entry [OF ok a(1)] .
  have al: "a < length (rv_objs r)" using entry_facts [OF ok ka] by simp
  have d: "distinct (map fst (rv_entries r))" "distinct (rv_lru r)" "set (rv_lru r) = snd ` set (rv_entries r)"
    "list_all (entry_ok r) (rv_entries r)" "length (rv_entries r) \<le> rv_capacity r" "0 < rv_capacity r"
    using ok by (simp_all add: cache_ok_def)
  have es: "rv_entries (evict a r) = AList.delete ?k (rv_entries r)" "rv_lru (evict a r) = remove1 a (rv_lru r)"
    by (simp_all add: evict_def)
  have dels: "(k', b) \<in> set (AList.delete ?k (rv_entries r)) \<longleftrightarrow> (k', b) \<in> set (rv_entries r) \<and> b \<noteq> a" for k' b
    using d(1,4) ka by (auto simp: AList.delete_eq list_all_iff entry_ok_def eq_key_imp_eq_value)
  show len: "length (rv_entries (evict a r)) < rv_capacity r"
  proof -
    have "length (AList.delete ?k (rv_entries r)) < length (rv_entries r)"
      using ka by (auto simp: AList.delete_eq intro!: length_filter_less)
    then show ?thesis using d(5) es by simp
  qed
  have objs: "cobj (evict a r) b = cobj r b" if "b \<noteq> a" for b using that by (simp add: evict_def upd_entry_def)
  show "rv_capacity (evict a r) = rv_capacity r" "rv_overflow (evict a r) = rv_overflow r"
    "rv_flights (evict a r) = rv_flights r" "length (rv_objs (evict a r)) = length (rv_objs r)"
    by (simp_all add: evict_def)
  show "cache_ok (evict a r)"
    unfolding cache_ok_def
  proof (intro conjI)
    show "distinct (map fst (rv_entries (evict a r)))" using d(1) by (simp add: es distinct_delete)
    show "distinct (rv_lru (evict a r))" using d(2) by (simp add: es)
    show "set (rv_lru (evict a r)) = snd ` set (rv_entries (evict a r))"
      using d(2,3) dels by (force simp: es image_iff)
    show "list_all (entry_ok (evict a r)) (rv_entries (evict a r))"
    proof -
      have "length (rv_objs (evict a r)) = length (rv_objs r)" by (simp add: evict_def)
      then have "entry_ok (evict a r) (k', b) = entry_ok r (k', b)" if "b \<noteq> a" for k' b
        using objs [OF that] by (simp add: entry_ok_def)
      then show ?thesis using d(4) dels unfolding list_all_iff es by fastforce
    qed
  qed (use len d(6) in \<open>simp_all add: evict_def\<close>)
  show "flights_ok (evict a r) loads unc"
    using fl a(2) dels objs
    by (fastforce simp: flights_ok_def load_ok_def open_flight_def list_all_iff es evict_def)
  show "map_of (rv_entries (evict a r)) k = None" if "map_of (rv_entries r) k = None"
    using that by (simp add: es AList.delete_conv)
qed

lemma make_room_ok:
  assumes "cache_ok r" and "flights_ok r loads unc" and "make_room r = (ok, r')"
  shows "cache_ok r' \<and> flights_ok r' loads unc \<and> rv_overflow r' = rv_overflow r
    \<and> (ok \<longrightarrow> length (rv_entries r') < rv_capacity r') \<and> rv_flights r' = rv_flights r
    \<and> (map_of (rv_entries r) k = None \<longrightarrow> map_of (rv_entries r') k = None)"
  using assms
proof (induction r rule: make_room.induct)
  case (1 r)
  show ?case
  proof (cases "length (rv_entries r) \<ge> rv_capacity r")
    case True
    show ?thesis
    proof (cases "find_victim r")
      case None
      then show ?thesis using 1(2-4) True by (subst (asm) make_room.simps) auto
    next
      case (Some a)
      then have "make_room (evict a r) = (ok, r')" using 1(4) True by (subst (asm) make_room.simps) simp
      with 1(1) [OF True Some] evict_ok [OF 1(2,3) Some] show ?thesis by simp
    qed
  next
    case False
    then show ?thesis using 1(2-4) by (subst (asm) make_room.simps) auto
  qed
qed

lemma insertLocked_ok:
  assumes "cache_ok r" and "flights_ok r loads unc" and "insertLocked key r = (res, r')" and n: "map_of (rv_entries r) key = None"
  shows "cache_ok r' \<and> flights_ok r' loads unc \<and> rv_overflow r' = rv_overflow r
    \<and> (\<forall>a. res = Some a \<longrightarrow> (key, a) \<in> set (rv_entries r') \<and> ce_flight (cobj r' a) = None)"
proof -
  obtain ok r1 where m: "make_room r = (ok, r1)" by (cases "make_room r")
  note mr = make_room_ok [OF assms(1,2) m, of key]
  show ?thesis
  proof (cases ok)
    case False
    then show ?thesis using assms(3) m mr by (simp add: insertLocked_def)
  next
    case True
    let ?a = "length (rv_objs r1)"
    have k: "map_of (rv_entries r1) key = None" using mr n by simp
    then have u: "AList.update key ?a (rv_entries r1) = rv_entries r1 @ [(key, ?a)]"
      by (rule alist_update_absent)
    have r': "res = Some ?a" "r' = r1\<lparr>rv_objs := rv_objs r1 @ [newEntry key], rv_lru := ?a # rv_lru r1,
        rv_entries := rv_entries r1 @ [(key, ?a)]\<rparr>"
      using assms(3) m True u by (auto simp: insertLocked_def Let_def)
    have ok1: "cache_ok r1" and fl1: "flights_ok r1 loads unc" using mr by simp_all
    have bnd: "b < ?a" if "(k', b) \<in> set (rv_entries r1)" for k' b using entry_facts [OF ok1 that] by simp
    have "list_all (entry_ok r') (rv_entries r')"
      using ok1 by (auto simp: cache_ok_def list_all_iff entry_ok_def r' nth_append newEntry_def)
    moreover have "?a \<notin> set (rv_lru r1)" using ok1 bnd by (force simp: cache_ok_def)
    ultimately have "cache_ok r'"
      using ok1 mr True k by (auto simp: cache_ok_def r' map_of_eq_None_iff)
    moreover have "flights_ok r' loads unc"
    proof -
      have "load_ok r' l" if "load_ok r1 l" for l
        using that bnd [of "fst l" "fst (snd l)"] by (simp add: load_ok_def r' nth_append)
      moreover have "(k', b, f) \<in> set loads" if "(k', b) \<in> set (rv_entries r')" "ce_flight (cobj r' b) = Some f" for k' b f
      proof (cases "b = ?a")
        case True
        then show ?thesis using that(2) by (simp add: r' newEntry_def)
      next
        case False
        then have "(k', b) \<in> set (rv_entries r1)" using that(1) by (simp add: r')
        with that(2) bnd [OF this] show ?thesis by (intro flights_load [OF fl1]) (simp_all add: r' nth_append)
      qed
      ultimately show ?thesis
        using fl1 by (auto simp: flights_ok_def list_all_iff open_flight_def r')
    qed
    ultimately show ?thesis using mr by (simp add: r' newEntry_def)
  qed
qed

subsection \<open>Flights\<close>

lemma address_key:
  assumes "cache_ok r" and "(k, a) \<in> set (rv_entries r)" and "(k', a) \<in> set (rv_entries r)"
  shows "k' = k"
  using entry_facts(2) [OF assms(1,2)] entry_facts(2) [OF assms(1,3)] by simp

lemma start_flight_ok:
  assumes ok: "cache_ok r" and fl: "flights_ok r loads unc" and ka: "(k, a) \<in> set (rv_entries r)"
    and n: "ce_flight (cobj r a) = None"
  shows "\<exists>f r'. start_flight a r = (LkStart a f, r') \<and> cache_ok r' \<and> flights_ok r' ((k, a, f) # loads) unc
    \<and> rv_overflow r' = rv_overflow r"
proof -
  let ?f = "length (rv_flights r)"
  let ?r1 = "r\<lparr>rv_flights := rv_flights r @ [newFlight]\<rparr>"
  let ?r = "upd_entry a (\<lambda>e. e\<lparr>ce_flight := Some ?f\<rparr>) ?r1"
  have al: "a < length (rv_objs r)" using entry_facts [OF ok ka] by simp
  then have al1: "a < length (rv_objs ?r1)" by simp
  have "cache_ok ?r1" using ok by (subst cache_ok_cong [of _ r]) simp_all
  then have c: "cache_ok ?r" using al1 by (rule cache_ok_upd_entry) simp_all
  have others: "cobj ?r b = cobj r b" if "b \<noteq> a" for b using that cobj_upd_entry [OF al1] by simp
  have self: "ce_flight (cobj ?r a) = Some ?f" using cobj_upd_entry [OF al1] by simp
  have nl: "fst (snd l) \<noteq> a" if "l \<in> set loads" for l
    using that fl n by (auto simp: flights_ok_def list_all_iff load_ok_def)
  have o: "open_flight ?r g" if "open_flight r g" for g
    using that by (simp add: open_flight_def nth_append)
  have nf: "\<not> open_flight r ?f" by (simp add: open_flight_def)
  have "flights_ok ?r ((k, a, ?f) # loads) unc"
    unfolding flights_ok_def
  proof (intro conjI allI impI)
    show "list_all (load_ok ?r) ((k, a, ?f) # loads)"
      using fl nl others self ka by (auto simp: flights_ok_def list_all_iff load_ok_def)
    show "(k', b, g) \<in> set ((k, a, ?f) # loads)"
      if "(k', b) \<in> set (rv_entries ?r)" "ce_flight (cobj ?r b) = Some g" for k' b g
    proof (cases "b = a")
      case True
      then show ?thesis using that self address_key [OF ok ka] by simp
    next
      case False
      then have "(k', b, g) \<in> set loads" using that others by (intro flights_load [OF fl]) simp_all
      then show ?thesis by simp
    qed
    show "distinct (map (snd \<circ> snd) ((k, a, ?f) # loads) @ unc)"
      using fl nf by (auto simp: flights_ok_def list_all_iff)
    show "list_all (open_flight ?r) (map (snd \<circ> snd) ((k, a, ?f) # loads) @ unc)"
    proof -
      have "list_all (open_flight r) (map (snd \<circ> snd) loads @ unc)" using fl by (simp add: flights_ok_def)
      then have "list_all (open_flight ?r) (map (snd \<circ> snd) loads @ unc)" by (rule list.pred_mono_strong) (rule o)
      moreover have "open_flight ?r ?f" by (simp add: open_flight_def newFlight_def)
      ultimately show ?thesis by simp
    qed
  qed
  then show ?thesis using c by (simp add: start_flight_def Let_def)
qed

lemma resolve_lookup_ok:
  assumes ok: "cache_ok r" and fl: "flights_ok r loads unc" and e: "resolve_lookup now key known r = (res, r')"
  shows "cache_ok r' \<and> flights_ok r' (started key res @ loads) unc \<and> rv_overflow r' = rv_overflow r"
proof (cases "map_of (rv_entries r) key")
  case None
  obtain ao r1 where i: "insertLocked key r = (ao, r1)" by (cases "insertLocked key r")
  note ins = insertLocked_ok [OF ok fl i None]
  show ?thesis
  proof (cases ao)
    case None
    then show ?thesis using e i ins \<open>map_of (rv_entries r) key = None\<close> by (auto simp: resolve_lookup_def)
  next
    case (Some a)
    then have "start_flight a r1 = (res, r')" using e i \<open>map_of (rv_entries r) key = None\<close> by (simp add: resolve_lookup_def)
    with start_flight_ok [of r1 loads unc key a] ins Some show ?thesis by auto
  qed
next
  case (Some a)
  have ka: "(key, a) \<in> set (rv_entries r)" using Some map_of_entries [OF ok] by simp
  note t = touchLocked_ok [OF ok ka]
  have keep: "cache_ok (touchLocked a r) \<and> flights_ok (touchLocked a r) loads unc
      \<and> rv_overflow (touchLocked a r) = rv_overflow r" using t fl by simp
  consider (same) "r' = touchLocked a r" "started key res = []"
    | (start) "ce_flight (cobj (touchLocked a r) a) = None" "start_flight a (touchLocked a r) = (res, r')"
    using e Some by (auto simp: resolve_lookup_def Let_def split: if_splits option.splits)
  then show ?thesis
  proof cases
    case same
    then show ?thesis using keep by simp
  next
    case start
    have "(key, a) \<in> set (rv_entries (touchLocked a r))" using ka t by simp
    with start_flight_ok [of "touchLocked a r" loads unc key a] keep start show ?thesis by auto
  qed
qed

lemma flights_ok_end:
  assumes ok: "cache_ok r" and fl: "flights_ok r loads unc" and l: "(k, a, f) \<in> set loads"
    and r': "rv_entries r' = rv_entries r" "\<And>b. b \<noteq> a \<Longrightarrow> cobj r' b = cobj r b" "ce_flight (cobj r' a) = None"
      "\<And>g. g \<noteq> f \<Longrightarrow> open_flight r' g = open_flight r g"
  shows "flights_ok r' (remove1 (k, a, f) loads) unc"
proof -
  have ka: "(k, a) \<in> set (rv_entries r)" "ce_flight (cobj r a) = Some f"
    using fl l by (auto simp: flights_ok_def list_all_iff load_ok_def)
  have d: "distinct (map (snd \<circ> snd) loads)" "distinct unc" "f \<notin> set unc" "set (map (snd \<circ> snd) loads) \<inter> set unc = {}"
    using fl l by (auto simp: flights_ok_def)
  have dl: "distinct loads" using d(1) by (simp add: distinct_map)
  have sub: "set (map (snd \<circ> snd) (remove1 (k, a, f) loads)) \<subseteq> set (map (snd \<circ> snd) loads)"
    unfolding set_map by (rule image_mono [OF set_remove1_subset])
  have only: "fst (snd m) \<noteq> a \<and> snd (snd m) \<noteq> f" if m: "m \<in> set (remove1 (k, a, f) loads)" for m
  proof -
    have mm: "m \<in> set loads" "m \<noteq> (k, a, f)" using m dl by auto
    then have "snd (snd m) \<noteq> f" using l d(1) by (auto simp: distinct_map inj_on_def)
    moreover have "fst (snd m) \<noteq> a"
    proof
      assume "fst (snd m) = a"
      moreover have "load_ok r m" using fl mm(1) by (simp add: flights_ok_def list_all_iff)
      ultimately have "snd (snd m) = f" using ka(2) by (simp add: load_ok_def)
      with \<open>snd (snd m) \<noteq> f\<close> show False by simp
    qed
    ultimately show ?thesis by simp
  qed
  show ?thesis
    unfolding flights_ok_def
  proof (intro conjI allI impI)
    show "list_all (load_ok r') (remove1 (k, a, f) loads)"
      unfolding list_all_iff
    proof
      fix m assume m: "m \<in> set (remove1 (k, a, f) loads)"
      then have "load_ok r m" using fl by (auto simp: flights_ok_def list_all_iff dest: notin_set_remove1)
      then show "load_ok r' m" using only [OF m] r'(1,2) by (simp add: load_ok_def)
    qed
    show "(k', b, g) \<in> set (remove1 (k, a, f) loads)"
      if "(k', b) \<in> set (rv_entries r')" "ce_flight (cobj r' b) = Some g" for k' b g
    proof -
      have "b \<noteq> a" using that(2) r'(3) by auto
      then have "(k', b, g) \<in> set loads" using that r'(1,2) by (intro flights_load [OF fl]) simp_all
      with \<open>b \<noteq> a\<close> show ?thesis by simp
    qed
    show "distinct (map (snd \<circ> snd) (remove1 (k, a, f) loads) @ unc)"
    proof -
      have "distinct (map (snd \<circ> snd) (remove1 (k, a, f) loads))"
        using d(1) dl by (simp add: distinct_map inj_on_diff)
      moreover have "set (map (snd \<circ> snd) (remove1 (k, a, f) loads)) \<inter> set unc = {}"
        using sub d(4) by blast
      ultimately show ?thesis using d(2) by simp
    qed
    show "list_all (open_flight r') (map (snd \<circ> snd) (remove1 (k, a, f) loads) @ unc)"
      unfolding list_all_iff
    proof
      fix g assume g: "g \<in> set (map (snd \<circ> snd) (remove1 (k, a, f) loads) @ unc)"
      then have "g \<noteq> f" using only d(3) by auto
      moreover have "g \<in> set (map (snd \<circ> snd) loads @ unc)" using g sub unfolding set_append by blast
      then have "open_flight r g" using fl unfolding flights_ok_def list_all_iff by blast
      ultimately show "open_flight r' g" using r'(4) by simp
    qed
  qed
qed

text \<open>A load that ends is never superseded: its entry is still in the map and still names its flight.\<close>

lemma load_current:
  assumes "cache_ok r" and "flights_ok r loads unc" and "(k, a, f) \<in> set loads"
  shows "map_of (rv_entries r) k = Some a" and "ce_flight (cobj r a) = Some f"
proof -
  have "load_ok r (k, a, f)" using assms by (auto simp: flights_ok_def list_all_iff)
  then show "map_of (rv_entries r) k = Some a" "ce_flight (cobj r a) = Some f"
    using map_of_entries [OF assms(1)] by (simp_all add: load_ok_def)
qed

lemma runLoad_end_forms:
  assumes c: "map_of (rv_entries r) k = Some a" "ce_flight (cobj r a) = Some f"
  obtains g r1 x y where "runLoad_end now k a f res r = close_flight f x y (upd_entry a g r1)"
    and "ce_key (g (cobj r a)) = ce_key (cobj r a)" and "ce_element (g (cobj r a)) = ce_element (cobj r a)"
    and "ce_flight (g (cobj r a)) = None" and "r1 = r \<or> r1 = r\<lparr>rv_generation := rv_generation r + 1\<rparr>"
proof (cases res)
  case (Inr e)
  let ?g = "\<lambda>x. x\<lparr>ce_flight := None, ce_endpoints := e, ce_hasValue := True, ce_fetchedAt := now,
     ce_generation := rv_generation r + 1, ce_failures := 0, ce_refreshNotBefore := None, ce_lastErr := None,
     ce_lastTransient := False\<rparr>"
  let ?r = "r\<lparr>rv_generation := rv_generation r + 1\<rparr>"
  show thesis using c
    by (intro that [of "Some (resolutionFromEntry (cobj (upd_entry a ?g ?r) a) False)" None ?g ?r])
       (simp_all add: runLoad_end_def Inr Let_def)
next
  case (Inl et)
  obtain err tr where et: "et = (err, tr)" by (cases et)
  define g where "g = (\<lambda>e :: dnsCacheEntry. e\<lparr>ce_flight := None, ce_failures := ce_failures e + 1, ce_lastErr := Some err,
     ce_lastTransient := tr, ce_refreshNotBefore := Some (now + dnsRefreshCooldown (ce_failures e + 1))\<rparr>)"
  define r2 where "r2 = upd_entry a g r"
  have e: "runLoad_end now k a f res r =
     (if tr \<and> ce_hasValue (cobj r2 a) \<and> now - ce_fetchedAt (cobj r2 a) \<le> rv_staleTTL r2
      then close_flight f (Some (resolutionFromEntry (cobj r2 a) True)) None r2 else close_flight f None (Some err) r2)"
    using c unfolding runLoad_end_def Inl et sum.case prod.case g_def [symmetric] r2_def [symmetric] Let_def by simp
  show thesis
  proof (rule that)
    show "runLoad_end now k a f res r =
      close_flight f (if tr \<and> ce_hasValue (cobj r2 a) \<and> now - ce_fetchedAt (cobj r2 a) \<le> rv_staleTTL r2
          then Some (resolutionFromEntry (cobj r2 a) True) else None)
        (if tr \<and> ce_hasValue (cobj r2 a) \<and> now - ce_fetchedAt (cobj r2 a) \<le> rv_staleTTL r2 then None else Some err)
        (upd_entry a g r)"
      unfolding e r2_def [symmetric] by simp
  qed (simp_all add: g_def)
qed

lemma runLoad_end_ok:
  assumes ok: "cache_ok r" and fl: "flights_ok r loads unc" and l: "(k, a, f) \<in> set loads"
  shows "cache_ok (runLoad_end now k a f res r) \<and> flights_ok (runLoad_end now k a f res r) (remove1 (k, a, f) loads) unc
    \<and> rv_overflow (runLoad_end now k a f res r) = rv_overflow r"
proof -
  note c = load_current [OF assms]
  have al: "a < length (rv_objs r)" using c(1) map_of_entries [OF ok] entry_facts [OF ok] by blast
  show ?thesis
  proof (rule runLoad_end_forms [OF c, of now res])
  fix x y g r1
  assume e: "runLoad_end now k a f res r = close_flight f x y (upd_entry a g r1)"
    and g: "ce_key (g (cobj r a)) = ce_key (cobj r a)" "ce_element (g (cobj r a)) = ce_element (cobj r a)"
      "ce_flight (g (cobj r a)) = None" and "r1 = r \<or> r1 = r\<lparr>rv_generation := rv_generation r + 1\<rparr>"
  then have r1: "rv_entries r1 = rv_entries r" "rv_lru r1 = rv_lru r" "rv_capacity r1 = rv_capacity r" "rv_objs r1 = rv_objs r"
    "rv_overflow r1 = rv_overflow r" "rv_flights r1 = rv_flights r"
    by auto
  have "cache_ok r1" using ok r1 cache_ok_cong by blast
  then have "cache_ok (upd_entry a g r1)" using al g r1 by (intro cache_ok_upd_entry) simp_all
  then have "cache_ok (close_flight f x y (upd_entry a g r1))" by (subst cache_ok_cong [of _ "upd_entry a g r1"]) simp_all
  moreover have "flights_ok (close_flight f x y (upd_entry a g r1)) (remove1 (k, a, f) loads) unc"
  proof (rule flights_ok_end [OF ok fl l])
    have al1: "a < length (rv_objs r1)" using al r1 by simp
    show "rv_entries (close_flight f x y (upd_entry a g r1)) = rv_entries r" using r1 by simp
    show "cobj (close_flight f x y (upd_entry a g r1)) b = cobj r b" if "b \<noteq> a" for b
      using that r1 cobj_upd_entry [OF al1] by simp
    show "ce_flight (cobj (close_flight f x y (upd_entry a g r1)) a) = None"
      using g(3) r1 cobj_upd_entry [OF al1] by simp
    show "open_flight (close_flight f x y (upd_entry a g r1)) h = open_flight r h" if "h \<noteq> f" for h
      unfolding open_close_flight [OF that] using r1(6) by (simp add: open_flight_def)
  qed
  ultimately show ?thesis by (simp add: e r1)
  qed
qed

lemma uncached_end_forms:
  obtains x y r1 where "uncached_end f res r = close_flight f x y r1" and "r1 = r \<or> r1 = r\<lparr>rv_generation := rv_generation r + 1\<rparr>"
  by (cases res) (auto simp: uncached_end_def Let_def split: prod.splits)

lemma flights_ok_uncached_end:
  assumes fl: "flights_ok r loads unc" and f: "f \<in> set unc"
    and r': "rv_entries r' = rv_entries r" "rv_objs r' = rv_objs r" "\<And>g. g \<noteq> f \<Longrightarrow> open_flight r' g = open_flight r g"
  shows "flights_ok r' loads (remove1 f unc)"
proof -
  have d: "distinct unc" "f \<notin> set (map (snd \<circ> snd) loads)" using fl f by (auto simp: flights_ok_def)
  have "open_flight r' g" if "g \<in> set (map (snd \<circ> snd) loads @ remove1 f unc)" for g
  proof -
    have "g \<noteq> f" "g \<in> set (map (snd \<circ> snd) loads @ unc)" using that d by auto
    then show ?thesis using fl r'(3) unfolding flights_ok_def list_all_iff by blast
  qed
  moreover have "distinct (map (snd \<circ> snd) loads @ remove1 f unc)"
    using fl by (auto simp: flights_ok_def dest: notin_set_remove1)
  moreover have "list_all (load_ok r') loads" using fl r'(1,2) by (simp add: flights_ok_def list_all_iff load_ok_def)
  ultimately show ?thesis
    using r'(1,2) flights_load [OF fl] unfolding flights_ok_def by (auto simp: list_all_iff)
qed

interpretation dns_system: inductive_invariant dns_start dns_step dns_inv
proof
  show "dns_inv s" if "dns_start s" for s
    using that by (auto simp: dns_start_def dns_inv_def cache_ok_def flights_ok_def newDNSResolver_def)
next
  fix s t
  assume i: "dns_inv s" and "dns_step s t"
  from this(2) show "dns_inv t"
  proof cases
    case (dns_lookup now key known res r)
    then show ?thesis using i resolve_lookup_ok [of "ds_r s" "ds_loads s" "ds_uncached s" now key known res r]
      by (simp add: dns_inv_def)
  next
    case (dns_load_end key a f now res)
    then show ?thesis using i runLoad_end_ok [of "ds_r s" "ds_loads s" "ds_uncached s" key a f now res]
      by (simp add: dns_inv_def)
  next
    case (dns_uncached_begin f r)
    then have r: "r = (ds_r s)\<lparr>rv_overflow := rv_overflow (ds_r s) + 1, rv_flights := rv_flights (ds_r s) @ [newFlight]\<rparr>"
      "f = length (rv_flights (ds_r s))" "rv_overflow (ds_r s) < dnsResolverOverflow"
      by (auto simp: uncached_begin_def split: if_splits)
    have "cache_ok r" using i r(1) cache_ok_cong [of r "ds_r s"] by (simp add: dns_inv_def)
    moreover have "flights_ok r (ds_loads s) (f # ds_uncached s)"
    proof -
      have old: "open_flight r g" if "open_flight (ds_r s) g" for g
        using that r(1) by (simp add: open_flight_def nth_append)
      have fl: "flights_ok (ds_r s) (ds_loads s) (ds_uncached s)" using i by (simp add: dns_inv_def)
      then have a: "list_all (open_flight (ds_r s)) (map (snd \<circ> snd) (ds_loads s) @ ds_uncached s)" by (simp add: flights_ok_def)
      then have "list_all (open_flight r) (map (snd \<circ> snd) (ds_loads s) @ ds_uncached s)"
        by (rule list.pred_mono_strong) (rule old)
      moreover have "open_flight r f" using r(1,2) by (simp add: open_flight_def newFlight_def)
      moreover have "\<not> open_flight (ds_r s) f" using r(2) by (simp add: open_flight_def)
      then have "f \<notin> set (map (snd \<circ> snd) (ds_loads s) @ ds_uncached s)" using a by (auto simp: list_all_iff)
      moreover have "rv_entries r = rv_entries (ds_r s)" "rv_objs r = rv_objs (ds_r s)" using r(1) by simp_all
      ultimately show ?thesis using fl by (simp add: flights_ok_def load_ok_def list_all_iff)
    qed
    ultimately show ?thesis using i dns_uncached_begin(1) r by (simp add: dns_inv_def)
  next
    case (dns_uncached_end f res)
    obtain x y r1 where e: "uncached_end f res (ds_r s) = close_flight f x y r1"
      and r1: "r1 = ds_r s \<or> r1 = (ds_r s)\<lparr>rv_generation := rv_generation (ds_r s) + 1\<rparr>"
      using uncached_end_forms by blast
    have "cache_ok (close_flight f x y r1)" using i r1 cache_ok_cong [of "close_flight f x y r1" "ds_r s"] by (auto simp: dns_inv_def)
    moreover have "flights_ok (close_flight f x y r1) (ds_loads s) (remove1 f (ds_uncached s))"
      using i dns_uncached_end(2) r1
      by (intro flights_ok_uncached_end [of "ds_r s"]) (auto simp: dns_inv_def open_close_flight, auto simp: open_flight_def)
    moreover have "0 < length (ds_uncached s)" using dns_uncached_end(2) by (rule length_pos_if_in_set)
    ultimately show ?thesis using i dns_uncached_end e r1 by (auto simp: dns_inv_def length_remove1)
  next
    case dns_release
    have "cache_ok (uncached_release (ds_r s))" using i cache_ok_cong [of "uncached_release (ds_r s)" "ds_r s"]
      by (simp add: dns_inv_def uncached_release_def)
    moreover have "flights_ok (uncached_release (ds_r s)) (ds_loads s) (ds_uncached s)"
      using i flights_ok_cong [of "uncached_release (ds_r s)" "ds_r s"] by (simp add: dns_inv_def uncached_release_def)
    ultimately show ?thesis using i dns_release by (auto simp: dns_inv_def uncached_release_def)
  qed
qed

section \<open>Properties\<close>

lemma loads_one_per_key:
  assumes "cache_ok r" and "flights_ok r loads unc"
  shows "distinct (map fst loads)"
proof -
  have d: "distinct (map (snd \<circ> snd) loads)" using assms(2) by (simp add: flights_ok_def)
  have "inj_on fst (set loads)"
  proof (rule inj_onI)
    fix l m assume lm: "l \<in> set loads" "m \<in> set loads" "fst l = fst m"
    obtain k a f b g where l: "l = (k, a, f)" and m: "m = (k, b, g)" using lm(3) by (cases l; cases m) auto
    from load_current [OF assms] lm l m have "map_of (rv_entries r) k = Some a" "map_of (rv_entries r) k = Some b"
      "ce_flight (cobj r a) = Some f" "ce_flight (cobj r b) = Some g" by blast+
    then show "l = m" using l m by simp
  qed
  then show ?thesis using d by (simp add: distinct_map)
qed

text \<open>
  C22.  Single flight in a bounded cache.  Whatever lookups and loads interleave: the cache never holds
  more than its capacity; at most one load per key runs; at most eight loads bypass the cache; every
  caller that joins a flight waits for a load that is running for its key; and that load, however it
  ends, closes the flight, never with the error that it was superseded.
\<close>

theorem dns_single_flight:
  assumes "reachable dns_start dns_step s"
  shows "length (rv_entries (ds_r s)) \<le> rv_capacity (ds_r s)
    \<and> distinct (map fst (ds_loads s)) \<and> length (ds_uncached s) \<le> dnsResolverOverflow
    \<and> (fst (resolve_lookup now key known (ds_r s)) = LkJoin f \<longrightarrow> (\<exists>a. (key, a, f) \<in> set (ds_loads s)))
    \<and> ((key, a, f) \<in> set (ds_loads s) \<longrightarrow>
         \<not> fl_done (rv_flights (ds_r s) ! f) \<and> fl_done (rv_flights (runLoad_end now key a f res (ds_r s)) ! f)
         \<and> fl_err (rv_flights (runLoad_end now key a f res (ds_r s)) ! f)
             \<in> {None, (case res of Inl e \<Rightarrow> Some (fst e) | Inr x \<Rightarrow> None)})"
proof -
  let ?r = "ds_r s"
  have ok: "cache_ok ?r" and fl: "flights_ok ?r (ds_loads s) (ds_uncached s)"
    and ov: "length (ds_uncached s) \<le> dnsResolverOverflow"
    using dns_system.inv_reachable [OF assms] by (simp_all add: dns_inv_def)
  have join: "\<exists>a. (key, a, f) \<in> set (ds_loads s)" if j: "fst (resolve_lookup now key known ?r) = LkJoin f"
  proof (cases "map_of (rv_entries ?r) key")
    case None
    then show ?thesis using j by (auto simp: resolve_lookup_def start_flight_def Let_def split: option.splits prod.splits)
  next
    case (Some a)
    then have ka: "(key, a) \<in> set (rv_entries ?r)" using map_of_entries [OF ok] by simp
    have "ce_flight (cobj ?r a) = Some f"
      using j Some touchLocked_ok(4) [OF ok ka]
      by (auto simp: resolve_lookup_def start_flight_def Let_def split: if_splits option.splits)
    then show ?thesis using flights_load [OF fl ka] by blast
  qed
  have close: "\<not> fl_done (rv_flights ?r ! f) \<and> fl_done (rv_flights (runLoad_end now key a f res ?r) ! f)
      \<and> fl_err (rv_flights (runLoad_end now key a f res ?r) ! f) \<in> {None, (case res of Inl e \<Rightarrow> Some (fst e) | Inr x \<Rightarrow> None)}"
    if l: "(key, a, f) \<in> set (ds_loads s)"
  proof -
    note c = load_current [OF ok fl l]
    have "open_flight ?r f" using fl l unfolding flights_ok_def list_all_iff by force
    then have o: "f < length (rv_flights ?r)" "\<not> fl_done (rv_flights ?r ! f)" by (simp_all add: open_flight_def)
    then show ?thesis
      using c by (cases res) (auto simp: runLoad_end_def close_flight_def Let_def split: prod.splits)
  qed
  show ?thesis using ok ov loads_one_per_key [OF ok fl] join close by (auto simp: cache_ok_def)
qed

text \<open>A resolver that has one lookup in flight.\<close>

definition exampleKey :: dnsCacheKey where "exampleKey = (''org#app'', 0)"

definition exampleResolver :: dnsResolver where
  "exampleResolver = newDNSResolver 1 300 1800"

definition exampleLoading :: dns_system where
  "exampleLoading = \<lparr>ds_r = snd (resolve_lookup 0 exampleKey 0 exampleResolver), ds_loads = [(exampleKey, 0, 0)],
     ds_uncached = [], ds_releasing = 0\<rparr>"

lemma exampleLoading_reachable: "reachable dns_start dns_step exampleLoading"
proof (rule reachable_step)
  let ?s = "\<lparr>ds_r = exampleResolver, ds_loads = [], ds_uncached = [], ds_releasing = 0\<rparr>"
  have "dns_start ?s" by (auto simp: dns_start_def exampleResolver_def)
  then show "reachable dns_start dns_step ?s" by (rule reachable_start)
  have "fst (resolve_lookup 0 exampleKey 0 exampleResolver) = LkStart 0 0"
    by (simp add: resolve_lookup_def exampleResolver_def newDNSResolver_def insertLocked_def make_room.simps start_flight_def Let_def)
  then show "dns_step ?s exampleLoading"
    using dns_lookup [of 0 exampleKey 0 ?s] unfolding exampleLoading_def by (cases "resolve_lookup 0 exampleKey 0 exampleResolver") simp
qed

theorem dns_single_flight_witness:
  "length (rv_entries (ds_r exampleLoading)) \<le> 1
   \<and> fl_done (rv_flights (runLoad_end 1 exampleKey 0 0 (Inr emptyEndpoints) (ds_r exampleLoading)) ! 0)
   \<and> fst (resolve_lookup 1 exampleKey 0 (ds_r exampleLoading)) = LkJoin 0"
proof -
  have c: "rv_capacity (ds_r exampleLoading) = 1"
    and j: "fst (resolve_lookup 1 exampleKey 0 (ds_r exampleLoading)) = LkJoin 0"
    by (simp_all add: exampleLoading_def resolve_lookup_def exampleResolver_def newDNSResolver_def insertLocked_def
        make_room.simps start_flight_def Let_def upd_entry_def newEntry_def touchLocked_def)
  show ?thesis
    using dns_single_flight [OF exampleLoading_reachable, of 1 exampleKey 0 0 0 "Inr emptyEndpoints"] c j
    by (simp add: exampleLoading_def)
qed

lemma touchLocked_views: "rv_objs (touchLocked a r) = rv_objs r" "rv_freshTTL (touchLocked a r) = rv_freshTTL r"
  "rv_staleTTL (touchLocked a r) = rv_staleTTL r"
  by (simp_all add: touchLocked_def)

text \<open>
  C23.  What a cached answer may be.  An answer from the cache is that of the entry of the key: either
  at most the fresh age old and newer than the generation the caller knows, or, marked stale, at most
  the stale age old and only while the cooldown after a transient failure runs.  \<open>README.md\<close> describes
  this (line 76) and also denies it (line 10: on failure no fallback to the cache), as does
  \<open>GO_SDK_INTEGRATION_GUIDE.md\<close> (line 169: login never continues from a local cache).
\<close>

theorem dns_cached_answer:
  assumes "fst (resolve_lookup now key known r) = LkAnswer (Inr res)"
  shows "\<exists>a. map_of (rv_entries r) key = Some a \<and> ce_hasValue (cobj r a)
    \<and> dr_Endpoints res = ce_endpoints (cobj r a) \<and> dr_Generation res = ce_generation (cobj r a)
    \<and> (if dr_Stale res
       then now - ce_fetchedAt (cobj r a) \<le> rv_staleTTL r \<and> ce_lastTransient (cobj r a) \<and> ce_flight (cobj r a) = None
            \<and> (\<exists>t. ce_refreshNotBefore (cobj r a) = Some t \<and> now < t)
       else now - ce_fetchedAt (cobj r a) \<le> rv_freshTTL r \<and> known < dr_Generation res)"
proof (cases "map_of (rv_entries r) key")
  case None
  then show ?thesis
    using assms by (auto simp: resolve_lookup_def start_flight_def Let_def split: option.splits prod.splits)
next
  case (Some a)
  then show ?thesis
    using assms
    by (auto simp: resolve_lookup_def start_flight_def Let_def touchLocked_views resolutionFromEntry_def
        split: if_splits option.splits)
qed

theorem dns_cached_answer_witness:
  "let r = runLoad_end 10 exampleKey 0 0 (Inr emptyEndpoints) (ds_r exampleLoading)
   in \<exists>a. map_of (rv_entries r) exampleKey = Some a \<and> 20 - ce_fetchedAt (cobj r a) \<le> rv_freshTTL r"
proof -
  let ?r = "runLoad_end 10 exampleKey 0 0 (Inr emptyEndpoints) (ds_r exampleLoading)"
  have a: "fst (resolve_lookup 20 exampleKey 0 ?r)
      = LkAnswer (Inr \<lparr>dr_Endpoints = emptyEndpoints, dr_Generation = 1, dr_Stale = False\<rparr>)"
    by (simp add: exampleLoading_def resolve_lookup_def exampleResolver_def newDNSResolver_def insertLocked_def
        make_room.simps start_flight_def Let_def upd_entry_def newEntry_def touchLocked_def runLoad_end_def
        close_flight_def resolutionFromEntry_def)
  from dns_cached_answer [OF a] show ?thesis by (auto simp: Let_def)
qed

lemma cooldown_loop_value:
  "0 < d \<Longrightarrow> d < dnsMaxFailureCooldown \<Longrightarrow> cooldown_loop n d = min (d * 2 ^ n) dnsMaxFailureCooldown"
proof (induction n arbitrary: d)
  case (Suc n)
  show ?case
  proof (cases "d * 2 \<ge> dnsMaxFailureCooldown")
    case True
    have "d * 1 \<le> d * 2 ^ n" using Suc.prems(1) by (intro mult_left_mono) simp_all
    then have "2 * d \<le> 2 * (d * 2 ^ n)" by simp
    with True have "dnsMaxFailureCooldown \<le> 2 * (d * 2 ^ n)" by linarith
    then have "dnsMaxFailureCooldown \<le> d * 2 ^ Suc n" by (simp only: power_Suc mult.left_commute)
    with True Suc.prems show ?thesis by (simp only: cooldown_loop.simps if_True min_absorb2)
  next
    case False
    then show ?thesis using Suc by (simp add: mult.assoc)
  qed
qed simp

text \<open>
  The cooldown after failures.  After the \<open>n\<close>-th failure in a row, the next refresh waits five
  seconds doubled \<open>n - 1\<close> times, and never more than two minutes.
\<close>

lemma dns_cooldown_doubles:
  "dnsRefreshCooldown n =
     (if n < 1 then 0 else min (dnsFailureCooldown * 2 ^ nat (n - 1)) dnsMaxFailureCooldown)"
  by (simp add: dnsRefreshCooldown_def cooldown_loop_value)

end
