(* ===== verification/Endpoint_Pool.thy ===== *)
theory Endpoint_Pool
  imports Go_Strings Protocol_Model
begin

text \<open>
  How a connection attempt walks over endpoints: the round over the DNS candidates
  (\<open>sdk/endpoint_pool.go\<close>), the login attempts over that round, the redirect loop of one attempt and
  the delays between reconnect attempts (\<open>sdk/connection.go\<close>).

  The network is a parameter: \<open>dial\<close>, \<open>login\<close> and \<open>sendUnread\<close> answer for the \<open>n\<close>-th call, with any
  outcome.  So are \<open>url.Parse\<close> and \<open>URL.String\<close> of \<open>net/url\<close>, and \<open>json.Unmarshal\<close> of the token document.
  The effects on runs are kept as a log, so that the theorems can speak of runs that are left open.
\<close>

section \<open>The round over the candidates\<close>

record endpointRound =
  er_candidates :: "string list"
  er_next :: nat
  er_remaining :: nat

text \<open>Go's remainder has the sign of the dividend.\<close>

definition go_rem :: "int \<Rightarrow> int \<Rightarrow> int" where
  "go_rem a b = (if a < 0 then - ((- a) mod b) else a mod b)"

definition newEndpointRound :: "string list \<Rightarrow> int \<Rightarrow> endpointRound" where
  "newEndpointRound candidates start =
     (if candidates = [] then \<lparr>er_candidates = candidates, er_next = 0, er_remaining = 0\<rparr>
      else
        let n = int (length candidates);
            s = go_rem start n;
            s1 = (if s < 0 then s + n else s)
        in \<lparr>er_candidates = candidates, er_next = nat s1, er_remaining = length candidates\<rparr>)"

text \<open>The endpoint with its index, or nothing when \<open>ok\<close> is false.\<close>

definition nextEndpoint :: "endpointRound \<Rightarrow> (string \<times> nat) option \<times> endpointRound" where
  "nextEndpoint r =
     (if er_remaining r = 0 \<or> er_candidates r = [] then (None, r)
      else
        let index = er_next r
        in (Some (er_candidates r ! index, index),
            r\<lparr>er_next := (er_next r + 1) mod length (er_candidates r), er_remaining := er_remaining r - 1\<rparr>))"

definition exhausted :: "endpointRound \<Rightarrow> bool" where
  "exhausted r \<longleftrightarrow> er_remaining r = 0"

definition nextCandidateCursor :: "int \<Rightarrow> nat \<Rightarrow> nat" where
  "nextCandidateCursor usedIndex candidateCount =
     (if candidateCount = 0 \<or> usedIndex < 0 then 0 else (nat usedIndex + 1) mod candidateCount)"

section \<open>One login over the candidates\<close>

lemma nextEndpoint_remaining:
  "nextEndpoint r = (Some e, r') \<Longrightarrow> er_remaining r' < er_remaining r"
  by (auto simp: nextEndpoint_def Let_def split: if_splits)

text \<open>
  \<open>connectLoginCandidates\<close> from its \<open>n\<close>-th round on: \<open>ctxErr n\<close> is what \<open>ctx.Err()\<close> answers then, and
  \<open>connect n endpoint\<close> what \<open>connectEndpoint\<close> returns.  The result is the run, the index and the error
  that the Go function returns.
\<close>

function login_loop ::
  "(nat \<Rightarrow> go_error option) \<Rightarrow> (nat \<Rightarrow> string \<Rightarrow> go_error + 'r) \<Rightarrow> nat \<Rightarrow> endpointRound \<Rightarrow> go_error option
     \<Rightarrow> 'r option \<times> int \<times> go_error option" where
  "login_loop ctxErr connect n rnd lastErr =
     (if exhausted rnd then (None, -1, lastErr)
      else
        (case ctxErr n of
           Some e \<Rightarrow>
             (None, -1, if lastErr \<noteq> None then lastErr else classifyNetworkError ''login endpoints'' (Some e))
         | None \<Rightarrow>
             (case nextEndpoint rnd of
                (None, rnd') \<Rightarrow> (None, -1, lastErr)
              | (Some (endpoint, index), rnd') \<Rightarrow>
                  (case connect n endpoint of
                     Inr r \<Rightarrow> (Some r, int index, None)
                   | Inl err \<Rightarrow>
                       if \<not> shouldRotateEndpoint (Some err) then (None, int index, Some err)
                       else login_loop ctxErr connect (Suc n) rnd' (Some err)))))"
  by pat_completeness auto
termination
  by (relation "measure (\<lambda>(ctxErr, connect, n, rnd, lastErr). er_remaining rnd)")
    (auto dest: nextEndpoint_remaining [OF sym])

declare login_loop.simps [simp del]

definition connectLoginCandidates ::
  "(nat \<Rightarrow> go_error option) \<Rightarrow> (nat \<Rightarrow> string \<Rightarrow> go_error + 'r) \<Rightarrow> string list
     \<Rightarrow> 'r option \<times> int \<times> go_error option" where
  "connectLoginCandidates ctxErr connect candidates =
     login_loop ctxErr connect 0 (newEndpointRound candidates 0) None"

section \<open>Redirects\<close>

text \<open>The fields of \<open>url.URL\<close> that the redirect sets or keeps.\<close>

record goURL =
  url_Scheme :: string
  url_User :: string
  url_Host :: string
  url_Path :: string
  url_RawQuery :: string
  url_Fragment :: string

record url_lib =
  ul_Parse :: "string \<Rightarrow> go_error + goURL"
  ul_String :: "goURL \<Rightarrow> string"

definition redirectURL :: "url_lib \<Rightarrow> string \<Rightarrow> redirect_info list \<Rightarrow> go_error + string" where
  "redirectURL lib current infos =
     (case infos of
        [] \<Rightarrow> Inl (newError ErrProtocol ''redirect'' ''empty endpoint'')
      | (host, port) # rest \<Rightarrow>
          (case ul_Parse lib current of
             Inl err \<Rightarrow> Inl err
           | Inr u \<Rightarrow>
               if host = [] \<or> port = 0 \<or> port > 65535
               then Inl (newError ErrProtocol ''redirect'' ''invalid endpoint'')
               else
                 let u1 = u\<lparr>url_Scheme := ''wss'', url_Host := host @ '':'' @ itoa (int port)\<rparr>;
                     u2 = (if url_Path u1 = [] then u1\<lparr>url_Path := ''/websocket''\<rparr> else u1)
                 in Inr (ul_String lib (u2\<lparr>url_RawQuery := [], url_Fragment := []\<rparr>))))"

text \<open>The state a run carries from its provision until it is installed; \<open>None\<close> is the zero time.\<close>

record provisionState =
  ps_sessionID :: string
  ps_token :: string
  ps_expiresAt :: "int option"

abbreviation (input) second :: int where "second \<equiv> 1000000000"

text \<open>Times are nanoseconds of the Unix epoch; \<open>time.Duration\<close> multiplies in 64 bits.\<close>

definition tokenExpiryTime :: "int64 \<Rightarrow> int \<Rightarrow> int option" where
  "tokenExpiryTime value now =
     (if value \<le> 0 then None
      else if value \<ge> 1000000000000 then Some (value * 1000000)
      else if value \<ge> 1000000000 then Some (value * second)
      else Some (now + wrap64 (value * second)))"

definition parseProvisionState ::
  "(bytes \<Rightarrow> (string \<times> int64) option) \<Rightarrow> int \<Rightarrow> Provision option \<Rightarrow> provisionState" where
  "parseProvisionState unmarshal now p =
     (case p of None \<Rightarrow> \<lparr>ps_sessionID = [], ps_token = [], ps_expiresAt = None\<rparr>
      | Some p \<Rightarrow>
          let state = \<lparr>ps_sessionID = pv_SessionID p, ps_token = [], ps_expiresAt = None\<rparr>
          in if pv_AuthToken p = [] then state
             else (case unmarshal (pv_AuthToken p) of None \<Rightarrow> state
                   | Some (tok, expires) \<Rightarrow>
                       if tok = [] then state
                       else state\<lparr>ps_token := tok, ps_expiresAt := tokenExpiryTime expires now\<rparr>))"

text \<open>
  What happens to runs during an attempt: \<open>Dialled r\<close> when \<open>dial\<close> returned \<open>r\<close> for an endpoint, \<open>ShutDown r\<close>
  for \<open>r.shutdown\<close>, \<open>Heartbeat r\<close> when its heartbeat starts.
\<close>

datatype 'r run_event = Dialled string 'r | ShutDown 'r | Heartbeat 'r

record 'r network =
  nw_dial :: "nat \<Rightarrow> string \<Rightarrow> go_error + 'r"
  nw_login :: "'r \<Rightarrow> go_error + Provision option"
  nw_sendUnread :: "'r \<Rightarrow> go_error option"

abbreviation (input) maxRedirectHops :: nat where "maxRedirectHops \<equiv> 5"

text \<open>
  \<open>connectWithRedirects\<close> from hop \<open>hop\<close> on.  The accepted run is returned with the provision it was
  accepted with; \<open>seen\<close> are the endpoints already dialled.
\<close>

function redirect_loop ::
  "url_lib \<Rightarrow> 'r network \<Rightarrow> nat \<Rightarrow> string list \<Rightarrow> string \<Rightarrow> (go_error + 'r \<times> Provision option) \<times> 'r run_event list" where
  "redirect_loop lib nw hop seen endpoint =
     (if hop > maxRedirectHops then (Inl (newError ErrRedirectLimit ''provision'' ''maximum redirect hops exceeded''), [])
      else if endpoint \<in> set seen then (Inl (newError ErrRedirectLoop ''provision'' endpoint), [])
      else
        (case nw_dial nw hop endpoint of
           Inl err \<Rightarrow> (Inl err, [])
         | Inr r \<Rightarrow>
             (case nw_login nw r of
                Inr p \<Rightarrow>
                  (case nw_sendUnread nw r of
                     Some err \<Rightarrow> (Inl err, [Dialled endpoint r, ShutDown r])
                   | None \<Rightarrow> (Inr (r, p), [Dialled endpoint r, Heartbeat r]))
              | Inl err \<Rightarrow>
                  (case errors_As is_redirect err of
                     Some (RedirectErr infos) \<Rightarrow>
                       (case redirectURL lib endpoint infos of
                          Inl e \<Rightarrow> (Inl e, [Dialled endpoint r, ShutDown r])
                        | Inr next \<Rightarrow>
                            (let (res, evs) = redirect_loop lib nw (Suc hop) (endpoint # seen) next
                             in (res, [Dialled endpoint r, ShutDown r] @ evs)))
                   | _ \<Rightarrow> (Inl err, [Dialled endpoint r, ShutDown r])))))"
  by pat_completeness auto
termination by (relation "measure (\<lambda>(lib, nw, hop, seen, endpoint). Suc maxRedirectHops - hop)") auto

declare redirect_loop.simps [simp del]

definition connectWithRedirects ::
  "url_lib \<Rightarrow> 'r network \<Rightarrow> string \<Rightarrow> (go_error + 'r \<times> Provision option) \<times> 'r run_event list" where
  "connectWithRedirects lib nw endpoint = redirect_loop lib nw 0 [] endpoint"

section \<open>Delays\<close>

text \<open>\<open>pick n\<close> is \<open>rand.Intn(n)\<close>.\<close>

definition reconnectDelay :: "(int \<Rightarrow> int) \<Rightarrow> int \<Rightarrow> int" where
  "reconnectDelay pick attempt =
     (let (lo, hi) = (if attempt \<le> 3 then (5, 10) else if attempt < 9 then (20, 40) else (60, 120))
      in (lo + pick (hi - lo + 1)) * second)"

definition maxDuration :: "int64 \<Rightarrow> int64 \<Rightarrow> int64" where
  "maxDuration a b = (if a > b then a else b)"

section \<open>The round as an iterator\<close>

text \<open>
  An iterator over a list: \<open>view\<close> is what is still to come, \<open>pull\<close> takes the first element off it and
  changes nothing once the view is empty.  \<open>drain\<close> calls \<open>pull\<close> until it has had \<open>n\<close> answers.
\<close>

fun drain :: "('s \<Rightarrow> 'a option \<times> 's) \<Rightarrow> nat \<Rightarrow> 's \<Rightarrow> 'a option list \<times> 's" where
  "drain pull 0 s = ([], s)"
| "drain pull (Suc n) s = (let (a, t) = pull s; (as, u) = drain pull n t in (a # as, u))"

locale list_iterator =
  fixes pull :: "'s \<Rightarrow> 'a option \<times> 's" and view :: "'s \<Rightarrow> 'a list" and ok :: "'s \<Rightarrow> bool"
  assumes pull_empty: "ok s \<Longrightarrow> view s = [] \<Longrightarrow> pull s = (None, s)"
    and pull_cons: "ok s \<Longrightarrow> view s = x # xs \<Longrightarrow> \<exists>t. pull s = (Some x, t) \<and> view t = xs \<and> ok t"
begin

lemma drain_view:
  "ok s \<Longrightarrow> n \<le> length (view s) \<Longrightarrow>
   \<exists>t. drain pull n s = (map Some (take n (view s)), t) \<and> view t = drop n (view s) \<and> ok t"
proof (induction n arbitrary: s)
  case (Suc n)
  then obtain x xs where v: "view s = x # xs" by (cases "view s") auto
  then obtain t where t: "pull s = (Some x, t)" "view t = xs" "ok t" using pull_cons Suc.prems(1) by blast
  with Suc.IH [of t] Suc.prems(2) v show ?case by auto
qed simp

lemma drain_all:
  assumes "ok s"
  shows "\<exists>t. drain pull (length (view s)) s = (map Some (view s), t) \<and> pull t = (None, t)"
  using drain_view [OF assms le_refl] pull_empty by force

end

definition round_ok :: "endpointRound \<Rightarrow> bool" where
  "round_ok r \<longleftrightarrow> er_remaining r \<le> length (er_candidates r)
     \<and> (er_candidates r \<noteq> [] \<longrightarrow> er_next r < length (er_candidates r))"

definition round_view :: "endpointRound \<Rightarrow> (string \<times> nat) list" where
  "round_view r =
     map (\<lambda>i. let j = (er_next r + i) mod length (er_candidates r) in (er_candidates r ! j, j)) [0..<er_remaining r]"

lemma length_round_view [simp]: "length (round_view r) = er_remaining r"
  by (simp add: round_view_def)

lemma nextEndpoint_view:
  assumes "round_ok r" and "er_remaining r = Suc n"
  shows "\<exists>t. nextEndpoint r = (Some (er_candidates r ! er_next r, er_next r), t) \<and> round_ok t
    \<and> er_candidates t = er_candidates r \<and> er_next t = (er_next r + 1) mod length (er_candidates r)
    \<and> er_remaining t = n \<and> round_view r = (er_candidates r ! er_next r, er_next r) # round_view t"
proof -
  have ne: "er_candidates r \<noteq> []" using assms by (auto simp: round_ok_def)
  let ?t = "r\<lparr>er_next := (er_next r + 1) mod length (er_candidates r), er_remaining := n\<rparr>"
  have "nextEndpoint r = (Some (er_candidates r ! er_next r, er_next r), ?t)"
    using ne assms(2) by (simp add: nextEndpoint_def Let_def)
  moreover have "round_view r = (er_candidates r ! er_next r, er_next r) # round_view ?t"
    using assms ne
    by (simp add: round_view_def round_ok_def upt_conv_Cons map_Suc_upt [symmetric] comp_def mod_simps Let_def
        del: upt_Suc)
  ultimately show ?thesis using assms ne by (simp add: round_ok_def)
qed

interpretation endpoint_round: list_iterator nextEndpoint round_view round_ok
proof
  show "nextEndpoint s = (None, s)" if "round_ok s" "round_view s = []" for s
    using that by (auto simp: nextEndpoint_def simp flip: length_0_conv)
  show "\<exists>t. nextEndpoint s = (Some x, t) \<and> round_view t = xs \<and> round_ok t"
    if "round_ok s" "round_view s = x # xs" for s x xs
  proof -
    have "er_remaining s = Suc (length xs)" using that(2) by (metis length_Cons length_round_view)
    from nextEndpoint_view [OF that(1) this] that(2) show ?thesis by auto
  qed
qed

lemma go_rem_mod:
  assumes "0 < n"
  shows "(if go_rem a n < 0 then go_rem a n + n else go_rem a n) = a mod n"
proof (cases "a < 0 \<and> (- a) mod n \<noteq> 0")
  case True
  then have "a mod n = n - (- a) mod n" using assms zmod_zminus1_eq_if [of "- a" n] by simp
  moreover have "0 < (- a) mod n" using True assms pos_mod_sign [of n "- a"] by linarith
  ultimately show ?thesis using True by (simp add: go_rem_def)
next
  case False
  show ?thesis
  proof (cases "a < 0")
    case True
    with False have "(- a) mod n = 0" by simp
    then show ?thesis using True zmod_zminus1_eq_if [of "- a" n] by (simp add: go_rem_def)
  next
    case nonneg: False
    then show ?thesis using assms pos_mod_sign [of n a] by (simp add: go_rem_def not_less)
  qed
qed

lemma newEndpointRound_sel:
  "er_candidates (newEndpointRound cs start) = cs"
  "er_remaining (newEndpointRound cs start) = length cs"
  "cs \<noteq> [] \<Longrightarrow> er_next (newEndpointRound cs start) = nat (start mod int (length cs))"
  "round_ok (newEndpointRound cs start)"
  using go_rem_mod [of "int (length cs)" start]
  by (auto simp: newEndpointRound_def Let_def round_ok_def nat_less_iff split: if_splits)

lemma rotate_upt: "s < n \<Longrightarrow> rotate s [0..<n] = map (\<lambda>i. (s + i) mod n) [0..<n]"
  by (rule nth_equalityI) (auto simp: nth_rotate)

text \<open>
  One round visits every candidate exactly once.  From any cursor, negative ones included, the
  calls of \<open>nextEndpoint\<close> return the candidates in circular order from the cursor modulo their number,
  every index once, and then nothing more, however often it is called.
\<close>

lemma endpoint_round_each_once:
  assumes "cs \<noteq> []"
  shows "\<exists>r. drain nextEndpoint (length cs) (newEndpointRound cs start) =
        (map (\<lambda>j. Some (cs ! j, j)) (rotate (nat (start mod int (length cs))) [0..<length cs]), r)
      \<and> nextEndpoint r = (None, r) \<and> exhausted r"
proof -
  let ?r = "newEndpointRound cs start" and ?s = "nat (start mod int (length cs))"
  have s: "?s < length cs" using assms by (simp add: nat_less_iff)
  have rot: "rotate ?s [0..<length cs] = map (\<lambda>i. (?s + i) mod length cs) [0..<length cs]"
    using s by (rule rotate_upt)
  have v: "map Some (round_view ?r) = map (\<lambda>j. Some (cs ! j, j)) (rotate ?s [0..<length cs])"
    unfolding rot using assms by (simp add: round_view_def newEndpointRound_sel Let_def)
  obtain r where r: "drain nextEndpoint (length cs) ?r = (map Some (round_view ?r), r)" "nextEndpoint r = (None, r)"
    using endpoint_round.drain_all [OF newEndpointRound_sel(4)] by (auto simp: newEndpointRound_sel)
  have "er_remaining r = 0"
    using endpoint_round.drain_view [OF newEndpointRound_sel(4), of "length cs" cs start] r(1)
    by (metis Pair_inject diff_self_eq_0 length_drop length_round_view newEndpointRound_sel(2) le_refl)
  with r v show ?thesis by (auto simp: exhausted_def)
qed

section \<open>Which candidate a login uses\<close>

text \<open>
  A round of a login that has used up the first \<open>n\<close> candidates.
\<close>

definition round_at :: "string list \<Rightarrow> nat \<Rightarrow> endpointRound \<Rightarrow> bool" where
  "round_at cs n r \<longleftrightarrow> er_candidates r = cs \<and> er_remaining r = length cs - n \<and> er_next r = n mod length cs"

lemma round_at_next:
  assumes "round_at cs n r" and "n < length cs"
  shows "\<exists>t. nextEndpoint r = (Some (cs ! n, n), t) \<and> round_at cs (Suc n) t"
  using assms by (auto simp: round_at_def nextEndpoint_def Let_def)

text \<open>The outcome of a login that went on to its \<open>k\<close>-th candidate, given the error of the last one.\<close>

definition login_outcome ::
  "(nat \<Rightarrow> go_error option) \<Rightarrow> (nat \<Rightarrow> string \<Rightarrow> go_error + 'r) \<Rightarrow> string list \<Rightarrow> nat \<Rightarrow> go_error option
     \<Rightarrow> 'r option \<times> int \<times> go_error option \<Rightarrow> bool" where
  "login_outcome ctxErr connect cs k lastErr res \<longleftrightarrow>
     (if k = length cs then res = (None, -1, lastErr)
      else case ctxErr k of
             Some e \<Rightarrow> res = (None, -1, if lastErr \<noteq> None then lastErr else classifyNetworkError ''login endpoints'' (Some e))
           | None \<Rightarrow>
               (case connect k (cs ! k) of
                  Inr r \<Rightarrow> res = (Some r, int k, None)
                | Inl err \<Rightarrow> \<not> shouldRotateEndpoint (Some err) \<and> res = (None, int k, Some err)))"

definition rotates_on :: "(nat \<Rightarrow> go_error option) \<Rightarrow> (nat \<Rightarrow> string \<Rightarrow> go_error + 'r) \<Rightarrow> string list \<Rightarrow> nat \<Rightarrow> bool" where
  "rotates_on ctxErr connect cs i \<longleftrightarrow>
     ctxErr i = None \<and> (case connect i (cs ! i) of Inr r \<Rightarrow> False | Inl err \<Rightarrow> shouldRotateEndpoint (Some err))"

definition failure_of :: "(nat \<Rightarrow> string \<Rightarrow> go_error + 'r) \<Rightarrow> string list \<Rightarrow> nat \<Rightarrow> go_error option" where
  "failure_of connect cs i = (case connect i (cs ! i) of Inl err \<Rightarrow> Some err | Inr r \<Rightarrow> None)"

lemma login_loop_rotate:
  assumes "round_at cs n rnd" and "n < length cs" and "rotates_on ctxErr connect cs n"
  shows "\<exists>t. round_at cs (Suc n) t
    \<and> login_loop ctxErr connect n rnd lastErr = login_loop ctxErr connect (Suc n) t (failure_of connect cs n)"
proof -
  obtain t where t: "nextEndpoint rnd = (Some (cs ! n, n), t)" "round_at cs (Suc n) t"
    using round_at_next assms by blast
  have "\<not> exhausted rnd" using assms by (auto simp: exhausted_def round_at_def)
  then show ?thesis using assms(3) t
    by (intro exI [of _ t], subst login_loop.simps) (auto simp: rotates_on_def failure_of_def split: sum.splits)
qed

lemma login_loop_stop:
  assumes "round_at cs n rnd" and "n \<le> length cs" and "\<not> (n < length cs \<and> rotates_on ctxErr connect cs n)"
  shows "login_outcome ctxErr connect cs n lastErr (login_loop ctxErr connect n rnd lastErr)"
proof (cases "n < length cs")
  case True
  then obtain t where "nextEndpoint rnd = (Some (cs ! n, n), t)" using round_at_next assms(1) by blast
  moreover have "\<not> exhausted rnd" using assms(1) True by (auto simp: exhausted_def round_at_def)
  ultimately show ?thesis using True assms(3)
    by (subst login_loop.simps) (auto simp: login_outcome_def rotates_on_def split: option.splits sum.splits)
next
  case False
  then have "exhausted rnd" "n = length cs" using assms by (simp_all add: exhausted_def round_at_def)
  then show ?thesis by (subst login_loop.simps) (simp add: login_outcome_def)
qed

lemma login_loop_outcome:
  assumes "round_at cs n rnd" and "n \<le> length cs"
  shows "\<exists>k. n \<le> k \<and> k \<le> length cs \<and> (\<forall>i \<in> {n..<k}. rotates_on ctxErr connect cs i)
    \<and> login_outcome ctxErr connect cs k (if k = n then lastErr else failure_of connect cs (k - 1))
        (login_loop ctxErr connect n rnd lastErr)"
  using assms
proof (induction "length cs - n" arbitrary: n rnd lastErr)
  case 0
  then show ?case using login_loop_stop [of cs n rnd ctxErr connect lastErr] by (intro exI [of _ n]) simp
next
  case (Suc m)
  show ?case
  proof (cases "rotates_on ctxErr connect cs n")
    case True
    have lt: "n < length cs" using Suc.hyps(2) by simp
    obtain t where t: "round_at cs (Suc n) t"
      "login_loop ctxErr connect n rnd lastErr = login_loop ctxErr connect (Suc n) t (failure_of connect cs n)"
      using login_loop_rotate [OF Suc.prems(1) lt True] by blast
    have "m = length cs - Suc n" "Suc n \<le> length cs" using Suc.hyps(2) by simp_all
    from Suc.hyps(1) [OF this(1) t(1) this(2)] obtain k where
      k: "Suc n \<le> k" "k \<le> length cs" "\<forall>i \<in> {Suc n..<k}. rotates_on ctxErr connect cs i"
        "login_outcome ctxErr connect cs k (if k = Suc n then failure_of connect cs n else failure_of connect cs (k - 1))
           (login_loop ctxErr connect n rnd lastErr)" using t(2) by metis
    have "\<forall>i \<in> {n..<k}. rotates_on ctxErr connect cs i"
      using k(3) True by (metis atLeastLessThan_iff le_eq_less_or_eq Suc_leI)
    then show ?thesis using k by (intro exI [of _ k]) (auto split: if_splits)
  next
    case False
    then show ?thesis using login_loop_stop [OF Suc.prems, of ctxErr connect lastErr] Suc.prems(2)
      by (intro exI [of _ n]) simp
  qed
qed

text \<open>
  A login over the candidates goes through them in order, one attempt each, as long as the attempts
  fail with errors that can be local to an endpoint and the context is alive.  It ends at the first
  success (the run and its index), at the first other error (which it returns with the index), at the end
  of the context or of the list (with the error of the last attempt).  It returns either a run without
  error or an error without run.
\<close>

lemma login_candidates_policy:
  fixes ctxErr :: "nat \<Rightarrow> go_error option" and connect :: "nat \<Rightarrow> string \<Rightarrow> go_error + 'r"
  assumes "cs \<noteq> []"
  shows "\<exists>k \<le> length cs. (\<forall>i < k. rotates_on ctxErr connect cs i)
     \<and> login_outcome ctxErr connect cs k (if k = 0 then None else failure_of connect cs (k - 1))
         (connectLoginCandidates ctxErr connect cs)
     \<and> (fst (connectLoginCandidates ctxErr connect cs) = None
          \<longleftrightarrow> snd (snd (connectLoginCandidates ctxErr connect cs)) \<noteq> None)"
proof -
  let ?res = "connectLoginCandidates ctxErr connect cs"
  have "round_at cs 0 (newEndpointRound cs 0)" using assms by (simp add: round_at_def newEndpointRound_sel)
  from login_loop_outcome [OF this le0, of ctxErr connect None] obtain k where
    k: "k \<le> length cs" "\<forall>i < k. rotates_on ctxErr connect cs i"
      "login_outcome ctxErr connect cs k (if k = 0 then None else failure_of connect cs (k - 1)) ?res"
    unfolding connectLoginCandidates_def by auto
  have "failure_of connect cs (k - 1) \<noteq> None" if "0 < k"
    using k(2) that by (auto simp: rotates_on_def failure_of_def split: sum.splits dest!: spec [of _ "k - 1"])
  then have "fst ?res = None \<longleftrightarrow> snd (snd ?res) \<noteq> None"
    using k(1,3) assms
    by (auto simp: login_outcome_def classifyNetworkError_def Let_def split: option.splits sum.splits if_splits)
  then show ?thesis using k by (intro exI [of _ k] conjI) assumption+
qed

section \<open>Redirects end and leave no run open\<close>

fun dialled :: "'r run_event list \<Rightarrow> string list" where
  "dialled [] = []"
| "dialled (Dialled e r # evs) = e # dialled evs"
| "dialled (_ # evs) = dialled evs"

fun left_open :: "'r run_event list \<Rightarrow> 'r list \<Rightarrow> 'r list" where
  "left_open [] rs = rs"
| "left_open (Dialled e r # evs) rs = left_open evs (r # rs)"
| "left_open (ShutDown r # evs) rs = left_open evs (remove1 r rs)"
| "left_open (Heartbeat r # evs) rs = left_open evs rs"

fun beating :: "'r run_event list \<Rightarrow> 'r list" where
  "beating [] = []"
| "beating (Heartbeat r # evs) = r # beating evs"
| "beating (_ # evs) = beating evs"

definition accepted :: "'r network \<Rightarrow> go_error + 'r \<times> Provision option \<Rightarrow> 'r list" where
  "accepted nw res = (case res of Inl e \<Rightarrow> [] | Inr (r, p) \<Rightarrow> if nw_login nw r = Inr p \<and> nw_sendUnread nw r = None then [r] else [])"

lemma redirect_loop_ok:
  assumes "redirect_loop lib nw hop seen endpoint = (res, evs)" and "hop \<le> Suc maxRedirectHops"
  shows "distinct (dialled evs) \<and> set (dialled evs) \<inter> set seen = {}
    \<and> length (dialled evs) \<le> Suc maxRedirectHops - hop
    \<and> left_open evs [] = accepted nw res \<and> beating evs = accepted nw res
    \<and> (\<forall>r p. res = Inr (r, p) \<longrightarrow> accepted nw res = [r])"
  using assms
proof (induction lib nw hop seen endpoint arbitrary: res evs rule: redirect_loop.induct)
  case (1 lib nw hop seen endpoint)
  show ?case
  proof (cases "\<exists>r err infos nxt. hop \<le> maxRedirectHops \<and> endpoint \<notin> set seen \<and> nw_dial nw hop endpoint = Inr r
      \<and> nw_login nw r = Inl err \<and> errors_As is_redirect err = Some (RedirectErr infos)
      \<and> redirectURL lib endpoint infos = Inr nxt")
    case True
    then obtain r err infos nxt where h: "hop \<le> maxRedirectHops" "endpoint \<notin> set seen" "nw_dial nw hop endpoint = Inr r"
      "nw_login nw r = Inl err" "errors_As is_redirect err = Some (RedirectErr infos)"
      "redirectURL lib endpoint infos = Inr nxt" by blast
    obtain evs' where rec: "redirect_loop lib nw (Suc hop) (endpoint # seen) nxt = (res, evs')"
      and evs: "evs = [Dialled endpoint r, ShutDown r] @ evs'"
      using 1(2) h by (subst (asm) redirect_loop.simps) (auto split: prod.splits)
    have nh: "\<not> maxRedirectHops < hop" using h(1) by simp
    have "Suc hop \<le> Suc maxRedirectHops" using h(1) by simp
    from 1(1) [OF nh h(2-5) refl h(6) rec this] show ?thesis using h(1,2) unfolding evs by auto
  next
    case False
    then have "evs = [] \<and> (\<exists>e. res = Inl e)
       \<or> hop \<le> maxRedirectHops \<and> endpoint \<notin> set seen
         \<and> ((\<exists>r e. evs = [Dialled endpoint r, ShutDown r] \<and> res = Inl e)
            \<or> (\<exists>r p. evs = [Dialled endpoint r, Heartbeat r] \<and> res = Inr (r, p) \<and> nw_login nw r = Inr p
                 \<and> nw_sendUnread nw r = None))"
      using 1(2)
      by (subst (asm) redirect_loop.simps)
        (auto split: if_splits sum.splits option.splits go_error.splits prod.splits simp: not_less)
    then show ?thesis using 1(3) by (auto simp: accepted_def)
  qed
qed

text \<open>
  C24.  The redirect loop.  Whatever the servers answer, a connection attempt ends after at most six dials,
  no endpoint is dialled twice, and of the runs it opened exactly the one it returns is still open and has
  a heartbeat; that run was accepted by the server and sent its first UNREAD.  On an error no run is left
  open.
\<close>

theorem redirects_end_without_leak:
  "let (res, evs) = connectWithRedirects lib nw endpoint
   in length (dialled evs) \<le> 6 \<and> distinct (dialled evs)
      \<and> (case res of
           Inl e \<Rightarrow> left_open evs [] = [] \<and> beating evs = []
         | Inr (r, p) \<Rightarrow> left_open evs [] = [r] \<and> beating evs = [r]
             \<and> nw_login nw r = Inr p \<and> nw_sendUnread nw r = None)"
proof -
  obtain res evs where r: "redirect_loop lib nw 0 [] endpoint = (res, evs)" by fastforce
  from redirect_loop_ok [OF r] show ?thesis
    by (auto simp: connectWithRedirects_def r accepted_def split: sum.splits if_splits)
qed

end
