(* ===== verification/Client_State.thy ===== *)
theory Client_State
  imports Run_State DNS_Resolver Endpoint_Pool Identifiers
begin

text \<open>
  The state of a Client (\<open>sdk/client.go\<close>) and the critical sections of its lifecycle operations
  (\<open>sdk/connection.go\<close>), one definition for each stretch of code that runs under \<open>c.mu\<close>: connecting,
  login, reconnect, logout, close, the provision state, the token warning and the two callback channels.

  Pointers to runs are positions in a store of runs.  Lifecycle channels (\<open>connectDone\<close>), session contexts
  and contexts of token warnings are numbered in the order they are made; the closed channels and the
  cancelled contexts are lists.  The lifetime context is cancelled in the same critical section that sets
  \<open>closed\<close>.  Times are nanoseconds, the zero time is \<open>None\<close>.
\<close>

section \<open>States and notifications\<close>

datatype LoginState = LoginStateLogout | LoginStateLoggingIn | LoginStateLoggedIn | LoginStateReconnecting

fun LoginState_String :: "LoginState \<Rightarrow> string" where
  "LoginState_String LoginStateLogout = ''logout''"
| "LoginState_String LoginStateLoggingIn = ''logging_in''"
| "LoginState_String LoginStateLoggedIn = ''logged_in''"
| "LoginState_String LoginStateReconnecting = ''reconnecting''"

datatype ConnState = ConnStateDisconnected | ConnStateConnecting | ConnStateConnected | ConnStateReconnecting

fun ConnState_String :: "ConnState \<Rightarrow> string" where
  "ConnState_String ConnStateDisconnected = ''disconnected''"
| "ConnState_String ConnStateConnecting = ''connecting''"
| "ConnState_String ConnStateConnected = ''connected''"
| "ConnState_String ConnStateReconnecting = ''reconnecting''"

text \<open>Which of the four callbacks the application has set.\<close>

record callbacks =
  cb_connection :: bool
  cb_disconnect :: bool
  cb_tokenExpired :: bool
  cb_tokenWillExpire :: bool

text \<open>A call of a callback of the application.\<close>

datatype notification =
    NConnection string ConnState
  | NDisconnect string "go_error option"
  | NTokenExpired string
  | NTokenWillExpire string int

record terminalCallbackEvent =
  te_userID :: string
  te_err :: "go_error option"
  te_tokenExpired :: bool
  te_disconnect :: bool
  te_connection :: bool

definition terminal_invoke :: "terminalCallbackEvent \<Rightarrow> notification list" where
  "terminal_invoke e =
     (if te_tokenExpired e then [NTokenExpired (te_userID e)] else [])
     @ (if te_disconnect e then [NDisconnect (te_userID e) (te_err e)] else [])
     @ (if te_connection e then [NConnection (te_userID e) ConnStateDisconnected] else [])"

text \<open>
  The functions that the SDK queues for the dispatcher: a connection state, or the warning of the session
  with a generation, which looks at the client again when it runs.
\<close>

datatype best_effort =
    BEConnection string ConnState
  | BETokenWarning uint64 string int

section \<open>Configuration\<close>

record Config =
  cfg_AppKey :: string
  cfg_Domain :: string
  cfg_Resource :: string
  cfg_DisableReconnect :: bool
  cfg_MessageHandler :: bool
  cfg_callbacks :: callbacks

definition resourcePrefix :: string where "resourcePrefix = ''go-server-imsdk-''"
abbreviation (input) maxResourceLength :: nat where "maxResourceLength \<equiv> 128"

definition fmt_error :: "string \<Rightarrow> go_error" where
  "fmt_error s = LibErr PlainError False s None"

text \<open>The default logger has no effect on the model and is left out.\<close>

definition applyDefaultsAndValidate :: "Config \<Rightarrow> go_error + Config" where
  "applyDefaultsAndValidate cfg =
     (let c = (if cfg_Domain cfg = [] then cfg\<lparr>cfg_Domain := ''easemob.com''\<rparr> else cfg)
      in if \<not> cfg_MessageHandler c then Inl (fmt_error ''MessageHandler is required'')
         else if cfg_AppKey c = [] \<or> cfg_Resource c = [] then Inl (fmt_error ''AppKey and Resource are required'')
         else
           let c1 = c\<lparr>cfg_Resource := resourcePrefix @ cfg_Resource c\<rparr>
           in if length (cfg_Resource c1) > maxResourceLength \<or> containsAny (cfg_Resource c1) (blanks @ ''/@'')
              then Inl (fmt_error (''Resource with SDK prefix must be 1-'' @ itoa (int maxResourceLength)
                     @ '' characters without whitespace, '' @ [CHR 0x27] @ ''/'' @ [CHR 0x27] @ '', ''
                     @ [CHR 0x27] @ ''@'' @ [CHR 0x27]))
              else if split_app_key (cfg_AppKey c1) = None then Inl (fmt_error ''AppKey must have org#app form'')
              else Inr c1)"

section \<open>The client\<close>

record client = clientShared +
  c_cfg :: Config
  c_closed :: bool
  c_closeDone :: bool
  c_connectDone :: "nat option"
  c_chans :: nat
  c_closedChans :: "nat list"
  c_pendingDNSFlights :: "nat list"
  c_state :: LoginState
  c_connState :: ConnState
  c_run :: "nat option"
  c_userID :: string
  c_token :: string
  c_msyncHost :: string
  c_msyncHosts :: "string list"
  c_msyncCursor :: nat
  c_dnsGeneration :: uint64
  c_restBase :: string
  c_sessionID :: string
  c_backoffAttempt :: "32 word"
  c_lastStableConnect :: int64
  c_tokenExpiresAt :: "int option"
  c_tokenWarningCancel :: "nat option"
  c_warnings :: nat
  c_canceledWarnings :: "nat list"
  c_sessionCtx :: "nat option"
  c_sessionCancel :: "nat option"
  c_sessions :: nat
  c_canceledSessions :: "nat list"
  c_sessionGeneration :: uint64
  c_events :: "(uint64 \<times> best_effort) list"
  c_terminalCallback :: "terminalCallbackEvent option"
  c_terminalWake :: bool
  c_callbackEpoch :: uint64
  c_callbackDrops :: uint64
  c_callbackDropLog :: int64
  c_idCounter :: uint64

abbreviation c_callbacks :: "client \<Rightarrow> callbacks" where
  "c_callbacks c \<equiv> cfg_callbacks (c_cfg c)"

text \<open>
  \<open>New\<close> after the random seed was read and the codec was made; the two process-wide budgets are given.
\<close>

definition New :: "byteBudget option \<Rightarrow> byteBudget option \<Rightarrow> bytes \<Rightarrow> Config \<Rightarrow> go_error + client" where
  "New procBatch procQueue seed cfg0 =
     (case applyDefaultsAndValidate cfg0 of Inl e \<Rightarrow> Inl e
      | Inr cfg \<Rightarrow>
          Inr (clientShared.extend
            \<lparr>cl_generation = 0, cl_lifetimeDone = False, cl_lastErr = None, cl_batches = [],
             cl_batchBudget = mustNewByteBudget clientBatchBudgetBytes, cl_clientBatchRejects = 0,
             cl_processBatchRejects = 0, processBatchBudget = procBatch, processQueueBudget = procQueue\<rparr>
            \<lparr>c_cfg = cfg, c_closed = False, c_closeDone = False, c_connectDone = None, c_chans = 0,
             c_closedChans = [], c_pendingDNSFlights = [], c_state = LoginStateLogout,
             c_connState = ConnStateDisconnected, c_run = None, c_userID = [], c_token = [], c_msyncHost = [],
             c_msyncHosts = [], c_msyncCursor = 0, c_dnsGeneration = 0, c_restBase = [], c_sessionID = [],
             c_backoffAttempt = 0, c_lastStableConnect = 0, c_tokenExpiresAt = None,
             c_tokenWarningCancel = None, c_warnings = 0, c_canceledWarnings = [], c_sessionCtx = None,
             c_sessionCancel = None, c_sessions = 0, c_canceledSessions = [], c_sessionGeneration = 0,
             c_events = [], c_terminalCallback = None, c_terminalWake = False, c_callbackEpoch = 0,
             c_callbackDrops = 0, c_callbackDropLog = 0, c_idCounter = initialMessageIDCounter seed\<rparr>))"

section \<open>Sessions and tokens\<close>

definition cancel_session :: "nat option \<Rightarrow> client \<Rightarrow> client" where
  "cancel_session s c = (case s of None \<Rightarrow> c | Some i \<Rightarrow> c\<lparr>c_canceledSessions := i # c_canceledSessions c\<rparr>)"

definition startSessionLocked :: "client \<Rightarrow> (nat \<times> uint64) \<times> client" where
  "startSessionLocked c =
     (let c1 = cancel_session (c_sessionCancel c) c;
          g = c_sessionGeneration c1 + 1;
          ctx = c_sessions c1
      in ((ctx, g), c1\<lparr>c_sessionGeneration := g, c_sessions := Suc ctx, c_sessionCtx := Some ctx,
                       c_sessionCancel := Some ctx\<rparr>))"

definition cancelSessionLocked :: "client \<Rightarrow> client" where
  "cancelSessionLocked c =
     (cancel_session (c_sessionCancel c) c)\<lparr>c_sessionCtx := None, c_sessionCancel := None\<rparr>"

definition sessionIsCurrentLocked :: "uint64 \<Rightarrow> client \<Rightarrow> bool" where
  "sessionIsCurrentLocked g c \<longleftrightarrow> c_sessionCtx c \<noteq> None \<and> c_sessionGeneration c = g"

text \<open>\<open>sessionCtx.Err() != nil\<close> for the session context with a number, a child of the lifetime context.\<close>

definition session_done :: "nat \<Rightarrow> client \<Rightarrow> bool" where
  "session_done s c \<longleftrightarrow> s \<in> set (c_canceledSessions c) \<or> cl_lifetimeDone c"

definition cancelTokenWarning :: "client \<Rightarrow> client" where
  "cancelTokenWarning c =
     (case c_tokenWarningCancel c of None \<Rightarrow> c
      | Some w \<Rightarrow> c\<lparr>c_canceledWarnings := w # c_canceledWarnings c, c_tokenWarningCancel := None\<rparr>)"

definition applyProvisionLocked :: "provisionState \<Rightarrow> client \<Rightarrow> client" where
  "applyProvisionLocked st c =
     (let c1 = c\<lparr>c_sessionID := ps_sessionID st\<rparr>
      in if ps_token st = [] then c1
         else (cancelTokenWarning c1)\<lparr>c_token := ps_token st, c_tokenExpiresAt := ps_expiresAt st\<rparr>)"

definition UpdateToken :: "string \<Rightarrow> client \<Rightarrow> go_error + client" where
  "UpdateToken token c =
     (if trimSpace token = [] then Inl (fmt_error ''token is empty'')
      else Inr (cancelTokenWarning (c\<lparr>c_token := token, c_tokenExpiresAt := None\<rparr>)))"

definition TokenExpiresAt :: "client \<Rightarrow> int option" where
  "TokenExpiresAt c = c_tokenExpiresAt c"

text \<open>
  \<open>scheduleTokenExpiryWarning\<close> up to the start of its goroutine: the number of the warning context, when a
  warning is scheduled.
\<close>

definition scheduleTokenExpiryWarning :: "uint64 \<Rightarrow> int option \<Rightarrow> client \<Rightarrow> nat option \<times> client" where
  "scheduleTokenExpiryWarning g expiresAt c =
     (if expiresAt = None \<or> \<not> cb_tokenWillExpire (c_callbacks c) then (None, c)
      else
        let w = c_warnings c;
            c1 = c\<lparr>c_warnings := Suc w\<rparr>
        in if \<not> sessionIsCurrentLocked g c1
           then (None, c1\<lparr>c_canceledWarnings := w # c_canceledWarnings c1\<rparr>)
           else (Some w, (cancelTokenWarning c1)\<lparr>c_tokenWarningCancel := Some w\<rparr>))"

section \<open>Callbacks\<close>

definition publishTerminalCallbackLocked :: "string \<Rightarrow> go_error option \<Rightarrow> callbacks \<Rightarrow> client \<Rightarrow> bool \<times> client" where
  "publishTerminalCallbackLocked userID err cbs c =
     (if c_closed c \<or> c_terminalCallback c \<noteq> None then (False, c)
      else
        let event = \<lparr>te_userID = userID, te_err = err,
                      te_tokenExpired = (errorCode err = Some ErrTokenExpired \<and> cb_tokenExpired cbs),
                      te_disconnect = cb_disconnect cbs, te_connection = cb_connection cbs\<rparr>
        in if \<not> te_tokenExpired event \<and> \<not> te_disconnect event \<and> \<not> te_connection event then (False, c)
           else (True, c\<lparr>c_terminalCallback := Some event\<rparr>))"

definition signalTerminalCallback :: "client \<Rightarrow> client" where
  "signalTerminalCallback c = c\<lparr>c_terminalWake := True\<rparr>"

definition terminalCallbackPending :: "client \<Rightarrow> bool" where
  "terminalCallbackPending c \<longleftrightarrow> c_terminalCallback c \<noteq> None"

definition claimTerminalCallback :: "client \<Rightarrow> terminalCallbackEvent option \<times> client" where
  "claimTerminalCallback c =
     (case c_terminalCallback c of None \<Rightarrow> (None, c)
      | Some event \<Rightarrow>
          (Some event, c\<lparr>c_events := [], c_terminalCallback := None,
             c_callbackDrops := c_callbackDrops c + of_nat (length (c_events c))\<rparr>))"

text \<open>The rate limit of the warning about dropped events: whether it is logged now.\<close>

definition warnBestEffortCallbackDrop :: "int64 \<Rightarrow> client \<Rightarrow> bool \<times> client" where
  "warnBestEffortCallbackDrop now c =
     (if c_callbackDropLog c \<noteq> 0 \<and> wrap64 (now - c_callbackDropLog c) < 60000000000 then (False, c)
      else (True, c\<lparr>c_callbackDropLog := now\<rparr>))"

definition emitAt :: "uint64 \<Rightarrow> best_effort \<Rightarrow> int64 \<Rightarrow> client \<Rightarrow> client" where
  "emitAt epoch fn now c =
     (if cl_lifetimeDone c \<or> c_closed c then c
      else if c_terminalCallback c \<noteq> None \<or> c_callbackEpoch c \<noteq> epoch
      then c\<lparr>c_callbackDrops := c_callbackDrops c + 1\<rparr>
      else if length (c_events c) < writeQueueSize then c\<lparr>c_events := c_events c @ [(epoch, fn)]\<rparr>
      else snd (warnBestEffortCallbackDrop now (c\<lparr>c_callbackDrops := c_callbackDrops c + 1\<rparr>)))"

text \<open>A queued function when the dispatcher runs it: the calls it makes.\<close>

definition run_event_fn :: "uint64 \<times> best_effort \<Rightarrow> client \<Rightarrow> notification list \<times> client" where
  "run_event_fn ev c =
     (if c_callbackEpoch c = fst ev
      then (case snd ev of
              BEConnection userID st \<Rightarrow> ([NConnection userID st], c)
            | BETokenWarning g userID expiresAt \<Rightarrow>
                (if sessionIsCurrentLocked g c \<and> c_tokenExpiresAt c = Some expiresAt
                 then [NTokenWillExpire userID expiresAt] else [], c))
      else ([], c\<lparr>c_callbackDrops := c_callbackDrops c + 1\<rparr>))"

definition setStates :: "LoginState \<Rightarrow> ConnState \<Rightarrow> int64 \<Rightarrow> client \<Rightarrow> client" where
  "setStates login conn now c =
     (let changed = (c_connState c \<noteq> conn);
          c1 = c\<lparr>c_state := login, c_connState := conn\<rparr>
      in if changed \<and> cb_connection (c_callbacks c) then emitAt (c_callbackEpoch c1) (BEConnection (c_userID c1) conn) now c1
         else c1)"

section \<open>Lifecycle ownership\<close>

datatype begin_result = BeginErr go_error | BeginGranted nat | BeginWait nat

definition beginConnect_round :: "string \<Rightarrow> client \<Rightarrow> begin_result \<times> client" where
  "beginConnect_round operation c =
     (if c_closed c then (BeginErr (newError ErrClientClosed operation []), c)
      else case c_connectDone c of
             None \<Rightarrow> (BeginGranted (c_chans c), c\<lparr>c_connectDone := Some (c_chans c), c_chans := Suc (c_chans c)\<rparr>)
           | Some done \<Rightarrow> (BeginWait done, c))"

text \<open>\<open>None\<close> is the panic of an operation that does not own the lifecycle.\<close>

definition endConnect :: "nat \<Rightarrow> client \<Rightarrow> client option" where
  "endConnect done c =
     (if c_connectDone c \<noteq> Some done then None
      else Some (c\<lparr>c_connectDone := None, c_closedChans := done # c_closedChans c\<rparr>))"

section \<open>Login\<close>

definition Login_check :: "string \<Rightarrow> string \<Rightarrow> go_error option" where
  "Login_check userID token =
     (if trimSpace userID = [] then Some (newError ErrNotLoggedIn ''login'' ''user ID is empty'')
      else if trimSpace token = [] then Some (newError ErrNotLoggedIn ''login'' ''token is empty'')
      else None)"

definition Login_admit :: "string \<Rightarrow> string \<Rightarrow> client \<Rightarrow> (go_error + uint64) \<times> client" where
  "Login_admit userID token c =
     (if c_closed c then (Inl (newError ErrClientClosed ''login'' []), c)
      else if c_terminalCallback c \<noteq> None
      then (Inl (newError ErrCallbackBacklog ''login'' ''terminal callback has not been dispatched''), c)
      else if c_state c \<noteq> LoginStateLogout
      then (Inl (newError ErrAlreadyLoggedIn ''login'' ''client is already active''), c)
      else (Inr (c_callbackEpoch c),
            c\<lparr>c_state := LoginStateLoggingIn, c_connState := ConnStateConnecting, c_userID := userID,
              c_token := token, cl_lastErr := None, c_tokenExpiresAt := None, c_backoffAttempt := 0\<rparr>))"

text \<open>
  The install of the run at address \<open>r\<close> with its endpoint and provision; the session context, its
  generation and the callback epoch are what the code reads before it unlocks.  \<open>None\<close> when the client was
  closed in between.
\<close>

definition Login_install ::
  "nat \<Rightarrow> string \<Rightarrow> provisionState \<Rightarrow> int \<Rightarrow> dnsResolution \<Rightarrow> int64 \<Rightarrow> client
     \<Rightarrow> ((nat \<times> uint64 \<times> uint64) \<times> client) option" where
  "Login_install r endpoint prov usedIndex resolved now c =
     (if c_closed c then None
      else
        let c1 = applyProvisionLocked prov c;
            ((ctx, g), c2) = startSessionLocked c1;
            hosts = le_WSS (dr_Endpoints resolved)
        in Some ((ctx, g, c_callbackEpoch c2),
             c2\<lparr>c_run := Some r, c_state := LoginStateLoggedIn, c_connState := ConnStateConnected,
                c_msyncHost := endpoint, c_msyncHosts := hosts,
                c_msyncCursor := nextCandidateCursor usedIndex (length hosts),
                c_dnsGeneration := dr_Generation resolved, c_restBase := le_REST (dr_Endpoints resolved),
                c_lastStableConnect := now\<rparr>))"

section \<open>The end of a session\<close>

text \<open>The fields that every path to \<open>LoginStateLogout\<close> clears.\<close>

definition clear_session :: "client \<Rightarrow> client" where
  "clear_session c =
     c\<lparr>c_run := None, c_state := LoginStateLogout, c_connState := ConnStateDisconnected, c_sessionID := [],
       c_userID := [], c_token := [], c_msyncHost := [], c_msyncHosts := [], c_msyncCursor := 0,
       c_dnsGeneration := 0, c_restBase := [], c_tokenExpiresAt := None\<rparr>"

definition recordTerminalForRunSession ::
  "nat option \<Rightarrow> uint64 \<Rightarrow> bool \<Rightarrow> go_error option \<Rightarrow> client \<Rightarrow> bool \<times> client" where
  "recordTerminalForRunSession expected g requireSession err c =
     (if c_closed c \<or> (expected \<noteq> None \<and> c_run c \<noteq> expected) \<or> (requireSession \<and> \<not> sessionIsCurrentLocked g c)
      then (False, c)
      else
        let userID = c_userID c;
            c1 = cancelTokenWarning (cancelSessionLocked (clear_session (c\<lparr>cl_lastErr := err\<rparr>)));
            c2 = c1\<lparr>c_callbackEpoch := c_callbackEpoch c1 + 1\<rparr>
        in publishTerminalCallbackLocked userID err (c_callbacks c2) c2)"

definition recordTerminal :: "go_error option \<Rightarrow> client \<Rightarrow> bool \<times> client" where
  "recordTerminal err c = recordTerminalForRunSession None 0 False err c"

definition recordTerminalForRun :: "nat option \<Rightarrow> go_error option \<Rightarrow> client \<Rightarrow> bool \<times> client" where
  "recordTerminalForRun expected err c = recordTerminalForRunSession expected 0 False err c"

definition recordTerminalForSession :: "nat option \<Rightarrow> uint64 \<Rightarrow> go_error option \<Rightarrow> client \<Rightarrow> bool \<times> client" where
  "recordTerminalForSession expected g err c = recordTerminalForRunSession expected g True err c"

text \<open>The body of \<open>closeOnce\<close> in \<open>Close\<close>; the flag of the once is \<open>closed\<close>, which nothing else sets.\<close>

definition Close_begin :: "client \<Rightarrow> nat option \<times> client" where
  "Close_begin c =
     (c_run c,
      clear_session (cancelTokenWarning (cancelSessionLocked (c\<lparr>c_closed := True, cl_lifetimeDone := True\<rparr>))))"

definition detachCanceledSessionForLogout :: "uint64 \<Rightarrow> client \<Rightarrow> (uint64 \<times> best_effort) option \<times> client" where
  "detachCanceledSessionForLogout g c =
     (if g = 0 \<or> c_sessionGeneration c \<noteq> g \<or> c_sessionCtx c \<noteq> None \<or> c_state c \<noteq> LoginStateReconnecting
      then (None, c)
      else
        let changed = (c_connState c \<noteq> ConnStateDisconnected);
            userID = c_userID c;
            c1 = cancelTokenWarning (clear_session c);
            c2 = c1\<lparr>c_callbackEpoch := c_callbackEpoch c1 + 1\<rparr>
        in (if changed \<and> cb_connection (c_callbacks c2)
            then Some (c_callbackEpoch c2, BEConnection userID ConnStateDisconnected) else None, c2))"

text \<open>
  One round of \<open>beginLogout\<close> under the lock: its answer, the generation of the reconnect session it has
  cancelled so far, and the client.
\<close>

definition beginLogout_round ::
  "uint64 option \<Rightarrow> client \<Rightarrow> begin_result \<times> uint64 option \<times> client" where
  "beginLogout_round canceled c =
     (if c_closed c then (BeginErr (newError ErrClientClosed ''logout'' []), canceled, c)
      else case c_connectDone c of
             None \<Rightarrow>
               let c1 = (if c_sessionCtx c \<noteq> None then cancelSessionLocked c else c)
               in (BeginGranted (c_chans c1), canceled,
                   c1\<lparr>c_connectDone := Some (c_chans c1), c_chans := Suc (c_chans c1)\<rparr>)
           | Some done \<Rightarrow>
               if c_state c = LoginStateReconnecting \<and> c_sessionCtx c \<noteq> None
               then (BeginWait done, Some (c_sessionGeneration c), cancelSessionLocked c)
               else (BeginWait done, canceled, c))"

text \<open>The critical section of \<open>Logout\<close>: the run, the session id and the notification to give at the end.\<close>

definition Logout_detach ::
  "client \<Rightarrow> (go_error + nat option \<times> string \<times> (uint64 \<times> best_effort) option) \<times> client" where
  "Logout_detach c =
     (if c_closed c then (Inl (newError ErrClientClosed ''logout'' []), c)
      else
        let wasConnected = (c_connState c \<noteq> ConnStateDisconnected);
            userID = c_userID c;
            c1 = cancelTokenWarning (clear_session c);
            c2 = c1\<lparr>c_callbackEpoch := c_callbackEpoch c1 + 1\<rparr>
        in (Inr (c_run c, c_sessionID c,
               if wasConnected \<and> cb_connection (c_callbacks c2)
               then Some (c_callbackEpoch c2, BEConnection userID ConnStateDisconnected) else None), c2))"

text \<open>
  How \<open>Logout\<close> picks its error after the run was detached: the frame is encoded and sent, then the answer
  of the server, the end of the context or the timeout is awaited; an answer that is already there wins over
  a closed stream.
\<close>

datatype logout_wait = LogoutAnswer "go_error option" | LogoutCtxDone go_error | LogoutTimeout

definition Logout_result :: "go_error option \<Rightarrow> logout_wait \<Rightarrow> go_error option list \<Rightarrow> go_error option" where
  "Logout_result sendErr wait buffered =
     (let err = (case sendErr of Some e \<Rightarrow> Some e
                 | None \<Rightarrow> (case wait of LogoutAnswer a \<Rightarrow> a | LogoutCtxDone e \<Rightarrow> Some e
                            | LogoutTimeout \<Rightarrow> Some (newError ErrTimeout ''logout'' [])))
      in if errorCode err = Some ErrStreamClosed then (case buffered of a # rest \<Rightarrow> a | [] \<Rightarrow> err) else err)"

definition drainBatchJobs :: "client \<Rightarrow> client" where
  "drainBatchJobs c =
     (fold (\<lambda>job c. case bj_reservation job of None \<Rightarrow> c
             | Some res \<Rightarrow>
                 (case reservation_Release (Some res) (cl_batchBudget c) (processBatchBudget c) of
                    (err, res', cb, pb) \<Rightarrow> c\<lparr>cl_batchBudget := cb, processBatchBudget := pb\<rparr>))
        (cl_batches c) c)\<lparr>cl_batches := []\<rparr>"

section \<open>DNS flights\<close>

text \<open>
  \<open>trackDNSFlight\<close>: \<open>closed0\<close> is what the poll before the lock sees of the channels, \<open>closed1\<close> what the polls
  under the lock see.
\<close>

definition trackDNSFlight :: "(nat \<Rightarrow> bool) \<Rightarrow> (nat \<Rightarrow> bool) \<Rightarrow> nat option \<Rightarrow> client \<Rightarrow> client" where
  "trackDNSFlight closed0 closed1 done c =
     (case done of None \<Rightarrow> c
      | Some d \<Rightarrow>
          if closed0 d then c
          else
            let c1 = c\<lparr>c_pendingDNSFlights := filter (\<lambda>p. \<not> closed1 p) (c_pendingDNSFlights c)\<rparr>
            in if closed1 d then c1
               else if d \<in> set (c_pendingDNSFlights c1) then c1
               else c1\<lparr>c_pendingDNSFlights := d # c_pendingDNSFlights c1\<rparr>)"

text \<open>\<open>waitPendingDNSFlights\<close> forgets the flights of its snapshot once they are settled.\<close>

definition forgetFlights :: "nat list \<Rightarrow> client \<Rightarrow> client" where
  "forgetFlights pending c =
     c\<lparr>c_pendingDNSFlights := filter (\<lambda>p. p \<notin> set pending) (c_pendingDNSFlights c)\<rparr>"

section \<open>Reconnect\<close>

text \<open>The local variables of \<open>reconnect\<close>.\<close>

record reconnection =
  rc_old :: nat
  rc_session :: nat
  rc_gen :: uint64
  rc_userID :: string
  rc_effective :: string
  rc_hosts :: "string list"
  rc_cursor :: nat
  rc_dnsGeneration :: uint64
  rc_round :: endpointRound
  rc_endpoint :: string
  rc_index :: int
  rc_needRefresh :: bool

text \<open>The first critical section: the variables, the error of the old run, and the notification.\<close>

definition reconnect_begin ::
  "nat \<Rightarrow> client \<Rightarrow> ((reconnection \<times> go_error option \<times> (uint64 \<times> best_effort) option) \<times> client) option" where
  "reconnect_begin old c =
     (case c_sessionCtx c of None \<Rightarrow> None
      | Some s \<Rightarrow>
          if c_closed c \<or> c_run c \<noteq> Some old \<or> c_state c = LoginStateLogout then None
          else
            let changed = (c_connState c \<noteq> ConnStateReconnecting)
            in Some ((\<lparr>rc_old = old, rc_session = s, rc_gen = c_sessionGeneration c, rc_userID = c_userID c,
                       rc_effective = c_msyncHost c, rc_hosts = c_msyncHosts c, rc_cursor = c_msyncCursor c,
                       rc_dnsGeneration = c_dnsGeneration c,
                       rc_round = newEndpointRound (c_msyncHosts c) (int (c_msyncCursor c)),
                       rc_endpoint = c_msyncHost c, rc_index = -1, rc_needRefresh = False\<rparr>,
                      cl_lastErr c,
                      if changed \<and> cb_connection (c_callbacks c)
                      then Some (c_callbackEpoch c, BEConnection (c_userID c) ConnStateReconnecting) else None),
                     c\<lparr>c_state := LoginStateReconnecting, c_connState := ConnStateReconnecting\<rparr>))"

text \<open>\<open>endpoint, endpointIndex, ok = round.nextEndpoint()\<close>; \<open>needRefresh = !ok\<close>.\<close>

definition reconnect_rotate :: "reconnection \<Rightarrow> reconnection" where
  "reconnect_rotate rc =
     (case nextEndpoint (rc_round rc) of
        (Some (e, i), rnd) \<Rightarrow> rc\<lparr>rc_round := rnd, rc_endpoint := e, rc_index := int i, rc_needRefresh := False\<rparr>
      | (None, rnd) \<Rightarrow> rc\<lparr>rc_round := rnd, rc_endpoint := [], rc_index := 0, rc_needRefresh := True\<rparr>)"

text \<open>The choice of the first endpoint from the error that ended the old run.\<close>

definition reconnect_plan :: "url_lib \<Rightarrow> string \<Rightarrow> go_error option \<Rightarrow> reconnection \<Rightarrow> go_error + reconnection" where
  "reconnect_plan lib oldEndpoint lastErr rc =
     (case Option.bind lastErr (errors_As is_redirect) of
        Some (RedirectErr infos) \<Rightarrow>
          (case redirectURL lib oldEndpoint infos of Inl err \<Rightarrow> Inl err | Inr next \<Rightarrow> Inr (rc\<lparr>rc_endpoint := next\<rparr>))
      | _ \<Rightarrow> if shouldRotateEndpoint lastErr then Inr (reconnect_rotate rc) else Inr rc)"

abbreviation (input) reconnectStableWindow :: int64 where "reconnectStableWindow \<equiv> 300000000000"

definition reconnect_backoff :: "int64 \<Rightarrow> client \<Rightarrow> client" where
  "reconnect_backoff now c =
     (if c_lastStableConnect c = 0 \<or> now - c_lastStableConnect c > reconnectStableWindow
      then c\<lparr>c_backoffAttempt := 0\<rparr> else c)"

definition reconnect_current :: "reconnection \<Rightarrow> client \<Rightarrow> bool" where
  "reconnect_current rc c \<longleftrightarrow>
     c_run c = Some (rc_old rc) \<and> c_state c = LoginStateReconnecting \<and> sessionIsCurrentLocked (rc_gen rc) c"

text \<open>A new list of candidates: the variables and the fields of the client.\<close>

definition reconnect_refreshed :: "dnsResolution \<Rightarrow> reconnection \<Rightarrow> reconnection" where
  "reconnect_refreshed resolved rc =
     (let hosts = le_WSS (dr_Endpoints resolved)
      in (reconnect_rotate (rc\<lparr>rc_hosts := hosts, rc_dnsGeneration := dr_Generation resolved, rc_cursor := 0,
                              rc_round := newEndpointRound hosts 0\<rparr>))\<lparr>rc_needRefresh := False\<rparr>)"

definition reconnect_store :: "dnsResolution \<Rightarrow> reconnection \<Rightarrow> client \<Rightarrow> client" where
  "reconnect_store resolved rc c =
     (if c_run c = Some (rc_old rc) \<and> c_state c = LoginStateReconnecting
      then c\<lparr>c_msyncHosts := rc_hosts rc, c_msyncCursor := rc_cursor rc, c_dnsGeneration := rc_dnsGeneration rc,
             c_restBase := le_REST (dr_Endpoints resolved)\<rparr>
      else c)"

text \<open>The next endpoint after an attempt has failed with an error that is not terminal.\<close>

definition reconnect_failed :: "go_error \<Rightarrow> reconnection \<Rightarrow> reconnection" where
  "reconnect_failed err rc =
     (if shouldRotateEndpoint (Some err) then reconnect_rotate rc
      else rc\<lparr>rc_endpoint := rc_effective rc, rc_index := -1\<rparr>)"

text \<open>The install of a reconnected run, or \<open>None\<close> when the attempt was superseded.\<close>

definition reconnect_install ::
  "nat \<Rightarrow> string \<Rightarrow> provisionState \<Rightarrow> int64 \<Rightarrow> reconnection \<Rightarrow> client \<Rightarrow> (uint64 \<times> client) option" where
  "reconnect_install r endpoint prov now rc c =
     (if c_closed c \<or> c_run c \<noteq> Some (rc_old rc) \<or> c_state c \<noteq> LoginStateReconnecting
         \<or> \<not> sessionIsCurrentLocked (rc_gen rc) c \<or> session_done (rc_session rc) c
      then None
      else
        let c1 = applyProvisionLocked prov c;
            cursor = (if rc_index rc \<ge> 0 then nextCandidateCursor (rc_index rc) (length (rc_hosts rc)) else rc_cursor rc)
        in Some (c_callbackEpoch c1,
             c1\<lparr>c_run := Some r, c_state := LoginStateLoggedIn, c_connState := ConnStateConnected,
                c_msyncHost := endpoint, c_msyncHosts := rc_hosts rc, c_msyncCursor := cursor,
                c_dnsGeneration := rc_dnsGeneration rc, c_lastStableConnect := now\<rparr>))"

end
