(* ===== verification/Client_System.thy ===== *)
theory Client_System
  imports Client_State
begin

text \<open>
  The goroutines of a Client as threads that interleave their critical sections: callers of \<open>Login\<close>,
  \<open>Logout\<close> and \<open>Close\<close>, the monitors of runs, the reconnect loops, the timers of token warnings, the
  finalizer of \<open>Close\<close> and the dispatcher of callbacks.  A thread is the rest of its program; the
  constructors with a continuation are the calls that end with one effect on the shared state.

  The environment decides when contexts of callers end, what DNS lookups and dials return and after how
  long, when timers fire and when a run fails.
\<close>

section \<open>Threads\<close>

text \<open>
  The operations that wait for lifecycle ownership.  A logout remembers the generation of the reconnect
  session it has cancelled while waiting.
\<close>

datatype op = OpLogin string string | OpRecon reconnection nat | OpLogout "uint64 option"

datatype thread =
    Finished
  | Panicked
  | Emit uint64 best_effort thread
  | Signal thread
  | Track "nat option" thread
  | Warn nat uint64 "int option" thread
  | Spawn thread thread
  | Discard nat go_error thread
  | Release nat thread
  | Begin op
  | Blocked op nat
  | Own op nat
  | LoginResolve string nat
  | LoginDial string nat dnsResolution
  | LoginFailed string nat go_error
  | LoginDialled string nat nat int dnsResolution
  | Monitor nat
  | MonitorTerminal nat "go_error option"
  | ReconStart nat
  | ReconPlan reconnection "go_error option"
  | ReconTerminal reconnection go_error thread
  | ReconLoop reconnection nat
  | ReconTimer reconnection nat
  | ReconResolve reconnection nat nat
  | ReconResolveFailed reconnection nat nat go_error
  | ReconStore reconnection nat nat dnsResolution
  | ReconDial reconnection nat nat
  | ReconDialFailed reconnection nat nat go_error
  | ReconDialled reconnection nat nat nat
  | WarnTimer nat nat uint64 string int
  | CloseRead
  | CloseWait nat
  | CloseFlights
  | CloseAwait "nat list"
  | CloseDrain
  | CloseCodec
  | DispClaim bool
  | DispSelect bool
  | DispRun bool "uint64 \<times> best_effort"

definition emit_opt :: "(uint64 \<times> best_effort) option \<Rightarrow> thread \<Rightarrow> thread" where
  "emit_opt ev T = (case ev of None \<Rightarrow> T | Some (epoch, fn) \<Rightarrow> Emit epoch fn T)"

definition signal_if :: "bool \<Rightarrow> thread \<Rightarrow> thread" where
  "signal_if published T = (if published then Signal T else T)"

definition connection_event :: "client \<Rightarrow> uint64 \<Rightarrow> string \<Rightarrow> ConnState \<Rightarrow> (uint64 \<times> best_effort) option" where
  "connection_event c epoch userID st =
     (if cb_connection (c_callbacks c) then Some (epoch, BEConnection userID st) else None)"

text \<open>What \<open>Login\<close> and \<open>reconnect\<close> do after they have installed a run.\<close>

definition installed :: "nat \<Rightarrow> uint64 \<Rightarrow> uint64 \<Rightarrow> string \<Rightarrow> nat \<Rightarrow> nat \<Rightarrow> client \<Rightarrow> thread" where
  "installed ctx g epoch userID r ch c =
     Warn ctx g (c_tokenExpiresAt c)
       (emit_opt (connection_event c epoch userID ConnStateConnected) (Spawn (Monitor r) (Release ch Finished)))"

section \<open>Runs\<close>

text \<open>What the lifecycle knows of a run; \<open>ro_done\<close> is the closed channel \<open>done\<close>.\<close>

record run_obj =
  ro_endpoint :: string
  ro_accepted :: provisionState
  ro_done :: bool

text \<open>\<open>fail\<close> as the Client sees it, also the first part of \<open>shutdown\<close>.\<close>

definition fail_run :: "nat \<Rightarrow> go_error option \<Rightarrow> client \<times> run_obj list \<Rightarrow> client \<times> run_obj list" where
  "fail_run r err cs =
     (let (c, rs) = cs
      in if r < length rs \<and> \<not> ro_done (rs ! r)
         then (c\<lparr>cl_lastErr := classifyNetworkError ''connection'' err\<rparr>, rs[r := (rs ! r)\<lparr>ro_done := True\<rparr>])
         else cs)"

section \<open>Steps of a thread\<close>

text \<open>Deliveries to the application, with the callback epoch at that moment.\<close>

datatype delivery = DTerminal uint64 terminalCallbackEvent | DEvent uint64 best_effort "notification list"

inductive tstep ::
  "url_lib \<Rightarrow> nat list \<Rightarrow> client \<times> run_obj list \<Rightarrow> thread \<Rightarrow> client \<times> run_obj list \<Rightarrow> thread \<Rightarrow> thread list
     \<Rightarrow> delivery list \<Rightarrow> bool"
  for lib :: url_lib and settled :: "nat list" where
  ts_emit: "tstep lib settled (c, rs) (Emit epoch fn T) (emitAt epoch fn now c, rs) T [] []"
| ts_signal: "tstep lib settled (c, rs) (Signal T) (signalTerminalCallback c, rs) T [] []"
| ts_track: "(\<And>d. closed0 d \<Longrightarrow> d \<in> set settled) \<Longrightarrow>
    tstep lib settled (c, rs) (Track fl T) (trackDNSFlight closed0 (\<lambda>d. d \<in> set settled) fl c, rs) T [] []"
| ts_warn: "scheduleTokenExpiryWarning g ex c = (None, c') \<Longrightarrow>
    tstep lib settled (c, rs) (Warn ctx g ex T) (c', rs) T [] []"
| ts_warn_timer: "scheduleTokenExpiryWarning g (Some ex) c = (Some w, c') \<Longrightarrow>
    tstep lib settled (c, rs) (Warn ctx g (Some ex) T) (c', rs) T [WarnTimer w ctx g (c_userID c) ex] []"
| ts_spawn: "tstep lib settled (c, rs) (Spawn A T) (c, rs) T [A] []"
| ts_discard: "tstep lib settled (c, rs) (Discard r err T) (fail_run r (Some err) (c, rs)) T [] []"
| ts_release: "endConnect ch c = Some c' \<Longrightarrow> tstep lib settled (c, rs) (Release ch T) (c', rs) T [] []"
| ts_panic: "endConnect ch c = None \<Longrightarrow> tstep lib settled (c, rs) (Release ch T) (c, rs) Panicked [] []"

\<comment> \<open>\<open>beginConnect\<close> and \<open>beginLogout\<close>\<close>
| ts_begin_login_ctx: "tstep lib settled (c, rs) (Begin (OpLogin u t)) (c, rs) Finished [] []"
| ts_begin_recon_ctx: "session_done (rc_session rc) c \<Longrightarrow>
    tstep lib settled (c, rs) (Begin (OpRecon rc n)) (c, rs) Finished [] []"
| ts_begin_login: "beginConnect_round ''login'' c = (BeginGranted ch, c') \<Longrightarrow>
    tstep lib settled (c, rs) (Begin (OpLogin u t)) (c', rs) (Own (OpLogin u t) ch) [] []"
| ts_begin_login_wait: "beginConnect_round ''login'' c = (BeginWait ch, c') \<Longrightarrow>
    tstep lib settled (c, rs) (Begin (OpLogin u t)) (c', rs) (Blocked (OpLogin u t) ch) [] []"
| ts_begin_recon: "beginConnect_round ''reconnect'' c = (BeginGranted ch, c') \<Longrightarrow>
    tstep lib settled (c, rs) (Begin (OpRecon rc n)) (c', rs) (Own (OpRecon rc n) ch) [] []"
| ts_begin_recon_wait: "beginConnect_round ''reconnect'' c = (BeginWait ch, c') \<Longrightarrow>
    tstep lib settled (c, rs) (Begin (OpRecon rc n)) (c', rs) (Blocked (OpRecon rc n) ch) [] []"
| ts_begin_recon_err: "beginConnect_round ''reconnect'' c = (BeginErr e, c') \<Longrightarrow>
    tstep lib settled (c, rs) (Begin (OpRecon rc n)) (c', rs) Finished [] []"
| ts_begin_logout: "beginLogout_round cg c = (BeginGranted ch, cg', c') \<Longrightarrow>
    tstep lib settled (c, rs) (Begin (OpLogout cg)) (c', rs) (Own (OpLogout cg') ch) [] []"
| ts_begin_logout_wait: "beginLogout_round cg c = (BeginWait ch, cg', c') \<Longrightarrow>
    tstep lib settled (c, rs) (Begin (OpLogout cg)) (c', rs) (Blocked (OpLogout cg') ch) [] []"
| ts_begin_logout_err: "beginLogout_round cg c = (BeginErr e, cg', c') \<Longrightarrow>
    tstep lib settled (c, rs) (Begin (OpLogout cg)) (c', rs) Finished [] []"
| ts_logout_ctx: "T \<in> {Begin (OpLogout None), Blocked (OpLogout None) ch} \<Longrightarrow>
    tstep lib settled (c, rs) T (c, rs) Finished [] []"
| ts_logout_detach: "T \<in> {Begin (OpLogout (Some g)), Blocked (OpLogout (Some g)) ch} \<Longrightarrow>
    detachCanceledSessionForLogout g c = (ev, c') \<Longrightarrow>
    tstep lib settled (c, rs) T (c', rs) (emit_opt ev Finished) [] []"
| ts_wake: "ch \<in> set (c_closedChans c) \<Longrightarrow> tstep lib settled (c, rs) (Blocked op ch) (c, rs) (Begin op) [] []"
| ts_blocked_login_ctx: "tstep lib settled (c, rs) (Blocked (OpLogin u t) ch) (c, rs) Finished [] []"
| ts_blocked_recon_ctx: "session_done (rc_session rc) c \<Longrightarrow>
    tstep lib settled (c, rs) (Blocked (OpRecon rc n) ch) (c, rs) Finished [] []"

\<comment> \<open>\<open>Login\<close>\<close>
| ts_login_refused: "Login_admit u t c = (Inl e, c') \<Longrightarrow>
    tstep lib settled (c, rs) (Own (OpLogin u t) ch) (c', rs) (Release ch Finished) [] []"
| ts_login_admitted: "Login_admit u t c = (Inr epoch, c') \<Longrightarrow>
    tstep lib settled (c, rs) (Own (OpLogin u t) ch) (c', rs)
      (emit_opt (connection_event c epoch u ConnStateConnecting) (LoginResolve u ch)) [] []"
| ts_login_resolved: "tstep lib settled (c, rs) (LoginResolve u ch) (c, rs) (Track fl (LoginDial u ch res)) [] []"
| ts_login_unresolved: "tstep lib settled (c, rs) (LoginResolve u ch) (c, rs) (Track fl (LoginFailed u ch e)) [] []"
| ts_login_dialled: "tstep lib settled (c, rs) (LoginDial u ch res)
      (c, rs @ [\<lparr>ro_endpoint = ep, ro_accepted = prov, ro_done = False\<rparr>]) (LoginDialled u ch (length rs) i res) [] []"
| ts_login_dial_failed: "tstep lib settled (c, rs) (LoginDial u ch res) (c, rs) (LoginFailed u ch e) [] []"
| ts_login_failed: "recordTerminal (Some e) c = (published, c') \<Longrightarrow>
    tstep lib settled (c, rs) (LoginFailed u ch e) (c', rs) (signal_if published (Release ch Finished)) [] []"
| ts_login_closed: "Login_install r (ro_endpoint (rs ! r)) (ro_accepted (rs ! r)) i res now c = None \<Longrightarrow>
    tstep lib settled (c, rs) (LoginDialled u ch r i res) (c, rs)
      (Discard r (newError ErrClientClosed ''login'' ''closed while connecting'') (Release ch Finished)) [] []"
| ts_login_installed: "Login_install r (ro_endpoint (rs ! r)) (ro_accepted (rs ! r)) i res now c = Some ((ctx, g, epoch), c') \<Longrightarrow>
    tstep lib settled (c, rs) (LoginDialled u ch r i res) (c', rs) (installed ctx g epoch u r ch c') [] []"

\<comment> \<open>\<open>monitor\<close>\<close>
| ts_monitor_stale: "ro_done (rs ! r) \<Longrightarrow> c_run c \<noteq> Some r \<or> c_closed c \<Longrightarrow>
    tstep lib settled (c, rs) (Monitor r) (c, rs) Finished [] []"
| ts_monitor_terminal: "ro_done (rs ! r) \<Longrightarrow> c_run c = Some r \<Longrightarrow> \<not> c_closed c \<Longrightarrow>
    isTerminal (cl_lastErr c) \<or> cfg_DisableReconnect (c_cfg c) \<Longrightarrow>
    tstep lib settled (c, rs) (Monitor r) (c, rs) (MonitorTerminal r (cl_lastErr c)) [] []"
| ts_monitor_reconnect: "ro_done (rs ! r) \<Longrightarrow> c_run c = Some r \<Longrightarrow> \<not> c_closed c \<Longrightarrow>
    \<not> isTerminal (cl_lastErr c) \<Longrightarrow> \<not> cfg_DisableReconnect (c_cfg c) \<Longrightarrow>
    tstep lib settled (c, rs) (Monitor r) (c, rs) (ReconStart r) [] []"
| ts_monitor_record: "recordTerminalForRun (Some r) err c = (published, c') \<Longrightarrow>
    tstep lib settled (c, rs) (MonitorTerminal r err) (c', rs) (signal_if published Finished) [] []"

\<comment> \<open>\<open>reconnect\<close>\<close>
| ts_recon_none: "reconnect_begin old c = None \<Longrightarrow>
    tstep lib settled (c, rs) (ReconStart old) (c, rs) Finished [] []"
| ts_recon_begin: "reconnect_begin old c = Some ((rc, lastErr, ev), c') \<Longrightarrow>
    tstep lib settled (c, rs) (ReconStart old) (c', rs) (emit_opt ev (ReconPlan rc lastErr)) [] []"
| ts_recon_plan_err: "reconnect_plan lib (ro_endpoint (rs ! rc_old rc)) lastErr rc = Inl e \<Longrightarrow>
    tstep lib settled (c, rs) (ReconPlan rc lastErr) (c, rs) (ReconTerminal rc e Finished) [] []"
| ts_recon_plan: "reconnect_plan lib (ro_endpoint (rs ! rc_old rc)) lastErr rc = Inr rc' \<Longrightarrow>
    c' = reconnect_backoff now c \<Longrightarrow>
    tstep lib settled (c, rs) (ReconPlan rc lastErr) (c', rs) (ReconLoop rc' (unat (c_backoffAttempt c') + 1)) [] []"
| ts_recon_terminal: "recordTerminalForSession (Some (rc_old rc)) (rc_gen rc) (Some e) c = (published, c') \<Longrightarrow>
    tstep lib settled (c, rs) (ReconTerminal rc e T) (c', rs) (signal_if published T) [] []"
| ts_recon_loop: "reconnect_current rc c \<Longrightarrow> \<not> c_closed c \<Longrightarrow>
    tstep lib settled (c, rs) (ReconLoop rc n) (c\<lparr>c_backoffAttempt := of_nat n\<rparr>, rs) (ReconTimer rc n) [] []"
| ts_recon_loop_end: "\<not> reconnect_current rc c \<or> c_closed c \<Longrightarrow>
    tstep lib settled (c, rs) (ReconLoop rc n) (c\<lparr>c_backoffAttempt := of_nat n\<rparr>, rs) Finished [] []"
| ts_recon_timer_ctx: "session_done (rc_session rc) c \<Longrightarrow>
    tstep lib settled (c, rs) (ReconTimer rc n) (c, rs) Finished [] []"
| ts_recon_timer_end: "\<not> reconnect_current rc c \<or> c_closed c \<Longrightarrow>
    tstep lib settled (c, rs) (ReconTimer rc n) (c, rs) Finished [] []"
| ts_recon_timer: "reconnect_current rc c \<Longrightarrow> \<not> c_closed c \<Longrightarrow>
    tstep lib settled (c, rs) (ReconTimer rc n) (c, rs) (Begin (OpRecon rc n)) [] []"
| ts_recon_stale: "\<not> reconnect_current rc c \<or> c_closed c \<Longrightarrow>
    tstep lib settled (c, rs) (Own (OpRecon rc n) ch) (c, rs) (Release ch Finished) [] []"
| ts_recon_refresh: "reconnect_current rc c \<Longrightarrow> \<not> c_closed c \<Longrightarrow> rc_needRefresh rc \<Longrightarrow>
    tstep lib settled (c, rs) (Own (OpRecon rc n) ch) (c, rs) (ReconResolve rc n ch) [] []"
| ts_recon_dial: "reconnect_current rc c \<Longrightarrow> \<not> c_closed c \<Longrightarrow> \<not> rc_needRefresh rc \<Longrightarrow>
    tstep lib settled (c, rs) (Own (OpRecon rc n) ch) (c, rs) (ReconDial rc n ch) [] []"
| ts_recon_resolved: "tstep lib settled (c, rs) (ReconResolve rc n ch) (c, rs)
      (Track fl (ReconStore (reconnect_refreshed res rc) n ch res)) [] []"
| ts_recon_unresolved: "tstep lib settled (c, rs) (ReconResolve rc n ch) (c, rs) (Track fl (ReconResolveFailed rc n ch e)) [] []"
| ts_recon_unresolved_ctx: "session_done (rc_session rc) c \<Longrightarrow>
    tstep lib settled (c, rs) (ReconResolveFailed rc n ch e) (c, rs) (Release ch Finished) [] []"
| ts_recon_unresolved_retry: "tstep lib settled (c, rs) (ReconResolveFailed rc n ch e) (c\<lparr>cl_lastErr := Some e\<rparr>, rs)
      (if isTerminal (Some e) then ReconTerminal rc e (Release ch Finished) else Release ch (ReconLoop rc (Suc n))) [] []"
| ts_recon_store: "tstep lib settled (c, rs) (ReconStore rc n ch res) (reconnect_store res rc c, rs) (ReconDial rc n ch) [] []"
| ts_recon_dialled: "tstep lib settled (c, rs) (ReconDial rc n ch)
      (c, rs @ [\<lparr>ro_endpoint = ep, ro_accepted = prov, ro_done = False\<rparr>]) (ReconDialled rc n ch (length rs)) [] []"
| ts_recon_dial_failed: "tstep lib settled (c, rs) (ReconDial rc n ch) (c, rs) (ReconDialFailed rc n ch e) [] []"
| ts_recon_failed_ctx: "session_done (rc_session rc) c \<or> c_closed c \<Longrightarrow>
    tstep lib settled (c, rs) (ReconDialFailed rc n ch e) (c, rs) (Release ch Finished) [] []"
| ts_recon_failed_retry: "tstep lib settled (c, rs) (ReconDialFailed rc n ch e) (c\<lparr>cl_lastErr := Some e\<rparr>, rs)
      (if isTerminal (Some e) then ReconTerminal rc e (Release ch Finished)
       else Release ch (ReconLoop (reconnect_failed e rc) (Suc n))) [] []"
| ts_recon_superseded: "reconnect_install r (ro_endpoint (rs ! r)) (ro_accepted (rs ! r)) now rc c = None \<Longrightarrow>
    tstep lib settled (c, rs) (ReconDialled rc n ch r) (c, rs)
      (Discard r (newError ErrClientClosed ''reconnect'' ''superseded'') (Release ch Finished)) [] []"
| ts_recon_installed: "reconnect_install r (ro_endpoint (rs ! r)) (ro_accepted (rs ! r)) now rc c = Some (epoch, c') \<Longrightarrow>
    tstep lib settled (c, rs) (ReconDialled rc n ch r) (c', rs)
      (installed (rc_session rc) (rc_gen rc) epoch (rc_userID rc) r ch c') [] []"

\<comment> \<open>\<open>Logout\<close>: the farewell to the server takes any time before the run is shut down\<close>
| ts_logout_refused: "Logout_detach c = (Inl e, c') \<Longrightarrow>
    tstep lib settled (c, rs) (Own (OpLogout cg) ch) (c', rs) (Release ch Finished) [] []"
| ts_logout_no_run: "Logout_detach c = (Inr (None, sid, ev), c') \<Longrightarrow>
    tstep lib settled (c, rs) (Own (OpLogout cg) ch) (c', rs) (emit_opt ev (Release ch Finished)) [] []"
| ts_logout_run: "Logout_detach c = (Inr (Some r, sid, ev), c') \<Longrightarrow>
    tstep lib settled (c, rs) (Own (OpLogout cg) ch) (c', rs)
      (Discard r (newError ErrStreamClosed ''logout'' ''session ended'') (emit_opt ev (Release ch Finished))) [] []"

\<comment> \<open>the timer of a token warning\<close>
| ts_warning: "tstep lib settled (c, rs) (WarnTimer w s g u ex) (c, rs) (Emit (c_callbackEpoch c) (BETokenWarning g u ex) Finished) [] []"
| ts_warning_cancel: "w \<in> set (c_canceledWarnings c) \<or> session_done s c \<Longrightarrow>
    tstep lib settled (c, rs) (WarnTimer w s g u ex) (c, rs) Finished [] []"

\<comment> \<open>\<open>finalizeClose\<close>\<close>
| ts_close_read: "c_connectDone c = Some ch \<Longrightarrow> tstep lib settled (c, rs) CloseRead (c, rs) (CloseWait ch) [] []"
| ts_close_read_none: "c_connectDone c = None \<Longrightarrow> tstep lib settled (c, rs) CloseRead (c, rs) CloseFlights [] []"
| ts_close_wait: "ch \<in> set (c_closedChans c) \<Longrightarrow> tstep lib settled (c, rs) (CloseWait ch) (c, rs) CloseFlights [] []"
| ts_close_flights: "c_pendingDNSFlights c \<noteq> [] \<Longrightarrow>
    tstep lib settled (c, rs) CloseFlights (c, rs) (CloseAwait (c_pendingDNSFlights c)) [] []"
| ts_close_no_flights: "c_pendingDNSFlights c = [] \<Longrightarrow> tstep lib settled (c, rs) CloseFlights (c, rs) CloseDrain [] []"
| ts_close_await: "set ds \<subseteq> set settled \<Longrightarrow> tstep lib settled (c, rs) (CloseAwait ds) (forgetFlights ds c, rs) CloseFlights [] []"
| ts_close_drain: "tstep lib settled (c, rs) CloseDrain (drainBatchJobs c, rs) CloseCodec [] []"
| ts_close_codec: "tstep lib settled (c, rs) CloseCodec (c\<lparr>c_closeDone := True\<rparr>, rs) Finished [] []"

\<comment> \<open>\<open>dispatchEvents\<close>; the flag tells the loop after the end of the lifetime\<close>
| ts_claim: "claimTerminalCallback c = (Some e, c') \<Longrightarrow>
    tstep lib settled (c, rs) (DispClaim b) (c', rs) (DispClaim b) [] [DTerminal (c_callbackEpoch c) e]"
| ts_claim_none: "claimTerminalCallback c = (None, c') \<Longrightarrow>
    tstep lib settled (c, rs) (DispClaim b) (c', rs) (DispSelect b) [] []"
| ts_disp_wake: "c_terminalWake c \<Longrightarrow>
    tstep lib settled (c, rs) (DispSelect b) (c\<lparr>c_terminalWake := False\<rparr>, rs) (DispClaim b) [] []"
| ts_disp_event: "c_events c = ev # evs \<Longrightarrow>
    tstep lib settled (c, rs) (DispSelect b) (c\<lparr>c_events := evs\<rparr>, rs) (DispRun b ev) [] []"
| ts_disp_lifetime: "cl_lifetimeDone c \<Longrightarrow>
    tstep lib settled (c, rs) (DispSelect False) (c, rs) (DispClaim True) [] []"
| ts_disp_end: "\<not> c_terminalWake c \<Longrightarrow> c_events c = [] \<Longrightarrow>
    tstep lib settled (c, rs) (DispSelect True) (c, rs) Finished [] []"
| ts_disp_run: "run_event_fn ev c = (ns, c') \<Longrightarrow>
    tstep lib settled (c, rs) (DispRun b ev) (c', rs) (DispClaim b) []
      (if ns = [] then [] else [DEvent (c_callbackEpoch c) (snd ev) ns])"

section \<open>The system\<close>

record client_system =
  s_client :: client
  s_runs :: "run_obj list"
  s_threads :: "thread list"
  s_settled :: "nat list"
  s_log :: "delivery list"

inductive client_step :: "url_lib \<Rightarrow> client_system \<Rightarrow> client_system \<Rightarrow> bool" for lib :: url_lib where
  cs_thread: "i < length (s_threads s) \<Longrightarrow>
    tstep lib (s_settled s) (s_client s, s_runs s) (s_threads s ! i) (c', rs') T sp dl \<Longrightarrow>
    client_step lib s (s\<lparr>s_client := c', s_runs := rs', s_threads := (s_threads s)[i := T] @ sp, s_log := s_log s @ dl\<rparr>)"
| cs_login: "Login_check u t = None \<Longrightarrow>
    client_step lib s (s\<lparr>s_threads := s_threads s @ [Begin (OpLogin u t)]\<rparr>)"
| cs_logout: "client_step lib s (s\<lparr>s_threads := s_threads s @ [Begin (OpLogout None)]\<rparr>)"
| cs_close: "\<not> c_closed (s_client s) \<Longrightarrow> Close_begin (s_client s) = (ro, c') \<Longrightarrow>
    client_step lib s (s\<lparr>s_client := c', s_threads := s_threads s @
      [case ro of None \<Rightarrow> CloseRead | Some r \<Rightarrow> Discard r (newError ErrClientClosed ''close'' []) CloseRead]\<rparr>)"
| cs_token: "UpdateToken t (s_client s) = Inr c' \<Longrightarrow> client_step lib s (s\<lparr>s_client := c'\<rparr>)"
| cs_fail: "fail_run r err (s_client s, s_runs s) = (c', rs') \<Longrightarrow>
    client_step lib s (s\<lparr>s_client := c', s_runs := rs'\<rparr>)"
| cs_settle: "client_step lib s (s\<lparr>s_settled := d # s_settled s\<rparr>)"

definition client_start :: "client_system \<Rightarrow> bool" where
  "client_start s \<longleftrightarrow>
     (\<exists>pb pq seed cfg. New pb pq seed cfg = Inr (s_client s))
     \<and> s_runs s = [] \<and> s_threads s = [DispClaim False] \<and> s_settled s = [] \<and> s_log s = []"

text \<open>
  Steps before the 64-bit counters of sessions and callback epochs are used up; each logout or terminal
  error counts one.
\<close>

definition client_move :: "url_lib \<Rightarrow> client_system \<Rightarrow> client_system \<Rightarrow> bool" where
  "client_move lib s t \<longleftrightarrow> client_step lib s t \<and> c_sessionGeneration (s_client s) \<noteq> - 1 \<and> c_callbackEpoch (s_client s) \<noteq> - 1"

end
