(* ===== verification/Client_Sections.thy ===== *)
theory Client_Sections
  imports Client_System
begin

text \<open>
  What each thread of \<open>Client_System\<close> holds (lifecycle ownership, a login in progress, a reconnect loop,
  runs), the invariants of the client record, and that every critical section keeps them.
\<close>

section \<open>What a thread holds\<close>

fun held :: "thread \<Rightarrow> nat option" where
  "held (Emit e f T) = held T"
| "held (Signal T) = held T"
| "held (Track fl T) = held T"
| "held (Warn ctx g ex T) = held T"
| "held (Spawn A T) = held T"
| "held (Discard r err T) = held T"
| "held (ReconTerminal rc err T) = held T"
| "held (Release ch T) = Some ch"
| "held (Own op ch) = Some ch"
| "held (LoginResolve u ch) = Some ch"
| "held (LoginDial u ch res) = Some ch"
| "held (LoginFailed u ch e) = Some ch"
| "held (LoginDialled u ch r i res) = Some ch"
| "held (ReconResolve rc n ch) = Some ch"
| "held (ReconResolveFailed rc n ch e) = Some ch"
| "held (ReconStore rc n ch res) = Some ch"
| "held (ReconDial rc n ch) = Some ch"
| "held (ReconDialFailed rc n ch e) = Some ch"
| "held (ReconDialled rc n ch r) = Some ch"
| "held _ = None"

text \<open>The user of a login between its admission and its outcome.\<close>

fun login_of :: "thread \<Rightarrow> string option" where
  "login_of (Emit e f T) = login_of T"
| "login_of (Track fl T) = login_of T"
| "login_of (LoginResolve u ch) = Some u"
| "login_of (LoginDial u ch res) = Some u"
| "login_of (LoginFailed u ch e) = Some u"
| "login_of (LoginDialled u ch r i res) = Some u"
| "login_of _ = None"

text \<open>The reconnect loop a thread runs.\<close>

fun recon_of :: "thread \<Rightarrow> reconnection option" where
  "recon_of (Emit e f T) = recon_of T"
| "recon_of (Track fl T) = recon_of T"
| "recon_of (Release ch T) = recon_of T"
| "recon_of (Begin (OpRecon rc n)) = Some rc"
| "recon_of (Blocked (OpRecon rc n) ch) = Some rc"
| "recon_of (Own (OpRecon rc n) ch) = Some rc"
| "recon_of (ReconPlan rc e) = Some rc"
| "recon_of (ReconTerminal rc e T) = Some rc"
| "recon_of (ReconLoop rc n) = Some rc"
| "recon_of (ReconTimer rc n) = Some rc"
| "recon_of (ReconResolve rc n ch) = Some rc"
| "recon_of (ReconResolveFailed rc n ch e) = Some rc"
| "recon_of (ReconStore rc n ch res) = Some rc"
| "recon_of (ReconDial rc n ch) = Some rc"
| "recon_of (ReconDialFailed rc n ch e) = Some rc"
| "recon_of (ReconDialled rc n ch r) = Some rc"
| "recon_of _ = None"

text \<open>The run whose end a thread waits for or handles.\<close>

fun watched :: "thread \<Rightarrow> nat option" where
  "watched (Emit e f T) = watched T"
| "watched (Warn ctx g ex T) = watched T"
| "watched (Spawn A T) = watched A"
| "watched (Monitor r) = Some r"
| "watched (MonitorTerminal r e) = Some r"
| "watched (ReconStart r) = Some r"
| "watched _ = None"

text \<open>Runs that only this thread can shut down.\<close>

fun open_runs :: "thread \<Rightarrow> nat list" where
  "open_runs (Discard r err T) = r # open_runs T"
| "open_runs (LoginDialled u ch r i res) = [r]"
| "open_runs (ReconDialled rc n ch r) = [r]"
| "open_runs _ = []"

text \<open>The threads of \<open>finalizeClose\<close>.\<close>

fun closer :: "thread \<Rightarrow> bool" where
  "closer (Discard r err T) = closer T"
| "closer CloseRead = True"
| "closer (CloseWait ch) = True"
| "closer CloseFlights = True"
| "closer (CloseAwait ds) = True"
| "closer CloseDrain = True"
| "closer CloseCodec = True"
| "closer _ = False"

text \<open>The continuations that occur.\<close>

fun wf_thread :: "thread \<Rightarrow> bool" where
  "wf_thread (Emit e f T) \<longleftrightarrow> wf_thread T \<and> open_runs T = [] \<and> (held T \<noteq> None \<or> T = Finished \<or> (\<exists>rc err. T = ReconPlan rc err))"
| "wf_thread (Signal T) \<longleftrightarrow> T = Finished \<or> (\<exists>ch. T = Release ch Finished)"
| "wf_thread (Track fl T) \<longleftrightarrow> wf_thread T \<and> open_runs T = [] \<and> watched T = None \<and> held T \<noteq> None"
| "wf_thread (Warn ctx g ex T) \<longleftrightarrow> wf_thread T \<and> held T \<noteq> None \<and> login_of T = None \<and> recon_of T = None \<and> open_runs T = []"
| "wf_thread (Spawn A T) \<longleftrightarrow> (\<exists>r. A = Monitor r) \<and> (\<exists>ch. T = Release ch Finished)"
| "wf_thread (Discard r err T) \<longleftrightarrow> wf_thread T \<and> open_runs T = [] \<and> login_of T = None \<and> recon_of T = None
     \<and> watched T = None \<and> (held T \<noteq> None \<or> T = CloseRead)"
| "wf_thread (Release ch T) \<longleftrightarrow> T = Finished \<or> (\<exists>rc n. T = ReconLoop rc n)"
| "wf_thread (ReconTerminal rc err T) \<longleftrightarrow> T = Finished \<or> (\<exists>ch. T = Release ch Finished)"
| "wf_thread Panicked \<longleftrightarrow> False"
| "wf_thread _ \<longleftrightarrow> True"

lemma attr_emit_opt [simp]:
  "held (emit_opt ev T) = held T" "login_of (emit_opt ev T) = login_of T" "recon_of (emit_opt ev T) = recon_of T"
  "watched (emit_opt ev T) = watched T" "open_runs (emit_opt ev T) = (if ev = None then open_runs T else [])"
  "closer (emit_opt ev T) = (ev = None \<and> closer T)"
  "wf_thread (emit_opt ev T) = (wf_thread T \<and> (ev = None \<or> open_runs T = [] \<and> (held T \<noteq> None \<or> T = Finished \<or> (\<exists>rc err. T = ReconPlan rc err))))"
  by (auto simp: emit_opt_def split: option.splits)

lemma attr_signal_if [simp]:
  "held (signal_if b T) = held T" "login_of (signal_if b T) = (if b then None else login_of T)"
  "recon_of (signal_if b T) = (if b then None else recon_of T)"
  "watched (signal_if b T) = (if b then None else watched T)" "open_runs (signal_if b T) = (if b then [] else open_runs T)"
  "closer (signal_if b T) = (\<not> b \<and> closer T)"
  "wf_thread (signal_if b T) = (if b then T = Finished \<or> (\<exists>ch. T = Release ch Finished) else wf_thread T)"
  by (auto simp: signal_if_def)

lemma attr_installed [simp]:
  "held (installed ctx g epoch u r ch c) = Some ch" "login_of (installed ctx g epoch u r ch c) = None"
  "recon_of (installed ctx g epoch u r ch c) = None" "watched (installed ctx g epoch u r ch c) = Some r"
  "open_runs (installed ctx g epoch u r ch c) = []" "\<not> closer (installed ctx g epoch u r ch c)"
  "wf_thread (installed ctx g epoch u r ch c)"
  by (auto simp: installed_def)

section \<open>Invariants of the client\<close>

definition logged_out :: "client \<Rightarrow> bool" where
  "logged_out c \<longleftrightarrow> c_run c = None \<and> c_sessionCtx c = None \<and> c_userID c = [] \<and> c_sessionID c = [] \<and> c_msyncHost c = []
     \<and> c_msyncHosts c = [] \<and> c_msyncCursor c = 0 \<and> c_dnsGeneration c = 0 \<and> c_restBase c = []
     \<and> c_tokenExpiresAt c = None \<and> c_tokenWarningCancel c = None"

definition shape_ok :: "client \<Rightarrow> bool" where
  "shape_ok c \<longleftrightarrow>
     (c_state c = LoginStateLogout \<longrightarrow> c_connState c = ConnStateDisconnected \<and> logged_out c)
     \<and> (c_state c = LoginStateLoggingIn \<longrightarrow> c_connState c = ConnStateConnecting \<and> c_run c = None
          \<and> c_sessionCtx c = None \<and> c_tokenWarningCancel c = None)
     \<and> (c_state c = LoginStateLoggedIn \<longrightarrow> c_connState c = ConnStateConnected \<and> c_run c \<noteq> None)
     \<and> (c_state c = LoginStateReconnecting \<longrightarrow> c_connState c = ConnStateReconnecting \<and> c_run c \<noteq> None)
     \<and> (c_closed c \<longrightarrow> c_state c = LoginStateLogout) \<and> cl_lifetimeDone c = c_closed c"

definition session_ok :: "client \<Rightarrow> bool" where
  "session_ok c \<longleftrightarrow>
     c_sessionCancel c = c_sessionCtx c \<and> c_sessionGeneration c = of_nat (c_sessions c) \<and> c_sessions c < 2 ^ 64
     \<and> (\<forall>s. c_sessionCtx c = Some s \<longrightarrow> Suc s = c_sessions c \<and> s \<notin> set (c_canceledSessions c) \<and> c_run c \<noteq> None)
     \<and> set (c_canceledSessions c) = {..<c_sessions c} - set_option (c_sessionCtx c)"

definition chan_ok :: "client \<Rightarrow> bool" where
  "chan_ok c \<longleftrightarrow> set (c_closedChans c) \<subseteq> {..<c_chans c}
     \<and> (\<forall>ch. c_connectDone c = Some ch \<longrightarrow> ch < c_chans c \<and> ch \<notin> set (c_closedChans c))"

lemmas client_ok_defs = shape_ok_def session_ok_def chan_ok_def logged_out_def

lemmas token_defs = cancelTokenWarning_def applyProvisionLocked_def UpdateToken_def scheduleTokenExpiryWarning_def

lemmas session_defs = cancel_session_def startSessionLocked_def cancelSessionLocked_def sessionIsCurrentLocked_def
  session_done_def

lemmas callback_defs = publishTerminalCallbackLocked_def signalTerminalCallback_def claimTerminalCallback_def
  warnBestEffortCallbackDrop_def emitAt_def run_event_fn_def

lemmas section_defs = beginConnect_round_def endConnect_def Login_admit_def Login_install_def clear_session_def
  recordTerminalForRunSession_def recordTerminal_def recordTerminalForRun_def recordTerminalForSession_def
  detachCanceledSessionForLogout_def beginLogout_round_def Logout_detach_def
  trackDNSFlight_def forgetFlights_def reconnect_begin_def reconnect_backoff_def reconnect_current_def
  reconnect_store_def reconnect_install_def fail_run_def

lemmas lifecycle_defs = token_defs session_defs callback_defs section_defs

lemma drain_fold_shape:
  "\<exists>cb pb. fold (\<lambda>job c. case bj_reservation job of None \<Rightarrow> c
      | Some res \<Rightarrow>
          (case reservation_Release (Some res) (cl_batchBudget c) (processBatchBudget c) of
             (err, res', cb, pb) \<Rightarrow> c\<lparr>cl_batchBudget := cb, processBatchBudget := pb\<rparr>)) jobs c
     = (c\<lparr>cl_batchBudget := cb, processBatchBudget := pb\<rparr> :: client)"
proof (induction jobs arbitrary: c)
  case Nil
  have "c = c\<lparr>cl_batchBudget := cl_batchBudget c, processBatchBudget := processBatchBudget c\<rparr>" by simp
  then show ?case by (metis fold_simps(1))
next
  case (Cons job jobs)
  show ?case
  proof (cases "bj_reservation job")
    case None
    then show ?thesis using Cons [of c] by simp
  next
    case (Some res)
    obtain err res' cb pb where "reservation_Release (Some res) (cl_batchBudget c) (processBatchBudget c) = (err, res', cb, pb)"
      by (metis prod_cases4)
    then show ?thesis using Some Cons [of "c\<lparr>cl_batchBudget := cb, processBatchBudget := pb\<rparr>"] by auto
  qed
qed

lemma drainBatchJobs_shape:
  obtains cb pb where "drainBatchJobs c = c\<lparr>cl_batchBudget := cb, processBatchBudget := pb, cl_batches := []\<rparr>"
  using drain_fold_shape [of "cl_batches c" c] unfolding drainBatchJobs_def by auto

text \<open>The fields of a client that the lifecycle rests on; most steps leave them alone.\<close>

definition core :: "client \<Rightarrow> _" where
  "core c = (c_closed c, cl_lifetimeDone c, c_closeDone c, c_connectDone c, c_chans c, c_closedChans c,
     c_state c, c_connState c, c_run c, c_userID c,
     (c_sessionCtx c, c_sessionCancel c, c_sessions c, c_canceledSessions c, c_sessionGeneration c),
     (c_sessionID c, c_msyncHost c, c_msyncHosts c, c_msyncCursor c, c_dnsGeneration c, c_restBase c,
      c_tokenExpiresAt c, c_tokenWarningCancel c))"

lemma core_eqs:
  assumes "core c' = core c"
  shows "c_closed c' = c_closed c" "cl_lifetimeDone c' = cl_lifetimeDone c" "c_closeDone c' = c_closeDone c"
    "c_connectDone c' = c_connectDone c" "c_chans c' = c_chans c" "c_closedChans c' = c_closedChans c"
    "c_state c' = c_state c" "c_connState c' = c_connState c" "c_run c' = c_run c" "c_userID c' = c_userID c"
    "c_sessionCtx c' = c_sessionCtx c" "c_sessionCancel c' = c_sessionCancel c" "c_sessions c' = c_sessions c"
    "c_canceledSessions c' = c_canceledSessions c" "c_sessionGeneration c' = c_sessionGeneration c"
    "shape_ok c' = shape_ok c" "session_ok c' = session_ok c" "chan_ok c' = chan_ok c"
  using assms by (simp_all add: core_def client_ok_defs)

lemma core_drain [simp]: "core (drainBatchJobs c) = core c"
  by (rule drainBatchJobs_shape [of c]) (simp add: core_def)

lemma core_simps [simp]:
  "core (emitAt epoch fn now c) = core c"
  "core (signalTerminalCallback c) = core c"
  "core (trackDNSFlight closed0 closed1 fl c) = core c"
  "core (forgetFlights ds c) = core c"
  "core (reconnect_backoff now c) = core c"
  "core (c\<lparr>cl_lastErr := e\<rparr>) = core c"
  "core (c\<lparr>c_backoffAttempt := n\<rparr>) = core c"
  "core (c\<lparr>c_terminalWake := b\<rparr>) = core c"
  "core (c\<lparr>c_events := evs\<rparr>) = core c"
  "core (snd (claimTerminalCallback c)) = core c"
  "core (snd (run_event_fn ev c)) = core c"
  "core (fst (fail_run r err (c, rs))) = core c"
  by (simp_all add: core_def callback_defs trackDNSFlight_def forgetFlights_def reconnect_backoff_def fail_run_def
      Let_def split: option.splits best_effort.splits)

definition client_inv :: "client \<Rightarrow> bool" where
  "client_inv c \<longleftrightarrow> shape_ok c \<and> session_ok c \<and> chan_ok c"

text \<open>How any step moves a client on.\<close>

definition evolves :: "client \<Rightarrow> client \<Rightarrow> bool" where
  "evolves c c' \<longleftrightarrow>
     c_sessions c \<le> c_sessions c' \<and> set (c_canceledSessions c) \<subseteq> set (c_canceledSessions c')
     \<and> set (c_closedChans c) \<subseteq> set (c_closedChans c') \<and> (c_closed c \<longrightarrow> c_closed c')
     \<and> (\<forall>ch. c_connectDone c = Some ch \<longrightarrow> c_connectDone c' = Some ch \<or> ch \<in> set (c_closedChans c'))
     \<and> (c_closed c \<and> c_connectDone c = None \<longrightarrow> c_connectDone c' = None)"

text \<open>What a step of a thread without lifecycle ownership leaves to the owner.\<close>

definition quiet :: "client \<Rightarrow> client \<Rightarrow> bool" where
  "quiet c c' \<longleftrightarrow>
     (c_state c = LoginStateLoggingIn \<longrightarrow> c_state c' = LoginStateLoggingIn \<and> c_userID c' = c_userID c)
     \<and> (c_sessionCtx c = None \<longrightarrow> c_sessionCtx c' = None)"

lemma core_inv:
  assumes "core c' = core c"
  shows "client_inv c' = client_inv c" and "evolves c c'" and "quiet c c'"
  using core_eqs [OF assms] by (auto simp: client_inv_def evolves_def quiet_def)

definition kept :: "client \<Rightarrow> client \<Rightarrow> bool" where
  "kept c c' \<longleftrightarrow> client_inv c' \<and> evolves c c'"

lemma keptI:
  assumes "shape_ok c'" and "session_ok c'" and "chan_ok c'" and "evolves c c'"
  shows "kept c c'"
  using assms by (simp add: kept_def client_inv_def)

lemma core_kept: "client_inv c \<Longrightarrow> core c' = core c \<Longrightarrow> kept c c' \<and> quiet c c'"
  using core_inv [of c' c] by (simp add: kept_def)

section \<open>The critical sections keep the invariants\<close>

lemmas inv_defs = evolves_def quiet_def client_ok_defs

lemma grant_kept:
  assumes "client_inv c" and "\<not> c_closed c" and "c_connectDone c = None"
  defines "c' \<equiv> c\<lparr>c_connectDone := Some (c_chans c), c_chans := Suc (c_chans c)\<rparr>"
  shows "kept c c'" and "quiet c c'"
proof -
  show "kept c c'"
  proof (rule keptI)
    show "shape_ok c'" using assms(1) by (simp add: client_inv_def shape_ok_def logged_out_def c'_def)
    show "session_ok c'" using assms(1) by (simp add: client_inv_def session_ok_def c'_def)
    show "chan_ok c'" using assms(1,3) by (auto simp: client_inv_def chan_ok_def c'_def)
    show "evolves c c'" using assms(2,3) by (simp add: evolves_def c'_def)
  qed
  show "quiet c c'" by (simp add: quiet_def c'_def)
qed

lemma beginConnect_kept:
  assumes "client_inv c" and "beginConnect_round opn c = (res, c')"
  shows "kept c c' \<and> quiet c c'"
proof (cases "c_closed c \<or> c_connectDone c \<noteq> None")
  case True
  then have "c' = c" using assms(2) by (auto simp: beginConnect_round_def split: option.splits if_splits)
  then show ?thesis using core_kept assms(1) by blast
next
  case False
  then show ?thesis using assms grant_kept by (auto simp: beginConnect_round_def)
qed

lemma endConnect_kept:
  assumes "client_inv c" and "endConnect ch c = Some c'"
  shows "kept c c' \<and> quiet c c'"
proof -
  have c': "c_connectDone c = Some ch" "c' = c\<lparr>c_connectDone := None, c_closedChans := ch # c_closedChans c\<rparr>"
    using assms(2) by (auto simp: endConnect_def split: if_splits)
  have "kept c c'"
  proof (rule keptI)
    show "shape_ok c'" using assms(1) by (simp add: client_inv_def shape_ok_def logged_out_def c')
    show "session_ok c'" using assms(1) by (simp add: client_inv_def session_ok_def c')
    show "chan_ok c'" using assms(1) c'(1) by (auto simp: client_inv_def chan_ok_def c'(2))
    show "evolves c c'" using c'(1) by (auto simp: evolves_def c'(2))
  qed
  then show ?thesis by (simp add: quiet_def c'(2))
qed

lemma Login_admit_kept:
  assumes "client_inv c" and "Login_admit u t c = (res, c')"
  shows "kept c c'"
proof (cases res)
  case (Inl e)
  then have "c' = c" using assms(2) by (auto simp: Login_admit_def split: if_splits)
  then show ?thesis using core_kept assms(1) by blast
next
  case (Inr epoch)
  then have c': "\<not> c_closed c" "c_state c = LoginStateLogout"
    "c' = c\<lparr>c_state := LoginStateLoggingIn, c_connState := ConnStateConnecting, c_userID := u,
       c_token := t, cl_lastErr := None, c_tokenExpiresAt := None, c_backoffAttempt := 0\<rparr>"
    using assms(2) by (auto simp: Login_admit_def split: if_splits)
  show ?thesis
  proof (rule keptI)
    show "shape_ok c'" using assms(1) c'(1,2) by (simp add: client_inv_def shape_ok_def logged_out_def c'(3))
    show "session_ok c'" using assms(1) by (simp add: client_inv_def session_ok_def c'(3))
    show "chan_ok c'" using assms(1) by (simp add: client_inv_def chan_ok_def c'(3))
    show "evolves c c'" by (simp add: evolves_def c'(3))
  qed
qed

lemma cancelSession_session:
  assumes "session_ok c"
  shows "session_ok (cancelSessionLocked c)" and "c_sessionCtx (cancelSessionLocked c) = None"
    and "set (c_canceledSessions (cancelSessionLocked c)) = {..<c_sessions c}"
    and "c_sessions (cancelSessionLocked c) = c_sessions c"
  using assms by (auto simp: session_ok_def cancelSessionLocked_def cancel_session_def split: option.splits)

lemma cancelSession_frame [simp]:
  "c_closed (cancelSessionLocked c) = c_closed c" "cl_lifetimeDone (cancelSessionLocked c) = cl_lifetimeDone c"
  "c_connectDone (cancelSessionLocked c) = c_connectDone c" "c_chans (cancelSessionLocked c) = c_chans c"
  "c_closedChans (cancelSessionLocked c) = c_closedChans c" "c_state (cancelSessionLocked c) = c_state c"
  "c_connState (cancelSessionLocked c) = c_connState c" "c_run (cancelSessionLocked c) = c_run c"
  "c_userID (cancelSessionLocked c) = c_userID c" "c_sessionID (cancelSessionLocked c) = c_sessionID c"
  "c_msyncHost (cancelSessionLocked c) = c_msyncHost c" "c_msyncHosts (cancelSessionLocked c) = c_msyncHosts c"
  "c_msyncCursor (cancelSessionLocked c) = c_msyncCursor c" "c_dnsGeneration (cancelSessionLocked c) = c_dnsGeneration c"
  "c_restBase (cancelSessionLocked c) = c_restBase c" "c_tokenExpiresAt (cancelSessionLocked c) = c_tokenExpiresAt c"
  "c_tokenWarningCancel (cancelSessionLocked c) = c_tokenWarningCancel c" "c_closeDone (cancelSessionLocked c) = c_closeDone c"
  "c_sessionGeneration (cancelSessionLocked c) = c_sessionGeneration c"
  "c_sessionCtx (cancelSessionLocked c) = None"
  by (simp_all add: cancelSessionLocked_def cancel_session_def split: option.splits)

lemma cancelTokenWarning_frame [simp]:
  "c_closed (cancelTokenWarning c) = c_closed c" "cl_lifetimeDone (cancelTokenWarning c) = cl_lifetimeDone c"
  "c_connectDone (cancelTokenWarning c) = c_connectDone c" "c_chans (cancelTokenWarning c) = c_chans c"
  "c_closedChans (cancelTokenWarning c) = c_closedChans c" "c_state (cancelTokenWarning c) = c_state c"
  "c_connState (cancelTokenWarning c) = c_connState c" "c_run (cancelTokenWarning c) = c_run c"
  "c_userID (cancelTokenWarning c) = c_userID c" "c_sessionID (cancelTokenWarning c) = c_sessionID c"
  "c_msyncHost (cancelTokenWarning c) = c_msyncHost c" "c_msyncHosts (cancelTokenWarning c) = c_msyncHosts c"
  "c_msyncCursor (cancelTokenWarning c) = c_msyncCursor c" "c_dnsGeneration (cancelTokenWarning c) = c_dnsGeneration c"
  "c_restBase (cancelTokenWarning c) = c_restBase c" "c_tokenExpiresAt (cancelTokenWarning c) = c_tokenExpiresAt c"
  "c_tokenWarningCancel (cancelTokenWarning c) = None" "c_closeDone (cancelTokenWarning c) = c_closeDone c"
  "c_sessionGeneration (cancelTokenWarning c) = c_sessionGeneration c" "c_sessionCtx (cancelTokenWarning c) = c_sessionCtx c"
  "c_sessionCancel (cancelTokenWarning c) = c_sessionCancel c" "c_sessions (cancelTokenWarning c) = c_sessions c"
  "c_canceledSessions (cancelTokenWarning c) = c_canceledSessions c"
  by (simp_all add: cancelTokenWarning_def split: option.splits)

lemma clear_session_frame [simp]:
  "c_closed (clear_session c) = c_closed c" "cl_lifetimeDone (clear_session c) = cl_lifetimeDone c"
  "c_connectDone (clear_session c) = c_connectDone c" "c_chans (clear_session c) = c_chans c"
  "c_closedChans (clear_session c) = c_closedChans c" "c_sessionGeneration (clear_session c) = c_sessionGeneration c"
  "c_sessionCtx (clear_session c) = c_sessionCtx c" "c_sessionCancel (clear_session c) = c_sessionCancel c"
  "c_sessions (clear_session c) = c_sessions c" "c_canceledSessions (clear_session c) = c_canceledSessions c"
  "c_closeDone (clear_session c) = c_closeDone c" "c_state (clear_session c) = LoginStateLogout"
  "c_connState (clear_session c) = ConnStateDisconnected" "c_run (clear_session c) = None" "c_userID (clear_session c) = []"
  by (simp_all add: clear_session_def)

lemma clear_session_logged_out:
  "c_sessionCtx c = None \<Longrightarrow> c_tokenWarningCancel c = None \<Longrightarrow> logged_out (clear_session c)"
  by (simp add: logged_out_def clear_session_def)

lemma publish_core [simp]: "core (snd (publishTerminalCallbackLocked u err cbs c)) = core c"
  by (simp add: publishTerminalCallbackLocked_def Let_def core_def)

text \<open>The end of a session, up to the fields the lifecycle does not look at.\<close>

definition ended :: "client \<Rightarrow> client" where
  "ended c = cancelTokenWarning (cancelSessionLocked (clear_session c))"

lemma ended_logged_out: "logged_out (ended c)"
  by (simp add: ended_def logged_out_def clear_session_def)

lemma ended_kept:
  assumes "session_ok c" and "chan_ok c" and "cl_lifetimeDone c = c_closed c"
  shows "kept c (ended c)"
proof (rule keptI)
  have s: "session_ok ((clear_session c)\<lparr>c_run := c_run c\<rparr>)"
    using assms(1) by (simp add: session_ok_def)
  then have e: "session_ok (cancelSessionLocked (clear_session c))"
    using cancelSession_session(1) [OF s] by (simp add: session_ok_def cancelSessionLocked_def cancel_session_def split: option.splits)
  show "shape_ok (ended c)"
    using assms(3) ended_logged_out [of c] by (simp add: shape_ok_def ended_def)
  show "session_ok (ended c)" using e by (simp add: session_ok_def ended_def)
  show "chan_ok (ended c)" using assms(2) by (simp add: chan_ok_def ended_def)
  show "evolves c (ended c)"
    using assms(1) by (auto simp: session_ok_def evolves_def ended_def cancelSessionLocked_def cancel_session_def split: option.splits)
qed

lemma client_inv_parts:
  assumes "client_inv c"
  shows "session_ok c" "chan_ok c" "shape_ok c" "cl_lifetimeDone c = c_closed c" "c_closed c \<Longrightarrow> c_state c = LoginStateLogout"
  using assms by (simp_all add: client_inv_def shape_ok_def)

lemma kept_core: "kept c d \<Longrightarrow> core c' = core d \<Longrightarrow> kept c c'"
  using core_inv(1) [of c' d] core_eqs [of c' d] by (simp add: kept_def evolves_def)

lemma recordTerminal_core:
  assumes "recordTerminalForRunSession ex g req err c = (published, c')"
  shows "core c' = (if c_closed c \<or> (ex \<noteq> None \<and> c_run c \<noteq> ex) \<or> (req \<and> \<not> sessionIsCurrentLocked g c)
                    then core c else core (ended c))"
proof -
  have "c' = snd (recordTerminalForRunSession ex g req err c)" using assms by simp
  moreover have "core ((cancelTokenWarning (cancelSessionLocked (clear_session (c\<lparr>cl_lastErr := err\<rparr>))))
       \<lparr>c_callbackEpoch := e\<rparr>) = core (ended c)" for e
    by (simp add: core_def ended_def clear_session_def cancelSessionLocked_def cancel_session_def cancelTokenWarning_def
        split: option.split)
  moreover define skip where
    "skip \<longleftrightarrow> c_closed c \<or> (ex \<noteq> None \<and> c_run c \<noteq> ex) \<or> (req \<and> \<not> sessionIsCurrentLocked g c)"
  ultimately show ?thesis
    unfolding recordTerminalForRunSession_def skip_def [symmetric] Let_def by simp
qed

lemma ended_frame [simp]:
  "c_closed (ended c) = c_closed c" "c_state (ended c) = LoginStateLogout" "c_run (ended c) = None"
  "c_connectDone (ended c) = c_connectDone c" "c_closeDone (ended c) = c_closeDone c" "c_sessionCtx (ended c) = None"
  "c_sessions (ended c) = c_sessions c" "c_closedChans (ended c) = c_closedChans c"
  by (simp_all add: ended_def cancelSessionLocked_def cancel_session_def split: option.split)

lemma recordTerminal_kept:
  assumes "client_inv c" and "recordTerminalForRunSession ex g req err c = (published, c')"
  shows "kept c c'" and "ex \<noteq> None \<Longrightarrow> quiet c c'"
proof -
  note p = client_inv_parts [OF assms(1)]
  show "kept c c'"
    using recordTerminal_core [OF assms(2)] kept_core [OF ended_kept [OF p(1,2,4)]] core_kept [OF assms(1)]
    by (auto split: if_splits)
  show "quiet c c'" if "ex \<noteq> None"
    using recordTerminal_core [OF assms(2)] core_eqs [of c' c] core_eqs [of c' "ended c"] that p(3)
    by (auto simp: quiet_def shape_ok_def split: if_splits)
qed

lemma Close_begin_kept:
  assumes "client_inv c" and "Close_begin c = (ro, c')"
  shows "kept c c'" and "ro = c_run c" and "c_closed c'" and "c_run c' = None" and "core c' = core (ended (c\<lparr>c_closed := True, cl_lifetimeDone := True\<rparr>))"
proof -
  let ?d = "c\<lparr>c_closed := True, cl_lifetimeDone := True\<rparr>"
  note p = client_inv_parts [OF assms(1)]
  have c': "c' = clear_session (cancelTokenWarning (cancelSessionLocked ?d))" and ro: "ro = c_run c"
    using assms(2) by (auto simp: Close_begin_def)
  show e: "core c' = core (ended ?d)"
    by (simp add: c' core_def ended_def clear_session_def cancelSessionLocked_def cancel_session_def cancelTokenWarning_def
        split: option.split)
  have "session_ok ?d" "chan_ok ?d" using p(1,2) by (simp_all add: session_ok_def chan_ok_def)
  then have "kept ?d (ended ?d)" by (intro ended_kept) simp_all
  then have "kept c (ended ?d)" by (auto simp: kept_def evolves_def)
  then show "kept c c'" using e by (rule kept_core)
  show "ro = c_run c" "c_closed c'" "c_run c' = None" using ro by (simp_all add: c')
qed

lemma warned_clear_core:
  assumes "session_ok c" and "c_sessionCtx c = None"
  shows "core ((cancelTokenWarning (clear_session c))\<lparr>c_callbackEpoch := e\<rparr>) = core (ended c)"
  using assms
  by (simp add: core_def ended_def clear_session_def cancelSessionLocked_def cancel_session_def cancelTokenWarning_def
      session_ok_def split: option.split)

lemma detach_kept:
  assumes "client_inv c" and "detachCanceledSessionForLogout g c = (ev, c')"
  shows "kept c c'" and "quiet c c'"
    and "core c' = (if g = 0 \<or> c_sessionGeneration c \<noteq> g \<or> c_sessionCtx c \<noteq> None \<or> c_state c \<noteq> LoginStateReconnecting
                    then core c else core (ended c))"
proof -
  note p = client_inv_parts [OF assms(1)]
  show e: "core c' = (if g = 0 \<or> c_sessionGeneration c \<noteq> g \<or> c_sessionCtx c \<noteq> None \<or> c_state c \<noteq> LoginStateReconnecting
                    then core c else core (ended c))"
    using assms(2) warned_clear_core [OF p(1)]
    by (auto simp: detachCanceledSessionForLogout_def Let_def split: if_splits)
  show "kept c c'"
    using e kept_core [OF ended_kept [OF p(1,2,4)]] core_kept [OF assms(1)] by (auto split: if_splits)
  show "quiet c c'"
    using e core_eqs [of c' c] core_eqs [of c' "ended c"] by (auto simp: quiet_def split: if_splits)
qed

lemma Logout_detach_kept:
  assumes "client_inv c" and "Logout_detach c = (res, c')" and "c_sessionCtx c = None"
  shows "kept c c'"
    and "core c' = (if c_closed c then core c else core (ended c))"
    and "res = Inr (ro, sid, ev) \<Longrightarrow> \<not> c_closed c \<and> ro = c_run c"
    and "res = Inl e \<Longrightarrow> c_closed c \<and> c' = c"
proof -
  note p = client_inv_parts [OF assms(1)]
  show e: "core c' = (if c_closed c then core c else core (ended c))"
    using assms(2) warned_clear_core [OF p(1) assms(3)] by (auto simp: Logout_detach_def Let_def split: if_splits)
  show "kept c c'"
    using e kept_core [OF ended_kept [OF p(1,2,4)]] core_kept [OF assms(1)] by (auto split: if_splits)
  show "res = Inr (ro, sid, ev) \<Longrightarrow> \<not> c_closed c \<and> ro = c_run c" "res = Inl e \<Longrightarrow> c_closed c \<and> c' = c"
    using assms(2) by (auto simp: Logout_detach_def Let_def split: if_splits)
qed

lemma evolves_trans: "evolves a b \<Longrightarrow> evolves b c \<Longrightarrow> evolves a c"
  unfolding evolves_def by (metis order_trans subsetD)

lemma cancelSession_kept:
  assumes "client_inv c"
  shows "kept c (cancelSessionLocked c)" and "quiet c (cancelSessionLocked c)"
proof -
  note p = client_inv_parts [OF assms(1)]
  show "kept c (cancelSessionLocked c)"
  proof (rule keptI)
    show "shape_ok (cancelSessionLocked c)" using p(3) by (simp add: shape_ok_def logged_out_def)
    show "session_ok (cancelSessionLocked c)" using cancelSession_session(1) p(1) .
    show "chan_ok (cancelSessionLocked c)" using p(2) by (simp add: chan_ok_def)
    show "evolves c (cancelSessionLocked c)"
      using cancelSession_session(3,4) [OF p(1)] p(1) by (auto simp: evolves_def session_ok_def)
  qed
  show "quiet c (cancelSessionLocked c)" by (simp add: quiet_def)
qed

lemma beginLogout_kept:
  assumes "client_inv c" and "beginLogout_round cg c = (res, cg', c')"
  shows "kept c c' \<and> quiet c c'
    \<and> (\<forall>ch. res = BeginGranted ch \<longrightarrow> \<not> c_closed c \<and> c_connectDone c = None \<and> c_connectDone c' = Some ch \<and> c_sessionCtx c' = None \<and> cg' = cg)
    \<and> (\<forall>ch. res = BeginWait ch \<longrightarrow> c_connectDone c = Some ch \<and> (cg' = cg \<and> c' = c
          \<or> c_state c = LoginStateReconnecting \<and> c_sessionCtx c \<noteq> None \<and> cg' = Some (c_sessionGeneration c)
             \<and> c' = cancelSessionLocked c))
    \<and> (\<forall>e. res = BeginErr e \<longrightarrow> c_closed c \<and> c' = c)"
proof -
  note self = core_kept [OF assms(1) refl]
  define mid where "mid = (if c_sessionCtx c \<noteq> None then cancelSessionLocked c else c)"
  have mid: "kept c mid" "quiet c mid" "c_sessionCtx mid = None" "c_closed mid = c_closed c"
      "c_connectDone mid = c_connectDone c" "client_inv mid"
    using cancelSession_kept [OF assms(1)] self assms(1) by (auto simp: mid_def kept_def)
  consider (closed) "c_closed c" | (free) "\<not> c_closed c" "c_connectDone c = None"
    | (busy) dn where "\<not> c_closed c" "c_connectDone c = Some dn" by (cases "c_connectDone c") auto
  then show ?thesis
  proof cases
    case closed
    then show ?thesis using assms(2) self by (auto simp: beginLogout_round_def)
  next
    case free
    define granted where "granted = mid\<lparr>c_connectDone := Some (c_chans mid), c_chans := Suc (c_chans mid)\<rparr>"
    have r: "res = BeginGranted (c_chans mid)" "cg' = cg" "c' = granted"
      using assms(2) free unfolding beginLogout_round_def Let_def mid_def [symmetric] granted_def by simp_all
    have g: "kept mid granted" "quiet mid granted" using grant_kept [OF mid(6)] mid(4,5) free by (simp_all add: granted_def)
    have "kept c granted" using mid(1) g(1) evolves_trans by (auto simp: kept_def)
    moreover have "quiet c granted" using mid(2) g(2) by (auto simp: quiet_def)
    ultimately show ?thesis using r free mid(3) by (simp add: granted_def)
  next
    case busy
    show ?thesis
    proof (cases "c_state c = LoginStateReconnecting \<and> c_sessionCtx c \<noteq> None")
      case True
      then have "res = BeginWait dn" "cg' = Some (c_sessionGeneration c)" "c' = cancelSessionLocked c"
        using assms(2) busy by (auto simp: beginLogout_round_def)
      then show ?thesis using cancelSession_kept [OF assms(1)] True busy by simp
    next
      case False
      then have "res = BeginWait dn" "cg' = cg" "c' = c"
        using assms(2) busy by (auto simp: beginLogout_round_def split: if_splits)
      then show ?thesis using self busy by simp
    qed
  qed
qed

lemma applyProvision_frame [simp]:
  "c_closed (applyProvisionLocked st c) = c_closed c" "cl_lifetimeDone (applyProvisionLocked st c) = cl_lifetimeDone c"
  "c_connectDone (applyProvisionLocked st c) = c_connectDone c" "c_chans (applyProvisionLocked st c) = c_chans c"
  "c_closedChans (applyProvisionLocked st c) = c_closedChans c" "c_state (applyProvisionLocked st c) = c_state c"
  "c_connState (applyProvisionLocked st c) = c_connState c" "c_run (applyProvisionLocked st c) = c_run c"
  "c_userID (applyProvisionLocked st c) = c_userID c" "c_closeDone (applyProvisionLocked st c) = c_closeDone c"
  "c_sessionGeneration (applyProvisionLocked st c) = c_sessionGeneration c"
  "c_sessionCtx (applyProvisionLocked st c) = c_sessionCtx c" "c_sessionCancel (applyProvisionLocked st c) = c_sessionCancel c"
  "c_sessions (applyProvisionLocked st c) = c_sessions c" "c_canceledSessions (applyProvisionLocked st c) = c_canceledSessions c"
  by (simp_all add: applyProvisionLocked_def Let_def)

lemma session_room:
  fixes n :: nat
  assumes "(of_nat n :: uint64) \<noteq> - 1" and "n < 2 ^ 64"
  shows "Suc n < 2 ^ 64"
proof (rule ccontr)
  assume "\<not> Suc n < 2 ^ 64"
  with assms(2) have n: "n = 18446744073709551615" by simp
  show False using assms(1) unfolding n by simp
qed

lemma Login_install_kept:
  assumes "client_inv c" and "c_closed c \<or> c_state c = LoginStateLoggingIn" and "c_sessionGeneration c \<noteq> - 1"
    and "Login_install r ep prov i res now c = Some ((ctx, g, epoch), c')"
  shows "kept c c'" and "\<not> c_closed c" and "c_run c' = Some r" and "c_state c' = LoginStateLoggedIn"
    and "c_sessionCtx c' = Some ctx" and "c_connectDone c' = c_connectDone c" and "c_closeDone c' = c_closeDone c"
    and "c_closed c' = c_closed c" and "c_run c = None"
proof -
  note p = client_inv_parts [OF assms(1)]
  have nc: "\<not> c_closed c" and st: "c_state c = LoginStateLoggingIn" using assms(2,4) by (auto simp: Login_install_def)
  then have ctx: "c_sessionCtx c = None" "c_sessionCancel c = None" "c_run c = None"
    using p(1,3) by (simp_all add: shape_ok_def session_ok_def)
  have room: "Suc (c_sessions c) < 2 ^ 64" using session_room assms(3) p(1) by (simp add: session_ok_def)
  have eq: "c' = (snd (startSessionLocked (applyProvisionLocked prov c)))\<lparr>c_run := Some r, c_state := LoginStateLoggedIn,
      c_connState := ConnStateConnected, c_msyncHost := ep, c_msyncHosts := le_WSS (dr_Endpoints res),
      c_msyncCursor := nextCandidateCursor i (length (le_WSS (dr_Endpoints res))), c_dnsGeneration := dr_Generation res,
      c_restBase := le_REST (dr_Endpoints res), c_lastStableConnect := now\<rparr>" "ctx = fst (fst (startSessionLocked (applyProvisionLocked prov c)))"
    using assms(4) nc by (simp_all add: Login_install_def Let_def split_beta)
  have c': "c_closed c' = c_closed c" "cl_lifetimeDone c' = cl_lifetimeDone c" "c_connectDone c' = c_connectDone c"
      "c_chans c' = c_chans c" "c_closedChans c' = c_closedChans c" "c_state c' = LoginStateLoggedIn"
      "c_connState c' = ConnStateConnected" "c_run c' = Some r" "c_sessionCtx c' = Some (c_sessions c)"
      "c_sessionCancel c' = Some (c_sessions c)" "c_sessions c' = Suc (c_sessions c)"
      "c_canceledSessions c' = c_canceledSessions c" "c_sessionGeneration c' = c_sessionGeneration c + 1"
      "c_closeDone c' = c_closeDone c" "ctx = c_sessions c"
    unfolding eq by (simp_all add: startSessionLocked_def cancel_session_def Let_def ctx)
  show "kept c c'"
  proof (rule keptI)
    show "shape_ok c'" using p(4) nc by (simp add: shape_ok_def c')
    have n: "c_sessionGeneration c = of_nat (c_sessions c)" "set (c_canceledSessions c) = {..<c_sessions c}"
      using p(1) ctx(1) by (simp_all add: session_ok_def)
    have "{..<c_sessions c} = {..<Suc (c_sessions c)} - {c_sessions c}" by auto
    then show "session_ok c'" unfolding session_ok_def c' n
      using room by (simp del: of_nat_Suc add: of_nat_Suc [of "c_sessions c", unfolded add.commute [of 1]])
    show "chan_ok c'" using p(2) by (simp add: chan_ok_def c')
    show "evolves c c'" by (simp add: evolves_def c')
  qed
  show "\<not> c_closed c" "c_run c' = Some r" "c_state c' = LoginStateLoggedIn" "c_sessionCtx c' = Some ctx"
    "c_connectDone c' = c_connectDone c" "c_closeDone c' = c_closeDone c" "c_closed c' = c_closed c" "c_run c = None"
    using nc c' ctx by simp_all
qed

lemma reconnect_begin_kept:
  assumes "client_inv c" and "reconnect_begin old c = Some ((rc, lastErr, ev), c')"
  shows "kept c c' \<and> quiet c c'" and "c_run c = Some old" and "c_sessionCtx c = Some (rc_session rc)"
    and "rc_old rc = old" and "rc_gen rc = c_sessionGeneration c"
    and "c' = c\<lparr>c_state := LoginStateReconnecting, c_connState := ConnStateReconnecting\<rparr>"
proof -
  note p = client_inv_parts [OF assms(1)]
  show b: "c_run c = Some old" "c_sessionCtx c = Some (rc_session rc)" "rc_old rc = old" "rc_gen rc = c_sessionGeneration c"
    and c': "c' = c\<lparr>c_state := LoginStateReconnecting, c_connState := ConnStateReconnecting\<rparr>"
    using assms(2) by (auto simp: reconnect_begin_def Let_def split: option.splits if_splits)
  have nc: "\<not> c_closed c" using p(3) b(1) by (auto simp: shape_ok_def logged_out_def)
  have "kept c c'"
  proof (rule keptI)
    show "shape_ok c'" using p(4) nc b(1) by (simp add: shape_ok_def c')
    show "session_ok c'" using p(1) by (simp add: session_ok_def c')
    show "chan_ok c'" using p(2) by (simp add: chan_ok_def c')
    show "evolves c c'" by (simp add: evolves_def c')
  qed
  moreover have "c_state c \<noteq> LoginStateLoggingIn" using p(3) b(1) by (auto simp: shape_ok_def)
  ultimately show "kept c c' \<and> quiet c c'" by (simp add: quiet_def c')
qed

lemma reconnect_store_kept:
  assumes "client_inv c"
  shows "kept c (reconnect_store res rc c)"
proof (rule keptI)
  note p = client_inv_parts [OF assms(1)]
  show "shape_ok (reconnect_store res rc c)" using p(3) by (auto simp: shape_ok_def logged_out_def reconnect_store_def)
  show "session_ok (reconnect_store res rc c)" using p(1) by (simp add: session_ok_def reconnect_store_def)
  show "chan_ok (reconnect_store res rc c)" using p(2) by (simp add: chan_ok_def reconnect_store_def)
  show "evolves c (reconnect_store res rc c)" by (simp add: evolves_def reconnect_store_def)
qed

lemma reconnect_install_kept:
  assumes "client_inv c" and "reconnect_install r ep prov now rc c = Some (epoch, c')"
  shows "kept c c'" and "c_run c' = Some r" and "c_state c' = LoginStateLoggedIn" and "c_run c = Some (rc_old rc)"
    and "c_state c = LoginStateReconnecting" and "c_sessionCtx c' = c_sessionCtx c" and "c_connectDone c' = c_connectDone c"
    and "c_closeDone c' = c_closeDone c" and "c_closed c' = c_closed c"
proof -
  note p = client_inv_parts [OF assms(1)]
  have g: "\<not> c_closed c" "c_run c = Some (rc_old rc)" "c_state c = LoginStateReconnecting"
    using assms(2) by (auto simp: reconnect_install_def split: if_splits)
  have c': "c_closed c' = c_closed c" "cl_lifetimeDone c' = cl_lifetimeDone c" "c_connectDone c' = c_connectDone c"
      "c_chans c' = c_chans c" "c_closedChans c' = c_closedChans c" "c_state c' = LoginStateLoggedIn"
      "c_connState c' = ConnStateConnected" "c_run c' = Some r" "c_sessionCtx c' = c_sessionCtx c"
      "c_sessionCancel c' = c_sessionCancel c" "c_sessions c' = c_sessions c"
      "c_canceledSessions c' = c_canceledSessions c" "c_sessionGeneration c' = c_sessionGeneration c"
      "c_closeDone c' = c_closeDone c"
    using assms(2) by (auto simp: reconnect_install_def Let_def split: if_splits)
  show "kept c c'"
  proof (rule keptI)
    show "shape_ok c'" using p(4) g(1) by (simp add: shape_ok_def c')
    show "session_ok c'" using p(1) by (simp add: session_ok_def c')
    show "chan_ok c'" using p(2) by (simp add: chan_ok_def c')
    show "evolves c c'" by (simp add: evolves_def c')
  qed
  show "c_run c' = Some r" "c_state c' = LoginStateLoggedIn" "c_run c = Some (rc_old rc)"
    "c_state c = LoginStateReconnecting" "c_sessionCtx c' = c_sessionCtx c" "c_connectDone c' = c_connectDone c"
    "c_closeDone c' = c_closeDone c" "c_closed c' = c_closed c"
    using g c' by simp_all
qed

text \<open>The token warning and \<open>UpdateToken\<close> touch only the fields of the token.\<close>

definition token_only :: "client \<Rightarrow> client \<Rightarrow> bool" where
  "token_only c c' \<longleftrightarrow>
     core (c'\<lparr>c_tokenExpiresAt := c_tokenExpiresAt c, c_tokenWarningCancel := c_tokenWarningCancel c\<rparr>) = core c
     \<and> (c_tokenExpiresAt c' = c_tokenExpiresAt c \<or> c_tokenExpiresAt c' = None)
     \<and> (c_tokenWarningCancel c' = None \<or> c_tokenWarningCancel c' = c_tokenWarningCancel c \<or> c_sessionCtx c \<noteq> None)"

lemma token_only_kept:
  assumes "client_inv c" and "token_only c c'"
  shows "kept c c' \<and> quiet c c'"
proof -
  note p = client_inv_parts [OF assms(1)]
  have e: "c_closed c' = c_closed c" "cl_lifetimeDone c' = cl_lifetimeDone c" "c_closeDone c' = c_closeDone c"
    "c_connectDone c' = c_connectDone c" "c_chans c' = c_chans c" "c_closedChans c' = c_closedChans c"
    "c_state c' = c_state c" "c_connState c' = c_connState c" "c_run c' = c_run c" "c_userID c' = c_userID c"
    "c_sessionCtx c' = c_sessionCtx c" "c_sessionCancel c' = c_sessionCancel c" "c_sessions c' = c_sessions c"
    "c_canceledSessions c' = c_canceledSessions c" "c_sessionGeneration c' = c_sessionGeneration c"
    "c_sessionID c' = c_sessionID c" "c_msyncHost c' = c_msyncHost c" "c_msyncHosts c' = c_msyncHosts c"
    "c_msyncCursor c' = c_msyncCursor c" "c_dnsGeneration c' = c_dnsGeneration c" "c_restBase c' = c_restBase c"
    using assms(2) by (simp_all add: token_only_def core_def)
  have t: "c_tokenExpiresAt c' = c_tokenExpiresAt c \<or> c_tokenExpiresAt c' = None"
    "c_tokenWarningCancel c' = None \<or> c_tokenWarningCancel c' = c_tokenWarningCancel c \<or> c_sessionCtx c \<noteq> None"
    using assms(2) by (simp_all add: token_only_def)
  have "kept c c'"
  proof (rule keptI)
    show "shape_ok c'" using p(3) t by (auto simp: shape_ok_def logged_out_def e)
    show "session_ok c'" using p(1) by (simp add: session_ok_def e)
    show "chan_ok c'" using p(2) by (simp add: chan_ok_def e)
    show "evolves c c'" by (simp add: evolves_def e)
  qed
  then show ?thesis by (simp add: quiet_def e)
qed

lemma token_only_steps:
  "scheduleTokenExpiryWarning g ex c = (w, c') \<Longrightarrow> token_only c c'"
  "UpdateToken t c = Inr c' \<Longrightarrow> token_only c c'"
  by (auto simp: token_only_def core_def token_defs sessionIsCurrentLocked_def Let_def split: if_splits option.splits)

end
