(* ===== verification/Client_Lifecycle.thy ===== *)
theory Client_Lifecycle
  imports Client_Sections
begin

text \<open>
  The invariants of the client lifecycle over all interleavings of \<open>Client_System\<close>, and the properties of
  ownership, logout, reconnect and close that follow from them.
\<close>

section \<open>One step of one thread\<close>

fun is_logout_owner :: "thread \<Rightarrow> bool" where
  "is_logout_owner (Own (OpLogout cg) ch) = True"
| "is_logout_owner (Emit e f T) = is_logout_owner T"
| "is_logout_owner (Track fl T) = is_logout_owner T"
| "is_logout_owner (Warn ctx g ex T) = is_logout_owner T"
| "is_logout_owner (Discard r err T) = is_logout_owner T"
| "is_logout_owner _ = False"

fun logout_gen :: "thread \<Rightarrow> uint64 option" where
  "logout_gen (Begin (OpLogout cg)) = cg"
| "logout_gen (Blocked (OpLogout cg) ch) = cg"
| "logout_gen _ = None"

fun waits_on :: "thread \<Rightarrow> nat option" where
  "waits_on (Blocked op ch) = Some ch"
| "waits_on (CloseWait ch) = Some ch"
| "waits_on _ = None"

text \<open>The run that a thread has seen dead.\<close>

fun dead_of :: "thread \<Rightarrow> nat option" where
  "dead_of (MonitorTerminal r e) = Some r"
| "dead_of (ReconStart r) = Some r"
| "dead_of _ = None"

definition run_done :: "run_obj list \<Rightarrow> nat \<Rightarrow> bool" where
  "run_done rs r \<longleftrightarrow> r < length rs \<and> ro_done (rs ! r)"

definition login_ok :: "client \<Rightarrow> thread \<Rightarrow> bool" where
  "login_ok c T \<longleftrightarrow> (\<forall>u. login_of T = Some u \<longrightarrow> c_closed c \<or> c_state c = LoginStateLoggingIn \<and> c_userID c = u)
     \<and> (is_logout_owner T \<longrightarrow> c_sessionCtx c = None)"

definition recon_ok :: "client \<Rightarrow> run_obj list \<Rightarrow> thread \<Rightarrow> bool" where
  "recon_ok c rs T \<longleftrightarrow>
     (\<forall>rc. recon_of T = Some rc \<longrightarrow> rc_session rc < c_sessions c \<and> rc_gen rc = of_nat (Suc (rc_session rc)) \<and> run_done rs (rc_old rc))
     \<and> (\<forall>r. dead_of T = Some r \<longrightarrow> run_done rs r)
     \<and> (\<forall>r. watched T = Some r \<or> r \<in> set (open_runs T) \<longrightarrow> r < length rs) \<and> (logout_gen T \<noteq> None \<longrightarrow> 0 < c_sessions c)"

definition wait_ok :: "client \<Rightarrow> thread \<Rightarrow> bool" where
  "wait_ok c T \<longleftrightarrow> (\<forall>ch. waits_on T = Some ch \<longrightarrow> ch \<in> set (c_closedChans c) \<or> c_connectDone c = Some ch)"

definition close_ok :: "client \<Rightarrow> thread \<Rightarrow> bool" where
  "close_ok c T \<longleftrightarrow>
     (closer T \<longrightarrow> c_closed c) \<and> (\<forall>ch. T = CloseWait ch \<longrightarrow> c_connectDone c = None \<or> c_connectDone c = Some ch)
     \<and> (T = CloseFlights \<or> (\<exists>ds. T = CloseAwait ds) \<or> T = CloseDrain \<or> T = CloseCodec \<longrightarrow> c_connectDone c = None)
     \<and> (T = CloseDrain \<or> T = CloseCodec \<longrightarrow> c_pendingDNSFlights c = [])"

definition thread_ok :: "client \<Rightarrow> run_obj list \<Rightarrow> thread \<Rightarrow> bool" where
  "thread_ok c rs T \<longleftrightarrow> wf_thread T \<and> login_ok c T \<and> recon_ok c rs T \<and> wait_ok c T \<and> close_ok c T"

lemma closeDone_kept:
  assumes "client_inv c"
  shows "kept c (c\<lparr>c_closeDone := True\<rparr>)" and "quiet c (c\<lparr>c_closeDone := True\<rparr>)"
  using assms by (simp_all add: kept_def client_inv_def evolves_def quiet_def client_ok_defs)

lemma tstep_kept:
  assumes "tstep lib settled (c, rs) T (c', rs') T' sp dl" and "client_inv c" and "login_ok c T"
    and "c_sessionGeneration c \<noteq> - 1"
  shows "kept c c'"
  using assms(1)
proof cases
  case (ts_login_installed r i res now ctx g epoch u ch)
  then show ?thesis using Login_install_kept(1) [OF assms(2) _ assms(4)] assms(3) by (auto simp: login_ok_def)
next
  case (ts_discard r err)
  then have "core c' = core c" using core_simps(12) [of r "Some err" c rs] by (metis fst_conv)
  then show ?thesis using core_kept assms(2) by blast
next
  case ts_claim
  then have "core c' = core c" using core_simps(10) [of c] by simp
  then show ?thesis using core_kept assms(2) by blast
next
  case ts_claim_none
  then have "core c' = core c" using core_simps(10) [of c] by simp
  then show ?thesis using core_kept assms(2) by blast
next
  case (ts_disp_run ev ns b)
  then have "core c' = core c" using core_simps(11) [of ev c] by simp
  then show ?thesis using core_kept assms(2) by blast
next
  case ts_close_codec
  then show ?thesis using closeDone_kept(1) assms(2) by blast
qed (use assms core_kept [OF assms(2)] in \<open>auto dest: beginConnect_kept [OF assms(2)] beginLogout_kept [OF assms(2)]
   detach_kept(1) [OF assms(2)] endConnect_kept [OF assms(2)] Login_admit_kept [OF assms(2)]
   recordTerminal_kept(1) [OF assms(2)] reconnect_begin_kept(1) [OF assms(2)] Logout_detach_kept(1) [OF assms(2)]
   reconnect_install_kept(1) [OF assms(2)] token_only_kept [OF assms(2)] token_only_steps
   intro: reconnect_store_kept simp: recordTerminal_def recordTerminalForRun_def recordTerminalForSession_def login_ok_def\<close>)

lemma core_step:
  "fail_run r err (c, rs) = (c', rs') \<Longrightarrow> core c' = core c"
  "claimTerminalCallback c = (res, c') \<Longrightarrow> core c' = core c"
  "run_event_fn ev c = (ns, c') \<Longrightarrow> core c' = core c"
  using core_simps(10) [of c] core_simps(11) [of ev c] core_simps(12) [of r err c rs] by auto

abbreviation flights :: "client \<Rightarrow> nat list" where "flights \<equiv> c_pendingDNSFlights"

lemma flights_frame [simp]:
  "flights (cancelSessionLocked c) = flights c" "flights (cancelTokenWarning c) = flights c"
  "flights (clear_session c) = flights c" "flights (applyProvisionLocked st c) = flights c"
  "flights (emitAt e f now c) = flights c" "flights (signalTerminalCallback c) = flights c"
  "flights (reconnect_backoff now c) = flights c" "flights (reconnect_store res rc c) = flights c"
  "flights (snd (startSessionLocked c)) = flights c" "flights (drainBatchJobs c) = flights c"
  by (simp_all add: cancelSessionLocked_def cancel_session_def cancelTokenWarning_def clear_session_def
      applyProvisionLocked_def callback_defs reconnect_backoff_def reconnect_store_def startSessionLocked_def Let_def
      split: option.split)
    (rule drainBatchJobs_shape [of c], simp)

lemma flights_step:
  "publishTerminalCallbackLocked u err cbs c = (b, c') \<Longrightarrow> flights c' = flights c"
  "recordTerminalForRunSession ex g req err c = (b, c') \<Longrightarrow> flights c' = flights c"
  "beginConnect_round opn c = (res, c') \<Longrightarrow> flights c' = flights c"
  "endConnect ch c = Some c' \<Longrightarrow> flights c' = flights c"
  "beginLogout_round cg c = (res, cg', c') \<Longrightarrow> flights c' = flights c"
  "detachCanceledSessionForLogout g c = (ev, c') \<Longrightarrow> flights c' = flights c"
  "reconnect_begin old c = Some (x, c') \<Longrightarrow> flights c' = flights c"
  "scheduleTokenExpiryWarning g ex2 c = (w, c') \<Longrightarrow> flights c' = flights c"
  "claimTerminalCallback c = (res', c') \<Longrightarrow> flights c' = flights c"
  "run_event_fn ev' c = (ns, c') \<Longrightarrow> flights c' = flights c"
  "fail_run r ferr (c, rs) = (c', rs') \<Longrightarrow> flights c' = flights c"
  "Login_admit lu lt c = (lres, c') \<Longrightarrow> flights c' = flights c"
  by (auto simp: publishTerminalCallbackLocked_def recordTerminalForRunSession_def beginConnect_round_def endConnect_def
      beginLogout_round_def detachCanceledSessionForLogout_def reconnect_begin_def scheduleTokenExpiryWarning_def
      claimTerminalCallback_def run_event_fn_def fail_run_def Login_admit_def Let_def
      split: if_splits option.splits best_effort.splits)

text \<open>A thread without lifecycle ownership leaves a login or logout in progress alone.\<close>

lemma tstep_quiet:
  assumes "tstep lib settled (c, rs) T (c', rs') T' sp dl" and "client_inv c" and "wf_thread T" and "held T = None"
  shows "quiet c c'"
  using assms(1,3,4)
proof cases
qed (use core_kept [OF assms(2)] in \<open>auto dest!: beginConnect_kept [OF assms(2)] beginLogout_kept [OF assms(2)]
   detach_kept(2) [OF assms(2)] core_step core_step(1) [OF sym]
   recordTerminal_kept(2) [OF assms(2)] reconnect_begin_kept(1) [OF assms(2)]
   intro: closeDone_kept(2) [OF assms(2)] simp: recordTerminalForRun_def recordTerminalForSession_def\<close>)

lemma tstep_flights:
  assumes "tstep lib settled (c, rs) T (c', rs') T' sp dl" and "wf_thread T" and "held T = None"
  shows "flights c' = flights c \<or> (\<exists>ds. T = CloseAwait ds)"
  using assms
proof cases
qed (auto dest!: flights_step flights_step(11) [OF sym] simp: recordTerminalForRun_def recordTerminalForSession_def)

lemma reconnect_rotate_keeps [simp]:
  "rc_old (reconnect_rotate rc) = rc_old rc" "rc_session (reconnect_rotate rc) = rc_session rc"
  "rc_gen (reconnect_rotate rc) = rc_gen rc"
  by (simp_all add: reconnect_rotate_def split: prod.split option.split)

lemma reconnect_vars [simp]:
  "rc_old (reconnect_refreshed res rc) = rc_old rc" "rc_session (reconnect_refreshed res rc) = rc_session rc"
  "rc_gen (reconnect_refreshed res rc) = rc_gen rc"
  "rc_old (reconnect_failed e rc) = rc_old rc" "rc_session (reconnect_failed e rc) = rc_session rc"
  "rc_gen (reconnect_failed e rc) = rc_gen rc"
  by (simp_all add: reconnect_refreshed_def reconnect_failed_def Let_def)

lemma reconnect_plan_vars:
  "reconnect_plan lib ep lastErr rc = Inr rc' \<Longrightarrow>
   rc_old rc' = rc_old rc \<and> rc_session rc' = rc_session rc \<and> rc_gen rc' = rc_gen rc"
  by (auto simp: reconnect_plan_def split: option.splits go_error.splits sum.splits if_splits)

text \<open>Well-formed continuations, and the threads that a step starts.\<close>

lemma tstep_wf:
  assumes "tstep lib settled (c, rs) T (c', rs') T' sp dl" and "wf_thread T"
    and "\<forall>ch. held T = Some ch \<longrightarrow> c_connectDone c = Some ch"
  shows "wf_thread T'" and "\<forall>S \<in> set sp. (\<exists>r. S = Monitor r) \<or> (\<exists>w s g u ex. S = WarnTimer w s g u ex)"
  using assms by (cases, auto simp: endConnect_def split: if_splits)+

lemmas emit_eqs [simp] = core_eqs(1-15) [OF core_simps(1)] core_eqs(1-15) [OF core_simps(2)]
  core_eqs(1-15) [OF core_simps(3)] core_eqs(1-15) [OF core_simps(4)] core_eqs(1-15) [OF core_simps(5)]
  core_eqs(1-15) [OF core_drain]

lemma not_logout_owner [simp]:
  "\<not> is_logout_owner (emit_opt ev (Release ch T))" "\<not> is_logout_owner (signal_if b (Release ch T))"
  "\<not> is_logout_owner (signal_if b Finished)" "\<not> is_logout_owner (emit_opt ev Finished)"
  "\<not> is_logout_owner (emit_opt ev (LoginResolve u ch))" "\<not> is_logout_owner (emit_opt ev (ReconPlan rc e))"
  "\<not> is_logout_owner (installed ctx g epoch u r ch c)"
  by (simp_all add: emit_opt_def signal_if_def installed_def split: option.split)

lemma Login_admitted:
  "Login_admit u t c = (Inr epoch, c') \<Longrightarrow> \<not> c_closed c \<and> c_closed c' = c_closed c \<and> c_state c' = LoginStateLoggingIn
     \<and> c_userID c' = u \<and> c_state c = LoginStateLogout \<and> c_run c' = c_run c \<and> c_sessionCtx c' = c_sessionCtx c
     \<and> c_connectDone c' = c_connectDone c \<and> c_closeDone c' = c_closeDone c"
  "Login_admit u t c = (Inl e, c') \<Longrightarrow> c' = c"
  by (auto simp: Login_admit_def split: if_splits)

lemma tstep_login_ok:
  assumes "tstep lib settled (c, rs) T (c', rs') T' sp dl" and "wf_thread T" and "login_ok c T" and "client_inv c"
  shows "login_ok c' T'"
  using assms(1-3)
proof cases
qed (auto simp: login_ok_def token_only_def core_def dest!: beginLogout_kept [OF assms(4)] core_step core_step(1) [OF sym] token_only_steps Login_admitted(1))

definition runs_grow :: "run_obj list \<Rightarrow> run_obj list \<Rightarrow> bool" where
  "runs_grow rs rs' \<longleftrightarrow> length rs \<le> length rs' \<and> (\<forall>r < length rs. ro_done (rs ! r) \<longrightarrow> ro_done (rs' ! r))"

lemma runs_grow_refl [simp]: "runs_grow rs rs"
  by (simp add: runs_grow_def)

lemma fail_run_grow: "fail_run r err (c, rs) = (c', rs') \<Longrightarrow> runs_grow rs rs' \<and> length rs' = length rs \<and> (r < length rs \<longrightarrow> run_done rs' r)"
  by (auto simp: fail_run_def runs_grow_def run_done_def nth_list_update split: if_splits)

lemma tstep_runs: "tstep lib settled (c, rs) T (c', rs') T' sp dl \<Longrightarrow> runs_grow rs rs'"
  by (erule tstep.cases) (auto dest: fail_run_grow fail_run_grow [OF sym] simp: runs_grow_def nth_append)

lemma run_done_grow: "runs_grow rs rs' \<Longrightarrow> run_done rs r \<Longrightarrow> run_done rs' r"
  by (auto simp: runs_grow_def run_done_def)

lemma recon_ok_mono:
  assumes "recon_ok c rs T" and "evolves c c'" and "runs_grow rs rs'"
  shows "recon_ok c' rs' T"
  unfolding recon_ok_def
proof (intro conjI allI impI)
  show "rc_session rc < c_sessions c'" "rc_gen rc = of_nat (Suc (rc_session rc))" "run_done rs' (rc_old rc)"
    if "recon_of T = Some rc" for rc
    using that assms run_done_grow [OF assms(3)] by (auto simp: recon_ok_def evolves_def)
  show "run_done rs' r" if "dead_of T = Some r" for r
    using that assms run_done_grow [OF assms(3)] by (auto simp: recon_ok_def)
  show "r < length rs'" if "watched T = Some r \<or> r \<in> set (open_runs T)" for r
    using that assms(1,3) by (auto simp: recon_ok_def runs_grow_def)
  show "0 < c_sessions c'" if "logout_gen T \<noteq> None" using that assms by (auto simp: recon_ok_def evolves_def)
qed

lemma more_attrs [simp]:
  "dead_of (emit_opt ev T) = (if ev = None then dead_of T else None)" "dead_of (signal_if b T) = (if b then None else dead_of T)"
  "logout_gen (emit_opt ev T) = (if ev = None then logout_gen T else None)"
  "logout_gen (signal_if b T) = (if b then None else logout_gen T)"
  "waits_on (emit_opt ev T) = (if ev = None then waits_on T else None)"
  "waits_on (signal_if b T) = (if b then None else waits_on T)"
  "dead_of (installed ctx g epoch u r ch c) = None" "logout_gen (installed ctx g epoch u r ch c) = None"
  "waits_on (installed ctx g epoch u r ch c) = None"
  by (auto simp: emit_opt_def signal_if_def installed_def split: option.split)

lemma session_positive: "session_ok c \<Longrightarrow> c_sessionCtx c = Some s \<Longrightarrow> s < c_sessions c \<and> c_sessionGeneration c = of_nat (Suc s)"
  by (auto simp: session_ok_def)

lemma blocked_attrs: "recon_of (Blocked op ch) = recon_of (Begin op)" "logout_gen (Blocked op ch) = logout_gen (Begin op)"
  by (cases op; simp)+

lemma held_tail:
  "held T = Some ch \<Longrightarrow> dead_of T = None \<and> logout_gen T = None \<and> waits_on T = None \<and> \<not> closer T"
  by (induction T) auto

text \<open>What the step does to the facts about reconnects and runs, given that they hold in the new state for the old thread.\<close>

lemma tstep_recon_ok:
  assumes "tstep lib settled (c, rs) T (c', rs') T' sp dl" and "wf_thread T" and "client_inv c" and "recon_ok c' rs' T"
    and run: "\<forall>r. c_run c = Some r \<longrightarrow> r < length rs" and owner: "is_logout_owner T \<longrightarrow> c_sessionCtx c = None"
  shows "recon_ok c' rs' T' \<and> (\<forall>S \<in> set sp. recon_ok c' rs' S)"
  using assms(1,2,4)
proof cases
  case (ts_begin_logout_wait cg ch cg')
  have "0 < c_sessions c'" if "cg' \<noteq> None"
  proof (cases "cg' = cg")
    case True
    then show ?thesis using assms(4) ts_begin_logout_wait that by (auto simp: recon_ok_def)
  next
    case False
    then have "c_sessionCtx c \<noteq> None" "evolves c c'"
      using beginLogout_kept [OF assms(3) ts_begin_logout_wait(6)] by (auto simp: kept_def)
    then obtain s where "c_sessionCtx c = Some s" "c_sessions c \<le> c_sessions c'" by (auto simp: evolves_def)
    then show ?thesis using session_positive [OF client_inv_parts(1) [OF assms(3)]] by fastforce
  qed
  then show ?thesis using ts_begin_logout_wait assms(4) by (auto simp: recon_ok_def)
next
  case (ts_recon_begin old rc lastErr ev)
  note b = reconnect_begin_kept [OF assms(3) ts_recon_begin(6)]
  have "rc_session rc < c_sessions c'" "rc_gen rc = of_nat (Suc (rc_session rc))"
    using b session_positive [OF client_inv_parts(1) [OF assms(3)]] by auto
  then show ?thesis using ts_recon_begin assms(4) b(4) by (auto simp: recon_ok_def)
next
  case (ts_logout_run r sid ev cg ch)
  have "c_sessionCtx c = None" using owner ts_logout_run by simp
  then have "c_run c = Some r" using Logout_detach_kept(3) [OF assms(3) ts_logout_run(6) _ refl] by simp
  then show ?thesis using run ts_logout_run by (auto simp: recon_ok_def)
qed (auto simp: recon_ok_def run_done_def blocked_attrs dest!: reconnect_plan_vars dest: held_tail)

lemma tstep_wait_ok:
  assumes "tstep lib settled (c, rs) T (c', rs') T' sp dl" and "wf_thread T" and "client_inv c"
  shows "wait_ok c' T'"
  using assms(1,2)
proof cases
  case (ts_begin_logout_wait cg ch cg')
  then have "c_connectDone c' = Some ch" using beginLogout_kept [OF assms(3) ts_begin_logout_wait(6)] by auto
  then show ?thesis using ts_begin_logout_wait by (simp add: wait_ok_def)
qed (auto simp: wait_ok_def beginConnect_round_def dest: held_tail split: if_splits option.splits)

text \<open>How a step passes lifecycle ownership on.\<close>

definition passes :: "client \<Rightarrow> thread \<Rightarrow> client \<Rightarrow> thread \<Rightarrow> bool" where
  "passes c T c' T' \<longleftrightarrow>
     held T' = held T \<and> c_connectDone c' = c_connectDone c
     \<or> held T = None \<and> c_connectDone c = None \<and> \<not> c_closed c \<and> held T' \<noteq> None \<and> c_connectDone c' = held T'
     \<or> held T \<noteq> None \<and> held T' = None \<and> c_connectDone c' = None"

lemma connectDone_step:
  "recordTerminalForRunSession ex g req err c = (b, c') \<Longrightarrow> c_connectDone c' = c_connectDone c \<and> c_closeDone c' = c_closeDone c \<and> c_closed c' = c_closed c"
  "detachCanceledSessionForLogout g c = (ev, c') \<Longrightarrow> c_connectDone c' = c_connectDone c \<and> c_closeDone c' = c_closeDone c \<and> c_closed c' = c_closed c"
  "Logout_detach c = (res, c') \<Longrightarrow> c_connectDone c' = c_connectDone c \<and> c_closeDone c' = c_closeDone c \<and> c_closed c' = c_closed c"
  "scheduleTokenExpiryWarning g ex2 c = (w, c') \<Longrightarrow> c_connectDone c' = c_connectDone c \<and> c_closeDone c' = c_closeDone c \<and> c_closed c' = c_closed c"
  "fail_run r ferr (c, rs) = (c', rs') \<Longrightarrow> c_connectDone c' = c_connectDone c \<and> c_closeDone c' = c_closeDone c \<and> c_closed c' = c_closed c"
  "claimTerminalCallback c = (res', c') \<Longrightarrow> c_connectDone c' = c_connectDone c \<and> c_closeDone c' = c_closeDone c \<and> c_closed c' = c_closed c"
  "run_event_fn ev' c = (ns, c') \<Longrightarrow> c_connectDone c' = c_connectDone c \<and> c_closeDone c' = c_closeDone c \<and> c_closed c' = c_closed c"
  "Login_install r ep prov i dres now c = Some (x, c') \<Longrightarrow> c_connectDone c' = c_connectDone c \<and> c_closeDone c' = c_closeDone c \<and> c_closed c' = c_closed c"
  "reconnect_install r ep prov now rc c = Some (epoch, c') \<Longrightarrow> c_connectDone c' = c_connectDone c \<and> c_closeDone c' = c_closeDone c \<and> c_closed c' = c_closed c"
  "reconnect_begin old c = Some (y, c') \<Longrightarrow> c_connectDone c' = c_connectDone c \<and> c_closeDone c' = c_closeDone c \<and> c_closed c' = c_closed c"
  "Login_admit lu lt c = (lres, c') \<Longrightarrow> c_connectDone c' = c_connectDone c \<and> c_closeDone c' = c_closeDone c \<and> c_closed c' = c_closed c"
           apply (auto simp: recordTerminalForRunSession_def publishTerminalCallbackLocked_def Let_def split: if_splits) [1]
          apply (auto simp: detachCanceledSessionForLogout_def Let_def split: if_splits) [1]
         apply (auto simp: Logout_detach_def Let_def split: if_splits) [1]
        apply (auto simp: scheduleTokenExpiryWarning_def Let_def split: if_splits) [1]
       apply (auto simp: fail_run_def split: if_splits) [1]
      apply (auto simp: claimTerminalCallback_def split: option.splits) [1]
     apply (auto simp: run_event_fn_def split: if_splits best_effort.splits) [1]
    apply (auto simp: Login_install_def startSessionLocked_def cancel_session_def Let_def split: if_splits option.splits) [1]
   apply (auto simp: reconnect_install_def Let_def split: if_splits) [1]
  apply (auto simp: reconnect_begin_def Let_def split: if_splits option.splits) [1]
  apply (auto simp: Login_admit_def split: if_splits) [1]
  done

lemma beginConnect_passes:
  "beginConnect_round opn c = (BeginGranted ch, c') \<Longrightarrow> c_connectDone c = None \<and> \<not> c_closed c \<and> c_connectDone c' = Some ch"
  "beginConnect_round opn c = (BeginWait ch, c') \<Longrightarrow> c' = c \<and> c_connectDone c = Some ch"
  "beginConnect_round opn c = (BeginErr e, c') \<Longrightarrow> c' = c"
  by (auto simp: beginConnect_round_def split: if_splits option.splits)

lemma reconnect_store_frame [simp]:
  "c_connectDone (reconnect_store res rc c) = c_connectDone c" "c_closeDone (reconnect_store res rc c) = c_closeDone c"
  "c_closed (reconnect_store res rc c) = c_closed c" "c_run (reconnect_store res rc c) = c_run c"
  "c_state (reconnect_store res rc c) = c_state c" "c_sessionCtx (reconnect_store res rc c) = c_sessionCtx c"
  "c_sessionGeneration (reconnect_store res rc c) = c_sessionGeneration c"
  by (simp_all add: reconnect_store_def)

lemma tstep_passes:
  assumes "tstep lib settled (c, rs) T (c', rs') T' sp dl" and "wf_thread T" and "client_inv c"
    and "\<forall>ch. held T = Some ch \<longrightarrow> c_connectDone c = Some ch"
  shows "passes c T c' T'"
  using assms(1,2,4)
proof cases
qed (auto simp: passes_def endConnect_def recordTerminal_def recordTerminalForRun_def recordTerminalForSession_def
   dest!: connectDone_step connectDone_step(5) [OF sym] beginConnect_passes beginLogout_kept [OF assms(3)]
   split: if_splits)

lemma tstep_close_ok:
  assumes "tstep lib settled (c, rs) T (c', rs') T' sp dl" and "wf_thread T" and "client_inv c" and "close_ok c T"
  shows "close_ok c' T'" and "closer T' \<Longrightarrow> closer T" and "closer T \<Longrightarrow> closer T' \<or> c_closeDone c'"
    and "c_closeDone c' \<longleftrightarrow> c_closeDone c \<or> T = CloseCodec" and "c_closed c' = c_closed c"
proof -
  have chan: "c_connectDone c \<noteq> Some ch" if "ch \<in> set (c_closedChans c)" for ch
    using that client_inv_parts(2) [OF assms(3)] by (auto simp: chan_ok_def)
  note done_step = connectDone_step connectDone_step(5) [OF sym] connectDone_step(5) [OF sym]
  show "close_ok c' T'"
    using assms(1,2,4)
  proof cases
  qed (use chan in \<open>auto simp: close_ok_def recordTerminal_def recordTerminalForRun_def recordTerminalForSession_def emit_opt_def
       signal_if_def installed_def dest: held_tail core_eqs(1) [OF core_step(1) [OF sym]] split: option.splits\<close>)
  show "closer T' \<Longrightarrow> closer T"
    using assms(1,2) by cases (auto dest: held_tail split: if_splits)
  show "closer T \<Longrightarrow> closer T' \<or> c_closeDone c'"
    using assms(1,2) by cases auto
  show "c_closeDone c' \<longleftrightarrow> c_closeDone c \<or> T = CloseCodec"
    using assms(1)
  proof cases
  qed (auto simp: recordTerminal_def recordTerminalForRun_def recordTerminalForSession_def beginConnect_round_def
      endConnect_def beginLogout_round_def Let_def dest!: done_step split: if_splits option.splits)
  show "c_closed c' = c_closed c"
    using assms(1)
  proof cases
  qed (auto simp: recordTerminal_def recordTerminalForRun_def recordTerminalForSession_def beginConnect_round_def
      endConnect_def beginLogout_round_def Let_def dest!: done_step split: if_splits option.splits)
qed

inductive_cases tstep_CloseCodecE: "tstep lib settled (c, rs) CloseCodec (c', rs') T' sp dl"

section \<open>Who is responsible for a session\<close>

definition active :: "client \<Rightarrow> bool" where
  "active c \<longleftrightarrow> c_state c = LoginStateLoggedIn \<or> c_state c = LoginStateReconnecting"

definition recon_live :: "client \<Rightarrow> reconnection \<Rightarrow> bool" where
  "recon_live c rc \<longleftrightarrow> c_run c = Some (rc_old rc) \<and> c_state c = LoginStateReconnecting \<and> c_sessionCtx c = Some (rc_session rc)"

definition session_resp :: "client \<Rightarrow> thread \<Rightarrow> bool" where
  "session_resp c T \<longleftrightarrow> (\<exists>r. watched T = Some r \<and> c_run c = Some r) \<or> (\<exists>rc. recon_of T = Some rc \<and> recon_live c rc)"

definition logout_resp :: "client \<Rightarrow> thread \<Rightarrow> bool" where
  "logout_resp c T \<longleftrightarrow>
     is_logout_owner T \<or> (logout_gen T = Some (c_sessionGeneration c) \<and> c_state c = LoginStateReconnecting)"

lemma recon_live_current:
  assumes "recon_live c rc" and "client_inv c" and "rc_gen rc = of_nat (Suc (rc_session rc))"
  shows "reconnect_current rc c" and "\<not> session_done (rc_session rc) c" and "\<not> c_closed c"
proof -
  have l: "c_run c = Some (rc_old rc)" "c_state c = LoginStateReconnecting" "c_sessionCtx c = Some (rc_session rc)"
    using assms(1) by (simp_all add: recon_live_def)
  then have s: "Suc (rc_session rc) = c_sessions c" "rc_session rc \<notin> set (c_canceledSessions c)"
      "c_sessionGeneration c = of_nat (c_sessions c)"
    using client_inv_parts(1) [OF assms(2)] by (simp_all add: session_ok_def)
  show "\<not> c_closed c" using client_inv_parts(5) [OF assms(2)] l(2) by auto
  then show "\<not> session_done (rc_session rc) c"
    using s(2) client_inv_parts(4) [OF assms(2)] by (simp add: session_done_def)
  show "reconnect_current rc c"
    using l s(3) unfolding s(1) [symmetric] assms(3) [symmetric]
    by (simp add: reconnect_current_def sessionIsCurrentLocked_def)
qed

text \<open>The kinds of steps, by what they do to the session.\<close>

definition steady :: "run_obj list \<Rightarrow> client \<Rightarrow> thread \<Rightarrow> run_obj list \<Rightarrow> client \<Rightarrow> thread \<Rightarrow> thread list \<Rightarrow> bool" where
  "steady rs c T rs' c' T' sp \<longleftrightarrow>
     c_state c' = c_state c \<and> c_run c' = c_run c \<and> c_sessionCtx c' = c_sessionCtx c \<and> c_sessionGeneration c' = c_sessionGeneration c
     \<and> (login_of T \<noteq> None \<and> \<not> c_closed c \<longrightarrow> login_of T' \<noteq> None)
     \<and> (\<forall>r < length rs'. \<not> ro_done (rs' ! r) \<longrightarrow> r \<in> set (open_runs T') \<or> r < length rs \<and> \<not> ro_done (rs ! r) \<and> r \<notin> set (open_runs T))
     \<and> (active c \<and> c_sessionCtx c \<noteq> None \<and> session_resp c T \<longrightarrow> (\<exists>S \<in> set (T' # sp). session_resp c' S))
     \<and> (active c \<and> c_sessionCtx c = None \<and> logout_resp c T \<longrightarrow> logout_resp c' T')"

definition moves :: "run_obj list \<Rightarrow> client \<Rightarrow> thread \<Rightarrow> run_obj list \<Rightarrow> client \<Rightarrow> thread \<Rightarrow> bool" where
  "moves rs c T rs' c' T' \<longleftrightarrow>
     rs' = rs \<and>
     (c_state c' = LoginStateLogout \<and> c_run c' = None \<and> open_runs T = []
        \<and> (\<forall>r. c_run c = Some r \<longrightarrow> run_done rs r \<or> r \<in> set (open_runs T'))
      \<or> c_state c' = LoginStateLoggingIn \<and> c_run c = None \<and> c_run c' = None \<and> open_runs T = [] \<and> login_of T' \<noteq> None
      \<or> c_state c' = LoginStateLoggedIn \<and> c_sessionCtx c' \<noteq> None
        \<and> (\<exists>r. c_run c' = Some r \<and> open_runs T = [r] \<and> watched T' = Some r)
        \<and> (\<forall>r. c_run c = Some r \<longrightarrow> run_done rs r)
      \<or> c_state c' = LoginStateReconnecting \<and> c_run c' = c_run c \<and> open_runs T = [] \<and> c_sessionCtx c' \<noteq> None
        \<and> (\<exists>r. c_run c = Some r \<and> run_done rs r) \<and> (\<exists>rc. recon_of T' = Some rc \<and> recon_live c' rc)
      \<or> c_state c' = c_state c \<and> c_run c' = c_run c \<and> c_sessionGeneration c' = c_sessionGeneration c \<and> c_sessionCtx c' = None
        \<and> open_runs T = [] \<and> login_of T = None \<and> (active c \<longrightarrow> logout_resp c' T'))"

lemma beginLogout_frame:
  "beginLogout_round cg c = (res, cg', c') \<Longrightarrow>
     c_state c' = c_state c \<and> c_run c' = c_run c \<and> c_sessionGeneration c' = c_sessionGeneration c"
  by (auto simp: beginLogout_round_def Let_def split: if_splits option.splits)

lemma session_generation_nonzero: "session_ok c \<Longrightarrow> 0 < c_sessions c \<Longrightarrow> c_sessionGeneration c \<noteq> 0"
  using nat_dvd_not_less [of "c_sessions c" "2 ^ 64"] by (simp add: session_ok_def word_of_nat_eq_0_iff)

lemma life_step:
  "scheduleTokenExpiryWarning g ex c = (w, c') \<Longrightarrow> c_state c' = c_state c \<and> c_run c' = c_run c \<and> c_sessionCtx c' = c_sessionCtx c \<and> c_sessionGeneration c' = c_sessionGeneration c"
  "claimTerminalCallback c = (res, c') \<Longrightarrow> c_state c' = c_state c \<and> c_run c' = c_run c \<and> c_sessionCtx c' = c_sessionCtx c \<and> c_sessionGeneration c' = c_sessionGeneration c"
  "run_event_fn ev c = (ns, c') \<Longrightarrow> c_state c' = c_state c \<and> c_run c' = c_run c \<and> c_sessionCtx c' = c_sessionCtx c \<and> c_sessionGeneration c' = c_sessionGeneration c"
  "endConnect ch c = Some c' \<Longrightarrow> c_state c' = c_state c \<and> c_run c' = c_run c \<and> c_sessionCtx c' = c_sessionCtx c \<and> c_sessionGeneration c' = c_sessionGeneration c"
  "beginConnect_round opn c = (bres, c') \<Longrightarrow> c_state c' = c_state c \<and> c_run c' = c_run c \<and> c_sessionCtx c' = c_sessionCtx c \<and> c_sessionGeneration c' = c_sessionGeneration c"
  using token_only_steps(1) [of g ex c w c'] core_eqs [OF core_step(2) [of c res c']] core_eqs [OF core_step(3) [of ev c ns c']]
  by (auto simp: token_only_def core_def endConnect_def beginConnect_round_def split: if_splits option.splits)

lemma install_refused:
  "Login_install r ep prov i res now c = None \<Longrightarrow> c_closed c"
  "reconnect_install r ep prov now rc c = None \<Longrightarrow> c_closed c \<or> \<not> reconnect_current rc c \<or> session_done (rc_session rc) c"
  "beginLogout_round cg c = (BeginErr e, cg', c') \<Longrightarrow> c_closed c \<and> c' = c"
  "reconnect_begin old c = None \<Longrightarrow> c_sessionCtx c = None \<or> c_closed c \<or> c_run c \<noteq> Some old \<or> c_state c = LoginStateLogout"
  by (auto simp: Login_install_def reconnect_install_def reconnect_current_def reconnect_begin_def beginLogout_round_def Let_def
      split: if_splits option.splits prod.splits)

lemma tstep_life:
  assumes step: "tstep lib settled (c, rs) T (c', rs') T' sp dl" and wf: "wf_thread T" and inv: "client_inv c"
    and login: "login_ok c T" and recon: "recon_ok c rs T" and gen: "c_sessionGeneration c \<noteq> - 1"
    and dead: "\<forall>r. c_state c = LoginStateReconnecting \<and> c_run c = Some r \<longrightarrow> run_done rs r"
    and own: "\<forall>ch. held T = Some ch \<longrightarrow> c_connectDone c = Some ch"
  shows "steady rs c T rs' c' T' sp \<or> moves rs c T rs' c' T'"
proof -
  have live: "reconnect_current rc c \<and> \<not> session_done (rc_session rc) c \<and> \<not> c_closed c"
    if "recon_live c rc" "recon_of T = Some rc" for rc
    using that recon recon_live_current [OF that(1) inv] by (simp add: recon_ok_def)
  have open_client: "\<not> c_closed c \<and> c_state c \<noteq> LoginStateLogout" if "active c"
    using that client_inv_parts(5) [OF inv] by (auto simp: active_def)
  show ?thesis
    using step wf
  proof cases
    case (ts_login_installed r i res now ctx g epoch u ch)
    have "c_closed c \<or> c_state c = LoginStateLoggingIn" using login ts_login_installed by (auto simp: login_ok_def)
    note k = Login_install_kept [OF inv this gen ts_login_installed(6)]
    show ?thesis using k ts_login_installed by (simp add: moves_def)
  next
    case (ts_recon_installed r now rc epoch n ch)
    note k = reconnect_install_kept [OF inv ts_recon_installed(6)]
    have "c_sessionCtx c \<noteq> None" using ts_recon_installed(6)
      by (auto simp: reconnect_install_def sessionIsCurrentLocked_def split: if_splits)
    then show ?thesis using k dead ts_recon_installed by (simp add: moves_def)
  next
    case (ts_login_admitted u t epoch ch)
    then show ?thesis using Login_admitted(1) [OF ts_login_admitted(6)] client_inv_parts(3) [OF inv]
      by (auto simp: moves_def shape_ok_def logged_out_def)
  next
    case (ts_login_failed e published u ch)
    have e: "core c' = (if c_closed c then core c else core (ended c))"
      using recordTerminal_core [of None 0 False "Some e" c published c'] ts_login_failed(6) by (simp add: recordTerminal_def)
    have "c_run c = None"
      using client_inv_parts(3) [OF inv] login ts_login_failed by (auto simp: login_ok_def shape_ok_def logged_out_def)
    then show ?thesis using core_eqs [of c' c] core_eqs [of c' "ended c"] e ts_login_failed client_inv_parts(5) [OF inv]
      by (auto simp: moves_def split: if_splits)
  next
    case (ts_monitor_record r err published)
    have e: "core c' = (if c_closed c \<or> c_run c \<noteq> Some r then core c else core (ended c))"
      using recordTerminal_core [of "Some r" 0 False err c published c'] ts_monitor_record(6) by (simp add: recordTerminalForRun_def)
    have d: "run_done rs r" using recon ts_monitor_record by (simp add: recon_ok_def)
    show ?thesis
    proof (cases "c_closed c \<or> c_run c \<noteq> Some r")
      case True
      then have "active c \<longrightarrow> c_run c \<noteq> Some r" using client_inv_parts(5) [OF inv] by (auto simp: active_def)
      then show ?thesis using True e core_eqs [of c' c] ts_monitor_record
        by (auto simp: steady_def session_resp_def logout_resp_def)
    next
      case False
      then show ?thesis using e core_eqs [of c' "ended c"] ts_monitor_record d by (auto simp: moves_def)
    qed
  next
    case (ts_recon_terminal rc e published)
    have e: "core c' = (if c_closed c \<or> c_run c \<noteq> Some (rc_old rc) \<or> \<not> sessionIsCurrentLocked (rc_gen rc) c then core c else core (ended c))"
      using recordTerminal_core [of "Some (rc_old rc)" "rc_gen rc" True "Some e" c published c'] ts_recon_terminal(6)
      by (simp add: recordTerminalForSession_def)
    have r: "run_done rs (rc_old rc)" "rc_gen rc = of_nat (Suc (rc_session rc))"
      using recon ts_recon_terminal by (simp_all add: recon_ok_def)
    show ?thesis
    proof (cases "c_closed c \<or> c_run c \<noteq> Some (rc_old rc) \<or> \<not> sessionIsCurrentLocked (rc_gen rc) c")
      case True
      then have "\<not> recon_live c rc" using recon_live_current [OF _ inv r(2)] by (auto simp: reconnect_current_def)
      then show ?thesis using True e core_eqs [of c' c] ts_recon_terminal wf
        by (auto simp: steady_def session_resp_def logout_resp_def)
    next
      case False
      then show ?thesis using e core_eqs [of c' "ended c"] ts_recon_terminal r(1) by (auto simp: moves_def)
    qed
  next
    case (ts_recon_begin old rc lastErr ev)
    note b = reconnect_begin_kept [OF inv ts_recon_begin(6)]
    have "run_done rs old" using recon ts_recon_begin by (simp add: recon_ok_def)
    then show ?thesis using b ts_recon_begin by (auto simp: moves_def recon_live_def)
  next
    case (ts_begin_logout cg ch cg')
    note b = beginLogout_kept [OF inv ts_begin_logout(6)]
    show ?thesis using b ts_begin_logout beginLogout_frame [OF ts_begin_logout(6)]
      by (simp add: moves_def logout_resp_def)
  next
    case (ts_begin_logout_wait cg ch cg')
    note b = beginLogout_kept [OF inv ts_begin_logout_wait(6)]
    show ?thesis
    proof (cases "c' = c \<and> cg' = cg")
      case True
      then show ?thesis using ts_begin_logout_wait by (auto simp: steady_def session_resp_def logout_resp_def)
    next
      case False
      then have "c_state c = LoginStateReconnecting" "cg' = Some (c_sessionGeneration c)" "c' = cancelSessionLocked c" using b by auto
      then show ?thesis using ts_begin_logout_wait by (simp add: moves_def logout_resp_def)
    qed
  next
    case (ts_logout_detach g ch ev)
    note b = detach_kept(3) [OF inv ts_logout_detach(6)]
    have T: "logout_gen T = Some g" "open_runs T = []" "login_of T = None" "watched T = None" "recon_of T = None" "\<not> is_logout_owner T"
      using ts_logout_detach(5) by auto
    show ?thesis
    proof (cases "g = 0 \<or> c_sessionGeneration c \<noteq> g \<or> c_sessionCtx c \<noteq> None \<or> c_state c \<noteq> LoginStateReconnecting")
      case True
      have "\<not> (c_sessionCtx c = None \<and> logout_resp c T)"
        using True T recon session_generation_nonzero [OF client_inv_parts(1) [OF inv]]
        by (auto simp: logout_resp_def recon_ok_def)
      then show ?thesis using True b core_eqs [of c' c] ts_logout_detach T
        by (auto simp: steady_def session_resp_def)
    next
      case False
      then have "core c' = core (ended c)" using b by simp
      then show ?thesis using False core_eqs [of c' "ended c"] ts_logout_detach T dead by (simp add: moves_def)
    qed
  next
    case (ts_logout_refused e cg ch)
    have "c_sessionCtx c = None" using login ts_logout_refused by (simp add: login_ok_def)
    then have "c_closed c \<and> c' = c" using Logout_detach_kept(4) [OF inv ts_logout_refused(6)] by simp
    then show ?thesis using ts_logout_refused client_inv_parts(5) [OF inv] by (auto simp: steady_def active_def)
  next
    case (ts_logout_no_run sid ev cg ch)
    have n: "c_sessionCtx c = None" using login ts_logout_no_run by (simp add: login_ok_def)
    note d = Logout_detach_kept [OF inv ts_logout_no_run(6) n]
    have "core c' = core (ended c)" "c_run c = None" using d(2) d(3) [OF refl] by auto
    then show ?thesis using ts_logout_no_run core_eqs [of c' "ended c"] by (simp add: moves_def)
  next
    case (ts_logout_run r sid ev cg ch)
    have n: "c_sessionCtx c = None" using login ts_logout_run by (simp add: login_ok_def)
    note d = Logout_detach_kept [OF inv ts_logout_run(6) n]
    have "core c' = core (ended c)" "c_run c = Some r" using d(2) d(3) [OF refl] by auto
    then show ?thesis using ts_logout_run core_eqs [of c' "ended c"] by (simp add: moves_def)
  next
    case (ts_discard r err)
    have f: "fail_run r (Some err) (c, rs) = (c', rs')" using ts_discard by simp
    have "\<forall>k < length rs'. \<not> ro_done (rs' ! k) \<longrightarrow> k < length rs \<and> \<not> ro_done (rs ! k) \<and> k \<noteq> r"
      using f by (auto simp: fail_run_def nth_list_update split: if_splits)
    then show ?thesis using ts_discard wf core_eqs [OF core_step(1) [OF f]]
      by (auto simp: steady_def session_resp_def logout_resp_def)
  next
    case (ts_panic ch)
    then show ?thesis using own by (simp add: endConnect_def)
  next
    case (ts_begin_recon_err e rc n)
    then have "c_closed c" "c' = c" by (auto simp: beginConnect_round_def split: option.splits if_splits)
    then show ?thesis using ts_begin_recon_err open_client by (auto simp: steady_def)
  qed (use live open_client in \<open>auto simp: steady_def session_resp_def logout_resp_def recon_live_def blocked_attrs nth_append
         dest!: life_step install_refused Login_admitted(2) reconnect_plan_vars\<close>)
qed

end
