(* ===== verification/Client_Invariant.thy ===== *)
theory Client_Invariant
  imports Client_Lifecycle
begin

text \<open>
  The invariant of the client system over all threads, and the properties of ownership, login, logout,
  reconnect and close that rest on it.
\<close>

section \<open>The invariant\<close>

lemma login_held: "login_of T \<noteq> None \<or> is_logout_owner T \<Longrightarrow> held T \<noteq> None"
  by (induction T rule: is_logout_owner.induct) auto

lemma open_held: "wf_thread T \<Longrightarrow> open_runs T \<noteq> [] \<Longrightarrow> held T \<noteq> None \<or> closer T"
  by (cases T) auto

text \<open>At most one thread has a mark.\<close>

definition unique :: "('a \<Rightarrow> bool) \<Rightarrow> 'a list \<Rightarrow> bool" where
  "unique P xs \<longleftrightarrow> (\<forall>i < length xs. \<forall>j < length xs. P (xs ! i) \<longrightarrow> P (xs ! j) \<longrightarrow> i = j)"

definition owners_ok :: "client \<Rightarrow> thread list \<Rightarrow> bool" where
  "owners_ok c ts \<longleftrightarrow> unique (\<lambda>T. held T \<noteq> None) ts
     \<and> (\<forall>T \<in> set ts. \<forall>ch. held T = Some ch \<longrightarrow> c_connectDone c = Some ch)
     \<and> (c_connectDone c \<noteq> None \<longrightarrow> (\<exists>T \<in> set ts. held T \<noteq> None))"

definition closers_ok :: "client \<Rightarrow> thread list \<Rightarrow> bool" where
  "closers_ok c ts \<longleftrightarrow> unique closer ts \<and> (\<forall>T \<in> set ts. closer T \<longrightarrow> \<not> c_closeDone c)
     \<and> (c_closed c \<and> \<not> c_closeDone c \<longrightarrow> (\<exists>T \<in> set ts. closer T))
     \<and> (c_closeDone c \<longrightarrow> c_closed c \<and> c_connectDone c = None \<and> flights c = [])"

definition runs_ok :: "client \<Rightarrow> run_obj list \<Rightarrow> thread list \<Rightarrow> bool" where
  "runs_ok c rs ts \<longleftrightarrow>
     (\<forall>r < length rs. \<not> ro_done (rs ! r) \<longrightarrow> c_run c = Some r \<or> (\<exists>T \<in> set ts. r \<in> set (open_runs T)))
     \<and> (\<forall>r. c_run c = Some r \<longrightarrow> r < length rs)
     \<and> (\<forall>r. c_state c = LoginStateReconnecting \<and> c_run c = Some r \<longrightarrow> run_done rs r)"

definition resp_ok :: "client \<Rightarrow> thread list \<Rightarrow> bool" where
  "resp_ok c ts \<longleftrightarrow>
     (c_state c = LoginStateLoggingIn \<longrightarrow> (\<exists>T \<in> set ts. login_of T \<noteq> None))
     \<and> (active c \<and> c_sessionCtx c \<noteq> None \<longrightarrow> (\<exists>T \<in> set ts. session_resp c T))
     \<and> (active c \<and> c_sessionCtx c = None \<longrightarrow> (\<exists>T \<in> set ts. logout_resp c T))"

definition sys_inv :: "client_system \<Rightarrow> bool" where
  "sys_inv s \<longleftrightarrow> client_inv (s_client s) \<and> (\<forall>T \<in> set (s_threads s). thread_ok (s_client s) (s_runs s) T)
     \<and> owners_ok (s_client s) (s_threads s) \<and> closers_ok (s_client s) (s_threads s)
     \<and> runs_ok (s_client s) (s_runs s) (s_threads s) \<and> resp_ok (s_client s) (s_threads s)"

section \<open>A step of one thread among the others\<close>

lemma set_update_others:
  assumes "i < length ts"
  shows "set (ts[i := T]) = insert T {ts ! j |j. j < length ts \<and> j \<noteq> i}"
proof
  show "set (ts[i := T]) \<subseteq> insert T {ts ! j |j. j < length ts \<and> j \<noteq> i}"
  proof
    fix U assume "U \<in> set (ts[i := T])"
    then obtain k where "k < length ts" "U = ts[i := T] ! k" by (auto simp: in_set_conv_nth)
    then show "U \<in> insert T {ts ! j |j. j < length ts \<and> j \<noteq> i}" by (cases "k = i") auto
  qed
  have "ts ! j \<in> set (ts[i := T])" if "j < length ts" "j \<noteq> i" for j
    using that nth_mem [of j "ts[i := T]"] by simp
  then show "insert T {ts ! j |j. j < length ts \<and> j \<noteq> i} \<subseteq> set (ts[i := T])"
    using set_update_memI [OF assms, of T] by auto
qed

lemma new_thread_cases:
  assumes "U \<in> set (ts[i := T] @ sp)" and "i < length ts"
  obtains (self) "U = T" | (spawned) "U \<in> set sp" | (other) j where "j < length ts" "j \<noteq> i" "U = ts ! j"
  using assms set_update_others [of i ts T] by auto

lemma new_threadI:
  assumes "i < length ts"
  shows "T \<in> set (ts[i := T] @ sp)" and "j < length ts \<Longrightarrow> j \<noteq> i \<Longrightarrow> ts ! j \<in> set (ts[i := T] @ sp)"
  using assms set_update_others [of i ts T] by auto

lemma unique_update:
  assumes "unique P ts" and "i < length ts" and sp: "\<forall>S \<in> set sp. \<not> P S"
    and new: "P T \<Longrightarrow> P (ts ! i) \<or> (\<forall>U \<in> set ts. \<not> P U)"
  shows "unique P (ts[i := T] @ sp)"
proof -
  have marked: "k < length ts \<and> (k = i \<and> P T \<or> k \<noteq> i \<and> P (ts ! k))"
    if k: "k < length (ts[i := T] @ sp)" "P ((ts[i := T] @ sp) ! k)" for k
  proof (cases "k < length ts")
    case True
    then have "(ts[i := T] @ sp) ! k = (if k = i then T else ts ! k)" by (simp add: nth_append)
    then show ?thesis using True k(2) by (auto split: if_splits)
  next
    case False
    then have "(ts[i := T] @ sp) ! k \<in> set sp" using k(1) by (auto simp: nth_append)
    then show ?thesis using sp k(2) by blast
  qed
  have one: "k = i" if "P T" "k < length ts" "P (ts ! k)" for k
    using assms(1,2) new [OF that(1)] that nth_mem by (auto simp: unique_def)
  have "a = b" if "a < length (ts[i := T] @ sp)" "b < length (ts[i := T] @ sp)"
    "P ((ts[i := T] @ sp) ! a)" "P ((ts[i := T] @ sp) ! b)" for a b
    using marked [OF that(1,3)] marked [OF that(2,4)] one assms(1) unfolding unique_def by blast
  then show ?thesis unfolding unique_def by blast
qed

text \<open>Thread \<open>i\<close> makes a step in a state where the invariants hold.\<close>

definition at_step ::
  "url_lib \<Rightarrow> nat list \<Rightarrow> client \<Rightarrow> run_obj list \<Rightarrow> thread list \<Rightarrow> nat \<Rightarrow> client \<Rightarrow> run_obj list \<Rightarrow> thread \<Rightarrow> thread list \<Rightarrow> bool" where
  "at_step lib settled c rs ts i c' rs' T' sp \<longleftrightarrow>
     i < length ts \<and> (\<exists>dl. tstep lib settled (c, rs) (ts ! i) (c', rs') T' sp dl) \<and> client_inv c
     \<and> (\<forall>T \<in> set ts. thread_ok c rs T) \<and> owners_ok c ts \<and> closers_ok c ts \<and> runs_ok c rs ts \<and> resp_ok c ts
     \<and> c_sessionGeneration c \<noteq> - 1"

lemma at_stepD:
  assumes "at_step lib settled c rs ts i c' rs' T' sp"
  obtains dl where "tstep lib settled (c, rs) (ts ! i) (c', rs') T' sp dl"
    and "i < length ts" and "client_inv c" and "owners_ok c ts" and "closers_ok c ts" and "runs_ok c rs ts" and "resp_ok c ts"
    and "wf_thread (ts ! i)" and "login_ok c (ts ! i)" and "recon_ok c rs (ts ! i)" and "wait_ok c (ts ! i)" and "close_ok c (ts ! i)"
    and "\<forall>ch. held (ts ! i) = Some ch \<longrightarrow> c_connectDone c = Some ch" and "c_sessionGeneration c \<noteq> - 1"
  using assms nth_mem [of i ts] that unfolding at_step_def thread_ok_def owners_ok_def by blast

lemma step_basics:
  assumes "at_step lib settled c rs ts i c' rs' T' sp"
  shows "kept c c'" and "evolves c c'" and "passes c (ts ! i) c' T'" and "runs_grow rs rs'"
    and "\<And>S. S \<in> set sp \<Longrightarrow> (\<exists>r. S = Monitor r) \<or> (\<exists>w s g u ex. S = WarnTimer w s g u ex)"
    and "\<And>j. j < length ts \<Longrightarrow> j \<noteq> i \<Longrightarrow> held (ts ! j) \<noteq> None \<Longrightarrow> held (ts ! i) = None"
    and "\<And>j. j < length ts \<Longrightarrow> j \<noteq> i \<Longrightarrow> closer (ts ! j) \<Longrightarrow> \<not> closer (ts ! i)"
proof -
  from at_stepD [OF assms] obtain dl where
    st: "tstep lib settled (c, rs) (ts ! i) (c', rs') T' sp dl" and
    i: "i < length ts" "client_inv c" "owners_ok c ts" "closers_ok c ts" and
    T: "wf_thread (ts ! i)" "login_ok c (ts ! i)" "\<forall>ch. held (ts ! i) = Some ch \<longrightarrow> c_connectDone c = Some ch"
      "c_sessionGeneration c \<noteq> - 1" by metis
  show "kept c c'" using tstep_kept [OF st i(2) T(2,4)] .
  then show "evolves c c'" by (simp add: kept_def)
  show "passes c (ts ! i) c' T'" using tstep_passes [OF st T(1) i(2) T(3)] .
  show "runs_grow rs rs'" using tstep_runs [OF st] .
  show "\<And>S. S \<in> set sp \<Longrightarrow> (\<exists>r. S = Monitor r) \<or> (\<exists>w s g u ex. S = WarnTimer w s g u ex)"
    using tstep_wf(2) [OF st T(1,3)] by blast
  show "\<And>j. j < length ts \<Longrightarrow> j \<noteq> i \<Longrightarrow> held (ts ! j) \<noteq> None \<Longrightarrow> held (ts ! i) = None"
    using i(1,3) unfolding owners_ok_def unique_def by blast
  show "\<And>j. j < length ts \<Longrightarrow> j \<noteq> i \<Longrightarrow> closer (ts ! j) \<Longrightarrow> \<not> closer (ts ! i)"
    using i(1,4) unfolding closers_ok_def unique_def by blast
qed

lemma other_close_ok:
  assumes a: "at_step lib settled c rs ts i c' rs' T' sp" and j: "j < length ts" "j \<noteq> i" and U: "close_ok c (ts ! j)"
  shows "close_ok c' (ts ! j)"
proof -
  let ?U = "ts ! j"
  from at_stepD [OF a] obtain dl where st: "tstep lib settled (c, rs) (ts ! i) (c', rs') T' sp dl" and wf: "wf_thread (ts ! i)"
    and own: "\<forall>ch. held (ts ! i) = Some ch \<longrightarrow> c_connectDone c = Some ch" by metis
  note b = step_basics [OF a]
  have fl: "flights c' = flights c" if "closer ?U" "c_connectDone c = None"
  proof -
    have "held (ts ! i) = None" using own that(2) by (cases "held (ts ! i)") auto
    then show ?thesis using tstep_flights [OF st wf] b(7) [OF j that(1)] by auto
  qed
  have cd: "c_connectDone c' = None \<or> c_connectDone c' = Some ch" if "c_connectDone c = Some ch" for ch
    using b(3) that unfolding passes_def by auto
  have ev: "c_closed c \<longrightarrow> c_closed c'" "c_closed c \<and> c_connectDone c = None \<longrightarrow> c_connectDone c' = None"
    using b(2) by (simp_all add: evolves_def)
  show ?thesis unfolding close_ok_def
  proof (intro conjI allI impI)
    show "closer ?U \<Longrightarrow> c_closed c'" using U ev(1) by (simp add: close_ok_def)
    show "c_connectDone c' = None \<or> c_connectDone c' = Some ch" if "?U = CloseWait ch" for ch
    proof (cases "c_connectDone c")
      case None
      then show ?thesis using U that ev(2) by (simp add: close_ok_def)
    next
      case (Some ch')
      then show ?thesis using U that cd [OF Some] by (simp add: close_ok_def)
    qed
    show n: "c_connectDone c' = None"
      if "?U = CloseFlights \<or> (\<exists>ds. ?U = CloseAwait ds) \<or> ?U = CloseDrain \<or> ?U = CloseCodec"
      using U that ev(2) by (auto simp: close_ok_def)
    show "flights c' = []" if "?U = CloseDrain \<or> ?U = CloseCodec"
      using U that fl by (auto simp: close_ok_def)
  qed
qed

lemma other_ok:
  assumes a: "at_step lib settled c rs ts i c' rs' T' sp" and j: "j < length ts" "j \<noteq> i"
  shows "thread_ok c' rs' (ts ! j)"
proof -
  let ?U = "ts ! j"
  from at_stepD [OF a] obtain dl where st: "tstep lib settled (c, rs) (ts ! i) (c', rs') T' sp dl" and wf: "wf_thread (ts ! i)"
    and inv: "client_inv c" by metis
  note b = step_basics [OF a]
  have U: "wf_thread ?U" "login_ok c ?U" "recon_ok c rs ?U" "wait_ok c ?U" "close_ok c ?U"
    using a nth_mem [OF j(1)] by (auto simp: at_step_def thread_ok_def)
  have "login_ok c' ?U" unfolding login_ok_def
  proof (intro conjI allI impI)
    fix u assume u: "login_of ?U = Some u"
    then have "quiet c c'" using tstep_quiet [OF st inv wf b(6) [OF j]] login_held [of ?U] by simp
    then show "c_closed c' \<or> c_state c' = LoginStateLoggingIn \<and> c_userID c' = u"
      using U(2) u b(2) by (auto simp: login_ok_def quiet_def evolves_def)
  next
    assume o: "is_logout_owner ?U"
    then have "quiet c c'" using tstep_quiet [OF st inv wf b(6) [OF j]] login_held [of ?U] by simp
    then show "c_sessionCtx c' = None" using U(2) o by (simp add: login_ok_def quiet_def)
  qed
  moreover have "wait_ok c' ?U" using U(4) b(2) by (auto simp: wait_ok_def evolves_def)
  ultimately show ?thesis
    using U(1) recon_ok_mono [OF U(3) b(2,4)] other_close_ok [OF a j U(5)] by (simp add: thread_ok_def)
qed

lemma threads_step:
  assumes a: "at_step lib settled c rs ts i c' rs' T' sp"
  shows "\<forall>U \<in> set (ts[i := T'] @ sp). thread_ok c' rs' U"
proof
  fix U assume U: "U \<in> set (ts[i := T'] @ sp)"
  from at_stepD [OF a] obtain dl where st: "tstep lib settled (c, rs) (ts ! i) (c', rs') T' sp dl" and wf: "wf_thread (ts ! i)"
    and i: "i < length ts" and inv: "client_inv c" and lo: "login_ok c (ts ! i)" and re: "recon_ok c rs (ts ! i)"
    and cl: "close_ok c (ts ! i)" and ro: "runs_ok c rs ts"
    and own: "\<forall>ch. held (ts ! i) = Some ch \<longrightarrow> c_connectDone c = Some ch" by metis
  note b = step_basics [OF a]
  have r: "recon_ok c' rs' (ts ! i)" using recon_ok_mono [OF re b(2,4)] .
  have o: "is_logout_owner (ts ! i) \<longrightarrow> c_sessionCtx c = None" using lo by (simp add: login_ok_def)
  have run: "\<forall>r. c_run c = Some r \<longrightarrow> r < length rs" using ro by (simp add: runs_ok_def)
  note rec = tstep_recon_ok [OF st wf inv r run o]
  from U i show "thread_ok c' rs' U"
  proof (cases rule: new_thread_cases)
    case self
    then show ?thesis
      using tstep_wf(1) [OF st wf own] tstep_login_ok [OF st wf lo inv] rec tstep_wait_ok [OF st wf inv]
        tstep_close_ok(1) [OF st wf inv cl] by (simp add: thread_ok_def)
  next
    case spawned
    then show ?thesis using b(5) [OF spawned] rec by (auto simp: thread_ok_def login_ok_def wait_ok_def close_ok_def)
  next
    case (other j)
    then show ?thesis using other_ok [OF a] by simp
  qed
qed

lemma owners_step:
  assumes a: "at_step lib settled c rs ts i c' rs' T' sp"
  shows "owners_ok c' (ts[i := T'] @ sp)"
proof -
  from at_stepD [OF a] obtain dl where i: "i < length ts" and ow: "owners_ok c ts"
    and own: "\<forall>ch. held (ts ! i) = Some ch \<longrightarrow> c_connectDone c = Some ch" by metis
  note b = step_basics [OF a]
  have sp: "held S = None" if "S \<in> set sp" for S using b(5) [OF that] by auto
  have idle: "held U = None" if "c_connectDone c = None" "U \<in> set ts" for U
    using ow that by (cases "held U") (auto simp: owners_ok_def)
  have "unique (\<lambda>T. held T \<noteq> None) (ts[i := T'] @ sp)"
  proof (rule unique_update [OF _ i])
    show "unique (\<lambda>T. held T \<noteq> None) ts" using ow by (simp add: owners_ok_def)
    show "\<forall>S \<in> set sp. \<not> held S \<noteq> None" using sp by simp
    show "held T' \<noteq> None \<Longrightarrow> held (ts ! i) \<noteq> None \<or> (\<forall>U \<in> set ts. \<not> held U \<noteq> None)"
      using b(3) idle unfolding passes_def by metis
  qed
  moreover have "c_connectDone c' = Some ch" if "U \<in> set (ts[i := T'] @ sp)" "held U = Some ch" for U ch
    using that(1) i
  proof (cases rule: new_thread_cases)
    case self
    then have h: "held T' = Some ch" using that(2) by simp
    show ?thesis
    proof (cases "held (ts ! i) = held T'")
      case True
      then show ?thesis using b(3) own h unfolding passes_def by auto
    next
      case False
      then show ?thesis using b(3) h unfolding passes_def by auto
    qed
  next
    case spawned
    then show ?thesis using sp that(2) by simp
  next
    case (other j)
    then have "c_connectDone c = Some ch" using ow that(2) nth_mem [OF other(1)] unfolding owners_ok_def by blast
    moreover have "held (ts ! i) = None" using b(6) [OF other(1,2)] that(2) other(3) by simp
    ultimately show ?thesis using b(3) unfolding passes_def by auto
  qed
  moreover have "\<exists>U \<in> set (ts[i := T'] @ sp). held U \<noteq> None" if n: "c_connectDone c' \<noteq> None"
  proof (cases "held T' \<noteq> None")
    case True
    then show ?thesis using new_threadI(1) [OF i] by blast
  next
    case False
    then have "c_connectDone c \<noteq> None" "held (ts ! i) = None" using b(3) n unfolding passes_def by auto
    then obtain j where "j < length ts" "held (ts ! j) \<noteq> None" "j \<noteq> i"
      using ow unfolding owners_ok_def by (metis in_set_conv_nth)
    then show ?thesis using new_threadI(2) [OF i] by blast
  qed
  ultimately show ?thesis unfolding owners_ok_def by blast
qed

lemma closers_step:
  assumes a: "at_step lib settled c rs ts i c' rs' T' sp"
  shows "closers_ok c' (ts[i := T'] @ sp)"
proof -
  from at_stepD [OF a] obtain dl where st: "tstep lib settled (c, rs) (ts ! i) (c', rs') T' sp dl" and wf: "wf_thread (ts ! i)"
    and i: "i < length ts" and inv: "client_inv c" and cl: "close_ok c (ts ! i)" and co: "closers_ok c ts"
    and own: "\<forall>ch. held (ts ! i) = Some ch \<longrightarrow> c_connectDone c = Some ch" by metis
  note b = step_basics [OF a] and d = tstep_close_ok [OF st wf inv cl]
  have sp: "\<not> closer S" if "S \<in> set sp" for S using b(5) [OF that] by auto
  have "unique closer (ts[i := T'] @ sp)"
    using unique_update [OF _ i, of closer sp T'] sp d(2) co unfolding closers_ok_def by blast
  moreover have nd: "\<not> c_closeDone c" if "U \<in> set ts" "closer U" for U using co that unfolding closers_ok_def by blast
  moreover have "\<not> c_closeDone c'" if "U \<in> set (ts[i := T'] @ sp)" "closer U" for U
    using that(1) i
  proof (cases rule: new_thread_cases)
    case self
    then have "closer (ts ! i)" using d(2) that(2) by simp
    moreover have "ts ! i \<noteq> CloseCodec"
    proof
      assume "ts ! i = CloseCodec"
      with st have "tstep lib settled (c, rs) CloseCodec (c', rs') T' sp dl" by simp
      then have "T' = Finished" by (rule tstep_CloseCodecE) simp
      then show False using self that(2) by simp
    qed
    ultimately show ?thesis using d(4) nd nth_mem [OF i] by blast
  next
    case spawned
    then show ?thesis using sp that(2) by blast
  next
    case (other j)
    then have "ts ! i \<noteq> CloseCodec" using b(7) [OF other(1,2)] that(2) by auto
    then show ?thesis using d(4) nd nth_mem [OF other(1)] that(2) other(3) by blast
  qed
  moreover have "\<exists>U \<in> set (ts[i := T'] @ sp). closer U" if "c_closed c'" "\<not> c_closeDone c'"
  proof -
    have "c_closed c" "\<not> c_closeDone c" using that d(4,5) by simp_all
    then obtain j where j: "j < length ts" "closer (ts ! j)" using co unfolding closers_ok_def by (metis in_set_conv_nth)
    show ?thesis
    proof (cases "j = i")
      case True
      then have "closer T'" using d(3) j that(2) by simp
      then show ?thesis using new_threadI(1) [OF i] by blast
    next
      case False
      then show ?thesis using new_threadI(2) [OF i j(1)] j(2) by blast
    qed
  qed
  moreover have "c_closed c' \<and> c_connectDone c' = None \<and> flights c' = []" if "c_closeDone c'"
  proof -
    have c: "c_closed c \<and> c_connectDone c = None \<and> flights c = [] \<and> (\<nexists>ds. ts ! i = CloseAwait ds)"
    proof (cases "ts ! i = CloseCodec")
      case True
      with cl show ?thesis by (simp add: close_ok_def)
    next
      case False
      then have cd: "c_closeDone c" using that d(4) by blast
      then have "\<not> closer (ts ! i)" using nd [OF nth_mem [OF i]] by blast
      then have "\<nexists>ds. ts ! i = CloseAwait ds" by auto
      with cd show ?thesis using co unfolding closers_ok_def by blast
    qed
    then have "held (ts ! i) = None" using own by (cases "held (ts ! i)") auto
    then show ?thesis using c tstep_flights [OF st wf] b(2) d(5) by (auto simp: evolves_def)
  qed
  ultimately show ?thesis unfolding closers_ok_def by blast
qed

lemma runs_step:
  assumes a: "at_step lib settled c rs ts i c' rs' T' sp"
  shows "runs_ok c' rs' (ts[i := T'] @ sp)" and "resp_ok c' (ts[i := T'] @ sp)"
proof -
  from at_stepD [OF a] obtain dl where st: "tstep lib settled (c, rs) (ts ! i) (c', rs') T' sp dl" and wf: "wf_thread (ts ! i)"
    and i: "i < length ts" and inv: "client_inv c" and lo: "login_ok c (ts ! i)" and re: "recon_ok c rs (ts ! i)"
    and ro: "runs_ok c rs ts" and rp: "resp_ok c ts" and gen: "c_sessionGeneration c \<noteq> - 1"
    and own: "\<forall>ch. held (ts ! i) = Some ch \<longrightarrow> c_connectDone c = Some ch" by metis
  note b = step_basics [OF a]
  have dead: "\<forall>r. c_state c = LoginStateReconnecting \<and> c_run c = Some r \<longrightarrow> run_done rs r" using ro by (simp add: runs_ok_def)
  have life: "steady rs c (ts ! i) rs' c' T' sp \<or> moves rs c (ts ! i) rs' c' T'"
    using tstep_life [OF st wf inv lo re gen dead own] .
  have inv': "client_inv c'" using b(1) by (simp add: kept_def)
  have held_elsewhere: "r \<in> set (open_runs (ts ! i)) \<or> (\<exists>U \<in> set (ts[i := T'] @ sp). r \<in> set (open_runs U))"
    if "U \<in> set ts" "r \<in> set (open_runs U)" for U r
    using that new_threadI(2) [OF i] by (metis in_set_conv_nth)
  have elsewhere: "P (ts ! i) \<or> (\<exists>U \<in> set (ts[i := T'] @ sp). P U)" if "U \<in> set ts" "P U" for U P
    using that new_threadI(2) [OF i] by (metis in_set_conv_nth)
  have self: "T' \<in> set (ts[i := T'] @ sp)" using new_threadI(1) [OF i] .
  have live: "c_run c = Some r \<or> r \<in> set (open_runs (ts ! i)) \<or> (\<exists>U \<in> set (ts[i := T'] @ sp). r \<in> set (open_runs U))"
    if "r < length rs" "\<not> ro_done (rs ! r)" for r
    using ro that held_elsewhere unfolding runs_ok_def by blast
  consider (steady) "steady rs c (ts ! i) rs' c' T' sp"
    | (logout) "rs' = rs" "c_state c' = LoginStateLogout" "c_run c' = None" "open_runs (ts ! i) = []"
        "\<forall>r. c_run c = Some r \<longrightarrow> run_done rs r \<or> r \<in> set (open_runs T')"
    | (login) "rs' = rs" "c_state c' = LoginStateLoggingIn" "c_run c = None" "c_run c' = None" "open_runs (ts ! i) = []"
        "login_of T' \<noteq> None"
    | (install) r0 where "rs' = rs" "c_state c' = LoginStateLoggedIn" "c_sessionCtx c' \<noteq> None" "c_run c' = Some r0"
        "open_runs (ts ! i) = [r0]" "watched T' = Some r0" "\<forall>r. c_run c = Some r \<longrightarrow> run_done rs r"
    | (recon) rc where "rs' = rs" "c_state c' = LoginStateReconnecting" "c_run c' = c_run c" "open_runs (ts ! i) = []"
        "c_sessionCtx c' \<noteq> None" "\<forall>r. c_run c = Some r \<longrightarrow> run_done rs r" "recon_of T' = Some rc" "recon_live c' rc"
    | (cancel) "rs' = rs" "c_state c' = c_state c" "c_run c' = c_run c" "c_sessionCtx c' = None"
        "open_runs (ts ! i) = []" "login_of (ts ! i) = None" "active c \<longrightarrow> logout_resp c' T'"
    using life unfolding moves_def by (elim disjE conjE exE) (blast+, fastforce, blast+)
  note kinds = this
  have grow: "length rs \<le> length rs'" "run_done rs r \<Longrightarrow> run_done rs' r" for r
    using b(4) run_done_grow by (auto simp: runs_grow_def)
  have run: "r < length rs" if "c_run c = Some r" for r using ro that by (simp add: runs_ok_def)
  show "runs_ok c' rs' (ts[i := T'] @ sp)" unfolding runs_ok_def
  proof (intro conjI allI impI)
    fix r assume r: "r < length rs'" "\<not> ro_done (rs' ! r)"
    from kinds show "c_run c' = Some r \<or> (\<exists>U \<in> set (ts[i := T'] @ sp). r \<in> set (open_runs U))"
    proof cases
      case steady
      then have "r \<in> set (open_runs T') \<or> r < length rs \<and> \<not> ro_done (rs ! r) \<and> r \<notin> set (open_runs (ts ! i))"
        and "c_run c' = c_run c" using r by (auto simp: steady_def)
      then show ?thesis using live [of r] self by metis
    qed (use r live [of r] self in \<open>auto simp: run_done_def\<close>)
  next
    fix r assume r: "c_run c' = Some r"
    from kinds show "r < length rs'"
    proof cases
      case steady
      then have "c_run c = Some r" using r by (simp add: steady_def)
      then show ?thesis using run [of r] grow(1) by simp
    next
      case (install r0)
      then show ?thesis using r re by (simp add: recon_ok_def)
    qed (use r run in auto)
  next
    fix r assume r: "c_state c' = LoginStateReconnecting \<and> c_run c' = Some r"
    from kinds show "run_done rs' r"
    proof cases
      case steady
      then show ?thesis using r dead grow(2) by (simp add: steady_def)
    qed (use r dead in auto)
  qed
  have same: "session_resp c' U = session_resp c U" "logout_resp c' U = logout_resp c U" "active c' = active c"
    if "steady rs c (ts ! i) rs' c' T' sp" for U
    using that by (simp_all add: steady_def session_resp_def recon_live_def logout_resp_def active_def)
  show "resp_ok c' (ts[i := T'] @ sp)" unfolding resp_ok_def
  proof (intro conjI impI)
    assume l: "c_state c' = LoginStateLoggingIn"
    have old: "login_of (ts ! i) \<noteq> None \<or> (\<exists>U \<in> set (ts[i := T'] @ sp). login_of U \<noteq> None)" if "c_state c = LoginStateLoggingIn"
      using rp that elsewhere [of _ "\<lambda>U. login_of U \<noteq> None"] unfolding resp_ok_def by blast
    have open_client: "\<not> c_closed c" if "c_state c = LoginStateLoggingIn"
      using that client_inv_parts(5) [OF inv] by auto
    from kinds show "\<exists>U \<in> set (ts[i := T'] @ sp). login_of U \<noteq> None"
    proof cases
      case steady
      then have "c_state c = LoginStateLoggingIn" "login_of (ts ! i) \<noteq> None \<longrightarrow> login_of T' \<noteq> None"
        using l open_client by (auto simp: steady_def)
      then show ?thesis using old self by blast
    next
      case cancel
      then show ?thesis using l old by simp
    qed (use l self in auto)
  next
    assume l: "active c' \<and> c_sessionCtx c' \<noteq> None"
    from kinds show "\<exists>U \<in> set (ts[i := T'] @ sp). session_resp c' U"
    proof cases
      case steady
      then have "active c" "c_sessionCtx c \<noteq> None" using l same(3) by (auto simp: steady_def)
      then have "session_resp c (ts ! i) \<or> (\<exists>U \<in> set (ts[i := T'] @ sp). session_resp c U)"
        using rp elsewhere [of _ "session_resp c"] unfolding resp_ok_def by blast
      moreover have "\<exists>S \<in> set (T' # sp). session_resp c' S" if "session_resp c (ts ! i)"
        using steady that \<open>active c\<close> \<open>c_sessionCtx c \<noteq> None\<close> unfolding steady_def by blast
      ultimately show ?thesis using same(1) [OF steady] self by auto
    next
      case (install r0)
      then show ?thesis using self by (auto simp: session_resp_def)
    next
      case (recon rc)
      then show ?thesis using self by (auto simp: session_resp_def)
    qed (use l in \<open>auto simp: active_def\<close>)
  next
    assume l: "active c' \<and> c_sessionCtx c' = None"
    from kinds show "\<exists>U \<in> set (ts[i := T'] @ sp). logout_resp c' U"
    proof cases
      case steady
      then have "active c" "c_sessionCtx c = None" using l same(3) by (auto simp: steady_def)
      then have "logout_resp c (ts ! i) \<or> (\<exists>U \<in> set (ts[i := T'] @ sp). logout_resp c U)"
        using rp elsewhere [of _ "logout_resp c"] unfolding resp_ok_def by blast
      moreover have "logout_resp c' T'" if "logout_resp c (ts ! i)"
        using steady that \<open>active c\<close> \<open>c_sessionCtx c = None\<close> unfolding steady_def by blast
      ultimately show ?thesis using same(2) [OF steady] self by auto
    next
      case cancel
      then show ?thesis using l self by (auto simp: active_def)
    qed (use l in \<open>auto simp: active_def\<close>)
  qed
qed

section \<open>The other steps\<close>

definition same_life :: "client \<Rightarrow> client \<Rightarrow> bool" where
  "same_life c c' \<longleftrightarrow> c_closed c' = c_closed c \<and> c_closeDone c' = c_closeDone c \<and> c_connectDone c' = c_connectDone c
     \<and> c_closedChans c' = c_closedChans c \<and> c_state c' = c_state c \<and> c_run c' = c_run c \<and> c_userID c' = c_userID c
     \<and> c_sessionCtx c' = c_sessionCtx c \<and> c_sessions c' = c_sessions c \<and> c_sessionGeneration c' = c_sessionGeneration c
     \<and> flights c' = flights c"

lemma same_life_ok:
  assumes "same_life c c'"
  shows "thread_ok c' rs T = thread_ok c rs T" and "owners_ok c' ts = owners_ok c ts"
    and "closers_ok c' ts = closers_ok c ts" and "runs_ok c' rs ts = runs_ok c rs ts" and "resp_ok c' ts = resp_ok c ts"
  using assms
  by (simp_all add: same_life_def thread_ok_def login_ok_def recon_ok_def wait_ok_def close_ok_def owners_ok_def
      closers_ok_def runs_ok_def resp_ok_def active_def session_resp_def recon_live_def logout_resp_def)

lemma same_life_steps:
  "UpdateToken t c = Inr c' \<Longrightarrow> same_life c c'"
  "fail_run r err (c, rs) = (c', rs') \<Longrightarrow> same_life c c'"
  by (auto simp: same_life_def UpdateToken_def fail_run_def split: if_splits)

text \<open>A thread that starts without holding anything.\<close>

definition fresh :: "thread \<Rightarrow> bool" where
  "fresh S \<longleftrightarrow> held S = None \<and> \<not> closer S"

lemma unique_append: "unique P ts \<Longrightarrow> \<not> P S \<or> (\<forall>T \<in> set ts. \<not> P T) \<Longrightarrow> unique P (ts @ [S])"
  unfolding unique_def by (auto simp: nth_append less_Suc_eq_le)

lemma append_ok:
  assumes "fresh S"
  shows "owners_ok c ts \<Longrightarrow> owners_ok c (ts @ [S])" and "closers_ok c ts \<Longrightarrow> closers_ok c (ts @ [S])"
    and "runs_ok c rs ts \<Longrightarrow> runs_ok c rs (ts @ [S])" and "resp_ok c ts \<Longrightarrow> resp_ok c (ts @ [S])"
proof -
  have S: "held S = None" "\<not> closer S" using assms by (simp_all add: fresh_def)
  show "owners_ok c (ts @ [S])" if o: "owners_ok c ts"
  proof -
    have "unique (\<lambda>T. held T \<noteq> None) (ts @ [S])"
      by (rule unique_append) (use o S(1) in \<open>simp_all only: owners_ok_def not_not simp_thms\<close>)
    moreover have "c_connectDone c = Some ch" if "T \<in> set (ts @ [S])" "held T = Some ch" for T ch
    proof -
      have "T \<in> set ts" using that S(1) by (auto simp del: not_None_eq)
      then show ?thesis using o that(2) unfolding owners_ok_def by blast
    qed
    moreover have "\<exists>T \<in> set (ts @ [S]). held T \<noteq> None" if "c_connectDone c \<noteq> None"
    proof -
      have "\<exists>T \<in> set ts. held T \<noteq> None" using o that unfolding owners_ok_def by blast
      then show ?thesis by auto
    qed
    ultimately show ?thesis unfolding owners_ok_def by blast
  qed
  show "closers_ok c (ts @ [S])" if o: "closers_ok c ts"
  proof -
    have "unique closer (ts @ [S])" by (rule unique_append) (use o S(2) in \<open>simp_all only: closers_ok_def simp_thms\<close>)
    moreover have "\<not> c_closeDone c" if "T \<in> set (ts @ [S])" "closer T" for T
    proof -
      have "T \<in> set ts \<or> T = S" using that(1) by auto
      then have "T \<in> set ts" using that(2) S(2) by blast
      then show ?thesis using o that(2) unfolding closers_ok_def by blast
    qed
    moreover have "\<exists>T \<in> set (ts @ [S]). closer T" if "c_closed c \<and> \<not> c_closeDone c"
    proof -
      have "\<exists>T \<in> set ts. closer T" using o that unfolding closers_ok_def by blast
      then show ?thesis by auto
    qed
    ultimately show ?thesis using o unfolding closers_ok_def by blast
  qed
  show "runs_ok c rs (ts @ [S])" if "runs_ok c rs ts"
    using that unfolding runs_ok_def set_append by blast
  show "resp_ok c (ts @ [S])" if "resp_ok c ts"
    using that unfolding resp_ok_def set_append by blast
qed

lemma start_thread_inv:
  assumes "sys_inv s" and "fresh S" and "thread_ok (s_client s) (s_runs s) S"
  shows "sys_inv (s\<lparr>s_threads := s_threads s @ [S]\<rparr>)"
  using assms append_ok [OF assms(2)] unfolding sys_inv_def by auto

lemma close_inv:
  assumes "sys_inv s" and nc: "\<not> c_closed (s_client s)" and cb: "Close_begin (s_client s) = (ro, c')"
  shows "sys_inv (s\<lparr>s_client := c', s_threads := s_threads s @
      [case ro of None \<Rightarrow> CloseRead | Some r \<Rightarrow> Discard r (newError ErrClientClosed ''close'' []) CloseRead]\<rparr>)"
proof -
  let ?c = "s_client s" and ?ts = "s_threads s" and ?rs = "s_runs s"
  let ?S = "case ro of None \<Rightarrow> CloseRead | Some r \<Rightarrow> Discard r (newError ErrClientClosed ''close'' []) CloseRead"
  have i: "client_inv ?c" "\<forall>T \<in> set ?ts. thread_ok ?c ?rs T" "owners_ok ?c ?ts" "closers_ok ?c ?ts" "runs_ok ?c ?rs ?ts"
    using assms(1) by (simp_all add: sys_inv_def)
  note k = Close_begin_kept [OF i(1) cb]
  have e: "c_closed c'" "c_run c' = None" "c_state c' = LoginStateLogout" "c_sessionCtx c' = None"
      "c_connectDone c' = c_connectDone ?c" "c_closeDone c' = c_closeDone ?c" "c_closedChans c' = c_closedChans ?c"
    using core_eqs [OF k(5)] by (simp_all add: ended_def)
  have ev: "evolves ?c c'" and inv': "client_inv c'" using k(1) by (simp_all add: kept_def)
  have nc': "\<not> closer T" if "T \<in> set ?ts" for T using i(2) that nc by (auto simp: thread_ok_def close_ok_def)
  have S: "closer ?S" "held ?S = None" by (auto split: option.split)
  have old: "thread_ok c' ?rs T" if "T \<in> set ?ts" for T
  proof -
    have T: "wf_thread T" "recon_ok ?c ?rs T" "wait_ok ?c T" using i(2) that by (simp_all add: thread_ok_def)
    moreover have "login_ok c' T" using e by (simp add: login_ok_def)
    moreover have "wait_ok c' T" using T(3) ev by (auto simp: wait_ok_def evolves_def)
    moreover have "close_ok c' T" using nc' [OF that] by (auto simp: close_ok_def)
    ultimately show ?thesis using recon_ok_mono [OF T(2) ev runs_grow_refl] by (simp add: thread_ok_def)
  qed
  moreover have "thread_ok c' ?rs ?S"
    using i(5) k(2) e(1) unfolding runs_ok_def
    by (auto simp: thread_ok_def login_ok_def recon_ok_def wait_ok_def close_ok_def split: option.split)
  moreover have "owners_ok c' (?ts @ [?S])"
  proof -
    have "unique (\<lambda>T. held T \<noteq> None) (?ts @ [?S])"
      by (rule unique_append) (use i(3) S(2) in \<open>simp_all only: owners_ok_def not_not simp_thms\<close>)
    moreover have "c_connectDone c' = Some ch" if "T \<in> set (?ts @ [?S])" "held T = Some ch" for T ch
    proof -
      have "T \<in> set ?ts \<or> T = ?S" using that(1) by auto
      then have "T \<in> set ?ts" using that(2) S(2) by (metis option.distinct(1))
      then show ?thesis using i(3) that(2) e(5) unfolding owners_ok_def by metis
    qed
    ultimately show ?thesis using i(3) e(5) unfolding owners_ok_def set_append by (metis Un_iff)
  qed
  moreover have "closers_ok c' (?ts @ [?S])"
  proof -
    have "unique closer (?ts @ [?S])"
      by (rule unique_append) (use i(4) nc' in \<open>auto simp: closers_ok_def\<close>)
    moreover have "\<not> c_closeDone c'" using i(4) nc e(6) unfolding closers_ok_def by blast
    ultimately show ?thesis using S(1) unfolding closers_ok_def by auto
  qed
  moreover have "runs_ok c' ?rs (?ts @ [?S])"
    using i(5) k(2) e unfolding runs_ok_def by (auto split: option.split)
  moreover have "resp_ok c' (?ts @ [?S])" using e by (simp add: resp_ok_def active_def)
  ultimately show ?thesis using inv' by (simp add: sys_inv_def)
qed

lemma token_inv:
  assumes "sys_inv s" and "UpdateToken t (s_client s) = Inr c'"
  shows "sys_inv (s\<lparr>s_client := c'\<rparr>)"
proof -
  have "client_inv c'"
    using token_only_kept [OF _ token_only_steps(2) [OF assms(2)]] assms(1) by (simp add: sys_inv_def kept_def)
  then show ?thesis using assms(1) same_life_ok [OF same_life_steps(1) [OF assms(2)]] by (simp add: sys_inv_def)
qed

lemma fail_inv:
  assumes "sys_inv s" and f: "fail_run r err (s_client s, s_runs s) = (c', rs')"
  shows "sys_inv (s\<lparr>s_client := c', s_runs := rs'\<rparr>)"
proof -
  let ?c = "s_client s" and ?ts = "s_threads s" and ?rs = "s_runs s"
  have "client_inv c'" using assms(1) core_inv(1) [OF core_step(1) [OF f]] by (simp add: sys_inv_def)
  moreover note l = same_life_ok [OF same_life_steps(2) [OF f]]
  moreover have g: "runs_grow ?rs rs'" "length rs' = length ?rs" using fail_run_grow [OF f] by simp_all
  moreover have "thread_ok ?c rs' T" if "T \<in> set ?ts" for T
  proof -
    have T: "thread_ok ?c ?rs T" using assms(1) that by (simp add: sys_inv_def)
    moreover have "evolves ?c ?c" using core_inv(2) [OF refl] .
    ultimately show ?thesis using recon_ok_mono [of ?c ?rs T ?c, OF _ _ g(1)] by (simp add: thread_ok_def)
  qed
  moreover have "runs_ok ?c rs' ?ts"
    using assms(1) g run_done_grow [OF g(1)] unfolding sys_inv_def runs_ok_def runs_grow_def by metis
  ultimately show ?thesis using assms(1) by (simp add: sys_inv_def)
qed

lemma New_fields:
  "New pb pq seed cfg = Inr c \<Longrightarrow> c_closed c = False \<and> c_closeDone c = False \<and> cl_lifetimeDone c = False
     \<and> c_connectDone c = None \<and> c_closedChans c = [] \<and> c_state c = LoginStateLogout
     \<and> c_connState c = ConnStateDisconnected \<and> c_run c = None \<and> c_sessionCtx c = None \<and> c_sessionCancel c = None
     \<and> c_sessions c = 0 \<and> c_canceledSessions c = [] \<and> c_sessionGeneration c = 0 \<and> logged_out c
     \<and> c_events c = [] \<and> c_terminalCallback c = None \<and> c_callbackEpoch c = 0 \<and> c_terminalWake c = False"
  by (auto simp: New_def clientShared.defs logged_out_def split: sum.splits)

lemma start_inv:
  assumes "client_start s"
  shows "sys_inv s"
proof -
  obtain pb pq seed cfg where n: "New pb pq seed cfg = Inr (s_client s)" "s_runs s = []" "s_threads s = [DispClaim False]"
    using assms by (auto simp: client_start_def)
  from New_fields [OF n(1)] show ?thesis
    by (simp add: n sys_inv_def client_inv_def shape_ok_def session_ok_def chan_ok_def thread_ok_def login_ok_def
        recon_ok_def wait_ok_def close_ok_def owners_ok_def closers_ok_def runs_ok_def resp_ok_def active_def unique_def)
qed

lemma client_move_inv:
  assumes "sys_inv s" and "client_move lib s t"
  shows "sys_inv t"
proof -
  have st: "client_step lib s t" and gen: "c_sessionGeneration (s_client s) \<noteq> - 1"
    using assms(2) by (simp_all add: client_move_def)
  from st show ?thesis
  proof cases
    case (cs_thread i c' rs' T sp dl)
    have a: "at_step lib (s_settled s) (s_client s) (s_runs s) (s_threads s) i c' rs' T sp"
      using assms(1) cs_thread gen by (auto simp: at_step_def sys_inv_def)
    then show ?thesis
      using threads_step [OF a] owners_step [OF a] closers_step [OF a] runs_step [OF a] step_basics(1) [OF a] cs_thread(1)
      by (simp add: sys_inv_def kept_def)
  next
    case (cs_login u t')
    then show ?thesis using start_thread_inv [OF assms(1)]
      by (simp add: fresh_def thread_ok_def login_ok_def recon_ok_def wait_ok_def close_ok_def)
  next
    case cs_logout
    then show ?thesis using start_thread_inv [OF assms(1)]
      by (simp add: fresh_def thread_ok_def login_ok_def recon_ok_def wait_ok_def close_ok_def)
  next
    case (cs_close ro c')
    then show ?thesis using close_inv [OF assms(1)] by simp
  next
    case (cs_token t' c')
    then show ?thesis using token_inv [OF assms(1)] by simp
  next
    case (cs_fail r err c' rs')
    then show ?thesis using fail_inv [OF assms(1)] by simp
  next
    case (cs_settle d)
    then show ?thesis using assms(1) by (simp add: sys_inv_def)
  qed
qed

interpretation client_life: inductive_invariant client_start "client_move lib" sys_inv for lib
  by unfold_locales (auto intro: start_inv client_move_inv)

end
