(* ===== verification/Client_Properties.thy ===== *)
theory Client_Properties
  imports Client_Invariant
begin

text \<open>
  The properties of the client lifecycle in every reachable state, from the invariant of
  \<open>Client_Invariant\<close>, with a concrete run of the system as their witness.
\<close>

section \<open>A concrete run\<close>

definition exampleLib :: url_lib where
  "exampleLib = \<lparr>ul_Parse = (\<lambda>s. Inl (fmt_error s)), ul_String = url_Host\<rparr>"

definition exampleConfig :: Config where
  "exampleConfig = \<lparr>cfg_AppKey = ''o#a'', cfg_Domain = [], cfg_Resource = ''r'', cfg_DisableReconnect = False,
     cfg_MessageHandler = True, cfg_callbacks = \<lparr>cb_connection = True, cb_disconnect = True, cb_tokenExpired = True,
     cb_tokenWillExpire = True\<rparr>\<rparr>"

definition exampleClient :: client where
  "exampleClient = projr (New None None [0, 0, 0, 0] exampleConfig)"

definition exampleSystem :: client_system where
  "exampleSystem = \<lparr>s_client = exampleClient, s_runs = [], s_threads = [DispClaim False], s_settled = [], s_log = []\<rparr>"

text \<open>The same client after \<open>Login\<close> has been called, has got the lifecycle and was admitted.\<close>

definition exampleLogin :: client_system where
  "exampleLogin =
     (let c = exampleClient\<lparr>c_connectDone := Some (c_chans exampleClient), c_chans := Suc (c_chans exampleClient)\<rparr>
      in exampleSystem\<lparr>s_client := c\<lparr>c_state := LoginStateLoggingIn, c_connState := ConnStateConnecting, c_userID := ''u'',
             c_token := ''t'', cl_lastErr := None, c_tokenExpiresAt := None, c_backoffAttempt := 0\<rparr>,
           s_threads := [DispClaim False,
             Emit (c_callbackEpoch exampleClient) (BEConnection ''u'' ConnStateConnecting) (LoginResolve ''u'' (c_chans exampleClient))]\<rparr>)"

text \<open>The client after \<open>Close\<close> was called on it.\<close>

definition exampleClosed :: client_system where
  "exampleClosed = exampleSystem\<lparr>s_client := snd (Close_begin exampleClient), s_threads := [DispClaim False, CloseRead]\<rparr>"

lemma exampleNew: "New None None [0, 0, 0, 0] exampleConfig = Inr exampleClient"
proof -
  have "cut CHR ''#'' ''o#a'' = (''o'', ''a'', True)" by (simp add: cut_def)
  then have "split_app_key ''o#a'' \<noteq> None"
    by (simp add: split_app_key_def containsAny_def blanks_def)
  then have "\<exists>cfg. applyDefaultsAndValidate exampleConfig = Inr cfg"
    by (simp add: applyDefaultsAndValidate_def exampleConfig_def resourcePrefix_def containsAny_def blanks_def)
  then obtain c where "New None None [0, 0, 0, 0] exampleConfig = Inr c" by (auto simp: New_def)
  then show ?thesis by (simp add: exampleClient_def)
qed

lemmas example_fields = New_fields [OF exampleNew]

lemma example_flights: "c_pendingDNSFlights exampleClient = []" "c_chans exampleClient = 0"
proof -
  have "New None None [0, 0, 0, 0] exampleConfig = Inr c \<Longrightarrow> c_pendingDNSFlights c = [] \<and> c_chans c = 0" for c
    by (auto simp: New_def clientShared.defs split: sum.splits)
  from this [OF exampleNew] show "c_pendingDNSFlights exampleClient = []" "c_chans exampleClient = 0" by simp_all
qed

lemma example_callbacks: "cb_connection (c_callbacks exampleClient)"
proof -
  have "New None None [0, 0, 0, 0] exampleConfig = Inr c \<Longrightarrow> cfg_callbacks (c_cfg c) = cfg_callbacks exampleConfig" for c
    by (auto simp: New_def clientShared.defs applyDefaultsAndValidate_def Let_def split: sum.splits if_splits)
  from this [OF exampleNew] show ?thesis by (simp add: exampleConfig_def)
qed

lemma example_start: "reachable client_start (client_move lib) exampleSystem"
  using exampleNew by (intro reachable_start) (auto simp: client_start_def exampleSystem_def)

lemma example_moves: "c_sessionGeneration exampleClient \<noteq> - 1" "c_callbackEpoch exampleClient \<noteq> - 1"
  using example_fields by simp_all


lemma example_move:
  assumes "reachable client_start (client_move lib) s" and "client_step lib s t"
    and "c_sessionGeneration (s_client s) = c_sessionGeneration exampleClient"
    and "c_callbackEpoch (s_client s) = c_callbackEpoch exampleClient"
  shows "reachable client_start (client_move lib) t"
  using assms example_moves by (auto simp: client_move_def intro: reachable_step)

lemma example_login: "reachable client_start (client_move lib) exampleLogin"
proof -
  let ?c = exampleClient
  let ?c1 = "?c\<lparr>c_connectDone := Some (c_chans ?c), c_chans := Suc (c_chans ?c)\<rparr>"
  let ?t0 = "exampleSystem\<lparr>s_threads := [DispClaim False, Begin (OpLogin ''u'' ''t'')]\<rparr>"
  let ?t1 = "exampleSystem\<lparr>s_client := ?c1, s_threads := [DispClaim False, Own (OpLogin ''u'' ''t'') (c_chans ?c)]\<rparr>"
  have "Login_check ''u'' ''t'' = None"
    by (simp add: Login_check_def) (code_simp)
  then have "client_step lib exampleSystem ?t0" using cs_login [of "''u''" "''t''" lib exampleSystem]
    by (simp add: exampleSystem_def)
  then have r0: "reachable client_start (client_move lib) ?t0"
    by (rule example_move [OF example_start]) (simp_all add: exampleSystem_def)
  have "beginConnect_round ''login'' ?c = (BeginGranted (c_chans ?c), ?c1)"
    using example_fields by (simp add: beginConnect_round_def)
  then have "tstep lib [] (?c, []) (Begin (OpLogin ''u'' ''t'')) (?c1, []) (Own (OpLogin ''u'' ''t'') (c_chans ?c)) [] []"
    by (rule ts_begin_login)
  then have "client_step lib ?t0 ?t1"
    using cs_thread [of 1 ?t0 lib ?c1 "[]" "Own (OpLogin ''u'' ''t'') (c_chans ?c)" "[]" "[]"] by (simp add: exampleSystem_def)
  then have r1: "reachable client_start (client_move lib) ?t1"
    by (rule example_move [OF r0]) (simp_all add: exampleSystem_def)
  let ?c2 = "s_client exampleLogin"
  have "Login_admit ''u'' ''t'' ?c1 = (Inr (c_callbackEpoch ?c), ?c2)"
    using example_fields by (simp add: Login_admit_def exampleLogin_def exampleSystem_def Let_def)
  from ts_login_admitted [OF this, of lib "[]" "[]" "c_chans ?c"]
  have "tstep lib [] (?c1, []) (Own (OpLogin ''u'' ''t'') (c_chans ?c)) (?c2, [])
    (Emit (c_callbackEpoch ?c) (BEConnection ''u'' ConnStateConnecting) (LoginResolve ''u'' (c_chans ?c))) [] []"
    by (simp add: connection_event_def emit_opt_def example_callbacks)
  then have "client_step lib ?t1 exampleLogin"
    using cs_thread [of 1 ?t1 lib ?c2 "[]" "Emit (c_callbackEpoch ?c) (BEConnection ''u'' ConnStateConnecting) (LoginResolve ''u'' (c_chans ?c))" "[]" "[]"]
    by (simp add: exampleSystem_def exampleLogin_def Let_def)
  then show ?thesis by (rule example_move [OF r1]) (simp_all add: exampleSystem_def)
qed

lemma example_closed: "reachable client_start (client_move lib) exampleClosed"
proof (rule example_move [OF example_start])
  have "Close_begin exampleClient = (None, snd (Close_begin exampleClient))"
    using example_fields by (simp add: Close_begin_def)
  then show "client_step lib exampleSystem exampleClosed"
    using cs_close [of exampleSystem None "snd (Close_begin exampleClient)" lib] example_fields
    by (simp add: exampleSystem_def exampleClosed_def)
qed (simp_all add: exampleSystem_def)


section \<open>What every step keeps\<close>

lemma client_move_evolves:
  assumes "sys_inv s" and "client_move lib s t"
  shows "evolves (s_client s) (s_client t)"
proof -
  have st: "client_step lib s t" and gen: "c_sessionGeneration (s_client s) \<noteq> - 1"
    using assms(2) by (simp_all add: client_move_def)
  have inv: "client_inv (s_client s)" using assms(1) by (simp add: sys_inv_def)
  from st show ?thesis
  proof cases
    case (cs_thread i c' rs' T sp dl)
    have "at_step lib (s_settled s) (s_client s) (s_runs s) (s_threads s) i c' rs' T sp"
      using assms(1) cs_thread gen by (auto simp: at_step_def sys_inv_def)
    from step_basics(2) [OF this] show ?thesis using cs_thread(1) by simp
  next
    case (cs_close ro c')
    then show ?thesis using Close_begin_kept(1) [OF inv cs_close(3)] by (simp add: kept_def)
  next
    case (cs_token t' c')
    then show ?thesis using token_only_kept [OF inv token_only_steps(2) [OF cs_token(2)]] by (simp add: kept_def)
  next
    case (cs_fail r err c' rs')
    then show ?thesis using core_inv(2) [OF core_step(1) [OF cs_fail(2)]] by simp
  qed (use core_inv(2) [OF refl] in simp_all)
qed

lemma path_evolves:
  assumes "(client_move lib)\<^sup>*\<^sup>* s t" and "sys_inv s"
  shows "c_closed (s_client s) \<longrightarrow> c_closed (s_client t)"
    and "set (c_canceledSessions (s_client s)) \<subseteq> set (c_canceledSessions (s_client t))"
proof -
  have "(c_closed (s_client s) \<longrightarrow> c_closed (s_client t))
    \<and> set (c_canceledSessions (s_client s)) \<subseteq> set (c_canceledSessions (s_client t))"
    using assms(1)
  proof (induction rule: rtranclp_induct)
    case (step t u)
    have "sys_inv t" using client_life.inv_path [OF step(1) assms(2)] .
    from client_move_evolves [OF this step(2)] step(3) show ?case by (auto simp: evolves_def)
  qed simp
  then show "c_closed (s_client s) \<longrightarrow> c_closed (s_client t)"
    and "set (c_canceledSessions (s_client s)) \<subseteq> set (c_canceledSessions (s_client t))" by simp_all
qed

section \<open>The properties\<close>

text \<open>
  C9. In every reachable state the lifecycle has at most one owner: no goroutine panics in \<open>endConnect\<close>, no
  two goroutines hold the lifecycle, the holder's channel is the client's \<open>connectDone\<close> and is still open,
  and every goroutine that waits for a lifecycle channel waits for one that is closed or that another
  goroutine holds and will close.
\<close>

theorem lifecycle_ownership:
  assumes "reachable client_start (client_move lib) s"
  shows "Panicked \<notin> set (s_threads s)
    \<and> (\<forall>i j ch ch'. i < length (s_threads s) \<and> j < length (s_threads s) \<and> held (s_threads s ! i) = Some ch
         \<and> held (s_threads s ! j) = Some ch' \<longrightarrow> i = j)
    \<and> (\<forall>T ch. T \<in> set (s_threads s) \<and> held T = Some ch \<longrightarrow>
         c_connectDone (s_client s) = Some ch \<and> ch \<notin> set (c_closedChans (s_client s)))
    \<and> (\<forall>T ch. T \<in> set (s_threads s) \<and> waits_on T = Some ch \<longrightarrow>
         ch \<in> set (c_closedChans (s_client s)) \<or> (\<exists>U \<in> set (s_threads s). held U = Some ch))"
proof -
  have i: "sys_inv s" using client_life.inv_reachable [OF assms] .
  have ow: "owners_ok (s_client s) (s_threads s)" and ch: "chan_ok (s_client s)"
    and th: "\<And>T. T \<in> set (s_threads s) \<Longrightarrow> wf_thread T \<and> wait_ok (s_client s) T"
    using i by (auto simp: sys_inv_def client_inv_def thread_ok_def)
  have "Panicked \<notin> set (s_threads s)" using th by force
  moreover have "c_connectDone (s_client s) = Some c \<and> c \<notin> set (c_closedChans (s_client s))"
    if "T \<in> set (s_threads s)" "held T = Some c" for T c
    using ow ch that unfolding owners_ok_def chan_ok_def by blast
  moreover have "c \<in> set (c_closedChans (s_client s)) \<or> (\<exists>U \<in> set (s_threads s). held U = Some c)"
    if "T \<in> set (s_threads s)" "waits_on T = Some c" for T c
  proof (cases "c_connectDone (s_client s) = Some c")
    case True
    then obtain U where "U \<in> set (s_threads s)" "held U \<noteq> None" using ow unfolding owners_ok_def by blast
    then show ?thesis using ow True unfolding owners_ok_def by (metis option.inject option.exhaust)
  qed (use th that in \<open>auto simp: wait_ok_def\<close>)
  moreover have "unique (\<lambda>T. held T \<noteq> None) (s_threads s)" using ow by (simp add: owners_ok_def)
  ultimately show ?thesis unfolding unique_def by blast
qed

text \<open>
  C11. In every reachable state the fields of a client describe one state of its life: logged out means
  disconnected with every field of the session cleared; logging in means connecting without a run or a
  session; logged in and reconnecting come with a run; a closed client is logged out.  The session context,
  if there is one, is the newest one, is not cancelled, and every older one is cancelled.
\<close>

theorem client_state_consistent:
  assumes "reachable client_start (client_move lib) s"
  shows "(case c_state (s_client s) of
       LoginStateLogout \<Rightarrow> c_connState (s_client s) = ConnStateDisconnected \<and> logged_out (s_client s)
     | LoginStateLoggingIn \<Rightarrow> c_connState (s_client s) = ConnStateConnecting \<and> c_run (s_client s) = None
         \<and> c_sessionCtx (s_client s) = None
     | LoginStateLoggedIn \<Rightarrow> c_connState (s_client s) = ConnStateConnected
         \<and> (\<exists>r < length (s_runs s). c_run (s_client s) = Some r)
     | LoginStateReconnecting \<Rightarrow> c_connState (s_client s) = ConnStateReconnecting
         \<and> (\<exists>r < length (s_runs s). c_run (s_client s) = Some r \<and> ro_done (s_runs s ! r)))
    \<and> (c_closed (s_client s) \<longrightarrow> c_state (s_client s) = LoginStateLogout)
    \<and> set (c_canceledSessions (s_client s)) = {..<c_sessions (s_client s)} - set_option (c_sessionCtx (s_client s))
    \<and> (\<forall>k. c_sessionCtx (s_client s) = Some k \<longrightarrow> Suc k = c_sessions (s_client s) \<and> k \<notin> set (c_canceledSessions (s_client s)))"
proof -
  have i: "sys_inv s" using client_life.inv_reachable [OF assms] .
  have sh: "shape_ok (s_client s)" and se: "session_ok (s_client s)" and ru: "runs_ok (s_client s) (s_runs s) (s_threads s)"
    using i by (simp_all add: sys_inv_def client_inv_def)
  show ?thesis
  proof (intro conjI)
    show "case c_state (s_client s) of
       LoginStateLogout \<Rightarrow> c_connState (s_client s) = ConnStateDisconnected \<and> logged_out (s_client s)
     | LoginStateLoggingIn \<Rightarrow> c_connState (s_client s) = ConnStateConnecting \<and> c_run (s_client s) = None
         \<and> c_sessionCtx (s_client s) = None
     | LoginStateLoggedIn \<Rightarrow> c_connState (s_client s) = ConnStateConnected
         \<and> (\<exists>r < length (s_runs s). c_run (s_client s) = Some r)
     | LoginStateReconnecting \<Rightarrow> c_connState (s_client s) = ConnStateReconnecting
         \<and> (\<exists>r < length (s_runs s). c_run (s_client s) = Some r \<and> ro_done (s_runs s ! r))"
      using sh ru by (auto simp: shape_ok_def runs_ok_def run_done_def split: LoginState.split)
    show "c_closed (s_client s) \<longrightarrow> c_state (s_client s) = LoginStateLogout" using sh by (simp add: shape_ok_def)
    show "set (c_canceledSessions (s_client s)) = {..<c_sessions (s_client s)} - set_option (c_sessionCtx (s_client s))"
      "\<forall>k. c_sessionCtx (s_client s) = Some k \<longrightarrow> Suc k = c_sessions (s_client s) \<and> k \<notin> set (c_canceledSessions (s_client s))"
      using se by (simp_all add: session_ok_def)
  qed
qed

text \<open>
  C10. A session is never abandoned.  Whenever a reachable client is not logged out, some goroutine is
  responsible for what comes next: while logging in, the \<open>Login\<close> that goes on; with a live session, the monitor
  of the current run or the reconnect loop of that session; once the session was cancelled, the \<open>Logout\<close> that
  owns the lifecycle or that will detach the session it has cancelled.
\<close>

theorem session_never_abandoned:
  assumes "reachable client_start (client_move lib) s" and "c_state (s_client s) \<noteq> LoginStateLogout"
  shows "\<exists>T \<in> set (s_threads s).
     (case c_state (s_client s) of
        LoginStateLoggingIn \<Rightarrow> login_of T = Some (c_userID (s_client s))
      | _ \<Rightarrow> (case c_sessionCtx (s_client s) of
                Some k \<Rightarrow> watched T = c_run (s_client s) \<or> map_option rc_session (recon_of T) = Some k
              | None \<Rightarrow> is_logout_owner T \<or> logout_gen T = Some (c_sessionGeneration (s_client s))))"
proof -
  have i: "sys_inv s" using client_life.inv_reachable [OF assms(1)] .
  have re: "resp_ok (s_client s) (s_threads s)" and sh: "shape_ok (s_client s)"
    and th: "\<And>T. T \<in> set (s_threads s) \<Longrightarrow> login_ok (s_client s) T"
    using i by (auto simp: sys_inv_def client_inv_def thread_ok_def)
  show ?thesis
  proof (cases "c_state (s_client s) = LoginStateLoggingIn")
    case True
    then obtain T where T: "T \<in> set (s_threads s)" "login_of T \<noteq> None" using re unfolding resp_ok_def by blast
    have "\<not> c_closed (s_client s)" using sh True by (auto simp: shape_ok_def)
    then have "login_of T = Some (c_userID (s_client s))" using T th [OF T(1)] by (auto simp: login_ok_def)
    then show ?thesis using T True by (auto intro: bexI [of _ T])
  next
    case False
    then have a: "active (s_client s)" using assms(2) by (cases "c_state (s_client s)") (simp_all add: active_def)
    show ?thesis
    proof (cases "c_sessionCtx (s_client s)")
      case None
      then obtain T where "T \<in> set (s_threads s)" "logout_resp (s_client s) T" using re a unfolding resp_ok_def by blast
      then show ?thesis using False assms(2) None
        by (auto simp: logout_resp_def split: LoginState.split intro: bexI [of _ T])
    next
      case (Some k)
      then obtain T where "T \<in> set (s_threads s)" "session_resp (s_client s) T" using re a unfolding resp_ok_def by blast
      then show ?thesis using False assms(2) Some
        by (auto simp: session_resp_def recon_live_def split: LoginState.split intro: bexI [of _ T])
    qed
  qed
qed

text \<open>
  C12. \<open>Close\<close> is final and leaves nothing behind.  A closed client stays closed and logged out whatever runs
  on; until the finalizer is through, it is still running; once \<open>closeDone\<close> is closed, no goroutine owns the
  lifecycle, every connection run that was ever dialled has been shut down and no DNS flight is pending.
\<close>

theorem close_leaves_nothing:
  assumes "reachable client_start (client_move lib) s" and "c_closed (s_client s)" and "(client_move lib)\<^sup>*\<^sup>* s t"
  shows "c_closed (s_client t) \<and> c_state (s_client t) = LoginStateLogout \<and> logged_out (s_client t)
    \<and> (if c_closeDone (s_client t)
       then c_connectDone (s_client t) = None \<and> (\<forall>T \<in> set (s_threads t). held T = None)
         \<and> (\<forall>r < length (s_runs t). ro_done (s_runs t ! r)) \<and> c_pendingDNSFlights (s_client t) = []
       else (\<exists>T \<in> set (s_threads t). closer T))"
proof -
  have s: "sys_inv s" using client_life.inv_reachable [OF assms(1)] .
  have t: "sys_inv t" using client_life.inv_path [OF assms(3) s] .
  have cl: "c_closed (s_client t)" using path_evolves(1) [OF assms(3) s] assms(2) by blast
  have sh: "shape_ok (s_client t)" and ow: "owners_ok (s_client t) (s_threads t)" and co: "closers_ok (s_client t) (s_threads t)"
    and ru: "runs_ok (s_client t) (s_runs t) (s_threads t)" and th: "\<And>T. T \<in> set (s_threads t) \<Longrightarrow> wf_thread T"
    using t by (auto simp: sys_inv_def client_inv_def thread_ok_def)
  have out: "c_state (s_client t) = LoginStateLogout" "logged_out (s_client t)"
    using sh cl by (simp_all add: shape_ok_def)
  show ?thesis
  proof (cases "c_closeDone (s_client t)")
    case True
    then have d: "c_connectDone (s_client t) = None" "c_pendingDNSFlights (s_client t) = []"
      and nc: "\<forall>T \<in> set (s_threads t). \<not> closer T"
      using co unfolding closers_ok_def by blast+
    have h: "held T = None" if "T \<in> set (s_threads t)" for T
      using ow d(1) that unfolding owners_ok_def by (cases "held T") auto
    have "open_runs T = []" if "T \<in> set (s_threads t)" for T
      using open_held [OF th [OF that]] h [OF that] nc that by blast
    then have "ro_done (s_runs t ! r)" if "r < length (s_runs t)" for r
      using ru out(2) that unfolding runs_ok_def logged_out_def by auto
    then show ?thesis using cl out True d h by simp
  next
    case False
    then show ?thesis using cl out co unfolding closers_ok_def by auto
  qed
qed

text \<open>
  C13. \<open>Logout\<close> and \<open>Close\<close> win over a reconnect.  Once the context of a session is cancelled, no later state
  has that session as its own, only newer ones; and a reconnect loop of that session that still comes back
  with a dialled run does not install it: its only step leaves the client as it is and shuts the run down.
\<close>

theorem logout_beats_reconnect:
  assumes "reachable client_start (client_move lib) s" and "k \<in> set (c_canceledSessions (s_client s))"
    and "(client_move lib)\<^sup>*\<^sup>* s t"
  shows "(\<forall>k'. c_sessionCtx (s_client t) = Some k' \<longrightarrow> k < k')
    \<and> (\<forall>rc n ch r c' rs' T' sp dl. rc_session rc = k
         \<and> tstep lib (s_settled t) (s_client t, s_runs t) (ReconDialled rc n ch r) (c', rs') T' sp dl \<longrightarrow>
         c' = s_client t \<and> rs' = s_runs t \<and> sp = []
         \<and> T' = Discard r (newError ErrClientClosed ''reconnect'' ''superseded'') (Release ch Finished))"
proof -
  have s: "sys_inv s" using client_life.inv_reachable [OF assms(1)] .
  have t: "sys_inv t" using client_life.inv_path [OF assms(3) s] .
  have k: "k \<in> set (c_canceledSessions (s_client t))" using path_evolves(2) [OF assms(3) s] assms(2) by blast
  have se: "session_ok (s_client t)" using t by (simp add: sys_inv_def client_inv_def)
  have "k < k'" if "c_sessionCtx (s_client t) = Some k'" for k'
    using se k that by (auto simp: session_ok_def)
  moreover have "c' = s_client t \<and> rs' = s_runs t \<and> sp = []
      \<and> T' = Discard r (newError ErrClientClosed ''reconnect'' ''superseded'') (Release ch Finished)"
    if "rc_session rc = k" "tstep lib (s_settled t) (s_client t, s_runs t) (ReconDialled rc n ch r) (c', rs') T' sp dl"
    for rc n ch r c' rs' T' sp dl
    using that(2)
  proof cases
    case (ts_recon_installed now epoch)
    then show ?thesis using k that(1) by (auto simp: reconnect_install_def session_done_def split: if_splits)
  qed simp_all
  ultimately show ?thesis by blast
qed

section \<open>Witnesses\<close>

text \<open>The system with its dispatcher and one more thread.\<close>

definition exampleAt :: "client \<Rightarrow> run_obj list \<Rightarrow> thread \<Rightarrow> client_system" where
  "exampleAt c rs T = \<lparr>s_client = c, s_runs = rs, s_threads = [DispClaim False, T], s_settled = [], s_log = []\<rparr>"

lemma exampleAt_move:
  assumes "tstep lib [] (c, rs) T (c', rs') T' [] []" and "c_sessionGeneration c \<noteq> - 1" and "c_callbackEpoch c \<noteq> - 1"
  shows "client_move lib (exampleAt c rs T) (exampleAt c' rs' T')"
  using cs_thread [of 1 "exampleAt c rs T" lib c' rs' T' "[]" "[]"] assms by (simp add: exampleAt_def client_move_def)

text \<open>The states after \<open>Login\<close> has installed its run, and after \<open>Close\<close> then was called.\<close>

definition exampleResolution :: dnsResolution where
  "exampleResolution = \<lparr>dr_Endpoints = \<lparr>le_WSS = [''wss://h/''], le_REST = ''https://r''\<rparr>, dr_Generation = 1, dr_Stale = False\<rparr>"

definition exampleRun :: run_obj where
  "exampleRun = \<lparr>ro_endpoint = ''wss://h/'', ro_accepted = \<lparr>ps_sessionID = ''s'', ps_token = [], ps_expiresAt = None\<rparr>, ro_done = False\<rparr>"

definition exampleDialled :: client where
  "exampleDialled = emitAt 0 (BEConnection ''u'' ConnStateConnecting) 1 (s_client exampleLogin)"

definition exampleInstalled :: client where
  "exampleInstalled = snd (the (Login_install 0 ''wss://h/'' (ro_accepted exampleRun) 0 exampleResolution 1 exampleDialled))"

definition exampleCut :: client_system where
  "exampleCut = (exampleAt (snd (Close_begin exampleInstalled)) [exampleRun] (installed 0 1 0 ''u'' 0 0 exampleInstalled))
     \<lparr>s_threads := [DispClaim False, installed 0 1 0 ''u'' 0 0 exampleInstalled,
        Discard 0 (newError ErrClientClosed ''close'' []) CloseRead]\<rparr>"

text \<open>The state after \<open>Close\<close> of a client without a session has been finalized.\<close>

definition exampleFinal :: client_system where
  "exampleFinal = exampleAt ((drainBatchJobs (s_client exampleClosed))\<lparr>c_closeDone := True\<rparr>) [] Finished"

lemma example_final: "(client_move lib)\<^sup>*\<^sup>* exampleClosed exampleFinal"
proof -
  let ?c = "s_client exampleClosed"
  obtain cb pb where d: "drainBatchJobs ?c = ?c\<lparr>cl_batchBudget := cb, processBatchBudget := pb, cl_batches := []\<rparr>"
    by (rule drainBatchJobs_shape)
  have f: "c_connectDone ?c = None" "c_pendingDNSFlights ?c = []" "c_sessionGeneration ?c = 0" "c_callbackEpoch ?c = 0"
    using example_fields example_flights
    by (simp_all add: exampleClosed_def exampleSystem_def Close_begin_def lifecycle_defs split: option.split)
  have g: "c_sessionGeneration (drainBatchJobs ?c) = 0" "c_callbackEpoch (drainBatchJobs ?c) = 0" using f by (simp_all add: d)
  have "client_move lib (exampleAt ?c [] CloseRead) (exampleAt ?c [] CloseFlights)"
    "client_move lib (exampleAt ?c [] CloseFlights) (exampleAt ?c [] CloseDrain)"
    "client_move lib (exampleAt ?c [] CloseDrain) (exampleAt (drainBatchJobs ?c) [] CloseCodec)"
    "client_move lib (exampleAt (drainBatchJobs ?c) [] CloseCodec) exampleFinal"
    using f g by (auto simp: exampleFinal_def intro!: exampleAt_move tstep.intros)
  moreover have "exampleClosed = exampleAt ?c [] CloseRead"
    by (simp add: exampleAt_def exampleClosed_def exampleSystem_def)
  ultimately show ?thesis by (metis (no_types, lifting) r_into_rtranclp rtranclp_trans)
qed

lemma example_cut:
  "reachable client_start (client_move lib) exampleCut" "0 \<in> set (c_canceledSessions (s_client exampleCut))"
proof -
  let ?c = "s_client exampleLogin" and ?d = exampleDialled and ?R = exampleResolution
  have f: "c_sessionGeneration ?c = 0" "c_callbackEpoch ?c = 0" "\<not> c_closed ?c" "c_sessions ?c = 0" "c_sessionCancel ?c = None"
    using example_fields by (simp_all add: exampleLogin_def exampleSystem_def Let_def)
  have d: "c_sessionGeneration ?d = 0" "c_callbackEpoch ?d = 0" "\<not> c_closed ?d" "c_sessions ?d = 0" "c_sessionCancel ?d = None"
    using f by (simp_all add: exampleDialled_def emitAt_def warnBestEffortCallbackDrop_def)
  have i: "Login_install 0 ''wss://h/'' (ro_accepted exampleRun) 0 ?R 1 ?d = Some ((0, 1, 0), exampleInstalled)"
    using d by (simp add: exampleInstalled_def Login_install_def session_defs applyProvisionLocked_def exampleRun_def Let_def)
  have e: "c_sessionGeneration exampleInstalled = 1" "c_callbackEpoch exampleInstalled = 0" "\<not> c_closed exampleInstalled"
    "c_run exampleInstalled = Some 0" "c_sessionCancel exampleInstalled = Some 0"
    using d by (simp_all add: exampleInstalled_def Login_install_def session_defs applyProvisionLocked_def exampleRun_def Let_def)
  have tr: "trackDNSFlight (\<lambda>_. False) (\<lambda>d. d \<in> set []) None ?d = ?d" by (simp add: trackDNSFlight_def)
  have "tstep lib [] (?d, []) (Track None (LoginDial ''u'' 0 ?R)) (?d, []) (LoginDial ''u'' 0 ?R) [] []"
    using ts_track [of "\<lambda>_. False" "[]" lib ?d "[]" None "LoginDial ''u'' 0 ?R"] unfolding tr by simp
  moreover have "tstep lib [] (?c, []) (Emit 0 (BEConnection ''u'' ConnStateConnecting) (LoginResolve ''u'' 0)) (?d, []) (LoginResolve ''u'' 0) [] []"
    unfolding exampleDialled_def by (rule ts_emit)
  moreover have "tstep lib [] (?d, []) (LoginResolve ''u'' 0) (?d, []) (Track None (LoginDial ''u'' 0 ?R)) [] []"
    by (rule ts_login_resolved)
  moreover have "tstep lib [] (?d, []) (LoginDial ''u'' 0 ?R) (?d, [exampleRun]) (LoginDialled ''u'' 0 0 0 ?R) [] []"
    using ts_login_dialled [of lib "[]" ?d "[]"] by (simp add: exampleRun_def)
  moreover have "tstep lib [] (?d, [exampleRun]) (LoginDialled ''u'' 0 0 0 ?R) (exampleInstalled, [exampleRun])
      (installed 0 1 0 ''u'' 0 0 exampleInstalled) [] []"
    using i by (intro ts_login_installed [where now = 1]) (simp add: exampleRun_def)
  ultimately have "client_move lib (exampleAt ?c [] (Emit 0 (BEConnection ''u'' ConnStateConnecting) (LoginResolve ''u'' 0))) (exampleAt ?d [] (LoginResolve ''u'' 0))"
    "client_move lib (exampleAt ?d [] (LoginResolve ''u'' 0)) (exampleAt ?d [] (Track None (LoginDial ''u'' 0 ?R)))"
    "client_move lib (exampleAt ?d [] (Track None (LoginDial ''u'' 0 ?R))) (exampleAt ?d [] (LoginDial ''u'' 0 ?R))"
    "client_move lib (exampleAt ?d [] (LoginDial ''u'' 0 ?R)) (exampleAt ?d [exampleRun] (LoginDialled ''u'' 0 0 0 ?R))"
    "client_move lib (exampleAt ?d [exampleRun] (LoginDialled ''u'' 0 0 0 ?R)) (exampleAt exampleInstalled [exampleRun] (installed 0 1 0 ''u'' 0 0 exampleInstalled))"
    using f d by (auto intro!: exampleAt_move)
  moreover have "exampleLogin = exampleAt ?c [] (Emit 0 (BEConnection ''u'' ConnStateConnecting) (LoginResolve ''u'' 0))"
    using example_fields example_flights(2) by (simp add: exampleAt_def exampleLogin_def exampleSystem_def Let_def)
  ultimately have r: "reachable client_start (client_move lib) (exampleAt exampleInstalled [exampleRun] (installed 0 1 0 ''u'' 0 0 exampleInstalled))"
    using example_login [of lib] by (metis (no_types, lifting) reachable_step)
  have "client_step lib (exampleAt exampleInstalled [exampleRun] (installed 0 1 0 ''u'' 0 0 exampleInstalled)) exampleCut"
    using cs_close [of "exampleAt exampleInstalled [exampleRun] (installed 0 1 0 ''u'' 0 0 exampleInstalled)" "Some 0" "snd (Close_begin exampleInstalled)" lib] e
    by (simp add: exampleAt_def exampleCut_def Close_begin_def)
  then show "reachable client_start (client_move lib) exampleCut"
    using r e by (auto simp: client_move_def exampleAt_def intro: reachable_step)
  show "0 \<in> set (c_canceledSessions (s_client exampleCut))"
    using e by (simp add: exampleCut_def exampleAt_def Close_begin_def session_defs cancelTokenWarning_def clear_session_def split: option.split)
qed

theorem lifecycle_ownership_witness:
  "reachable client_start (client_move exampleLib) exampleLogin
    \<and> held (s_threads exampleLogin ! 1) = Some 0 \<and> c_connectDone (s_client exampleLogin) = Some 0"
proof -
  have T: "s_threads exampleLogin ! 1 \<in> set (s_threads exampleLogin)" "held (s_threads exampleLogin ! 1) = Some 0"
    using example_flights(2) by (simp_all add: exampleLogin_def exampleSystem_def Let_def)
  have "\<forall>T ch. T \<in> set (s_threads exampleLogin) \<and> held T = Some ch \<longrightarrow>
      c_connectDone (s_client exampleLogin) = Some ch \<and> ch \<notin> set (c_closedChans (s_client exampleLogin))"
    using lifecycle_ownership [OF example_login [of exampleLib]] by (elim conjE)
  from this [rule_format, OF conjI [OF T]] have "c_connectDone (s_client exampleLogin) = Some 0" by (rule conjunct1)
  with T(2) example_login [of exampleLib] show ?thesis by (intro conjI)
qed

theorem client_state_consistent_witness:
  "reachable client_start (client_move exampleLib) exampleLogin \<and> c_connState (s_client exampleLogin) = ConnStateConnecting"
proof -
  have "c_state (s_client exampleLogin) = LoginStateLoggingIn" by (simp add: exampleLogin_def exampleSystem_def Let_def)
  with client_state_consistent [OF example_login [of exampleLib]]
  have "c_connState (s_client exampleLogin) = ConnStateConnecting" by (simp only: LoginState.case simp_thms)
  with example_login [of exampleLib] show ?thesis by (intro conjI)
qed

theorem session_never_abandoned_witness:
  "reachable client_start (client_move exampleLib) exampleLogin \<and> c_state (s_client exampleLogin) \<noteq> LoginStateLogout
    \<and> (\<exists>T \<in> set (s_threads exampleLogin). login_of T = Some ''u'')"
proof -
  have st: "c_state (s_client exampleLogin) = LoginStateLoggingIn" "c_userID (s_client exampleLogin) = ''u''"
    by (simp_all add: exampleLogin_def exampleSystem_def Let_def)
  then show ?thesis
    using example_login [of exampleLib] session_never_abandoned [OF example_login [of exampleLib]] by simp
qed

theorem close_leaves_nothing_witness:
  "reachable client_start (client_move exampleLib) exampleClosed \<and> c_closed (s_client exampleClosed)
    \<and> (client_move exampleLib)\<^sup>*\<^sup>* exampleClosed exampleFinal \<and> c_closeDone (s_client exampleFinal)
    \<and> c_connectDone (s_client exampleFinal) = None"
proof -
  have c: "c_closed (s_client exampleClosed)"
    by (simp add: exampleClosed_def exampleSystem_def Close_begin_def lifecycle_defs split: option.split)
  moreover have "c_closeDone (s_client exampleFinal)" by (simp add: exampleFinal_def exampleAt_def)
  ultimately show ?thesis
    using close_leaves_nothing [OF example_closed [of exampleLib] c example_final] example_closed example_final by simp
qed

theorem logout_beats_reconnect_witness:
  "reachable client_start (client_move exampleLib) exampleCut \<and> 0 \<in> set (c_canceledSessions (s_client exampleCut))
    \<and> (client_move exampleLib)\<^sup>*\<^sup>* exampleCut exampleCut \<and> c_sessionCtx (s_client exampleCut) \<noteq> Some 0"
  using example_cut(1) [of exampleLib] example_cut(2)
    logout_beats_reconnect [OF example_cut(1) [of exampleLib] example_cut(2) rtranclp.rtrancl_refl] by auto

end
