(* ===== verification/Go_Values.thy ===== *)
theory Go_Values
  imports Go_Strings Protocol_Model
begin

text \<open>
  Values of Go's interface type \<open>any\<close> as the message code inspects them, the conversions between
  \<open>float32\<close> and \<open>float64\<close> on IEEE bit patterns, the conversion of a \<open>float64\<close> to an unsigned integer,
  \<open>strconv\<close>'s decimal integers, and JSON values as \<open>encoding/json\<close> reads and writes them.
\<close>

section \<open>Floating-point numbers\<close>

type_synonym float32 = "32 word"
type_synonym float64 = "64 word"

text \<open>The number of binary digits.\<close>

fun bit_count :: "nat \<Rightarrow> nat" where
  "bit_count n = (if n = 0 then 0 else Suc (bit_count (n div 2)))"

declare bit_count.simps [simp del]

text \<open>Sign, biased exponent and fraction of the two formats.\<close>

definition parts32 :: "float32 \<Rightarrow> nat \<times> nat \<times> nat" where
  "parts32 w = (let n = unat w in (n div 2 ^ 31, n div 2 ^ 23 mod 2 ^ 8, n mod 2 ^ 23))"

definition parts64 :: "float64 \<Rightarrow> nat \<times> nat \<times> nat" where
  "parts64 w = (let n = unat w in (n div 2 ^ 63, n div 2 ^ 52 mod 2 ^ 11, n mod 2 ^ 52))"

definition isNaN32 :: "float32 \<Rightarrow> bool" where
  "isNaN32 w \<longleftrightarrow> (case parts32 w of (s, e, m) \<Rightarrow> e = 255 \<and> m \<noteq> 0)"

text \<open>
  \<open>float64(x)\<close> of a \<open>float32\<close>: exact.  A subnormal number becomes a normal one; a NaN comes out quiet.
\<close>

definition float64_of :: "float32 \<Rightarrow> float64" where
  "float64_of w =
     (case parts32 w of (s, e, m) \<Rightarrow>
        of_nat (s * 2 ^ 63 +
          (if e = 255 then 2047 * 2 ^ 52 + (if m = 0 then 0 else m mod 2 ^ 22 * 2 ^ 29 + 2 ^ 51)
           else if e = 0
           then (if m = 0 then 0 else (bit_count m + 872) * 2 ^ 52 + m * 2 ^ (53 - bit_count m))
           else (e + 896) * 2 ^ 52 + m * 2 ^ 29)))"

text \<open>Division by a power of two, rounded to the nearest integer, ties to even.\<close>

definition round_shift :: "nat \<Rightarrow> nat \<Rightarrow> nat" where
  "round_shift n k =
     (let a = n div 2 ^ k; b = n mod 2 ^ k
      in if 2 * b > 2 ^ k \<or> 2 * b = 2 ^ k \<and> odd a then a + 1 else a)"

text \<open>
  \<open>float32(x)\<close> of a \<open>float64\<close>.  A finite number is \<open>sig * 2 ^ (q - 1075)\<close>; it loses \<open>k\<close> bits, at least
  29 and as many as the exponent of the smallest subnormal \<open>float32\<close> asks for.  Adding the rounded
  significand to the exponent field carries into the exponent where it should.
\<close>

definition float32_of :: "float64 \<Rightarrow> float32" where
  "float32_of w =
     (case parts64 w of (s, e, m) \<Rightarrow>
        of_nat (s * 2 ^ 31 +
          (if e = 2047 then 255 * 2 ^ 23 + (if m = 0 then 0 else m div 2 ^ 29 mod 2 ^ 22 + 2 ^ 22)
           else
             let sig = (if e = 0 then m else 2 ^ 52 + m);
                 q = (if e = 0 then 1 else e);
                 k = max 29 (926 - q);
                 enc = (q + k - 926) * 2 ^ 23 + round_shift sig k
             in if enc \<ge> 255 * 2 ^ 23 then 255 * 2 ^ 23 else enc)))"

text \<open>The value of a \<open>float64\<close> that is a whole number and not negative (\<open>-0\<close> is zero).\<close>

definition whole64 :: "float64 \<Rightarrow> nat option" where
  "whole64 w =
     (case parts64 w of (s, e, m) \<Rightarrow>
        if e = 2047 then None
        else
          let sig = (if e = 0 then m else 2 ^ 52 + m);
              q = (if e = 0 then 1 else e)
          in if s = 1 \<and> sig \<noteq> 0 then None
             else if q \<ge> 1075 then Some (sig * 2 ^ (q - 1075))
             else if sig mod 2 ^ (1075 - q) = 0 then Some (sig div 2 ^ (1075 - q)) else None)"

section \<open>JSON values\<close>

text \<open>
  A parsed JSON text.  A number keeps its literal; the members of an object keep their order and their
  duplicates.  The strings are UTF-8: \<open>encoding/json\<close> replaces every byte that is not part of a valid
  encoding.
\<close>

datatype json =
    JsNull | JsBool bool | JsNumber string | JsString string | JsArray "json list" | JsObject "(string \<times> json) list"

definition is_cont :: "char \<Rightarrow> bool" where
  "is_cont c \<longleftrightarrow> 0x80 \<le> (of_char c :: nat) \<and> (of_char c :: nat) \<le> 0xBF"

text \<open>The length of the valid encoding at the head, or 0.\<close>

fun utf8_size :: "string \<Rightarrow> nat" where
  "utf8_size [] = 0"
| "utf8_size (a # s) =
     (let n = (of_char a :: nat);
          second = (case s of [] \<Rightarrow> 0 | b # t \<Rightarrow> (of_char b :: nat));
          conts = length (takeWhile is_cont (take 3 s))
      in if n < 0x80 then 1
         else if 0xC2 \<le> n \<and> n \<le> 0xDF then (if conts \<ge> 1 then 2 else 0)
         else if 0xE0 \<le> n \<and> n \<le> 0xEF
         then (if conts \<ge> 2 \<and> (n = 0xE0 \<longrightarrow> second \<ge> 0xA0) \<and> (n = 0xED \<longrightarrow> second \<le> 0x9F) then 3 else 0)
         else if 0xF0 \<le> n \<and> n \<le> 0xF4
         then (if conts \<ge> 3 \<and> (n = 0xF0 \<longrightarrow> second \<ge> 0x90) \<and> (n = 0xF4 \<longrightarrow> second \<le> 0x8F) then 4 else 0)
         else 0)"

function valid_utf8 :: "string \<Rightarrow> bool" where
  "valid_utf8 s =
     (if s = [] then True else if utf8_size s = 0 then False else valid_utf8 (drop (utf8_size s) s))"
  by pat_completeness auto
termination by (relation "measure length") (auto simp: Suc_le_eq length_greater_0_conv)

text \<open>What a string becomes in a JSON text.\<close>

function coerceUTF8 :: "string \<Rightarrow> string" where
  "coerceUTF8 s =
     (if s = [] then []
      else if utf8_size s = 0 then [CHR 0xEF, CHR 0xBF, CHR 0xBD] @ coerceUTF8 (drop 1 s)
      else take (utf8_size s) s @ coerceUTF8 (drop (utf8_size s) s))"
  by pat_completeness auto
termination by (relation "measure length") (auto simp: Suc_le_eq length_greater_0_conv)

declare valid_utf8.simps [simp del] coerceUTF8.simps [simp del]

lemma coerceUTF8_valid: "valid_utf8 s \<Longrightarrow> coerceUTF8 s = s"
proof (induction s rule: valid_utf8.induct)
  case (1 s)
  show ?case
  proof (cases "s = []")
    case False
    then have v: "utf8_size s \<noteq> 0" "valid_utf8 (drop (utf8_size s) s)" using 1(2) by (simp_all add: valid_utf8.simps [of s] split: if_splits)
    from 1(1) [OF False v] show ?thesis using False v(1) by (subst coerceUTF8.simps) simp
  qed (simp add: coerceUTF8.simps)
qed

section \<open>Interface values\<close>

text \<open>
  \<open>VOther\<close> is a value of any other type, nil included, with what \<open>json.Marshal\<close> makes of it (\<open>None\<close> is an
  error).
\<close>

datatype go_value =
    VBool bool
  | VInt8 "8 word" | VInt16 "16 word" | VInt32 "32 word" | VInt64 "64 word" | VInt "64 word"
  | VUint8 "8 word" | VUint16 "16 word" | VUint32 "32 word" | VUint64 "64 word" | VUint "64 word"
  | VFloat32 float32 | VFloat64 float64
  | VString string
  | VOther "json option"

fun asInt64 :: "go_value \<Rightarrow> int64 option" where
  "asInt64 (VInt8 n) = Some (sint n)"
| "asInt64 (VInt16 n) = Some (sint n)"
| "asInt64 (VInt32 n) = Some (sint n)"
| "asInt64 (VInt64 n) = Some (sint n)"
| "asInt64 (VInt n) = Some (sint n)"
| "asInt64 _ = None"

text \<open>
  The bound \<open>math.MaxUint64\<close> of the source is converted to \<open>float64\<close> in the comparison and becomes
  \<open>2 ^ 64\<close>.  \<open>over\<close> is what the platform's conversion of that number to \<open>uint64\<close> gives; the language
  leaves it to the implementation.
\<close>

definition nonneg :: "int \<Rightarrow> uint64 option" where
  "nonneg n = (if n \<ge> 0 then Some (of_int n) else None)"

fun asUint64 :: "uint64 \<Rightarrow> go_value \<Rightarrow> uint64 option" where
  "asUint64 over (VUint8 n) = Some (ucast n)"
| "asUint64 over (VUint16 n) = Some (ucast n)"
| "asUint64 over (VUint32 n) = Some (ucast n)"
| "asUint64 over (VUint64 n) = Some n"
| "asUint64 over (VUint n) = Some n"
| "asUint64 over (VInt8 n) = nonneg (sint n)"
| "asUint64 over (VInt16 n) = nonneg (sint n)"
| "asUint64 over (VInt32 n) = nonneg (sint n)"
| "asUint64 over (VInt64 n) = nonneg (sint n)"
| "asUint64 over (VInt n) = nonneg (sint n)"
| "asUint64 over (VFloat64 f) =
     (case whole64 f of None \<Rightarrow> None
      | Some n \<Rightarrow> if n \<le> 2 ^ 64 then Some (if n = 2 ^ 64 then over else of_nat n) else None)"
| "asUint64 over _ = None"

fun asFloat64 :: "go_value \<Rightarrow> float64 option" where
  "asFloat64 (VFloat32 f) = Some (float64_of f)"
| "asFloat64 (VFloat64 f) = Some f"
| "asFloat64 _ = None"

section \<open>Decimal integers\<close>

text \<open>\<open>strconv.ParseUint(s, 10, 64)\<close>; \<open>strconv.ParseInt(s, 10, 64)\<close> is \<open>atoi\<close>.\<close>

definition parseUint :: "string \<Rightarrow> uint64 option" where
  "parseUint s =
     (if s = [] \<or> \<not> list_all is_digit s \<or> digits_value s \<ge> 2 ^ 64 then None
      else Some (of_nat (digits_value s)))"

lemma is_digit_digit: "(n :: nat) < 10 \<Longrightarrow> is_digit (char_of (48 + n))"
  by (simp add: is_digit_def)

lemma digits_value_snoc: "digits_value (s @ [c]) = 10 * digits_value s + (of_char c - 48)"
  by (simp add: digits_value_def)

lemma digits_value_nat_digits [simp]: "digits_value (nat_digits n) = n"
proof (induction n rule: nat_digits.induct)
  case (1 n)
  show ?case
  proof (cases "n < 10")
    case True
    have "digits_value [char_of (48 + n)] = n" using digits_value_snoc [of "[]"] True by (simp add: digits_value_def)
    then show ?thesis using True by (subst nat_digits.simps) simp
  next
    case False
    then show ?thesis using 1 by (subst nat_digits.simps) (simp add: digits_value_snoc)
  qed
qed

lemma nat_digits_digits [simp]: "list_all is_digit (nat_digits n)"
proof (induction n rule: nat_digits.induct)
  case (1 n)
  then show ?case by (subst nat_digits.simps) (simp add: is_digit_digit)
qed

lemma hd_nat_digits: "is_digit (hd (nat_digits n))"
  using nat_digits_digits [of n] nat_digits_nonempty [of n] by (cases "nat_digits n") auto

lemma unat_bound32: "unat w < 2 ^ 32" for w :: float32
  using unsigned_less [where 'a = nat, of w] by simp

lemma unat_bound64: "unat w < 2 ^ 64" for w :: float64
  using unsigned_less [where 'a = nat, of w] by simp

lemma unat_small32: "n < 2 ^ 32 \<Longrightarrow> unat (of_nat n :: float32) = n"
  by (simp add: unat_of_nat take_bit_nat_eq_self)

lemma unat_small64: "n < 2 ^ 64 \<Longrightarrow> unat (of_nat n :: float64) = n"
  by (simp add: unat_of_nat take_bit_nat_eq_self)

lemma parseUint_round_trip: "parseUint (nat_digits (unat w)) = Some w" for w :: uint64
  using unat_bound64 [of w] by (simp add: parseUint_def)

lemma atoi_itoa:
  assumes "in_int64 z"
  shows "atoi (itoa z) = Some z"
proof (cases "z < 0")
  case True
  then show ?thesis using assms by (simp add: atoi_def itoa_def)
next
  case False
  have d: "\<not> is_digit CHR ''-''" "\<not> is_digit CHR ''+''" by (simp_all add: is_digit_def)
  obtain c cs where e: "nat_digits (nat z) = c # cs" by (metis nat_digits_nonempty list.exhaust)
  then have "is_digit c" using hd_nat_digits [of "nat z"] by simp
  then have "c \<noteq> CHR ''-''" "c \<noteq> CHR ''+''" using d by auto
  then show ?thesis using False assms nat_digits_digits [of "nat z"] digits_value_nat_digits [of "nat z"]
    by (simp add: atoi_def itoa_def e del: nat_digits_digits digits_value_nat_digits)
qed

section \<open>The conversions of floating-point numbers\<close>

lemma bit_count_bounds: "0 < n \<Longrightarrow> 2 ^ (bit_count n - 1) \<le> n \<and> n < 2 ^ bit_count n \<and> 0 < bit_count n"
proof (induction n rule: bit_count.induct)
  case (1 n)
  show ?case
  proof (cases "n = 1")
    case True
    then show ?thesis by (simp add: bit_count.simps)
  next
    case False
    let ?b = "bit_count (n div 2)"
    have b: "2 ^ (?b - 1) \<le> n div 2" "n div 2 < 2 ^ ?b" "0 < ?b" using 1 False by simp_all
    have e: "bit_count n = Suc ?b" using 1(2) by (subst bit_count.simps) simp
    have "(2 :: nat) ^ ?b = 2 * 2 ^ (?b - 1)" using b(3) by (cases ?b) simp_all
    then have "2 ^ ?b \<le> n" "n < 2 * 2 ^ ?b" using b(1,2) by linarith+
    then show ?thesis by (simp add: e)
  qed
qed

lemma bit_count_le:
  assumes "n < 2 ^ k"
  shows "bit_count n \<le> k"
proof (cases "n = 0")
  case True
  then show ?thesis by (simp add: bit_count.simps)
next
  case False
  then have "2 ^ (bit_count n - 1) < (2 :: nat) ^ k" using bit_count_bounds [of n] assms by linarith
  then show ?thesis by (simp add: power_strict_increasing_iff)
qed

text \<open>Three fields of a number.\<close>

lemma fields_join:
  fixes A B :: nat
  assumes "e < A" and "m < B"
  shows "(s * (A * B) + (e * B + m)) mod B = m" "(s * (A * B) + (e * B + m)) div B mod A = e"
    "(s * (A * B) + (e * B + m)) div (A * B) = s"
proof -
  have eq: "s * (A * B) + (e * B + m) = m + (s * A + e) * B" by (simp add: algebra_simps)
  show "(s * (A * B) + (e * B + m)) mod B = m" unfolding eq using assms by simp
  have d: "(s * (A * B) + (e * B + m)) div B = s * A + e" unfolding eq using assms by simp
  show "(s * (A * B) + (e * B + m)) div B mod A = e" unfolding d using assms by simp
  have "e * B + m < A * B"
    using assms mult_le_mono1 [of "Suc e" A B] by simp
  then show "(s * (A * B) + (e * B + m)) div (A * B) = s"
    by (intro div_nat_eqI) (simp_all add: algebra_simps)
qed

lemma fields_split: "n div (A * B) * (A * B) + (n div B mod A * B + n mod B) = (n :: nat)"
proof -
  have "n div (A * B) = n div B div A" by (metis div_mult2_eq mult.commute)
  then have "n div (A * B) * A + n div B mod A = n div B" by simp
  then have "(n div (A * B) * A + n div B mod A) * B + n mod B = n" by (simp only: div_mult_mod_eq)
  then show ?thesis by (simp add: algebra_simps)
qed

lemma parts32_eq:
  assumes "s < 2" and "e < 2 ^ 8" and "m < 2 ^ 23"
  shows "parts32 (of_nat (s * 2 ^ 31 + (e * 2 ^ 23 + m))) = (s, e, m)"
proof -
  have "s * 2 ^ 31 + (e * 2 ^ 23 + m) < 2 ^ 32" using assms by simp
  then have u: "unat (of_nat (s * 2 ^ 31 + (e * 2 ^ 23 + m)) :: float32) = s * 2 ^ 31 + (e * 2 ^ 23 + m)"
    by (rule unat_small32)
  show ?thesis unfolding parts32_def u Let_def using fields_join [OF assms(2,3), of s] by simp
qed

lemma parts64_eq:
  assumes "s < 2" and "e < 2 ^ 11" and "m < 2 ^ 52"
  shows "parts64 (of_nat (s * 2 ^ 63 + (e * 2 ^ 52 + m))) = (s, e, m)"
proof -
  have "s * 2 ^ 63 + (e * 2 ^ 52 + m) < 2 ^ 64" using assms by simp
  then have u: "unat (of_nat (s * 2 ^ 63 + (e * 2 ^ 52 + m)) :: float64) = s * 2 ^ 63 + (e * 2 ^ 52 + m)"
    by (rule unat_small64)
  show ?thesis unfolding parts64_def u Let_def using fields_join [OF assms(2,3), of s] by simp
qed

lemma parts32_cases:
  obtains s e m where "parts32 w = (s, e, m)" "w = of_nat (s * 2 ^ 31 + (e * 2 ^ 23 + m))" "s < 2" "e < 2 ^ 8" "m < 2 ^ 23"
proof -
  let ?n = "unat w"
  have b: "?n < 2 ^ 32" by (rule unat_bound32)
  have "?n = ?n div 2 ^ 31 * 2 ^ 31 + (?n div 2 ^ 23 mod 2 ^ 8 * 2 ^ 23 + ?n mod 2 ^ 23)"
    using fields_split [of ?n "2 ^ 8" "2 ^ 23"] by simp
  then have "w = of_nat (?n div 2 ^ 31 * 2 ^ 31 + (?n div 2 ^ 23 mod 2 ^ 8 * 2 ^ 23 + ?n mod 2 ^ 23))"
    by (metis of_nat_unat ucast_id)
  moreover have "?n div 2 ^ 31 < 2" using b by simp
  moreover have "parts32 w = (?n div 2 ^ 31, ?n div 2 ^ 23 mod 2 ^ 8, ?n mod 2 ^ 23)" by (simp add: parts32_def Let_def)
  moreover have "?n div 2 ^ 23 mod 2 ^ 8 < 2 ^ 8" "?n mod 2 ^ 23 < 2 ^ 23" by simp_all
  ultimately show ?thesis by (intro that)
qed

text \<open>Division that loses nothing is not rounded.\<close>

lemma round_shift_exact [simp]: "round_shift (n * 2 ^ k) k = n"
  by (simp add: round_shift_def)

lemma float_round_trip:
  assumes "\<not> isNaN32 w"
  shows "float32_of (float64_of w) = w"
proof -
  obtain s e m where p: "parts32 w = (s, e, m)" and w: "w = of_nat (s * 2 ^ 31 + (e * 2 ^ 23 + m))"
    and b: "s < 2" "e < 2 ^ 8" "m < 2 ^ 23" by (rule parts32_cases)
  consider (inf) "e = 255" "m = 0" | (zero) "e = 0" "m = 0" | (sub) "e = 0" "0 < m" | (norm) "0 < e" "e < 255"
    using assms p b(2) by (cases "e = 255"; cases "e = 0"; cases "m = 0") (auto simp: isNaN32_def)
  then show ?thesis
  proof cases
    case inf
    have "parts64 (float64_of w) = (s, 2047, 0)" using parts64_eq [of s 2047 0] b(1) inf by (simp add: float64_of_def p)
    then show ?thesis by (simp add: float32_of_def w inf)
  next
    case zero
    have "parts64 (float64_of w) = (s, 0, 0)" using parts64_eq [of s 0 0] b(1) zero by (simp add: float64_of_def p)
    then show ?thesis using round_shift_exact [of 0] by (simp add: float32_of_def w zero Let_def)
  next
    case sub
    let ?c = "bit_count m"
    have c: "2 ^ (?c - 1) \<le> m" "m < 2 ^ ?c" "0 < ?c" "?c \<le> 23" using bit_count_bounds [OF sub(2)] bit_count_le [OF b(3)] by simp_all
    have l: "2 ^ 52 = 2 ^ (?c - 1) * (2 :: nat) ^ (53 - ?c)" "2 ^ 53 = 2 ^ ?c * (2 :: nat) ^ (53 - ?c)"
      using c(3,4) by (simp_all add: power_add [symmetric])
    have lo: "2 ^ 52 \<le> m * 2 ^ (53 - ?c)" unfolding l(1) using c(1) by (rule mult_le_mono1)
    have hi: "m * 2 ^ (53 - ?c) < 2 ^ 53" unfolding l(2) using c(2) by simp
    have enc: "(?c + 872) * 2 ^ 52 + m * 2 ^ (53 - ?c) = (?c + 873) * 2 ^ 52 + (m * 2 ^ (53 - ?c) - 2 ^ 52)"
      using lo by (simp add: algebra_simps)
    have "parts64 (float64_of w) = (s, ?c + 873, m * 2 ^ (53 - ?c) - 2 ^ 52)"
      using parts64_eq [of s "?c + 873" "m * 2 ^ (53 - ?c) - 2 ^ 52"] b(1) sub c(4) hi lo
      unfolding float64_of_def p by (simp only: prod.case enc if_True if_False refl) simp
    moreover have "max 29 (926 - (?c + 873)) = 53 - ?c" using c(4) by simp
    ultimately show ?thesis using lo b(3) c(4) round_shift_exact [of m "53 - ?c"]
      by (simp add: float32_of_def w sub Let_def)
  next
    case norm
    have "parts64 (float64_of w) = (s, e + 896, m * 2 ^ 29)"
      using parts64_eq [of s "e + 896" "m * 2 ^ 29"] b norm by (simp add: float64_of_def p)
    moreover have "round_shift (2 ^ 52 + m * 2 ^ 29) 29 = 2 ^ 23 + m"
      using round_shift_exact [of "2 ^ 23 + m" 29] by (simp add: algebra_simps)
    ultimately show ?thesis using norm b(3) by (simp add: float32_of_def w Let_def algebra_simps)
  qed
qed

end
