(* ===== verification/Message_Model.thy ===== *)
theory Message_Model
  imports Go_Values "HOL-Library.Char_ord" "HOL-Library.List_Lexorder"
begin

text \<open>
  The messages of the public API (\<open>sdk/message.go\<close>, \<open>sdk/message_json.go\<close>): extension values and their
  JSON form, the conversion between the API and the wire model in both directions, the online state, and
  the protocol document of \<open>ToJSON\<close>.

  A Go map is an association list with distinct keys in the order one iteration over it happens to have.
  The codec is the native library behind \<open>internalprotocol.Codec\<close>; the text level of \<open>encoding/json\<close>
  (parsing, formatting of floating-point numbers) is a parameter too.
\<close>

section \<open>Libraries\<close>

record codec =
  cd_EncodeMessageBody :: "MessageBody \<Rightarrow> go_error + bytes"
  cd_DecodeMessageBody :: "bytes \<Rightarrow> go_error + MessageBody option"
  cd_DecodeStatistic :: "bytes \<Rightarrow> go_error + Statistic"

text \<open>
  \<open>json.Unmarshal\<close> as far as it parses a text, the literals that \<open>json.Marshal\<close> writes for finite
  floating-point numbers, and \<open>strconv.ParseFloat\<close> on such a literal.
\<close>

record json_lib =
  jl_parse :: "bytes \<Rightarrow> json option"
  jl_float64 :: "float64 \<Rightarrow> string"
  jl_float32 :: "float32 \<Rightarrow> string"
  jl_parseFloat :: "string \<Rightarrow> float64 option"

section \<open>Errors\<close>

text \<open>
  \<open>MsgErr\<close> is a plain error, \<open>KeyErr\<close> one that names an extension key, \<open>TypeErr\<close> one that names a type,
  \<open>WrapMsgErr\<close> the result of \<open>fmt.Errorf\<close> with \<open>%w\<close>, \<open>CodecErr\<close> an error of the codec, \<open>MsgPanic\<close> a nil
  dereference.
\<close>

datatype message_error =
    MsgErr string
  | KeyErr string string
  | TypeErr string string
  | WrapMsgErr string message_error
  | CodecErr go_error
  | MsgPanic

section \<open>Extension values\<close>

abbreviation (input) KeyValueBool :: string where "KeyValueBool \<equiv> ''bool''"
abbreviation (input) KeyValueInt :: string where "KeyValueInt \<equiv> ''int''"
abbreviation (input) KeyValueUint :: string where "KeyValueUint \<equiv> ''uint''"
abbreviation (input) KeyValueLong :: string where "KeyValueLong \<equiv> ''llint''"
abbreviation (input) KeyValueFloat :: string where "KeyValueFloat \<equiv> ''float''"
abbreviation (input) KeyValueDouble :: string where "KeyValueDouble \<equiv> ''double''"
abbreviation (input) KeyValueString :: string where "KeyValueString \<equiv> ''string''"
abbreviation (input) KeyValueJSONString :: string where "KeyValueJSONString \<equiv> ''json_string''"

text \<open>The kinds of the wire model.\<close>

abbreviation (input) KindBool :: int where "KindBool \<equiv> 1"
abbreviation (input) KindInt :: int where "KindInt \<equiv> 2"
abbreviation (input) KindUint :: int where "KindUint \<equiv> 3"
abbreviation (input) KindLong :: int where "KindLong \<equiv> 4"
abbreviation (input) KindFloat :: int where "KindFloat \<equiv> 5"
abbreviation (input) KindDouble :: int where "KindDouble \<equiv> 6"
abbreviation (input) KindString :: int where "KindString \<equiv> 7"
abbreviation (input) KindJSONString :: int where "KindJSONString \<equiv> 8"

record sdkKeyValue =
  kt :: string
  kx :: go_value

definition emptyKV :: "string \<Rightarrow> KeyValue" where
  "emptyKV key = \<lparr>kv_Key = key, kv_Kind = 0, kv_Bool = False, kv_Int64 = 0, kv_Uint64 = 0, kv_Float = 0,
     kv_Double = 0, kv_String = []\<rparr>"

text \<open>One value of \<open>encodeMessageExt\<close>; \<open>over\<close> as in \<open>asUint64\<close>.\<close>

definition encode_value :: "uint64 \<Rightarrow> string \<Rightarrow> sdkKeyValue \<Rightarrow> message_error + KeyValue" where
  "encode_value over key value =
     (let e = emptyKV key
      in if kt value = KeyValueBool
         then (case kx value of VBool v \<Rightarrow> Inr (e\<lparr>kv_Kind := KindBool, kv_Bool := v\<rparr>)
               | _ \<Rightarrow> Inl (KeyErr key ''bool KeyValue requires bool''))
         else if kt value = KeyValueInt
         then (case asInt64 (kx value) of Some v \<Rightarrow> Inr (e\<lparr>kv_Kind := KindInt, kv_Int64 := v\<rparr>)
               | None \<Rightarrow> Inl (KeyErr key ''int KeyValue requires an integer''))
         else if kt value = KeyValueUint
         then (case asUint64 over (kx value) of Some v \<Rightarrow> Inr (e\<lparr>kv_Kind := KindUint, kv_Uint64 := v\<rparr>)
               | None \<Rightarrow> Inl (KeyErr key ''uint KeyValue requires a non-negative integer''))
         else if kt value = KeyValueLong
         then (case asInt64 (kx value) of Some v \<Rightarrow> Inr (e\<lparr>kv_Kind := KindLong, kv_Int64 := v\<rparr>)
               | None \<Rightarrow> Inl (KeyErr key ''llint KeyValue requires an integer''))
         else if kt value = KeyValueFloat
         then (case asFloat64 (kx value) of Some v \<Rightarrow> Inr (e\<lparr>kv_Kind := KindFloat, kv_Float := float32_of v\<rparr>)
               | None \<Rightarrow> Inl (KeyErr key ''float KeyValue requires float32 or float64''))
         else if kt value = KeyValueDouble
         then (case asFloat64 (kx value) of Some v \<Rightarrow> Inr (e\<lparr>kv_Kind := KindDouble, kv_Double := v\<rparr>)
               | None \<Rightarrow> Inl (KeyErr key ''double KeyValue requires float32 or float64''))
         else if kt value = KeyValueString \<or> kt value = KeyValueJSONString
         then (case kx value of
                 VString v \<Rightarrow> Inr (e\<lparr>kv_Kind := (if kt value = KeyValueJSONString then KindJSONString else KindString),
                                    kv_String := v\<rparr>)
               | _ \<Rightarrow> Inl (KeyErr key (kt value @ '' KeyValue requires string'')))
         else Inl (TypeErr key (kt value)))"

definition encodeMessageExt :: "uint64 \<Rightarrow> (string \<times> sdkKeyValue) list \<Rightarrow> message_error + KeyValue list" where
  "encodeMessageExt over values =
     for_each (\<lambda>(key, value) result.
         if key = [] then Inl (MsgErr ''extension key is empty'')
         else and_then (encode_value over key value) (\<lambda>encoded. Inr (result @ [encoded])))
       (sort_key fst values) []"

definition encodeStringKeyValues :: "(string \<times> sdkKeyValue) list \<Rightarrow> message_error + KeyValue list" where
  "encodeStringKeyValues values =
     for_each (\<lambda>(key, value) result.
         if kt value \<noteq> KeyValueString \<and> kt value \<noteq> KeyValueJSONString
         then Inl (KeyErr key ''sending only supports string and json_string KeyValue'')
         else (case kx value of
                 VString s \<Rightarrow>
                   Inr (result @ [(emptyKV key)
                     \<lparr>kv_Kind := (if kt value = KeyValueJSONString then KindJSONString else KindString), kv_String := s\<rparr>])
               | _ \<Rightarrow> Inl (KeyErr key ''KeyValue value must be string'')))
       values []"

text \<open>One value of \<open>decodeKeyValues\<close>; \<open>None\<close> is a kind that is skipped.\<close>

definition decode_value :: "KeyValue \<Rightarrow> sdkKeyValue option" where
  "decode_value value =
     (if kv_Kind value = KindBool then Some \<lparr>kt = KeyValueBool, kx = VBool (kv_Bool value)\<rparr>
      else if kv_Kind value = KindInt then Some \<lparr>kt = KeyValueInt, kx = VInt64 (of_int (kv_Int64 value))\<rparr>
      else if kv_Kind value = KindUint then Some \<lparr>kt = KeyValueUint, kx = VUint64 (kv_Uint64 value)\<rparr>
      else if kv_Kind value = KindLong then Some \<lparr>kt = KeyValueLong, kx = VInt64 (of_int (kv_Int64 value))\<rparr>
      else if kv_Kind value = KindFloat then Some \<lparr>kt = KeyValueFloat, kx = VFloat64 (float64_of (kv_Float value))\<rparr>
      else if kv_Kind value = KindDouble then Some \<lparr>kt = KeyValueDouble, kx = VFloat64 (kv_Double value)\<rparr>
      else if kv_Kind value = KindString then Some \<lparr>kt = KeyValueString, kx = VString (kv_String value)\<rparr>
      else if kv_Kind value = KindJSONString then Some \<lparr>kt = KeyValueJSONString, kx = VString (kv_String value)\<rparr>
      else None)"

text \<open>The nil map of the source is the empty list.\<close>

definition decodeKeyValues :: "KeyValue list \<Rightarrow> (string \<times> sdkKeyValue) list" where
  "decodeKeyValues values =
     fold (\<lambda>value result. case decode_value value of None \<Rightarrow> result
             | Some decoded \<Rightarrow> AList.update (kv_Key value) decoded result) values []"

subsection \<open>JSON\<close>

text \<open>\<open>json.Marshal\<close> of an interface value: a floating-point number that is not finite is an error.\<close>

definition finite64 :: "float64 \<Rightarrow> bool" where "finite64 f \<longleftrightarrow> fst (snd (parts64 f)) \<noteq> 2047"
definition finite32 :: "float32 \<Rightarrow> bool" where "finite32 f \<longleftrightarrow> fst (snd (parts32 f)) \<noteq> 255"

fun marshal_value :: "json_lib \<Rightarrow> go_value \<Rightarrow> message_error + json" where
  "marshal_value lib (VBool b) = Inr (JsBool b)"
| "marshal_value lib (VInt8 n) = Inr (JsNumber (itoa (sint n)))"
| "marshal_value lib (VInt16 n) = Inr (JsNumber (itoa (sint n)))"
| "marshal_value lib (VInt32 n) = Inr (JsNumber (itoa (sint n)))"
| "marshal_value lib (VInt64 n) = Inr (JsNumber (itoa (sint n)))"
| "marshal_value lib (VInt n) = Inr (JsNumber (itoa (sint n)))"
| "marshal_value lib (VUint8 n) = Inr (JsNumber (itoa (uint n)))"
| "marshal_value lib (VUint16 n) = Inr (JsNumber (itoa (uint n)))"
| "marshal_value lib (VUint32 n) = Inr (JsNumber (itoa (uint n)))"
| "marshal_value lib (VUint64 n) = Inr (JsNumber (itoa (uint n)))"
| "marshal_value lib (VUint n) = Inr (JsNumber (itoa (uint n)))"
| "marshal_value lib (VFloat32 f) =
     (if finite32 f then Inr (JsNumber (jl_float32 lib f)) else Inl (MsgErr ''json: unsupported value''))"
| "marshal_value lib (VFloat64 f) =
     (if finite64 f then Inr (JsNumber (jl_float64 lib f)) else Inl (MsgErr ''json: unsupported value''))"
| "marshal_value lib (VString s) = Inr (JsString (coerceUTF8 s))"
| "marshal_value lib (VOther j) = (case j of Some t \<Rightarrow> Inr t | None \<Rightarrow> Inl (MsgErr ''json: unsupported type''))"

definition KeyValue_MarshalJSON :: "json_lib \<Rightarrow> uint64 \<Rightarrow> sdkKeyValue \<Rightarrow> message_error + json" where
  "KeyValue_MarshalJSON lib over v =
     and_then
       (if kt v = KeyValueLong
        then (case asInt64 (kx v) of None \<Rightarrow> Inl (MsgErr (kt v @ '' KeyValue requires int64''))
              | Some n \<Rightarrow> Inr (JsString (itoa n)))
        else if kt v = KeyValueUint
        then (case asUint64 over (kx v) of None \<Rightarrow> Inl (MsgErr (kt v @ '' KeyValue requires uint64''))
              | Some n \<Rightarrow> Inr (JsString (nat_digits (unat n))))
        else marshal_value lib (kx v))
       (\<lambda>value. Inr (JsObject [(''type'', JsString (coerceUTF8 (kt v))), (''value'', value)]))"

text \<open>
  \<open>json.Unmarshal\<close> of a parsed value into a variable of type \<open>string\<close>, \<open>bool\<close>, \<open>int64\<close> and \<open>float64\<close>
  that holds its zero value; a JSON null leaves it alone.
\<close>

definition get_string :: "json \<Rightarrow> string option" where
  "get_string j = (case j of JsString s \<Rightarrow> Some s | JsNull \<Rightarrow> Some [] | _ \<Rightarrow> None)"

definition get_bool :: "json \<Rightarrow> bool option" where
  "get_bool j = (case j of JsBool b \<Rightarrow> Some b | JsNull \<Rightarrow> Some False | _ \<Rightarrow> None)"

definition get_int64 :: "json \<Rightarrow> int64 option" where
  "get_int64 j = (case j of JsNumber lit \<Rightarrow> atoi lit | JsNull \<Rightarrow> Some 0 | _ \<Rightarrow> None)"

definition get_float64 :: "json_lib \<Rightarrow> json \<Rightarrow> float64 option" where
  "get_float64 lib j = (case j of JsNumber lit \<Rightarrow> jl_parseFloat lib lit | JsNull \<Rightarrow> Some 0 | _ \<Rightarrow> None)"

text \<open>
  Decoding into the structure \<open>wire\<close>: the members in their order, their names compared without case, the
  last one wins; a type that is not a string is an error.
\<close>

fun wire_members :: "(string \<times> json) list \<Rightarrow> string \<Rightarrow> json option \<Rightarrow> (string \<times> json option) option" where
  "wire_members [] t v = Some (t, v)"
| "wire_members ((name, j) # ms) t v =
     (if map to_lower_char name = ''type''
      then (case j of JsString s \<Rightarrow> wire_members ms s v | JsNull \<Rightarrow> wire_members ms t v | _ \<Rightarrow> None)
      else if map to_lower_char name = ''value'' then wire_members ms t (Some j)
      else wire_members ms t v)"

definition KeyValue_UnmarshalJSON :: "json_lib \<Rightarrow> json \<Rightarrow> message_error + sdkKeyValue" where
  "KeyValue_UnmarshalJSON lib data =
     (case (case data of JsObject ms \<Rightarrow> wire_members ms [] None | JsNull \<Rightarrow> Some ([], None) | _ \<Rightarrow> None) of
        None \<Rightarrow> Inl (MsgErr ''json: cannot unmarshal'')
      | Some (t, value) \<Rightarrow>
          if t = KeyValueLong
          then (case Option.bind value get_string of
                  None \<Rightarrow> Inl (MsgErr ''llint KeyValue JSON value must be a decimal string'')
                | Some s \<Rightarrow> (case atoi s of None \<Rightarrow> Inl (WrapMsgErr ''invalid llint KeyValue'' (MsgErr s))
                             | Some n \<Rightarrow> Inr \<lparr>kt = t, kx = VInt64 (of_int n)\<rparr>))
          else if t = KeyValueUint
          then (case Option.bind value get_string of
                  None \<Rightarrow> Inl (MsgErr ''uint KeyValue JSON value must be a decimal string'')
                | Some s \<Rightarrow> (case parseUint s of None \<Rightarrow> Inl (WrapMsgErr ''invalid uint KeyValue'' (MsgErr s))
                             | Some n \<Rightarrow> Inr \<lparr>kt = t, kx = VUint64 n\<rparr>))
          else if t = KeyValueBool
          then (case Option.bind value get_bool of None \<Rightarrow> Inl (MsgErr ''json: cannot unmarshal'')
                | Some b \<Rightarrow> Inr \<lparr>kt = t, kx = VBool b\<rparr>)
          else if t = KeyValueString \<or> t = KeyValueJSONString
          then (case Option.bind value get_string of None \<Rightarrow> Inl (MsgErr ''json: cannot unmarshal'')
                | Some s \<Rightarrow> Inr \<lparr>kt = t, kx = VString s\<rparr>)
          else if t = KeyValueInt
          then (case Option.bind value get_int64 of None \<Rightarrow> Inl (MsgErr ''json: cannot unmarshal'')
                | Some n \<Rightarrow> Inr \<lparr>kt = t, kx = VInt64 (of_int n)\<rparr>)
          else if t = KeyValueFloat \<or> t = KeyValueDouble
          then (case Option.bind value (get_float64 lib) of None \<Rightarrow> Inl (MsgErr ''json: cannot unmarshal'')
                | Some f \<Rightarrow> Inr \<lparr>kt = t, kx = VFloat64 f\<rparr>)
          else Inl (TypeErr ''unknown KeyValue type'' t))"

definition KeyValue_Equal :: "json_lib \<Rightarrow> uint64 \<Rightarrow> sdkKeyValue \<Rightarrow> sdkKeyValue \<Rightarrow> bool" where
  "KeyValue_Equal lib over v w \<longleftrightarrow>
     kt v = kt w
     \<and> (case (KeyValue_MarshalJSON lib over v, KeyValue_MarshalJSON lib over w) of
          (Inr a, Inr b) \<Rightarrow> a = b | (Inl _, Inl _) \<Rightarrow> True | _ \<Rightarrow> False)"

section \<open>Online state\<close>

datatype MessageOnlineState = MessageOnlineStateUnknown | MessageOnlineStateOnline | MessageOnlineStateOffline

text \<open>The string the constants stand for.\<close>

fun online_text :: "MessageOnlineState \<Rightarrow> string" where
  "online_text MessageOnlineStateUnknown = []"
| "online_text MessageOnlineStateOnline = ''online''"
| "online_text MessageOnlineStateOffline = ''offline''"

definition messageOnlineStateKey :: string where "messageOnlineStateKey = ''is_online''"

text \<open>
  A JSON object as a map from names: the last duplicate wins.  The pointer that a null leaves nil is
  \<open>None\<close> inside \<open>Some\<close>.
\<close>

definition object_member :: "(string \<times> json) list \<Rightarrow> string \<Rightarrow> json option" where
  "object_member ms name = map_of (rev ms) name"

definition parseOnlineState :: "json_lib \<Rightarrow> bytes \<Rightarrow> MessageOnlineState" where
  "parseOnlineState lib attributes =
     (if attributes = [] then MessageOnlineStateUnknown
      else case jl_parse lib attributes of
             Some (JsObject ms) \<Rightarrow>
               (case object_member ms messageOnlineStateKey of None \<Rightarrow> MessageOnlineStateUnknown
                | Some raw \<Rightarrow>
                    (case (case raw of JsNull \<Rightarrow> Some None | JsNumber lit \<Rightarrow> map_option Some (atoi lit) | _ \<Rightarrow> None) of
                       Some None \<Rightarrow> MessageOnlineStateUnknown
                     | Some (Some number) \<Rightarrow>
                         if number = 0 then MessageOnlineStateOffline else MessageOnlineStateOnline
                     | None \<Rightarrow>
                         (case raw of
                            JsBool flag \<Rightarrow> if flag then MessageOnlineStateOnline else MessageOnlineStateOffline
                          | _ \<Rightarrow> MessageOnlineStateUnknown)))
           | _ \<Rightarrow> MessageOnlineStateUnknown)"

section \<open>Bodies\<close>

abbreviation (input) MessageBodyText :: string where "MessageBodyText \<equiv> ''text''"
abbreviation (input) MessageBodyCommand :: string where "MessageBodyCommand \<equiv> ''command''"
abbreviation (input) MessageBodyCustom :: string where "MessageBodyCustom \<equiv> ''custom''"
abbreviation (input) MessageBodyUnknown :: string where "MessageBodyUnknown \<equiv> ''unknown''"

record sdkMessageBody =
  by_Type :: string
  by_Text :: string
  by_Action :: string
  by_Event :: string
  by_CustomExts :: "(string \<times> sdkKeyValue) list"
  by_RawType :: int
  by_RawPayload :: bytes

definition emptyBody :: sdkMessageBody where
  "emptyBody = \<lparr>by_Type = [], by_Text = [], by_Action = [], by_Event = [], by_CustomExts = [], by_RawType = 0,
     by_RawPayload = []\<rparr>"

definition emptyContent :: Content where
  "emptyContent = \<lparr>co_Kind = 0, co_Text = [], co_Action = [], co_Params = [], co_Event = [], co_CustomExts = [],
     co_RawPayload = []\<rparr>"

definition encodeOutgoingContent :: "sdkMessageBody \<Rightarrow> message_error + Content" where
  "encodeOutgoingContent body =
     (if by_Type body = MessageBodyText then Inr (emptyContent\<lparr>co_Kind := ContentText, co_Text := by_Text body\<rparr>)
      else if by_Type body = MessageBodyCommand
      then Inr (emptyContent\<lparr>co_Kind := ContentCommand, co_Action := by_Action body\<rparr>)
      else if by_Type body = MessageBodyCustom
      then (case encodeStringKeyValues (by_CustomExts body) of
              Inl e \<Rightarrow> Inl (WrapMsgErr ''custom extensions'' e)
            | Inr exts \<Rightarrow> Inr (emptyContent\<lparr>co_Kind := ContentCustom, co_Event := by_Event body, co_CustomExts := exts\<rparr>))
      else Inl (TypeErr ''unsupported outgoing message body type'' (by_Type body)))"

definition decodeContent :: "Content \<Rightarrow> sdkMessageBody" where
  "decodeContent content =
     (if co_Kind content = ContentText then emptyBody\<lparr>by_Type := MessageBodyText, by_Text := co_Text content\<rparr>
      else if co_Kind content = ContentCommand
      then emptyBody\<lparr>by_Type := MessageBodyCommand, by_Action := co_Action content\<rparr>
      else if co_Kind content = ContentCustom
      then emptyBody\<lparr>by_Type := MessageBodyCustom, by_Event := co_Event content,
                     by_CustomExts := decodeKeyValues (co_CustomExts content)\<rparr>
      else emptyBody\<lparr>by_Type := MessageBodyUnknown, by_RawType := co_Kind content, by_RawPayload := co_RawPayload content\<rparr>)"

definition shouldDeliverToHandler :: "MessageBody option \<Rightarrow> bool" where
  "shouldDeliverToHandler body =
     (case body of None \<Rightarrow> False
      | Some b \<Rightarrow>
          if mb_Kind b \<noteq> MessageChat \<and> mb_Kind b \<noteq> MessageGroupChat then False
          else (case mb_Contents b of [] \<Rightarrow> False
                | c # cs \<Rightarrow> co_Kind c = ContentText \<or> co_Kind c = ContentCommand \<or> co_Kind c = ContentCustom))"

section \<open>The protocol document\<close>

record protocolJIDJSON =
  pj_AppKey :: string
  pj_Name :: string
  pj_Domain :: string
  pj_ClientResource :: string

record protocolKVJSON =
  pk_Key :: string
  pk_Type :: int
  pk_VarintValue :: int64
  pk_FloatValue :: float32
  pk_DoubleValue :: float64
  pk_StringValue :: string

record protocolContentJSON =
  pc_Type :: int
  pc_Text :: string
  pc_Action :: string
  pc_Params :: "protocolKVJSON list"
  pc_CustomEvent :: string
  pc_CustomExts :: "protocolKVJSON list"

record protocolBodyJSON =
  pb_Type :: int
  pb_From :: protocolJIDJSON
  pb_To :: protocolJIDJSON
  pb_Bodies :: "protocolContentJSON list"
  pb_Ext :: "protocolKVJSON list"

record messageProtocol =
  mp_ID :: uint64
  mp_From :: protocolJIDJSON
  mp_To :: protocolJIDJSON
  mp_Timestamp :: uint64
  mp_NS :: int
  mp_RouteType :: int
  mp_Ext :: "protocolKVJSON list"
  mp_Meta :: bytes
  mp_DirectedUsers :: "string list"
  mp_ExpireTime :: uint64
  mp_LocalTimestamp :: uint64
  mp_Env :: string
  mp_Payload :: protocolBodyJSON

definition protocolJID :: "JID \<Rightarrow> protocolJIDJSON" where
  "protocolJID j = \<lparr>pj_AppKey = jid_AppKey j, pj_Name = jid_Name j, pj_Domain = jid_Domain j,
     pj_ClientResource = jid_ClientResource j\<rparr>"

definition protocolKVs :: "KeyValue list \<Rightarrow> protocolKVJSON list" where
  "protocolKVs values =
     map (\<lambda>value.
       let item = \<lparr>pk_Key = kv_Key value, pk_Type = kv_Kind value, pk_VarintValue = 0, pk_FloatValue = 0,
                   pk_DoubleValue = 0, pk_StringValue = []\<rparr>
       in if kv_Kind value = KindBool then (if kv_Bool value then item\<lparr>pk_VarintValue := 1\<rparr> else item)
          else if kv_Kind value = KindInt \<or> kv_Kind value = KindLong then item\<lparr>pk_VarintValue := kv_Int64 value\<rparr>
          else if kv_Kind value = KindUint then item\<lparr>pk_StringValue := nat_digits (unat (kv_Uint64 value))\<rparr>
          else if kv_Kind value = KindFloat then item\<lparr>pk_FloatValue := kv_Float value\<rparr>
          else if kv_Kind value = KindDouble then item\<lparr>pk_DoubleValue := kv_Double value\<rparr>
          else if kv_Kind value = KindString \<or> kv_Kind value = KindJSONString then item\<lparr>pk_StringValue := kv_String value\<rparr>
          else item) values"

text \<open>The text \<open>{}\<close>, and the attributes when they are an object.\<close>

definition emptyObject :: bytes where "emptyObject = [123, 125]"

definition attributesJSON :: "json_lib \<Rightarrow> bytes \<Rightarrow> bytes" where
  "attributesJSON lib raw =
     (if raw = [] then emptyObject
      else if jl_parse lib raw \<noteq> None \<and> hd raw = 123 then raw else emptyObject)"

definition protocolJSONFromWire :: "json_lib \<Rightarrow> Meta \<Rightarrow> MessageBody \<Rightarrow> messageProtocol" where
  "protocolJSONFromWire lib meta body =
     \<lparr>mp_ID = me_ID meta, mp_From = protocolJID (me_From meta), mp_To = protocolJID (me_To meta),
      mp_Timestamp = me_Timestamp meta, mp_NS = me_Namespace meta, mp_RouteType = me_Route meta,
      mp_Ext = protocolKVs (fst (me_Ext meta)), mp_Meta = attributesJSON lib (fst (me_Attributes meta)),
      mp_DirectedUsers = fst (me_DirectedUsers meta), mp_ExpireTime = me_ExpireTime meta,
      mp_LocalTimestamp = me_LocalTimestamp meta, mp_Env = me_Environment meta,
      mp_Payload =
        \<lparr>pb_Type = mb_Kind body, pb_From = protocolJID (mb_From body), pb_To = protocolJID (mb_To body),
         pb_Bodies = map (\<lambda>content.
           \<lparr>pc_Type = co_Kind content, pc_Text = co_Text content, pc_Action = co_Action content,
            pc_Params = protocolKVs (co_Params content), pc_CustomEvent = co_Event content,
            pc_CustomExts = protocolKVs (co_CustomExts content)\<rparr>) (mb_Contents body),
         pb_Ext = protocolKVs (mb_Ext body)\<rparr>\<rparr>"

section \<open>Messages\<close>

record sdkMessage =
  ms_From :: string
  ms_To :: string
  ms_IsGroup :: bool
  ms_MetaID :: uint64
  ms_Timestamp :: uint64
  ms_Body :: "sdkMessageBody option"
  ms_Ext :: "(string \<times> sdkKeyValue) list"
  ms_OnlineState :: MessageOnlineState
  ms_protocol :: "messageProtocol option"

definition messageFromProtocol :: "json_lib \<Rightarrow> Meta \<Rightarrow> MessageBody \<Rightarrow> sdkMessage" where
  "messageFromProtocol lib meta body =
     \<lparr>ms_From = jid_Name (mb_From body), ms_To = jid_Name (mb_To body),
      ms_IsGroup = (mb_Kind body = MessageGroupChat), ms_MetaID = me_ID meta, ms_Timestamp = me_Timestamp meta,
      ms_Body = (case mb_Contents body of [] \<Rightarrow> None | c # cs \<Rightarrow> Some (decodeContent c)),
      ms_Ext = decodeKeyValues (mb_Ext body),
      ms_OnlineState = parseOnlineState lib (fst (me_Attributes meta)),
      ms_protocol = Some (protocolJSONFromWire lib meta body)\<rparr>"

definition parseIncomingMessage :: "json_lib \<Rightarrow> codec \<Rightarrow> Meta \<Rightarrow> message_error + sdkMessage" where
  "parseIncomingMessage lib cd meta =
     (case cd_DecodeMessageBody cd (fst (me_Payload meta)) of
        Inl e \<Rightarrow> Inl (WrapMsgErr ''unmarshal message body'' (CodecErr e))
      | Inr None \<Rightarrow> Inl MsgPanic
      | Inr (Some wire) \<Rightarrow> Inr (messageFromProtocol lib meta wire))"

text \<open>The attributes that \<open>protocolJSONFromPublic\<close> makes up for a known online state.\<close>

definition online_attributes :: "MessageOnlineState \<Rightarrow> bytes" where
  "online_attributes st =
     (case st of MessageOnlineStateUnknown \<Rightarrow> []
      | MessageOnlineStateOnline \<Rightarrow> map (of_nat \<circ> of_char) (''{'' @ [CHR 0x22] @ ''is_online'' @ [CHR 0x22] @ '':1}'')
      | MessageOnlineStateOffline \<Rightarrow> map (of_nat \<circ> of_char) (''{'' @ [CHR 0x22] @ ''is_online'' @ [CHR 0x22] @ '':0}''))"

definition nameJID :: "string \<Rightarrow> JID" where "nameJID name = emptyJID\<lparr>jid_Name := name\<rparr>"

definition protocolJSONFromPublic :: "json_lib \<Rightarrow> uint64 \<Rightarrow> sdkMessage \<Rightarrow> messageProtocol" where
  "protocolJSONFromPublic lib over m =
     (let contents = (case ms_Body m of None \<Rightarrow> []
                      | Some b \<Rightarrow> (case encodeOutgoingContent b of Inr c \<Rightarrow> [c] | Inl _ \<Rightarrow> []));
          ext = (case encodeMessageExt over (ms_Ext m) of Inr kvs \<Rightarrow> kvs | Inl _ \<Rightarrow> []);
          body = \<lparr>mb_Kind = (if ms_IsGroup m then MessageGroupChat else MessageChat), mb_From = nameJID (ms_From m),
                  mb_To = nameJID (ms_To m), mb_Contents = contents, mb_Ext = ext\<rparr>;
          attrs = online_attributes (ms_OnlineState m);
          meta = emptyMeta\<lparr>me_ID := ms_MetaID m, me_From := nameJID (ms_From m), me_To := nameJID (ms_To m),
                           me_Timestamp := ms_Timestamp m, me_Namespace := NamespaceChat,
                           me_Attributes := (attrs, length attrs)\<rparr>
      in protocolJSONFromWire lib meta body)"

section \<open>Outgoing messages\<close>

record SendRequest =
  rq_ClientMessageID :: uint64
  rq_To :: string
  rq_IsGroup :: bool
  rq_DirectedUsers :: "string list"
  rq_Ext :: "(string \<times> sdkKeyValue) list"
  rq_Body :: sdkMessageBody

text \<open>
  What \<open>buildOutgoingMeta\<close> and \<open>NewOutgoingMessage\<close> build in the same way: the recipient, the route and
  the body.
\<close>

definition outgoing_to :: "string \<Rightarrow> string \<Rightarrow> SendRequest \<Rightarrow> JID" where
  "outgoing_to appKey domain req =
     (let to = (nameJID (rq_To req))\<lparr>jid_AppKey := appKey\<rparr>
      in if rq_IsGroup req then to\<lparr>jid_Domain := ''conference.'' @ domain\<rparr> else to)"

definition outgoing_body :: "string \<Rightarrow> SendRequest \<Rightarrow> Content \<Rightarrow> KeyValue list \<Rightarrow> MessageBody" where
  "outgoing_body userID req content ext =
     \<lparr>mb_Kind = (if rq_IsGroup req then MessageGroupChat else MessageChat), mb_From = nameJID userID,
      mb_To = nameJID (rq_To req), mb_Contents = [content], mb_Ext = ext\<rparr>"

definition outgoing_route :: "SendRequest \<Rightarrow> int" where
  "outgoing_route req = (if rq_DirectedUsers req \<noteq> [] then RouteDirect else RouteAll)"

definition buildOutgoingMeta ::
  "codec \<Rightarrow> uint64 \<Rightarrow> string \<Rightarrow> string \<Rightarrow> string \<Rightarrow> SendRequest \<Rightarrow> message_error + Meta" where
  "buildOutgoingMeta cd over appKey userID domain req =
     (if rq_ClientMessageID req = 0 then Inl (MsgErr ''ClientMessageID is required'')
      else if rq_To req = [] then Inl (MsgErr ''message recipient is required'')
      else if rq_DirectedUsers req \<noteq> [] \<and> \<not> rq_IsGroup req
      then Inl (MsgErr ''directed users require a group message'')
      else case encodeOutgoingContent (rq_Body req) of Inl e \<Rightarrow> Inl e
      | Inr content \<Rightarrow>
          (case encodeMessageExt over (rq_Ext req) of Inl e \<Rightarrow> Inl (WrapMsgErr ''message ext'' e)
           | Inr ext \<Rightarrow>
               (case cd_EncodeMessageBody cd (outgoing_body userID req content ext) of
                  Inl e \<Rightarrow>
                    Inl (CodecErr (wrapError (if errors_Is e ErrLimitExceeded then ErrProtocolLimit else ErrProtocol)
                                     ''marshal message body'' e))
                | Inr payload \<Rightarrow>
                    Inr (emptyMeta\<lparr>me_ID := rq_ClientMessageID req, me_To := outgoing_to appKey domain req,
                           me_Namespace := NamespaceChat, me_Payload := (payload, length payload),
                           me_Route := outgoing_route req,
                           me_DirectedUsers := (rq_DirectedUsers req, length (rq_DirectedUsers req))\<rparr>))))"

definition buildSendMeta ::
  "codec \<Rightarrow> uint64 \<Rightarrow> string \<Rightarrow> string \<Rightarrow> string \<Rightarrow> SendRequest \<Rightarrow> uint64 \<Rightarrow> message_error + Meta" where
  "buildSendMeta cd over appKey userID domain req mid =
     buildOutgoingMeta cd over appKey userID domain (req\<lparr>rq_ClientMessageID := mid\<rparr>)"

definition NewOutgoingMessage ::
  "json_lib \<Rightarrow> uint64 \<Rightarrow> string \<Rightarrow> string \<Rightarrow> string \<Rightarrow> SendRequest \<Rightarrow> message_error + sdkMessage" where
  "NewOutgoingMessage lib over appKey userID domain req =
     (if rq_To req = [] then Inl (MsgErr ''message recipient is required'')
      else if rq_DirectedUsers req \<noteq> [] \<and> \<not> rq_IsGroup req
      then Inl (MsgErr ''directed users require a group message'')
      else case encodeOutgoingContent (rq_Body req) of Inl e \<Rightarrow> Inl e
      | Inr content \<Rightarrow>
          (case encodeMessageExt over (rq_Ext req) of Inl e \<Rightarrow> Inl e
           | Inr ext \<Rightarrow>
               Inr (messageFromProtocol lib
                      (emptyMeta\<lparr>me_ID := rq_ClientMessageID req, me_To := outgoing_to appKey domain req,
                         me_Namespace := NamespaceChat, me_Route := outgoing_route req,
                         me_DirectedUsers := (rq_DirectedUsers req, length (rq_DirectedUsers req))\<rparr>)
                      (outgoing_body userID req content ext))))"

section \<open>The JSON text of the document\<close>

definition js_uint :: "uint64 \<Rightarrow> json" where "js_uint n = JsNumber (itoa (uint n))"
definition js_int :: "int \<Rightarrow> json" where "js_int n = JsNumber (itoa n)"
definition js_str :: "string \<Rightarrow> json" where "js_str s = JsString (coerceUTF8 s)"

fun marshal_list :: "('a \<Rightarrow> message_error + json) \<Rightarrow> 'a list \<Rightarrow> message_error + json list" where
  "marshal_list f [] = Inr []"
| "marshal_list f (x # xs) = and_then (f x) (\<lambda>j. and_then (marshal_list f xs) (\<lambda>js. Inr (j # js)))"

definition jid_json :: "protocolJIDJSON \<Rightarrow> json" where
  "jid_json j = JsObject [(''app_key'', js_str (pj_AppKey j)), (''name'', js_str (pj_Name j)),
     (''domain'', js_str (pj_Domain j)), (''client_resource'', js_str (pj_ClientResource j))]"

definition kv_json :: "json_lib \<Rightarrow> protocolKVJSON \<Rightarrow> message_error + json" where
  "kv_json lib k =
     (if \<not> finite32 (pk_FloatValue k) \<or> \<not> finite64 (pk_DoubleValue k) then Inl (MsgErr ''json: unsupported value'')
      else Inr (JsObject [(''key'', js_str (pk_Key k)), (''type'', js_int (pk_Type k)),
             (''varint_value'', js_int (pk_VarintValue k)), (''float_value'', JsNumber (jl_float32 lib (pk_FloatValue k))),
             (''double_value'', JsNumber (jl_float64 lib (pk_DoubleValue k))), (''string_value'', js_str (pk_StringValue k))]))"

definition content_json :: "json_lib \<Rightarrow> protocolContentJSON \<Rightarrow> message_error + json" where
  "content_json lib c =
     and_then (marshal_list (kv_json lib) (pc_Params c)) (\<lambda>params.
     and_then (marshal_list (kv_json lib) (pc_CustomExts c)) (\<lambda>exts.
       Inr (JsObject [(''type'', js_int (pc_Type c)), (''text'', js_str (pc_Text c)), (''action'', js_str (pc_Action c)),
         (''params'', JsArray params), (''customEvent'', js_str (pc_CustomEvent c)), (''customExts'', JsArray exts)])))"

definition body_json :: "json_lib \<Rightarrow> protocolBodyJSON \<Rightarrow> message_error + json" where
  "body_json lib b =
     and_then (marshal_list (content_json lib) (pb_Bodies b)) (\<lambda>bodies.
     and_then (marshal_list (kv_json lib) (pb_Ext b)) (\<lambda>ext.
       Inr (JsObject [(''type'', js_int (pb_Type b)), (''from'', jid_json (pb_From b)), (''to'', jid_json (pb_To b)),
         (''bodies'', JsArray bodies), (''ext'', JsArray ext)])))"

definition messageProtocol_json :: "json_lib \<Rightarrow> messageProtocol \<Rightarrow> message_error + json" where
  "messageProtocol_json lib m =
     and_then (marshal_list (kv_json lib) (mp_Ext m)) (\<lambda>ext.
     and_then (case jl_parse lib (mp_Meta m) of None \<Rightarrow> Inl (MsgErr ''json: invalid raw message'') | Some t \<Rightarrow> Inr t) (\<lambda>meta.
     and_then (body_json lib (mp_Payload m)) (\<lambda>payload.
       Inr (JsObject [(''id'', js_uint (mp_ID m)), (''from'', jid_json (mp_From m)), (''to'', jid_json (mp_To m)),
         (''timestamp'', js_uint (mp_Timestamp m)), (''ns'', js_int (mp_NS m)), (''routetype'', js_int (mp_RouteType m)),
         (''ext'', JsArray ext), (''meta'', meta), (''directed_users'', JsArray (map js_str (mp_DirectedUsers m))),
         (''expire_time'', js_uint (mp_ExpireTime m)), (''local_timestamp'', js_uint (mp_LocalTimestamp m)),
         (''env'', js_str (mp_Env m)), (''payload'', payload)]))))"

text \<open>A nil message is the JSON null.\<close>

definition ToJSON :: "json_lib \<Rightarrow> uint64 \<Rightarrow> sdkMessage option \<Rightarrow> message_error + json" where
  "ToJSON lib over m =
     (case m of None \<Rightarrow> Inr JsNull
      | Some msg \<Rightarrow>
          (case ms_protocol msg of Some p \<Rightarrow> messageProtocol_json lib p
           | None \<Rightarrow> messageProtocol_json lib (protocolJSONFromPublic lib over msg)))"

end
