(* ===== verification/Message_Properties.thy ===== *)
theory Message_Properties
  imports Message_Model
begin

text \<open>
  Properties of the message conversions: extension values survive the way to the wire and back, and the
  way through JSON; the parts of an outgoing message; the document of \<open>ToJSON\<close> has a fixed schema.
\<close>

section \<open>Extension values on the wire\<close>

text \<open>
  The value that comes back for a value of the API: integers widened, a \<open>float\<close> rounded to single
  precision.
\<close>

definition canonical :: "uint64 \<Rightarrow> sdkKeyValue \<Rightarrow> sdkKeyValue" where
  "canonical over v =
     (if kt v = KeyValueInt \<or> kt v = KeyValueLong
      then (case asInt64 (kx v) of Some n \<Rightarrow> v\<lparr>kx := VInt64 (of_int n)\<rparr> | None \<Rightarrow> v)
      else if kt v = KeyValueUint then (case asUint64 over (kx v) of Some n \<Rightarrow> v\<lparr>kx := VUint64 n\<rparr> | None \<Rightarrow> v)
      else if kt v = KeyValueFloat
      then (case asFloat64 (kx v) of Some f \<Rightarrow> v\<lparr>kx := VFloat64 (float64_of (float32_of f))\<rparr> | None \<Rightarrow> v)
      else if kt v = KeyValueDouble then (case asFloat64 (kx v) of Some f \<Rightarrow> v\<lparr>kx := VFloat64 f\<rparr> | None \<Rightarrow> v)
      else v)"

lemma encode_decode_value:
  assumes "encode_value over key v = Inr e"
  shows "kv_Key e = key" and "decode_value e = Some (canonical over v)"
proof -
  have "kv_Key e = key \<and> decode_value e = Some (canonical over v)"
    using assms unfolding encode_value_def Let_def
    by (auto simp: decode_value_def canonical_def emptyKV_def split: if_splits option.splits go_value.splits)
  then show "kv_Key e = key" "decode_value e = Some (canonical over v)" by simp_all
qed

text \<open>A loop that appends one result for each element.\<close>

lemma for_each_append:
  "for_each (\<lambda>x r. and_then (g x) (\<lambda>y. Inr (r @ [y]))) xs r = Inr ys \<longleftrightarrow>
     (\<exists>zs. ys = r @ zs \<and> list_all2 (\<lambda>x z. g x = Inr z) xs zs)"
proof (induction xs arbitrary: r)
  case Nil
  then show ?case by auto
next
  case (Cons x xs)
  show ?case
  proof (cases "g x")
    case (Inl e)
    then show ?thesis by (auto simp: list_all2_Cons1)
  next
    case (Inr y)
    then show ?thesis using Cons [of "r @ [y]"] by (auto simp: list_all2_Cons1)
  qed
qed

definition encode_entry :: "uint64 \<Rightarrow> string \<times> sdkKeyValue \<Rightarrow> message_error + KeyValue" where
  "encode_entry over p = (if fst p = [] then Inl (MsgErr ''extension key is empty'') else encode_value over (fst p) (snd p))"

lemma encodeMessageExt_iff:
  "encodeMessageExt over values = Inr kvs \<longleftrightarrow>
     list_all2 (\<lambda>p e. encode_entry over p = Inr e) (sort_key fst values) kvs"
proof -
  have "(\<lambda>(key, value) result. if key = [] then Inl (MsgErr ''extension key is empty'')
          else and_then (encode_value over key value) (\<lambda>encoded. Inr (result @ [encoded])))
      = (\<lambda>p r. and_then (encode_entry over p) (\<lambda>y. Inr (r @ [y])))"
    by (rule ext, rule ext) (simp add: encode_entry_def split: prod.split)
  then show ?thesis unfolding encodeMessageExt_def by (simp add: for_each_append)
qed

lemma decodeKeyValues_entries:
  assumes "list_all2 (\<lambda>p e. kv_Key e = fst p \<and> decode_value e = Some (f (snd p))) ps kvs"
  shows "map_of (fold (\<lambda>value result. case decode_value value of None \<Rightarrow> result
             | Some decoded \<Rightarrow> AList.update (kv_Key value) decoded result) kvs acc)
    = map_of acc ++ (map_option f \<circ> map_of (rev ps))"
  using assms
proof (induction ps kvs arbitrary: acc rule: list_all2_induct)
  case Nil
  then show ?case by (simp add: fun_eq_iff map_add_def)
next
  case (Cons p ps e kvs)
  show ?case using Cons
    by (auto simp: fun_eq_iff map_add_def update_conv' split: option.split)
qed

lemma map_of_sort_key:
  assumes "distinct (map fst xs)"
  shows "map_of (rev (sort_key fst xs)) = map_of xs"
proof -
  have d: "distinct (map fst (sort_key fst xs))" using assms by (simp add: distinct_map inj_on_def)
  then have "distinct (map fst (rev (sort_key fst xs)))" by (simp add: rev_map [symmetric])
  then show ?thesis using assms by (intro map_of_eqI) (auto simp: map_of_eq_Some_iff dom_map_of_conv_image_fst)
qed

text \<open>
  C30. Extension values survive the wire.  When the extensions of a message are encoded, every key is kept
  exactly once and in sorted order, and decoding them gives back the same map with each value in its
  canonical form: integers at 64 bits, a \<open>float\<close> rounded to single precision, everything else unchanged.
\<close>

theorem ext_round_trip:
  assumes "distinct (map fst values)" and "encodeMessageExt over values = Inr kvs"
  shows "map_of (decodeKeyValues kvs) = map_option (canonical over) \<circ> map_of values
    \<and> sorted (map kv_Key kvs) \<and> distinct (map kv_Key kvs) \<and> set (map kv_Key kvs) = set (map fst values)"
proof -
  have l: "list_all2 (\<lambda>p e. encode_entry over p = Inr e) (sort_key fst values) kvs"
    using assms(2) by (simp add: encodeMessageExt_iff)
  then have e: "list_all2 (\<lambda>p e. kv_Key e = fst p \<and> decode_value e = Some (canonical over (snd p))) (sort_key fst values) kvs"
    by (rule list_all2_mono) (auto simp: encode_entry_def encode_decode_value split: if_splits)
  have "map_of (decodeKeyValues kvs) = map_option (canonical over) \<circ> map_of values"
    using decodeKeyValues_entries [OF e, of "[]"] map_of_sort_key [OF assms(1)] by (simp add: decodeKeyValues_def)
  moreover have "map kv_Key kvs = map fst (sort_key fst values)"
    using e by (induction rule: list_all2_induct) auto
  moreover have "distinct (map fst (sort_key fst values))" using assms(1) by (simp add: distinct_map inj_on_def)
  ultimately show ?thesis by simp
qed

definition exampleExt :: "(string \<times> sdkKeyValue) list" where
  "exampleExt = [(''n'', \<lparr>kt = KeyValueUint, kx = VInt32 7\<rparr>), (''b'', \<lparr>kt = KeyValueBool, kx = VBool True\<rparr>)]"

theorem ext_round_trip_witness:
  "distinct (map fst exampleExt)
    \<and> (\<exists>kvs. encodeMessageExt 0 exampleExt = Inr kvs
         \<and> map_of (decodeKeyValues kvs) ''n'' = Some \<lparr>kt = KeyValueUint, kx = VUint64 7\<rparr>)"
proof -
  have d: "distinct (map fst exampleExt)" by (simp add: exampleExt_def)
  have "\<not> isl (encodeMessageExt 0 exampleExt)" by code_simp
  then obtain kvs where k: "encodeMessageExt 0 exampleExt = Inr kvs" by (cases "encodeMessageExt 0 exampleExt") auto
  have "map_of (decodeKeyValues kvs) ''n'' = map_option (canonical 0) (map_of exampleExt ''n'')"
    using ext_round_trip [OF d k] by simp
  moreover have "map_option (canonical 0) (map_of exampleExt ''n'') = Some \<lparr>kt = KeyValueUint, kx = VUint64 7\<rparr>"
    by code_simp
  ultimately show ?thesis using d k by auto
qed

section \<open>Extension values in JSON\<close>

text \<open>
  What the code relies on of \<open>encoding/json\<close> and \<open>strconv\<close>: the literal that is written for a finite
  number is read back as that number.
\<close>

definition json_floats_ok :: "json_lib \<Rightarrow> bool" where
  "json_floats_ok lib \<longleftrightarrow> (\<forall>f. finite64 f \<longrightarrow> jl_parseFloat lib (jl_float64 lib f) = Some f)"

text \<open>The values that decoding a message or a JSON text yields.\<close>

definition canonical_kv :: "sdkKeyValue \<Rightarrow> bool" where
  "canonical_kv v \<longleftrightarrow>
     (case kx v of
        VBool b \<Rightarrow> kt v = KeyValueBool
      | VInt64 n \<Rightarrow> kt v = KeyValueInt \<or> kt v = KeyValueLong
      | VUint64 n \<Rightarrow> kt v = KeyValueUint
      | VFloat64 f \<Rightarrow> (kt v = KeyValueFloat \<or> kt v = KeyValueDouble) \<and> finite64 f
      | VString s \<Rightarrow> (kt v = KeyValueString \<or> kt v = KeyValueJSONString) \<and> valid_utf8 s
      | _ \<Rightarrow> False)"

lemma sint_in_int64: "in_int64 (sint (n :: 64 word))"
proof -
  have "- (2 ^ 63) \<le> sint n" "sint n < 2 ^ 63"
    using sint_greater_eq [of n] sint_less [of n] by simp_all
  then show ?thesis by (simp add: in_int64_def maxInt64_def)
qed

lemma type_names_ascii:
  "coerceUTF8 ''bool'' = ''bool''" "coerceUTF8 ''int'' = ''int''" "coerceUTF8 ''uint'' = ''uint''"
  "coerceUTF8 ''llint'' = ''llint''" "coerceUTF8 ''float'' = ''float''" "coerceUTF8 ''double'' = ''double''"
  "coerceUTF8 ''string'' = ''string''" "coerceUTF8 ''json_string'' = ''json_string''"
  by code_simp+

lemma wire_members_marshalled:
  "wire_members [(''type'', JsString t), (''value'', j)] [] None = Some (t, Some j)"
proof -
  have "map to_lower_char ''type'' = ''type''" "map to_lower_char ''value'' = ''value''" by code_simp+
  then show ?thesis by simp
qed

text \<open>
  C31. Canonical extension values survive JSON.  A value is canonical when it has the Go type that reading
  produces for its type name: a bool; an \<open>int64\<close> for \<open>int\<close> and \<open>llint\<close>; a \<open>uint64\<close> for \<open>uint\<close>; a finite
  \<open>float64\<close> for \<open>float\<close> and \<open>double\<close>; a string of valid UTF-8 for \<open>string\<close> and \<open>json_string\<close>.  Every such value is
  marshalled without error, and unmarshalling the result gives back exactly that value, 64-bit integers
  included, provided that a finite \<open>float64\<close> that \<open>encoding/json\<close> printed is read back as itself.  Values of
  other Go types do not come back as they were: an \<open>int32\<close> comes back as an \<open>int64\<close>, a \<open>float32\<close> as a
  \<open>float64\<close>, and invalid UTF-8 is replaced.
\<close>

theorem keyvalue_json_round_trip:
  assumes "json_floats_ok lib" and "canonical_kv v"
  shows "\<exists>j. KeyValue_MarshalJSON lib over v = Inr j \<and> KeyValue_UnmarshalJSON lib j = Inr v"
proof (cases "kx v")
  case (VBool b)
  then have "v = \<lparr>kt = KeyValueBool, kx = VBool b\<rparr>" using assms(2) by (cases v) (simp add: canonical_kv_def)
  then show ?thesis
    by (simp add: KeyValue_MarshalJSON_def KeyValue_UnmarshalJSON_def type_names_ascii wire_members_marshalled get_bool_def del: wire_members.simps)
next
  case (VInt64 n)
  then consider "v = \<lparr>kt = KeyValueInt, kx = VInt64 n\<rparr>" | "v = \<lparr>kt = KeyValueLong, kx = VInt64 n\<rparr>"
    using assms(2) by (cases v) (auto simp: canonical_kv_def)
  then show ?thesis using atoi_itoa [OF sint_in_int64 [of n]]
    by cases (simp_all add: KeyValue_MarshalJSON_def KeyValue_UnmarshalJSON_def type_names_ascii wire_members_marshalled
        get_int64_def get_string_def del: wire_members.simps)
next
  case (VUint64 n)
  then have "v = \<lparr>kt = KeyValueUint, kx = VUint64 n\<rparr>" using assms(2) by (cases v) (simp add: canonical_kv_def)
  then show ?thesis using parseUint_round_trip [of n]
    by (simp add: KeyValue_MarshalJSON_def KeyValue_UnmarshalJSON_def type_names_ascii wire_members_marshalled get_string_def del: wire_members.simps)
next
  case (VFloat64 f)
  then consider "v = \<lparr>kt = KeyValueFloat, kx = VFloat64 f\<rparr>" | "v = \<lparr>kt = KeyValueDouble, kx = VFloat64 f\<rparr>"
    using assms(2) by (cases v) (auto simp: canonical_kv_def)
  moreover have "finite64 f" using assms(2) VFloat64 by (simp add: canonical_kv_def)
  ultimately show ?thesis using assms(1)
    by cases (simp_all add: KeyValue_MarshalJSON_def KeyValue_UnmarshalJSON_def type_names_ascii wire_members_marshalled
        get_float64_def json_floats_ok_def del: wire_members.simps)
next
  case (VString s)
  then consider "v = \<lparr>kt = KeyValueString, kx = VString s\<rparr>" | "v = \<lparr>kt = KeyValueJSONString, kx = VString s\<rparr>"
    using assms(2) by (cases v) (auto simp: canonical_kv_def)
  moreover have "coerceUTF8 s = s" using assms(2) VString coerceUTF8_valid by (simp add: canonical_kv_def)
  ultimately show ?thesis
    by cases (simp_all add: KeyValue_MarshalJSON_def KeyValue_UnmarshalJSON_def type_names_ascii wire_members_marshalled
        get_string_def del: wire_members.simps)
qed (use assms(2) in \<open>simp_all add: canonical_kv_def\<close>)

text \<open>Numbers written as the decimal value of their bits.\<close>

definition exampleJSON :: json_lib where
  "exampleJSON = \<lparr>jl_parse = (\<lambda>b. if b = emptyObject then Some (JsObject []) else None),
     jl_float64 = (\<lambda>f. nat_digits (unat f)), jl_float32 = (\<lambda>f. nat_digits (unat f)), jl_parseFloat = parseUint\<rparr>"

lemma exampleJSON_ok: "json_floats_ok exampleJSON"
  by (simp add: json_floats_ok_def exampleJSON_def parseUint_round_trip)

theorem keyvalue_json_round_trip_witness:
  "json_floats_ok exampleJSON \<and> canonical_kv \<lparr>kt = KeyValueLong, kx = VInt64 (- 5)\<rparr>
    \<and> (\<exists>j. KeyValue_UnmarshalJSON exampleJSON j = Inr \<lparr>kt = KeyValueLong, kx = VInt64 (- 5)\<rparr>)"
  using exampleJSON_ok keyvalue_json_round_trip [OF exampleJSON_ok, of "\<lparr>kt = KeyValueLong, kx = VInt64 (- 5)\<rparr>" 0]
  by (auto simp: canonical_kv_def)

text \<open>
  The comment of \<open>MarshalJSON\<close> promises that all 64-bit integer variants are written as decimal strings;
  a value of type \<open>int\<close>, which holds 64 bits, is written as a JSON number, while \<open>llint\<close> and \<open>uint\<close> are
  strings.
\<close>

lemma int_written_as_number:
  "KeyValue_MarshalJSON lib over \<lparr>kt = KeyValueInt, kx = VInt64 n\<rparr>
     = Inr (JsObject [(''type'', JsString ''int''), (''value'', JsNumber (itoa (sint n)))])
   \<and> KeyValue_MarshalJSON lib over \<lparr>kt = KeyValueLong, kx = VInt64 n\<rparr>
     = Inr (JsObject [(''type'', JsString ''llint''), (''value'', JsString (itoa (sint n)))])
   \<and> KeyValue_MarshalJSON lib over \<lparr>kt = KeyValueUint, kx = VUint64 u\<rparr>
     = Inr (JsObject [(''type'', JsString ''uint''), (''value'', JsString (nat_digits (unat u)))])"
  by (simp add: KeyValue_MarshalJSON_def type_names_ascii)

text \<open>
  The number \<open>2 ^ 64\<close> is accepted as an unsigned 64-bit integer.  \<open>asUint64\<close> compares a \<open>float64\<close> with
  \<open>math.MaxUint64\<close>, which becomes \<open>2 ^ 64\<close> as a \<open>float64\<close>; the value passes, and what is sent is whatever
  the platform's conversion of a number out of range gives.
\<close>

lemma uint_accepts_two64:
  "whole64 0x43F0000000000000 = Some (2 ^ 64)
   \<and> (\<exists>e. encode_value over key \<lparr>kt = KeyValueUint, kx = VFloat64 0x43F0000000000000\<rparr> = Inr e \<and> kv_Uint64 e = over)"
proof -
  have "whole64 0x43F0000000000000 = Some (2 ^ 64)" by (simp add: whole64_def parts64_def)
  then show ?thesis by (simp add: encode_value_def emptyKV_def Let_def)
qed

section \<open>Outgoing messages\<close>

lemma messageFromProtocol_payload:
  "messageFromProtocol lib (meta\<lparr>me_Payload := p\<rparr>) body = messageFromProtocol lib meta body"
  by (simp add: messageFromProtocol_def protocolJSONFromWire_def)

text \<open>
  What a successful \<open>buildOutgoingMeta\<close> has done: it has encoded the content and the extensions, and its
  payload is the encoded body that \<open>NewOutgoingMessage\<close> builds for the same request.
\<close>

lemma buildOutgoingMeta_parts:
  assumes "buildOutgoingMeta cd over appKey userID domain req = Inr meta"
  obtains content ext payload where "encodeOutgoingContent (rq_Body req) = Inr content" "encodeMessageExt over (rq_Ext req) = Inr ext"
    "cd_EncodeMessageBody cd (outgoing_body userID req content ext) = Inr payload" "fst (me_Payload meta) = payload"
    "\<And>lib. NewOutgoingMessage lib over appKey userID domain req
        = Inr (messageFromProtocol lib meta (outgoing_body userID req content ext))"
proof -
  have v: "rq_To req \<noteq> []" "\<not> (rq_DirectedUsers req \<noteq> [] \<and> \<not> rq_IsGroup req)"
    using assms by (auto simp: buildOutgoingMeta_def split: if_splits)
  have n: "rq_ClientMessageID req \<noteq> 0" using assms by (auto simp: buildOutgoingMeta_def)
  note b = assms [unfolded buildOutgoingMeta_def if_not_P [OF n] if_not_P [OF v(1)] if_not_P [OF v(2)]]
  obtain content where c: "encodeOutgoingContent (rq_Body req) = Inr content"
    using b by (cases "encodeOutgoingContent (rq_Body req)") simp_all
  obtain ext where e: "encodeMessageExt over (rq_Ext req) = Inr ext"
    using b by (cases "encodeMessageExt over (rq_Ext req)") (simp_all add: c)
  obtain payload where p: "cd_EncodeMessageBody cd (outgoing_body userID req content ext) = Inr payload"
    using b by (cases "cd_EncodeMessageBody cd (outgoing_body userID req content ext)") (simp_all add: c e)
  have m: "meta = emptyMeta\<lparr>me_ID := rq_ClientMessageID req, me_To := outgoing_to appKey domain req,
        me_Namespace := NamespaceChat, me_Payload := (payload, length payload), me_Route := outgoing_route req,
        me_DirectedUsers := (rq_DirectedUsers req, length (rq_DirectedUsers req))\<rparr>"
    using b by (simp add: c e p)
  have "NewOutgoingMessage lib over appKey userID domain req
      = Inr (messageFromProtocol lib (meta\<lparr>me_Payload := ([], 0)\<rparr>) (outgoing_body userID req content ext))" for lib
    using v by (auto simp: NewOutgoingMessage_def c e m emptyMeta_def)
  then have "NewOutgoingMessage lib over appKey userID domain req
      = Inr (messageFromProtocol lib meta (outgoing_body userID req content ext))" for lib
    by (simp only: messageFromProtocol_payload)
  moreover have "fst (me_Payload meta) = payload" by (simp add: m)
  ultimately show thesis using that [OF c e p] by blast
qed

definition exampleRequest :: SendRequest where
  "exampleRequest = \<lparr>rq_ClientMessageID = 1, rq_To = ''g'', rq_IsGroup = True, rq_DirectedUsers = [''v''], rq_Ext = [],
     rq_Body = emptyBody\<lparr>by_Type := MessageBodyText, by_Text := ''hi''\<rparr>\<rparr>"

section \<open>The document of \<open>ToJSON\<close>\<close>

fun members :: "json \<Rightarrow> string list" where
  "members (JsObject ms) = map fst ms"
| "members _ = []"

definition document_keys :: "string list" where
  "document_keys = [''id'', ''from'', ''to'', ''timestamp'', ''ns'', ''routetype'', ''ext'', ''meta'', ''directed_users'',
     ''expire_time'', ''local_timestamp'', ''env'', ''payload'']"

definition item_keys :: "string list" where
  "item_keys = [''key'', ''type'', ''varint_value'', ''float_value'', ''double_value'', ''string_value'']"

lemma marshal_list_members:
  assumes "marshal_list f xs = Inr js" and "\<And>x j. f x = Inr j \<Longrightarrow> P j"
  shows "length js = length xs \<and> list_all P js"
  using assms(1) by (induction xs arbitrary: js) (auto simp: and_then_Inr dest: assms(2))

lemma marshal_list_total:
  assumes "\<And>x. x \<in> set xs \<Longrightarrow> \<exists>j. f x = Inr j"
  shows "\<exists>js. marshal_list f xs = Inr js"
  using assms
proof (induction xs)
  case (Cons x xs)
  then obtain j js where "f x = Inr j" "marshal_list f xs = Inr js" by fastforce
  then show ?case by simp
qed simp

lemma kv_json_members: "kv_json lib k = Inr j \<Longrightarrow> members j = item_keys"
  by (auto simp: kv_json_def item_keys_def split: if_splits)

text \<open>
  The document of \<open>ToJSON\<close> has a stable schema.  Whatever the message, parsed or made by the
  application, a document that is produced is an object with the same thirteen members in the same order;
  its extension list has one object with the same six members for each extension of the message.
\<close>

lemma document_schema_stable:
  assumes "ToJSON lib over (Some m) = Inr doc"
  shows "\<exists>ms exts. doc = JsObject ms \<and> map fst ms = document_keys \<and> map_of ms ''ext'' = Some (JsArray exts)
    \<and> list_all (\<lambda>j. members j = item_keys) exts
    \<and> length exts = length (mp_Ext (case ms_protocol m of Some p \<Rightarrow> p | None \<Rightarrow> protocolJSONFromPublic lib over m))"
proof -
  let ?p = "case ms_protocol m of Some p \<Rightarrow> p | None \<Rightarrow> protocolJSONFromPublic lib over m"
  have "messageProtocol_json lib ?p = Inr doc" using assms by (simp add: ToJSON_def split: option.splits)
  then obtain exts meta payload where e: "marshal_list (kv_json lib) (mp_Ext ?p) = Inr exts"
    and d: "doc = JsObject [(''id'', js_uint (mp_ID ?p)), (''from'', jid_json (mp_From ?p)), (''to'', jid_json (mp_To ?p)),
         (''timestamp'', js_uint (mp_Timestamp ?p)), (''ns'', js_int (mp_NS ?p)), (''routetype'', js_int (mp_RouteType ?p)),
         (''ext'', JsArray exts), (''meta'', meta), (''directed_users'', JsArray (map js_str (mp_DirectedUsers ?p))),
         (''expire_time'', js_uint (mp_ExpireTime ?p)), (''local_timestamp'', js_uint (mp_LocalTimestamp ?p)),
         (''env'', js_str (mp_Env ?p)), (''payload'', payload)]"
    unfolding messageProtocol_json_def and_then_Inr by blast
  have "length exts = length (mp_Ext ?p) \<and> list_all (\<lambda>j. members j = item_keys) exts"
    using marshal_list_members [OF e kv_json_members] .
  then show ?thesis by (simp add: d document_keys_def)
qed

end
