(* ===== verification/Delivery.thy ===== *)
theory Delivery
  imports Message_Model Run_State
begin

text \<open>
  Delivery of a batch to the application (\<open>processMetas\<close>, \<open>deliverMessage\<close> and \<open>handleStatistic\<close> of
  \<open>sdk/queue.go\<close>).

  The application's \<open>MessageHandler\<close> and the moments at which the context of the run ends are given by an
  environment that may look at everything that has happened so far.  The history records the calls of the
  handler, what the watchdog timers do, and what became of each message.

  A panic of the handler is caught by \<open>deliverMessage\<close> and modelled there.  The second \<open>recover\<close>, around the
  whole of \<open>processMetas\<close>, is for panics of what else the loop calls, the codec and the logger; both are
  taken not to panic, so it is never reached.  For the scheduler nothing hangs on it: \<open>processBatch\<close> goes on
  after whatever error \<open>processMetas\<close> returns, unless the run is over.
\<close>

section \<open>The environment\<close>

datatype outcome = HandlerOk | HandlerErr go_error | HandlerPanic string

text \<open>
  \<open>Called id attempt out\<close> is one call of the handler.  \<open>Stuck\<close> and \<open>Unstuck\<close> are the changes of
  \<open>stuckHandlers\<close> by a watchdog that fired while its handler was running; \<open>WatchdogLeft\<close> is a watchdog that
  nobody stops and that will still add one.  The other events say how a message of the batch was dealt with.
\<close>

datatype event =
    Called uint64 nat outcome
  | Stuck
  | Unstuck
  | WatchdogLeft
  | Undecodable uint64
  | Ignored uint64
  | Delivered uint64
  | DeadLettered uint64
  | Statistics uint64
  | Skipped uint64

record environment =
  ev_ctxDone :: "event list \<Rightarrow> bool"
  ev_handler :: "event list \<Rightarrow> sdkMessage \<Rightarrow> outcome"
  ev_slow :: "event list \<Rightarrow> bool"
  ev_waitDone :: "event list \<Rightarrow> bool"

abbreviation (input) handlerMaxAttempts :: nat where "handlerMaxAttempts \<equiv> 3"

definition panicError :: "string \<Rightarrow> go_error" where
  "panicError v = LibErr PlainError False (''handler panic: '' @ v) None"

section \<open>One message\<close>

text \<open>
  The loop of \<open>deliverMessage\<close> with \<open>todo\<close> attempts left.  \<open>ev_slow\<close> tells whether the watchdog of the call
  has fired before the handler returned, \<open>ev_waitDone\<close> whether the end of the context wins over the pause
  before the next attempt.
\<close>

fun deliver_loop :: "environment \<Rightarrow> sdkMessage \<Rightarrow> nat \<Rightarrow> nat \<Rightarrow> event list \<Rightarrow> go_error option \<times> event list" where
  "deliver_loop env msg attempt 0 h = (None, h)"
| "deliver_loop env msg attempt (Suc todo) h =
     (let out = ev_handler env h msg;
          slow = ev_slow env h;
          h1 = h @ [Called (ms_MetaID msg) attempt out]
      in case out of
           HandlerPanic v \<Rightarrow> (Some (panicError v), h1 @ [if slow then Stuck else WatchdogLeft])
         | HandlerOk \<Rightarrow> (None, h1 @ (if slow then [Stuck, Unstuck] else []))
         | HandlerErr e \<Rightarrow>
             let h2 = h1 @ (if slow then [Stuck, Unstuck] else [])
             in if todo = 0 then (Some e, h2)
                else if ev_waitDone env h2 then (Some e, h2)
                else deliver_loop env msg (Suc attempt) todo h2)"

definition deliverMessage :: "environment \<Rightarrow> sdkMessage \<Rightarrow> event list \<Rightarrow> go_error option \<times> event list" where
  "deliverMessage env msg h = deliver_loop env msg 1 handlerMaxAttempts h"

section \<open>Statistics\<close>

definition statistic_error :: "int \<Rightarrow> go_error option" where
  "statistic_error operation =
     (if operation = StatisticInformation then None
      else if operation = StatisticUserRemoved then Some (newError ErrAuthentication ''session'' ''user removed'')
      else if operation = StatisticUserLoginAnotherDevice
      then Some (newError ErrAuthentication ''session'' ''another device login'')
      else if operation = StatisticUserKickedByChangePassword
      then Some (newError ErrKickedChangePass ''session'' ''password changed'')
      else if operation = StatisticUserKickedByOtherDevice
      then Some (newError ErrAuthentication ''session'' ''kicked by other device'')
      else None)"

definition handleStatistic :: "codec \<Rightarrow> bytes \<Rightarrow> connectionRun \<Rightarrow> connectionRun" where
  "handleStatistic cd payload r =
     (case cd_DecodeStatistic cd payload of Inl e \<Rightarrow> r
      | Inr s \<Rightarrow> (case statistic_error (sc_Operation s) of None \<Rightarrow> r | Some e \<Rightarrow> run_fail (Some e) r))"

section \<open>A batch\<close>

definition ctx_done :: "environment \<Rightarrow> connectionRun \<Rightarrow> event list \<Rightarrow> bool" where
  "ctx_done env r h \<longleftrightarrow> rn_done r \<or> ev_ctxDone env h"

text \<open>One message of \<open>processMetas\<close>; an error ends the loop.\<close>

definition process_meta ::
  "environment \<Rightarrow> json_lib \<Rightarrow> codec \<Rightarrow> Meta \<Rightarrow> connectionRun \<times> event list \<Rightarrow> go_error option \<times> connectionRun \<times> event list" where
  "process_meta env lib cd m rh =
     (let (r, h) = rh
      in if ctx_done env r h then (Some (Sentinel CtxCanceled), r, h)
         else if me_Namespace m = NamespaceChat
         then (case cd_DecodeMessageBody cd (fst (me_Payload m)) of
                 Inl e \<Rightarrow> (None, r, h @ [Undecodable (me_ID m)])
               | Inr wire \<Rightarrow>
                   if \<not> shouldDeliverToHandler wire then (None, r, h @ [Ignored (me_ID m)])
                   else
                     let msg = messageFromProtocol lib m (the wire)
                     in if ctx_done env r h then (Some (Sentinel CtxCanceled), r, h)
                        else (case deliverMessage env msg h of
                                (None, h1) \<Rightarrow> (None, r, h1 @ [Delivered (me_ID m)])
                              | (Some e, h1) \<Rightarrow> (None, r, h1 @ [DeadLettered (me_ID m)])))
         else if me_Namespace m = NamespaceStatistic
         then (None, handleStatistic cd (fst (me_Payload m)) r, h @ [Statistics (me_ID m)])
         else (None, r, h @ [Skipped (me_ID m)]))"

fun processMetas ::
  "environment \<Rightarrow> json_lib \<Rightarrow> codec \<Rightarrow> Meta list \<Rightarrow> connectionRun \<times> event list \<Rightarrow> go_error option \<times> connectionRun \<times> event list" where
  "processMetas env lib cd [] rh = (None, rh)"
| "processMetas env lib cd (m # ms) rh =
     (case process_meta env lib cd m rh of
        (Some e, rh1) \<Rightarrow> (Some e, rh1)
      | (None, rh1) \<Rightarrow> processMetas env lib cd ms rh1)"

section \<open>What the history says\<close>

fun call_outcome :: "event \<Rightarrow> outcome option" where
  "call_outcome (Called mid attempt out) = Some out"
| "call_outcome _ = None"

definition outcomes :: "event list \<Rightarrow> outcome list" where
  "outcomes h = List.map_filter call_outcome h"

text \<open>The messages of a batch that were dealt with, in order.\<close>

fun handled_id :: "event \<Rightarrow> uint64 option" where
  "handled_id (Undecodable mid) = Some mid"
| "handled_id (Ignored mid) = Some mid"
| "handled_id (Delivered mid) = Some mid"
| "handled_id (DeadLettered mid) = Some mid"
| "handled_id (Statistics mid) = Some mid"
| "handled_id (Skipped mid) = Some mid"
| "handled_id _ = None"

definition handled :: "event list \<Rightarrow> uint64 list" where
  "handled h = List.map_filter handled_id h"

text \<open>\<open>stuckHandlers\<close> once every timer has run.\<close>

fun stuck_change :: "event \<Rightarrow> int" where
  "stuck_change Stuck = 1"
| "stuck_change Unstuck = -1"
| "stuck_change WatchdogLeft = 1"
| "stuck_change _ = 0"

definition stuckHandlers :: "event list \<Rightarrow> int" where
  "stuckHandlers h = sum_list (map stuck_change h)"

lemma map_filter_append: "List.map_filter f (xs @ ys) = List.map_filter f xs @ List.map_filter f ys"
  by (induction xs) (auto simp: List.map_filter_def)

lemma history_append [simp]:
  "outcomes (g @ h) = outcomes g @ outcomes h" "handled (g @ h) = handled g @ handled h"
  "stuckHandlers (g @ h) = stuckHandlers g + stuckHandlers h"
  by (simp_all add: outcomes_def handled_def stuckHandlers_def map_filter_append)

lemma history_Cons [simp]:
  "outcomes (e # h) = (case call_outcome e of None \<Rightarrow> [] | Some out \<Rightarrow> [out]) @ outcomes h"
  "handled (e # h) = (case handled_id e of None \<Rightarrow> [] | Some mid \<Rightarrow> [mid]) @ handled h"
  "stuckHandlers (e # h) = stuck_change e + stuckHandlers h"
  "outcomes [] = []" "handled [] = []" "stuckHandlers [] = 0"
  by (simp_all add: outcomes_def handled_def stuckHandlers_def List.map_filter_def split: option.split)

section \<open>One message\<close>

fun is_err :: "outcome \<Rightarrow> bool" where
  "is_err (HandlerErr e) = True"
| "is_err _ = False"

fun is_panic :: "outcome \<Rightarrow> bool" where
  "is_panic (HandlerPanic v) = True"
| "is_panic _ = False"

text \<open>What one message adds to the history.\<close>

definition delivery_trace :: "environment \<Rightarrow> nat \<Rightarrow> event list \<Rightarrow> go_error option \<Rightarrow> event list \<Rightarrow> bool" where
  "delivery_trace env todo h res new \<longleftrightarrow>
     (let outs = outcomes new
      in outs \<noteq> [] \<and> length outs \<le> todo \<and> list_all is_err (butlast outs)
         \<and> (res = None \<longleftrightarrow> last outs = HandlerOk)
         \<and> (is_err (last outs) \<and> length outs < todo \<longrightarrow> ev_waitDone env (h @ new))
         \<and> handled new = [] \<and> stuckHandlers new = int (length (filter is_panic outs)))"

lemma deliver_loop_trace:
  assumes "deliver_loop env msg attempt (Suc todo) h = (res, h')"
  shows "\<exists>new. h' = h @ new \<and> delivery_trace env (Suc todo) h res new"
  using assms
proof (induction todo arbitrary: attempt h)
  case 0
  then show ?case
    by (cases "ev_handler env h msg") (auto simp: delivery_trace_def Let_def)
next
  case (Suc todo)
  let ?out = "ev_handler env h msg" and ?slow = "if ev_slow env h then [Stuck, Unstuck] else []"
  let ?h2 = "h @ [Called (ms_MetaID msg) attempt ?out] @ ?slow"
  show ?case
  proof (cases "is_err ?out \<and> \<not> ev_waitDone env ?h2")
    case False
    then show ?thesis using Suc(2)
      by (cases ?out) (auto simp: delivery_trace_def Let_def)
  next
    case True
    then obtain e where e: "?out = HandlerErr e" by (cases ?out) auto
    have "deliver_loop env msg (Suc attempt) (Suc todo) ?h2 = (res, h')" using Suc(2) True e by (simp add: Let_def)
    from Suc(1) [OF this] obtain new where n: "h' = ?h2 @ new" "delivery_trace env (Suc todo) ?h2 res new" by blast
    let ?new = "[Called (ms_MetaID msg) attempt ?out] @ ?slow @ new"
    have "outcomes ?new = HandlerErr e # outcomes new" "handled ?new = handled new" "stuckHandlers ?new = stuckHandlers new"
      using e by simp_all
    then have "delivery_trace env (Suc (Suc todo)) h res ?new"
      using n(2) by (auto simp: delivery_trace_def Let_def)
    then show ?thesis using n(1) by (intro exI [of _ ?new]) simp
  qed
qed

text \<open>
  Retries are bounded and stop in time.  Delivering one message calls the handler at least once and at
  most three times; every call but the last has returned an error; the delivery succeeds exactly when the
  last call did; it gives up before the third attempt only after a success, a panic, or the end of the
  connection while it was waiting to retry.
\<close>

lemma handler_attempts_bounded:
  assumes "deliverMessage env msg h = (res, h')"
  shows "\<exists>new. h' = h @ new \<and> 1 \<le> length (outcomes new) \<and> length (outcomes new) \<le> 3
    \<and> list_all is_err (butlast (outcomes new)) \<and> (res = None \<longleftrightarrow> last (outcomes new) = HandlerOk)
    \<and> (is_err (last (outcomes new)) \<and> length (outcomes new) < 3 \<longrightarrow> ev_waitDone env (h @ new))"
proof -
  have "deliver_loop env msg 1 (Suc 2) h = (res, h')" using assms by (simp add: deliverMessage_def numeral_eq_Suc)
  from deliver_loop_trace [OF this] obtain new where "h' = h @ new" "delivery_trace env (Suc 2) h res new" by blast
  then show ?thesis by (intro exI [of _ new]) (auto simp: delivery_trace_def Let_def Suc_le_eq)
qed

text \<open>A handler that fails once and then succeeds.\<close>

definition exampleEnv :: environment where
  "exampleEnv = \<lparr>ev_ctxDone = (\<lambda>h. False),
     ev_handler = (\<lambda>h m. if outcomes h = [] then HandlerErr (Sentinel CtxDeadlineExceeded) else HandlerOk),
     ev_slow = (\<lambda>h. False), ev_waitDone = (\<lambda>h. False)\<rparr>"

section \<open>A batch\<close>

lemma deliverMessage_trace:
  assumes "deliverMessage env msg h = (res, h')"
  obtains new where "h' = h @ new" "handled new = []" "stuckHandlers new = int (length (filter is_panic (outcomes new)))"
proof -
  have "deliver_loop env msg 1 (Suc 2) h = (res, h')" using assms by (simp add: deliverMessage_def numeral_eq_Suc)
  from deliver_loop_trace [OF this] show ?thesis using that by (auto simp: delivery_trace_def Let_def)
qed

text \<open>What one message of a batch adds.\<close>

lemma process_meta_trace:
  assumes "process_meta env lib cd m (r, h) = (res, r', h')"
  obtains new where "h' = h @ new" "stuckHandlers new = int (length (filter is_panic (outcomes new)))"
    and "res = None \<longrightarrow> handled new = [me_ID m]"
    and "res \<noteq> None \<longrightarrow> res = Some (Sentinel CtxCanceled) \<and> handled new = [] \<and> ctx_done env r' h'"
proof (cases "ctx_done env r h")
  case True
  then show ?thesis using assms by (intro that [of "[]"]) (auto simp: process_meta_def)
next
  case False
  note nd = False
  show ?thesis
  proof (cases "me_Namespace m = NamespaceChat \<and> (\<exists>wire. cd_DecodeMessageBody cd (fst (me_Payload m)) = Inr wire \<and> shouldDeliverToHandler wire)")
    case True
    then obtain wire where w: "cd_DecodeMessageBody cd (fst (me_Payload m)) = Inr wire" "shouldDeliverToHandler wire" by blast
    obtain e h1 where d: "deliverMessage env (messageFromProtocol lib m (the wire)) h = (e, h1)"
      by (cases "deliverMessage env (messageFromProtocol lib m (the wire)) h")
    obtain new where n: "h1 = h @ new" "handled new = []" "stuckHandlers new = int (length (filter is_panic (outcomes new)))"
      by (rule deliverMessage_trace [OF d])
    have "res = None" "h' = h1 @ [if e = None then Delivered (me_ID m) else DeadLettered (me_ID m)]"
      using assms nd True w d by (auto simp: process_meta_def split: option.splits)
    then show ?thesis using n by (intro that [of "new @ [if e = None then Delivered (me_ID m) else DeadLettered (me_ID m)]"]) auto
  next
    case False
    then have "res = None \<and> (\<exists>ev. h' = h @ [ev] \<and> handled_id ev = Some (me_ID m) \<and> call_outcome ev = None \<and> stuck_change ev = 0)"
      using assms nd by (auto simp: process_meta_def split: sum.splits if_splits)
    then obtain ev where "res = None" "h' = h @ [ev]" "handled_id ev = Some (me_ID m)" "call_outcome ev = None" "stuck_change ev = 0"
      by blast
    then show ?thesis by (intro that [of "[ev]"]) auto
  qed
qed

lemma processMetas_trace:
  assumes "processMetas env lib cd ms (r, h) = (res, r', h')"
  shows "\<exists>new k. h' = h @ new \<and> stuckHandlers new = int (length (filter is_panic (outcomes new)))
    \<and> handled new = map me_ID (take k ms) \<and> k \<le> length ms
    \<and> (if res = None then k = length ms else res = Some (Sentinel CtxCanceled) \<and> k < length ms \<and> ctx_done env r' h')"
  using assms
proof (induction ms arbitrary: r h)
  case Nil
  then show ?case by (intro exI [of _ "[]"]) simp
next
  case (Cons m ms)
  obtain e r1 h1 where p: "process_meta env lib cd m (r, h) = (e, r1, h1)" by (cases "process_meta env lib cd m (r, h)")
  obtain new1 where n1: "h1 = h @ new1" "stuckHandlers new1 = int (length (filter is_panic (outcomes new1)))"
    "e = None \<longrightarrow> handled new1 = [me_ID m]"
    "e \<noteq> None \<longrightarrow> e = Some (Sentinel CtxCanceled) \<and> handled new1 = [] \<and> ctx_done env r1 h1"
    by (rule process_meta_trace [OF p])
  show ?case
  proof (cases e)
    case (Some err)
    then have "res = Some err" "r' = r1" "h' = h1" using Cons(2) p by simp_all
    then show ?thesis using n1 Some by (intro exI [of _ new1] exI [of _ 0]) simp
  next
    case None
    then have "processMetas env lib cd ms (r1, h1) = (res, r', h')" using Cons(2) p by simp
    from Cons(1) [OF this] obtain new k where n: "h' = h1 @ new" "stuckHandlers new = int (length (filter is_panic (outcomes new)))"
      "handled new = map me_ID (take k ms)" "k \<le> length ms"
      "if res = None then k = length ms else res = Some (Sentinel CtxCanceled) \<and> k < length ms \<and> ctx_done env r' h'" by blast
    then show ?thesis using n1 None by (intro exI [of _ "new1 @ new"] exI [of _ "Suc k"]) (auto split: if_splits)
  qed
qed

text \<open>
  C28. No message of a batch is lost, and no bad one stops the rest.  Whatever the handler does and whatever
  the messages contain, the messages of a batch are dealt with in order, each exactly once (delivered,
  dead-lettered, dropped as undecodable, ignored, or taken as a statistic); the batch stops early only when
  the context of the connection has ended, and then it reports that and nothing else.
\<close>

theorem batch_in_order:
  assumes "processMetas env lib cd ms (r, h) = (res, r', h')"
  shows "\<exists>k \<le> length ms. handled h' = handled h @ map me_ID (take k ms)
    \<and> (if res = None then k = length ms else res = Some (Sentinel CtxCanceled) \<and> k < length ms \<and> ctx_done env r' h')"
  using processMetas_trace [OF assms] by auto

text \<open>
  C33. A handler that panics leaves its watchdog running: \<open>deliverMessage\<close> stops the timer only after the
  handler has returned.  When it fires it counts a handler that is no longer there, so that after a batch
  \<open>StuckHandlers\<close> has grown by the number of panics and never comes back.
\<close>

theorem panic_leaves_watchdog:
  assumes "processMetas env lib cd ms (r, h) = (res, r', h')"
  shows "\<exists>new. h' = h @ new \<and> stuckHandlers h' = stuckHandlers h + int (length (filter is_panic (outcomes new)))"
  using processMetas_trace [OF assms] by auto

section \<open>Statistics\<close>

text \<open>
  A server that removes or kicks the user ends the session for good: the connection fails with an error
  that is terminal, so the monitor does not reconnect.  Any other statistic, and one that cannot be decoded,
  changes nothing.
\<close>

lemma kicked_is_terminal:
  assumes "\<not> rn_done r"
  shows "(if \<exists>s. cd_DecodeStatistic cd p = Inr s \<and> sc_Operation s \<in> {1, 2, 3, 4}
          then rn_done (handleStatistic cd p r) \<and> isTerminal (cl_lastErr (handleStatistic cd p r))
          else handleStatistic cd p r = r)"
proof (cases "\<exists>s. cd_DecodeStatistic cd p = Inr s \<and> sc_Operation s \<in> {1, 2, 3, 4}")
  case True
  then obtain s where s: "cd_DecodeStatistic cd p = Inr s" "sc_Operation s \<in> {1, 2, 3, 4}" by blast
  then obtain code reason where e: "statistic_error (sc_Operation s) = Some (newError code ''session'' reason)"
    and c: "code = ErrAuthentication \<or> code = ErrKickedChangePass"
    by (auto simp: statistic_error_def)
  have "handleStatistic cd p r = run_fail (Some (newError code ''session'' reason)) r"
    by (simp add: handleStatistic_def s(1) e)
  moreover have "isTerminal (classifyNetworkError ''connection'' (Some (newError code ''session'' reason)))"
    using c by (auto simp: classifyNetworkError_def newError_def errors_As_def isTerminal_def errorCode_def)
  ultimately show ?thesis using True assms by (simp add: run_fail_eq)
next
  case False
  then have "handleStatistic cd p r = r"
    by (auto simp: handleStatistic_def statistic_error_def split: sum.split)
  then show ?thesis using False by (simp only: if_False)
qed

section \<open>Witnesses\<close>

definition exampleMetas :: "Meta list" where
  "exampleMetas = [emptyMeta\<lparr>me_ID := 5, me_Namespace := NamespaceChat\<rparr>, emptyMeta\<lparr>me_ID := 6, me_Namespace := 2\<rparr>]"

text \<open>A codec that decodes every payload to one text message, and every statistic to a kick.\<close>

definition exampleDecoder :: codec where
  "exampleDecoder = \<lparr>cd_EncodeMessageBody = (\<lambda>b. Inl (Sentinel ErrLimitExceeded)),
     cd_DecodeMessageBody = (\<lambda>p. Inr (Some \<lparr>mb_Kind = MessageChat, mb_From = emptyJID, mb_To = emptyJID,
        mb_Contents = [emptyContent], mb_Ext = []\<rparr>)),
     cd_DecodeStatistic = (\<lambda>p. Inr \<lparr>sc_Operation = 1, sc_ReplaceDeviceName = [], sc_SessionID = [], sc_Reason = []\<rparr>)\<rparr>"

definition exampleLibJSON :: json_lib where
  "exampleLibJSON = \<lparr>jl_parse = (\<lambda>b. None), jl_float64 = (\<lambda>f. []), jl_float32 = (\<lambda>f. []), jl_parseFloat = (\<lambda>s. None)\<rparr>"

definition exampleShared :: clientShared where
  "exampleShared = \<lparr>cl_generation = 0, cl_lifetimeDone = False, cl_lastErr = None, cl_batches = [], cl_batchBudget = None,
     cl_clientBatchRejects = 0, cl_processBatchRejects = 0, processBatchBudget = None, processQueueBudget = None\<rparr>"

definition panicEnv :: environment where
  "panicEnv = exampleEnv\<lparr>ev_handler := (\<lambda>h m. HandlerPanic ''boom'')\<rparr>"

lemma example_not_done: "\<not> rn_done (dial_run exampleShared 0)"
  by (simp add: dial_run_def clientShared.defs)

lemma example_batch:
  "\<exists>h. processMetas exampleEnv exampleLibJSON exampleDecoder exampleMetas (dial_run exampleShared 0, []) = (None, dial_run exampleShared 0, h)"
  "\<exists>h. processMetas panicEnv exampleLibJSON exampleDecoder exampleMetas (dial_run exampleShared 0, []) = (None, dial_run exampleShared 0, h)
     \<and> outcomes h = [HandlerPanic ''boom'']"
  using example_not_done
  by (simp_all add: exampleMetas_def exampleDecoder_def process_meta_def ctx_done_def exampleEnv_def panicEnv_def
      shouldDeliverToHandler_def emptyContent_def deliverMessage_def Let_def numeral_eq_Suc emptyMeta_def)

theorem batch_in_order_witness:
  "\<exists>h. processMetas exampleEnv exampleLibJSON exampleDecoder exampleMetas (dial_run exampleShared 0, []) = (None, dial_run exampleShared 0, h)
     \<and> handled h = [5, 6]"
proof -
  obtain h where p: "processMetas exampleEnv exampleLibJSON exampleDecoder exampleMetas (dial_run exampleShared 0, []) = (None, dial_run exampleShared 0, h)"
    using example_batch(1) by blast
  then show ?thesis using batch_in_order [OF p] by (auto simp: exampleMetas_def emptyMeta_def)
qed

theorem panic_leaves_watchdog_witness:
  "\<exists>h. processMetas panicEnv exampleLibJSON exampleDecoder exampleMetas (dial_run exampleShared 0, []) = (None, dial_run exampleShared 0, h)
     \<and> stuckHandlers h = 1"
proof -
  obtain h where p: "processMetas panicEnv exampleLibJSON exampleDecoder exampleMetas (dial_run exampleShared 0, []) = (None, dial_run exampleShared 0, h)"
    and o: "outcomes h = [HandlerPanic ''boom'']"
    using example_batch(2) by blast
  then show ?thesis using panic_leaves_watchdog [OF p] by auto
qed

end
