(* ===== verification/Write_Pump.thy ===== *)
theory Write_Pump
  imports Errors
begin

text \<open>
  Outbound frames (\<open>sendFrame\<close> and \<open>writePump\<close> of \<open>sdk/connection.go\<close>): any number of callers put frames
  into the bounded channel \<open>writes\<close>, one goroutine writes them to the socket, and each caller waits for the
  result of its own frame, the end of its context or the end of the run.

  A request is known by its number; its channel \<open>done\<close> of capacity one is an entry of \<open>wp_results\<close>, which
  the caller's receive takes out.  \<open>wp_wire\<close> lists the frames that \<open>WriteMessage\<close> has accepted.

  The pump stops on the context of the run.  \<open>dial\<close> makes that context from \<open>context.Background\<close>, not from
  the lifetime of the Client, and \<open>fail\<close> alone cancels it, right after it has closed \<open>done\<close>: so \<open>wp_runDone\<close>
  stands for both (\<open>ps_stop\<close>), and a Client that is closed reaches the pump through \<open>fail\<close>.  \<open>fail\<close> then closes
  the socket, which the pump sees as an error of \<open>WriteMessage\<close>; \<open>ps_write\<close> allows any result at any time.
\<close>

section \<open>The model\<close>

abbreviation (input) writeCapacity :: nat where "writeCapacity \<equiv> 256"

text \<open>A caller of \<open>sendFrame\<close>: before the send on \<open>writes\<close>, waiting for its result, and returned.\<close>

datatype sender =
    Offering bytes
  | Awaiting bytes nat
  | Returned bytes "nat option" "go_error option"

record write_pump =
  wp_next :: nat
  wp_frames :: "bytes list"
  wp_queue :: "(nat \<times> bytes) list"
  wp_wire :: "(nat \<times> bytes) list"
  wp_results :: "(nat \<times> go_error option) list"
  wp_runDone :: bool
  wp_running :: bool
  wp_senders :: "sender list"

definition streamClosed :: go_error where
  "streamClosed = newError ErrStreamClosed ''write'' []"

definition set_sender :: "nat \<Rightarrow> sender \<Rightarrow> write_pump \<Rightarrow> write_pump" where
  "set_sender i x s = s\<lparr>wp_senders := (wp_senders s)[i := x]\<rparr>"

text \<open>\<open>r.writes <- req\<close>.\<close>

definition offer :: "bytes \<Rightarrow> write_pump \<Rightarrow> nat \<times> write_pump" where
  "offer frame s = (wp_next s, s\<lparr>wp_next := Suc (wp_next s), wp_frames := wp_frames s @ [frame],
     wp_queue := wp_queue s @ [(wp_next s, frame)]\<rparr>)"

text \<open>
  One round of \<open>writePump\<close>: the head of the channel is written, the result is sent to its caller, and an
  error ends the run and the pump.
\<close>

definition pump_write :: "go_error option \<Rightarrow> write_pump \<Rightarrow> write_pump" where
  "pump_write err s =
     (case wp_queue s of [] \<Rightarrow> s
      | (n, frame) # rest \<Rightarrow>
          let s1 = s\<lparr>wp_queue := rest, wp_results := (n, classifyNetworkError ''websocket write'' err) # wp_results s\<rparr>
          in case err of
               None \<Rightarrow> s1\<lparr>wp_wire := wp_wire s @ [(n, frame)]\<rparr>
             | Some e \<Rightarrow> s1\<lparr>wp_runDone := True, wp_running := False\<rparr>)"

inductive pump_step :: "write_pump \<Rightarrow> write_pump \<Rightarrow> bool" where
  ps_call: "pump_step s (s\<lparr>wp_senders := wp_senders s @ [Offering frame]\<rparr>)"
| ps_offer: "i < length (wp_senders s) \<Longrightarrow> wp_senders s ! i = Offering frame \<Longrightarrow>
    length (wp_queue s) < writeCapacity \<Longrightarrow> offer frame s = (n, s') \<Longrightarrow> pump_step s (set_sender i (Awaiting frame n) s')"
| ps_offer_ctx: "i < length (wp_senders s) \<Longrightarrow> wp_senders s ! i = Offering frame \<Longrightarrow>
    pump_step s (set_sender i (Returned frame None (Some e)) s)"
| ps_offer_done: "i < length (wp_senders s) \<Longrightarrow> wp_senders s ! i = Offering frame \<Longrightarrow> wp_runDone s \<Longrightarrow>
    pump_step s (set_sender i (Returned frame None (Some streamClosed)) s)"
| ps_result: "i < length (wp_senders s) \<Longrightarrow> wp_senders s ! i = Awaiting frame n \<Longrightarrow> map_of (wp_results s) n = Some res \<Longrightarrow>
    pump_step s (set_sender i (Returned frame (Some n) res) (s\<lparr>wp_results := AList.delete n (wp_results s)\<rparr>))"
| ps_await_ctx: "i < length (wp_senders s) \<Longrightarrow> wp_senders s ! i = Awaiting frame n \<Longrightarrow>
    pump_step s (set_sender i (Returned frame (Some n) (Some e)) s)"
| ps_await_done: "i < length (wp_senders s) \<Longrightarrow> wp_senders s ! i = Awaiting frame n \<Longrightarrow> wp_runDone s \<Longrightarrow>
    map_of (wp_results s) n = None \<Longrightarrow> pump_step s (set_sender i (Returned frame (Some n) (Some streamClosed)) s)"
| ps_write: "wp_running s \<Longrightarrow> wp_queue s \<noteq> [] \<Longrightarrow> pump_step s (pump_write err s)"
| ps_stop: "wp_runDone s \<Longrightarrow> pump_step s (s\<lparr>wp_running := False\<rparr>)"
| ps_fail: "pump_step s (s\<lparr>wp_runDone := True\<rparr>)"

definition pump_start :: "write_pump \<Rightarrow> bool" where
  "pump_start s \<longleftrightarrow> s = \<lparr>wp_next = 0, wp_frames = [], wp_queue = [], wp_wire = [], wp_results = [], wp_runDone = False,
     wp_running = True, wp_senders = []\<rparr>"

section \<open>The invariant\<close>

text \<open>The accepted frames by number.\<close>

definition numbered :: "write_pump \<Rightarrow> (nat \<times> bytes) list" where
  "numbered s = zip [0..<length (wp_frames s)] (wp_frames s)"

definition sender_ok :: "write_pump \<Rightarrow> sender \<Rightarrow> bool" where
  "sender_ok s x \<longleftrightarrow>
     (case x of Offering f \<Rightarrow> True
      | Awaiting f n \<Rightarrow> n < length (wp_frames s) \<and> wp_frames s ! n = f
      | Returned f no res \<Rightarrow>
          res = None \<longrightarrow> (\<exists>n. no = Some n \<and> n < length (wp_wire s) \<and> wp_frames s ! n = f))"

definition pump_inv :: "write_pump \<Rightarrow> bool" where
  "pump_inv s \<longleftrightarrow>
     wp_next s = length (wp_frames s) \<and> length (wp_queue s) \<le> writeCapacity
     \<and> drop (length (wp_frames s) - length (wp_queue s)) (numbered s) = wp_queue s
     \<and> take (length (wp_wire s)) (numbered s) = wp_wire s
     \<and> length (wp_wire s) + length (wp_queue s) \<le> length (wp_frames s)
     \<and> (wp_running s \<longrightarrow> length (wp_wire s) + length (wp_queue s) = length (wp_frames s))
     \<and> (\<forall>n. (n, None) \<in> set (wp_results s) \<longrightarrow> n < length (wp_wire s))
     \<and> (\<forall>x \<in> set (wp_senders s). sender_ok s x)"

lemma numbered_snoc:
  "numbered (s\<lparr>wp_frames := wp_frames s @ [f]\<rparr>) = numbered s @ [(length (wp_frames s), f)]"
  by (simp add: numbered_def)

lemma numbered_frames: "wp_frames s' = wp_frames s \<Longrightarrow> numbered s' = numbered s"
  by (simp add: numbered_def)

lemma length_numbered [simp]: "length (numbered s) = length (wp_frames s)"
  by (simp add: numbered_def)

lemma nth_numbered: "n < length (wp_frames s) \<Longrightarrow> numbered s ! n = (n, wp_frames s ! n)"
  by (simp add: numbered_def)

lemma sender_ok_cong:
  "wp_frames s' = wp_frames s \<Longrightarrow> wp_wire s' = wp_wire s \<Longrightarrow> sender_ok s' = sender_ok s"
  by (simp add: fun_eq_iff sender_ok_def split: sender.split)

text \<open>Steps that leave the frames alone.\<close>

lemma pump_inv_core:
  assumes "pump_inv s" and "wp_next s' = wp_next s" and "wp_frames s' = wp_frames s" and "wp_queue s' = wp_queue s"
    and "wp_wire s' = wp_wire s" and "wp_running s' \<longrightarrow> wp_running s" and "set (wp_results s') \<subseteq> set (wp_results s)"
    and "\<And>x. x \<in> set (wp_senders s') \<Longrightarrow> sender_ok s x"
  shows "pump_inv s'"
  using assms(1,6,7,8) unfolding pump_inv_def numbered_frames [OF assms(3)] sender_ok_cong [OF assms(3,5)] assms(2-5) by blast

lemma set_sender_inv:
  assumes "pump_inv s" and "sender_ok s x"
  shows "pump_inv (set_sender i x s)"
proof (rule pump_inv_core [OF assms(1)])
  have "set ((wp_senders s)[i := x]) \<subseteq> insert x (set (wp_senders s))" by (rule set_update_subset_insert)
  then show "\<And>y. y \<in> set (wp_senders (set_sender i x s)) \<Longrightarrow> sender_ok s y"
    using assms unfolding pump_inv_def set_sender_def by auto
qed (simp_all add: set_sender_def)

lemma offer_inv:
  assumes "pump_inv s" and "offer f s = (n, s')" and "length (wp_queue s) < writeCapacity"
  shows "pump_inv s'" and "sender_ok s' (Awaiting f n)"
proof -
  have s': "s' = s\<lparr>wp_next := Suc (wp_next s), wp_frames := wp_frames s @ [f], wp_queue := wp_queue s @ [(wp_next s, f)]\<rparr>"
    and n: "n = length (wp_frames s)" using assms(1,2) by (auto simp: offer_def pump_inv_def)
  show "sender_ok s' (Awaiting f n)" by (simp add: s' n sender_ok_def)
  have nu: "numbered s' = numbered s @ [(length (wp_frames s), f)]" by (simp add: s' numbered_def)
  have so: "sender_ok s' x" if sx: "sender_ok s x" and le: "length (wp_wire s) \<le> length (wp_frames s)" for x
  proof (cases x)
    case (Returned g no res)
    show ?thesis
    proof (cases res)
      case None
      then obtain m where "no = Some m" "m < length (wp_wire s)" "wp_frames s ! m = g" using sx Returned by (auto simp: sender_ok_def)
      then show ?thesis using le Returned by (simp add: s' sender_ok_def nth_append)
    qed (simp add: Returned sender_ok_def)
  qed (use sx in \<open>simp_all add: s' sender_ok_def nth_append\<close>)
  have i: "wp_next s = length (wp_frames s)" "length (wp_wire s) + length (wp_queue s) \<le> length (wp_frames s)"
    "drop (length (wp_frames s) - length (wp_queue s)) (numbered s) = wp_queue s"
    "take (length (wp_wire s)) (numbered s) = wp_wire s" using assms(1) by (auto simp: pump_inv_def)
  have "take (length (wp_wire s)) (numbered s') = wp_wire s" using i(2,4) by (simp add: nu)
  moreover have "drop (length (wp_frames s') - length (wp_queue s')) (numbered s') = wp_queue s'"
    using i(1,2,3) unfolding nu by (simp add: s')
  moreover have "sender_ok s' x" if "x \<in> set (wp_senders s')" for x
    using that assms(1) so [of x] i(2) by (simp add: pump_inv_def s')
  moreover have "length (wp_wire s') + length (wp_queue s') \<le> length (wp_frames s')" "length (wp_queue s') \<le> writeCapacity"
    "wp_next s' = length (wp_frames s')" "wp_wire s' = wp_wire s" "wp_results s' = wp_results s"
    "wp_running s' \<longrightarrow> length (wp_wire s') + length (wp_queue s') = length (wp_frames s')"
    using i(1,2) assms(1,3) by (simp_all add: s' pump_inv_def)
  moreover have "\<forall>m. (m, None) \<in> set (wp_results s) \<longrightarrow> m < length (wp_wire s)" using assms(1) by (simp add: pump_inv_def)
  ultimately show "pump_inv s'" unfolding pump_inv_def by metis
qed

lemma pump_write_inv:
  assumes "pump_inv s" and "wp_running s" and "wp_queue s \<noteq> []"
  shows "pump_inv (pump_write err s)"
proof -
  obtain n f rest where q: "wp_queue s = (n, f) # rest" using assms(3) by (metis list.exhaust prod.exhaust)
  let ?s = "pump_write err s"
  have i: "drop (length (wp_frames s) - length (wp_queue s)) (numbered s) = wp_queue s"
    "take (length (wp_wire s)) (numbered s) = wp_wire s" "length (wp_wire s) + length (wp_queue s) = length (wp_frames s)"
    using assms(1,2) by (auto simp: pump_inv_def)
  have l: "length (wp_wire s) < length (wp_frames s)" "length (wp_frames s) - length (wp_queue s) = length (wp_wire s)"
    using i(3) q by simp_all
  then have d: "(n, f) # rest = (length (wp_wire s), wp_frames s ! length (wp_wire s)) # drop (Suc (length (wp_wire s))) (numbered s)"
    using i(1) q Cons_nth_drop_Suc [of "length (wp_wire s)" "numbered s"] by (metis length_numbered nth_numbered)
  then have n0: "n = length (wp_wire s)" "f = wp_frames s ! length (wp_wire s)" "rest = drop (Suc (length (wp_wire s))) (numbered s)"
    by blast+
  then have n: "n = length (wp_wire s)" "f = wp_frames s ! n" "rest = drop (Suc n) (numbered s)" by blast+
  have nu: "numbered ?s = numbered s" and fr: "wp_frames ?s = wp_frames s" "wp_next ?s = wp_next s" "wp_queue ?s = rest" "wp_senders ?s = wp_senders s"
    by (simp_all add: numbered_def pump_write_def q Let_def split: option.split)
  have w: "wp_wire ?s = (if err = None then wp_wire s @ [(n, f)] else wp_wire s)"
    and r: "wp_results ?s = (n, classifyNetworkError ''websocket write'' err) # wp_results s"
    and u: "wp_running ?s = (err = None)" using assms(2) by (auto simp: pump_write_def q Let_def split: option.split)
  have lr: "length rest = length (wp_frames s) - Suc n" using n(3) by simp
  have lw: "length (wp_wire ?s) = (if err = None then Suc n else n)" by (simp add: w n(1))
  have wire: "take (length (wp_wire ?s)) (numbered s) = wp_wire ?s"
    using i(2) n(1,2) l(1) take_Suc_conv_app_nth [of n "numbered s"] unfolding lw w by (simp add: nth_numbered)
  have cl: "classifyNetworkError ''websocket write'' err = None \<Longrightarrow> err = None"
    by (auto simp: classifyNetworkError_def Let_def split: option.splits if_splits)
  have res: "m < length (wp_wire ?s)" if "(m, None) \<in> set (wp_results ?s)" for m
  proof (cases "(m, None) \<in> set (wp_results s)")
    case True
    then have "m < n" using assms(1) n(1) by (auto simp: pump_inv_def)
    then show ?thesis by (simp add: lw)
  next
    case False
    then have "m = n" "err = None" using that cl by (auto simp: r)
    then show ?thesis unfolding lw by simp
  qed
  have snd: "sender_ok ?s x" if "x \<in> set (wp_senders ?s)" for x
  proof -
    have "sender_ok s x" using that assms(1) by (simp add: fr pump_inv_def)
    then show ?thesis using lw n(1) by (auto simp: sender_ok_def fr split: sender.splits)
  qed
  have "drop (length (wp_frames s) - length rest) (numbered s) = rest" using n(3) lr l(1) n(1) by simp
  moreover have "length (wp_wire ?s) + length rest \<le> length (wp_frames s)" "err = None \<Longrightarrow> length (wp_wire ?s) + length rest = length (wp_frames s)"
    using lr l(1) n(1) unfolding lw by auto
  moreover have "length rest \<le> writeCapacity" "wp_next s = length (wp_frames s)" using assms(1) q by (auto simp: pump_inv_def)
  ultimately show ?thesis using wire res snd unfolding pump_inv_def nu fr u by blast
qed

lemma pump_step_inv:
  assumes "pump_inv s" and "pump_step s t"
  shows "pump_inv t"
  using assms(2)
proof cases
  case (ps_call frame)
  then show ?thesis using assms(1) by (intro pump_inv_core [OF assms(1)]) (auto simp: pump_inv_def sender_ok_def [of _ "Offering frame"])
next
  case (ps_offer i frame n s')
  then show ?thesis using offer_inv [OF assms(1) ps_offer(5,4)] set_sender_inv by simp
next
  case (ps_result i frame n res)
  let ?s = "s\<lparr>wp_results := AList.delete n (wp_results s)\<rparr>"
  have "pump_inv ?s" using assms(1) by (intro pump_inv_core [OF assms(1)]) (auto simp: pump_inv_def AList.delete_eq)
  moreover have "sender_ok s (Awaiting frame n)" using assms(1) ps_result(2,3) nth_mem [of i "wp_senders s"] by (auto simp: pump_inv_def)
  then have "sender_ok ?s (Returned frame (Some n) res)"
    using assms(1) map_of_SomeD [OF ps_result(4)] by (auto simp: sender_ok_def pump_inv_def)
  ultimately show ?thesis using ps_result(1) set_sender_inv by simp
next
  case (ps_write err)
  then show ?thesis using pump_write_inv [OF assms(1)] by simp
next
  case ps_stop
  then show ?thesis using assms(1) by (intro pump_inv_core [OF assms(1)]) (auto simp: pump_inv_def)
next
  case ps_fail
  then show ?thesis using assms(1) by (intro pump_inv_core [OF assms(1)]) (auto simp: pump_inv_def)
qed (use set_sender_inv [OF assms(1)] in \<open>simp_all add: sender_ok_def\<close>)

interpretation write_pump: inductive_invariant pump_start pump_step pump_inv
proof
  show "pump_start s \<Longrightarrow> pump_inv s" for s by (simp add: pump_start_def pump_inv_def numbered_def)
qed (rule pump_step_inv)

text \<open>
  C27. \<open>sendFrame\<close> tells the truth.  In every reachable state the socket has seen exactly the first accepted
  frames, each once and in the order in which they were accepted; the channel stays within its 256 slots;
  and a caller that got \<open>nil\<close> has had its own frame written, also when the connection ended at the same
  moment.
\<close>

theorem sendFrame_truthful:
  assumes "reachable pump_start pump_step s"
  shows "\<exists>k \<le> length (wp_frames s). map snd (wp_wire s) = take k (wp_frames s) \<and> map fst (wp_wire s) = [0..<k]
    \<and> length (wp_queue s) \<le> writeCapacity
    \<and> (\<forall>f no. Returned f no None \<in> set (wp_senders s) \<longrightarrow> (\<exists>n. no = Some n \<and> (n, f) \<in> set (wp_wire s)))"
proof -
  have i: "pump_inv s" using write_pump.inv_reachable [OF assms] .
  let ?k = "length (wp_wire s)"
  have k: "?k \<le> length (wp_frames s)" and w: "take ?k (numbered s) = wp_wire s" and c: "length (wp_queue s) \<le> writeCapacity"
    using i by (auto simp: pump_inv_def)
  have "map snd (wp_wire s) = take ?k (wp_frames s)" "map fst (wp_wire s) = [0..<?k]"
  proof -
    have "map snd (take ?k (numbered s)) = take ?k (wp_frames s)" "map fst (take ?k (numbered s)) = [0..<?k]"
      using k by (simp_all add: numbered_def take_map [symmetric])
    then show "map snd (wp_wire s) = take ?k (wp_frames s)" "map fst (wp_wire s) = [0..<?k]" unfolding w by blast+
  qed
  moreover have "\<exists>n. no = Some n \<and> (n, f) \<in> set (wp_wire s)" if "Returned f no None \<in> set (wp_senders s)" for f no
  proof -
    have "sender_ok s (Returned f no None)" using i that by (auto simp: pump_inv_def)
    then obtain n where n: "no = Some n" "n < ?k" "wp_frames s ! n = f" by (auto simp: sender_ok_def)
    have "wp_wire s ! n = numbered s ! n" using n(2) w nth_take [of n ?k "numbered s"] by metis
    then have "wp_wire s ! n = (n, f)" using n k by (simp add: nth_numbered)
    then have "(n, f) \<in> set (wp_wire s)" using n(2) nth_mem [of n "wp_wire s"] by simp
    then show ?thesis using n(1) by simp
  qed
  ultimately show ?thesis using k c by blast
qed

section \<open>A witness\<close>

text \<open>One caller, whose frame is accepted and written and who has got its result.\<close>

definition examplePumpIdle :: write_pump where
  "examplePumpIdle = \<lparr>wp_next = 0, wp_frames = [], wp_queue = [], wp_wire = [], wp_results = [], wp_runDone = False,
     wp_running = True, wp_senders = []\<rparr>"

definition exampleSent :: write_pump where
  "exampleSent = \<lparr>wp_next = 1, wp_frames = [[7]], wp_queue = [], wp_wire = [(0, [7])], wp_results = [], wp_runDone = False,
     wp_running = True, wp_senders = [Returned [7] (Some 0) None]\<rparr>"

lemma example_sent: "reachable pump_start pump_step exampleSent"
proof -
  let ?s1 = "examplePumpIdle\<lparr>wp_senders := [Offering [7]]\<rparr>"
  let ?s2 = "examplePumpIdle\<lparr>wp_next := 1, wp_frames := [[7]], wp_queue := [(0, [7])], wp_senders := [Awaiting [7] 0]\<rparr>"
  let ?s3 = "?s2\<lparr>wp_queue := [], wp_wire := [(0, [7])], wp_results := [(0, None)]\<rparr>"
  have "reachable pump_start pump_step examplePumpIdle" by (rule reachable_start) (simp add: pump_start_def examplePumpIdle_def)
  moreover have "pump_step examplePumpIdle ?s1" using ps_call [of examplePumpIdle "[7]"] by (simp add: examplePumpIdle_def)
  moreover have "pump_step ?s1 ?s2" using ps_offer [of 0 ?s1 "[7]" 0] by (simp add: examplePumpIdle_def offer_def set_sender_def)
  moreover have "pump_step ?s2 ?s3" using ps_write [of ?s2 None] by (simp add: examplePumpIdle_def pump_write_def classifyNetworkError_def)
  moreover have "pump_step ?s3 exampleSent" using ps_result [of 0 ?s3 "[7]" 0 None]
    by (simp add: examplePumpIdle_def exampleSent_def set_sender_def)
  ultimately show ?thesis by (blast intro: reachable_step)
qed

theorem sendFrame_truthful_witness:
  "reachable pump_start pump_step exampleSent \<and> Returned [7] (Some 0) None \<in> set (wp_senders exampleSent)
    \<and> (0, [7]) \<in> set (wp_wire exampleSent)"
proof -
  have r: "Returned [7] (Some 0) None \<in> set (wp_senders exampleSent)" by (simp add: exampleSent_def)
  then have "(0, [7]) \<in> set (wp_wire exampleSent)" using sendFrame_truthful [OF example_sent] by auto
  then show ?thesis using example_sent r by simp
qed

text \<open>The same caller when the run ends before the pump gets to its frame, which is written all the same.\<close>

definition exampleLate :: write_pump where
  "exampleLate = \<lparr>wp_next = 1, wp_frames = [[7]], wp_queue = [], wp_wire = [(0, [7])], wp_results = [(0, None)], wp_runDone = True,
     wp_running = True, wp_senders = [Returned [7] (Some 0) (Some streamClosed)]\<rparr>"

text \<open>
  C34. A send whose outcome is unknown is not always marked so.  The guide promises \<open>ErrSendOutcomeUnknown\<close>
  for a timeout or a disconnect, but a caller that is still in \<open>sendFrame\<close> when the connection ends gets
  \<open>ErrStreamClosed\<close> although the pump goes on to write its frame.
\<close>

theorem written_frame_reported_closed:
  "reachable pump_start pump_step exampleLate
    \<and> Returned [7] (Some 0) (Some streamClosed) \<in> set (wp_senders exampleLate) \<and> (0, [7]) \<in> set (wp_wire exampleLate)
    \<and> errorCode (Some streamClosed) = Some ErrStreamClosed"
proof -
  let ?s1 = "examplePumpIdle\<lparr>wp_senders := [Offering [7]]\<rparr>"
  let ?s2 = "examplePumpIdle\<lparr>wp_next := 1, wp_frames := [[7]], wp_queue := [(0, [7])], wp_senders := [Awaiting [7] 0]\<rparr>"
  let ?s3 = "?s2\<lparr>wp_runDone := True\<rparr>"
  let ?s4 = "?s3\<lparr>wp_senders := [Returned [7] (Some 0) (Some streamClosed)]\<rparr>"
  have "reachable pump_start pump_step examplePumpIdle" by (rule reachable_start) (simp add: pump_start_def examplePumpIdle_def)
  moreover have "pump_step examplePumpIdle ?s1" using ps_call [of examplePumpIdle "[7]"] by (simp add: examplePumpIdle_def)
  ultimately have r1: "reachable pump_start pump_step ?s1" by (rule reachable_step)
  have "pump_step ?s1 ?s2" using ps_offer [of 0 ?s1 "[7]" 0] by (simp add: examplePumpIdle_def offer_def set_sender_def)
  with r1 have r2: "reachable pump_start pump_step ?s2" by (rule reachable_step)
  have "pump_step ?s2 ?s3" by (rule ps_fail)
  with r2 have r3: "reachable pump_start pump_step ?s3" by (rule reachable_step)
  have "pump_step ?s3 ?s4" using ps_await_done [of 0 ?s3 "[7]" 0] by (simp add: examplePumpIdle_def set_sender_def)
  with r3 have r4: "reachable pump_start pump_step ?s4" by (rule reachable_step)
  have "pump_step ?s4 exampleLate" using ps_write [of ?s4 None]
    by (simp add: examplePumpIdle_def exampleLate_def pump_write_def classifyNetworkError_def)
  with r4 have "reachable pump_start pump_step exampleLate" by (rule reachable_step)
  then show ?thesis by (simp add: exampleLate_def streamClosed_def newError_def errorCode_def errors_As_def)
qed

end
