(* ===== verification/Wire_Grammar.thy ===== *)
theory Wire_Grammar
  imports Envelope
begin

text \<open>
  The protobuf wire format as a grammar of byte strings, written down from the format and not from the
  readers of the package: a varint is a little-endian sequence of seven-bit groups, a field is a key
  followed by a value whose extent the wire type fixes, a message is a concatenation of fields.  The
  readers of \<open>Wire\<close> and \<open>Envelope\<close> are proved to recognise exactly this grammar, and the
  constant-memory scan of \<open>envelope.go\<close> to accept exactly the well-formed envelopes over it.
\<close>

section \<open>The grammar\<close>

text \<open>
  A varint: one to ten bytes, the top bit set on all but the last, whose groups of seven bits, least
  significant first, are a number of 64 bits.
\<close>

fun varint_nat :: "bytes \<Rightarrow> nat" where
  "varint_nat [] = 0"
| "varint_nat (b # bs) = unat b mod 128 + 128 * varint_nat bs"

fun varint_shape :: "bytes \<Rightarrow> bool" where
  "varint_shape [] = False"
| "varint_shape [b] = (unat b < 128)"
| "varint_shape (b # bs) = (128 \<le> unat b \<and> varint_shape bs)"

definition is_varint :: "bytes \<Rightarrow> uint64 \<Rightarrow> bool" where
  "is_varint bs v \<longleftrightarrow> varint_shape bs \<and> length bs \<le> 10 \<and> varint_nat bs = unat v"

text \<open>
  The value of a field by its wire type: 0 a varint, 1 eight bytes, 2 a length and as many bytes,
  5 four bytes.  Groups (3 and 4) and the unassigned types 6 and 7 have no value.
\<close>

definition is_value :: "nat \<Rightarrow> bytes \<Rightarrow> uint64 \<times> bytes \<Rightarrow> bool" where
  "is_value wt bs val \<longleftrightarrow>
     (wt = 0 \<and> is_varint bs (fst val) \<and> snd val = [])
     \<or> (wt = 1 \<and> length bs = 8 \<and> val = (0, []))
     \<or> (wt = 2 \<and> (\<exists>l n. bs = l @ snd val \<and> is_varint l n \<and> unat n = length (snd val)) \<and> fst val = 0)
     \<or> (wt = 5 \<and> length bs = 4 \<and> val = (0, []))"

text \<open>A field: the key, which is eight times the number plus the wire type, and the value.\<close>

definition is_field :: "bytes \<Rightarrow> wireField \<Rightarrow> bool" where
  "is_field seg f \<longleftrightarrow>
     (\<exists>key w k. seg = key @ w \<and> is_varint key k \<and> unat k = 8 * unat (wf_number f) + unat (wf_type f)
        \<and> unat (wf_type f) < 8 \<and> is_value (unat (wf_type f)) w (wf_value f))"

definition is_message :: "bytes \<Rightarrow> bytes list \<Rightarrow> wireField list \<Rightarrow> bool" where
  "is_message d segs fs \<longleftrightarrow> d = concat segs \<and> list_all2 is_field segs fs"

section \<open>Varints\<close>

lemma group_value: "unat ((b :: byte) AND 0x7f) = unat b mod 128"
  unfolding byte_7f by (simp add: take_bit_eq_mask [symmetric] unsigned_take_bit_eq take_bit_eq_mod unat_mod)

lemma of_nat_groups:
  "of_nat (varint_nat (b # bs)) = (ucast (b AND 0x7f) :: uint64) OR push_bit 7 (of_nat (varint_nat bs))"
proof -
  have u: "ucast (b AND 0x7f) = (of_nat (unat b mod 128) :: uint64)"
    by (simp add: group_value [symmetric])
  define g :: uint64 where "g = of_nat (unat b mod 128)"
  have "unat b mod 128 < 128" by simp
  then have "unat g < 2 ^ 7" unfolding g_def by (simp add: unat_of_nat take_bit_eq_mod)
  then have l: "bit g n \<Longrightarrow> n < 7" for n by (rule word_bits_below)
  have "g AND push_bit 7 (of_nat (varint_nat bs)) = 0"
    by (rule bit_word_eqI) (auto simp: bit_push_bit_iff bit_and_iff dest: l)
  then have "g OR push_bit 7 (of_nat (varint_nat bs)) = g + push_bit 7 (of_nat (varint_nat bs))"
    by (simp add: disjunctive_add_eq_or)
  then show ?thesis by (simp add: u g_def push_bit_eq_mult)
qed

lemma push_groups:
  "v OR push_bit k (of_nat (varint_nat (b # bs)) :: uint64)
     = (v OR push_bit k (ucast (b AND 0x7f))) OR push_bit (7 + k) (of_nat (varint_nat bs))"
  unfolding of_nat_groups by (simp add: push_bit_or push_bit_push_bit or.assoc add.commute)

lemma readVarint_grammar:
  assumes "varint_shape bs" and "i + length bs \<le> 10" and "varint_nat bs < 2 ^ (64 - 7 * i)"
  shows "readVarint_loop (us @ bs @ vs) (length us) i v
    = Inr (v OR push_bit (7 * i) (of_nat (varint_nat bs)), length us + length bs)"
  using assms
proof (induction bs arbitrary: us i v rule: varint_shape.induct)
  case 1
  then show ?case by simp
next
  case (2 b)
  then have b: "b < 0x80" "unat b < 128" by (simp_all add: word_less_nat_alt)
  have "\<not> (i = 9 \<and> b > 1)" using 2 b by (auto simp: word_less_nat_alt)
  with 2 b push_groups [of v "7 * i" b "[]"] show ?case
    by (subst readVarint_loop.simps) (simp add: nth_append Let_def)
next
  case (3 b b2 bs)
  let ?bs = "b2 # bs"
  have i: "i < 9" using 3(3) by simp
  have nb: "\<not> b < 0x80" using 3(2) by (simp add: word_less_nat_alt)
  have p: "(2::nat) ^ (64 - 7 * i) = 128 * 2 ^ (64 - 7 * Suc i)"
    using i power_add [of "2::nat" 7 "64 - 7 * Suc i"] by simp
  have n: "varint_nat ?bs < 2 ^ (64 - 7 * Suc i)"
  proof -
    have "128 * varint_nat ?bs < 128 * 2 ^ (64 - 7 * Suc i)" using 3(4) unfolding p by (simp del: power_Suc)
    then show ?thesis by simp
  qed
  have "readVarint_loop ((us @ [b]) @ ?bs @ vs) (length (us @ [b])) (Suc i) (v OR push_bit (7 * i) (ucast (b AND 0x7f)))
    = Inr ((v OR push_bit (7 * i) (ucast (b AND 0x7f))) OR push_bit (7 * Suc i) (of_nat (varint_nat ?bs)),
        length (us @ [b]) + length ?bs)"
    by (rule 3(1)) (use 3 n in simp_all)
  then show ?case
    using i nb push_groups [of v "7 * i" b ?bs]
    by (subst readVarint_loop.simps) (simp add: nth_append Let_def)
qed

lemma readVarint_shape:
  assumes "readVarint_loop d off i v = Inr (x, n)" and "i \<le> 9"
  shows "\<exists>bs. bs = subslice d off n \<and> varint_shape bs \<and> i + length bs \<le> 10 \<and> varint_nat bs < 2 ^ (64 - 7 * i)
    \<and> x = v OR push_bit (7 * i) (of_nat (varint_nat bs))"
  using assms
proof (induction d off i v rule: readVarint_loop.induct)
  case (1 d off i v)
  let ?b = "d ! off" and ?v = "v OR push_bit (7 * i) (ucast (d ! off AND 0x7f))"
  have off: "off < length d" and nine: "\<not> (i = 9 \<and> ?b > 1)"
    and step: "(if ?b < 0x80 then Inr (?v, Suc off) else readVarint_loop d (Suc off) (Suc i) ?v) = Inr (x, n)"
    using 1(2) 1(3) by (subst (asm) readVarint_loop.simps, simp add: Let_def split: if_splits)+
  show ?case
  proof (cases "?b < 0x80")
    case True
    then have n: "n = Suc off" and x: "x = ?v" using step by simp_all
    have s: "subslice d off n = [?b]"
      using off Cons_nth_drop_Suc [OF off] by (simp add: n subslice_def) (metis take_Suc_Cons take0)
    have b: "unat ?b < 128" using True by (simp add: word_less_nat_alt)
    have "unat ?b < 2 ^ (64 - 7 * i)"
    proof (cases "i = 9")
      case True
      then show ?thesis using nine by (simp add: word_less_nat_alt)
    next
      case False
      then have "(2::nat) ^ 7 \<le> 2 ^ (64 - 7 * i)" using 1(3) by (intro power_increasing) simp_all
      then show ?thesis using b by simp
    qed
    then show ?thesis using s x b 1(3) push_groups [of v "7 * i" ?b "[]"] by simp
  next
    case False
    then have r: "readVarint_loop d (Suc off) (Suc i) ?v = Inr (x, n)" using step by simp
    have i: "Suc i \<le> 9" using False nine 1(3) by (auto simp: word_less_nat_alt)
    obtain bs where bs: "bs = subslice d (Suc off) n" "varint_shape bs" "Suc i + length bs \<le> 10"
      "varint_nat bs < 2 ^ (64 - 7 * Suc i)" "x = ?v OR push_bit (7 * Suc i) (of_nat (varint_nat bs))"
      using 1(1) [of ?b ?v] off nine False r i 1(3) by auto
    have n: "Suc off < n" using readVarint_loop_bounds [OF r] by simp
    have s: "subslice d off n = ?b # bs"
      using off n subslice_split [of off "Suc off" n d]
      by (simp add: bs(1) subslice_def take_Suc_conv_app_nth hd_drop_conv_nth take_Suc)
    have p: "(2::nat) ^ (64 - 7 * i) = 128 * 2 ^ (64 - 7 * Suc i)"
      using i power_add [of "2::nat" 7 "64 - 7 * Suc i"] by simp
    have m: "unat ?b mod 128 < 128" by simp
    have lt: "varint_nat (?b # bs) < 2 ^ (64 - 7 * i)"
      unfolding p using bs(4) m by (simp del: power_Suc mult_Suc_right)
    have sh: "varint_shape (?b # bs)" using bs(2) False by (cases bs) (simp_all add: word_less_nat_alt)
    show ?thesis
      using s sh lt bs(3,5) push_groups [of v "7 * i" ?b bs] by (intro exI [of _ "?b # bs"]) simp
  qed
qed

lemma readVarint_iff:
  "readVarint d off = Inr (x, n) \<longleftrightarrow> off \<le> n \<and> n \<le> length d \<and> is_varint (subslice d off n) x"
proof
  assume r: "readVarint d off = Inr (x, n)"
  from readVarint_shape [of d off 0 0 x n] r
  have "varint_shape (subslice d off n)" "length (subslice d off n) \<le> 10"
    "varint_nat (subslice d off n) < 2 ^ 64" "x = of_nat (varint_nat (subslice d off n))"
    by (auto simp: readVarint_def)
  then show "off \<le> n \<and> n \<le> length d \<and> is_varint (subslice d off n) x"
    using varint.rd_bounds [OF r] by (simp add: is_varint_def unat_of_nat)
next
  assume a: "off \<le> n \<and> n \<le> length d \<and> is_varint (subslice d off n) x"
  have d: "take off d @ subslice d off n @ drop n d = d" using a take_subslice_drop by blast
  have "varint_nat (subslice d off n) < 2 ^ 64" using a unsigned_less [of x] by (simp add: is_varint_def)
  then have "readVarint_loop (take off d @ subslice d off n @ drop n d) (length (take off d)) 0 0
      = Inr (0 OR push_bit (7 * 0) (of_nat (varint_nat (subslice d off n))),
          length (take off d) + length (subslice d off n))"
    using a by (intro readVarint_grammar) (auto simp: is_varint_def)
  then show "readVarint d off = Inr (x, n)"
    unfolding d using a by (simp add: readVarint_def is_varint_def)
qed

section \<open>Fields\<close>

lemma is_value_of_varint [simp]: "is_value 0 bs val \<longleftrightarrow> is_varint bs (fst val) \<and> snd val = []"
  by (simp add: is_value_def)

lemma scan_bytes_iff:
  "(\<exists>len nxt. readVarint d off = Inr (len, nxt) \<and> unat len \<le> length d - nxt
      \<and> p = subslice d nxt (nxt + unat len) \<and> n = nxt + unat len)
   \<longleftrightarrow> off \<le> n \<and> n \<le> length d \<and> (\<exists>l m. subslice d off n = l @ p \<and> is_varint l m \<and> unat m = length p)"
    (is "?L \<longleftrightarrow> ?R")
proof
  assume ?L
  then obtain len nxt where r: "readVarint d off = Inr (len, nxt)" "unat len \<le> length d - nxt"
    and p: "p = subslice d nxt n" and n: "n = nxt + unat len" by blast
  then have b: "off \<le> nxt" "nxt \<le> length d" "is_varint (subslice d off nxt) len" by (simp_all add: readVarint_iff)
  then have "subslice d off n = subslice d off nxt @ p" unfolding p n by (intro subslice_split) simp_all
  moreover have "unat len = length p" using r b by (simp add: p n)
  ultimately show ?R using b r n by auto
next
  assume ?R
  then obtain l m where b: "off \<le> n" "n \<le> length d" and l: "subslice d off n = l @ p" "is_varint l m" "unat m = length p"
    by blast
  have e: "n = off + length l + length p" using arg_cong [OF l(1), of length] b by simp
  have s: "subslice d off (off + length l) @ subslice d (off + length l) n = l @ p"
    using l(1) subslice_split [of off "off + length l" n d] e by simp
  moreover have "length (subslice d off (off + length l)) = length l" using b e by simp
  ultimately have q: "subslice d off (off + length l) = l" "subslice d (off + length l) n = p" by simp_all
  then have "readVarint d off = Inr (m, off + length l)" using l b e by (simp add: readVarint_iff)
  with l e b q show ?L by (intro exI [of _ m] exI [of _ "off + length l"]) simp
qed

lemma scan_value_iff:
  "scan_value d off number wt = Inr (val, n) \<longleftrightarrow>
     off \<le> n \<and> n \<le> length d \<and> is_value (unat wt) (subslice d off n) val"
proof -
  have wt: "wt = k \<longleftrightarrow> unat wt = unat k" for k by (simp add: word_unat_eq_iff)
  consider (varint) "wt = 0" | (f64) "wt = 1" | (bytes) "wt = 2" | (f32) "wt = 5"
    | (other) "wt \<noteq> 0" "wt \<noteq> 1" "wt \<noteq> 2" "wt \<noteq> 5" by blast
  then show ?thesis
  proof cases
    case varint
    then have "scan_value d off number wt = Inr (val, n) \<longleftrightarrow> readVarint d off = Inr (fst val, n) \<and> snd val = []"
      by (cases val) (auto simp: scan_value_def split: sum.splits)
    then show ?thesis unfolding readVarint_iff using varint by auto
  next
    case f64
    then show ?thesis by (auto simp: scan_value_def is_value_def)
  next
    case bytes
    then have "scan_value d off number wt = Inr (val, n) \<longleftrightarrow> fst val = 0 \<and>
      (\<exists>len nxt. readVarint d off = Inr (len, nxt) \<and> unat len \<le> length d - nxt
         \<and> snd val = subslice d nxt (nxt + unat len) \<and> n = nxt + unat len)"
      by (cases val) (auto simp: scan_value_def split: sum.splits)
    then show ?thesis unfolding scan_bytes_iff using bytes by (auto simp: is_value_def)
  next
    case f32
    then show ?thesis by (auto simp: scan_value_def is_value_def)
  next
    case other
    then show ?thesis using wt [of 0] wt [of 1] wt [of 2] wt [of 5] by (simp add: scan_value_def is_value_def)
  qed
qed

lemma key_parts:
  "number = drop_bit 3 k \<and> wt = ucast (k AND 7) \<longleftrightarrow> unat (k :: uint64) = 8 * unat number + unat (wt :: byte) \<and> unat wt < 8"
proof -
  have d: "unat (drop_bit 3 k) = unat k div 8" by (simp add: drop_bit_eq_div unat_div)
  have "k AND 7 = take_bit 3 k" by (simp add: take_bit_eq_mask mask_eq_exp_minus_1)
  then have "unat (k AND 7) = unat k mod 8" by (simp add: take_bit_eq_mod unat_mod)
  then have m: "unat (ucast (k AND 7) :: byte) = unat k mod 8"
    by (simp add: unsigned_ucast_eq take_bit_eq_mod)
  show ?thesis unfolding word_unat_eq_iff d m by auto
qed

lemma readField_iff:
  "readField d off = Inr (f, n) \<longleftrightarrow> off \<le> n \<and> n \<le> length d \<and> is_field (subslice d off n) f" (is "?L \<longleftrightarrow> ?R")
proof
  assume ?L
  then obtain tag k where r: "readVarint d off = Inr (tag, k)" "wf_number f = drop_bit 3 tag \<and> wf_type f = ucast (tag AND 7)"
    "scan_value d k (wf_number f) (wf_type f) = Inr (wf_value f, n)"
    by (auto simp: readField_Inr)
  then have "subslice d off n = subslice d off k @ subslice d k n"
    by (intro subslice_split) (simp_all add: readVarint_iff scan_value_iff)
  with r show ?R unfolding key_parts readVarint_iff scan_value_iff is_field_def by fastforce
next
  assume ?R
  then obtain key w k where b: "off \<le> n" "n \<le> length d" and s: "subslice d off n = key @ w" and key: "is_varint key k"
    and parts: "wf_number f = drop_bit 3 k \<and> wf_type f = ucast (k AND 7)"
    and w: "is_value (unat (wf_type f)) w (wf_value f)"
    unfolding is_field_def key_parts by blast
  define m where "m = off + length key"
  have e: "n = m + length w" using arg_cong [OF s, of length] b by (simp add: m_def)
  have "subslice d off m @ subslice d m n = key @ w" using s subslice_split [of off m n d] e by (simp add: m_def)
  moreover have "length (subslice d off m) = length key" using b e by (simp add: m_def)
  ultimately have "subslice d off m = key" "subslice d m n = w" by simp_all
  then have "readVarint d off = Inr (k, m)" "scan_value d m (wf_number f) (wf_type f) = Inr (wf_value f, n)"
    using key w b e by (simp_all add: readVarint_iff scan_value_iff m_def)
  with parts show ?L by (auto simp: readField_Inr)
qed

section \<open>Messages\<close>

text \<open>The range of each of the consecutive segments.\<close>

fun spans :: "nat \<Rightarrow> bytes list \<Rightarrow> wireRange list" where
  "spans off [] = []"
| "spans off (seg # segs) = (off, off + length seg) # spans (off + length seg) segs"

lemma spans_length [simp]: "length (spans off segs) = length segs"
  by (induction segs arbitrary: off) simp_all

lemma reads_iff_message:
  "(\<exists>segs. drop off d = concat segs \<and> list_all2 is_field segs (map fst ps) \<and> map snd ps = spans off segs)
     \<longleftrightarrow> reads readField d off ps (length d)" if "off \<le> length d"
  using that
proof (induction ps arbitrary: off)
  case Nil
  then show ?case by auto
next
  case (Cons p ps)
  obtain f s e where p: "p = (f, s, e)" by (cases p)
  show ?case (is "?L \<longleftrightarrow> ?R")
  proof
    assume ?L
    then obtain seg segs where c: "drop off d = seg @ concat segs" "is_field seg f" "list_all2 is_field segs (map fst ps)"
      and r: "s = off" "e = off + length seg" "map snd ps = spans e segs"
      by (auto simp: p list_all2_Cons2)
    have l: "e \<le> length d" using arg_cong [OF c(1), of length] Cons.prems r by simp
    have "subslice d off e = seg" using arg_cong [OF c(1), of "take (length seg)"] r by (simp add: subslice_def)
    then have f: "readField d off = Inr (f, e)" using c(2) r(2) l by (simp add: readField_iff)
    have "drop e d = drop (length seg) (drop off d)" by (simp add: r(2) add.commute)
    then have "drop e d = concat segs" by (simp add: c(1))
    then have "reads readField d e ps (length d)" using Cons.IH [OF l] c(3) r(3) by blast
    with f r show ?R by (simp add: p)
  next
    assume ?R
    then have r: "s = off" "readField d off = Inr (f, e)" "reads readField d e ps (length d)" by (simp_all add: p)
    then have b: "off \<le> e" "e \<le> length d" "is_field (subslice d off e) f" by (simp_all add: readField_iff)
    obtain segs where "drop e d = concat segs" "list_all2 is_field segs (map fst ps)" "map snd ps = spans e segs"
      using Cons.IH [OF b(2)] r(3) by blast
    moreover have "drop off d = subslice d off e @ drop e d"
      using b append_take_drop_id [of "e - off" "drop off d"] by (simp add: subslice_def)
    ultimately show ?L using b r by (intro exI [of _ "subslice d off e # segs"]) (simp add: p)
  qed
qed

lemma reads_message:
  "reads readField d 0 ps (length d) \<longleftrightarrow> (\<exists>segs. is_message d segs (map fst ps) \<and> map snd ps = spans 0 segs)"
  using reads_iff_message [of 0 d ps] by (simp add: is_message_def)

text \<open>The reference parser of \<open>Envelope\<close> is the grammar.\<close>

lemma wire_fields_message: "wire_fields d = Some fs \<longleftrightarrow> (\<exists>segs. is_message d segs fs)"
proof -
  have "is_message d segs fs \<Longrightarrow> map fst (zip fs (spans 0 segs)) = fs \<and> map snd (zip fs (spans 0 segs)) = spans 0 segs" for segs
    by (auto simp: is_message_def dest: list_all2_lengthD)
  then have "(\<exists>segs. is_message d segs fs) \<longleftrightarrow> (\<exists>ps segs. is_message d segs (map fst ps) \<and> map snd ps = spans 0 segs \<and> map fst ps = fs)"
    by metis
  then show ?thesis unfolding wire_fields_reads reads_message by blast
qed

section \<open>The scan\<close>

definition well_formed_envelope :: "wireField list \<Rightarrow> bool" where
  "well_formed_envelope fs \<longleftrightarrow> length fs \<le> 4096 \<and> (\<forall>f \<in> set fs. wf_number f \<noteq> 0)
     \<and> (\<forall>f \<in> set fs. wf_number f = 4 \<longrightarrow> wf_type f = 0) \<and> (\<forall>f \<in> set fs. wf_number f = 9 \<longrightarrow> wf_type f = 2)
     \<and> length (filter (\<lambda>f. wf_number f = 4) fs) \<le> 1 \<and> length (filter (\<lambda>f. wf_number f = 9) fs) \<le> 1"

text \<open>What the scan is to retain: the value and the range of the compression field 4 and the payload field 9.\<close>

definition summary :: "bytes list \<Rightarrow> wireField list \<Rightarrow> envelopeScan" where
  "summary segs fs =
     (let item = (\<lambda>n. find (\<lambda>(f, raw). wf_number f = n) (zip fs (spans 0 segs)))
      in \<lparr>es_fieldCount = length fs,
          es_hasCompression = (item 4 \<noteq> None),
          es_compression = (case item 4 of None \<Rightarrow> 0 | Some (f, raw) \<Rightarrow> fst (wf_value f)),
          es_compressionRaw = (case item 4 of None \<Rightarrow> (0, 0) | Some (f, raw) \<Rightarrow> raw),
          es_hasPayload = (item 9 \<noteq> None),
          es_payload = (case item 9 of None \<Rightarrow> [] | Some (f, raw) \<Rightarrow> snd (wf_value f)),
          es_payloadRaw = (case item 9 of None \<Rightarrow> (0, 0) | Some (f, raw) \<Rightarrow> raw)\<rparr>)"

lemma occurrences_filter: "occurrences n fs = length (filter (\<lambda>f. wf_number f = n) fs)"
  by (induction fs) simp_all

lemma well_formed_envelope_ok: "well_formed_envelope fs \<longleftrightarrow> envelope_ok 0 False False fs"
  by (auto simp: well_formed_envelope_def envelope_ok_def field_ok_def list_all_iff occurrences_filter)

lemma fold_fields_summary:
  assumes f: "fold_fields ps zeroScan = Some r" and s: "map snd ps = spans 0 segs"
  shows "r = summary segs (map fst ps)"
proof -
  have z: "zip (map fst ps) (spans 0 segs) = ps" by (simp add: s [symmetric] zip_map_fst_snd)
  let ?item = "\<lambda>n. find (\<lambda>(f, raw). wf_number f = n) ps"
  have found: "(f, raw) \<in> set ps \<and> wf_number f = n" if "?item n = Some (f, raw)" for n f raw
    using that by (auto simp: find_Some_iff in_set_conv_nth)
  have absent: "occurrences n (map fst ps) = 0" if "?item n = None" for n
    using that by (force simp: find_None_iff occurrences_0)
  have c: "es_hasCompression r = (?item 4 \<noteq> None)
      \<and> es_compression r = (case ?item 4 of None \<Rightarrow> 0 | Some (f, raw) \<Rightarrow> fst (wf_value f))
      \<and> es_compressionRaw r = (case ?item 4 of None \<Rightarrow> (0, 0) | Some (f, raw) \<Rightarrow> raw)"
  proof (cases "?item 4")
    case None
    then show ?thesis using fold_fields_other(2) [OF f absent] by (simp add: zeroScan_def)
  next
    case (Some x)
    then show ?thesis using found [of 4 "fst x" "snd x"] fold_fields_member(1) [OF f, of "fst x" "snd x"]
      by (simp split: prod.splits)
  qed
  have p: "es_hasPayload r = (?item 9 \<noteq> None)
      \<and> es_payload r = (case ?item 9 of None \<Rightarrow> [] | Some (f, raw) \<Rightarrow> snd (wf_value f))
      \<and> es_payloadRaw r = (case ?item 9 of None \<Rightarrow> (0, 0) | Some (f, raw) \<Rightarrow> raw)"
  proof (cases "?item 9")
    case None
    then show ?thesis using fold_fields_other(3) [OF f absent] by (simp add: zeroScan_def)
  next
    case (Some x)
    then show ?thesis using found [of 9 "fst x" "snd x"] fold_fields_member(2) [OF f, of "fst x" "snd x"]
      by (simp split: prod.splits)
  qed
  have "es_fieldCount r = length ps" using fold_fields_other(1) [OF f] by (simp add: zeroScan_def)
  with c p show ?thesis by (intro envelopeScan.equality) (simp_all add: summary_def z Let_def)
qed

text \<open>
  C17.  The constant-memory scan recognises the wire grammar.  \<open>scanEnvelope\<close> returns a result for a
  slice exactly when the slice is a concatenation of at most 4096 protobuf fields with nonzero numbers,
  among them at most one compression field, a varint, and at most one payload field, of bytes; a field
  is a key varint followed by a varint, eight bytes, a length and as many bytes, or four bytes, as its
  wire type says, and groups are refused.  The result is then exactly the number of fields with the value
  and the byte range of the compression field and of the payload field.
\<close>

theorem scan_agrees_with_parse:
  "scanEnvelope d = Inr r \<longleftrightarrow>
     (\<exists>segs fs. d = concat segs \<and> list_all2 is_field segs fs \<and> well_formed_envelope fs \<and> r = summary segs fs)"
    (is "_ \<longleftrightarrow> ?R")
proof
  assume "scanEnvelope d = Inr r"
  then obtain ps where f: "fold_fields ps zeroScan = Some r" and m: "reads readField d 0 ps (length d)"
    by (auto simp: scanEnvelope_iff)
  obtain segs where "is_message d segs (map fst ps)" "map snd ps = spans 0 segs"
    using m reads_message by blast
  moreover have "well_formed_envelope (map fst ps)"
    using fold_fields_accepts [of zeroScan ps] f by (auto simp: zeroScan_def well_formed_envelope_ok)
  ultimately show ?R using fold_fields_summary [OF f] by (auto simp: is_message_def)
next
  assume ?R
  then obtain segs fs where m: "is_message d segs fs" and w: "well_formed_envelope fs" and r: "r = summary segs fs"
    by (auto simp: is_message_def)
  define ps where "ps = zip fs (spans 0 segs)"
  have ps: "map fst ps = fs" "map snd ps = spans 0 segs"
    using m by (auto simp: ps_def is_message_def dest: list_all2_lengthD)
  then have "reads readField d 0 ps (length d)" using m reads_message by metis
  moreover obtain r' where f: "fold_fields ps zeroScan = Some r'"
    using w fold_fields_accepts [of zeroScan ps] ps by (auto simp: zeroScan_def well_formed_envelope_ok)
  moreover have "r' = r" using fold_fields_summary [OF f ps(2)] by (simp add: r ps(1))
  ultimately show "scanEnvelope d = Inr r" by (auto simp: scanEnvelope_iff)
qed

end
