(* ===== verification/Dispatch.thy ===== *)
theory Dispatch
  imports Queue_Properties
begin

text \<open>
  Inbound frames (\<open>login\<close>, \<open>readPump\<close>, \<open>decodeAndDispatch\<close>, \<open>dispatch\<close>, \<open>heartbeat\<close> and \<open>sendUnread\<close> of
  \<open>sdk/connection.go\<close>): what each frame does to the connection, the admission of frames to decoding under
  the process-wide byte budget, and the supervision of the peer.

  \<open>DecodeFrame\<close> is the native codec, a parameter; frames on the socket, timers and the ends of contexts come
  from the environment.
\<close>

section \<open>Dispatch\<close>

definition provision_answer :: "Frame \<Rightarrow> go_error + Provision" where
  "provision_answer fm =
     (case fr_Provision fm of None \<Rightarrow> Inl (newError ErrProtocol ''provision'' ''missing payload'')
      | Some p \<Rightarrow>
          (case pv_Status p of None \<Rightarrow> Inl (newError ErrProtocol ''provision'' ''missing status'')
           | Some st \<Rightarrow>
               if st_Code st = StatusOK then Inr p
               else if st_Code st = StatusRedirect then Inl (RedirectErr (fst (st_Redirects st)))
               else Inl (protocolError ''provision'' (st_Code st) (st_Reason st))))"

definition dispatch_unread :: "int64 \<Rightarrow> Frame \<Rightarrow> connectionRun \<Rightarrow> connectionRun" where
  "dispatch_unread now fm r =
     (case fr_Unread fm of None \<Rightarrow> run_fail (Some (newError ErrProtocol ''unread'' ''missing payload'')) r
      | Some u \<Rightarrow>
          let served = (fold startQueue (un_Queues u) r)\<lparr>rn_lastPong := now\<rparr>
          in case un_Status u of None \<Rightarrow> served
             | Some st \<Rightarrow>
                 if st_Code st = StatusRedirect then run_fail (Some (RedirectErr (fst (st_Redirects st)))) r
                 else if st_Code st \<noteq> StatusOK then run_fail (Some (protocolError ''unread'' (st_Code st) (st_Reason st))) r
                 else served)"

definition logout_answer :: "Frame \<Rightarrow> go_error option" where
  "logout_answer fm =
     (case Option.bind (fr_Logout fm) lo_Status of None \<Rightarrow> None
      | Some st \<Rightarrow> if st_Code st \<noteq> StatusOK then Some (protocolError ''logout'' (st_Code st) (st_Reason st)) else None)"

text \<open>\<open>prefer_done\<close> as in \<open>handleBatch\<close>: how the select at the end of it chooses.\<close>

definition dispatch :: "bool \<Rightarrow> int64 \<Rightarrow> Frame \<Rightarrow> connectionRun \<Rightarrow> connectionRun" where
  "dispatch prefer_done now fm r =
     (if fr_Command fm = CommandProvision then tryProvision (provision_answer fm) r
      else if fr_Command fm = CommandUnread then dispatch_unread now fm r
      else if fr_Command fm = CommandNotice
      then (case fr_Notice fm of None \<Rightarrow> r | Some j \<Rightarrow> startQueue j r)
      else if fr_Command fm = CommandSync
      then (case fr_Sync fm of None \<Rightarrow> run_fail (Some (newError ErrProtocol ''sync'' ''missing payload'')) r
            | Some d \<Rightarrow> if sy_MetaID d > 0 then completeACK d r else handleBatch prefer_done d r)
      else if fr_Command fm = CommandLogout
      then (if length (rn_logout r) < 1 then r\<lparr>rn_logout := rn_logout r @ [logout_answer fm]\<rparr> else r)
      else r)"

text \<open>
  The wait of \<open>login\<close> after its frame was sent: the answer, the end of the context, or the end of the run.
\<close>

datatype login_wait = LoginAnswer "go_error + Provision" | LoginCtx go_error | LoginDone

definition login_result :: "go_error option \<Rightarrow> go_error option \<Rightarrow> login_wait \<Rightarrow> go_error + Provision" where
  "login_result encodeErr sendErr w =
     (case encodeErr of Some e \<Rightarrow> Inl e
      | None \<Rightarrow>
          (case sendErr of Some e \<Rightarrow> Inl e
           | None \<Rightarrow>
               (case w of LoginAnswer a \<Rightarrow> a
                | LoginCtx e \<Rightarrow> Inl (the (classifyNetworkError ''provision'' (Some e)))
                | LoginDone \<Rightarrow> Inl (newError ErrStreamClosed ''provision'' ''connection closed''))))"

section \<open>A frame is a sequence of scheduler steps\<close>

lemma sched_run_path:
  assumes "sd_reader s = RdIdle" and "\<not> rn_finalized (sd_run s)"
  shows "sched_step\<^sup>*\<^sup>* s (s\<lparr>sd_run := fold startQueue js (sd_run s)\<rparr>)"
  using assms
proof (induction js arbitrary: s)
  case Nil
  then show ?case by simp
next
  case (Cons j js)
  let ?t = "s\<lparr>sd_run := startQueue j (sd_run s)\<rparr>"
  have "sched_step s ?t" using step_notice [OF Cons(2,3)] .
  moreover have "\<not> rn_finalized (sd_run ?t)" using Cons(3) frame_finalized [OF frame_startQueue] by simp
  then have "sched_step\<^sup>*\<^sup>* ?t (?t\<lparr>sd_run := fold startQueue js (sd_run ?t)\<rparr>)" using Cons(2) by (intro Cons(1)) simp_all
  ultimately show ?case by (simp add: converse_rtranclp_into_rtranclp)
qed

lemma batch_path:
  assumes "sd_reader s = RdIdle" and "\<not> rn_finalized (sd_run s)"
  shows "sched_step\<^sup>*\<^sup>* s (s\<lparr>sd_run := handleBatch pd d (sd_run s)\<rparr>)"
proof -
  obtain res r1 where b: "handleBatch_begin d (sd_run s) = (res, r1)" by (cases "handleBatch_begin d (sd_run s)")
  note st = step_sync [OF assms b]
  show ?thesis
  proof (cases res)
    case None
    then show ?thesis using st assms(1) b by (cases s) (auto simp: handleBatch_def)
  next
    case (Some ka)
    obtain k a where ka: "ka = (k, a)" by (cases ka)
    let ?t = "s\<lparr>sd_run := r1, sd_reader := RdBatch d k a\<rparr>"
    have "sched_step s ?t" using st by (simp add: Some ka)
    moreover have "sched_step ?t (?t\<lparr>sd_run := handleBatch_finish pd d k a r1, sd_reader := RdIdle\<rparr>)"
      using step_sync_finish [of ?t d k a pd] by simp
    moreover have "?t\<lparr>sd_run := handleBatch_finish pd d k a r1, sd_reader := RdIdle\<rparr> = s\<lparr>sd_run := handleBatch pd d (sd_run s)\<rparr>"
      using assms(1) b by (cases s) (simp add: handleBatch_def Some ka)
    ultimately show ?thesis by (metis converse_rtranclp_into_rtranclp r_into_rtranclp)
  qed
qed

lemma fail_path: "sched_step\<^sup>*\<^sup>* s (s\<lparr>sd_run := run_fail e (sd_run s)\<rparr>)"
  using step_fail by (rule r_into_rtranclp)

lemma answers_path:
  "sched_step\<^sup>*\<^sup>* s (s\<lparr>sd_run := r\<rparr>) \<Longrightarrow>
   sched_step\<^sup>*\<^sup>* s (s\<lparr>sd_run := r\<lparr>rn_provision := ps, rn_logout := ls, rn_lastPong := now\<rparr>\<rparr>)"
  using step_answers [of "s\<lparr>sd_run := r\<rparr>", where answers = ps and errs = ls and now = now]
  by (simp add: rtranclp.rtrancl_into_rtrancl)

lemma served_path:
  assumes "sd_reader s = RdIdle" and "\<not> rn_finalized (sd_run s)"
  shows "sched_step\<^sup>*\<^sup>* s (s\<lparr>sd_run := (fold startQueue js (sd_run s))\<lparr>rn_lastPong := now\<rparr>\<rparr>)"
  using answers_path [OF sched_run_path [OF assms, of js], where ps = "rn_provision (fold startQueue js (sd_run s))"
      and ls = "rn_logout (fold startQueue js (sd_run s))" and now = now] by simp

lemma stay_path: "sched_step\<^sup>*\<^sup>* s (s\<lparr>sd_run := sd_run s\<rparr>)"
  by simp

text \<open>Whatever a frame holds, handling it is a sequence of steps of the scheduler.\<close>

lemma dispatch_path:
  assumes "sd_reader s = RdIdle" and "\<not> rn_finalized (sd_run s)"
  shows "sched_step\<^sup>*\<^sup>* s (s\<lparr>sd_run := dispatch prefer_done now fm (sd_run s)\<rparr>)"
proof -
  have provision: "sched_step\<^sup>*\<^sup>* s (s\<lparr>sd_run := tryProvision x (sd_run s)\<rparr>)" for x
    using answers_path [OF stay_path [of s], where ps = "rn_provision (tryProvision x (sd_run s))"
        and ls = "rn_logout (sd_run s)" and now = "rn_lastPong (sd_run s)"]
    by (simp add: tryProvision_def split: if_splits)
  have logout: "sched_step\<^sup>*\<^sup>* s (s\<lparr>sd_run := (sd_run s)\<lparr>rn_logout := ls\<rparr>\<rparr>)" for ls
    using answers_path [OF stay_path [of s], where ps = "rn_provision (sd_run s)" and ls = ls and now = "rn_lastPong (sd_run s)"]
    by simp
  have unread: "sched_step\<^sup>*\<^sup>* s (s\<lparr>sd_run := dispatch_unread now fm (sd_run s)\<rparr>)"
    by (simp add: dispatch_unread_def Let_def fail_path served_path [OF assms] split: option.split)
  have notice: "sched_step\<^sup>*\<^sup>* s (s\<lparr>sd_run := startQueue j (sd_run s)\<rparr>)" for j
    using sched_run_path [OF assms, of "[j]"] by simp
  have ack: "sched_step\<^sup>*\<^sup>* s (s\<lparr>sd_run := completeACK d (sd_run s)\<rparr>)" for d
    using step_ack [OF pending_complete] by (rule r_into_rtranclp)
  show ?thesis
    by (simp add: dispatch_def provision logout unread notice ack fail_path batch_path [OF assms] split: option.split)
qed

section \<open>What a frame does\<close>

text \<open>A status that stands in no way; a missing one counts as success.\<close>

definition status_ok :: "Status option \<Rightarrow> bool" where
  "status_ok st \<longleftrightarrow> (\<forall>x. st = Some x \<longrightarrow> st_Code x = StatusOK)"

text \<open>A queue that is in service: tracked, and active or waiting for a slot.\<close>

definition in_service :: "JID \<Rightarrow> connectionRun \<Rightarrow> bool" where
  "in_service j r \<longleftrightarrow> (\<exists>a. queue_lookup r (newQueueKey j) = Some a \<and> qs_phase (qobj r a) \<noteq> queueIdle)"

lemma fold_startQueue_done: "rn_done r \<Longrightarrow> rn_done (fold startQueue js r)"
proof (induction js arbitrary: r)
  case (Cons j js)
  have "rn_done (startQueue j r)" using Cons(2) frame_startQueue [of r j] by (simp add: frame_def)
  with Cons(1) show ?case by simp
qed simp

lemma fold_startQueue_serves:
  assumes "sched_ok 0 r" and "\<not> rn_done (fold startQueue js r)"
  shows "(\<forall>j \<in> set js. in_service j (fold startQueue js r))
    \<and> (\<forall>i. in_service i r \<longrightarrow> in_service i (fold startQueue js r))"
  using assms
proof (induction js arbitrary: r)
  case (Cons j js)
  have "\<not> rn_done (startQueue j r)" using Cons(3) fold_startQueue_done by fastforce
  note s = startQueue_serves [OF Cons(2) this]
  have "in_service j (startQueue j r)" using s unfolding in_service_def by blast
  moreover have "in_service i (startQueue j r)" if "in_service i r" for i
    using s that unfolding in_service_def by blast
  moreover have "(\<forall>i \<in> set js. in_service i (fold startQueue js (startQueue j r)))
    \<and> (\<forall>i. in_service i (startQueue j r) \<longrightarrow> in_service i (fold startQueue js (startQueue j r)))"
    using Cons(3) by (intro Cons(1) startQueue_ok Cons(2)) simp
  ultimately show ?case by simp
qed simp

text \<open>What the login is told: the session exactly on success, and where to go on a redirect.\<close>

definition login_told :: "Frame \<Rightarrow> go_error + Provision \<Rightarrow> bool" where
  "login_told fm x \<longleftrightarrow>
     (\<forall>p. x = Inr p \<longleftrightarrow> fr_Provision fm = Some p \<and> (\<exists>st. pv_Status p = Some st \<and> st_Code st = StatusOK))
     \<and> (\<forall>p st. fr_Provision fm = Some p \<and> pv_Status p = Some st \<and> st_Code st = StatusRedirect
          \<longrightarrow> x = Inl (RedirectErr (fst (st_Redirects st))))
     \<and> (\<forall>p st. fr_Provision fm = Some p \<and> pv_Status p = Some st \<and> st_Code st \<notin> {StatusOK, StatusRedirect}
          \<longrightarrow> x = Inl (protocolError ''provision'' (st_Code st) (st_Reason st)))"

lemma provision_answer_told: "login_told fm (provision_answer fm)"
  by (auto simp: login_told_def provision_answer_def split: option.splits)

text \<open>Why an unread frame ends the connection, if it does.\<close>

definition unread_refused :: "Frame \<Rightarrow> go_error \<Rightarrow> bool" where
  "unread_refused fm e \<longleftrightarrow>
     (fr_Unread fm = None \<and> e = newError ErrProtocol ''unread'' ''missing payload'')
     \<or> (\<exists>u st. fr_Unread fm = Some u \<and> un_Status u = Some st \<and> st_Code st \<noteq> StatusOK
          \<and> e = (if st_Code st = StatusRedirect then RedirectErr (fst (st_Redirects st))
                 else protocolError ''unread'' (st_Code st) (st_Reason st)))"

text \<open>
  The meaning of a frame, as a relation between the run before and after it, one clause per command.
\<close>

definition frame_meaning :: "bool \<Rightarrow> int64 \<Rightarrow> Frame \<Rightarrow> connectionRun \<Rightarrow> connectionRun \<Rightarrow> bool" where
  "frame_meaning prefer_done now fm r r' \<longleftrightarrow>
     (fr_Command fm = CommandProvision \<longrightarrow>
        (if rn_provision r = [] then \<exists>x. login_told fm x \<and> r' = r\<lparr>rn_provision := [x]\<rparr> else r' = r))
     \<and> (fr_Command fm = CommandUnread \<longrightarrow>
        (\<forall>e. unread_refused fm e \<longrightarrow> r' = run_fail (Some e) r)
        \<and> (\<forall>u. fr_Unread fm = Some u \<and> status_ok (un_Status u) \<longrightarrow>
             r' = (fold startQueue (un_Queues u) r)\<lparr>rn_lastPong := now\<rparr>
             \<and> (rn_done r' \<or> (\<forall>j \<in> set (un_Queues u). in_service j r'))))
     \<and> (fr_Command fm = CommandNotice \<longrightarrow>
        (case fr_Notice fm of None \<Rightarrow> r' = r
         | Some j \<Rightarrow> r' = startQueue j r \<and> (rn_done r' \<or> in_service j r')))
     \<and> (fr_Command fm = CommandSync \<longrightarrow>
        (case fr_Sync fm of None \<Rightarrow> r' = run_fail (Some (newError ErrProtocol ''sync'' ''missing payload'')) r
         | Some d \<Rightarrow>
             if sy_MetaID d \<noteq> 0
             then same_queues r r' \<and> rn_done r' = rn_done r \<and> cl_batches r' = cl_batches r
                  \<and> rn_pending r' = AList.delete (sy_MetaID d) (rn_pending r)
                  \<and> rn_ackChans r' = (case map_of (rn_pending r) (sy_MetaID d) of None \<Rightarrow> rn_ackChans r
                      | Some ch \<Rightarrow> (rn_ackChans r)[ch := rn_ackChans r ! ch @ [ack_answer d]])
             else r' = handleBatch prefer_done d r))
     \<and> (fr_Command fm = CommandLogout \<longrightarrow>
        (if rn_logout r = []
         then \<exists>x. r' = r\<lparr>rn_logout := [x]\<rparr> \<and> (x = None \<longleftrightarrow> status_ok (Option.bind (fr_Logout fm) lo_Status))
              \<and> (\<forall>st. Option.bind (fr_Logout fm) lo_Status = Some st \<and> st_Code st \<noteq> StatusOK
                   \<longrightarrow> x = Some (protocolError ''logout'' (st_Code st) (st_Reason st)))
         else r' = r))
     \<and> (fr_Command fm \<notin> {CommandProvision, CommandUnread, CommandNotice, CommandSync, CommandLogout} \<longrightarrow> r' = r)"

lemma dispatch_meaning:
  assumes ok: "sched_ok 0 r"
  shows "frame_meaning prefer_done now fm r (dispatch prefer_done now fm r)"
proof -
  have provision: "if rn_provision r = [] then \<exists>x. login_told fm x \<and> tryProvision (provision_answer fm) r = r\<lparr>rn_provision := [x]\<rparr>
      else tryProvision (provision_answer fm) r = r"
    using provision_answer_told [of fm] by (auto simp: tryProvision_def)
  have refused: "dispatch_unread now fm r = run_fail (Some e) r" if "unread_refused fm e" for e
    using that by (auto simp: unread_refused_def dispatch_unread_def Let_def)
  have unread: "dispatch_unread now fm r = (fold startQueue (un_Queues u) r)\<lparr>rn_lastPong := now\<rparr>"
    if "fr_Unread fm = Some u" "status_ok (un_Status u)" for u
    using that by (auto simp: dispatch_unread_def status_ok_def Let_def split: option.split)
  have pong: "in_service j (x\<lparr>rn_lastPong := now\<rparr>) = in_service j x" for j x
    by (simp add: in_service_def queue_lookup_def tracked_def qobj_def)
  have served: "rn_done (fold startQueue js r) \<or> (\<forall>j \<in> set js. in_service j (fold startQueue js r))" for js
    using fold_startQueue_serves [OF ok] by blast
  have notice: "rn_done (startQueue j r) \<or> in_service j (startQueue j r)" for j using served [of "[j]"] by simp
  have view: "same_queues r (completeACK d r)" "rn_done (completeACK d r) = rn_done r"
    "cl_batches (completeACK d r) = cl_batches r" for d
    using pending_step_view [OF pending_complete [of r d]]
    by (auto simp: frame_def completeACK_def ack_send_def Let_def split: option.splits)
  have logout: "logout_answer fm = None \<longleftrightarrow> status_ok (Option.bind (fr_Logout fm) lo_Status)"
    by (auto simp: logout_answer_def status_ok_def split: option.splits)
  let ?r = "dispatch prefer_done now fm r"
  consider "fr_Command fm = CommandProvision" | "fr_Command fm = CommandUnread" | "fr_Command fm = CommandNotice"
    | "fr_Command fm = CommandSync" | "fr_Command fm = CommandLogout" | "fr_Command fm \<notin> {0, 1, 2, 3, 4}" by auto
  then show ?thesis
  proof cases
    case 1
    then have "?r = tryProvision (provision_answer fm) r" by (simp add: dispatch_def)
    then show ?thesis using 1 provision unfolding frame_meaning_def by simp
  next
    case 2
    then have d: "?r = dispatch_unread now fm r" by (simp add: dispatch_def)
    show ?thesis using 2 refused unread served unfolding frame_meaning_def d by (simp add: pong)
  next
    case 3
    then show ?thesis using notice by (simp add: frame_meaning_def dispatch_def split: option.split)
  next
    case 4
    show ?thesis
    proof (cases "fr_Sync fm")
      case (Some d)
      then have "?r = (if sy_MetaID d = 0 then handleBatch prefer_done d r else completeACK d r)"
        using 4 by (simp add: dispatch_def word_gt_0)
      then show ?thesis using 4 Some view [of d] by (simp add: frame_meaning_def completeACK_chans)
    qed (use 4 in \<open>simp add: frame_meaning_def dispatch_def\<close>)
  next
    case 5
    then have "?r = (if rn_logout r = [] then r\<lparr>rn_logout := [logout_answer fm]\<rparr> else r)" by (simp add: dispatch_def)
    moreover have "logout_answer fm = Some (protocolError ''logout'' (st_Code st) (st_Reason st))"
      if "Option.bind (fr_Logout fm) lo_Status = Some st" "st_Code st \<noteq> StatusOK" for st
      using that by (simp add: logout_answer_def)
    ultimately show ?thesis using 5 logout by (auto simp: frame_meaning_def intro!: exI [of _ "logout_answer fm"])
  next
    case 6
    then show ?thesis by (simp add: frame_meaning_def dispatch_def)
  qed
qed

text \<open>
  C25. What a frame of the server does.  While the reader is at its loop and the run is not finalized, a
  reachable connection is in a reachable state again after dispatching any frame, so every invariant of the
  scheduler survives any sequence of frames.  And each frame has its effect: a provision hands the login
  the session exactly when its status is success, a redirect with its targets and any other status as an
  error, once; an unread frame without payload or with a bad status ends the connection with that reason and
  starts nothing, any other one records the pong and leaves every queue it lists tracked and in service,
  unless the connection died of it; so does a notice for its queue; a sync frame with a message id answers
  the channel registered under that id and no other and leaves the queues alone, one without hands its batch
  to the queue; a logout is answered once, without error exactly on success; other commands change nothing.
\<close>

theorem dispatch_refines_scheduler:
  assumes "reachable sched_start sched_step s" and "sd_reader s = RdIdle" and "\<not> rn_finalized (sd_run s)"
  shows "reachable sched_start sched_step (s\<lparr>sd_run := dispatch prefer_done now fm (sd_run s)\<rparr>)
    \<and> frame_meaning prefer_done now fm (sd_run s) (dispatch prefer_done now fm (sd_run s))"
proof
  show "reachable sched_start sched_step (s\<lparr>sd_run := dispatch prefer_done now fm (sd_run s)\<rparr>)"
    using dispatch_path [OF assms(2,3)] assms(1) by (rule reachable_path)
  have "sched_ok 0 (sd_run s)"
    using queue_system.inv_reachable [OF assms(1)] assms(3) by (simp add: sched_inv_def run_ok_def)
  then show "frame_meaning prefer_done now fm (sd_run s) (dispatch prefer_done now fm (sd_run s))"
    by (rule dispatch_meaning)
qed

text \<open>A notice for a queue of a fresh connection.\<close>

definition exampleNoticeFrame :: Frame where
  "exampleNoticeFrame = \<lparr>fr_Command = CommandNotice, fr_TraceID = 0, fr_Provision = None, fr_Unread = None,
     fr_Notice = Some exampleQueue, fr_Sync = None, fr_Logout = None\<rparr>"

theorem dispatch_refines_scheduler_witness:
  "reachable sched_start sched_step (exampleStart\<lparr>sd_run := exampleNoticed\<rparr>) \<and> in_service exampleQueue exampleNoticed"
proof -
  have r: "reachable sched_start sched_step exampleStart" using exampleStart_ok by (rule reachable_start)
  have d: "dispatch True 0 exampleNoticeFrame (sd_run exampleStart) = exampleNoticed"
    by (simp add: dispatch_def exampleNoticeFrame_def exampleStart_def exampleNoticed_def)
  from dispatch_refines_scheduler [OF r, of True 0 exampleNoticeFrame] exampleNoticed_eval exampleDialed_eval
  show ?thesis unfolding d by (simp add: frame_meaning_def exampleNoticeFrame_def exampleStart_def)
qed

text \<open>A connection as \<open>dial\<close> leaves it.\<close>

definition exampleConnection :: sched where
  "exampleConnection = \<lparr>sd_run = dial_run \<lparr>cl_generation = 0, cl_lifetimeDone = False, cl_lastErr = None, cl_batches = [],
       cl_batchBudget = None, cl_clientBatchRejects = 0, cl_processBatchRejects = 0, processBatchBudget = None,
       processQueueBudget = None\<rparr> 0, sd_reader = RdIdle, sd_workers = [], sd_jobs = []\<rparr>"

section \<open>Admission to decoding\<close>

text \<open>\<open>decodeAndDispatch\<close> names the stage and tells a resource limit from a malformed frame.\<close>

definition decodeFrameError :: "go_error \<Rightarrow> go_error" where
  "decodeFrameError e =
     wrapError (if errors_Is e ErrLimitExceeded then ErrProtocolLimit else ErrProtocol) ''decode frame'' e"

text \<open>
  The readers of all connections of the process share the decode budget.  A reader waits for the socket,
  is in \<open>Acquire\<close> with the weight of its frame, decodes and dispatches a frame while it holds the weight,
  or has stopped (also: no connection yet).
\<close>

datatype reader = RsOff | RsReading | RsAcquiring bytes int64 acquire_pc | RsDecoding bytes int64

record decode_system =
  dc_budget :: byteBudget
  dc_readers :: "(reader \<times> connectionRun) list"
  dc_timeouts :: uint64

definition set_reader :: "nat \<Rightarrow> reader \<times> connectionRun \<Rightarrow> decode_system \<Rightarrow> decode_system" where
  "set_reader i x s = s\<lparr>dc_readers := (dc_readers s)[i := x]\<rparr>"

text \<open>
  An error of \<open>decodeAndDispatch\<close> ends \<open>readPump\<close>, which fails the run unless the context of the run has
  ended.  That context comes from \<open>context.Background\<close> and is cancelled by \<open>fail\<close> alone, so it has ended
  exactly when \<open>rn_done\<close> holds.
\<close>

definition read_error :: "go_error \<Rightarrow> connectionRun \<Rightarrow> connectionRun" where
  "read_error e r = (if rn_done r then r else run_fail (Some e) r)"

text \<open>The first stage: the weight, and entering \<open>Acquire\<close>.\<close>

definition decode_begin ::
  "(bytes \<Rightarrow> go_error + admission_class) option \<Rightarrow> bytes \<Rightarrow> byteBudget \<Rightarrow> connectionRun \<Rightarrow> reader \<times> connectionRun" where
  "decode_begin est data b r =
     (case decodeAdmissionWeight est data of
        Inl e \<Rightarrow> (RsOff, read_error (decodeFrameError e) r)
      | Inr w \<Rightarrow> (RsAcquiring data w (acquire_enter (Some b) False w), r))"

text \<open>
  \<open>Acquire\<close> has returned an error: when the run is over, the error of its context is returned, which
  \<open>readPump\<close> drops; otherwise it counts as a backlog.
\<close>

definition decode_refused :: "go_error \<Rightarrow> connectionRun \<Rightarrow> connectionRun" where
  "decode_refused e r =
     read_error (if rn_done r then Sentinel CtxCanceled else wrapError ErrHandlerBacklog ''decode admission'' e) r"

definition counts_timeout :: "go_error \<Rightarrow> connectionRun \<Rightarrow> bool" where
  "counts_timeout e r \<longleftrightarrow> \<not> rn_done r \<and> errors_Is e CtxDeadlineExceeded"

text \<open>The stage under the weight.\<close>

definition decode_admitted ::
  "(bytes \<Rightarrow> go_error + Frame) \<Rightarrow> bool \<Rightarrow> int64 \<Rightarrow> bytes \<Rightarrow> connectionRun \<Rightarrow> reader \<times> connectionRun" where
  "decode_admitted decode prefer_done now data r =
     (case decode data of
        Inl e \<Rightarrow> (RsOff, read_error (decodeFrameError e) r)
      | Inr fm \<Rightarrow> (RsReading, dispatch prefer_done now fm r))"

inductive decode_step ::
  "(bytes \<Rightarrow> go_error + admission_class) option \<Rightarrow> (bytes \<Rightarrow> go_error + Frame) \<Rightarrow> decode_system \<Rightarrow> decode_system \<Rightarrow> bool"
  for est :: "(bytes \<Rightarrow> go_error + admission_class) option" and decode :: "bytes \<Rightarrow> go_error + Frame" where
  dc_open: "i < length (dc_readers s) \<Longrightarrow> dc_readers s ! i = (RsOff, r) \<Longrightarrow>
    decode_step est decode s (set_reader i (RsReading, dial_run c now) s)"
| dc_elsewhere: "i < length (dc_readers s) \<Longrightarrow> dc_readers s ! i = (x, r) \<Longrightarrow>
    decode_step est decode s (set_reader i (x, r') s)"
| dc_socket: "i < length (dc_readers s) \<Longrightarrow> dc_readers s ! i = (RsReading, r) \<Longrightarrow>
    decode_step est decode s (set_reader i (RsOff, run_fail err r) s)"
| dc_read: "i < length (dc_readers s) \<Longrightarrow> dc_readers s ! i = (RsReading, r) \<Longrightarrow>
    decode_step est decode s (set_reader i (decode_begin est data (dc_budget s) r) s)"
| dc_round: "i < length (dc_readers s) \<Longrightarrow> dc_readers s ! i = (RsAcquiring data w (AcqLoop n), r) \<Longrightarrow>
    acquire_round (dc_budget s) ctx_err n = (pc, b) \<Longrightarrow>
    decode_step est decode s (set_reader i (RsAcquiring data w pc, r) (s\<lparr>dc_budget := b\<rparr>))"
| dc_wake: "i < length (dc_readers s) \<Longrightarrow> dc_readers s ! i = (RsAcquiring data w (AcqWait n ch), r) \<Longrightarrow>
    acquire_wake (dc_budget s) n ch = Some pc \<Longrightarrow>
    decode_step est decode s (set_reader i (RsAcquiring data w pc, r) s)"
| dc_cancel: "i < length (dc_readers s) \<Longrightarrow> dc_readers s ! i = (RsAcquiring data w (AcqWait n ch), r) \<Longrightarrow>
    decode_step est decode s (set_reader i (RsAcquiring data w (AcqReturn (Some e)), r) s)"
| dc_refused: "i < length (dc_readers s) \<Longrightarrow> dc_readers s ! i = (RsAcquiring data w (AcqReturn (Some e)), r) \<Longrightarrow>
    decode_step est decode s (set_reader i (RsOff, decode_refused e r)
      (if counts_timeout e r then s\<lparr>dc_timeouts := dc_timeouts s + 1\<rparr> else s))"
| dc_granted: "i < length (dc_readers s) \<Longrightarrow> dc_readers s ! i = (RsAcquiring data w (AcqReturn None), r) \<Longrightarrow>
    decode_step est decode s (set_reader i (RsDecoding data w, r) s)"
| dc_decode: "i < length (dc_readers s) \<Longrightarrow> dc_readers s ! i = (RsDecoding data w, r) \<Longrightarrow>
    releaseLocked (dc_budget s) w = (e, b) \<Longrightarrow>
    decode_step est decode s (set_reader i (decode_admitted decode prefer_done now data r) (s\<lparr>dc_budget := b\<rparr>))"

definition decode_start :: "nat \<Rightarrow> decode_system \<Rightarrow> bool" where
  "decode_start k s \<longleftrightarrow> newByteBudget processDecodeBudgetBytes = Inr (dc_budget s)
     \<and> map fst (dc_readers s) = replicate k RsOff"

text \<open>The readers as users of the budget.\<close>

fun reader_caller :: "reader \<Rightarrow> caller" where
  "reader_caller (RsAcquiring data w pc) = settle_acquire w pc"
| "reader_caller (RsDecoding data w) = CallerHolds w"
| "reader_caller _ = CallerIdle"

definition budget_view :: "decode_system \<Rightarrow> budget_sys" where
  "budget_view s = \<lparr>bs_budget = dc_budget s, bs_callers = map (reader_caller \<circ> fst) (dc_readers s)\<rparr>"

fun reader_ok :: "reader \<Rightarrow> bool" where
  "reader_ok (RsAcquiring data w pc) \<longleftrightarrow> decodeAdmissionTinyBytes \<le> w
     \<and> (case pc of AcqLoop n \<Rightarrow> n = w | AcqWait n ch \<Rightarrow> n = w | AcqReturn e \<Rightarrow> True)"
| "reader_ok (RsDecoding data w) \<longleftrightarrow> decodeAdmissionTinyBytes \<le> w"
| "reader_ok _ = True"

lemma decode_weight_min: "decodeAdmissionWeight est data = Inr w \<Longrightarrow> decodeAdmissionTinyBytes \<le> w"
  by (auto simp: decodeAdmissionWeight_def decodeAdmissionTinyBytes_def decodeAdmissionSmallBytes_def
      decodeAdmissionLargeBytes_def decodeAdmissionMaxBytes_def split: option.splits sum.splits if_splits)

lemma budget_view_set:
  "budget_view (set_reader i (x, r) s) = set_caller (budget_view s) i (reader_caller x) (dc_budget s)"
  by (simp add: budget_view_def set_reader_def set_caller_def map_update)

lemma budget_view_set_budget:
  "budget_view (set_reader i (x, r) (s\<lparr>dc_budget := b\<rparr>)) = set_caller (budget_view s) i (reader_caller x) b"
  by (simp add: budget_view_def set_reader_def set_caller_def map_update)

lemma budget_view_same:
  assumes "i < length (dc_readers s)" and "dc_readers s ! i = (x, r)" and "reader_caller y = reader_caller x"
  shows "budget_view (set_reader i (y, r') s) = budget_view s"
proof -
  have "map (reader_caller \<circ> fst) (dc_readers s) ! i = reader_caller x" using assms(1,2) by simp
  then have "(map (reader_caller \<circ> fst) (dc_readers s))[i := reader_caller x] = map (reader_caller \<circ> fst) (dc_readers s)"
    by (metis list_update_id)
  then show ?thesis using assms(3) by (simp add: budget_view_def set_reader_def map_update)
qed

lemma view_caller:
  assumes "i < length (dc_readers s)" and "dc_readers s ! i = (x, r)"
  shows "i < length (bs_callers (budget_view s))" "bs_callers (budget_view s) ! i = reader_caller x"
    "bs_budget (budget_view s) = dc_budget s"
  using assms by (simp_all add: budget_view_def)

definition readers_ok :: "decode_system \<Rightarrow> bool" where
  "readers_ok s \<longleftrightarrow> (\<forall>x \<in> set (map fst (dc_readers s)). reader_ok x)"

lemma readers_ok_set: "readers_ok s \<Longrightarrow> reader_ok x \<Longrightarrow> readers_ok (set_reader i (x, r) s)"
  using set_update_subset_insert [of "map fst (dc_readers s)" i x]
  by (auto simp: readers_ok_def set_reader_def map_update)

lemma readers_ok_at: "readers_ok s \<Longrightarrow> i < length (dc_readers s) \<Longrightarrow> dc_readers s ! i = (x, r) \<Longrightarrow> reader_ok x"
  by (force simp: readers_ok_def dest: nth_mem)

text \<open>A step of a reader is a step of the budget's users, or none.\<close>

lemma decode_step_budget:
  assumes "decode_step est decode s t" and "readers_ok s"
  shows "readers_ok t \<and> budget_step\<^sup>*\<^sup>* (budget_view s) (budget_view t)"
  using assms(1)
proof cases
  case (dc_open i r c now)
  then show ?thesis using budget_view_same [of i s RsOff r RsReading] readers_ok_set [OF assms(2)] by simp
next
  case (dc_elsewhere i x r r')
  then show ?thesis using budget_view_same [of i s x r x] readers_ok_set [OF assms(2)] readers_ok_at [OF assms(2)] by simp
next
  case (dc_socket i r err)
  then show ?thesis using budget_view_same [of i s RsReading r RsOff] readers_ok_set [OF assms(2)] by simp
next
  case (dc_read i r data)
  show ?thesis
  proof (cases "decodeAdmissionWeight est data")
    case (Inl e)
    then show ?thesis using dc_read budget_view_same [of i s RsReading r RsOff] readers_ok_set [OF assms(2)] by (simp add: decode_begin_def)
  next
    case (Inr w)
    have "reader_ok (RsAcquiring data w (acquire_enter (Some (dc_budget s)) False w))"
      using decode_weight_min [OF Inr] by (simp add: acquire_enter_def split: option.split)
    moreover have "budget_step (budget_view s) (budget_view t)"
      using step_enter [of i "budget_view s" w] view_caller [OF dc_read(2,3)] dc_read(1) Inr
      by (simp add: decode_begin_def budget_view_set)
    ultimately show ?thesis using dc_read(1) Inr readers_ok_set [OF assms(2)] by (auto simp: decode_begin_def)
  qed
next
  case (dc_round i data w n r ctx_err pc b)
  have n: "n = w" "decodeAdmissionTinyBytes \<le> w" using readers_ok_at [OF assms(2) dc_round(2,3)] by simp_all
  have "reader_ok (RsAcquiring data w pc)" using dc_round(4) n
    by (auto simp: acquire_round_def Let_def split: option.splits prod.splits sum.splits bool.splits)
  moreover have "budget_step (budget_view s) (budget_view t)"
    using step_round [of i "budget_view s" n ctx_err pc b] view_caller [OF dc_round(2,3)] dc_round(1,4) n(1)
    by (simp add: budget_view_set_budget)
  moreover have "readers_ok (s\<lparr>dc_budget := b\<rparr>)" using assms(2) by (simp add: readers_ok_def)
  ultimately show ?thesis using dc_round(1) readers_ok_set by auto
next
  case (dc_wake i data w n ch r pc)
  have n: "n = w" "decodeAdmissionTinyBytes \<le> w" using readers_ok_at [OF assms(2) dc_wake(2,3)] by simp_all
  have pc: "pc = AcqLoop n" using dc_wake(4) by (simp add: acquire_wake_def split: if_splits)
  have "budget_step (budget_view s) (budget_view t)"
    using step_wake [of i "budget_view s" n ch pc] view_caller [OF dc_wake(2,3)] dc_wake(1,4) pc by (simp add: budget_view_set)
  then show ?thesis using dc_wake(1) n pc readers_ok_set [OF assms(2)] by auto
next
  case (dc_cancel i data w n ch r e)
  have "decodeAdmissionTinyBytes \<le> w" using readers_ok_at [OF assms(2) dc_cancel(2,3)] by simp
  moreover have "budget_step (budget_view s) (budget_view t)"
    using step_cancel [of i "budget_view s" n ch] view_caller [OF dc_cancel(2,3)] dc_cancel(1) by (simp add: budget_view_set)
  ultimately show ?thesis using dc_cancel(1) readers_ok_set [OF assms(2)] by auto
next
  case (dc_refused i data w e r)
  let ?s = "if counts_timeout e r then s\<lparr>dc_timeouts := dc_timeouts s + 1\<rparr> else s"
  have "budget_view ?s = budget_view s" "readers_ok ?s" "dc_readers ?s = dc_readers s"
    using assms(2) by (simp_all add: budget_view_def readers_ok_def)
  then show ?thesis
    using dc_refused budget_view_same [of i ?s "RsAcquiring data w (AcqReturn (Some e))" r RsOff] readers_ok_set [of ?s] by simp
next
  case (dc_granted i data w r)
  then show ?thesis
    using budget_view_same [of i s "RsAcquiring data w (AcqReturn None)" r "RsDecoding data w"] readers_ok_set [OF assms(2)]
      readers_ok_at [OF assms(2) dc_granted(2,3)] by simp
next
  case (dc_decode i data w r e b prefer_done now)
  obtain x r' where x: "decode_admitted decode prefer_done now data r = (x, r')" by fastforce
  then have i: "reader_caller x = CallerIdle" "reader_ok x" by (auto simp: decode_admitted_def split: sum.splits)
  have "budget_step (budget_view s) (budget_view t)"
    using step_release [of i "budget_view s" w e b] view_caller [OF dc_decode(2,3)] dc_decode(1,4) i(1) x
    by (simp add: budget_view_set_budget)
  moreover have "readers_ok (s\<lparr>dc_budget := b\<rparr>)" using assms(2) by (simp add: readers_ok_def)
  ultimately show ?thesis using dc_decode(1) i(2) x readers_ok_set by auto
qed

definition decode_inv :: "decode_system \<Rightarrow> bool" where
  "decode_inv s \<longleftrightarrow> readers_ok s \<and> budget_inv processDecodeBudgetBytes (budget_view s)"

interpretation decode_system: inductive_invariant "decode_start k" "decode_step est decode" decode_inv for k est decode
proof
  fix s assume s: "decode_start k s"
  have "map (reader_caller \<circ> fst) (dc_readers s) = map reader_caller (map fst (dc_readers s))" by simp
  also have "\<dots> = replicate k CallerIdle" using s by (simp only: decode_start_def) simp
  finally have "budget_start processDecodeBudgetBytes k (budget_view s)"
    using s by (simp add: budget_start_def budget_view_def decode_start_def in_int64_def maxInt64_def processDecodeBudgetBytes_def)
  moreover have "readers_ok s" using s by (simp add: readers_ok_def decode_start_def del: set_map)
  ultimately show "decode_inv s" using budget_inv_start by (simp add: decode_inv_def)
next
  fix s t assume "decode_inv s" "decode_step est decode s t"
  then show "decode_inv t"
    using decode_step_budget [of est decode s t] budget_system.inv_path [of "budget_view s" "budget_view t" processDecodeBudgetBytes]
    by (simp add: decode_inv_def)
qed

fun decoding_weight :: "reader \<Rightarrow> int64" where
  "decoding_weight (RsDecoding data w) = w"
| "decoding_weight (RsAcquiring data w (AcqReturn None)) = w"
| "decoding_weight _ = 0"

lemma held_reader: "Byte_Budget.held (reader_caller x) = decoding_weight x"
  by (cases x rule: decoding_weight.cases) auto

lemma sum_at_least:
  assumes "\<And>x. x \<in> set xs \<Longrightarrow> P x \<Longrightarrow> c \<le> f x" and "\<And>x. x \<in> set xs \<Longrightarrow> 0 \<le> f x"
  shows "c * int (length (filter P xs)) \<le> sum_list (map f xs)"
  using assms
proof (induction xs)
  case (Cons x xs)
  have "c * int (length (filter P xs)) \<le> sum_list (map f xs)" using Cons by simp
  moreover have "0 \<le> f x" "P x \<Longrightarrow> c \<le> f x" using Cons(2,3) by simp_all
  ultimately show ?case by (cases "P x") (simp_all add: algebra_simps)
qed simp

text \<open>
  C26. Decoding is bounded across the process.  For any number of connections, any frames and any answers of
  the codec, the decode budget is charged with exactly the weights of the frames that are being decoded, it
  never exceeds 256 MiB, and so at most 64 frames are decoded at the same time; a frame that was decoded or
  refused has given its weight back.
\<close>

theorem decode_memory_bounded:
  assumes "reachable (decode_start k) (decode_step est decode) s"
  shows "bb_used (dc_budget s) = sum_list (map (decoding_weight \<circ> fst) (dc_readers s))
    \<and> bb_used (dc_budget s) \<le> 268435456
    \<and> length (filter (\<lambda>x. decoding_weight (fst x) \<noteq> 0) (dc_readers s)) \<le> 64"
proof -
  have i: "decode_inv s" using decode_system.inv_reachable [OF assms] .
  have "map Byte_Budget.held (bs_callers (budget_view s)) = map (decoding_weight \<circ> fst) (dc_readers s)"
    by (simp add: budget_view_def held_reader)
  moreover have "bb_used (dc_budget s) = sum_list (map Byte_Budget.held (bs_callers (budget_view s)))"
    and l: "bb_used (dc_budget s) \<le> 268435456"
    using i by (simp_all add: decode_inv_def budget_inv_def budget_view_def budget_ok_def processDecodeBudgetBytes_def)
  ultimately have u: "bb_used (dc_budget s) = sum_list (map (decoding_weight \<circ> fst) (dc_readers s))" by simp
  have ok: "reader_ok (fst x)" if "x \<in> set (dc_readers s)" for x using i that by (auto simp: decode_inv_def readers_ok_def)
  have min: "decoding_weight y = 0 \<or> 4194304 \<le> decoding_weight y" if "reader_ok y" for y
    using that by (cases y rule: decoding_weight.cases) (auto simp: decodeAdmissionTinyBytes_def)
  have "4194304 * int (length (filter (\<lambda>x. decoding_weight (fst x) \<noteq> 0) (dc_readers s)))
      \<le> sum_list (map (decoding_weight \<circ> fst) (dc_readers s))"
    using ok min by (intro sum_at_least) (fastforce)+
  then show ?thesis using u l by simp
qed

definition exampleReaders :: decode_system where
  "exampleReaders = \<lparr>dc_budget = projr (newByteBudget processDecodeBudgetBytes), dc_readers = [(RsOff, sd_run exampleConnection)],
     dc_timeouts = 0\<rparr>"

theorem decode_memory_bounded_witness:
  "reachable (decode_start 1) (decode_step None (\<lambda>d. Inl (Sentinel ErrLimitExceeded))) exampleReaders
    \<and> bb_used (dc_budget exampleReaders) = 0"
proof -
  have "decode_start 1 exampleReaders"
    by (simp add: decode_start_def exampleReaders_def newByteBudget_def processDecodeBudgetBytes_def)
  then have r: "reachable (decode_start 1) (decode_step None (\<lambda>d. Inl (Sentinel ErrLimitExceeded))) exampleReaders"
    by (rule reachable_start)
  have "bb_used (dc_budget exampleReaders) = sum_list (map (decoding_weight \<circ> fst) (dc_readers exampleReaders))"
    using decode_memory_bounded [OF r] by (rule conjunct1)
  then show ?thesis using r by (simp add: exampleReaders_def)
qed

section \<open>Heartbeat\<close>

abbreviation (input) heartbeatInterval :: int64 where "heartbeatInterval \<equiv> 120000000000"
abbreviation (input) heartbeatTimeout :: int64 where "heartbeatTimeout \<equiv> 240000000000"

text \<open>
  One tick of \<open>heartbeat\<close> at the time \<open>now\<close>: the connection fails when the last pong is too old or when the
  unread frame cannot be sent (\<open>sendErr\<close>).  The flag tells whether the loop goes on.
\<close>

definition heartbeat_tick :: "int64 \<Rightarrow> go_error option \<Rightarrow> connectionRun \<Rightarrow> bool \<times> connectionRun" where
  "heartbeat_tick now sendErr r =
     (if now - rn_lastPong r > heartbeatTimeout
      then (False, run_fail (Some (newError ErrTimeout ''heartbeat'' ''pong timeout'')) r)
      else case sendErr of Some e \<Rightarrow> (False, run_fail (Some e) r) | None \<Rightarrow> (True, r))"

text \<open>\<open>sendUnread\<close>: the frame is encoded and then sent.\<close>

definition sendUnread_result :: "go_error + bytes \<Rightarrow> (bytes \<Rightarrow> go_error option) \<Rightarrow> go_error option" where
  "sendUnread_result encoded send = (case encoded of Inl e \<Rightarrow> Some e | Inr fm \<Rightarrow> send fm)"

text \<open>
  The loop over the ticks, each with what the rest of the connection did to the run before it; the time at
  which the heartbeat failed the connection, and the run.
\<close>

fun heartbeat ::
  "(int64 \<times> (connectionRun \<Rightarrow> connectionRun) \<times> go_error option) list \<Rightarrow> connectionRun \<Rightarrow> int64 option \<times> connectionRun" where
  "heartbeat [] r = (None, r)"
| "heartbeat ((now, others, sendErr) # ticks) r =
     (if rn_done (others r) then (None, others r)
      else case heartbeat_tick now sendErr (others r) of
             (True, r1) \<Rightarrow> heartbeat ticks r1
           | (False, r1) \<Rightarrow> (Some now, r1))"

text \<open>Ticks that are never further apart than the interval, the first one at most that long after \<open>t\<close>.\<close>

fun regular :: "int64 \<Rightarrow> int64 list \<Rightarrow> bool" where
  "regular t [] \<longleftrightarrow> True"
| "regular t (u # us) \<longleftrightarrow> t < u \<and> u \<le> t + heartbeatInterval \<and> regular u us"

lemma heartbeat_silent:
  assumes "regular t (map fst ticks)" and "t \<le> pong + heartbeatTimeout"
    and "\<exists>u \<in> set (map fst ticks). pong + heartbeatTimeout < u"
    and "\<forall>x \<in> set ticks. \<forall>r. rn_lastPong r = pong \<longrightarrow> rn_lastPong (fst (snd x) r) = pong"
    and "rn_lastPong r = pong" and "heartbeat ticks r = (res, r')"
  shows "rn_done r' \<and> (\<forall>u. res = Some u \<longrightarrow> u \<le> pong + heartbeatTimeout + heartbeatInterval)"
  using assms
proof (induction ticks arbitrary: t r)
  case Nil
  then show ?case by simp
next
  case (Cons x ticks)
  obtain now others sendErr where x: "x = (now, others, sendErr)" by (cases x)
  let ?r = "others r"
  have p: "rn_lastPong ?r = pong" using Cons(5,6) x by simp
  have now: "now \<le> pong + heartbeatTimeout + heartbeatInterval" using Cons(2,3) x by simp
  show ?case
  proof (cases "rn_done ?r \<or> \<not> fst (heartbeat_tick now sendErr ?r)")
    case True
    then show ?thesis using Cons(7) now x
      by (auto simp: heartbeat_tick_def split: if_splits option.splits)
  next
    case False
    then have t: "heartbeat_tick now sendErr ?r = (True, ?r)" "now \<le> pong + heartbeatTimeout"
      using p by (auto simp: heartbeat_tick_def split: if_splits option.splits)
    then have "heartbeat ticks ?r = (res, r')" using Cons(7) False x by simp
    moreover have "regular now (map fst ticks)" "\<exists>u \<in> set (map fst ticks). pong + heartbeatTimeout < u"
      using Cons(2,4) x t(2) by auto
    ultimately show ?thesis using Cons(1) [of now ?r] t(2) Cons(5) p by simp
  qed
qed

text \<open>
  C32. A dead peer is noticed.  When no pong arrives any more and the ticks come at most two minutes apart,
  the run is over no later than six minutes after the last pong, and whatever time the heartbeat fails the
  connection at lies within those six minutes.
\<close>

theorem dead_peer_noticed:
  assumes "regular pong (map fst ticks)" and "\<exists>u \<in> set (map fst ticks). pong + heartbeatTimeout < u"
    and "\<forall>x \<in> set ticks. \<forall>r. rn_lastPong r = pong \<longrightarrow> rn_lastPong (fst (snd x) r) = pong"
    and "rn_lastPong r = pong" and "heartbeat ticks r = (res, r')"
  shows "rn_done r' \<and> (\<forall>u. res = Some u \<longrightarrow> u \<le> pong + 360000000000)"
  using heartbeat_silent [OF assms(1) _ assms(2,3,4,5)] by (simp add: algebra_simps)

theorem dead_peer_noticed_witness:
  "rn_done (snd (heartbeat [(120000000000, id, None), (240000000000, id, None), (360000000000, id, None)] (sd_run exampleConnection)))"
proof -
  let ?ticks = "[(120000000000, id, None), (240000000000, id, None), (360000000000, id, None)]"
  obtain res r' where h: "heartbeat ?ticks (sd_run exampleConnection) = (res, r')" by fastforce
  have "rn_lastPong (sd_run exampleConnection) = 0" by (simp add: exampleConnection_def dial_run_def clientShared.defs)
  from dead_peer_noticed [OF _ _ _ this h] h show ?thesis by simp
qed

end
