(* ===== verification/Client_Send.thy ===== *)
theory Client_Send
  imports Client_State Queue_Sched Message_Model
begin

text \<open>
  \<open>Send\<close> (\<open>sdk/queue.go\<close>) and the view of a client that \<open>Health\<close> gives (\<open>sdk/client.go\<close>).

  \<open>Send\<close> is cut where it waits: the preparation under no lock, the registration of the message id, the
  write of the frame, and the wait for the acknowledgement.  What the rest of the connection does meanwhile,
  and the result of the write and of the wait, come from the environment.
\<close>

section \<open>Send\<close>

datatype send_error = SendErr go_error | SendMessageErr message_error

text \<open>The checks on a snapshot of the client: the run and the user of the message.\<close>

definition Send_admit :: "client \<Rightarrow> go_error + nat \<times> string" where
  "Send_admit c =
     (if c_state c = LoginStateLogout \<or> c_state c = LoginStateLoggingIn
      then Inl (newError ErrNotLoggedIn ''send'' ''call Login successfully before Send'')
      else case c_run c of
             Some r \<Rightarrow> if c_connState c = ConnStateConnected then Inr (r, c_userID c)
                       else Inl (newError ErrNotConnected ''send'' [])
           | None \<Rightarrow> Inl (newError ErrNotConnected ''send'' []))"

text \<open>The message id: the caller's, or the next one of the client (\<open>nextMessageID\<close> without contention).\<close>

definition Send_id :: "SendRequest \<Rightarrow> client \<Rightarrow> (go_error + uint64) \<times> client" where
  "Send_id req c =
     (if rq_ClientMessageID req \<noteq> 0 then (Inr (rq_ClientMessageID req), c)
      else case nextMessageID_round (c_idCounter c) (c_idCounter c) of
             (Some res, ctr) \<Rightarrow> (res, c\<lparr>c_idCounter := ctr\<rparr>)
           | (None, ctr) \<Rightarrow> (Inl messageIDExhausted, c\<lparr>c_idCounter := ctr\<rparr>))"

text \<open>
  Everything before the registration: the run, the id, the frame, and the snapshot that \<open>OnWillSend\<close> is
  called with when it is set (\<open>willSend\<close>).
\<close>

definition Send_prepare ::
  "json_lib \<Rightarrow> codec \<Rightarrow> (Meta \<Rightarrow> go_error + bytes) \<Rightarrow> uint64 \<Rightarrow> bool \<Rightarrow> SendRequest \<Rightarrow> client
     \<Rightarrow> (send_error + nat \<times> uint64 \<times> bytes \<times> sdkMessage option) \<times> client" where
  "Send_prepare lib cd encodeSync over willSend req c =
     (case Send_admit c of Inl e \<Rightarrow> (Inl (SendErr e), c)
      | Inr (r, userID) \<Rightarrow>
          (case Send_id req c of
             (Inl e, c1) \<Rightarrow> (Inl (SendErr e), c1)
           | (Inr mid, c1) \<Rightarrow>
               let snap = (if willSend
                           then map_sum id Some (NewOutgoingMessage lib over (cfg_AppKey (c_cfg c1)) userID (cfg_Domain (c_cfg c1))
                                                   (req\<lparr>rq_ClientMessageID := mid\<rparr>))
                           else Inr None)
               in (case snap of Inl e \<Rightarrow> Inl (SendMessageErr e)
                   | Inr s \<Rightarrow>
                       (case buildSendMeta cd over (cfg_AppKey (c_cfg c1)) userID (cfg_Domain (c_cfg c1)) req mid of
                          Inl e \<Rightarrow> Inl (SendMessageErr e)
                        | Inr meta \<Rightarrow>
                            (case encodeSync meta of Inl e \<Rightarrow> Inl (SendErr e) | Inr fm \<Rightarrow> Inr (r, mid, fm, s))), c1)))"

datatype send_wait = SendAnswer ackResult | SendTimeout go_error | SendRunDone

text \<open>
  The rest on the run: registration, the write and the wait, both with what happens to the run meanwhile,
  and the deferred removal of the entry.
\<close>

definition Send_run ::
  "uint64 \<Rightarrow> (connectionRun \<Rightarrow> go_error option \<times> connectionRun) \<Rightarrow> (nat \<Rightarrow> connectionRun \<Rightarrow> send_wait \<times> connectionRun)
     \<Rightarrow> connectionRun \<Rightarrow> (go_error + SendResult) \<times> connectionRun" where
  "Send_run mid write await r =
     (case send_register mid r of
        (Inl e, r1) \<Rightarrow> (Inl e, r1)
      | (Inr ch, r1) \<Rightarrow>
          (case write r1 of
             (Some e, r2) \<Rightarrow> (Inl e, send_unregister mid r2)
           | (None, r2) \<Rightarrow>
               (case await ch r2 of (w, r3) \<Rightarrow>
                  ((case w of
                      SendAnswer (AckResult res) \<Rightarrow> Inr res
                    | SendAnswer (AckError e) \<Rightarrow> Inl e
                    | SendTimeout e \<Rightarrow> Inl (SDKErr ErrSendOutcomeUnknown ''send'' ''ACK timeout'' 0 0 (Some e))
                    | SendRunDone \<Rightarrow> Inl (newError ErrSendOutcomeUnknown ''send'' ''connection closed before ACK'')),
                   send_unregister mid r3))))"

section \<open>Health\<close>

text \<open>
  The atomic counters of the I/O goroutines that \<open>Health\<close> copies, with the budget of the decoders.
\<close>

record io_counters =
  io_lastInbound :: int64
  io_stuckHandlers :: int
  io_decodeTimeouts :: uint64
  io_processDecodeBudget :: "byteBudget option"

record HealthStatus =
  hs_Connected :: bool
  hs_SessionID :: string
  hs_LoginState :: LoginState
  hs_ConnectionGeneration :: uint64
  hs_LastInbound :: "int64 option"
  hs_WriteBacklog :: nat
  hs_QueueBacklog :: int
  hs_KnownQueues :: nat
  hs_DeferredQueues :: nat
  hs_OutstandingPulls :: nat
  hs_QueueTrackedBytes :: int64
  hs_QueueCapacityRejects :: uint64
  hs_ClientBatchBacklogBytes :: int64
  hs_ProcessBatchBacklogBytes :: int64
  hs_ProcessDecodeInFlightBytes :: int64
  hs_ClientBatchBudgetRejects :: uint64
  hs_ProcessBatchBudgetRejects :: uint64
  hs_DecodeAdmissionTimeouts :: uint64
  hs_DNSGeneration :: uint64
  hs_MSyncCandidateCount :: nat
  hs_MSyncNextCandidate :: nat
  hs_CallbackEventsDropped :: uint64
  hs_TerminalCallbackPending :: bool
  hs_LastError :: string
  hs_TokenExpiresAt :: "int option"
  hs_StuckHandlers :: int

text \<open>
  \<open>Health\<close> of a client whose run number \<open>r\<close> has the write backlog and the scheduler state \<open>runs r\<close>; without
  a run those numbers are zero.
\<close>

definition Health :: "io_counters \<Rightarrow> (nat \<Rightarrow> nat \<times> connectionRun) \<Rightarrow> client \<Rightarrow> HealthStatus" where
  "Health io runs c =
     (let (backlog, active, known, deferred, pulls, tracked, rejects) =
            (case c_run c of None \<Rightarrow> (0, 0, 0, 0, 0, 0, 0) | Some r \<Rightarrow> (fst (runs r), queueHealth (snd (runs r))))
      in \<lparr>hs_Connected = (c_connState c = ConnStateConnected), hs_SessionID = c_sessionID c, hs_LoginState = c_state c,
          hs_ConnectionGeneration = cl_generation c,
          hs_LastInbound = (if 0 < io_lastInbound io then Some (io_lastInbound io) else None),
          hs_WriteBacklog = backlog, hs_QueueBacklog = active, hs_KnownQueues = known, hs_DeferredQueues = deferred,
          hs_OutstandingPulls = pulls, hs_QueueTrackedBytes = tracked, hs_QueueCapacityRejects = rejects,
          hs_ClientBatchBacklogBytes = Used (cl_batchBudget c), hs_ProcessBatchBacklogBytes = Used (processBatchBudget c),
          hs_ProcessDecodeInFlightBytes = Used (io_processDecodeBudget io),
          hs_ClientBatchBudgetRejects = cl_clientBatchRejects c, hs_ProcessBatchBudgetRejects = cl_processBatchRejects c,
          hs_DecodeAdmissionTimeouts = io_decodeTimeouts io,
          hs_DNSGeneration = c_dnsGeneration c, hs_MSyncCandidateCount = length (c_msyncHosts c),
          hs_MSyncNextCandidate = c_msyncCursor c, hs_CallbackEventsDropped = c_callbackDrops c,
          hs_TerminalCallbackPending = (c_terminalCallback c \<noteq> None),
          hs_LastError = (case cl_lastErr c of None \<Rightarrow> [] | Some e \<Rightarrow> error_text e), hs_TokenExpiresAt = c_tokenExpiresAt c,
          hs_StuckHandlers = io_stuckHandlers io\<rparr>)"

section \<open>Facts\<close>

lemma Send_id_cases:
  assumes "Send_id req c = (Inr mid, c1)"
  shows "mid \<noteq> 0" and "\<exists>ctr. c1 = c\<lparr>c_idCounter := ctr\<rparr>" and "rq_ClientMessageID req \<noteq> 0 \<Longrightarrow> mid = rq_ClientMessageID req \<and> c1 = c"
proof -
  have "mid \<noteq> 0 \<and> (\<exists>ctr. c1 = c\<lparr>c_idCounter := ctr\<rparr>) \<and> (rq_ClientMessageID req \<noteq> 0 \<longrightarrow> mid = rq_ClientMessageID req \<and> c1 = c)"
  proof (cases "rq_ClientMessageID req = 0")
    case False
    then have "mid = rq_ClientMessageID req" "c1 = c" using assms by (simp_all add: Send_id_def)
    moreover have "c = c\<lparr>c_idCounter := c_idCounter c\<rparr>" by simp
    ultimately show ?thesis using False by metis
  next
    case True
    then have "c_idCounter c \<noteq> - 1" "mid = c_idCounter c + 1" "c1 = c\<lparr>c_idCounter := c_idCounter c + 1\<rparr>"
      using assms by (auto simp: Send_id_def nextMessageID_round_def Let_def split: if_splits)
    moreover have "c_idCounter c + 1 \<noteq> 0" using calculation(1) by (simp add: add_eq_0_iff2)
    ultimately show ?thesis using True by auto
  qed
  then show "mid \<noteq> 0" "\<exists>ctr. c1 = c\<lparr>c_idCounter := ctr\<rparr>" "rq_ClientMessageID req \<noteq> 0 \<Longrightarrow> mid = rq_ClientMessageID req \<and> c1 = c"
    by blast+
qed

text \<open>
  What \<open>Send\<close> puts on the wire.  A message gets as far as a frame only when the client is logged in and
  connected with a run; its id is the caller's or a fresh one, never zero; the snapshot that \<open>OnWillSend\<close>
  saw carries that same id; and nothing of the client changes but the id counter.
\<close>

lemma send_prepares_one_message:
  assumes "Send_prepare lib cd encodeSync over willSend req c = (Inr (r, mid, fm, snap), c1)"
  shows "c_run c = Some r \<and> c_connState c = ConnStateConnected \<and> c_state c \<in> {LoginStateLoggedIn, LoginStateReconnecting}
    \<and> mid \<noteq> 0 \<and> (rq_ClientMessageID req \<noteq> 0 \<longrightarrow> mid = rq_ClientMessageID req)
    \<and> (\<exists>ctr. c1 = c\<lparr>c_idCounter := ctr\<rparr>)
    \<and> (\<exists>meta. encodeSync meta = Inr fm \<and> me_ID meta = mid)
    \<and> (if willSend then \<exists>m. snap = Some m \<and> ms_MetaID m = mid else snap = None)"
proof -
  obtain userID where a: "Send_admit c = Inr (r, userID)"
    using assms by (auto simp: Send_prepare_def Let_def split: sum.splits prod.splits)
  obtain mid' c1' where i: "Send_id req c = (Inr mid', c1')"
    using assms a by (cases "Send_id req c"; cases "fst (Send_id req c)") (auto simp: Send_prepare_def)
  let ?snap = "if willSend then map_sum id Some (NewOutgoingMessage lib over (cfg_AppKey (c_cfg c1')) userID (cfg_Domain (c_cfg c1'))
      (req\<lparr>rq_ClientMessageID := mid'\<rparr>)) else Inr None"
  have p: "(case ?snap of Inl e \<Rightarrow> Inl (SendMessageErr e)
      | Inr s \<Rightarrow> (case buildSendMeta cd over (cfg_AppKey (c_cfg c1')) userID (cfg_Domain (c_cfg c1')) req mid' of
            Inl e \<Rightarrow> Inl (SendMessageErr e)
          | Inr meta \<Rightarrow> (case encodeSync meta of Inl e \<Rightarrow> Inl (SendErr e) | Inr fm \<Rightarrow> Inr (r, mid', fm, s))))
      = Inr (r, mid, fm, snap)" and c1: "c1' = c1"
    using assms a i by (simp_all add: Send_prepare_def Let_def)
  obtain s where s: "?snap = Inr s" using p by (cases ?snap) simp_all
  obtain meta where m: "buildSendMeta cd over (cfg_AppKey (c_cfg c1')) userID (cfg_Domain (c_cfg c1')) req mid' = Inr meta"
    using p s by (cases "buildSendMeta cd over (cfg_AppKey (c_cfg c1')) userID (cfg_Domain (c_cfg c1')) req mid'") simp_all
  have f: "encodeSync meta = Inr fm" "mid' = mid" "snap = s" using p s m by (auto split: sum.splits)
  have "me_ID meta = mid" using m f(2)
    by (auto simp: buildSendMeta_def buildOutgoingMeta_def split: if_splits sum.splits)
  moreover have "if willSend then \<exists>m. snap = Some m \<and> ms_MetaID m = mid else snap = None"
  proof (cases willSend)
    case True
    then obtain msg where "NewOutgoingMessage lib over (cfg_AppKey (c_cfg c1')) userID (cfg_Domain (c_cfg c1'))
        (req\<lparr>rq_ClientMessageID := mid'\<rparr>) = Inr msg" "s = Some msg"
      using s by (cases "NewOutgoingMessage lib over (cfg_AppKey (c_cfg c1')) userID (cfg_Domain (c_cfg c1'))
        (req\<lparr>rq_ClientMessageID := mid'\<rparr>)") auto
    moreover have "ms_MetaID msg = mid'" using calculation(1)
      by (auto simp: NewOutgoingMessage_def messageFromProtocol_def split: if_splits sum.splits)
    ultimately show ?thesis using True f by simp
  qed (use s f in simp)
  moreover have "c_run c = Some r" "c_connState c = ConnStateConnected" "c_state c \<in> {LoginStateLoggedIn, LoginStateReconnecting}"
    using a by (cases "c_state c"; auto simp: Send_admit_def split: option.splits if_splits)+
  ultimately show ?thesis using Send_id_cases [OF i] f c1 by blast
qed

end
