(* ===== verification/REST.thy ===== *)
theory REST
  imports Client_State Message_Model Envelope
begin

text \<open>
  The REST calls of a client (\<open>sdk/rest.go\<close>): the request each API method builds, \<open>doREST\<close> that sends it and
  classifies the answer, the bounded read of the body, and the observers (\<open>RESTErrorHandler\<close>, \<open>Telemetry\<close>).

  The HTTP client, \<open>url.Parse\<close>, the text level of \<open>encoding/json\<close>, \<open>http.ParseTime\<close> and the clock are
  parameters.  What a call did is recorded in its outcome: the result, the request that went out, and what
  the observers were told.  \<open>doREST\<close> reads the login state, the REST base and the token in one critical
  section; the two methods that also use the user id read it in a section of its own just before, and the
  model takes all four from the same state of the client.
\<close>

section \<open>Data\<close>

abbreviation (input) defaultRESTBodyMaxBytes :: nat where "defaultRESTBodyMaxBytes \<equiv> 4194304"

type_synonym http_header = "(string \<times> string list) list"

record Response =
  rs_StatusCode :: int
  rs_Header :: http_header
  rs_Body :: bytes

record APIError =
  ae_Response :: "Response option"
  ae_ServiceCode :: string
  ae_RequestID :: string
  ae_RetryAfter :: int64
  ae_Cause :: "go_error option"

datatype rest_error = RestErr go_error | RestAPI APIError

definition join_words :: "string list \<Rightarrow> string" where
  "join_words ws = (case ws of [] \<Rightarrow> [] | w # rest \<Rightarrow> w @ concat (map (\<lambda>x. '' '' @ x) rest))"

definition APIError_Error :: "APIError \<Rightarrow> string" where
  "APIError_Error e =
     join_words ([''REST API request failed'']
       @ (case ae_Response e of None \<Rightarrow> [] | Some r \<Rightarrow> [''status='' @ itoa (rs_StatusCode r)])
       @ (if ae_ServiceCode e \<noteq> [] then [''service_code='' @ ae_ServiceCode e] else [])
       @ (if ae_RequestID e \<noteq> [] then [''request_id='' @ ae_RequestID e] else [])
       @ (case ae_Cause e of None \<Rightarrow> [] | Some c \<Rightarrow> [''cause='' @ error_text c]))"

fun APIError_Unwrap :: "APIError option \<Rightarrow> go_error option" where
  "APIError_Unwrap None = None"
| "APIError_Unwrap (Some e) = ae_Cause e"

fun rest_error_text :: "rest_error \<Rightarrow> string" where
  "rest_error_text (RestErr e) = error_text e"
| "rest_error_text (RestAPI e) = APIError_Error e"

definition errorString :: "rest_error option \<Rightarrow> string" where
  "errorString e = (case e of None \<Rightarrow> [] | Some x \<Rightarrow> rest_error_text x)"

record RESTErrorInfo =
  ri_Operation :: string
  ri_Method :: string
  ri_URL :: string
  ri_Status :: int
  ri_RequestID :: string
  ri_ServiceCode :: string
  ri_Err :: "rest_error option"

record TelemetryEvent =
  te_Operation :: string
  te_Attempt :: int
  te_Duration :: int64
  te_StatusCode :: int
  te_ServiceCode :: string
  te_Error :: string
  te_Generation :: uint64
  te_Queue :: string
  te_Backlog :: int

record http_request =
  hr_Method :: string
  hr_URL :: string
  hr_Header :: "(string \<times> string) list"
  hr_Body :: "bytes option"

record http_response =
  hp_StatusCode :: int
  hp_Header :: http_header
  hp_Body :: "bytes \<times> go_error option"

record rest_env =
  re_url :: url_lib
  re_newRequest :: "string \<Rightarrow> string \<Rightarrow> go_error option"
  re_do :: "http_request \<Rightarrow> go_error + http_response"
  re_json :: json_lib
  re_marshal :: "json \<Rightarrow> bytes"
  re_formatFloat :: "float64 \<Rightarrow> string"
  re_parseTime :: "string \<Rightarrow> int64 option"
  re_now :: int64
  re_duration :: int64
  re_handler :: bool
  re_telemetry :: bool

record rest_outcome =
  ro_Response :: "Response option"
  ro_Err :: "rest_error option"
  ro_Sent :: "http_request list"
  ro_Notified :: "RESTErrorInfo list"
  ro_Recorded :: "TelemetryEvent list"

section \<open>Reading the answer\<close>

definition readBoundedResponse :: "bytes \<times> go_error option \<Rightarrow> nat \<Rightarrow> bytes \<times> go_error option" where
  "readBoundedResponse reader limit =
     (case readAllLimited (limit + 1) reader of
        (body, Some e) \<Rightarrow> (body, Some (wrapf ''read REST response'' e))
      | (body, None) \<Rightarrow>
          if length body > limit
          then (take limit body, Some (errorf (''REST response body exceeds '' @ itoa (int limit) @ '' bytes'')))
          else (body, None))"

text \<open>\<open>http.Header.Get\<close> looks the canonical form of the name up.\<close>

definition to_upper_char :: "char \<Rightarrow> char" where
  "to_upper_char c = (let n = (of_char c :: nat) in if 97 \<le> n \<and> n \<le> 122 then char_of (n - 32) else c)"

fun canonical_key :: "bool \<Rightarrow> string \<Rightarrow> string" where
  "canonical_key upper [] = []"
| "canonical_key upper (c # cs) =
     (if upper then to_upper_char c else to_lower_char c) # canonical_key (c = CHR ''-'') cs"

definition header_Get :: "http_header \<Rightarrow> string \<Rightarrow> string" where
  "header_Get h name = (case map_of h (canonical_key True name) of Some (v # vs) \<Rightarrow> v | _ \<Rightarrow> [])"

fun first_header :: "http_header \<Rightarrow> string list \<Rightarrow> string" where
  "first_header h [] = []"
| "first_header h (n # ns) = (if header_Get h n \<noteq> [] then header_Get h n else first_header h ns)"

definition requestID :: "http_header \<Rightarrow> string" where
  "requestID h = first_header h [''X-Request-Id'', ''X-Request-ID'', ''Request-Id'', ''Request-ID'']"

text \<open>
  \<open>json.Unmarshal\<close> into \<open>map[string]any\<close>: an object, or null for the nil map, all of whose numbers are in the
  range of \<open>float64\<close>.  The last of several members with the same key counts.
\<close>

fun numbers_ok :: "json_lib \<Rightarrow> json \<Rightarrow> bool" where
  "numbers_ok jl (JsNumber n) = (jl_parseFloat jl n \<noteq> None)"
| "numbers_ok jl (JsArray xs) = list_all (numbers_ok jl) xs"
| "numbers_ok jl (JsObject ms) = list_all (\<lambda>m. numbers_ok jl (snd m)) ms"
| "numbers_ok jl _ = True"

fun service_code_value :: "rest_env \<Rightarrow> json option \<Rightarrow> string option" where
  "service_code_value env (Some (JsString s)) = Some s"
| "service_code_value env (Some (JsNumber n)) = map_option (re_formatFloat env) (jl_parseFloat (re_json env) n)"
| "service_code_value env _ = None"

fun first_code :: "rest_env \<Rightarrow> (string \<times> json) list \<Rightarrow> string list \<Rightarrow> string" where
  "first_code env payload [] = []"
| "first_code env payload (k # ks) =
     (case service_code_value env (map_of (rev payload) k) of Some s \<Rightarrow> s | None \<Rightarrow> first_code env payload ks)"

definition serviceCodeFromResponse :: "rest_env \<Rightarrow> bytes \<Rightarrow> string" where
  "serviceCodeFromResponse env body =
     (case jl_parse (re_json env) body of
        Some (JsObject payload) \<Rightarrow>
          if numbers_ok (re_json env) (JsObject payload) then first_code env payload [''error_code'', ''code'', ''error'']
          else []
      | _ \<Rightarrow> [])"

text \<open>\<open>time.Duration(seconds) * time.Second\<close> is a product of \<open>int64\<close>; \<open>Time.Sub\<close> saturates.\<close>

definition parseRetryAfter :: "(string \<Rightarrow> int64 option) \<Rightarrow> string \<Rightarrow> int64 \<Rightarrow> int64" where
  "parseRetryAfter parseTime value0 now =
     (let value = trimSpace value0
      in if value = [] then 0
         else case atoi value of
                Some seconds \<Rightarrow> if seconds \<le> 0 then 0 else wrap64 (seconds * 1000000000)
              | None \<Rightarrow>
                  (case parseTime value of None \<Rightarrow> 0
                   | Some w \<Rightarrow> if w \<le> now then 0 else min (w - now) maxInt64))"

section \<open>doREST\<close>

definition userAgent :: string where "userAgent = ''goIMSDK/5.0''"

definition notifyRESTError :: "rest_env \<Rightarrow> RESTErrorInfo \<Rightarrow> RESTErrorInfo list" where
  "notifyRESTError env info = (if ri_Err info = None \<or> \<not> re_handler env then [] else [info])"

definition recordRESTTelemetry :: "rest_env \<Rightarrow> string \<Rightarrow> int \<Rightarrow> string \<Rightarrow> rest_error option \<Rightarrow> TelemetryEvent list" where
  "recordRESTTelemetry env operation statusCode serviceCode err =
     (if \<not> re_telemetry env then []
      else [\<lparr>te_Operation = operation, te_Attempt = 1, te_Duration = re_duration env, te_StatusCode = statusCode,
             te_ServiceCode = serviceCode, te_Error = errorString err, te_Generation = 0, te_Queue = [], te_Backlog = 0\<rparr>])"

text \<open>A call that ends before anything was sent.\<close>

definition not_sent :: "rest_env \<Rightarrow> string \<Rightarrow> rest_error \<Rightarrow> rest_outcome" where
  "not_sent env operation e =
     \<lparr>ro_Response = None, ro_Err = Some e, ro_Sent = [], ro_Notified = [],
      ro_Recorded = recordRESTTelemetry env operation 0 [] (Some e)\<rparr>"

text \<open>What is made of an HTTP response.\<close>

definition classify_response ::
  "rest_env \<Rightarrow> string \<Rightarrow> http_request \<Rightarrow> (int \<Rightarrow> string) \<Rightarrow> http_response \<Rightarrow> rest_outcome" where
  "classify_response env operation req mapCode hp =
     (let status = hp_StatusCode hp;
          (body, readErr) = readBoundedResponse (hp_Body hp) defaultRESTBodyMaxBytes;
          response = \<lparr>rs_StatusCode = status, rs_Header = hp_Header hp, rs_Body = body\<rparr>;
          rid = requestID (hp_Header hp);
          finish = (\<lambda>serviceCode err.
            \<lparr>ro_Response = Some response, ro_Err = err, ro_Sent = [req],
             ro_Notified = notifyRESTError env \<lparr>ri_Operation = operation, ri_Method = hr_Method req, ri_URL = hr_URL req,
               ri_Status = status, ri_RequestID = rid, ri_ServiceCode = serviceCode, ri_Err = err\<rparr>,
             ro_Recorded = recordRESTTelemetry env operation status serviceCode err\<rparr>)
      in case readErr of
           Some e \<Rightarrow>
             finish [] (Some (RestAPI \<lparr>ae_Response = Some response, ae_ServiceCode = [], ae_RequestID = rid, ae_RetryAfter = 0,
                                      ae_Cause = Some e\<rparr>))
         | None \<Rightarrow>
             if 200 \<le> status \<and> status < 300 then finish [] None
             else
               let serviceCode = (if mapCode status \<noteq> [] then mapCode status else serviceCodeFromResponse env body)
               in finish serviceCode
                    (Some (RestAPI \<lparr>ae_Response = Some response, ae_ServiceCode = serviceCode, ae_RequestID = rid,
                       ae_RetryAfter = parseRetryAfter (re_parseTime env) (header_Get (hp_Header hp) ''Retry-After'') (re_now env),
                       ae_Cause = None\<rparr>)))"

definition doREST ::
  "rest_env \<Rightarrow> client \<Rightarrow> string \<Rightarrow> string \<Rightarrow> string \<Rightarrow> string \<Rightarrow> bytes option \<Rightarrow> string \<Rightarrow> (int \<Rightarrow> string) \<Rightarrow> rest_outcome" where
  "doREST env c operation method path rawQuery body contentType mapCode =
     (if c_state c = LoginStateLogout \<or> c_state c = LoginStateLoggingIn \<or> c_restBase c = []
      then not_sent env operation (RestErr (newError ErrNotLoggedIn operation ''REST requires a successful login''))
      else case ul_Parse (re_url env) (c_restBase c) of
             Inl e \<Rightarrow> not_sent env operation (RestErr (wrapf ''parse REST base URL'' e))
           | Inr base \<Rightarrow>
               let endpoint = trimRightSet ''/'' (ul_String (re_url env) base) @ path
                              @ (if rawQuery \<noteq> [] then ''?'' @ rawQuery else [])
               in case re_newRequest env method endpoint of
                    Some e \<Rightarrow> not_sent env operation (RestErr (wrapf ''create REST request'' e))
                  | None \<Rightarrow>
                      let req = \<lparr>hr_Method = method, hr_URL = endpoint,
                                 hr_Header = [(''Authorization'', ''Bearer '' @ c_token c), (''Accept'', ''application/json''),
                                              (''User-Agent'', userAgent)]
                                   @ (if contentType \<noteq> [] then [(''Content-Type'', contentType)] else []),
                                 hr_Body = body\<rparr>
                      in case re_do env req of
                           Inl e \<Rightarrow>
                             let err = Some (RestErr (wrapf ''execute REST request'' e))
                             in \<lparr>ro_Response = None, ro_Err = err, ro_Sent = [req],
                                 ro_Notified = notifyRESTError env \<lparr>ri_Operation = operation, ri_Method = method, ri_URL = endpoint,
                                   ri_Status = 0, ri_RequestID = [], ri_ServiceCode = [], ri_Err = err\<rparr>,
                                 ro_Recorded = recordRESTTelemetry env operation 0 [] err\<rparr>
                         | Inr hp \<Rightarrow> classify_response env operation req mapCode hp)"

section \<open>The API\<close>

text \<open>\<open>url.PathEscape\<close> and \<open>url.QueryEscape\<close>, and \<open>Values.Encode\<close>, which sorts by key.\<close>

definition segmentSafe :: "char \<Rightarrow> bool" where
  "segmentSafe c \<longleftrightarrow> is_alnum c \<or> c \<in> set ''-_.~$&+:=@''"

definition PathEscape :: "string \<Rightarrow> string" where
  "PathEscape s = escape segmentSafe s"

definition querySafe :: "char \<Rightarrow> bool" where
  "querySafe c \<longleftrightarrow> is_alnum c \<or> c \<in> set ''-_.~''"

definition QueryEscape :: "string \<Rightarrow> string" where
  "QueryEscape s = concat (map (\<lambda>c. if c = CHR '' '' then ''+'' else escape querySafe [c]) s)"

definition form_pair :: "string \<times> string \<Rightarrow> string" where
  "form_pair p = QueryEscape (fst p) @ ''='' @ QueryEscape (snd p)"

definition join_amp :: "string list \<Rightarrow> string" where
  "join_amp ws = (case ws of [] \<Rightarrow> [] | w # rest \<Rightarrow> w @ concat (map (\<lambda>x. ''&'' @ x) rest))"

definition values_Encode :: "(string \<times> string) list \<Rightarrow> string" where
  "values_Encode kvs = join_amp (map form_pair (sort_key fst kvs))"

definition to_bytes :: "string \<Rightarrow> bytes" where
  "to_bytes s = map of_char s"

definition resourceQuery :: "client \<Rightarrow> string" where
  "resourceQuery c = values_Encode [(''version'', ''v3''), (''resource'', cfg_Resource (c_cfg c))]"

definition userInfoServiceCode :: "int \<Rightarrow> string" where
  "userInfoServiceCode status =
     (if status = 404 then ''USER_NOT_FOUND'' else if status = 401 then ''AUTH_FAILED''
      else if status = 403 then ''DATALENGTH_EXCEED'' else if status = 429 then ''EXCEED_SERVICE_LIMIT'' else [])"

definition fetchUserInfoServiceCode :: "int \<Rightarrow> string" where
  "fetchUserInfoServiceCode status =
     (if status = 404 then ''USER_NOT_FOUND'' else if status = 401 then ''AUTH_FAILED''
      else if status = 400 then ''USERCOUNT_EXCEED'' else if status = 429 then ''EXCEED_SERVICE_LIMIT'' else [])"

definition genericServiceCode :: "int \<Rightarrow> string" where
  "genericServiceCode status = []"

text \<open>A map argument is an association list with distinct keys.\<close>

definition UpdateOwnUserInfo :: "rest_env \<Rightarrow> client \<Rightarrow> (string \<times> string) list \<Rightarrow> rest_outcome" where
  "UpdateOwnUserInfo env c attrs =
     doREST env c ''update_own_user_info'' ''PUT'' (''/metadata/user/'' @ PathEscape (c_userID c)) []
       (Some (to_bytes (values_Encode attrs))) ''application/x-www-form-urlencoded'' userInfoServiceCode"

definition UserInfoField_valid :: "string \<Rightarrow> bool" where
  "UserInfoField_valid f \<longleftrightarrow> f \<in> {''nickname'', ''avatarurl'', ''phone'', ''mail'', ''gender'', ''sign'', ''birth'', ''ext''}"

text \<open>An unsupported field is refused without touching \<open>doREST\<close>, telemetry included.\<close>

definition UpdateOwnUserInfoField :: "rest_env \<Rightarrow> client \<Rightarrow> string \<Rightarrow> string \<Rightarrow> rest_outcome" where
  "UpdateOwnUserInfoField env c field val =
     (if \<not> UserInfoField_valid field
      then \<lparr>ro_Response = None, ro_Err = Some (RestErr (errorf (''unsupported user info field '' @ [CHR 0x22] @ field @ [CHR 0x22]))), ro_Sent = [],
            ro_Notified = [], ro_Recorded = []\<rparr>
      else UpdateOwnUserInfo env c [(field, val)])"

text \<open>A nil slice is marshalled as null.\<close>

definition js_strings :: "string list option \<Rightarrow> json" where
  "js_strings xs = (case xs of None \<Rightarrow> JsNull | Some ss \<Rightarrow> JsArray (map js_str ss))"

definition FetchUserInfo :: "rest_env \<Rightarrow> client \<Rightarrow> string list option \<Rightarrow> string list option \<Rightarrow> rest_outcome" where
  "FetchUserInfo env c users properties =
     doREST env c ''fetch_user_info'' ''POST'' ''/metadata/user/get'' []
       (Some (re_marshal env (JsObject [(''targets'', js_strings users), (''properties'', js_strings properties)])))
       ''application/json'' fetchUserInfoServiceCode"

record CreatePublicGroupOptions =
  go_AllowInvites :: "bool option"
  go_InviteNeedConfirm :: "bool option"
  go_MaxUsers :: int
  go_Description :: string
  go_Welcome :: string
  go_Members :: "string list"

definition group_document :: "string \<Rightarrow> string \<Rightarrow> CreatePublicGroupOptions \<Rightarrow> json" where
  "group_document owner name opt =
     JsObject ([(''name'', js_str name), (''description'', js_str (go_Description opt)), (''owner'', js_str owner),
        (''public'', JsBool True), (''memberonly'', JsBool False),
        (''allowinvites'', JsBool (case go_AllowInvites opt of Some b \<Rightarrow> b | None \<Rightarrow> True)),
        (''invite_need_confirm'', JsBool (case go_InviteNeedConfirm opt of Some b \<Rightarrow> b | None \<Rightarrow> False)),
        (''maxusers'', js_int (if go_MaxUsers opt \<le> 0 then 200 else go_MaxUsers opt))]
       @ (if go_Welcome opt \<noteq> [] then [(''welcome'', js_str (go_Welcome opt))] else [])
       @ (if go_Members opt \<noteq> [] then [(''members'', JsArray (map js_str (go_Members opt)))] else []))"

definition CreatePublicGroup :: "rest_env \<Rightarrow> client \<Rightarrow> string \<Rightarrow> CreatePublicGroupOptions \<Rightarrow> rest_outcome" where
  "CreatePublicGroup env c name opt =
     doREST env c ''create_public_group'' ''POST'' ''/chatgroups'' (resourceQuery c)
       (Some (re_marshal env (group_document (c_userID c) name opt))) ''application/json'' genericServiceCode"

definition responseErrorFields :: "Response option \<Rightarrow> rest_error option \<Rightarrow> int \<times> string" where
  "responseErrorFields response err =
     ((case response of None \<Rightarrow> 0 | Some r \<Rightarrow> rs_StatusCode r),
      (case err of Some (RestAPI e) \<Rightarrow> ae_ServiceCode e | _ \<Rightarrow> []))"

definition JoinPublicGroup :: "rest_env \<Rightarrow> client \<Rightarrow> string \<Rightarrow> rest_outcome" where
  "JoinPublicGroup env c groupID =
     (let o1 = doREST env c ''join_public_group_request'' ''POST'' (''/chatgroups/'' @ PathEscape groupID @ ''/apply'')
                 (resourceQuery c) None [] genericServiceCode;
          (statusCode, serviceCode) = responseErrorFields (ro_Response o1) (ro_Err o1)
      in o1\<lparr>ro_Recorded := ro_Recorded o1 @ recordRESTTelemetry env ''join_public_group'' statusCode serviceCode (ro_Err o1)\<rparr>)"

definition LeaveGroup :: "rest_env \<Rightarrow> client \<Rightarrow> string \<Rightarrow> rest_outcome" where
  "LeaveGroup env c groupID =
     doREST env c ''leave_group'' ''DELETE'' (''/chatgroups/'' @ PathEscape groupID @ ''/quit'') (resourceQuery c) None []
       genericServiceCode"

end
