(* ===== verification/REST_Properties.thy ===== *)
theory REST_Properties
  imports REST
begin

text \<open>
  Properties of the REST calls: what a call may send, report and return; the escaping of caller-supplied
  identifiers and form values; and the overflow of \<open>Retry-After\<close>.
\<close>

section \<open>Bounded responses\<close>

lemma readBoundedResponse_bounded: "length (fst (readBoundedResponse reader limit)) \<le> limit"
  by (auto simp: readBoundedResponse_def readAllLimited_def split: if_splits option.splits prod.splits)

lemma readBoundedResponse_complete:
  "snd (readBoundedResponse reader limit) = None \<longleftrightarrow> snd reader = None \<and> length (fst reader) \<le> limit"
  "snd (readBoundedResponse reader limit) = None \<Longrightarrow> fst (readBoundedResponse reader limit) = fst reader"
  by (cases reader; auto simp: readBoundedResponse_def readAllLimited_def split: if_splits option.splits)+

section \<open>One call\<close>

text \<open>What a call tells the observers, given what it returned.\<close>

definition observed :: "rest_env \<Rightarrow> string \<Rightarrow> rest_outcome \<Rightarrow> bool" where
  "observed env operation ro \<longleftrightarrow>
     map ri_Err (ro_Notified ro) = (if re_handler env \<and> ro_Sent ro \<noteq> [] \<and> ro_Err ro \<noteq> None then [ro_Err ro] else [])
     \<and> map te_Error (ro_Recorded ro) = (if re_telemetry env then [errorString (ro_Err ro)] else [])
     \<and> list_all (\<lambda>e. te_Operation e = operation
          \<and> te_StatusCode e = (case ro_Response ro of None \<Rightarrow> 0 | Some r \<Rightarrow> rs_StatusCode r)) (ro_Recorded ro)"

text \<open>What a call returned, given the answer to its request.\<close>

definition answered :: "rest_env \<Rightarrow> http_request \<Rightarrow> rest_outcome \<Rightarrow> bool" where
  "answered env req ro \<longleftrightarrow>
     (case re_do env req of
        Inl e \<Rightarrow> ro_Response ro = None \<and> ro_Err ro \<noteq> None
      | Inr hp \<Rightarrow>
          (\<exists>r. ro_Response ro = Some r \<and> rs_StatusCode r = hp_StatusCode hp \<and> length (rs_Body r) \<le> defaultRESTBodyMaxBytes
            \<and> (ro_Err ro = None \<longleftrightarrow> 200 \<le> rs_StatusCode r \<and> rs_StatusCode r < 300 \<and> snd (hp_Body hp) = None
                 \<and> rs_Body r = fst (hp_Body hp))))"

lemma body_complete_iff:
  assumes "readBoundedResponse stream limit = (body, e)"
  shows "e = None \<longleftrightarrow> snd stream = None \<and> body = fst stream" and "length body \<le> limit"
proof -
  show l: "length body \<le> limit" using readBoundedResponse_bounded [of stream limit] assms by simp
  show "e = None \<longleftrightarrow> snd stream = None \<and> body = fst stream"
    using readBoundedResponse_complete [of stream limit] assms l by auto
qed

lemma classify_response_contract:
  assumes "re_do env req = Inr hp"
  shows "observed env operation (classify_response env operation req mapCode hp)"
    "answered env req (classify_response env operation req mapCode hp)"
    "ro_Sent (classify_response env operation req mapCode hp) = [req]"
proof -
  obtain body e where b: "readBoundedResponse (hp_Body hp) defaultRESTBodyMaxBytes = (body, e)"
    by (cases "readBoundedResponse (hp_Body hp) defaultRESTBodyMaxBytes")
  note c = body_complete_iff [OF b]
  show "observed env operation (classify_response env operation req mapCode hp)"
    "ro_Sent (classify_response env operation req mapCode hp) = [req]"
    by (cases e; simp add: classify_response_def b Let_def observed_def notifyRESTError_def recordRESTTelemetry_def)+
  show "answered env req (classify_response env operation req mapCode hp)"
    using c by (cases e) (auto simp: classify_response_def b Let_def answered_def assms)
qed

lemma doREST_contract:
  fixes env c operation verb route rawQuery body contentType mapCode
  defines "ro \<equiv> doREST env c operation verb route rawQuery body contentType mapCode"
  shows "observed env operation ro
    \<and> (case ro_Sent ro of [] \<Rightarrow> ro_Response ro = None \<and> ro_Err ro \<noteq> None
       | [req] \<Rightarrow> c_state c \<in> {LoginStateLoggedIn, LoginStateReconnecting} \<and> c_restBase c \<noteq> [] \<and> answered env req ro
           \<and> hr_Method req = verb \<and> hr_Body req = body
           \<and> map_of (hr_Header req) ''Authorization'' = Some (''Bearer '' @ c_token c)
           \<and> (\<exists>base. ul_Parse (re_url env) (c_restBase c) = Inr base
                \<and> hr_URL req = trimRightSet ''/'' (ul_String (re_url env) base) @ route
                                @ (if rawQuery \<noteq> [] then ''?'' @ rawQuery else []))
       | _ \<Rightarrow> False)"
proof -
  have ns: "observed env operation (not_sent env operation e)" "ro_Sent (not_sent env operation e) = []"
    "ro_Response (not_sent env operation e) = None" "ro_Err (not_sent env operation e) \<noteq> None" for e
    by (simp_all add: not_sent_def observed_def recordRESTTelemetry_def)
  show ?thesis
  proof (cases "c_state c = LoginStateLogout \<or> c_state c = LoginStateLoggingIn \<or> c_restBase c = []")
    case True
    then show ?thesis using ns by (simp add: ro_def doREST_def)
  next
    case False
    then have st: "c_state c \<in> {LoginStateLoggedIn, LoginStateReconnecting}" "c_restBase c \<noteq> []" by (cases "c_state c"; simp)+
    show ?thesis
    proof (cases "ul_Parse (re_url env) (c_restBase c)")
      case (Inl e)
      then show ?thesis using ns False by (simp add: ro_def doREST_def)
    next
      case (Inr base)
      let ?url = "trimRightSet ''/'' (ul_String (re_url env) base) @ route @ (if rawQuery \<noteq> [] then ''?'' @ rawQuery else [])"
      let ?req = "\<lparr>hr_Method = verb, hr_URL = ?url,
         hr_Header = [(''Authorization'', ''Bearer '' @ c_token c), (''Accept'', ''application/json''), (''User-Agent'', userAgent)]
           @ (if contentType \<noteq> [] then [(''Content-Type'', contentType)] else []), hr_Body = body\<rparr>"
      show ?thesis
      proof (cases "re_newRequest env verb ?url")
        case (Some e)
        then show ?thesis using ns False Inr by (simp add: ro_def doREST_def Let_def)
      next
        case None
        show ?thesis
        proof (cases "re_do env ?req")
          case (Inl e)
          then show ?thesis using False Inr None st
            by (simp add: ro_def doREST_def Let_def observed_def answered_def notifyRESTError_def recordRESTTelemetry_def)
        next
          case hp: (Inr hp)
          have "ro = classify_response env operation ?req mapCode hp"
            using False Inr None hp by (simp add: ro_def doREST_def Let_def)
          then show ?thesis using classify_response_contract [OF hp] st Inr by simp
        qed
      qed
    qed
  qed
qed


section \<open>Escaping\<close>

text \<open>The reference: percent-decoding, with \<open>+\<close> for a space in form data.\<close>

definition unhex :: "char \<Rightarrow> nat" where
  "unhex c = (let n = of_char c in if n \<le> 57 then n - 48 else n - 55)"

fun unescape :: "bool \<Rightarrow> string \<Rightarrow> string" where
  "unescape form [] = []"
| "unescape form (c # cs) =
     (if c = CHR ''%'' then char_of (16 * unhex (cs ! 0) + unhex (cs ! 1)) # unescape form (drop 2 cs)
      else if form \<and> c = CHR ''+'' then CHR '' '' # unescape form cs
      else c # unescape form cs)"

lemma unhex_upperHex: "n < 16 \<Longrightarrow> unhex (upperHex n) = n"
proof -
  assume "n < 16"
  then have "n \<in> set [0..<16]" by simp
  moreover have "list_all (\<lambda>n. unhex (upperHex n) = n) [0..<16]" by code_simp
  ultimately show ?thesis by (simp only: list_all_iff)
qed

lemma upperHex_safe: "n < 16 \<Longrightarrow> is_alnum (upperHex n)"
proof -
  assume "n < 16"
  then have "n \<in> set [0..<16]" by simp
  moreover have "list_all (\<lambda>n. is_alnum (upperHex n)) [0..<16]" by code_simp
  ultimately show ?thesis by (simp only: list_all_iff)
qed

lemma of_char_hex: "of_char c div 16 < (16 :: nat)" "of_char c mod 16 < (16 :: nat)"
  using nat_of_char_less_256 [of c] by (simp_all add: less_mult_imp_div_less)

definition escaped :: "(char \<Rightarrow> bool) \<Rightarrow> char \<Rightarrow> string" where
  "escaped safe c = (if safe c then [c] else [CHR ''%'', upperHex (of_char c div 16), upperHex (of_char c mod 16)])"

lemma escape_escaped: "escape safe s = concat (map (escaped safe) s)"
  by (simp add: escape_def escaped_def [abs_def])

lemma unescape_escaped:
  assumes "\<not> safe CHR ''%''" and "form \<Longrightarrow> \<not> safe CHR ''+''"
  shows "unescape form (escaped safe c @ rest) = c # unescape form rest"
proof (cases "safe c")
  case True
  then have "c \<noteq> CHR ''%''" "\<not> (form \<and> c = CHR ''+'')" using assms by auto
  then show ?thesis using True by (simp add: escaped_def)
next
  case False
  have "16 * (of_char c div 16) + of_char c mod 16 = (of_char c :: nat)" by simp
  then show ?thesis using False by (simp add: escaped_def unhex_upperHex of_char_hex del: mult_div_mod_eq)
qed

lemma unescape_escape:
  assumes "\<not> safe CHR ''%''" and "form \<Longrightarrow> \<not> safe CHR ''+''"
  shows "unescape form (escape safe s) = s"
proof -
  have "unescape form (concat (map (escaped safe) s)) = s"
    by (induction s) (simp_all add: unescape_escaped assms)
  then show ?thesis by (simp add: escape_escaped)
qed

lemma escaped_set: "set (escaped safe c) \<subseteq> Collect safe \<union> Collect is_alnum \<union> {CHR ''%''}"
  using upperHex_safe [OF of_char_hex(1) [of c]] upperHex_safe [OF of_char_hex(2) [of c]] by (auto simp: escaped_def)

definition query_char :: "char \<Rightarrow> string" where
  "query_char c = (if c = CHR '' '' then ''+'' else escaped querySafe c)"

lemma QueryEscape_chars: "QueryEscape s = concat (map query_char s)"
proof -
  have "(\<lambda>c. if c = CHR '' '' then ''+'' else escape querySafe [c]) = query_char"
    by (rule ext) (simp add: query_char_def escape_escaped)
  then show ?thesis by (simp add: QueryEscape_def)
qed

lemma querySafe_not: "\<not> querySafe CHR ''%''" "\<not> querySafe CHR ''+''" "\<not> querySafe CHR ''&''" "\<not> querySafe CHR ''=''"
  by (simp_all add: querySafe_def is_alnum_def Let_def)

lemma unescape_QueryEscape: "unescape True (QueryEscape s) = s"
proof -
  have "unescape True (query_char c @ rest) = c # unescape True rest" for c rest
    using unescape_escaped [of querySafe True c rest] querySafe_not by (simp add: query_char_def)
  then have "unescape True (concat (map query_char s)) = s" by (induction s) simp_all
  then show ?thesis by (simp add: QueryEscape_chars)
qed

lemma QueryEscape_no_separator: "CHR ''&'' \<notin> set (QueryEscape s)" "CHR ''='' \<notin> set (QueryEscape s)"
proof -
  have "CHR ''&'' \<notin> set (query_char c) \<and> CHR ''='' \<notin> set (query_char c)" for c
    using escaped_set [of querySafe c] querySafe_not(3,4) by (auto simp: query_char_def is_alnum_def Let_def)
  then show "CHR ''&'' \<notin> set (QueryEscape s)" "CHR ''='' \<notin> set (QueryEscape s)" by (auto simp: QueryEscape_chars)
qed

text \<open>Reading form data: pairs at \<open>&\<close>, key and value at the first \<open>=\<close>.\<close>

definition parse_pair :: "string \<Rightarrow> string \<times> string" where
  "parse_pair w = (case cut (CHR ''='') w of (k, v, found) \<Rightarrow> (unescape True k, unescape True v))"

definition parse_form :: "string \<Rightarrow> (string \<times> string) list" where
  "parse_form s = (if s = [] then [] else map parse_pair (split_on (CHR ''&'') s))"

lemma parse_form_pair: "parse_pair (form_pair p) = p"
proof -
  have "takeWhile (\<lambda>c. c \<noteq> CHR ''='') (QueryEscape k @ CHR ''='' # v) = QueryEscape k"
    "dropWhile (\<lambda>c. c \<noteq> CHR ''='') (QueryEscape k @ CHR ''='' # v) = CHR ''='' # v" for k v
    using QueryEscape_no_separator(2) [of k] by (auto simp: takeWhile_append dropWhile_append)
  then show ?thesis by (cases p) (simp add: parse_pair_def form_pair_def cut_def unescape_QueryEscape)
qed

lemma form_pair_no_amp: "CHR ''&'' \<notin> set (form_pair p)"
  using QueryEscape_no_separator(1) by (auto simp: form_pair_def)

lemma split_on_append: "sep \<notin> set w \<Longrightarrow> split_on sep (w @ sep # rest) = w # split_on sep rest"
  by (induction w) auto

lemma split_on_single: "sep \<notin> set w \<Longrightarrow> split_on sep w = [w]"
  by (induction w) auto

lemma join_amp_Cons: "join_amp (w # v # ws) = w @ CHR ''&'' # join_amp (v # ws)"
  by (simp add: join_amp_def)

lemma split_join_amp:
  "ws \<noteq> [] \<Longrightarrow> list_all (\<lambda>w. CHR ''&'' \<notin> set w) ws \<Longrightarrow> split_on (CHR ''&'') (join_amp ws) = ws"
proof (induction ws)
  case (Cons w ws)
  show ?case
  proof (cases ws)
    case Nil
    then show ?thesis using Cons.prems by (simp add: join_amp_def split_on_single)
  next
    case (Cons v vs)
    then show ?thesis using Cons.IH Cons.prems by (simp add: join_amp_Cons split_on_append)
  qed
qed simp

lemma escaping_inverse:
  "unescape False (PathEscape s) = s" "set (PathEscape s) \<inter> {CHR ''/'', CHR ''?'', CHR ''#''} = {}"
  "parse_form (values_Encode kvs) = sort_key fst kvs"
proof -
  have ns: "\<not> segmentSafe CHR ''%''" "\<not> segmentSafe CHR ''/''" "\<not> segmentSafe CHR ''?''" "\<not> segmentSafe CHR ''#''"
    by (simp_all add: segmentSafe_def is_alnum_def Let_def)
  then show "unescape False (PathEscape s) = s" by (simp add: PathEscape_def unescape_escape)
  have "set (escaped segmentSafe c) \<inter> {CHR ''/'', CHR ''?'', CHR ''#''} = {}" for c
    using escaped_set [of segmentSafe c] ns by (auto simp: is_alnum_def Let_def)
  then show "set (PathEscape s) \<inter> {CHR ''/'', CHR ''?'', CHR ''#''} = {}" by (auto simp: PathEscape_def escape_escaped)
  show "parse_form (values_Encode kvs) = sort_key fst kvs"
  proof (cases "sort_key fst kvs")
    case (Cons p ps)
    have "form_pair p \<noteq> []" by (simp add: form_pair_def)
    then have "values_Encode kvs \<noteq> []" by (simp add: values_Encode_def Cons join_amp_def)
    moreover have "split_on (CHR ''&'') (values_Encode kvs) = map form_pair (sort_key fst kvs)"
      unfolding values_Encode_def by (rule split_join_amp) (simp_all add: Cons list_all_iff form_pair_no_amp)
    ultimately show ?thesis by (simp add: parse_form_def parse_form_pair comp_def)
  qed (simp add: values_Encode_def join_amp_def parse_form_def)
qed

text \<open>What a server that decodes the request reads in it.\<close>

definition names :: "string \<Rightarrow> string \<Rightarrow> bool" where
  "names segment name \<longleftrightarrow> unescape False segment = name \<and> set segment \<inter> {CHR ''/'', CHR ''?'', CHR ''#''} = {}"

definition group_request :: "client \<Rightarrow> string \<Rightarrow> string \<Rightarrow> http_request \<Rightarrow> bool" where
  "group_request c groupID action req \<longleftrightarrow>
     (\<exists>base segment query. hr_URL req = base @ ''/chatgroups/'' @ segment @ action @ ''?'' @ query \<and> names segment groupID
        \<and> parse_form query = [(''resource'', cfg_Resource (c_cfg c)), (''version'', ''v3'')])"

definition user_info_request :: "client \<Rightarrow> (string \<times> string) list \<Rightarrow> http_request \<Rightarrow> bool" where
  "user_info_request c attrs req \<longleftrightarrow>
     (\<exists>base segment form. hr_URL req = base @ ''/metadata/user/'' @ segment \<and> names segment (c_userID c)
        \<and> hr_Body req = Some (to_bytes form) \<and> parse_form form = sort_key fst attrs)"

lemma sent_request:
  "list_all (\<lambda>req. hr_Body req = body \<and> (\<exists>base. hr_URL req = base @ route @ (if rawQuery \<noteq> [] then ''?'' @ rawQuery else [])))
     (ro_Sent (doREST env c operation verb route rawQuery body contentType mapCode))"
  using doREST_contract [of env operation c verb route rawQuery body contentType mapCode]
  by (auto split: list.splits)

lemma resourceQuery_parts:
  "resourceQuery c \<noteq> []" "parse_form (resourceQuery c) = [(''resource'', cfg_Resource (c_cfg c)), (''version'', ''v3'')]"
proof -
  show q: "parse_form (resourceQuery c) = [(''resource'', cfg_Resource (c_cfg c)), (''version'', ''v3'')]"
    by (simp add: resourceQuery_def escaping_inverse)
  then show "resourceQuery c \<noteq> []" by (auto simp: parse_form_def)
qed

lemma group_request_sent:
  assumes "route = ''/chatgroups/'' @ PathEscape groupID @ action"
  shows "list_all (group_request c groupID action)
     (ro_Sent (doREST env c operation verb route (resourceQuery c) body contentType mapCode))"
  using sent_request [where route = route and rawQuery = "resourceQuery c"]
  unfolding list_all_iff group_request_def names_def assms
  using resourceQuery_parts [of c] escaping_inverse(1,2) [of groupID] by fastforce

text \<open>
  C38. Values of the caller cannot change a request.  In the requests to join and to leave a group and in the
  update of the own user info the identifier is one segment of the path, without \<open>/\<close>, \<open>?\<close> or \<open>#\<close>, that
  decodes to itself, and the query and the form body decode to exactly the resource of the client and the
  given keys and values, sorted by key, whatever bytes they contain.
\<close>

theorem rest_escaping_round_trip:
  "list_all (group_request c groupID ''/apply'') (ro_Sent (JoinPublicGroup env c groupID))
   \<and> list_all (group_request c groupID ''/quit'') (ro_Sent (LeaveGroup env c groupID))
   \<and> list_all (user_info_request c attrs) (ro_Sent (UpdateOwnUserInfo env c attrs))"
proof (intro conjI)
  show "list_all (group_request c groupID ''/apply'') (ro_Sent (JoinPublicGroup env c groupID))"
    by (simp add: JoinPublicGroup_def Let_def group_request_sent split: prod.split)
  show "list_all (group_request c groupID ''/quit'') (ro_Sent (LeaveGroup env c groupID))"
    by (simp add: LeaveGroup_def group_request_sent)
  show "list_all (user_info_request c attrs) (ro_Sent (UpdateOwnUserInfo env c attrs))"
    using sent_request [where rawQuery = "[]" and body = "Some (to_bytes (values_Encode attrs))"]
    unfolding UpdateOwnUserInfo_def list_all_iff user_info_request_def names_def
    using escaping_inverse by fastforce
qed

section \<open>Retry-After\<close>

text \<open>
  A large \<open>Retry-After\<close> becomes a negative duration.  \<open>parseRetryAfter\<close> accepts every positive number of
  seconds that fits an \<open>int64\<close> and multiplies it by a billion in \<open>int64\<close>, so that a server that asks for a
  long wait can make the caller see one that has already passed.
\<close>

lemma retry_after_wraps:
  "parseRetryAfter parseTime ''9223372036'' now = 9223372036000000000
   \<and> parseRetryAfter parseTime ''9223372037'' now = - 9223372036709551616"
proof -
  have t: "trimSpace ''9223372036'' = ''9223372036''" "trimSpace ''9223372037'' = ''9223372037''" by code_simp+
  have d: "digits_value ''9223372036'' = 9223372036" "digits_value ''9223372037'' = 9223372037" by (simp_all add: digits_value_def)
  have "atoi ''9223372036'' = Some 9223372036" "atoi ''9223372037'' = Some 9223372037"
    by (simp_all add: atoi_def d is_digit_def in_int64_def maxInt64_def Let_def)
  moreover have "wrap64 9223372036000000000 = 9223372036000000000" by (rule wrap64_id) (simp add: in_int64_def maxInt64_def)
  moreover have "wrap64 9223372037000000000 = - 9223372036709551616"
    by (simp add: wrap64_def signed_take_bit_eq_take_bit_minus take_bit_eq_mod)
  ultimately show ?thesis by (simp add: parseRetryAfter_def t Let_def)
qed

end
