(* ===== verification/Native_Codec.thy ===== *)
theory Native_Codec
  imports Provision_Action Message_Model
begin

text \<open>
  The Go side of the native codec (\<open>internal/protocol/nativecodec/codec.go\<close>): the conversion of the wire
  model into the C structures of the library and back, and the limits the adapter enforces on whatever the
  library hands out.

  The C library (\<open>native/include/em_msync_codec.h\<close>) is a parameter.  A C string is \<open>None\<close> for NULL, or
  the bytes before its terminating zero; a byte field is a pointer with a size; the answers of the getters
  of a decoded frame are the fields of \<open>EMCodecFrame\<close>.  Freeing C memory has no counterpart here.  The
  counters of \<open>decodeTracker\<close> are naturals: their sums are compared with the limits before they are formed.
\<close>

section \<open>C data\<close>

type_synonym c_string = "string option"
type_synonym c_bytes = "bytes option \<times> nat"

record EMCodecJID =
  ej_app_key :: c_string
  ej_name :: c_string
  ej_domain :: c_string
  ej_resource :: c_string

record EMCodecKeyValue =
  ek_key :: c_string
  ek_type :: "32 word"
  ek_integer_value :: int64
  ek_number_value :: float64
  ek_string_value :: c_string

record EMCodecMessageContent =
  em_type :: "32 word"
  em_text :: c_string
  em_action :: c_string
  em_custom_event :: c_string
  em_values :: "EMCodecKeyValue list"

record EMCodecSendRequest =
  er_from :: EMCodecJID
  er_to :: EMCodecJID
  er_message_type :: "32 word"
  er_contents :: "EMCodecMessageContent list"
  er_extensions :: "EMCodecKeyValue list"

text \<open>What the getters say of one content and of one meta of a decoded frame.\<close>

record content_view =
  cv_type :: "32 word"
  cv_text :: c_string
  cv_action :: c_string
  cv_custom_event :: c_string
  cv_raw :: c_bytes
  cv_key_value_count :: nat
  cv_key_value :: "nat \<Rightarrow> EMCodecKeyValue option"

record meta_view =
  mv_id :: uint64
  mv_timestamp :: uint64
  mv_namespace :: "32 word"
  mv_route_type :: "32 word"
  mv_payload :: c_bytes
  mv_attributes :: c_bytes
  mv_from :: "EMCodecJID option"
  mv_to :: "EMCodecJID option"
  mv_directed_user_count :: nat
  mv_directed_user :: "nat \<Rightarrow> c_string"

record EMCodecFrame =
  ef_command :: "32 word"
  ef_trace_id :: uint64
  ef_kind :: nat
  ef_status_code :: int
  ef_status_reason :: c_string
  ef_redirect_count :: nat
  ef_redirect_host :: "nat \<Rightarrow> c_string"
  ef_redirect_port :: "nat \<Rightarrow> nat"
  ef_session_id :: c_string
  ef_auth_token :: c_bytes
  ef_ack_client_id :: uint64
  ef_ack_server_id :: uint64
  ef_timestamp :: uint64
  ef_unread_queue_count :: nat
  ef_unread_queue :: "nat \<Rightarrow> EMCodecJID option"
  ef_next_key :: uint64
  ef_is_last :: int
  ef_queue :: "EMCodecJID option"
  ef_meta_count :: nat
  ef_meta :: "nat \<Rightarrow> meta_view"

text \<open>A decoded message body and a decoded statistic, which the library presents as frames of one meta.\<close>

record body_view =
  bv_message_type :: "32 word"
  bv_from :: "EMCodecJID option"
  bv_to :: "EMCodecJID option"
  bv_key_value_count :: nat
  bv_key_value :: "nat \<Rightarrow> EMCodecKeyValue option"
  bv_content_count :: nat
  bv_content :: "nat \<Rightarrow> content_view"

record statistic_view =
  sv_operation :: int
  sv_device :: c_string
  sv_reason :: c_string
  sv_session_id :: c_string

abbreviation (input) EM_CODEC_FRAME_PROVISION :: nat where "EM_CODEC_FRAME_PROVISION \<equiv> 1"
abbreviation (input) EM_CODEC_FRAME_UNREAD :: nat where "EM_CODEC_FRAME_UNREAD \<equiv> 2"
abbreviation (input) EM_CODEC_FRAME_NOTICE :: nat where "EM_CODEC_FRAME_NOTICE \<equiv> 3"
abbreviation (input) EM_CODEC_FRAME_SYNC_ACK :: nat where "EM_CODEC_FRAME_SYNC_ACK \<equiv> 4"
abbreviation (input) EM_CODEC_FRAME_SYNC_BATCH :: nat where "EM_CODEC_FRAME_SYNC_BATCH \<equiv> 5"
abbreviation (input) EM_CODEC_FRAME_LOGOUT :: nat where "EM_CODEC_FRAME_LOGOUT \<equiv> 6"

abbreviation (input) EM_CODEC_OK :: int where "EM_CODEC_OK \<equiv> 0"
abbreviation (input) EM_CODEC_LIMIT_EXCEEDED :: int where "EM_CODEC_LIMIT_EXCEEDED \<equiv> 2"

text \<open>
  The functions of the library: each returns an error code and what it wrote to its output argument.
  \<open>lib_calloc\<close> tells whether an allocation of so many elements succeeds.
\<close>

record em_library =
  lib_calloc :: "nat \<Rightarrow> bool"
  lib_encode_provision :: "EMCodecJID \<Rightarrow> c_string \<Rightarrow> c_string \<Rightarrow> bytes \<Rightarrow> int \<times> c_bytes"
  lib_encode_unread :: "int \<times> c_bytes"
  lib_encode_logout :: "c_string \<Rightarrow> c_string \<Rightarrow> int \<times> c_bytes"
  lib_encode_sync_queue :: "EMCodecJID \<Rightarrow> uint64 \<Rightarrow> int \<times> c_bytes"
  lib_encode_sync_meta :: "uint64 \<Rightarrow> EMCodecJID \<Rightarrow> EMCodecJID \<Rightarrow> uint64 \<Rightarrow> 32 word \<Rightarrow> 32 word \<Rightarrow> bytes \<Rightarrow> c_string list \<Rightarrow> int \<times> c_bytes"
  lib_encode_message_body :: "EMCodecSendRequest \<Rightarrow> int \<times> c_bytes"
  lib_decode_frame :: "bytes \<Rightarrow> int \<times> EMCodecFrame"
  lib_decode_message_body :: "bytes \<Rightarrow> int \<times> body_view"
  lib_decode_statistic :: "bytes \<Rightarrow> int \<times> statistic_view"

section \<open>Helpers\<close>

definition codecError :: "int \<Rightarrow> go_error option" where
  "codecError v =
     (if v = EM_CODEC_OK then None
      else if v = EM_CODEC_LIMIT_EXCEEDED then Some (limitErr (''native codec error '' @ itoa v))
      else Some (errorf (''native codec error '' @ itoa v)))"

text \<open>A call whose error code is looked at before its output.\<close>

definition checked :: "int \<times> 'a \<Rightarrow> go_error + 'a" where
  "checked r = (case codecError (fst r) of Some e \<Rightarrow> Inl e | None \<Rightarrow> Inr (snd r))"

definition nul :: char where "nul = CHR 0x00"

text \<open>\<open>C.CString\<close> copies the bytes and a zero; C sees what comes before the first zero.\<close>

definition CString :: "string \<Rightarrow> string" where
  "CString s = takeWhile (\<lambda>c. c \<noteq> nul) s"

definition cstr :: "string \<Rightarrow> c_string" where
  "cstr s = (if s = [] then None else Some (CString s))"

definition takeBuffer :: "c_bytes \<Rightarrow> go_error + bytes" where
  "takeBuffer out =
     (if snd out = 0 then Inr []
      else if snd out > MaxCodecInputBytes
      then Inl (limitErr (''native codec output exceeds '' @ itoa (int MaxCodecInputBytes) @ '' bytes''))
      else case fst out of
             None \<Rightarrow> Inl (errorf (''native codec returned nil output with size '' @ itoa (int (snd out))))
           | Some data \<Rightarrow> Inr (take (snd out) data))"

definition makeJID :: "JID \<Rightarrow> EMCodecJID" where
  "makeJID j = \<lparr>ej_app_key = cstr (jid_AppKey j), ej_name = cstr (jid_Name j), ej_domain = cstr (jid_Domain j),
     ej_resource = cstr (jid_ClientResource j)\<rparr>"

section \<open>The budget of one decoded object\<close>

record decodeTracker =
  dt_stringBytes :: nat
  dt_payloadBytes :: nat
  dt_directedUsers :: nat

definition newTracker :: decodeTracker where
  "newTracker = \<lparr>dt_stringBytes = 0, dt_payloadBytes = 0, dt_directedUsers = 0\<rparr>"

text \<open>A function that reads from a frame: it takes the tracker and returns its value and the new tracker.\<close>

type_synonym 'a decoding = "decodeTracker \<Rightarrow> go_error + 'a \<times> decodeTracker"

definition exceeds :: "string \<Rightarrow> nat \<Rightarrow> go_error" where
  "exceeds what limit = limitErr (what @ '' '' @ itoa (int limit))"

definition strnlen :: "string \<Rightarrow> nat \<Rightarrow> nat" where
  "strnlen s n = min (length s) n"

definition copyCStringPointer :: "c_string \<Rightarrow> nat \<Rightarrow> string" where
  "copyCStringPointer p n = (case p of None \<Rightarrow> [] | Some s \<Rightarrow> if n = 0 then [] else take n s)"

definition readString :: "c_string \<Rightarrow> string decoding" where
  "readString p t =
     (case p of None \<Rightarrow> Inr ([], t)
      | Some s \<Rightarrow>
          if dt_stringBytes t > MaxSyncStringBytes then Inl (exceeds ''decoded string bytes exceed'' MaxSyncStringBytes)
          else
            let remaining = MaxSyncStringBytes - dt_stringBytes t;
                n = strnlen s (remaining + 1)
            in if n > remaining then Inl (exceeds ''decoded string bytes exceed'' MaxSyncStringBytes)
               else Inr (copyCStringPointer p n, t\<lparr>dt_stringBytes := dt_stringBytes t + n\<rparr>))"

definition reserveStringBytes :: "nat \<Rightarrow> unit decoding" where
  "reserveStringBytes n t =
     (if dt_stringBytes t > MaxSyncStringBytes \<or> n > MaxSyncStringBytes - dt_stringBytes t
      then Inl (exceeds ''decoded string bytes exceed'' MaxSyncStringBytes)
      else Inr ((), t\<lparr>dt_stringBytes := dt_stringBytes t + n\<rparr>))"

definition addPayload :: "nat \<Rightarrow> unit decoding" where
  "addPayload n t =
     (if dt_payloadBytes t > MaxSyncPayloadBytes \<or> n > MaxSyncPayloadBytes - dt_payloadBytes t
      then Inl (exceeds ''sync payload bytes exceed'' MaxSyncPayloadBytes)
      else Inr ((), t\<lparr>dt_payloadBytes := dt_payloadBytes t + n\<rparr>))"

definition addDirectedUsers :: "nat \<Rightarrow> unit decoding" where
  "addDirectedUsers n t =
     (if dt_directedUsers t > MaxSyncDirectedUsers \<or> n > MaxSyncDirectedUsers - dt_directedUsers t
      then Inl (exceeds ''sync directed users exceed'' MaxSyncDirectedUsers)
      else Inr ((), t\<lparr>dt_directedUsers := dt_directedUsers t + n\<rparr>))"

text \<open>The loop of \<open>readJIDPointers\<close>: the lengths of the components from \<open>acc\<close> on.\<close>

fun jid_lengths :: "c_string list \<Rightarrow> nat \<Rightarrow> go_error + nat list \<times> nat" where
  "jid_lengths [] acc = Inr ([], acc)"
| "jid_lengths (None # ps) acc = and_then (jid_lengths ps acc) (\<lambda>(ls, t). Inr (0 # ls, t))"
| "jid_lengths (Some s # ps) acc =
     (let n = strnlen s (MaxJIDComponentBytes + 1)
      in if n > MaxJIDComponentBytes
         then Inl (limitErr (''JID component exceeds '' @ itoa (int MaxJIDComponentBytes) @ '' bytes''))
         else if acc > MaxJIDBytes - n then Inl (limitErr (''JID exceeds '' @ itoa (int MaxJIDBytes) @ '' bytes''))
         else and_then (jid_lengths ps (acc + n)) (\<lambda>(ls, t). Inr (n # ls, t)))"

definition jid_pointers :: "EMCodecJID \<Rightarrow> c_string list" where
  "jid_pointers v = [ej_app_key v, ej_name v, ej_domain v, ej_resource v]"

definition readJID :: "EMCodecJID \<Rightarrow> JID decoding" where
  "readJID v t =
     and_then (jid_lengths (jid_pointers v) 0) (\<lambda>(ls, acc).
     and_then (reserveStringBytes acc t) (\<lambda>(_, t1).
       Inr (\<lparr>jid_AppKey = copyCStringPointer (ej_app_key v) (ls ! 0), jid_Name = copyCStringPointer (ej_name v) (ls ! 1),
             jid_Domain = copyCStringPointer (ej_domain v) (ls ! 2),
             jid_ClientResource = copyCStringPointer (ej_resource v) (ls ! 3)\<rparr>, t1)))"

text \<open>A getter of a JID that may answer no leaves the zero value.\<close>

definition readJIDIf :: "EMCodecJID option \<Rightarrow> JID decoding" where
  "readJIDIf v t = (case v of None \<Rightarrow> Inr (emptyJID, t) | Some j \<Rightarrow> readJID j t)"

definition readBytes :: "c_bytes \<Rightarrow> go_error + bytes" where
  "readBytes b =
     (if snd b = 0 then Inr []
      else if snd b > MaxCodecInputBytes
      then Inl (limitErr (''native byte field exceeds '' @ itoa (int MaxCodecInputBytes) @ '' bytes''))
      else case fst b of
             None \<Rightarrow> Inl (errorf (''native codec returned nil byte field with size '' @ itoa (int (snd b))))
           | Some data \<Rightarrow> Inr (take (snd b) data))"

text \<open>A loop over indices that collects what each round appends.\<close>

fun read_each :: "('i \<Rightarrow> 'a list decoding) \<Rightarrow> 'i list \<Rightarrow> 'a list decoding" where
  "read_each f [] t = Inr ([], t)"
| "read_each f (i # is) t =
     and_then (f i t) (\<lambda>(xs, t1). and_then (read_each f is t1) (\<lambda>(ys, t2). Inr (xs @ ys, t2)))"

definition readOne :: "('i \<Rightarrow> 'a decoding) \<Rightarrow> 'i \<Rightarrow> 'a list decoding" where
  "readOne f i t = and_then (f i t) (\<lambda>(x, t1). Inr ([x], t1))"

section \<open>Frames\<close>

definition readStatus :: "EMCodecFrame \<Rightarrow> Status option decoding" where
  "readStatus f t =
     (if ef_status_code f < 0 then Inr (None, t)
      else
        and_then (readString (ef_status_reason f) t) (\<lambda>(reason, t1).
          if ef_redirect_count f > MaxFrameCollectionItems
          then Inl (exceeds ''status redirect count exceeds'' MaxFrameCollectionItems)
          else
            and_then (read_each (readOne (\<lambda>i t. and_then (readString (ef_redirect_host f i) t)
                       (\<lambda>(host, t1). Inr ((host, ef_redirect_port f i), t1)))) [0..<ef_redirect_count f] t1)
              (\<lambda>(rs, t2). Inr (Some \<lparr>st_Code = ef_status_code f, st_Reason = reason,
                                     st_Redirects = (rs, ef_redirect_count f)\<rparr>, t2))))"

text \<open>One round of the loop of \<open>readSync\<close>.\<close>

definition readMeta :: "meta_view \<Rightarrow> Meta decoding" where
  "readMeta m t =
     and_then (addPayload (snd (mv_payload m)) t) (\<lambda>(_, t1).
     and_then (readBytes (mv_payload m)) (\<lambda>payload.
     and_then (addPayload (snd (mv_attributes m)) t1) (\<lambda>(_, t2).
     and_then (readBytes (mv_attributes m)) (\<lambda>attributes.
     and_then (readJIDIf (mv_from m) t2) (\<lambda>(from, t3).
     and_then (readJIDIf (mv_to m) t3) (\<lambda>(to, t4).
     and_then (addDirectedUsers (mv_directed_user_count m) t4) (\<lambda>(_, t5).
     and_then (read_each (readOne (\<lambda>u. readString (mv_directed_user m u))) [0..<mv_directed_user_count m] t5) (\<lambda>(users, t6).
       Inr (emptyMeta\<lparr>me_ID := mv_id m, me_Timestamp := mv_timestamp m, me_Namespace := sint (mv_namespace m),
              me_Route := sint (mv_route_type m), me_Payload := (payload, length payload),
              me_Attributes := (attributes, length attributes), me_From := from, me_To := to,
              me_DirectedUsers := (users, mv_directed_user_count m)\<rparr>, t6)))))))))"

definition readSync :: "EMCodecFrame \<Rightarrow> Status option \<Rightarrow> Sync decoding" where
  "readSync f st t =
     (if ef_meta_count f > MaxSyncMetas then Inl (exceeds ''sync meta count exceeds'' MaxSyncMetas)
      else
        and_then (case ef_queue f of None \<Rightarrow> Inr (None, t)
                  | Some q \<Rightarrow> and_then (readJID q t) (\<lambda>(x, t1). Inr (Some x, t1))) (\<lambda>(queue, t1).
        and_then (read_each (readOne (\<lambda>i. readMeta (ef_meta f i))) [0..<ef_meta_count f] t1) (\<lambda>(metas, t2).
          let s = \<lparr>sy_Status = st, sy_MetaID = ef_ack_client_id f, sy_ServerID = ef_ack_server_id f,
                   sy_Metas = (metas, ef_meta_count f), sy_NextKey = ef_next_key f, sy_Queue = queue,
                   sy_IsLast = (ef_is_last f \<noteq> 0), sy_Timestamp = ef_timestamp f\<rparr>
          in and_then (SyncRetainedWeight (Some s)) (\<lambda>w. Inr (s, t2)))))"

definition emptyFrame :: "int \<Rightarrow> uint64 \<Rightarrow> Frame" where
  "emptyFrame command trace = \<lparr>fr_Command = command, fr_TraceID = trace, fr_Provision = None, fr_Unread = None,
     fr_Notice = None, fr_Sync = None, fr_Logout = None\<rparr>"

definition readProvision :: "EMCodecFrame \<Rightarrow> Status option \<Rightarrow> Provision decoding" where
  "readProvision f st t =
     and_then (readString (ef_session_id f) t) (\<lambda>(sessionID, t1).
     and_then (readBytes (ef_auth_token f)) (\<lambda>authToken.
       Inr (\<lparr>pv_Status = st, pv_SessionID = sessionID, pv_AuthToken = authToken\<rparr>, t1)))"

definition readUnread :: "EMCodecFrame \<Rightarrow> Status option \<Rightarrow> Unread decoding" where
  "readUnread f st t =
     (if ef_unread_queue_count f > MaxFrameCollectionItems
      then Inl (exceeds ''unread queue count exceeds'' MaxFrameCollectionItems)
      else
        and_then (read_each (\<lambda>i t. case ef_unread_queue f i of None \<Rightarrow> Inr ([], t) | Some j \<Rightarrow> readOne readJID j t)
                    [0..<ef_unread_queue_count f] t)
          (\<lambda>(queues, t1). Inr (\<lparr>un_Status = st, un_Queues = queues, un_Timestamp = ef_timestamp f\<rparr>, t1)))"

definition decodeFrame :: "EMCodecFrame \<Rightarrow> go_error + Frame" where
  "decodeFrame f =
     (let fm = emptyFrame (sint (ef_command f)) (ef_trace_id f)
      in and_then (readStatus f newTracker) (\<lambda>(st, t).
         if ef_kind f = EM_CODEC_FRAME_PROVISION
         then and_then (readProvision f st t) (\<lambda>(p, _). Inr (fm\<lparr>fr_Provision := Some p\<rparr>))
         else if ef_kind f = EM_CODEC_FRAME_UNREAD
         then and_then (readUnread f st t) (\<lambda>(u, _). Inr (fm\<lparr>fr_Unread := Some u\<rparr>))
         else if ef_kind f = EM_CODEC_FRAME_NOTICE
         then (case ef_queue f of None \<Rightarrow> Inr fm
               | Some j \<Rightarrow> and_then (readJID j t) (\<lambda>(q, _). Inr (fm\<lparr>fr_Notice := Some q\<rparr>)))
         else if ef_kind f = EM_CODEC_FRAME_SYNC_ACK \<or> ef_kind f = EM_CODEC_FRAME_SYNC_BATCH
         then and_then (readSync f st t) (\<lambda>(s, _). Inr (fm\<lparr>fr_Sync := Some s\<rparr>))
         else if ef_kind f = EM_CODEC_FRAME_LOGOUT then Inr (fm\<lparr>fr_Logout := Some \<lparr>lo_Status = st\<rparr>\<rparr>)
         else Inr fm))"

text \<open>
  The methods of \<open>Codec\<close> take whether its handle is still open.  \<open>New\<close> answers an error and whether there is a
  codec: a library that refuses without an error code leaves neither.
\<close>

definition codec_New :: "bool \<times> int \<Rightarrow> go_error option \<times> bool" where
  "codec_New created = (if \<not> fst created then (codecError (snd created), False) else (None, True))"

definition codec_Close :: "bool \<Rightarrow> bool" where
  "codec_Close handle = (if handle then False else handle)"

definition closedError :: go_error where
  "closedError = errorf ''native codec is closed''"

definition DecodeFrame :: "em_library \<Rightarrow> zlib_reader \<Rightarrow> bool \<Rightarrow> bytes \<Rightarrow> go_error + Frame" where
  "DecodeFrame lib zlib handle data0 =
     and_then (decompressEnvelopePayload zlib data0) (\<lambda>data.
       if \<not> handle then Inl closedError
       else and_then (checked (lib_decode_frame lib data)) decodeFrame)"

section \<open>Message bodies and statistics\<close>

definition readKV :: "EMCodecKeyValue \<Rightarrow> KeyValue decoding" where
  "readKV v t =
     and_then (readString (ek_key v) t) (\<lambda>(key, t1).
     and_then (readString (ek_string_value v) t1) (\<lambda>(val, t2).
       Inr (\<lparr>kv_Key = key, kv_Kind = sint (ek_type v), kv_Bool = (ek_integer_value v \<noteq> 0), kv_Int64 = ek_integer_value v,
             kv_Uint64 = word_of_int (ek_integer_value v), kv_Float = float32_of (ek_number_value v),
             kv_Double = ek_number_value v, kv_String = val\<rparr>, t2)))"

definition readKVs :: "nat \<Rightarrow> (nat \<Rightarrow> EMCodecKeyValue option) \<Rightarrow> KeyValue list decoding" where
  "readKVs count get t =
     (if count > MaxFrameCollectionItems then Inl (exceeds ''key/value count exceeds'' MaxFrameCollectionItems)
      else read_each (\<lambda>i t. case get i of None \<Rightarrow> Inr ([], t) | Some v \<Rightarrow> readOne readKV v t) [0..<count] t)"

definition readContent :: "content_view \<Rightarrow> Content decoding" where
  "readContent c t =
     (let kind = sint (cv_type c)
      in and_then (readString (cv_text c) t) (\<lambda>(txt, t1).
         and_then (readString (cv_action c) t1) (\<lambda>(action, t2).
         and_then (readString (cv_custom_event c) t2) (\<lambda>(ev, t3).
           let x = \<lparr>co_Kind = kind, co_Text = txt, co_Action = action, co_Params = [], co_Event = ev, co_CustomExts = [],
                    co_RawPayload = []\<rparr>
           in if kind = ContentCommand
              then and_then (readKVs (cv_key_value_count c) (cv_key_value c) t3) (\<lambda>(kvs, t4). Inr (x\<lparr>co_Params := kvs\<rparr>, t4))
              else if kind = ContentCustom
              then and_then (readKVs (cv_key_value_count c) (cv_key_value c) t3) (\<lambda>(kvs, t4). Inr (x\<lparr>co_CustomExts := kvs\<rparr>, t4))
              else if kind > ContentCustom
              then and_then (readBytes (cv_raw c)) (\<lambda>raw. Inr (x\<lparr>co_RawPayload := raw\<rparr>, t3))
              else Inr (x, t3)))))"

definition decodeBody :: "body_view \<Rightarrow> go_error + MessageBody" where
  "decodeBody f =
     and_then (readJIDIf (bv_from f) newTracker) (\<lambda>(from, t1).
     and_then (readJIDIf (bv_to f) t1) (\<lambda>(to, t2).
     and_then (readKVs (bv_key_value_count f) (bv_key_value f) t2) (\<lambda>(ext, t3).
       if bv_content_count f > MaxFrameCollectionItems
       then Inl (exceeds ''message content count exceeds'' MaxFrameCollectionItems)
       else
         and_then (read_each (readOne (\<lambda>i. readContent (bv_content f i))) [0..<bv_content_count f] t3) (\<lambda>(contents, t4).
           Inr \<lparr>mb_Kind = sint (bv_message_type f), mb_From = from, mb_To = to, mb_Contents = contents, mb_Ext = ext\<rparr>))))"

definition DecodeMessageBody :: "em_library \<Rightarrow> bool \<Rightarrow> bytes \<Rightarrow> go_error + MessageBody" where
  "DecodeMessageBody lib handle data =
     (if length data > MaxCodecInputBytes
      then Inl (limitErr (''message body exceeds '' @ itoa (int MaxCodecInputBytes) @ '' bytes''))
      else if \<not> handle then Inl closedError
      else and_then (checked (lib_decode_message_body lib data)) decodeBody)"

definition decodeStatistic :: "statistic_view \<Rightarrow> go_error + Statistic" where
  "decodeStatistic f =
     and_then (readString (sv_device f) newTracker) (\<lambda>(device, t1).
     and_then (readString (sv_reason f) t1) (\<lambda>(reason, t2).
     and_then (readString (sv_session_id f) t2) (\<lambda>(sessionID, t3).
       Inr \<lparr>sc_Operation = sv_operation f, sc_ReplaceDeviceName = device, sc_SessionID = sessionID, sc_Reason = reason\<rparr>)))"

definition DecodeStatistic :: "em_library \<Rightarrow> bool \<Rightarrow> bytes \<Rightarrow> go_error + Statistic" where
  "DecodeStatistic lib handle data =
     (if length data > MaxCodecInputBytes
      then Inl (limitErr (''statistic exceeds '' @ itoa (int MaxCodecInputBytes) @ '' bytes''))
      else if \<not> handle then Inl closedError
      else and_then (checked (lib_decode_statistic lib data)) decodeStatistic)"

section \<open>Encoding\<close>

record ProvisionRequest =
  pr_User :: JID
  pr_SDKVersion :: string
  pr_Resource :: string
  pr_AuthToken :: bytes

record LogoutRequest =
  lr_SessionID :: string
  lr_Reason :: string

record SyncRequest =
  sr_Meta :: "Meta option"
  sr_Queue :: "JID option"
  sr_Key :: uint64

definition EncodeProvision :: "em_library \<Rightarrow> bool \<Rightarrow> ProvisionRequest \<Rightarrow> go_error + bytes" where
  "EncodeProvision lib handle v =
     (if \<not> handle then Inl closedError
      else
        and_then (checked (lib_encode_provision lib (makeJID (pr_User v)) (cstr (pr_SDKVersion v)) (cstr (pr_Resource v)) (pr_AuthToken v))) (\<lambda>out.
        and_then (takeBuffer out) withProvisionActionVersion))"

definition EncodeUnread :: "em_library \<Rightarrow> bool \<Rightarrow> go_error + bytes" where
  "EncodeUnread lib handle =
     (if \<not> handle then Inl closedError else and_then (checked (lib_encode_unread lib)) takeBuffer)"

definition EncodeLogout :: "em_library \<Rightarrow> bool \<Rightarrow> LogoutRequest \<Rightarrow> go_error + bytes" where
  "EncodeLogout lib handle v =
     (if \<not> handle then Inl closedError
      else and_then (checked (lib_encode_logout lib (cstr (lr_SessionID v)) (cstr (lr_Reason v)))) takeBuffer)"

definition makeStrings :: "em_library \<Rightarrow> string list \<Rightarrow> go_error + c_string list" where
  "makeStrings lib v =
     (if v = [] then Inr []
      else if \<not> lib_calloc lib (length v) then Inl (errorf ''native codec: allocate string array'')
      else Inr (map (\<lambda>s. Some (CString s)) v))"

definition EncodeSync :: "em_library \<Rightarrow> bool \<Rightarrow> SyncRequest \<Rightarrow> go_error + bytes" where
  "EncodeSync lib handle v =
     (if \<not> handle then Inl closedError
      else case sr_Meta v of
             None \<Rightarrow>
               (case sr_Queue v of None \<Rightarrow> Inl (errorf ''sync requires meta or queue'')
                | Some q \<Rightarrow> and_then (checked (lib_encode_sync_queue lib (makeJID q) (sr_Key v))) takeBuffer)
           | Some m \<Rightarrow>
               and_then (makeStrings lib (fst (me_DirectedUsers m))) (\<lambda>users.
               and_then (checked (lib_encode_sync_meta lib (me_ID m) (makeJID (me_From m)) (makeJID (me_To m)) (me_Timestamp m)
                  (word_of_int (me_Namespace m)) (word_of_int (me_Route m)) (fst (me_Payload m)) users)) takeBuffer))"

definition makeKV :: "KeyValue \<Rightarrow> EMCodecKeyValue" where
  "makeKV x =
     \<lparr>ek_key = cstr (kv_Key x), ek_type = word_of_int (kv_Kind x),
      ek_integer_value = (if kv_Kind x = KindUint then sint (kv_Uint64 x)
                          else if kv_Kind x = KindBool \<and> kv_Bool x then 1 else kv_Int64 x),
      ek_number_value = (if kv_Kind x = KindFloat then float64_of (kv_Float x) else kv_Double x),
      ek_string_value = cstr (kv_String x)\<rparr>"

definition makeKVs :: "em_library \<Rightarrow> KeyValue list \<Rightarrow> go_error + EMCodecKeyValue list" where
  "makeKVs lib v =
     (if v = [] then Inr []
      else if \<not> lib_calloc lib (length v) then Inl (errorf ''native codec: allocate key values'')
      else Inr (map makeKV v))"

definition makeContent :: "em_library \<Rightarrow> Content \<Rightarrow> go_error + EMCodecMessageContent" where
  "makeContent lib x =
     and_then (makeKVs lib (if co_Kind x = ContentCustom then co_CustomExts x else co_Params x)) (\<lambda>kvs.
       Inr \<lparr>em_type = word_of_int (co_Kind x), em_text = cstr (co_Text x), em_action = cstr (co_Action x),
            em_custom_event = cstr (co_Event x), em_values = kvs\<rparr>)"

fun make_each :: "('a \<Rightarrow> go_error + 'b) \<Rightarrow> 'a list \<Rightarrow> go_error + 'b list" where
  "make_each f [] = Inr []"
| "make_each f (x # xs) = and_then (f x) (\<lambda>y. and_then (make_each f xs) (\<lambda>ys. Inr (y # ys)))"

definition makeRequest :: "em_library \<Rightarrow> MessageBody \<Rightarrow> go_error + EMCodecSendRequest" where
  "makeRequest lib v =
     and_then (makeKVs lib (mb_Ext v)) (\<lambda>ext.
       if mb_Contents v \<noteq> [] \<and> \<not> lib_calloc lib (length (mb_Contents v))
       then Inl (errorf ''native codec: allocate contents'')
       else
         and_then (make_each (makeContent lib) (mb_Contents v)) (\<lambda>contents.
           Inr \<lparr>er_from = makeJID (mb_From v), er_to = makeJID (mb_To v), er_message_type = word_of_int (mb_Kind v),
                er_contents = contents, er_extensions = ext\<rparr>))"

definition EncodeMessageBody :: "em_library \<Rightarrow> bool \<Rightarrow> MessageBody \<Rightarrow> go_error + bytes" where
  "EncodeMessageBody lib handle v =
     (if \<not> handle then Inl closedError
      else
        and_then (makeRequest lib v) (\<lambda>req.
        and_then (checked (lib_encode_message_body lib req)) takeBuffer))"

end
