(* ===== verification/Native_Limits.thy ===== *)
theory Native_Limits
  imports Native_Codec
begin

text \<open>
  The limits on decoded objects.  Whatever the C library answers, what \<open>DecodeFrame\<close> returns is bounded:
  every string, payload and directed user that ends up in the frame was charged to the tracker first.
\<close>

section \<open>Reading within the tracker\<close>

definition within :: "decodeTracker \<Rightarrow> bool" where
  "within t \<longleftrightarrow> dt_stringBytes t \<le> MaxSyncStringBytes \<and> dt_payloadBytes t \<le> MaxSyncPayloadBytes
     \<and> dt_directedUsers t \<le> MaxSyncDirectedUsers"

text \<open>
  \<open>spends f str pay usr ok\<close>: a successful read leaves the tracker within its limits, has charged at least the
  three sizes of its result, and its result satisfies \<open>ok\<close>.
\<close>

definition spends :: "'a decoding \<Rightarrow> ('a \<Rightarrow> nat) \<Rightarrow> ('a \<Rightarrow> nat) \<Rightarrow> ('a \<Rightarrow> nat) \<Rightarrow> ('a \<Rightarrow> bool) \<Rightarrow> bool" where
  "spends f str pay usr ok \<longleftrightarrow>
     (\<forall>t x t'. f t = Inr (x, t') \<longrightarrow> within t \<longrightarrow>
        within t' \<and> dt_stringBytes t + str x \<le> dt_stringBytes t' \<and> dt_payloadBytes t + pay x \<le> dt_payloadBytes t'
        \<and> dt_directedUsers t + usr x \<le> dt_directedUsers t' \<and> ok x)"

lemma spendsD:
  assumes "spends f str pay usr ok" "f t = Inr (x, t')" "within t"
  shows "within t'" "dt_stringBytes t + str x \<le> dt_stringBytes t'" "dt_payloadBytes t + pay x \<le> dt_payloadBytes t'"
    "dt_directedUsers t + usr x \<le> dt_directedUsers t'" "ok x"
  using assms by (auto simp: spends_def)

abbreviation (input) none :: "'a \<Rightarrow> nat" where "none \<equiv> \<lambda>_. 0"

lemma spends_readString: "spends (readString p) length none none (\<lambda>_. True)"
  by (auto simp: spends_def readString_def within_def copyCStringPointer_def strnlen_def Let_def split: option.splits if_splits)

lemma spends_reserveStringBytes: "spends (reserveStringBytes n) (\<lambda>_. n) none none (\<lambda>_. True)"
  by (auto simp: spends_def reserveStringBytes_def within_def split: if_splits)

lemma spends_addPayload: "spends (addPayload n) none (\<lambda>_. n) none (\<lambda>_. True)"
  by (auto simp: spends_def addPayload_def within_def split: if_splits)

lemma spends_addDirectedUsers: "spends (addDirectedUsers n) none none (\<lambda>_. n) (\<lambda>_. True)"
  by (auto simp: spends_def addDirectedUsers_def within_def split: if_splits)

text \<open>A loop spends the sum of what its rounds spend.\<close>

lemma spends_read_each:
  assumes "\<And>i. i \<in> set is \<Longrightarrow> spends (f i) (\<lambda>xs. sum_list (map str xs)) (\<lambda>xs. sum_list (map pay xs))
      (\<lambda>xs. sum_list (map usr xs)) (\<lambda>xs. list_all ok xs \<and> length xs \<le> 1)"
  shows "spends (read_each f is) (\<lambda>xs. sum_list (map str xs)) (\<lambda>xs. sum_list (map pay xs))
      (\<lambda>xs. sum_list (map usr xs)) (\<lambda>xs. list_all ok xs \<and> length xs \<le> length is)"
  using assms
proof (induction "is")
  case Nil
  then show ?case by (simp add: spends_def)
next
  case (Cons i "is")
  note h = Cons.prems [OF list.set_intros(1)] and ih = Cons.IH [OF Cons.prems [OF list.set_intros(2)]]
  show ?case unfolding spends_def
  proof (intro allI impI)
    fix t xs t'
    assume e: "read_each f (i # is) t = Inr (xs, t')" and w: "within t"
    then obtain ys t1 zs where p: "f i t = Inr (ys, t1)" "read_each f is t1 = Inr (zs, t')" "xs = ys @ zs"
      by (auto simp: and_then_Inr)
    note a = spendsD [OF h p(1) w]
    note b = spendsD [OF ih p(2) a(1)]
    show "within t' \<and> dt_stringBytes t + sum_list (map str xs) \<le> dt_stringBytes t'
        \<and> dt_payloadBytes t + sum_list (map pay xs) \<le> dt_payloadBytes t'
        \<and> dt_directedUsers t + sum_list (map usr xs) \<le> dt_directedUsers t' \<and> list_all ok xs \<and> length xs \<le> length (i # is)"
      using a b p(3) by auto
  qed
qed

lemma spends_readOne:
  assumes "spends (f i) str pay usr ok"
  shows "spends (readOne f i) (\<lambda>xs. sum_list (map str xs)) (\<lambda>xs. sum_list (map pay xs)) (\<lambda>xs. sum_list (map usr xs))
    (\<lambda>xs. list_all ok xs \<and> length xs \<le> 1)"
  using assms unfolding spends_def readOne_def by (auto simp: and_then_Inr)

section \<open>JIDs\<close>

definition jid_bytes :: "JID \<Rightarrow> nat" where
  "jid_bytes j = length (jid_AppKey j) + length (jid_Name j) + length (jid_Domain j) + length (jid_ClientResource j)"

definition jid_limited :: "JID \<Rightarrow> bool" where
  "jid_limited j \<longleftrightarrow> list_all (\<lambda>s. length s \<le> MaxJIDComponentBytes) [jid_AppKey j, jid_Name j, jid_Domain j, jid_ClientResource j]"

lemma jid_lengths_sound:
  "jid_lengths ps acc = Inr (ls, acc') \<Longrightarrow>
     length ls = length ps \<and> acc' = acc + sum_list ls \<and> list_all (\<lambda>n. n \<le> MaxJIDComponentBytes) ls"
proof (induction ps acc arbitrary: ls acc' rule: jid_lengths.induct)
  case (2 ps acc)
  then obtain ls' where "jid_lengths ps acc = Inr (ls', acc')" "ls = 0 # ls'" by (auto simp: and_then_Inr)
  then show ?case using 2 by fastforce
next
  case (3 s ps acc)
  let ?n = "strnlen s (MaxJIDComponentBytes + 1)"
  have n: "\<not> ?n > MaxJIDComponentBytes" "\<not> acc > MaxJIDBytes - ?n" using 3(2) by (auto simp: Let_def split: if_splits)
  then obtain ls' where "jid_lengths ps (acc + ?n) = Inr (ls', acc')" "ls = ?n # ls'" using 3(2) by (auto simp: and_then_Inr Let_def)
  then show ?case using 3(1) [OF refl n] n by fastforce
qed simp

lemma length_copyCStringPointer: "length (copyCStringPointer p n) \<le> n"
  by (simp add: copyCStringPointer_def split: option.splits)

lemma spends_readJID: "spends (readJID v) jid_bytes none none jid_limited"
  unfolding spends_def
proof (intro allI impI)
  fix t j t'
  assume e: "readJID v t = Inr (j, t')" and w: "within t"
  then obtain ls acc where l: "jid_lengths (jid_pointers v) 0 = Inr (ls, acc)" and r: "reserveStringBytes acc t = Inr ((), t')"
    and j: "j = \<lparr>jid_AppKey = copyCStringPointer (ej_app_key v) (ls ! 0), jid_Name = copyCStringPointer (ej_name v) (ls ! 1),
      jid_Domain = copyCStringPointer (ej_domain v) (ls ! 2), jid_ClientResource = copyCStringPointer (ej_resource v) (ls ! 3)\<rparr>"
    by (auto simp: readJID_def and_then_Inr)
  obtain a b c d where ls: "ls = [a, b, c, d]" "acc = a + b + c + d"
    "a \<le> MaxJIDComponentBytes" "b \<le> MaxJIDComponentBytes" "c \<le> MaxJIDComponentBytes" "d \<le> MaxJIDComponentBytes"
    using jid_lengths_sound [OF l] by (auto simp: jid_pointers_def length_Suc_conv eval_nat_numeral)
  have c: "length (jid_AppKey j) \<le> a" "length (jid_Name j) \<le> b" "length (jid_Domain j) \<le> c" "length (jid_ClientResource j) \<le> d"
    unfolding j ls(1) by (simp_all add: length_copyCStringPointer)
  then have "jid_bytes j \<le> acc" "jid_limited j" using ls by (simp_all add: jid_bytes_def jid_limited_def)
  then show "within t' \<and> dt_stringBytes t + jid_bytes j \<le> dt_stringBytes t' \<and> dt_payloadBytes t + 0 \<le> dt_payloadBytes t'
      \<and> dt_directedUsers t + 0 \<le> dt_directedUsers t' \<and> jid_limited j"
    using spendsD [OF spends_reserveStringBytes r w] by simp
qed

lemma spends_readJIDIf: "spends (readJIDIf v) jid_bytes none none jid_limited"
proof (cases v)
  case None
  then show ?thesis by (simp add: spends_def readJIDIf_def jid_bytes_def jid_limited_def emptyJID_def)
next
  case (Some j)
  have "readJIDIf v = readJID j" by (rule ext) (simp add: readJIDIf_def Some)
  then show ?thesis using spends_readJID by simp
qed

section \<open>Frames\<close>

definition status_strings :: "Status \<Rightarrow> nat" where
  "status_strings st = length (st_Reason st) + sum_list (map (\<lambda>r. length (fst r)) (fst (st_Redirects st)))"

definition status_limited :: "Status \<Rightarrow> bool" where
  "status_limited st \<longleftrightarrow> length (fst (st_Redirects st)) \<le> snd (st_Redirects st) \<and> snd (st_Redirects st) \<le> MaxFrameCollectionItems"

definition opt_size :: "('a \<Rightarrow> nat) \<Rightarrow> 'a option \<Rightarrow> nat" where
  "opt_size f o' = (case o' of None \<Rightarrow> 0 | Some x \<Rightarrow> f x)"

lemma opt_size_simps [simp]: "opt_size f None = 0" "opt_size f (Some x) = f x"
  by (simp_all add: opt_size_def)

lemma spends_readRedirect:
  "spends (\<lambda>t. and_then (readString (ef_redirect_host f i) t) (\<lambda>(host, t1). Inr ((host, ef_redirect_port f i), t1)))
     (\<lambda>r. length (fst r)) none none (\<lambda>_. True)"
  using spends_readString [of "ef_redirect_host f i"] by (auto simp: spends_def and_then_Inr)

lemma spends_readStatus:
  "spends (readStatus f) (opt_size status_strings) none none (pred_option status_limited)"
  unfolding spends_def
proof (intro allI impI)
  fix t so t'
  assume e: "readStatus f t = Inr (so, t')" and w: "within t"
  let ?goal = "within t' \<and> dt_stringBytes t + opt_size status_strings so \<le> dt_stringBytes t' \<and> dt_payloadBytes t + 0 \<le> dt_payloadBytes t'
      \<and> dt_directedUsers t + 0 \<le> dt_directedUsers t' \<and> pred_option status_limited so"
  show ?goal
  proof (cases "ef_status_code f < 0")
    case True
    then show ?thesis using e w by (simp add: readStatus_def)
  next
    case False
    let ?r = "\<lambda>i t. and_then (readString (ef_redirect_host f i) t) (\<lambda>(host, t1). Inr ((host, ef_redirect_port f i), t1))"
    from e False obtain reason t1 rs where p: "readString (ef_status_reason f) t = Inr (reason, t1)"
      "ef_redirect_count f \<le> MaxFrameCollectionItems" "read_each (readOne ?r) [0..<ef_redirect_count f] t1 = Inr (rs, t')"
      "so = Some \<lparr>st_Code = ef_status_code f, st_Reason = reason, st_Redirects = (rs, ef_redirect_count f)\<rparr>"
      by (auto simp: readStatus_def and_then_Inr split: if_splits)
    note a = spendsD [OF spends_readString p(1) w]
    have "spends (readOne ?r i) (\<lambda>xs. sum_list (map (\<lambda>r. length (fst r)) xs)) (\<lambda>xs. sum_list (map none xs))
        (\<lambda>xs. sum_list (map none xs)) (\<lambda>xs. list_all (\<lambda>_. True) xs \<and> length xs \<le> 1)" for i
      by (rule spends_readOne) (rule spends_readRedirect)
    then have "spends (read_each (readOne ?r) [0..<ef_redirect_count f]) (\<lambda>xs. sum_list (map (\<lambda>r. length (fst r)) xs))
        (\<lambda>xs. sum_list (map none xs)) (\<lambda>xs. sum_list (map none xs))
        (\<lambda>xs. list_all (\<lambda>_. True) xs \<and> length xs \<le> length [0..<ef_redirect_count f])"
      by (intro spends_read_each)
    note b = spendsD [OF this p(3) a(1)]
    show ?thesis using a b p(2,4) by (simp add: status_strings_def status_limited_def)
  qed
qed

definition meta_strings :: "Meta \<Rightarrow> nat" where
  "meta_strings m = jid_bytes (me_From m) + jid_bytes (me_To m) + sum_list (map length (fst (me_DirectedUsers m)))"

definition meta_payload :: "Meta \<Rightarrow> nat" where
  "meta_payload m = length (fst (me_Payload m)) + length (fst (me_Attributes m))"

text \<open>The shape of a decoded meta: the slices are as large as their contents, the optional fields are unset.\<close>

definition meta_limited :: "Meta \<Rightarrow> bool" where
  "meta_limited m \<longleftrightarrow> jid_limited (me_From m) \<and> jid_limited (me_To m)
     \<and> snd (me_Payload m) = length (fst (me_Payload m)) \<and> snd (me_Attributes m) = length (fst (me_Attributes m))
     \<and> length (fst (me_DirectedUsers m)) \<le> snd (me_DirectedUsers m) \<and> me_Ext m = ([], 0) \<and> me_Environment m = []"

lemma length_readBytes: "readBytes b = Inr x \<Longrightarrow> length x \<le> snd b \<and> length x \<le> MaxCodecInputBytes"
  by (auto simp: readBytes_def split: if_splits option.splits)

lemma spends_users:
  "spends (read_each (readOne (\<lambda>u. readString (mv_directed_user m u))) [0..<n])
     (\<lambda>xs. sum_list (map length xs)) none none (\<lambda>xs. length xs \<le> n)"
proof -
  have "spends (readOne (\<lambda>u. readString (mv_directed_user m u)) i) (\<lambda>xs. sum_list (map length xs)) (\<lambda>xs. sum_list (map none xs))
      (\<lambda>xs. sum_list (map none xs)) (\<lambda>xs. list_all (\<lambda>_. True) xs \<and> length xs \<le> 1)" for i
    by (rule spends_readOne) (rule spends_readString)
  then have "spends (read_each (readOne (\<lambda>u. readString (mv_directed_user m u))) [0..<n]) (\<lambda>xs. sum_list (map length xs))
      (\<lambda>xs. sum_list (map none xs)) (\<lambda>xs. sum_list (map none xs)) (\<lambda>xs. list_all (\<lambda>_. True) xs \<and> length xs \<le> length [0..<n])"
    by (intro spends_read_each)
  then show ?thesis by (simp add: spends_def)
qed

lemma spends_readMeta:
  "spends (readMeta m) meta_strings meta_payload (\<lambda>x. snd (me_DirectedUsers x)) meta_limited"
  unfolding spends_def
proof (intro allI impI)
  fix t x t'
  assume e: "readMeta m t = Inr (x, t')" and w: "within t"
  then obtain t1 payload t2 attributes fj t3 to' t4 t5 users where p:
    "addPayload (snd (mv_payload m)) t = Inr ((), t1)" "readBytes (mv_payload m) = Inr payload"
    "addPayload (snd (mv_attributes m)) t1 = Inr ((), t2)" "readBytes (mv_attributes m) = Inr attributes"
    "readJIDIf (mv_from m) t2 = Inr (fj, t3)" "readJIDIf (mv_to m) t3 = Inr (to', t4)"
    "addDirectedUsers (mv_directed_user_count m) t4 = Inr ((), t5)"
    "read_each (readOne (\<lambda>u. readString (mv_directed_user m u))) [0..<mv_directed_user_count m] t5 = Inr (users, t')"
    and x: "x = emptyMeta\<lparr>me_ID := mv_id m, me_Timestamp := mv_timestamp m, me_Namespace := sint (mv_namespace m),
              me_Route := sint (mv_route_type m), me_Payload := (payload, length payload),
              me_Attributes := (attributes, length attributes), me_From := fj, me_To := to',
              me_DirectedUsers := (users, mv_directed_user_count m)\<rparr>"
    by (auto simp: readMeta_def and_then_Inr)
  note a1 = spendsD [OF spends_addPayload p(1) w]
  note a2 = spendsD [OF spends_addPayload p(3) a1(1)]
  note a3 = spendsD [OF spends_readJIDIf p(5) a2(1)]
  note a4 = spendsD [OF spends_readJIDIf p(6) a3(1)]
  note a5 = spendsD [OF spends_addDirectedUsers p(7) a4(1)]
  note a6 = spendsD [OF spends_users p(8) a5(1)]
  have s: "meta_strings x = jid_bytes fj + jid_bytes to' + sum_list (map length users)"
    "meta_payload x = length payload + length attributes" "snd (me_DirectedUsers x) = mv_directed_user_count m" "meta_limited x"
    using a3(5) a4(5) a6(5) by (simp_all add: x meta_strings_def meta_payload_def meta_limited_def emptyMeta_def)
  have l: "length payload \<le> snd (mv_payload m)" "length attributes \<le> snd (mv_attributes m)" using length_readBytes p(2,4) by blast+
  show "within t' \<and> dt_stringBytes t + meta_strings x \<le> dt_stringBytes t' \<and> dt_payloadBytes t + meta_payload x \<le> dt_payloadBytes t'
      \<and> dt_directedUsers t + snd (me_DirectedUsers x) \<le> dt_directedUsers t' \<and> meta_limited x"
    using a1 a2 a3 a4 a5 a6 s l by auto
qed

definition sync_strings :: "Sync \<Rightarrow> nat" where
  "sync_strings s = opt_size jid_bytes (sy_Queue s) + sum_list (map meta_strings (fst (sy_Metas s)))"

definition sync_payload :: "Sync \<Rightarrow> nat" where
  "sync_payload s = sum_list (map meta_payload (fst (sy_Metas s)))"

definition sync_users :: "Sync \<Rightarrow> nat" where
  "sync_users s = sum_list (map (\<lambda>m. snd (me_DirectedUsers m)) (fst (sy_Metas s)))"

definition sync_limited :: "Sync \<Rightarrow> bool" where
  "sync_limited s \<longleftrightarrow> length (fst (sy_Metas s)) \<le> snd (sy_Metas s) \<and> snd (sy_Metas s) \<le> MaxSyncMetas
     \<and> list_all meta_limited (fst (sy_Metas s)) \<and> pred_option jid_limited (sy_Queue s)"

lemma readSync_cases:
  assumes "readSync f st t = Inr (s, t')"
  obtains q t1 metas w where "ef_meta_count f \<le> MaxSyncMetas"
    "(case ef_queue f of None \<Rightarrow> Inr (None, t) | Some q \<Rightarrow> and_then (readJID q t) (\<lambda>(x, t1). Inr (Some x, t1))) = Inr (q, t1)"
    "read_each (readOne (\<lambda>i. readMeta (ef_meta f i))) [0..<ef_meta_count f] t1 = Inr (metas, t')"
    "sy_Status s = st" "sy_Queue s = q" "sy_Metas s = (metas, ef_meta_count f)" "SyncRetainedWeight (Some s) = Inr w"
  using assms by (auto simp: readSync_def and_then_Inr Let_def split: if_splits)

lemma readSync_limited:
  assumes "readSync f st t = Inr (s, t')" and "within t"
  shows "within t'" "dt_stringBytes t + sync_strings s \<le> dt_stringBytes t'" "dt_payloadBytes t + sync_payload s \<le> dt_payloadBytes t'"
    "dt_directedUsers t + sync_users s \<le> dt_directedUsers t'" "sync_limited s" "sy_Status s = st"
    "\<exists>w. SyncRetainedWeight (Some s) = Inr w"
proof -
  from assms(1) obtain q t1 metas w where p: "ef_meta_count f \<le> MaxSyncMetas"
    "(case ef_queue f of None \<Rightarrow> Inr (None, t) | Some q \<Rightarrow> and_then (readJID q t) (\<lambda>(x, t1). Inr (Some x, t1))) = Inr (q, t1)"
    "read_each (readOne (\<lambda>i. readMeta (ef_meta f i))) [0..<ef_meta_count f] t1 = Inr (metas, t')"
    and s: "sy_Status s = st" "sy_Queue s = q" "sy_Metas s = (metas, ef_meta_count f)" "SyncRetainedWeight (Some s) = Inr w"
    by (rule readSync_cases)
  have a: "within t1 \<and> dt_stringBytes t + opt_size jid_bytes q \<le> dt_stringBytes t1 \<and> dt_payloadBytes t \<le> dt_payloadBytes t1
      \<and> dt_directedUsers t \<le> dt_directedUsers t1 \<and> pred_option jid_limited q"
  proof (cases "ef_queue f")
    case None
    then show ?thesis using p(2) assms(2) by simp
  next
    case (Some j)
    then obtain x where "readJID j t = Inr (x, t1)" "q = Some x" using p(2) by (auto simp: and_then_Inr)
    then show ?thesis using spendsD [OF spends_readJID _ assms(2)] by fastforce
  qed
  have "spends (readOne (\<lambda>i. readMeta (ef_meta f i)) i) (\<lambda>xs. sum_list (map meta_strings xs)) (\<lambda>xs. sum_list (map meta_payload xs))
      (\<lambda>xs. sum_list (map (\<lambda>x. snd (me_DirectedUsers x)) xs)) (\<lambda>xs. list_all meta_limited xs \<and> length xs \<le> 1)" for i
    by (rule spends_readOne) (rule spends_readMeta)
  then have "spends (read_each (readOne (\<lambda>i. readMeta (ef_meta f i))) [0..<ef_meta_count f]) (\<lambda>xs. sum_list (map meta_strings xs))
      (\<lambda>xs. sum_list (map meta_payload xs)) (\<lambda>xs. sum_list (map (\<lambda>x. snd (me_DirectedUsers x)) xs))
      (\<lambda>xs. list_all meta_limited xs \<and> length xs \<le> length [0..<ef_meta_count f])"
    by (intro spends_read_each)
  note b = spendsD [OF this p(3) conjunct1 [OF a]]
  show "within t'" "sy_Status s = st" "\<exists>w. SyncRetainedWeight (Some s) = Inr w" by (use b s in auto)
  show "dt_stringBytes t + sync_strings s \<le> dt_stringBytes t'" "dt_payloadBytes t + sync_payload s \<le> dt_payloadBytes t'"
    "dt_directedUsers t + sync_users s \<le> dt_directedUsers t'" "sync_limited s"
    using a b s p(1) by (simp_all add: sync_strings_def sync_payload_def sync_users_def sync_limited_def)
qed

text \<open>The strings of a frame, and what its parts have to satisfy.\<close>

definition frame_strings :: "Frame \<Rightarrow> nat" where
  "frame_strings fm =
     opt_size (\<lambda>p. opt_size status_strings (pv_Status p) + length (pv_SessionID p)) (fr_Provision fm)
     + opt_size (\<lambda>u. opt_size status_strings (un_Status u) + sum_list (map jid_bytes (un_Queues u))) (fr_Unread fm)
     + opt_size jid_bytes (fr_Notice fm)
     + opt_size (\<lambda>s. opt_size status_strings (sy_Status s) + sync_strings s) (fr_Sync fm)
     + opt_size (\<lambda>l. opt_size status_strings (lo_Status l)) (fr_Logout fm)"

lemma readUnread_limited:
  assumes "readUnread f st t = Inr (u, t')" and "within t"
  shows "within t'" "dt_stringBytes t + sum_list (map jid_bytes (un_Queues u)) \<le> dt_stringBytes t'" "un_Status u = st"
    "length (un_Queues u) \<le> MaxFrameCollectionItems" "list_all jid_limited (un_Queues u)"
proof -
  let ?g = "\<lambda>i t. case ef_unread_queue f i of None \<Rightarrow> Inr ([], t) | Some j \<Rightarrow> readOne readJID j t"
  have p: "ef_unread_queue_count f \<le> MaxFrameCollectionItems"
    "read_each ?g [0..<ef_unread_queue_count f] t = Inr (un_Queues u, t')" "un_Status u = st"
    using assms(1) by (auto simp: readUnread_def and_then_Inr split: if_splits)
  have "spends (?g i) (\<lambda>xs. sum_list (map jid_bytes xs)) (\<lambda>xs. sum_list (map none xs)) (\<lambda>xs. sum_list (map none xs))
      (\<lambda>xs. list_all jid_limited xs \<and> length xs \<le> 1)" for i
  proof (cases "ef_unread_queue f i")
    case (Some j)
    have "?g i = readOne readJID j" by (rule ext) (simp add: Some)
    then show ?thesis using spends_readOne [of readJID j, OF spends_readJID] by simp
  qed (simp add: spends_def)
  then have "spends (read_each ?g [0..<ef_unread_queue_count f]) (\<lambda>xs. sum_list (map jid_bytes xs)) (\<lambda>xs. sum_list (map none xs))
      (\<lambda>xs. sum_list (map none xs)) (\<lambda>xs. list_all jid_limited xs \<and> length xs \<le> length [0..<ef_unread_queue_count f])"
    by (intro spends_read_each)
  note b = spendsD [OF this p(2) assms(2)]
  show "within t'" "dt_stringBytes t + sum_list (map jid_bytes (un_Queues u)) \<le> dt_stringBytes t'" "un_Status u = st"
    "length (un_Queues u) \<le> MaxFrameCollectionItems" "list_all jid_limited (un_Queues u)" using b p by auto
qed

lemma readProvision_limited:
  assumes "readProvision f st t = Inr (p, t')" and "within t"
  shows "within t'" "dt_stringBytes t + length (pv_SessionID p) \<le> dt_stringBytes t'" "pv_Status p = st"
    "length (pv_AuthToken p) \<le> MaxCodecInputBytes"
  using assms spendsD [OF spends_readString, of "ef_session_id f" t] length_readBytes [of "ef_auth_token f"]
  by (auto simp: readProvision_def and_then_Inr)

definition frame_limited :: "Frame \<Rightarrow> bool" where
  "frame_limited fm \<longleftrightarrow>
     frame_strings fm \<le> MaxSyncStringBytes
     \<and> pred_option (\<lambda>p. length (pv_AuthToken p) \<le> MaxCodecInputBytes \<and> pred_option status_limited (pv_Status p)) (fr_Provision fm)
     \<and> pred_option (\<lambda>u. length (un_Queues u) \<le> MaxFrameCollectionItems \<and> list_all jid_limited (un_Queues u)
          \<and> pred_option status_limited (un_Status u)) (fr_Unread fm)
     \<and> pred_option jid_limited (fr_Notice fm)
     \<and> pred_option (\<lambda>s. sync_limited s \<and> sync_payload s \<le> MaxSyncPayloadBytes \<and> sync_users s \<le> MaxSyncDirectedUsers
          \<and> pred_option status_limited (sy_Status s) \<and> (\<exists>w. SyncRetainedWeight (Some s) = Inr w)) (fr_Sync fm)
     \<and> pred_option (\<lambda>l. pred_option status_limited (lo_Status l)) (fr_Logout fm)"

lemma decodeFrame_limited:
  assumes "decodeFrame f = Inr fm"
  shows "frame_limited fm"
proof -
  obtain st t where st: "readStatus f newTracker = Inr (st, t)"
    using assms by (auto simp: decodeFrame_def Let_def and_then_Inr)
  have "within newTracker" by (simp add: within_def newTracker_def)
  note a = spendsD [OF spends_readStatus st this]
  have s: "opt_size status_strings st \<le> dt_stringBytes t" "dt_stringBytes t \<le> MaxSyncStringBytes" "pred_option status_limited st"
    using a by (simp_all add: within_def newTracker_def)
  let ?fm = "emptyFrame (sint (ef_command f)) (ef_trace_id f)"
  have empty: "fr_Provision ?fm = None" "fr_Unread ?fm = None" "fr_Notice ?fm = None" "fr_Sync ?fm = None" "fr_Logout ?fm = None"
    by (simp_all add: emptyFrame_def)
  have e: "(if ef_kind f = EM_CODEC_FRAME_PROVISION
         then and_then (readProvision f st t) (\<lambda>(p, _). Inr (?fm\<lparr>fr_Provision := Some p\<rparr>))
         else if ef_kind f = EM_CODEC_FRAME_UNREAD
         then and_then (readUnread f st t) (\<lambda>(u, _). Inr (?fm\<lparr>fr_Unread := Some u\<rparr>))
         else if ef_kind f = EM_CODEC_FRAME_NOTICE
         then (case ef_queue f of None \<Rightarrow> Inr ?fm
               | Some j \<Rightarrow> and_then (readJID j t) (\<lambda>(q, _). Inr (?fm\<lparr>fr_Notice := Some q\<rparr>)))
         else if ef_kind f = EM_CODEC_FRAME_SYNC_ACK \<or> ef_kind f = EM_CODEC_FRAME_SYNC_BATCH
         then and_then (readSync f st t) (\<lambda>(s, _). Inr (?fm\<lparr>fr_Sync := Some s\<rparr>))
         else if ef_kind f = EM_CODEC_FRAME_LOGOUT then Inr (?fm\<lparr>fr_Logout := Some \<lparr>lo_Status = st\<rparr>\<rparr>)
         else Inr ?fm) = Inr fm"
    using assms by (simp add: decodeFrame_def Let_def st)
  note unfolds = frame_limited_def frame_strings_def empty within_def
  consider (provision) "ef_kind f = EM_CODEC_FRAME_PROVISION" | (unread) "ef_kind f = EM_CODEC_FRAME_UNREAD"
    | (notice) "ef_kind f = EM_CODEC_FRAME_NOTICE" | (sync) "ef_kind f = EM_CODEC_FRAME_SYNC_ACK \<or> ef_kind f = EM_CODEC_FRAME_SYNC_BATCH"
    | (rest) "fm = ?fm \<or> fm = ?fm\<lparr>fr_Logout := Some \<lparr>lo_Status = st\<rparr>\<rparr>"
    using e by (simp split: if_splits)
  then show ?thesis
  proof cases
    case provision
    then obtain p t' where p: "readProvision f st t = Inr (p, t')" "fm = ?fm\<lparr>fr_Provision := Some p\<rparr>"
      using e by (auto simp: and_then_Inr)
    show ?thesis using readProvision_limited [OF p(1) a(1)] s by (simp add: p(2) unfolds)
  next
    case unread
    then obtain u t' where u: "readUnread f st t = Inr (u, t')" "fm = ?fm\<lparr>fr_Unread := Some u\<rparr>"
      using e by (auto simp: and_then_Inr)
    show ?thesis using readUnread_limited [OF u(1) a(1)] s by (simp add: u(2) unfolds)
  next
    case notice
    show ?thesis
    proof (cases "ef_queue f")
      case None
      then have "fm = ?fm" using e notice by simp
      then show ?thesis by (simp add: unfolds)
    next
      case (Some j)
      then obtain q t' where q: "readJID j t = Inr (q, t')" "fm = ?fm\<lparr>fr_Notice := Some q\<rparr>"
        using e notice by (auto simp: and_then_Inr)
      show ?thesis using spendsD [OF spends_readJID q(1) a(1)] s by (simp add: q(2) unfolds)
    qed
  next
    case sync
    then have "and_then (readSync f st t) (\<lambda>(s, _). Inr (?fm\<lparr>fr_Sync := Some s\<rparr>)) = Inr fm" using e by auto
    then obtain y t' where y: "readSync f st t = Inr (y, t')" "fm = ?fm\<lparr>fr_Sync := Some y\<rparr>" by (auto simp: and_then_Inr)
    show ?thesis using readSync_limited [OF y(1) a(1)] s by (simp add: y(2) unfolds)
  next
    case rest
    then show ?thesis using s by (elim disjE) (simp_all add: unfolds)
  qed
qed

section \<open>The memory charge of a decoded batch\<close>

lemma sized_le: "n \<le> 16777216 \<Longrightarrow> sized n"
  by (simp add: sized_def)

lemma sized_member: "x \<in> set xs \<Longrightarrow> sum_list (map f xs) \<le> 16777216 \<Longrightarrow> sized (f x)" for f :: "'a \<Rightarrow> nat"
  using member_le_sum_list [of "f x" "map f xs"] by (simp add: sized_le)

lemma jid_limited_sized: "jid_limited j \<Longrightarrow> sized_jid j"
  by (simp add: jid_limited_def sized_jid_def sized_le)

lemma meta_limited_sized:
  assumes "meta_limited m" and "meta_strings m \<le> MaxSyncStringBytes" and "meta_payload m \<le> MaxSyncPayloadBytes"
    and "snd (me_DirectedUsers m) \<le> MaxSyncDirectedUsers"
  shows "sized_meta m"
proof -
  have "list_all (\<lambda>u. sized (length u)) (fst (me_DirectedUsers m))"
    unfolding list_all_iff
  proof
    fix u assume "u \<in> set (fst (me_DirectedUsers m))"
    moreover have "sum_list (map length (fst (me_DirectedUsers m))) \<le> 16777216" using assms(2) unfolding meta_strings_def by linarith
    ultimately show "sized (length u)" by (rule sized_member)
  qed
  then show ?thesis using assms
    by (simp add: sized_meta_def meta_limited_def meta_payload_def jid_limited_sized sized_le)
qed

lemma sync_limited_sized:
  assumes "sync_limited s" and "sync_strings s + opt_size status_strings (sy_Status s) \<le> MaxSyncStringBytes"
    and "sync_payload s \<le> MaxSyncPayloadBytes" and "sync_users s \<le> MaxSyncDirectedUsers" and "pred_option status_limited (sy_Status s)"
  shows "sized_sync s"
proof -
  have metas: "sized_meta m" if m: "m \<in> set (fst (sy_Metas s))" for m
  proof (rule meta_limited_sized)
    show "meta_limited m" using assms(1) m by (auto simp: sync_limited_def list_all_iff)
    have "meta_strings m \<le> sum_list (map meta_strings (fst (sy_Metas s)))" using m by (intro member_le_sum_list) simp_all
    then show "meta_strings m \<le> MaxSyncStringBytes" using assms(2) by (simp add: sync_strings_def)
    have "meta_payload m \<le> sum_list (map meta_payload (fst (sy_Metas s)))" using m by (intro member_le_sum_list) simp_all
    then show "meta_payload m \<le> MaxSyncPayloadBytes" using assms(3) by (simp add: sync_payload_def)
    have "snd (me_DirectedUsers m) \<le> sum_list (map (\<lambda>m. snd (me_DirectedUsers m)) (fst (sy_Metas s)))"
      using m by (intro member_le_sum_list) simp_all
    then show "snd (me_DirectedUsers m) \<le> MaxSyncDirectedUsers" using assms(4) by (simp add: sync_users_def)
  qed
  have st: "sized_status st" if "sy_Status s = Some st" for st
  proof -
    have "list_all (\<lambda>r. sized (length (fst r))) (fst (st_Redirects st))"
      unfolding list_all_iff
    proof
      fix r assume "r \<in> set (fst (st_Redirects st))"
      moreover have "sum_list (map (\<lambda>r. length (fst r)) (fst (st_Redirects st))) \<le> 16777216"
        using assms(2) unfolding that opt_size_simps status_strings_def by linarith
      ultimately show "sized (length (fst r))" by (rule sized_member [where f = "\<lambda>r. length (fst r)"])
    qed
    then show ?thesis using assms(2,5) that by (simp add: sized_status_def status_strings_def status_limited_def sized_le)
  qed
  show ?thesis using assms(1) metas st
    by (auto simp: sized_sync_def sync_limited_def list_all_iff jid_limited_sized sized_le split: option.splits)
qed

text \<open>
  C35. What the native library hands out is bounded.  Whatever the library answers, a frame that \<open>DecodeFrame\<close>
  returns holds at most 1 MiB of strings in all, no JID component above 4 KiB, at most 4096 queues or
  redirects; a batch holds at most 256 messages, 2 MiB of payload and attributes and 1024 directed users;
  and the memory charge of a batch is defined, equal to the exact charge, and at most 8 MiB, so that the
  scheduler's later call of \<open>SyncRetainedWeight\<close> on it cannot fail.
\<close>

theorem decoded_frames_limited:
  assumes "DecodeFrame lib zlib handle data = Inr fm"
  shows "frame_limited fm
    \<and> (\<forall>s. fr_Sync fm = Some s \<longrightarrow> SyncRetainedWeight (Some s) = Inr (int (retained_spec s)) \<and> retained_spec s \<le> MaxSyncRetainedWeight)"
proof -
  obtain f where "decodeFrame f = Inr fm" using assms by (auto simp: DecodeFrame_def and_then_Inr split: if_splits)
  then have l: "frame_limited fm" by (rule decodeFrame_limited)
  have "SyncRetainedWeight (Some s) = Inr (int (retained_spec s)) \<and> retained_spec s \<le> MaxSyncRetainedWeight"
    if s: "fr_Sync fm = Some s" for s
  proof -
    have "sized_sync s" using l s by (intro sync_limited_sized) (simp_all add: frame_limited_def frame_strings_def)
    note c = SyncRetainedWeight_some [OF this]
    obtain w where "SyncRetainedWeight (Some s) = Inr w" using l s by (auto simp: frame_limited_def)
    then show ?thesis using c by (simp add: limited_def split: if_splits)
  qed
  with l show ?thesis by blast
qed

section \<open>A witness\<close>

text \<open>A library that decodes every frame to a batch with one short message.\<close>

definition exampleJIDView :: EMCodecJID where
  "exampleJIDView = \<lparr>ej_app_key = None, ej_name = Some ''u'', ej_domain = None, ej_resource = None\<rparr>"

definition exampleMetaView :: meta_view where
  "exampleMetaView = \<lparr>mv_id = 7, mv_timestamp = 0, mv_namespace = 1, mv_route_type = 0, mv_payload = (Some [1, 2, 3], 2),
     mv_attributes = (None, 0), mv_from = Some exampleJIDView, mv_to = None, mv_directed_user_count = 0,
     mv_directed_user = (\<lambda>_. None)\<rparr>"

definition exampleView :: EMCodecFrame where
  "exampleView = \<lparr>ef_command = 0, ef_trace_id = 0, ef_kind = EM_CODEC_FRAME_SYNC_BATCH, ef_status_code = -1,
     ef_status_reason = None, ef_redirect_count = 0, ef_redirect_host = (\<lambda>_. None), ef_redirect_port = (\<lambda>_. 0),
     ef_session_id = None, ef_auth_token = (None, 0), ef_ack_client_id = 0, ef_ack_server_id = 0, ef_timestamp = 0,
     ef_unread_queue_count = 0, ef_unread_queue = (\<lambda>_. None), ef_next_key = 5, ef_is_last = 1,
     ef_queue = Some exampleJIDView, ef_meta_count = 1, ef_meta = (\<lambda>_. exampleMetaView)\<rparr>"

definition exampleLibrary :: em_library where
  "exampleLibrary = \<lparr>lib_calloc = (\<lambda>_. True), lib_encode_provision = (\<lambda>_ _ _ _. (1, None, 0)), lib_encode_unread = (1, None, 0),
     lib_encode_logout = (\<lambda>_ _. (1, None, 0)), lib_encode_sync_queue = (\<lambda>_ _. (1, None, 0)),
     lib_encode_sync_meta = (\<lambda>_ _ _ _ _ _ _ _. (1, None, 0)), lib_encode_message_body = (\<lambda>_. (1, None, 0)),
     lib_decode_frame = (\<lambda>_. (0, exampleView)),
     lib_decode_message_body = (\<lambda>_. (3, \<lparr>bv_message_type = 0, bv_from = None, bv_to = None, bv_key_value_count = 0,
       bv_key_value = (\<lambda>_. None), bv_content_count = 0, bv_content = (\<lambda>_. \<lparr>cv_type = 0, cv_text = None, cv_action = None,
         cv_custom_event = None, cv_raw = (None, 0), cv_key_value_count = 0, cv_key_value = (\<lambda>_. None)\<rparr>)\<rparr>)),
     lib_decode_statistic = (\<lambda>_. (3, \<lparr>sv_operation = 0, sv_device = None, sv_reason = None, sv_session_id = None\<rparr>))\<rparr>"

definition exampleDecoded :: Sync where
  "exampleDecoded = emptySync\<lparr>sy_Metas := ([emptyMeta\<lparr>me_ID := 7, me_Namespace := 1, me_Payload := ([1, 2], 2),
     me_From := emptyJID\<lparr>jid_Name := ''u''\<rparr>\<rparr>], 1), sy_NextKey := 5, sy_Queue := Some (emptyJID\<lparr>jid_Name := ''u''\<rparr>), sy_IsLast := True\<rparr>"

lemma exampleDecoded_weight: "\<exists>w. SyncRetainedWeight (Some exampleDecoded) = Inr w"
proof -
  have "sized_sync exampleDecoded"
    by (simp add: exampleDecoded_def sized_sync_def sized_jid_def sized_meta_def sized_def emptySync_def emptyMeta_def emptyJID_def)
  moreover have "retained_spec exampleDecoded \<le> MaxSyncRetainedWeight"
    by (simp add: exampleDecoded_def retained_spec_def charge_sync_def charge_meta_def charge_jid_def charge_def round_up_def
        emptySync_def emptyMeta_def emptyJID_def)
  ultimately show ?thesis using SyncRetainedWeight_some [of exampleDecoded] by auto
qed

lemma exampleView_decodes: "decodeFrame exampleView = Inr ((emptyFrame 0 0)\<lparr>fr_Sync := Some exampleDecoded\<rparr>)"
proof -
  have j: "readJID exampleJIDView t = Inr (emptyJID\<lparr>jid_Name := ''u''\<rparr>, t\<lparr>dt_stringBytes := Suc (dt_stringBytes t)\<rparr>)"
    if "dt_stringBytes t \<le> 10" for t
    using that by (simp add: readJID_def jid_pointers_def exampleJIDView_def strnlen_def reserveStringBytes_def Let_def
        copyCStringPointer_def emptyJID_def)
  have m: "readMeta exampleMetaView (newTracker\<lparr>dt_stringBytes := 1\<rparr>)
      = Inr (hd (fst (sy_Metas exampleDecoded)), \<lparr>dt_stringBytes = 2, dt_payloadBytes = 2, dt_directedUsers = 0\<rparr>)"
    by (simp add: readMeta_def exampleMetaView_def addPayload_def readBytes_def readJIDIf_def addDirectedUsers_def newTracker_def j
        exampleDecoded_def emptyMeta_def)
  obtain w where w: "SyncRetainedWeight (Some exampleDecoded) = Inr w" using exampleDecoded_weight by blast
  have "readSync exampleView None newTracker = Inr (exampleDecoded, \<lparr>dt_stringBytes = 2, dt_payloadBytes = 2, dt_directedUsers = 0\<rparr>)"
    using w m by (simp add: readSync_def exampleView_def j newTracker_def readOne_def exampleDecoded_def emptySync_def Let_def)
  then show ?thesis by (simp add: decodeFrame_def readStatus_def exampleView_def Let_def)
qed

theorem decoded_frames_limited_witness:
  "\<exists>fm s. DecodeFrame exampleLibrary (\<lambda>_. Inl closedError) True [] = Inr fm \<and> fr_Sync fm = Some s
    \<and> retained_spec s \<le> MaxSyncRetainedWeight"
proof -
  obtain fm s where d: "decodeFrame exampleView = Inr fm" "fr_Sync fm = Some s" using exampleView_decodes by auto
  have "decompressEnvelopePayload (\<lambda>_. Inl closedError) [] = Inr []"
    by (simp add: decompressEnvelopePayload_def scanEnvelope_def scan_loop.simps zeroScan_def)
  then have e: "DecodeFrame exampleLibrary (\<lambda>_. Inl closedError) True [] = Inr fm"
    using d(1) by (simp add: DecodeFrame_def exampleLibrary_def checked_def codecError_def)
  then show ?thesis using decoded_frames_limited [OF e] d(2) by blast
qed

end
