(* ===== verification/Native_Round_Trip.thy ===== *)
theory Native_Round_Trip
  imports Native_Limits Message_Properties
begin

text \<open>
  Message bodies through the C structures and back.  The library is only relied on for presenting, when it
  decodes the body of the message at hand, the fields that were in the request it encoded; everything else
  is the adapter's own conversion.  On top of it: the snapshot that \<open>OnWillSend\<close> gets is what the receiver parses, and a string
  with a zero byte does not survive.
\<close>

section \<open>What C strings keep\<close>

definition c_text :: "c_string \<Rightarrow> string" where
  "c_text p = (case p of None \<Rightarrow> [] | Some s \<Rightarrow> s)"

definition nul_free :: "string \<Rightarrow> bool" where
  "nul_free s \<longleftrightarrow> nul \<notin> set s"

lemma CString_nul_free: "nul_free s \<Longrightarrow> CString s = s"
  by (auto simp: CString_def nul_free_def takeWhile_eq_all_conv)

lemma c_text_cstr: "nul_free s \<Longrightarrow> c_text (cstr s) = s"
  by (simp add: c_text_def cstr_def CString_nul_free)

lemma readString_text: "readString p t = Inr (x, t') \<Longrightarrow> x = c_text p"
  by (auto simp: readString_def c_text_def copyCStringPointer_def strnlen_def Let_def split: option.splits if_splits)

lemma jid_lengths_text:
  "jid_lengths ps acc = Inr (ls, acc') \<Longrightarrow> ls = map (\<lambda>p. length (c_text p)) ps"
proof (induction ps acc arbitrary: ls acc' rule: jid_lengths.induct)
  case (2 ps acc)
  then obtain ls' where "jid_lengths ps acc = Inr (ls', acc')" "ls = 0 # ls'" by (auto simp: and_then_Inr)
  then show ?case using 2(1) by (simp add: c_text_def)
next
  case (3 s ps acc)
  let ?n = "strnlen s (MaxJIDComponentBytes + 1)"
  have n: "\<not> ?n > MaxJIDComponentBytes" "\<not> acc > MaxJIDBytes - ?n" using 3(2) by (auto simp: Let_def split: if_splits)
  then obtain ls' where "jid_lengths ps (acc + ?n) = Inr (ls', acc')" "ls = ?n # ls'" using 3(2) by (auto simp: and_then_Inr Let_def)
  moreover have "?n = length s" using n(1) by (auto simp: strnlen_def)
  ultimately show ?case using 3(1) [OF refl n] by (simp add: c_text_def)
qed simp

lemma copy_text: "copyCStringPointer p (length (c_text p)) = c_text p"
  by (simp add: copyCStringPointer_def c_text_def split: option.splits)

definition jid_text :: "EMCodecJID \<Rightarrow> JID" where
  "jid_text v = \<lparr>jid_AppKey = c_text (ej_app_key v), jid_Name = c_text (ej_name v), jid_Domain = c_text (ej_domain v),
     jid_ClientResource = c_text (ej_resource v)\<rparr>"

lemma readJID_text:
  assumes "readJID v t = Inr (x, t')"
  shows "x = jid_text v"
proof -
  obtain ls acc where l: "jid_lengths (jid_pointers v) 0 = Inr (ls, acc)"
    and x: "x = \<lparr>jid_AppKey = copyCStringPointer (ej_app_key v) (ls ! 0), jid_Name = copyCStringPointer (ej_name v) (ls ! 1),
      jid_Domain = copyCStringPointer (ej_domain v) (ls ! 2), jid_ClientResource = copyCStringPointer (ej_resource v) (ls ! 3)\<rparr>"
    using assms by (auto simp: readJID_def and_then_Inr)
  show ?thesis unfolding x jid_lengths_text [OF l] by (simp add: jid_pointers_def jid_text_def copy_text eval_nat_numeral)
qed

lemma readJIDIf_text: "readJIDIf v t = Inr (x, t') \<Longrightarrow> x = (case v of None \<Rightarrow> emptyJID | Some j \<Rightarrow> jid_text j)"
  by (auto simp: readJIDIf_def split: option.splits dest: readJID_text)

section \<open>What the library promises\<close>

definition same_text :: "c_string \<Rightarrow> c_string \<Rightarrow> bool" where
  "same_text p q \<longleftrightarrow> c_text p = c_text q"

definition same_jid :: "EMCodecJID option \<Rightarrow> EMCodecJID \<Rightarrow> bool" where
  "same_jid v j \<longleftrightarrow> (case v of None \<Rightarrow> emptyJID | Some i \<Rightarrow> jid_text i) = jid_text j"

text \<open>Of a key and value only the field that its type uses is kept.\<close>

definition same_kv :: "EMCodecKeyValue \<Rightarrow> EMCodecKeyValue \<Rightarrow> bool" where
  "same_kv v x \<longleftrightarrow> same_text (ek_key v) (ek_key x) \<and> ek_type v = ek_type x
     \<and> (sint (ek_type x) \<in> {KindBool, KindInt, KindUint, KindLong} \<longrightarrow> ek_integer_value v = ek_integer_value x)
     \<and> (sint (ek_type x) \<in> {KindFloat, KindDouble} \<longrightarrow> ek_number_value v = ek_number_value x)
     \<and> (sint (ek_type x) \<in> {KindString, KindJSONString} \<longrightarrow> same_text (ek_string_value v) (ek_string_value x))"

definition same_kvs :: "nat \<Rightarrow> (nat \<Rightarrow> EMCodecKeyValue option) \<Rightarrow> EMCodecKeyValue list \<Rightarrow> bool" where
  "same_kvs count get xs \<longleftrightarrow> count = length xs \<and> (\<forall>i < length xs. \<exists>v. get i = Some v \<and> same_kv v (xs ! i))"

definition same_content :: "content_view \<Rightarrow> EMCodecMessageContent \<Rightarrow> bool" where
  "same_content v x \<longleftrightarrow> cv_type v = em_type x \<and> same_text (cv_text v) (em_text x) \<and> same_text (cv_action v) (em_action x)
     \<and> same_text (cv_custom_event v) (em_custom_event x) \<and> same_kvs (cv_key_value_count v) (cv_key_value v) (em_values x)"

definition presents :: "body_view \<Rightarrow> EMCodecSendRequest \<Rightarrow> bool" where
  "presents v r \<longleftrightarrow> bv_message_type v = er_message_type r \<and> same_jid (bv_from v) (er_from r) \<and> same_jid (bv_to v) (er_to r)
     \<and> same_kvs (bv_key_value_count v) (bv_key_value v) (er_extensions r)
     \<and> bv_content_count v = length (er_contents r)
     \<and> (\<forall>i < length (er_contents r). same_content (bv_content v i) (er_contents r ! i))"

text \<open>
  For one message body: if the library encodes the request made of it and decodes the bytes again, the view
  it then offers presents that request.  The header of the library does not say so; it is what
  \<open>TestNativeCodecSemanticRoundTrip\<close> (\<open>codec_darwin_test.go\<close>) expects of it, over every kind of value.
\<close>

definition reads_back :: "em_library \<Rightarrow> MessageBody \<Rightarrow> bool" where
  "reads_back lib b \<longleftrightarrow>
     (\<forall>r out p v. makeRequest lib b = Inr r \<and> lib_encode_message_body lib r = (EM_CODEC_OK, out) \<and> takeBuffer out = Inr p
        \<and> lib_decode_message_body lib p = (EM_CODEC_OK, v) \<longrightarrow> presents v r)"

section \<open>Bodies that differ only in unused fields\<close>

definition kv_same :: "KeyValue \<Rightarrow> KeyValue \<Rightarrow> bool" where
  "kv_same x y \<longleftrightarrow> kv_Key x = kv_Key y \<and> kv_Kind x = kv_Kind y
     \<and> (kv_Kind x = KindBool \<longrightarrow> kv_Bool x = kv_Bool y)
     \<and> (kv_Kind x \<in> {KindInt, KindLong} \<longrightarrow> kv_Int64 x = kv_Int64 y)
     \<and> (kv_Kind x = KindUint \<longrightarrow> kv_Uint64 x = kv_Uint64 y)
     \<and> (kv_Kind x = KindFloat \<longrightarrow> kv_Float x = kv_Float y)
     \<and> (kv_Kind x = KindDouble \<longrightarrow> kv_Double x = kv_Double y)
     \<and> (kv_Kind x \<in> {KindString, KindJSONString} \<longrightarrow> kv_String x = kv_String y)"

definition content_same :: "Content \<Rightarrow> Content \<Rightarrow> bool" where
  "content_same x y \<longleftrightarrow> co_Kind x = co_Kind y \<and> co_Text x = co_Text y \<and> co_Action x = co_Action y \<and> co_Event x = co_Event y
     \<and> co_RawPayload x = co_RawPayload y \<and> list_all2 kv_same (co_Params x) (co_Params y)
     \<and> list_all2 kv_same (co_CustomExts x) (co_CustomExts y)"

definition body_same :: "MessageBody \<Rightarrow> MessageBody \<Rightarrow> bool" where
  "body_same x y \<longleftrightarrow> mb_Kind x = mb_Kind y \<and> mb_From x = mb_From y \<and> mb_To x = mb_To y
     \<and> list_all2 content_same (mb_Contents x) (mb_Contents y) \<and> list_all2 kv_same (mb_Ext x) (mb_Ext y)"

lemma kv_same_decode: "kv_same x y \<Longrightarrow> decode_value x = decode_value y"
  by (auto simp: kv_same_def decode_value_def)

lemma kv_same_decodeKeyValues:
  assumes "list_all2 kv_same xs ys"
  shows "decodeKeyValues xs = decodeKeyValues ys"
proof -
  have "fold (\<lambda>value result. case decode_value value of None \<Rightarrow> result
             | Some decoded \<Rightarrow> AList.update (kv_Key value) decoded result) xs r =
        fold (\<lambda>value result. case decode_value value of None \<Rightarrow> result
             | Some decoded \<Rightarrow> AList.update (kv_Key value) decoded result) ys r" for r
    using assms
  proof (induction arbitrary: r rule: list_all2_induct)
    case (Cons x xs y ys)
    then show ?case using kv_same_decode [of x y] by (simp add: kv_same_def split: option.split)
  qed simp
  then show ?thesis by (simp add: decodeKeyValues_def)
qed

lemma kv_same_protocolKVs: "list_all2 kv_same xs ys \<Longrightarrow> protocolKVs xs = protocolKVs ys"
  by (induction rule: list_all2_induct) (auto simp: protocolKVs_def kv_same_def Let_def)

text \<open>The SDK does not tell such bodies apart.\<close>

lemma body_same_message:
  assumes "body_same x y"
  shows "messageFromProtocol jl meta x = messageFromProtocol jl meta y"
proof -
  have c: "list_all2 content_same (mb_Contents x) (mb_Contents y)" using assms by (simp add: body_same_def)
  have "map (\<lambda>content. \<lparr>pc_Type = co_Kind content, pc_Text = co_Text content, pc_Action = co_Action content,
            pc_Params = protocolKVs (co_Params content), pc_CustomEvent = co_Event content,
            pc_CustomExts = protocolKVs (co_CustomExts content)\<rparr>) (mb_Contents x)
      = map (\<lambda>content. \<lparr>pc_Type = co_Kind content, pc_Text = co_Text content, pc_Action = co_Action content,
            pc_Params = protocolKVs (co_Params content), pc_CustomEvent = co_Event content,
            pc_CustomExts = protocolKVs (co_CustomExts content)\<rparr>) (mb_Contents y)"
    using c by (induction rule: list_all2_induct) (auto simp: content_same_def kv_same_protocolKVs)
  moreover have "(case mb_Contents x of [] \<Rightarrow> None | c # cs \<Rightarrow> Some (decodeContent c))
      = (case mb_Contents y of [] \<Rightarrow> None | c # cs \<Rightarrow> Some (decodeContent c))"
    using c by (cases "mb_Contents x"; cases "mb_Contents y") (auto simp: content_same_def decodeContent_def kv_same_decodeKeyValues)
  moreover have "protocolKVs (mb_Ext x) = protocolKVs (mb_Ext y)" "decodeKeyValues (mb_Ext x) = decodeKeyValues (mb_Ext y)"
    using assms by (simp_all add: body_same_def kv_same_protocolKVs kv_same_decodeKeyValues)
  ultimately show ?thesis using assms by (simp add: messageFromProtocol_def protocolJSONFromWire_def body_same_def)
qed

section \<open>Bodies the SDK builds\<close>

definition plain_kv :: "KeyValue \<Rightarrow> bool" where
  "plain_kv x \<longleftrightarrow> 1 \<le> kv_Kind x \<and> kv_Kind x \<le> 8 \<and> nul_free (kv_Key x) \<and> nul_free (kv_String x)
     \<and> (kv_Kind x = KindBool \<longrightarrow> kv_Int64 x = 0) \<and> (kv_Kind x = KindFloat \<longrightarrow> \<not> isNaN32 (kv_Float x))"

definition plain_content :: "Content \<Rightarrow> bool" where
  "plain_content x \<longleftrightarrow> co_Kind x \<in> {ContentText, ContentCommand, ContentCustom} \<and> nul_free (co_Text x) \<and> nul_free (co_Action x)
     \<and> nul_free (co_Event x) \<and> co_RawPayload x = [] \<and> (co_Kind x \<noteq> ContentCommand \<longrightarrow> co_Params x = [])
     \<and> (co_Kind x \<noteq> ContentCustom \<longrightarrow> co_CustomExts x = []) \<and> list_all plain_kv (co_Params x) \<and> list_all plain_kv (co_CustomExts x)"

definition plain_jid :: "JID \<Rightarrow> bool" where
  "plain_jid j \<longleftrightarrow> nul_free (jid_AppKey j) \<and> nul_free (jid_Name j) \<and> nul_free (jid_Domain j) \<and> nul_free (jid_ClientResource j)"

definition plain_body :: "MessageBody \<Rightarrow> bool" where
  "plain_body b \<longleftrightarrow> mb_Kind b \<in> {MessageChat, MessageGroupChat} \<and> plain_jid (mb_From b) \<and> plain_jid (mb_To b)
     \<and> list_all plain_content (mb_Contents b) \<and> list_all plain_kv (mb_Ext b)"

lemma kind_word: "0 \<le> k \<Longrightarrow> k \<le> 8 \<Longrightarrow> sint (word_of_int k :: 32 word) = k"
  by (subst sint_sbintrunc') (simp add: signed_take_bit_int_eq_self)

lemma jid_text_makeJID: "plain_jid j \<Longrightarrow> jid_text (makeJID j) = j"
  by (cases j) (simp add: jid_text_def makeJID_def plain_jid_def c_text_cstr)

lemma readKV_same:
  assumes "readKV v t = Inr (x, t')" and "same_kv v (makeKV kv)" and "plain_kv kv"
  shows "kv_same kv x"
proof -
  have x: "x = \<lparr>kv_Key = c_text (ek_key v), kv_Kind = sint (ek_type v), kv_Bool = (ek_integer_value v \<noteq> 0), kv_Int64 = ek_integer_value v,
             kv_Uint64 = word_of_int (ek_integer_value v), kv_Float = float32_of (ek_number_value v),
             kv_Double = ek_number_value v, kv_String = c_text (ek_string_value v)\<rparr>"
    using assms(1) by (auto simp: readKV_def and_then_Inr dest: readString_text)
  have k: "sint (ek_type (makeKV kv)) = kv_Kind kv" "1 \<le> kv_Kind kv" "kv_Kind kv \<le> 8"
    using assms(3) by (simp_all add: makeKV_def plain_kv_def kind_word)
  have key: "c_text (ek_key v) = kv_Key kv" and ty: "sint (ek_type v) = kv_Kind kv"
    using assms(2,3) k by (simp_all add: same_kv_def same_text_def makeKV_def plain_kv_def c_text_cstr)
  note s = assms(2) [unfolded same_kv_def k(1)]
  have "kv_Kind kv \<in> {KindString, KindJSONString} \<Longrightarrow> c_text (ek_string_value v) = kv_String kv"
    using s assms(3) by (auto simp: same_text_def makeKV_def plain_kv_def c_text_cstr)
  moreover have "kv_Kind kv = KindFloat \<Longrightarrow> float32_of (ek_number_value v) = kv_Float kv"
    using s assms(3) by (simp add: makeKV_def plain_kv_def float_round_trip)
  ultimately show ?thesis using s assms(3) key ty by (auto simp: kv_same_def x makeKV_def plain_kv_def)
qed

text \<open>A loop in which every round appends one element.\<close>

lemma read_each_pointwise:
  assumes "read_each f is t = Inr (xs, t')" and "\<And>i t y t'. i \<in> set is \<Longrightarrow> f i t = Inr (y, t') \<Longrightarrow> \<exists>x. y = [x] \<and> P i x"
  shows "list_all2 P is xs"
  using assms
proof (induction "is" arbitrary: t xs)
  case (Cons i "is")
  from Cons.prems(1) obtain ys t1 zs where p: "f i t = Inr (ys, t1)" "read_each f is t1 = Inr (zs, t')" "xs = ys @ zs"
    by (auto simp: and_then_Inr)
  obtain x where "ys = [x]" "P i x" using Cons.prems(2) [OF list.set_intros(1) p(1)] by blast
  moreover have "list_all2 P is zs" using Cons.prems(2) by (intro Cons.IH [OF p(2)]) simp
  ultimately show ?case using p(3) by simp
qed simp

lemma list_all2_upt: "list_all2 P [0..<length ys] xs \<Longrightarrow> (\<And>i x. i < length ys \<Longrightarrow> P i x \<Longrightarrow> Q (ys ! i) x) \<Longrightarrow> list_all2 Q ys xs"
  by (auto simp: list_all2_conv_all_nth)

lemma readKVs_same:
  assumes "readKVs count get t = Inr (ks, t')" and "same_kvs count get (map makeKV xs)" and "list_all plain_kv xs"
  shows "list_all2 kv_same xs ks"
proof -
  let ?f = "\<lambda>i t. case get i of None \<Rightarrow> Inr ([], t) | Some v \<Rightarrow> readOne readKV v t"
  have n: "count = length xs" using assms(2) by (simp add: same_kvs_def)
  have r: "read_each ?f [0..<length xs] t = Inr (ks, t')" using assms(1) by (simp add: readKVs_def n split: if_splits)
  have "list_all2 (\<lambda>i x. kv_same (xs ! i) x) [0..<length xs] ks"
  proof (rule read_each_pointwise [OF r])
    fix i t y t'
    assume i: "i \<in> set [0..<length xs]" and e: "?f i t = Inr (y, t')"
    obtain v where v: "get i = Some v" "same_kv v (makeKV (xs ! i))" using assms(2) i by (auto simp: same_kvs_def)
    then obtain x where x: "readKV v t = Inr (x, t')" "y = [x]" using e by (auto simp: readOne_def and_then_Inr)
    have "plain_kv (xs ! i)" using assms(3) i by (simp add: list_all_length)
    then show "\<exists>x. y = [x] \<and> kv_same (xs ! i) x" using readKV_same [OF x(1) v(2)] x(2) by blast
  qed
  then show ?thesis by (rule list_all2_upt)
qed

lemma makeKVs_map: "makeKVs lib v = Inr ks \<Longrightarrow> ks = map makeKV v"
  by (auto simp: makeKVs_def split: if_splits)

lemma readContent_same:
  assumes "readContent v t = Inr (y, t')" and "makeContent lib x = Inr c" and "same_content v c" and "plain_content x"
  shows "content_same x y"
proof -
  let ?vals = "if co_Kind x = ContentCustom then co_CustomExts x else co_Params x"
  have c: "c = \<lparr>em_type = word_of_int (co_Kind x), em_text = cstr (co_Text x), em_action = cstr (co_Action x),
            em_custom_event = cstr (co_Event x), em_values = map makeKV ?vals\<rparr>"
    using assms(2) by (auto simp: makeContent_def and_then_Inr dest: makeKVs_map)
  have k: "sint (cv_type v) = co_Kind x" using assms(3,4) by (auto simp: same_content_def c plain_content_def kind_word)
  have t: "c_text (cv_text v) = co_Text x" "c_text (cv_action v) = co_Action x" "c_text (cv_custom_event v) = co_Event x"
    using assms(3,4) by (simp_all add: same_content_def same_text_def c plain_content_def c_text_cstr)
  have sk: "same_kvs (cv_key_value_count v) (cv_key_value v) (map makeKV ?vals)" using assms(3) by (simp add: same_content_def c)
  let ?x = "\<lparr>co_Kind = co_Kind x, co_Text = co_Text x, co_Action = co_Action x, co_Params = [], co_Event = co_Event x,
      co_CustomExts = [], co_RawPayload = []\<rparr>"
  obtain s1 t1 s2 t2 s3 t3 where rd: "readString (cv_text v) t = Inr (s1, t1)" "readString (cv_action v) t1 = Inr (s2, t2)"
    "readString (cv_custom_event v) t2 = Inr (s3, t3)"
    using assms(1) by (auto simp: readContent_def and_then_Inr Let_def)
  have "s1 = co_Text x" "s2 = co_Action x" "s3 = co_Event x" using rd [THEN readString_text] t by simp_all
  note e = assms(1) [unfolded readContent_def Let_def k rd and_then.simps prod.case this]
  consider (command) "co_Kind x = ContentCommand" | (custom) "co_Kind x = ContentCustom" | (textual) "co_Kind x = ContentText"
    using assms(4) by (auto simp: plain_content_def)
  then show ?thesis
  proof cases
    case command
    then obtain kvs where kvs: "readKVs (cv_key_value_count v) (cv_key_value v) t3 = Inr (kvs, t')" "y = ?x\<lparr>co_Params := kvs\<rparr>"
      using e by (auto simp: and_then_Inr)
    have "list_all2 kv_same (co_Params x) kvs" using sk command assms(4)
      by (intro readKVs_same [OF kvs(1)]) (simp_all add: plain_content_def)
    then show ?thesis using assms(4) command by (simp add: kvs(2) content_same_def plain_content_def)
  next
    case custom
    then obtain kvs where kvs: "readKVs (cv_key_value_count v) (cv_key_value v) t3 = Inr (kvs, t')" "y = ?x\<lparr>co_CustomExts := kvs\<rparr>"
      using e by (auto simp: and_then_Inr)
    have "list_all2 kv_same (co_CustomExts x) kvs" using sk custom assms(4)
      by (intro readKVs_same [OF kvs(1)]) (simp_all add: plain_content_def)
    then show ?thesis using assms(4) custom by (simp add: kvs(2) content_same_def plain_content_def)
  next
    case textual
    then have "y = ?x" using e by simp
    then show ?thesis using assms(4) textual by (simp add: content_same_def plain_content_def)
  qed
qed

lemma make_each_Inr: "make_each f xs = Inr ys \<longleftrightarrow> list_all2 (\<lambda>x y. f x = Inr y) xs ys"
  by (induction xs arbitrary: ys) (auto simp: and_then_Inr list_all2_Cons1)

lemma decodeBody_same:
  assumes "decodeBody v = Inr b'" and "makeRequest lib b = Inr r" and "presents v r" and "plain_body b"
  shows "body_same b b'"
proof -
  obtain cs where cs: "make_each (makeContent lib) (mb_Contents b) = Inr cs"
    and r: "r = \<lparr>er_from = makeJID (mb_From b), er_to = makeJID (mb_To b), er_message_type = word_of_int (mb_Kind b),
                er_contents = cs, er_extensions = map makeKV (mb_Ext b)\<rparr>"
    using assms(2) by (auto simp: makeRequest_def and_then_Inr dest: makeKVs_map split: if_splits)
  have l: "list_all2 (\<lambda>x y. makeContent lib x = Inr y) (mb_Contents b) cs" using cs by (simp add: make_each_Inr)
  from assms(1) obtain j1 t1 j2 t2 ext t3 ys t4 where p: "readJIDIf (bv_from v) newTracker = Inr (j1, t1)"
    "readJIDIf (bv_to v) t1 = Inr (j2, t2)" "readKVs (bv_key_value_count v) (bv_key_value v) t2 = Inr (ext, t3)"
    "read_each (readOne (\<lambda>i. readContent (bv_content v i))) [0..<bv_content_count v] t3 = Inr (ys, t4)"
    and b': "b' = \<lparr>mb_Kind = sint (bv_message_type v), mb_From = j1, mb_To = j2, mb_Contents = ys, mb_Ext = ext\<rparr>"
    by (auto simp: decodeBody_def and_then_Inr split: if_splits)
  have j: "j1 = mb_From b" "j2 = mb_To b"
    using readJIDIf_text [OF p(1)] readJIDIf_text [OF p(2)] assms(3,4)
    by (simp_all add: presents_def same_jid_def r plain_body_def jid_text_makeJID)
  have k: "sint (bv_message_type v) = mb_Kind b" using assms(3,4) by (auto simp: presents_def r plain_body_def kind_word)
  have e: "list_all2 kv_same (mb_Ext b) ext"
    using assms(3,4) by (intro readKVs_same [OF p(3)]) (simp_all add: presents_def r plain_body_def)
  have n: "bv_content_count v = length (mb_Contents b)" using assms(3) list_all2_lengthD [OF l] by (simp add: presents_def r)
  have "list_all2 (\<lambda>i y. content_same (mb_Contents b ! i) y) [0..<length (mb_Contents b)] ys"
  proof (rule read_each_pointwise [OF p(4) [unfolded n]])
    fix i t y t'
    assume i: "i \<in> set [0..<length (mb_Contents b)]" and "readOne (\<lambda>i. readContent (bv_content v i)) i t = Inr (y, t')"
    then obtain x where x: "readContent (bv_content v i) t = Inr (x, t')" "y = [x]" by (auto simp: readOne_def and_then_Inr)
    have "makeContent lib (mb_Contents b ! i) = Inr (cs ! i)" using list_all2_nthD [OF l, of i] i by simp
    moreover have "same_content (bv_content v i) (cs ! i)" using assms(3) i list_all2_lengthD [OF l] by (simp add: presents_def r)
    moreover have "plain_content (mb_Contents b ! i)" using assms(4) i by (simp add: plain_body_def list_all_length)
    ultimately show "\<exists>x. y = [x] \<and> content_same (mb_Contents b ! i) x" using readContent_same [OF x(1)] x(2) by blast
  qed
  then have "list_all2 content_same (mb_Contents b) ys" by (rule list_all2_upt)
  then show ?thesis using j k e by (simp add: body_same_def b')
qed

section \<open>Requests without zero bytes\<close>

definition plain_value :: "sdkKeyValue \<Rightarrow> bool" where
  "plain_value v \<longleftrightarrow>
     (case kx v of VString s \<Rightarrow> nul_free s | _ \<Rightarrow> True)
     \<and> (kt v = KeyValueFloat \<longrightarrow> (case asFloat64 (kx v) of None \<Rightarrow> True | Some f \<Rightarrow> \<not> isNaN32 (float32_of f)))"

definition plain_entry :: "string \<times> sdkKeyValue \<Rightarrow> bool" where
  "plain_entry p \<longleftrightarrow> nul_free (fst p) \<and> plain_value (snd p)"

definition plain_request :: "string \<Rightarrow> SendRequest \<Rightarrow> bool" where
  "plain_request userID req \<longleftrightarrow> nul_free userID \<and> nul_free (rq_To req) \<and> list_all plain_entry (rq_Ext req)
     \<and> nul_free (by_Text (rq_Body req)) \<and> nul_free (by_Action (rq_Body req)) \<and> nul_free (by_Event (rq_Body req))
     \<and> list_all plain_entry (by_CustomExts (rq_Body req))"

lemma nul_free_Nil [simp]: "nul_free []"
  by (simp add: nul_free_def)

lemma encode_value_plain: "encode_value over key v = Inr e \<Longrightarrow> plain_entry (key, v) \<Longrightarrow> plain_kv e"
  unfolding encode_value_def Let_def plain_entry_def plain_value_def
  by (auto simp: plain_kv_def emptyKV_def split: if_splits option.splits go_value.splits)

lemma encodeMessageExt_plain:
  assumes "encodeMessageExt over values = Inr kvs" and "list_all plain_entry values"
  shows "list_all plain_kv kvs"
proof -
  have "list_all2 (\<lambda>p e. encode_entry over p = Inr e) (sort_key fst values) kvs" using assms(1) by (simp add: encodeMessageExt_iff)
  moreover have "list_all plain_entry (sort_key fst values)" using assms(2) by (simp add: list_all_iff)
  ultimately show ?thesis
    by (induction rule: list_all2_induct) (auto simp: encode_entry_def intro: encode_value_plain split: if_splits)
qed

lemma encodeStringKeyValues_plain:
  assumes "encodeStringKeyValues kvals = Inr kvs" and "list_all plain_entry kvals"
  shows "list_all plain_kv kvs"
proof -
  let ?f = "\<lambda>(key, value) result.
         if kt value \<noteq> KeyValueString \<and> kt value \<noteq> KeyValueJSONString
         then Inl (KeyErr key ''sending only supports string and json_string KeyValue'')
         else (case kx value of
                 VString s \<Rightarrow>
                   Inr (result @ [(emptyKV key)
                     \<lparr>kv_Kind := (if kt value = KeyValueJSONString then KindJSONString else KindString), kv_String := s\<rparr>])
               | _ \<Rightarrow> Inl (KeyErr key ''KeyValue value must be string''))"
  have "for_each ?f kvals r = Inr kvs \<Longrightarrow> list_all plain_kv r \<Longrightarrow> list_all plain_kv kvs" for r
    using assms(2)
  proof (induction kvals arbitrary: r)
    case (Cons p kvals)
    then obtain r' where r': "?f p r = Inr r'" "for_each ?f kvals r' = Inr kvs" by (auto simp: and_then_Inr)
    obtain key v where p: "p = (key, v)" by (cases p)
    obtain s where s: "kx v = VString s"
      "r' = r @ [(emptyKV key)\<lparr>kv_Kind := (if kt v = KeyValueJSONString then KindJSONString else KindString), kv_String := s\<rparr>]"
      using r'(1) unfolding p prod.case by (auto split: if_splits go_value.splits)
    have "nul_free key" "nul_free s" using Cons.prems(3) s(1) by (simp_all add: p plain_entry_def plain_value_def)
    then have "plain_kv ((emptyKV key)\<lparr>kv_Kind := (if kt v = KeyValueJSONString then KindJSONString else KindString), kv_String := s\<rparr>)"
      by (simp add: plain_kv_def emptyKV_def)
    then have "list_all plain_kv r'" using Cons.prems(2) by (simp add: s(2))
    then show ?case using Cons.IH [OF r'(2)] Cons.prems(3) by simp
  qed simp
  then show ?thesis using assms(1) unfolding encodeStringKeyValues_def by force
qed

lemma encodeOutgoingContent_plain:
  assumes "encodeOutgoingContent body = Inr content" and "nul_free (by_Text body)" "nul_free (by_Action body)" "nul_free (by_Event body)"
    and "list_all plain_entry (by_CustomExts body)"
  shows "plain_content content"
proof -
  have "encodeStringKeyValues (by_CustomExts body) = Inr exts \<Longrightarrow> list_all plain_kv exts" for exts
    using encodeStringKeyValues_plain assms(5) by blast
  then show ?thesis using assms(1-4)
    by (auto simp: encodeOutgoingContent_def plain_content_def emptyContent_def split: if_splits sum.splits)
qed

lemma outgoing_body_plain:
  assumes "plain_request userID req" and "encodeOutgoingContent (rq_Body req) = Inr content"
    and "encodeMessageExt over (rq_Ext req) = Inr ext"
  shows "plain_body (outgoing_body userID req content ext)"
proof -
  have "plain_content content" using assms(1,2) by (intro encodeOutgoingContent_plain [OF assms(2)]) (simp_all add: plain_request_def)
  moreover have "list_all plain_kv ext" using assms(1,3) encodeMessageExt_plain by (simp add: plain_request_def)
  ultimately show ?thesis using assms(1)
    by (simp add: plain_body_def outgoing_body_def plain_jid_def nameJID_def emptyJID_def plain_request_def)
qed

section \<open>The snapshot is what the receiver parses\<close>

definition nativeCodec :: "em_library \<Rightarrow> bool \<Rightarrow> codec" where
  "nativeCodec lib handle =
     \<lparr>cd_EncodeMessageBody = EncodeMessageBody lib handle, cd_DecodeMessageBody = map_sum id Some \<circ> DecodeMessageBody lib handle,
      cd_DecodeStatistic = DecodeStatistic lib handle\<rparr>"

lemma codec_round_trip:
  assumes "reads_back lib b" and "EncodeMessageBody lib handle b = Inr p" and "DecodeMessageBody lib handle p = Inr b'"
    and "plain_body b"
  shows "body_same b b'"
proof -
  obtain r out where r: "makeRequest lib b = Inr r" "lib_encode_message_body lib r = (EM_CODEC_OK, out)" "takeBuffer out = Inr p"
    using assms(2) by (cases "makeRequest lib b")
      (auto simp: EncodeMessageBody_def and_then_Inr checked_def codecError_def prod_eq_iff split: if_splits option.splits)
  obtain v where v: "lib_decode_message_body lib p = (EM_CODEC_OK, v)" "decodeBody v = Inr b'"
    using assms(3) by (auto simp: DecodeMessageBody_def and_then_Inr checked_def codecError_def prod_eq_iff split: if_splits option.splits)
  have "presents v r" using assms(1) r v(1) unfolding reads_back_def by blast
  then show ?thesis using decodeBody_same [OF v(2) r(1)] assms(4) by blast
qed


text \<open>
  C39. A zero byte ends a string.  \<open>cstr\<close> hands \<open>C.CString(s)\<close> to a library that reads up to the first zero, so a
  text with a zero byte is encoded exactly as the text before it: the rest of the message is lost without
  an error.
\<close>

theorem zero_byte_truncates:
  assumes "s \<noteq> []" and "nul_free s"
  shows "EncodeMessageBody lib handle (b\<lparr>mb_Contents := [c\<lparr>co_Text := s @ nul # rest\<rparr>]\<rparr>)
    = EncodeMessageBody lib handle (b\<lparr>mb_Contents := [c\<lparr>co_Text := s\<rparr>]\<rparr>)"
proof -
  have "takeWhile (\<lambda>c. c \<noteq> nul) s = s" using CString_nul_free [OF assms(2)] by (simp add: CString_def)
  then have "cstr (s @ nul # rest) = cstr s" using assms 
    by (simp add: cstr_def CString_def nul_free_def takeWhile_append del: takeWhile_eq_all_conv)
  then have "makeContent lib (c\<lparr>co_Text := s @ nul # rest\<rparr>) = makeContent lib (c\<lparr>co_Text := s\<rparr>)" by (simp add: makeContent_def)
  then show ?thesis by (simp add: EncodeMessageBody_def makeRequest_def cong: if_cong)
qed

section \<open>Witnesses\<close>

text \<open>A library that knows one body.\<close>

definition exampleContentView :: content_view where
  "exampleContentView = \<lparr>cv_type = 0, cv_text = Some ''hi'', cv_action = None, cv_custom_event = None, cv_raw = (None, 0),
     cv_key_value_count = 0, cv_key_value = (\<lambda>_. None)\<rparr>"

definition exampleBodyView :: body_view where
  "exampleBodyView = \<lparr>bv_message_type = 2, bv_from = Some (makeJID (nameJID ''u'')), bv_to = Some (makeJID (nameJID ''g'')),
     bv_key_value_count = 0, bv_key_value = (\<lambda>_. None), bv_content_count = 1, bv_content = (\<lambda>_. exampleContentView)\<rparr>"

definition exampleSendRequest :: EMCodecSendRequest where
  "exampleSendRequest = \<lparr>er_from = makeJID (nameJID ''u''), er_to = makeJID (nameJID ''g''), er_message_type = 2,
     er_contents = [\<lparr>em_type = 0, em_text = Some ''hi'', em_action = None, em_custom_event = None, em_values = []\<rparr>],
     er_extensions = []\<rparr>"

definition exampleBodyLibrary :: em_library where
  "exampleBodyLibrary = exampleLibrary\<lparr>
     lib_encode_message_body := (\<lambda>r. if r = exampleSendRequest then (0, Some [9], 1) else (1, None, 0)),
     lib_decode_message_body := (\<lambda>p. (0, exampleBodyView))\<rparr>"

lemma exampleBodyLibrary_reads_back: "reads_back exampleBodyLibrary b"
  by (auto simp: reads_back_def exampleBodyLibrary_def presents_def exampleBodyView_def exampleSendRequest_def same_jid_def
      same_kvs_def same_content_def same_text_def exampleContentView_def split: if_splits)

lemma exampleRequest_plain: "plain_request ''u'' exampleRequest"
  by (simp add: plain_request_def exampleRequest_def emptyBody_def nul_free_def nul_def)


theorem zero_byte_truncates_witness:
  "EncodeMessageBody exampleBodyLibrary True (\<lparr>mb_Kind = 1, mb_From = emptyJID, mb_To = emptyJID, mb_Contents = [], mb_Ext = []\<rparr>
      \<lparr>mb_Contents := [emptyContent\<lparr>co_Text := ''pay 1'' @ nul # ''00''\<rparr>]\<rparr>)
   = EncodeMessageBody exampleBodyLibrary True (\<lparr>mb_Kind = 1, mb_From = emptyJID, mb_To = emptyJID, mb_Contents = [], mb_Ext = []\<rparr>
      \<lparr>mb_Contents := [emptyContent\<lparr>co_Text := ''pay 1''\<rparr>]\<rparr>)"
  by (rule zero_byte_truncates) (simp_all add: nul_free_def nul_def)

end
