(* ===== verification/Native_Developer.thy ===== *)
theory Native_Developer
  imports Native_Round_Trip
begin

text \<open>
  The developer adapter of the native codec (\<open>internal/protocol/native/native_darwin_arm64.go\<close>): the same
  conversions as the adapter of \<open>nativecodec\<close>, without limits, locks, decompression and the rewriting of
  Provision frames.  It serves as the reference that the limited adapter is compared with.

  A byte field is copied by \<open>C.GoBytes\<close> with its size cut to a C \<open>int\<close>; a negative size panics and a NULL
  pointer with a positive size is a fault, both \<open>None\<close> here.  The capacity a slice has after \<open>n\<close> calls of
  \<open>append\<close> is the runtime's choice, the parameter \<open>grow\<close>.  The codec is not used after \<open>Close\<close>, as its comment
  demands.
\<close>

section \<open>The handle\<close>

definition dev_New :: "bool \<times> int \<Rightarrow> go_error + bool" where
  "dev_New created = (if \<not> fst created then Inl (errorf (''native codec create: '' @ itoa (snd created))) else Inr True)"

text \<open>The receiver may be nil.\<close>

definition dev_Close :: "bool option \<Rightarrow> bool option" where
  "dev_Close c = (case c of Some True \<Rightarrow> Some False | _ \<Rightarrow> c)"

section \<open>Reading\<close>

definition GoBytes :: "c_bytes \<Rightarrow> bytes option" where
  "GoBytes b =
     (let n = sint (of_nat (snd b) :: 32 word)
      in if n = 0 then Some [] else if n < 0 then None else map_option (take (nat n)) (fst b))"

text \<open>\<open>C.GoString\<close> of NULL is the empty string, so \<open>gj\<close> is the text of the components.\<close>

definition dev_gj :: "EMCodecJID \<Rightarrow> JID" where
  "dev_gj j = \<lparr>jid_AppKey = c_text (ej_app_key j), jid_Name = c_text (ej_name j), jid_Domain = c_text (ej_domain j),
     jid_ClientResource = c_text (ej_resource j)\<rparr>"

definition dev_gj_if :: "EMCodecJID option \<Rightarrow> JID" where
  "dev_gj_if v = (case v of None \<Rightarrow> emptyJID | Some j \<Rightarrow> dev_gj j)"

definition appended :: "(nat \<Rightarrow> nat) \<Rightarrow> 'a list \<Rightarrow> 'a goslice" where
  "appended grow xs = (xs, grow (length xs))"

definition dev_status :: "(nat \<Rightarrow> nat) \<Rightarrow> EMCodecFrame \<Rightarrow> Status option" where
  "dev_status grow f =
     (if ef_status_code f < 0 then None
      else Some \<lparr>st_Code = ef_status_code f, st_Reason = c_text (ef_status_reason f),
        st_Redirects = appended grow (map (\<lambda>i. (c_text (ef_redirect_host f i), ef_redirect_port f i)) [0..<ef_redirect_count f])\<rparr>)"

definition dev_meta :: "(nat \<Rightarrow> nat) \<Rightarrow> meta_view \<Rightarrow> Meta option" where
  "dev_meta grow m =
     map_option (\<lambda>payload.
       emptyMeta\<lparr>me_ID := mv_id m, me_Timestamp := mv_timestamp m, me_Namespace := sint (mv_namespace m),
         me_Route := sint (mv_route_type m), me_Payload := (payload, length payload), me_From := dev_gj_if (mv_from m),
         me_To := dev_gj_if (mv_to m),
         me_DirectedUsers := appended grow (map (\<lambda>u. c_text (mv_directed_user m u)) [0..<mv_directed_user_count m])\<rparr>)
       (GoBytes (mv_payload m))"

definition copySync :: "(nat \<Rightarrow> nat) \<Rightarrow> EMCodecFrame \<Rightarrow> Sync option" where
  "copySync grow f =
     map_option (\<lambda>metas.
       \<lparr>sy_Status = dev_status grow f, sy_MetaID = ef_ack_client_id f, sy_ServerID = ef_ack_server_id f,
        sy_Metas = appended grow metas, sy_NextKey = ef_next_key f, sy_Queue = map_option dev_gj (ef_queue f),
        sy_IsLast = (ef_is_last f \<noteq> 0), sy_Timestamp = ef_timestamp f\<rparr>)
       (those (map (\<lambda>i. dev_meta grow (ef_meta f i)) [0..<ef_meta_count f]))"

definition dev_unread :: "EMCodecFrame \<Rightarrow> JID list" where
  "dev_unread f =
     concat (map (\<lambda>i. case ef_unread_queue f i of None \<Rightarrow> [] | Some j \<Rightarrow> [dev_gj j]) [0..<ef_unread_queue_count f])"

definition dev_frame :: "(nat \<Rightarrow> nat) \<Rightarrow> EMCodecFrame \<Rightarrow> Frame option" where
  "dev_frame grow f =
     (let fm = emptyFrame (sint (ef_command f)) 0; st = dev_status grow f
      in if ef_kind f = EM_CODEC_FRAME_PROVISION
         then map_option (\<lambda>token. fm\<lparr>fr_Provision := Some \<lparr>pv_Status = st, pv_SessionID = c_text (ef_session_id f),
                pv_AuthToken = token\<rparr>\<rparr>) (GoBytes (ef_auth_token f))
         else if ef_kind f = EM_CODEC_FRAME_UNREAD
         then Some (fm\<lparr>fr_Unread := Some \<lparr>un_Status = st, un_Queues = dev_unread f, un_Timestamp = ef_timestamp f\<rparr>\<rparr>)
         else if ef_kind f = EM_CODEC_FRAME_NOTICE then Some (fm\<lparr>fr_Notice := map_option dev_gj (ef_queue f)\<rparr>)
         else if ef_kind f = EM_CODEC_FRAME_SYNC_ACK \<or> ef_kind f = EM_CODEC_FRAME_SYNC_BATCH
         then map_option (\<lambda>s. fm\<lparr>fr_Sync := Some s\<rparr>) (copySync grow f)
         else if ef_kind f = EM_CODEC_FRAME_LOGOUT then Some (fm\<lparr>fr_Logout := Some \<lparr>lo_Status = st\<rparr>\<rparr>)
         else Some fm)"

definition dev_decode :: "int \<times> 'v \<Rightarrow> go_error + 'v" where
  "dev_decode r = (if fst r \<noteq> EM_CODEC_OK then Inl (errorf (''native decode: '' @ itoa (fst r))) else Inr (snd r))"

definition dev_DecodeFrame :: "em_library \<Rightarrow> (nat \<Rightarrow> nat) \<Rightarrow> bytes \<Rightarrow> (go_error + Frame) option" where
  "dev_DecodeFrame lib grow data =
     (case dev_decode (lib_decode_frame lib data) of Inl e \<Rightarrow> Some (Inl e) | Inr f \<Rightarrow> map_option Inr (dev_frame grow f))"

definition dev_kv :: "EMCodecKeyValue \<Rightarrow> KeyValue" where
  "dev_kv v =
     (let kind = sint (ek_type v)
      in \<lparr>kv_Key = c_text (ek_key v), kv_Kind = kind, kv_Bool = (kind = KindBool \<and> ek_integer_value v \<noteq> 0),
          kv_Int64 = (if kind = KindInt \<or> kind = KindLong then ek_integer_value v else 0),
          kv_Uint64 = (if kind = KindUint then word_of_int (ek_integer_value v) else 0),
          kv_Float = (if kind = KindFloat then float32_of (ek_number_value v) else 0),
          kv_Double = (if kind = KindDouble then ek_number_value v else 0),
          kv_String = (if kind = KindString \<or> kind = KindJSONString then c_text (ek_string_value v) else [])\<rparr>)"

definition dev_kvs :: "nat \<Rightarrow> (nat \<Rightarrow> EMCodecKeyValue option) \<Rightarrow> KeyValue list" where
  "dev_kvs count get = concat (map (\<lambda>i. case get i of None \<Rightarrow> [] | Some v \<Rightarrow> [dev_kv v]) [0..<count])"

text \<open>The values of every content that is not a command go to \<open>CustomExts\<close>.\<close>

definition dev_content :: "content_view \<Rightarrow> Content option" where
  "dev_content c =
     (let kind = sint (cv_type c); kvs = dev_kvs (cv_key_value_count c) (cv_key_value c)
      in map_option (\<lambda>raw. \<lparr>co_Kind = kind, co_Text = c_text (cv_text c), co_Action = c_text (cv_action c),
           co_Params = (if kind = ContentCommand then kvs else []), co_Event = c_text (cv_custom_event c),
           co_CustomExts = (if kind = ContentCommand then [] else kvs), co_RawPayload = raw\<rparr>)
         (if kind > ContentCustom then GoBytes (cv_raw c) else Some []))"

definition dev_body :: "body_view \<Rightarrow> MessageBody option" where
  "dev_body f =
     map_option (\<lambda>contents.
       \<lparr>mb_Kind = sint (bv_message_type f), mb_From = dev_gj_if (bv_from f), mb_To = dev_gj_if (bv_to f), mb_Contents = contents,
        mb_Ext = dev_kvs (bv_key_value_count f) (bv_key_value f)\<rparr>)
       (those (map (\<lambda>i. dev_content (bv_content f i)) [0..<bv_content_count f]))"

definition dev_DecodeMessageBody :: "em_library \<Rightarrow> bytes \<Rightarrow> (go_error + MessageBody) option" where
  "dev_DecodeMessageBody lib data =
     (case dev_decode (lib_decode_message_body lib data) of Inl e \<Rightarrow> Some (Inl e) | Inr f \<Rightarrow> map_option Inr (dev_body f))"

definition dev_DecodeStatistic :: "em_library \<Rightarrow> bytes \<Rightarrow> go_error + Statistic" where
  "dev_DecodeStatistic lib data =
     (case dev_decode (lib_decode_statistic lib data) of Inl e \<Rightarrow> Inl e
      | Inr f \<Rightarrow> Inr \<lparr>sc_Operation = sv_operation f, sc_ReplaceDeviceName = c_text (sv_device f),
                     sc_SessionID = c_text (sv_session_id f), sc_Reason = c_text (sv_reason f)\<rparr>)"

section \<open>Writing\<close>

definition outBytes :: "int \<times> c_bytes \<Rightarrow> (go_error + bytes) option" where
  "outBytes r =
     (if fst r \<noteq> EM_CODEC_OK then Some (Inl (errorf (''native codec: '' @ itoa (fst r))))
      else if snd (snd r) = 0 then Some (Inr []) else map_option Inr (GoBytes (snd r)))"

definition dev_cj :: "JID \<Rightarrow> EMCodecJID" where
  "dev_cj j = \<lparr>ej_app_key = cstr (jid_AppKey j), ej_name = cstr (jid_Name j), ej_domain = cstr (jid_Domain j),
     ej_resource = cstr (jid_ClientResource j)\<rparr>"

definition dev_EncodeProvision :: "em_library \<Rightarrow> ProvisionRequest \<Rightarrow> (go_error + bytes) option" where
  "dev_EncodeProvision lib v =
     outBytes (lib_encode_provision lib (dev_cj (pr_User v)) (cstr (pr_SDKVersion v)) (cstr (pr_Resource v)) (pr_AuthToken v))"

definition dev_EncodeUnread :: "em_library \<Rightarrow> (go_error + bytes) option" where
  "dev_EncodeUnread lib = outBytes (lib_encode_unread lib)"

definition dev_EncodeLogout :: "em_library \<Rightarrow> LogoutRequest \<Rightarrow> (go_error + bytes) option" where
  "dev_EncodeLogout lib v = outBytes (lib_encode_logout lib (cstr (lr_SessionID v)) (cstr (lr_Reason v)))"

definition dev_EncodeSync :: "em_library \<Rightarrow> SyncRequest \<Rightarrow> (go_error + bytes) option" where
  "dev_EncodeSync lib v =
     (case sr_Queue v of
        Some q \<Rightarrow> outBytes (lib_encode_sync_queue lib (dev_cj q) (sr_Key v))
      | None \<Rightarrow>
          (case sr_Meta v of None \<Rightarrow> Some (Inl (errorf ''sync requires queue or meta''))
           | Some m \<Rightarrow> outBytes (lib_encode_sync_meta lib (me_ID m) (dev_cj (me_From m)) (dev_cj (me_To m)) (me_Timestamp m)
               (word_of_int (me_Namespace m)) (word_of_int (me_Route m)) (fst (me_Payload m)) (map cstr (fst (me_DirectedUsers m))))))"

definition fillCKV :: "KeyValue \<Rightarrow> EMCodecKeyValue" where
  "fillCKV v =
     \<lparr>ek_key = cstr (kv_Key v), ek_type = word_of_int (kv_Kind v),
      ek_integer_value = (if kv_Kind v = KindUint then sint (kv_Uint64 v)
                          else if kv_Kind v = KindBool \<and> kv_Bool v then 1 else kv_Int64 v),
      ek_number_value = (if kv_Kind v = KindDouble then kv_Double v
                         else if kv_Kind v = KindFloat then float64_of (kv_Float v) else 0),
      ek_string_value = cstr (kv_String v)\<rparr>"

definition dev_request :: "MessageBody \<Rightarrow> EMCodecSendRequest" where
  "dev_request v =
     \<lparr>er_from = dev_cj (mb_From v), er_to = dev_cj (mb_To v), er_message_type = word_of_int (mb_Kind v),
      er_contents = map (\<lambda>x. \<lparr>em_type = word_of_int (co_Kind x), em_text = cstr (co_Text x), em_action = cstr (co_Action x),
        em_custom_event = cstr (co_Event x),
        em_values = map fillCKV (if co_Kind x = ContentCustom then co_CustomExts x else co_Params x)\<rparr>) (mb_Contents v),
      er_extensions = map fillCKV (mb_Ext v)\<rparr>"

definition dev_EncodeMessageBody :: "em_library \<Rightarrow> MessageBody \<Rightarrow> (go_error + bytes) option" where
  "dev_EncodeMessageBody lib v = outBytes (lib_encode_message_body lib (dev_request v))"

section \<open>The limits only reject\<close>

text \<open>What the two adapters may differ in: the trace id, the attributes, and the capacities of slices.\<close>

definition erase_status :: "Status \<Rightarrow> Status" where
  "erase_status s = s\<lparr>st_Redirects := (fst (st_Redirects s), 0)\<rparr>"

definition erase_meta :: "Meta \<Rightarrow> Meta" where
  "erase_meta m = m\<lparr>me_DirectedUsers := (fst (me_DirectedUsers m), 0), me_Attributes := ([], 0)\<rparr>"

definition erase_sync :: "Sync \<Rightarrow> Sync" where
  "erase_sync s = s\<lparr>sy_Status := map_option erase_status (sy_Status s), sy_Metas := (map erase_meta (fst (sy_Metas s)), 0)\<rparr>"

definition erase_frame :: "Frame \<Rightarrow> Frame" where
  "erase_frame f = f\<lparr>fr_TraceID := 0,
     fr_Provision := map_option (\<lambda>p. p\<lparr>pv_Status := map_option erase_status (pv_Status p)\<rparr>) (fr_Provision f),
     fr_Unread := map_option (\<lambda>u. u\<lparr>un_Status := map_option erase_status (un_Status u)\<rparr>) (fr_Unread f),
     fr_Sync := map_option erase_sync (fr_Sync f),
     fr_Logout := map_option (\<lambda>l. l\<lparr>lo_Status := map_option erase_status (lo_Status l)\<rparr>) (fr_Logout f)\<rparr>"

lemma GoBytes_readBytes:
  assumes "readBytes b = Inr bs"
  shows "GoBytes b = Some bs"
proof -
  have "snd b \<le> 16777216" using assms by (auto simp: readBytes_def split: if_splits)
  then have "sint (of_nat (snd b) :: 32 word) = int (snd b)"
    by (simp add: signed_of_nat signed_take_bit_int_eq_self_iff)
  then show ?thesis using assms by (auto simp: readBytes_def GoBytes_def Let_def split: if_splits option.splits)
qed

lemma dev_gj_text: "dev_gj = jid_text"
  by (rule ext) (simp add: dev_gj_def jid_text_def)

lemma readJIDIf_dev: "readJIDIf v t = Inr (x, t') \<Longrightarrow> x = dev_gj_if v"
  unfolding dev_gj_if_def dev_gj_text by (rule readJIDIf_text)

lemma readOne_value: "(\<And>t x t'. g i t = Inr (x, t') \<Longrightarrow> x = h i) \<Longrightarrow> readOne g i t = Inr (y, t') \<Longrightarrow> y = [h i]"
  by (auto simp: readOne_def and_then_Inr)

lemma read_each_value:
  assumes "read_each f is t = Inr (xs, t')" and "\<And>i t y t'. f i t = Inr (y, t') \<Longrightarrow> y = g i"
  shows "xs = concat (map g is)"
  using assms(1)
proof (induction "is" arbitrary: t xs)
  case (Cons i "is")
  then show ?case using assms(2) by (auto simp: and_then_Inr)
qed simp

lemma read_all_value:
  assumes "read_each (readOne g) is t = Inr (xs, t')" and "\<And>i t x t'. g i t = Inr (x, t') \<Longrightarrow> x = h i"
  shows "xs = map h is"
proof -
  have "xs = concat (map (\<lambda>i. [h i]) is)"
    by (rule read_each_value [OF assms(1)]) (rule readOne_value [where g = g and h = h], use assms(2) in blast)
  then show ?thesis by simp
qed

lemma readStatus_dev:
  assumes "readStatus f t = Inr (st, t')"
  shows "map_option erase_status (dev_status grow f) = map_option erase_status st"
proof (cases "ef_status_code f < 0")
  case False
  let ?h = "\<lambda>i. (c_text (ef_redirect_host f i), ef_redirect_port f i)"
  from assms False obtain t1 rs where
    r: "read_each (readOne (\<lambda>i t. and_then (readString (ef_redirect_host f i) t) (\<lambda>(host, t1). Inr ((host, ef_redirect_port f i), t1))))
          [0..<ef_redirect_count f] t1 = Inr (rs, t')"
    and st: "st = Some \<lparr>st_Code = ef_status_code f, st_Reason = c_text (ef_status_reason f), st_Redirects = (rs, ef_redirect_count f)\<rparr>"
    by (auto simp: readStatus_def and_then_Inr split: if_splits dest: readString_text)
  have "rs = map ?h [0..<ef_redirect_count f]"
    by (rule read_all_value [OF r]) (auto simp: and_then_Inr dest: readString_text)
  then show ?thesis using False by (simp add: st dev_status_def erase_status_def appended_def)
qed (use assms in \<open>simp add: readStatus_def dev_status_def\<close>)

lemma readMeta_dev:
  assumes "readMeta m t = Inr (x, t')"
  shows "\<exists>d. dev_meta grow m = Some d \<and> erase_meta d = erase_meta x"
proof -
  from assms obtain payload attributes t1 t2 t3 t4 t5 from0 to0 users where
    p: "readBytes (mv_payload m) = Inr payload" "readJIDIf (mv_from m) t2 = Inr (from0, t3)" "readJIDIf (mv_to m) t3 = Inr (to0, t4)"
      "read_each (readOne (\<lambda>u. readString (mv_directed_user m u))) [0..<mv_directed_user_count m] t5 = Inr (users, t')"
    and x: "x = emptyMeta\<lparr>me_ID := mv_id m, me_Timestamp := mv_timestamp m, me_Namespace := sint (mv_namespace m),
      me_Route := sint (mv_route_type m), me_Payload := (payload, length payload), me_Attributes := (attributes, length attributes),
      me_From := from0, me_To := to0, me_DirectedUsers := (users, mv_directed_user_count m)\<rparr>"
    by (auto simp: readMeta_def and_then_Inr)
  have "users = map (\<lambda>u. c_text (mv_directed_user m u)) [0..<mv_directed_user_count m]"
    by (rule read_all_value [OF p(4) readString_text])
  then show ?thesis
    using GoBytes_readBytes [OF p(1)] readJIDIf_dev [OF p(2)] readJIDIf_dev [OF p(3)]
    by (simp add: x dev_meta_def erase_meta_def appended_def emptyMeta_def)
qed

lemma those_list_all2:
  assumes "list_all2 (\<lambda>i x. \<exists>d. f i = Some d \<and> e d = e x) is xs"
  shows "\<exists>ds. those (map f is) = Some ds \<and> map e ds = map e xs"
  using assms by (induction rule: list_all2_induct) auto

lemma readSync_dev:
  assumes "readSync f st t = Inr (s, t')" and "map_option erase_status (dev_status grow f) = map_option erase_status st"
  shows "map_option erase_sync (copySync grow f) = Some (erase_sync s)"
proof -
  from assms(1) obtain queue t1 metas where
    q: "(case ef_queue f of None \<Rightarrow> Inr (None, t) | Some q \<Rightarrow> and_then (readJID q t) (\<lambda>(x, t1). Inr (Some x, t1))) = Inr (queue, t1)"
    and m: "read_each (readOne (\<lambda>i. readMeta (ef_meta f i))) [0..<ef_meta_count f] t1 = Inr (metas, t')"
    and s: "s = \<lparr>sy_Status = st, sy_MetaID = ef_ack_client_id f, sy_ServerID = ef_ack_server_id f,
      sy_Metas = (metas, ef_meta_count f), sy_NextKey = ef_next_key f, sy_Queue = queue,
      sy_IsLast = (ef_is_last f \<noteq> 0), sy_Timestamp = ef_timestamp f\<rparr>"
    by (auto simp: readSync_def and_then_Inr Let_def split: if_splits)
  have "queue = map_option dev_gj (ef_queue f)"
    using q by (auto simp: dev_gj_text and_then_Inr split: option.splits dest: readJID_text)
  moreover have "list_all2 (\<lambda>i x. \<exists>d. dev_meta grow (ef_meta f i) = Some d \<and> erase_meta d = erase_meta x) [0..<ef_meta_count f] metas"
    by (rule read_each_pointwise [OF m]) (auto simp: readOne_def and_then_Inr dest: readMeta_dev [where grow = grow])
  from those_list_all2 [OF this] obtain ds where
    "those (map (\<lambda>i. dev_meta grow (ef_meta f i)) [0..<ef_meta_count f]) = Some ds" "map erase_meta ds = map erase_meta metas" by blast
  ultimately show ?thesis using assms(2) by (simp add: s copySync_def erase_sync_def appended_def)
qed

lemma readUnread_dev: "readUnread f st t = Inr (u, t') \<Longrightarrow> u = \<lparr>un_Status = st, un_Queues = dev_unread f, un_Timestamp = ef_timestamp f\<rparr>"
proof -
  let ?f = "\<lambda>i t. case ef_unread_queue f i of None \<Rightarrow> Inr ([], t) | Some j \<Rightarrow> readOne readJID j t"
  assume r: "readUnread f st t = Inr (u, t')"
  then have e: "read_each ?f [0..<ef_unread_queue_count f] t = Inr (un_Queues u, t')" and
    u: "u = \<lparr>un_Status = st, un_Queues = un_Queues u, un_Timestamp = ef_timestamp f\<rparr>"
    by (auto simp: readUnread_def and_then_Inr split: if_splits)
  have "un_Queues u = dev_unread f" unfolding dev_unread_def
    by (rule read_each_value [OF e]) (auto simp: dev_gj_text readOne_def and_then_Inr split: option.splits dest: readJID_text)
  with u show "u = \<lparr>un_Status = st, un_Queues = dev_unread f, un_Timestamp = ef_timestamp f\<rparr>" by simp
qed

lemma readProvision_dev:
  "readProvision f st t = Inr (p, t') \<Longrightarrow> GoBytes (ef_auth_token f) = Some (pv_AuthToken p)
     \<and> p = \<lparr>pv_Status = st, pv_SessionID = c_text (ef_session_id f), pv_AuthToken = pv_AuthToken p\<rparr>"
  by (auto simp: readProvision_def and_then_Inr dest: readString_text GoBytes_readBytes)

lemmas erase_defs = erase_frame_def emptyFrame_def Let_def

text \<open>
  C40. The limits only reject.  Whatever the library answers, a frame that the limited adapter accepts is the
  frame the developer adapter, which knows no limit, copies out of the library without a fault, but for
  the trace id and the attributes, which that one does not read, and the capacities of the slices.  So
  the tracker, the counts and the byte checks never change, drop or reorder what they let through.
\<close>

theorem limits_only_reject:
  assumes "decodeFrame f = Inr fm"
  shows "map_option erase_frame (dev_frame grow f) = Some (erase_frame fm)"
proof -
  let ?fm = "emptyFrame (sint (ef_command f)) (ef_trace_id f)"
  obtain st t where st: "readStatus f newTracker = Inr (st, t)"
    using assms by (auto simp: decodeFrame_def and_then_Inr Let_def)
  note d = assms [unfolded decodeFrame_def Let_def st and_then.simps prod.case] and e = readStatus_dev [OF st, of grow]
  consider (provision) p t1 where "ef_kind f = EM_CODEC_FRAME_PROVISION" "readProvision f st t = Inr (p, t1)" "fm = ?fm\<lparr>fr_Provision := Some p\<rparr>"
    | (unread) u t1 where "ef_kind f = EM_CODEC_FRAME_UNREAD" "readUnread f st t = Inr (u, t1)" "fm = ?fm\<lparr>fr_Unread := Some u\<rparr>"
    | (notice) "ef_kind f = EM_CODEC_FRAME_NOTICE" "fm = ?fm\<lparr>fr_Notice := map_option dev_gj (ef_queue f)\<rparr>"
    | (sync) s t1 where "ef_kind f = EM_CODEC_FRAME_SYNC_ACK \<or> ef_kind f = EM_CODEC_FRAME_SYNC_BATCH" "readSync f st t = Inr (s, t1)"
        "fm = ?fm\<lparr>fr_Sync := Some s\<rparr>"
    | (logout) "ef_kind f = EM_CODEC_FRAME_LOGOUT" "fm = ?fm\<lparr>fr_Logout := Some \<lparr>lo_Status = st\<rparr>\<rparr>"
    | (other) "ef_kind f \<notin> {1..6}" "fm = ?fm"
    using d by (auto simp: and_then_Inr dev_gj_text emptyFrame_def split: if_splits option.splits dest: readJID_text)
  then show ?thesis
  proof cases
    case provision
    then show ?thesis using readProvision_dev [OF provision(2)] e by (cases p) (simp add: dev_frame_def erase_defs)
  next
    case unread
    then show ?thesis using readUnread_dev [OF unread(2)] e by (simp add: dev_frame_def erase_defs)
  next
    case sync
    obtain s' where "copySync grow f = Some s'" "erase_sync s' = erase_sync s" using readSync_dev [OF sync(2) e] by auto
    then show ?thesis using sync by (auto simp: dev_frame_def erase_defs)
  qed (use e in \<open>auto simp: dev_frame_def erase_defs\<close>)
qed

text \<open>Statistics have no limit but that of the strings, and the two adapters read them alike.\<close>

lemma statistics_agree:
  assumes "DecodeStatistic lib handle data = Inr x"
  shows "dev_DecodeStatistic lib data = Inr x"
  using assms
  by (auto simp: DecodeStatistic_def dev_DecodeStatistic_def dev_decode_def decodeStatistic_def checked_def codecError_def
      and_then_Inr split: if_splits option.splits dest!: readString_text)

text \<open>
  On the way out the two build the same request, but that the limited adapter also passes the unused
  \<open>Double\<close> of a value that is neither a float nor a double.
\<close>

lemma requests_agree:
  assumes "makeRequest lib v = Inr r"
    and "\<And>x. x \<in> set (mb_Ext v) \<union> (\<Union>c \<in> set (mb_Contents v). set (co_Params c) \<union> set (co_CustomExts c)) \<Longrightarrow>
           kv_Kind x \<in> {KindFloat, KindDouble} \<or> kv_Double x = 0"
  shows "dev_request v = r"
proof -
  have kv: "fillCKV x = makeKV x" if "kv_Kind x \<in> {KindFloat, KindDouble} \<or> kv_Double x = 0" for x
    using that by (auto simp: fillCKV_def makeKV_def)
  from assms(1) obtain ext contents where
    e: "makeKVs lib (mb_Ext v) = Inr ext" and c: "make_each (makeContent lib) (mb_Contents v) = Inr contents"
    and r: "r = \<lparr>er_from = makeJID (mb_From v), er_to = makeJID (mb_To v), er_message_type = word_of_int (mb_Kind v),
      er_contents = contents, er_extensions = ext\<rparr>"
    by (auto simp: makeRequest_def and_then_Inr split: if_splits)
  let ?c = "\<lambda>x. \<lparr>em_type = word_of_int (co_Kind x), em_text = cstr (co_Text x), em_action = cstr (co_Action x),
        em_custom_event = cstr (co_Event x),
        em_values = map fillCKV (if co_Kind x = ContentCustom then co_CustomExts x else co_Params x)\<rparr>"
  have "?c x = y" if "x \<in> set (mb_Contents v)" "makeContent lib x = Inr y" for x y
  proof -
    let ?vs = "if co_Kind x = ContentCustom then co_CustomExts x else co_Params x"
    have "map fillCKV ?vs = map makeKV ?vs" using assms(2) that(1) kv by (intro map_cong refl) (auto split: if_splits)
    then show ?thesis using that(2) by (auto simp: makeContent_def and_then_Inr dest!: makeKVs_map)
  qed
  moreover have "list_all2 (\<lambda>x y. makeContent lib x = Inr y) (mb_Contents v) contents" using c by (simp add: make_each_Inr)
  ultimately have "map ?c (mb_Contents v) = contents" by (auto simp: list_all2_conv_all_nth intro!: nth_equalityI)
  moreover have "map fillCKV (mb_Ext v) = ext" using makeKVs_map [OF e] assms(2) kv by auto
  ultimately show ?thesis by (simp add: r dev_request_def dev_cj_def makeJID_def)
qed

section \<open>A witness\<close>

theorem limits_only_reject_witness:
  "\<exists>fm. decodeFrame exampleView = Inr fm
     \<and> map_option erase_frame (dev_frame (\<lambda>n. n) exampleView) = Some (erase_frame fm)"
proof -
  obtain fm where fm: "decodeFrame exampleView = Inr fm" using exampleView_decodes by blast
  then show ?thesis using limits_only_reject [OF fm] by blast
qed

end
