(* ===== verification/Server_Config.thy ===== *)
theory Server_Config
  imports Go_Strings
begin

text \<open>
  The server command (\<open>cmd/server/main.go\<close>): the flat YAML reader, the policy on where the token may come from,
  and the order of its calls.

  The file system, the environment variables and \<open>strconv.Unquote\<close> are parameters.  A Go map is an
  association list in the order of its insertions; of several unknown keys the first is the one reported,
  where the source reports any.  \<open>stripComment\<close> ranges over runes; since it only looks for
  ASCII characters, it is the same loop over bytes.
\<close>

section \<open>Lines\<close>

abbreviation (input) squote :: char where "squote \<equiv> CHR 0x27"
abbreviation (input) dquote :: char where "dquote \<equiv> CHR 0x22"
abbreviation (input) backslash :: char where "backslash \<equiv> CHR 0x5C"
abbreviation (input) newline :: char where "newline \<equiv> CHR 0x0A"

text \<open>
  The loop of \<open>stripComment\<close> with its variables \<open>quote\<close> and \<open>escaped\<close>; \<open>bol\<close> tells that the byte before is a
  blank or that there is none.
\<close>

fun strip_loop :: "char option \<Rightarrow> bool \<Rightarrow> bool \<Rightarrow> string \<Rightarrow> string" where
  "strip_loop quote escaped bol [] = []"
| "strip_loop quote escaped bol (r # rs) =
     (let blank = (r = CHR '' '' \<or> r = CHR 0x09)
      in if escaped then r # strip_loop quote False blank rs
         else if quote = Some dquote \<and> r = backslash then r # strip_loop quote True blank rs
         else if r = squote \<or> r = dquote
         then r # strip_loop (if quote = None then Some r else if quote = Some r then None else quote) False blank rs
         else if r = CHR ''#'' \<and> quote = None \<and> bol then []
         else r # strip_loop quote False blank rs)"

definition stripComment :: "string \<Rightarrow> string" where
  "stripComment line = strip_loop None False True line"

text \<open>\<open>strings.ReplaceAll(s, "''", "'")\<close>.\<close>

fun undouble :: "string \<Rightarrow> string" where
  "undouble [] = []"
| "undouble [c] = [c]"
| "undouble (c # d # s) = (if c = squote \<and> d = squote then squote # undouble s else c # undouble (d # s))"

definition config_error :: "string \<Rightarrow> go_error" where
  "config_error msg = LibErr PlainError False msg None"

definition config_wrap :: "string \<Rightarrow> go_error \<Rightarrow> go_error" where
  "config_wrap msg e = WrapErr (msg @ '': '' @ error_text e) e"

definition parseScalar :: "(string \<Rightarrow> string option) \<Rightarrow> string \<Rightarrow> go_error + string" where
  "parseScalar unquote raw =
     (case raw of [] \<Rightarrow> Inr []
      | c # cs \<Rightarrow>
          if c = dquote
          then (case unquote raw of None \<Rightarrow> Inl (config_error ''invalid quoted string'') | Some v \<Rightarrow> Inr v)
          else if c = squote
          then (if length raw < 2 \<or> last raw \<noteq> squote then Inl (config_error ''invalid quoted string'')
                else Inr (undouble (butlast cs)))
          else if containsAny raw ''[]{}'' then Inl (config_error ''only scalar values are supported'')
          else Inr (trimSpace raw))"

text \<open>One line of \<open>readFlatYAML\<close>: nothing, a pair, or an error; \<open>seen\<close> are the pairs so far.\<close>

definition parse_line :: "(string \<Rightarrow> string option) \<Rightarrow> nat \<Rightarrow> string \<Rightarrow> (string \<times> string) list \<Rightarrow> go_error + (string \<times> string) list" where
  "parse_line unquote lineNo text0 seen =
     (let line = trimSpace (stripComment text0);
          where = ''config line '' @ itoa (int lineNo)
      in if line = [] then Inr seen
         else
           let (key0, raw, ok) = cut (CHR '':'') line;
               key = trimSpace key0
           in if \<not> ok \<or> key = [] \<or> containsAny key ([CHR '' '', CHR 0x09] @ ''[]{}'')
              then Inl (config_error (where @ '': expected a flat key: value pair''))
              else if map_of seen key \<noteq> None
              then Inl (config_error (where @ '': duplicate key '' @ [dquote] @ key @ [dquote]))
              else (case parseScalar unquote (trimSpace raw) of
                      Inl e \<Rightarrow> Inl (config_wrap where e)
                    | Inr v \<Rightarrow> Inr (seen @ [(key, v)])))"

text \<open>
  \<open>bufio.Scanner\<close> with \<open>ScanLines\<close>: a final newline ends the last line, a carriage return before a newline is
  dropped, and a line of more than 65535 bytes stops it with an error.
\<close>

abbreviation (input) maxScanLine :: nat where "maxScanLine \<equiv> 65535"

definition drop_cr :: "string \<Rightarrow> string" where
  "drop_cr l = (if l \<noteq> [] \<and> last l = CHR 0x0D then butlast l else l)"

definition scan_lines :: "string \<Rightarrow> string list" where
  "scan_lines s = (let ls = split_on newline s in if last ls = [] then butlast ls else ls)"

fun read_lines :: "(string \<Rightarrow> string option) \<Rightarrow> nat \<Rightarrow> string list \<Rightarrow> (string \<times> string) list \<Rightarrow> go_error + (string \<times> string) list" where
  "read_lines unquote lineNo [] seen = Inr seen"
| "read_lines unquote lineNo (l # ls) seen =
     (if length l > maxScanLine then Inl (config_wrap ''read config'' (config_error ''bufio.Scanner: token too long''))
      else case parse_line unquote lineNo (drop_cr l) seen of
             Inl e \<Rightarrow> Inl e
           | Inr seen1 \<Rightarrow> read_lines unquote (Suc lineNo) ls seen1)"

record config_env =
  ce_open :: "string \<Rightarrow> go_error + string"
  ce_perm :: "string \<Rightarrow> go_error + nat"
  ce_getenv :: "string \<Rightarrow> string"
  ce_unquote :: "string \<Rightarrow> string option"

definition readFlatYAML :: "config_env \<Rightarrow> string \<Rightarrow> go_error + (string \<times> string) list" where
  "readFlatYAML env path =
     (case ce_open env path of Inl e \<Rightarrow> Inl (config_wrap ''open config'' e)
      | Inr content \<Rightarrow> read_lines (ce_unquote env) 1 (scan_lines content) [])"

section \<open>Secrets\<close>

text \<open>\<open>info.Mode().Perm()&0077\<close>: no access for the group and for others.\<close>

definition private_mode :: "nat \<Rightarrow> bool" where
  "private_mode perm \<longleftrightarrow> perm mod 64 = 0"

definition octal4 :: "nat \<Rightarrow> string" where
  "octal4 n = map (\<lambda>d. char_of (48 + d)) [n div 512 mod 8, n div 64 mod 8, n div 8 mod 8, n mod 8]"

definition requirePrivateFile :: "config_env \<Rightarrow> string \<Rightarrow> go_error option" where
  "requirePrivateFile env path =
     (case ce_perm env path of Inl e \<Rightarrow> Some e
      | Inr perm \<Rightarrow>
          if \<not> private_mode perm
          then Some (config_error (path @ '' permissions are '' @ octal4 perm @ ''; require 0600 or stricter''))
          else None)"

definition readSecret :: "config_env \<Rightarrow> string \<Rightarrow> go_error + string" where
  "readSecret env path =
     (case requirePrivateFile env path of Some e \<Rightarrow> Inl (config_wrap ''token secret file'' e)
      | None \<Rightarrow>
          (case ce_open env path of Inl e \<Rightarrow> Inl (config_wrap ''read token secret file'' e)
           | Inr b \<Rightarrow>
               let token = trimSpace b
               in if token = [] then Inl (config_error (''token secret file '' @ path @ '' is empty'')) else Inr token))"

section \<open>The configuration\<close>

definition tokenEnv :: string where "tokenEnv = ''GO_IM_SDK_TOKEN''"
definition tokenFileEnv :: string where "tokenFileEnv = ''GO_IM_SDK_TOKEN_FILE''"

record fileConfig =
  fc_AppKey :: string
  fc_UserID :: string
  fc_Token :: string
  fc_TokenFile :: string
  fc_Domain :: string
  fc_Resource :: string
  fc_DisableReconnect :: bool

definition known_keys :: "string list" where
  "known_keys = [''app_key'', ''user_id'', ''token'', ''token_file'', ''domain'', ''resource'', ''disable_reconnect'']"

definition parseBool :: "string \<Rightarrow> bool option" where
  "parseBool s =
     (if s \<in> {''1'', ''t'', ''T'', ''true'', ''TRUE'', ''True''} then Some True
      else if s \<in> {''0'', ''f'', ''F'', ''false'', ''FALSE'', ''False''} then Some False else None)"

definition lookup :: "(string \<times> string) list \<Rightarrow> string \<Rightarrow> string" where
  "lookup kvs k = (case map_of kvs k of Some v \<Rightarrow> v | None \<Rightarrow> [])"

text \<open>The token: the environment, a secret file, or the configuration file itself when it is private.\<close>

definition loadToken :: "config_env \<Rightarrow> string \<Rightarrow> (string \<times> string) list \<Rightarrow> go_error + string" where
  "loadToken env path kvs =
     (let envToken = trimSpace (ce_getenv env tokenEnv);
          envPath = trimSpace (ce_getenv env tokenFileEnv);
          secretPath = (if envPath = [] then lookup kvs ''token_file'' else envPath)
      in if envToken \<noteq> [] then Inr envToken
         else if secretPath \<noteq> [] then readSecret env secretPath
         else if lookup kvs ''token'' \<noteq> []
         then (case requirePrivateFile env path of Some e \<Rightarrow> Inl (config_wrap ''token in YAML'' e)
               | None \<Rightarrow> Inr (lookup kvs ''token''))
         else Inr [])"

definition loadConfig :: "config_env \<Rightarrow> string \<Rightarrow> go_error + fileConfig" where
  "loadConfig env path =
     (case readFlatYAML env path of Inl e \<Rightarrow> Inl e
      | Inr kvs \<Rightarrow>
          (case find (\<lambda>kv. fst kv \<notin> set known_keys) kvs of
             Some kv \<Rightarrow> Inl (config_error (''unknown configuration key '' @ [dquote] @ fst kv @ [dquote]))
           | None \<Rightarrow>
               (case loadToken env path kvs of Inl e \<Rightarrow> Inl e
                | Inr token \<Rightarrow>
                    if token = []
                    then Inl (config_error (''token is required: set '' @ tokenEnv @ '', '' @ tokenFileEnv @ '', token_file, or token''))
                    else
                      let fc = \<lparr>fc_AppKey = lookup kvs ''app_key'', fc_UserID = lookup kvs ''user_id'', fc_Token = token,
                                fc_TokenFile = lookup kvs ''token_file'', fc_Domain = lookup kvs ''domain'',
                                fc_Resource = lookup kvs ''resource'', fc_DisableReconnect = False\<rparr>
                      in if lookup kvs ''disable_reconnect'' = [] then Inr fc
                         else (case parseBool (lookup kvs ''disable_reconnect'') of
                                 Some b \<Rightarrow> Inr (fc\<lparr>fc_DisableReconnect := b\<rparr>)
                               | None \<Rightarrow> Inl (config_error ''disable_reconnect must be true or false'')))))"

section \<open>The command\<close>

text \<open>
  \<open>main\<close> with the outcome of each call of the SDK as a parameter; what it does is the list of those calls and the
  exit status.  It waits for a signal between login and logout.
\<close>

record server_env = config_env +
  se_New :: "fileConfig \<Rightarrow> go_error option"
  se_Login :: "string \<Rightarrow> string \<Rightarrow> go_error option"
  se_Logout :: "go_error option"
  se_Close :: "go_error option"

datatype server_call = CallNew string string string bool | CallLogin string string | CallLogout | CallClose

definition server_main :: "server_env \<Rightarrow> string \<Rightarrow> server_call list \<times> nat" where
  "server_main env configPath =
     (if configPath = [] then ([], 2)
      else case loadConfig (config_env.truncate env) configPath of Inl e \<Rightarrow> ([], 2)
      | Inr fc \<Rightarrow>
          let new = CallNew (fc_AppKey fc) (fc_Domain fc) (fc_Resource fc) (fc_DisableReconnect fc);
              login = CallLogin (fc_UserID fc) (fc_Token fc)
          in if se_New env fc \<noteq> None then ([new], 2)
             else if se_Login env (fc_UserID fc) (fc_Token fc) \<noteq> None then ([new, login], 1)
             else ([new, login, CallLogout, CallClose],
                   case se_Close env of Some e \<Rightarrow> if errors_Is e CtxCanceled then 0 else 1 | None \<Rightarrow> 0))"

text \<open>
  The command connects only with a configuration it accepted, it always closes a client that was logged in,
  whatever the logout says, and it exits with 0 only when it got that far.
\<close>

lemma server_main_closes:
  assumes "server_main env configPath = (calls, status)"
  shows "calls \<noteq> [] \<Longrightarrow> \<exists>fc. loadConfig (config_env.truncate env) configPath = Inr fc
      \<and> (CallLogin u t \<in> set calls \<longrightarrow> u = fc_UserID fc \<and> t = fc_Token fc)"
    and "status = 0 \<Longrightarrow> last calls = CallClose" and "CallLogout \<in> set calls \<Longrightarrow> last calls = CallClose"
    and "status \<in> {0, 1, 2}"
  using assms by (auto simp: server_main_def Let_def split: sum.splits if_splits option.splits)

section \<open>Where the token comes from\<close>

definition private_file :: "config_env \<Rightarrow> string \<Rightarrow> bool" where
  "private_file env path \<longleftrightarrow> (\<exists>perm. ce_perm env path = Inr perm \<and> private_mode perm)"

lemma requirePrivateFile_iff: "requirePrivateFile env path = None \<longleftrightarrow> private_file env path"
  by (auto simp: requirePrivateFile_def private_file_def split: sum.splits if_splits)

lemma readSecret_private:
  "readSecret env path = Inr token \<Longrightarrow>
     private_file env path \<and> (\<exists>content. ce_open env path = Inr content \<and> token = trimSpace content)"
  using requirePrivateFile_iff [of env path]
  by (auto simp: readSecret_def Let_def split: option.splits sum.splits if_splits)

text \<open>
  C36. No token from a file that others can read.  A configuration that is accepted has a token, and the token
  is that of the environment variable, or the content of a secret file without access for group and
  others, or an entry of the configuration file when that file itself has no such access.
\<close>

theorem token_from_private_source:
  assumes "loadConfig env path = Inr fc"
  shows "fc_Token fc \<noteq> []
    \<and> (fc_Token fc = trimSpace (ce_getenv env tokenEnv)
       \<or> (\<exists>p content. p \<in> {trimSpace (ce_getenv env tokenFileEnv), fc_TokenFile fc} \<and> private_file env p
            \<and> ce_open env p = Inr content \<and> fc_Token fc = trimSpace content)
       \<or> (\<exists>kvs. readFlatYAML env path = Inr kvs \<and> private_file env path \<and> fc_Token fc = lookup kvs ''token''))"
proof -
  obtain kvs where r: "readFlatYAML env path = Inr kvs"
    using assms by (cases "readFlatYAML env path") (simp_all add: loadConfig_def)
  have f: "find (\<lambda>kv. fst kv \<notin> set known_keys) kvs = None"
    using assms by (cases "find (\<lambda>kv. fst kv \<notin> set known_keys) kvs") (simp_all add: loadConfig_def r)
  obtain token where t: "loadToken env path kvs = Inr token"
    using assms by (cases "loadToken env path kvs") (simp_all add: loadConfig_def r f)
  have ne: "token \<noteq> []" using assms by (auto simp: loadConfig_def r f t)
  have "fc_Token fc = token \<and> fc_TokenFile fc = lookup kvs ''token_file''"
    using assms ne by (cases "parseBool (lookup kvs ''disable_reconnect'')")
      (auto simp: loadConfig_def r f t Let_def split: if_splits)
  note k = r t ne conjunct1 [OF this] conjunct2 [OF this]
  let ?e = "trimSpace (ce_getenv env tokenEnv)" and ?f = "trimSpace (ce_getenv env tokenFileEnv)"
  let ?s = "if ?f = [] then lookup kvs ''token_file'' else ?f"
  note t = k(2) [unfolded loadToken_def Let_def]
  show ?thesis
  proof (cases "?e = []")
    case False
    then have "token = ?e" using t by simp
    then show ?thesis using k(3,4) by simp
  next
    case e: True
    show ?thesis
    proof (cases "?s = []")
      case False
      then have "readSecret env ?s = Inr token" using t e by simp
      from readSecret_private [OF this] obtain content where
        c: "private_file env ?s" "ce_open env ?s = Inr content" "token = trimSpace content" by blast
      have "?s \<in> {?f, fc_TokenFile fc}" using k(5) by simp
      with c have "\<exists>p content. p \<in> {?f, fc_TokenFile fc} \<and> private_file env p \<and> ce_open env p = Inr content
          \<and> token = trimSpace content" by (intro exI [of _ ?s] exI [of _ content] conjI)
      then show ?thesis unfolding k(4) using k(3) by (intro conjI disjI2 disjI1)
    next
      case True
      then have "requirePrivateFile env path = None" "token = lookup kvs ''token''"
        using t e k(3) by (simp_all split: if_splits option.splits)
      then have "\<exists>kvs. readFlatYAML env path = Inr kvs \<and> private_file env path \<and> token = lookup kvs ''token''"
        using k(1) requirePrivateFile_iff [of env path] by (intro exI [of _ kvs]) simp
      then show ?thesis unfolding k(4) using k(3) by (intro conjI disjI2)
    qed
  qed
qed

section \<open>Reading back what was written\<close>

text \<open>A printer for flat YAML with single-quoted values.\<close>

fun double_quotes :: "string \<Rightarrow> string" where
  "double_quotes [] = []"
| "double_quotes (c # s) = (if c = squote then squote # squote # double_quotes s else c # double_quotes s)"

definition yaml_line :: "string \<times> string \<Rightarrow> string" where
  "yaml_line p = fst p @ '': '' @ [squote] @ double_quotes (snd p) @ [squote]"

definition yaml_text :: "(string \<times> string) list \<Rightarrow> string" where
  "yaml_text kvs = concat (map (\<lambda>p. yaml_line p @ [newline]) kvs)"

definition key_char :: "char \<Rightarrow> bool" where
  "key_char c \<longleftrightarrow> is_alnum c \<or> c = CHR ''_''"

definition printable :: "string \<times> string \<Rightarrow> bool" where
  "printable p \<longleftrightarrow> fst p \<noteq> [] \<and> list_all key_char (fst p) \<and> newline \<notin> set (snd p) \<and> length (yaml_line p) \<le> maxScanLine"

lemma key_char_plain:
  assumes "key_char c"
  shows "c \<noteq> squote" "c \<noteq> dquote" "c \<noteq> CHR ''#''" "c \<noteq> CHR '':''" "c \<noteq> newline" "c \<notin> set ([CHR '' '', CHR 0x09] @ ''[]{}'')"
  using assms by (auto simp: key_char_def is_alnum_def Let_def)

lemma undouble_no_quote: "c \<noteq> squote \<Longrightarrow> undouble (c # s) = c # undouble s"
  by (cases s) auto

lemma undouble_double: "undouble (double_quotes v) = v"
  by (induction v) (auto simp: undouble_no_quote)

lemma strip_quoted: "strip_loop (Some squote) False b (double_quotes v @ [squote]) = double_quotes v @ [squote]"
  by (induction v arbitrary: b) (auto simp: Let_def)

lemma strip_key: "list_all key_char k \<Longrightarrow> strip_loop None False b (k @ s) = k @ strip_loop None False (if k = [] then b else False) s"
proof (induction k arbitrary: b)
  case (Cons c k)
  have "c \<noteq> CHR '' ''" "c \<noteq> CHR 0x09" using Cons.prems by (auto simp: key_char_def is_alnum_def Let_def)
  then show ?case using Cons.prems key_char_plain [of c] Cons.IH [of False] by (simp add: Let_def)
qed simp

lemma stripComment_line: "list_all key_char (fst p) \<Longrightarrow> stripComment (yaml_line p) = yaml_line p"
  unfolding stripComment_def yaml_line_def by (subst strip_key) (simp_all add: Let_def strip_quoted)

text \<open>Trimming keeps what starts and ends with a printing ASCII character.\<close>

definition solid :: "char \<Rightarrow> bool" where
  "solid c \<longleftrightarrow> 0x20 < (of_char c :: nat) \<and> (of_char c :: nat) < 0x80"

lemma prefix_length_zero: "s \<noteq> [] \<Longrightarrow> list_all (\<lambda>p. p \<noteq> [] \<and> hd p \<noteq> hd s) ps \<Longrightarrow> prefix_length ps s = 0"
proof (induction ps)
  case (Cons p ps)
  then show ?case by (cases p; cases s) auto
qed simp

lemma spaces_not_solid: "list_all (\<lambda>p. p \<noteq> [] \<and> \<not> solid (hd p) \<and> \<not> solid (hd (rev p))) space_encodings"
  by code_simp

lemma strip_solid:
  assumes "s \<noteq> []" and "solid (hd s)"
  shows "strip_prefixes space_encodings s = s" "strip_prefixes (map rev space_encodings) s = s"
proof -
  have "list_all (\<lambda>p. p \<noteq> [] \<and> hd p \<noteq> hd s) space_encodings" "list_all (\<lambda>p. p \<noteq> [] \<and> hd p \<noteq> hd s) (map rev space_encodings)"
    using spaces_not_solid assms(2) by (auto simp: list_all_iff)
  then show "strip_prefixes space_encodings s = s" "strip_prefixes (map rev space_encodings) s = s"
    using prefix_length_zero [OF assms(1)] by (simp_all add: strip_prefixes.simps [of _ s])
qed

lemma trimSpace_solid: "s \<noteq> [] \<Longrightarrow> solid (hd s) \<Longrightarrow> solid (last s) \<Longrightarrow> trimSpace s = s"
  unfolding trimSpace_def by (simp add: strip_solid hd_rev)

lemma trimSpace_blank: "s \<noteq> [] \<Longrightarrow> solid (hd s) \<Longrightarrow> solid (last s) \<Longrightarrow> trimSpace (CHR '' '' # s) = s"
proof -
  assume s: "s \<noteq> []" "solid (hd s)" "solid (last s)"
  have "prefix_length space_encodings (CHR '' '' # s) = 1" by (simp add: space_encodings_def)
  then have "strip_prefixes space_encodings (CHR '' '' # s) = s" using strip_solid(1) [OF s(1,2)] by (subst strip_prefixes.simps) simp
  then show ?thesis using s by (simp add: trimSpace_def strip_solid hd_rev)
qed

lemma key_char_solid: "key_char c \<Longrightarrow> solid c"
  by (auto simp: key_char_def is_alnum_def solid_def Let_def)

lemma squote_solid: "solid squote"
  by (simp add: solid_def)

lemma parse_yaml_line:
  assumes "printable p" and "map_of seen (fst p) = None"
  shows "parse_line unquote n (yaml_line p) seen = Inr (seen @ [p])"
proof -
  obtain k v where p: "p = (k, v)" by (cases p)
  let ?q = "squote # double_quotes v @ [squote]"
  have k: "k \<noteq> []" "list_all key_char k" using assms(1) by (auto simp: printable_def p)
  have hk: "solid (hd k)" "solid (last k)" using k key_char_solid by (auto simp: list_all_iff)
  have line: "trimSpace (stripComment (yaml_line p)) = yaml_line p"
    using k hk squote_solid by (subst stripComment_line; simp add: p) (subst trimSpace_solid; simp add: yaml_line_def)
  have "CHR '':'' \<notin> set k" using k(2) key_char_plain(4) by (auto simp: list_all_iff)
  then have cut: "cut (CHR '':'') (yaml_line p) = (k, CHR '' '' # ?q, True)"
    by (simp add: cut_def yaml_line_def p takeWhile_append dropWhile_append)
  have key: "trimSpace k = k" "\<not> containsAny k ([CHR '' '', CHR 0x09] @ ''[]{}'')"
    using k hk key_char_plain(6) by (auto simp: trimSpace_solid containsAny_def list_ex_iff list_all_iff)
  have "trimSpace (CHR '' '' # ?q) = ?q" using squote_solid by (intro trimSpace_blank) simp_all
  moreover have "parseScalar unquote ?q = Inr v" by (simp add: parseScalar_def butlast_append undouble_double)
  ultimately show ?thesis using line cut key k(1) assms(2) by (simp add: parse_line_def Let_def p yaml_line_def)
qed

lemma read_yaml_lines:
  assumes "list_all printable kvs" and "distinct (map fst (seen @ kvs))"
  shows "read_lines unquote n (map yaml_line kvs) seen = Inr (seen @ kvs)"
  using assms
proof (induction kvs arbitrary: n seen)
  case (Cons p kvs)
  have "drop_cr (yaml_line p) = yaml_line p" by (simp add: drop_cr_def yaml_line_def)
  moreover have "map_of seen (fst p) = None" using Cons.prems(2) by (auto simp: map_of_eq_None_iff)
  moreover have "length (yaml_line p) \<le> maxScanLine" using Cons.prems(1) by (simp add: printable_def)
  ultimately show ?case using Cons parse_yaml_line [of p seen unquote n] by simp
qed simp

lemma yaml_line_one: "printable p \<Longrightarrow> newline \<notin> set (yaml_line p)"
proof -
  have "newline \<notin> set v \<Longrightarrow> newline \<notin> set (double_quotes v)" for v by (induction v) auto
  then show "printable p \<Longrightarrow> newline \<notin> set (yaml_line p)"
    using key_char_plain(5) by (fastforce simp: printable_def yaml_line_def list_all_iff)
qed

lemma split_on_prefix: "sep \<notin> set w \<Longrightarrow> split_on sep (w @ sep # rest) = w # split_on sep rest"
  by (induction w) auto

lemma scan_yaml_text:
  assumes "list_all printable kvs"
  shows "scan_lines (yaml_text kvs) = map yaml_line kvs"
proof -
  have "split_on newline (yaml_text kvs) = map yaml_line kvs @ [[]]"
    using assms by (induction kvs) (simp_all add: yaml_text_def split_on_prefix yaml_line_one)
  then show ?thesis by (simp add: scan_lines_def)
qed

text \<open>
  The configuration reader reads back what was written.  A file with one line per setting, the value in
  single quotes with its own quotes doubled, is read as exactly those settings, in order: no comment sign,
  colon, bracket, blank or backslash in a value changes anything.
\<close>

lemma yaml_round_trip:
  assumes "list_all printable kvs" and "distinct (map fst kvs)" and "ce_open env path = Inr (yaml_text kvs)"
  shows "readFlatYAML env path = Inr kvs"
  using assms by (simp add: readFlatYAML_def scan_yaml_text read_yaml_lines)

section \<open>Witnesses\<close>

definition exampleFile :: "(string \<times> string) list" where
  "exampleFile = [(''app_key'', ''org#app''), (''token'', ''t'')]"

definition exampleConfigEnv :: config_env where
  "exampleConfigEnv = \<lparr>ce_open = (\<lambda>p. Inr (yaml_text exampleFile)), ce_perm = (\<lambda>p. Inr 384), ce_getenv = (\<lambda>v. []),
     ce_unquote = (\<lambda>s. None)\<rparr>"

lemma exampleFile_ok: "list_all printable exampleFile" "distinct (map fst exampleFile)"
proof -
  have "list_all key_char ''app_key''" "list_all key_char ''token''"
    by (simp_all add: key_char_def is_alnum_def Let_def)
  then show "list_all printable exampleFile" "distinct (map fst exampleFile)"
    by (simp_all add: exampleFile_def printable_def yaml_line_def)
qed

lemma exampleFile_read: "readFlatYAML exampleConfigEnv ''c'' = Inr exampleFile"
  using exampleFile_ok by (simp add: exampleConfigEnv_def readFlatYAML_def scan_yaml_text read_yaml_lines)

theorem token_from_private_source_witness:
  "\<exists>fc. loadConfig exampleConfigEnv ''c'' = Inr fc \<and> fc_Token fc \<noteq> [] \<and> private_file exampleConfigEnv ''c''"
proof -
  have "trimSpace [] = []" by code_simp
  then have "loadToken exampleConfigEnv ''c'' exampleFile = Inr ''t''"
    by (simp add: loadToken_def exampleConfigEnv_def lookup_def exampleFile_def requirePrivateFile_def private_mode_def Let_def)
  then have "\<not> isl (loadConfig exampleConfigEnv ''c'')"
    by (simp add: loadConfig_def exampleFile_read Let_def) (simp add: exampleFile_def known_keys_def lookup_def)
  then obtain fc where fc: "loadConfig exampleConfigEnv ''c'' = Inr fc" by (cases "loadConfig exampleConfigEnv ''c''") auto
  have "private_file exampleConfigEnv ''c''" by (simp add: private_file_def exampleConfigEnv_def private_mode_def)
  then show ?thesis using fc token_from_private_source [OF fc] by blast
qed

end
