(* ===== verification/Integration_Demo.thy ===== *)
theory Integration_Demo
  imports Server_Config REST
begin

text \<open>
  The acceptance command (\<open>cmd/integration-demo/main.go\<close>): the parsing of its flags, the API calls it makes of
  them, the redacted log line of a received message, and its own reader for the configuration file, which is
  compared with that of the server command.

  \<open>json.Valid\<close> is \<open>jl_parse\<close>; logging, signals and the callbacks of \<open>main\<close> are not modelled.
\<close>

section \<open>Flags\<close>

definition splitCSV :: "string \<Rightarrow> string list" where
  "splitCSV value = filter (\<lambda>item. item \<noteq> []) (map trimSpace (split_on (CHR '','') value))"

text \<open>\<open>strings.SplitN(item, "=", 2)\<close> with a non-blank key; both sides trimmed.\<close>

definition key_value :: "string \<Rightarrow> (string \<times> string) option" where
  "key_value item =
     (case cut (CHR ''='') item of (k, v, found) \<Rightarrow>
        if \<not> found \<or> trimSpace k = [] then None else Some (trimSpace k, trimSpace v))"

definition typed_value :: "json_lib \<Rightarrow> string \<Rightarrow> sdkKeyValue" where
  "typed_value jl val =
     (if (is_prefix ''{'' val \<and> is_prefix ''}'' (rev val) \<or> is_prefix ''['' val \<and> is_prefix '']'' (rev val))
         \<and> jl_parse jl (to_bytes val) \<noteq> None
      then \<lparr>kt = KeyValueJSONString, kx = VString val\<rparr> else \<lparr>kt = KeyValueString, kx = VString val\<rparr>)"

definition quoted_item :: "string \<Rightarrow> string \<Rightarrow> go_error" where
  "quoted_item msg item = errorf (msg @ [dquote] @ item @ [dquote])"

definition parse_items :: "string \<Rightarrow> (string \<Rightarrow> 'v) \<Rightarrow> string list \<Rightarrow> go_error + (string \<times> 'v) list" where
  "parse_items msg f items =
     fold (\<lambda>item acc. and_then acc (\<lambda>kvs. case key_value item of None \<Rightarrow> Inl (quoted_item msg item)
             | Some (k, v) \<Rightarrow> Inr (AList.update k (f v) kvs))) items (Inr [])"

definition parseKeyValues :: "json_lib \<Rightarrow> string \<Rightarrow> go_error + (string \<times> sdkKeyValue) list" where
  "parseKeyValues jl value =
     (if trimSpace value = [] then Inr []
      else parse_items ''key value must use key=value: '' (typed_value jl) (splitCSV value))"

definition parseProperties :: "string \<Rightarrow> go_error + (string \<times> string) list" where
  "parseProperties value = parse_items ''property must use key=value: '' id (splitCSV value)"

definition buildSendBody :: "json_lib \<Rightarrow> string \<Rightarrow> string \<Rightarrow> string \<Rightarrow> string \<Rightarrow> string \<Rightarrow> go_error + sdkMessageBody" where
  "buildSendBody jl bodyType txt action ev params =
     (if bodyType = ''text'' then Inr (emptyBody\<lparr>by_Type := MessageBodyText, by_Text := txt\<rparr>)
      else if bodyType = ''command'' then Inr (emptyBody\<lparr>by_Type := MessageBodyCommand, by_Action := action\<rparr>)
      else if bodyType = ''custom''
      then (case parseKeyValues jl params of Inl e \<Rightarrow> Inl (wrapf ''custom extensions'' e)
            | Inr kvs \<Rightarrow> Inr (emptyBody\<lparr>by_Type := MessageBodyCustom, by_Event := ev, by_CustomExts := kvs\<rparr>))
      else Inl (errorf (''unknown send type '' @ [dquote] @ bodyType @ [dquote] @ '' (want text, command or custom)'')))"

section \<open>The calls\<close>

record demo_flags =
  df_sendTo :: string
  df_sendType :: string
  df_sendText :: string
  df_sendAction :: string
  df_sendEvent :: string
  df_sendParams :: string
  df_sendExt :: string
  df_group :: bool
  df_directedUsers :: string
  df_probeREST :: bool
  df_setUser :: string
  df_fetchUsers :: string
  df_fetchProperties :: string
  df_createGroup :: string
  df_groupMembers :: string
  df_joinGroup :: string
  df_leaveGroup :: string

datatype demo_call =
    CallSend SendRequest
  | CallFetchUserInfo "string list option" "string list option"
  | CallUpdateOwnUserInfo "(string \<times> string) list"
  | CallCreatePublicGroup string CreatePublicGroupOptions
  | CallJoinPublicGroup string
  | CallLeaveGroup string
  | Refused go_error

text \<open>A slice made by \<open>append\<close> from nothing is nil when nothing was appended.\<close>

definition nil_if_empty :: "'a list \<Rightarrow> 'a list option" where
  "nil_if_empty xs = (if xs = [] then None else Some xs)"

definition send_call :: "json_lib \<Rightarrow> demo_flags \<Rightarrow> demo_call" where
  "send_call jl f =
     (case buildSendBody jl (df_sendType f) (df_sendText f) (df_sendAction f) (df_sendEvent f) (df_sendParams f) of
        Inl e \<Rightarrow> Refused e
      | Inr body \<Rightarrow>
          (case parseKeyValues jl (df_sendExt f) of
             Inl e \<Rightarrow> Refused (wrapf ''message ext'' e)
           | Inr ext \<Rightarrow> CallSend \<lparr>rq_ClientMessageID = 0, rq_To = df_sendTo f, rq_IsGroup = df_group f,
               rq_DirectedUsers = splitCSV (df_directedUsers f), rq_Ext = ext, rq_Body = body\<rparr>))"

text \<open>
  What \<open>main\<close> does after a successful login and before it waits for a signal: no call depends on the result of
  another.
\<close>

definition demo_calls :: "json_lib \<Rightarrow> string \<Rightarrow> demo_flags \<Rightarrow> demo_call list" where
  "demo_calls jl userID f =
     (if df_sendTo f \<noteq> [] then [send_call jl f] else [])
     @ (if df_probeREST f then [CallFetchUserInfo (Some [userID]) None] else [])
     @ (if df_setUser f \<noteq> []
        then [case parseProperties (df_setUser f) of Inl e \<Rightarrow> Refused e | Inr attrs \<Rightarrow> CallUpdateOwnUserInfo attrs] else [])
     @ (if df_fetchUsers f \<noteq> []
        then [CallFetchUserInfo (nil_if_empty (splitCSV (df_fetchUsers f))) (nil_if_empty (splitCSV (df_fetchProperties f)))] else [])
     @ (if df_createGroup f \<noteq> []
        then [CallCreatePublicGroup (df_createGroup f) \<lparr>go_AllowInvites = None, go_InviteNeedConfirm = None, go_MaxUsers = 0,
                go_Description = [], go_Welcome = [], go_Members = splitCSV (df_groupMembers f)\<rparr>] else [])
     @ (if df_joinGroup f \<noteq> [] then [CallJoinPublicGroup (df_joinGroup f)] else [])
     @ (if df_leaveGroup f \<noteq> [] then [CallLeaveGroup (df_leaveGroup f)] else [])"

text \<open>\<open>sendTestMessage\<close> fills the message id in from the clock; \<open>send\<close> is \<open>Client.Send\<close>.\<close>

definition sendTestMessage ::
  "uint64 \<Rightarrow> (SendRequest \<Rightarrow> SendResult option \<times> go_error option) \<Rightarrow> SendRequest \<Rightarrow> go_error + SendResult" where
  "sendTestMessage now send req =
     (case send (if rq_ClientMessageID req = 0 then req\<lparr>rq_ClientMessageID := now\<rparr> else req) of
        (result, Some e) \<Rightarrow> Inl e
      | (None, None) \<Rightarrow> Inl (errorf ''send returned nil result'')
      | (Some result, None) \<Rightarrow> Inr result)"

section \<open>Logging\<close>

definition messageBodyBytes :: "sdkMessage \<Rightarrow> nat" where
  "messageBodyBytes msg =
     (case ms_Body msg of None \<Rightarrow> 0
      | Some b \<Rightarrow> length (by_Text b) + length (by_Action b) + length (by_Event b) + length (by_RawPayload b))"

definition online_text :: "MessageOnlineState \<Rightarrow> string" where
  "online_text st = (case st of MessageOnlineStateUnknown \<Rightarrow> [] | MessageOnlineStateOnline \<Rightarrow> ''online''
     | MessageOnlineStateOffline \<Rightarrow> ''offline'')"

definition omitempty :: "string \<Rightarrow> string \<Rightarrow> (string \<times> json) list" where
  "omitempty key value = (if value = [] then [] else [(key, js_str value)])"

definition safe_body :: "sdkMessageBody \<Rightarrow> json" where
  "safe_body b = JsObject ([(''type'', js_str (by_Type b))] @ omitempty ''action'' (by_Action b) @ omitempty ''event'' (by_Event b))"

definition marshalSafeMessage :: "json_lib \<Rightarrow> uint64 \<Rightarrow> sdkMessage \<Rightarrow> message_error + json" where
  "marshalSafeMessage jl over msg =
     (let entries = sort_key fst (ms_Ext msg)
      in and_then (marshal_list (\<lambda>e. KeyValue_MarshalJSON jl over (snd e)) entries) (\<lambda>ext.
           Inr (JsObject ([(''from'', js_str (ms_From msg)), (''to'', js_str (ms_To msg)), (''is_group'', JsBool (ms_IsGroup msg)),
                   (''meta_id'', js_uint (ms_MetaID msg)), (''timestamp'', js_uint (ms_Timestamp msg))]
                 @ (case ms_Body msg of None \<Rightarrow> [] | Some b \<Rightarrow> [(''body'', safe_body b)])
                 @ (if entries = [] then [] else [(''ext'', JsObject (zip (map (coerceUTF8 \<circ> fst) entries) ext))])
                 @ omitempty ''online_state'' (online_text (ms_OnlineState msg))))))"

text \<open>The attributes of the log line of \<open>MessageHandler\<close>.\<close>

datatype log_value = LogText string | LogNumber int | LogFlag bool | LogJSON json

definition received_log :: "json_lib \<Rightarrow> uint64 \<Rightarrow> sdkMessage \<Rightarrow> (string \<times> log_value) list" where
  "received_log jl over msg =
     [(''meta_id'', LogNumber (uint (ms_MetaID msg))), (''from'', LogText (ms_From msg)), (''to'', LogText (ms_To msg)),
      (''is_group'', LogFlag (ms_IsGroup msg)), (''body_bytes'', LogNumber (int (messageBodyBytes msg))),
      (''ext_count'', LogNumber (int (length (ms_Ext msg)))), (''online_state'', LogText (online_text (ms_OnlineState msg)))]
     @ (case ms_Body msg of None \<Rightarrow> []
        | Some b \<Rightarrow> [(''body_type'', LogText (by_Type b)), (''body_text_bytes'', LogNumber (int (length (by_Text b)))),
                    (''body_action'', LogText (by_Action b)), (''body_event'', LogText (by_Event b))])
     @ (case marshalSafeMessage jl over msg of Inl e \<Rightarrow> [] | Inr j \<Rightarrow> [(''message_json'', LogJSON j)])"

definition logRESTError :: "string \<Rightarrow> rest_error \<Rightarrow> string \<times> (string \<times> log_value) list" where
  "logRESTError msg err =
     (msg, (case err of
              RestAPI e \<Rightarrow> [(''status'', LogNumber (case ae_Response e of None \<Rightarrow> 0 | Some r \<Rightarrow> rs_StatusCode r)),
                            (''request_id'', LogText (ae_RequestID e)), (''service_code'', LogText (ae_ServiceCode e))]
            | RestErr e \<Rightarrow> []) @ [(''error'', LogText (rest_error_text err))])"

text \<open>
  The log of a received message says nothing of the text, the custom extensions and the raw payload but
  their lengths: messages that differ only there, and in the protocol document, are logged alike.
\<close>

lemma received_log_redacted:
  assumes "length txt = length (by_Text b)" and "length raw = length (by_RawPayload b)"
  shows "received_log jl over (msg\<lparr>ms_Body := Some (b\<lparr>by_Text := txt, by_CustomExts := exts, by_RawType := n, by_RawPayload := raw\<rparr>),
             ms_protocol := document\<rparr>)
       = received_log jl over (msg\<lparr>ms_Body := Some b\<rparr>)"
  using assms by (simp add: received_log_def marshalSafeMessage_def messageBodyBytes_def safe_body_def)

section \<open>The configuration file\<close>

definition stripYAMLComment :: "string \<Rightarrow> string" where
  "stripYAMLComment line = strip_loop None False True line"

record demo_config =
  dc_AppKey :: string
  dc_UserID :: string
  dc_Token :: string
  dc_Domain :: string
  dc_Resource :: string
  dc_DisableReconnect :: bool

definition config_assign :: "string \<Rightarrow> string \<Rightarrow> demo_config \<times> string \<Rightarrow> demo_config \<times> string" where
  "config_assign key value s =
     (case s of (c, tokenFile) \<Rightarrow>
        if key = ''app_key'' then (c\<lparr>dc_AppKey := value\<rparr>, tokenFile)
        else if key = ''user_id'' then (c\<lparr>dc_UserID := value\<rparr>, tokenFile)
        else if key = ''token'' then (c\<lparr>dc_Token := value\<rparr>, tokenFile)
        else if key = ''token_file'' then (c, value)
        else if key = ''domain'' then (c\<lparr>dc_Domain := value\<rparr>, tokenFile)
        else if key = ''resource'' then (c\<lparr>dc_Resource := value\<rparr>, tokenFile)
        else if key = ''disable_reconnect'' then (c\<lparr>dc_DisableReconnect := (value = ''true'')\<rparr>, tokenFile)
        else (c, tokenFile))"

definition demo_line :: "string \<Rightarrow> demo_config \<times> string \<Rightarrow> demo_config \<times> string" where
  "demo_line line0 s =
     (let line = trimSpace (stripYAMLComment line0)
      in if line = [] then s
         else case cut (CHR '':'') line of (key, value, found) \<Rightarrow>
                if \<not> found then s else config_assign (trimSpace key) (trimSet [dquote] (trimSpace value)) s)"

definition demo_zero :: "demo_config \<times> string" where
  "demo_zero = (\<lparr>dc_AppKey = [], dc_UserID = [], dc_Token = [], dc_Domain = [], dc_Resource = [], dc_DisableReconnect = False\<rparr>, [])"

definition demo_secret :: "config_env \<Rightarrow> string \<Rightarrow> go_error + string" where
  "demo_secret env path =
     (case ce_open env path of Inl e \<Rightarrow> Inl (config_wrap ''read token file'' e) | Inr b \<Rightarrow> Inr (trimSpace b))"

definition demo_token :: "config_env \<Rightarrow> string \<Rightarrow> string \<Rightarrow> go_error + string" where
  "demo_token env tokenFile token =
     (let envToken = trimSpace (ce_getenv env tokenEnv);
          envPath = trimSpace (ce_getenv env tokenFileEnv)
      in if envToken \<noteq> [] then Inr envToken
         else if envPath \<noteq> [] then demo_secret env envPath
         else if tokenFile \<noteq> [] then demo_secret env tokenFile
         else Inr token)"

definition parseConfig :: "config_env \<Rightarrow> string \<Rightarrow> go_error + demo_config" where
  "parseConfig env path =
     (case ce_open env path of Inl e \<Rightarrow> Inl e
      | Inr b \<Rightarrow>
          (case fold demo_line (split_on newline b) demo_zero of (c, tokenFile) \<Rightarrow>
             and_then (demo_token env tokenFile (dc_Token c)) (\<lambda>token.
                  if token = [] then Inl (config_error ''token is required'') else Inr (c\<lparr>dc_Token := token\<rparr>))))"

section \<open>Two readers of one file\<close>

text \<open>Trimming twice is trimming once.\<close>

lemma strip_prefixes_stable: "prefix_length ps (strip_prefixes ps s) = 0"
  by (induction ps s rule: strip_prefixes.induct) (subst strip_prefixes.simps, simp)

lemma strip_prefixes_id: "prefix_length ps s = 0 \<Longrightarrow> strip_prefixes ps s = s"
  by (subst strip_prefixes.simps) simp

lemma strip_prefixes_suffix: "\<exists>w. s = w @ strip_prefixes ps s"
proof (induction ps s rule: strip_prefixes.induct)
  case (1 ps s)
  show ?case
  proof (cases "prefix_length ps s = 0")
    case True
    then show ?thesis using strip_prefixes_id by (intro exI [of _ "[]"]) simp
  next
    case False
    from "1.IH" [OF False] obtain w where w: "drop (prefix_length ps s) s = w @ strip_prefixes ps (drop (prefix_length ps s) s)" ..
    have "strip_prefixes ps s = strip_prefixes ps (drop (prefix_length ps s) s)" using False by (subst strip_prefixes.simps) simp
    then show ?thesis using w by (metis append_take_drop_id append.assoc)
  qed
qed

lemma prefix_length_append: "prefix_length ps (y @ z) = 0 \<Longrightarrow> prefix_length ps y = 0"
  by (induction ps) (auto simp: is_prefix_iff split: if_splits)

lemma trimSpace_idem: "trimSpace (trimSpace s) = trimSpace s"
proof -
  let ?ps = space_encodings and ?y = "strip_prefixes space_encodings s" and ?rs = "map rev space_encodings"
  let ?z = "strip_prefixes ?rs (rev ?y)"
  obtain w where "rev ?y = w @ ?z" using strip_prefixes_suffix [of "rev ?y" ?rs] by blast
  then have "?y = rev ?z @ rev w" by (metis rev_append rev_rev_ident)
  then have "prefix_length ?ps (rev ?z) = 0" using strip_prefixes_stable [of ?ps s] prefix_length_append by metis
  then have "strip_prefixes ?ps (rev ?z) = rev ?z" by (rule strip_prefixes_id)
  moreover have "strip_prefixes ?rs ?z = ?z" by (rule strip_prefixes_id [OF strip_prefixes_stable])
  ultimately show ?thesis by (simp add: trimSpace_def)
qed

text \<open>A line without a carriage return whose value is not quoted.\<close>

definition plain_line :: "string \<Rightarrow> bool" where
  "plain_line l \<longleftrightarrow> CHR 0x0D \<notin> set l
     \<and> (let v = trimSpace (fst (snd (cut (CHR '':'') (trimSpace (stripComment l)))))
        in v = [] \<or> hd v \<notin> {dquote, squote} \<and> last v \<noteq> dquote)"

definition corresponds :: "(string \<times> string) list \<Rightarrow> demo_config \<times> string \<Rightarrow> bool" where
  "corresponds kvs s \<longleftrightarrow>
     s = (\<lparr>dc_AppKey = lookup kvs ''app_key'', dc_UserID = lookup kvs ''user_id'', dc_Token = lookup kvs ''token'',
           dc_Domain = lookup kvs ''domain'', dc_Resource = lookup kvs ''resource'',
           dc_DisableReconnect = (lookup kvs ''disable_reconnect'' = ''true'')\<rparr>, lookup kvs ''token_file'')"

lemma lookup_snoc: "map_of seen k = None \<Longrightarrow> lookup (seen @ [(k, v)]) k' = (if k' = k then v else lookup seen k')"
  by (auto simp: lookup_def map_add_def split: option.split)

lemma corresponds_assign: "map_of seen k = None \<Longrightarrow> corresponds seen s \<Longrightarrow> corresponds (seen @ [(k, v)]) (config_assign k v s)"
  by (simp add: corresponds_def lookup_snoc config_assign_def)

lemma trimSet_plain: "v = [] \<or> hd v \<noteq> c \<and> last v \<noteq> c \<Longrightarrow> trimSet [c] v = v"
proof -
  assume v: "v = [] \<or> hd v \<noteq> c \<and> last v \<noteq> c"
  then have "dropWhile (\<lambda>x. x \<in> set [c]) v = v" by (cases v) auto
  moreover have "dropWhile (\<lambda>x. x \<in> set [c]) (rev v) = rev v" using v by (cases v rule: rev_cases) auto
  ultimately show "trimSet [c] v = v" by (simp add: trimSet_def trimRightSet_def)
qed

lemma parseScalar_plain:
  assumes "parseScalar unquote (trimSpace raw) = Inr v" and "trimSpace raw = [] \<or> hd (trimSpace raw) \<notin> {dquote, squote}"
  shows "v = trimSpace raw"
proof (cases "trimSpace raw")
  case (Cons c cs)
  then have "parseScalar unquote (trimSpace raw) =
      (if containsAny (trimSpace raw) ''[]{}'' then Inl (config_error ''only scalar values are supported'') else Inr (trimSpace (trimSpace raw)))"
    using assms(2) by (simp add: parseScalar_def)
  then show ?thesis using assms(1) trimSpace_idem [of raw] by (simp split: if_splits)
qed (use assms in \<open>simp add: parseScalar_def\<close>)

lemma demo_line_agrees:
  assumes "parse_line unquote n (drop_cr l) seen = Inr seen'" and "plain_line l" and "corresponds seen s"
  shows "corresponds seen' (demo_line l s)"
proof -
  let ?line = "trimSpace (stripComment l)"
  have "CHR 0x0D \<notin> set l" using assms(2) by (simp add: plain_line_def)
  then have l: "drop_cr l = l" by (cases l rule: rev_cases) (auto simp: drop_cr_def)
  have c: "stripYAMLComment l = stripComment l" by (simp add: stripYAMLComment_def stripComment_def)
  show ?thesis
  proof (cases "?line = []")
    case True
    then show ?thesis using assms(1,3) by (simp add: parse_line_def demo_line_def l c Let_def)
  next
    case False
    obtain key raw ok where k: "cut (CHR '':'') ?line = (key, raw, ok)" by (metis prod_cases3)
    have g: "ok" "map_of seen (trimSpace key) = None"
      using assms(1) False by (auto simp: parse_line_def l Let_def k split: if_splits)
    from assms(1) False g obtain v where v: "parseScalar unquote (trimSpace raw) = Inr v" "seen' = seen @ [(trimSpace key, v)]"
      by (auto simp: parse_line_def l Let_def k split: if_splits sum.splits)
    have p: "trimSpace raw = [] \<or> hd (trimSpace raw) \<notin> {dquote, squote} \<and> last (trimSpace raw) \<noteq> dquote"
      using assms(2) by (simp add: plain_line_def Let_def k)
    then have "v = trimSpace raw" using v(1) by (intro parseScalar_plain) auto
    moreover have "trimSet [dquote] (trimSpace raw) = trimSpace raw" using p by (intro trimSet_plain) auto
    ultimately have "demo_line l s = config_assign (trimSpace key) v s" using False g(1) by (simp add: demo_line_def c k)
    then show ?thesis using corresponds_assign [OF g(2) assms(3)] by (simp add: v(2))
  qed
qed

lemma demo_lines_agree:
  "read_lines unquote n ls seen = Inr kvs \<Longrightarrow> list_all plain_line ls \<Longrightarrow> corresponds seen s \<Longrightarrow>
   corresponds kvs (fold demo_line ls s)"
proof (induction ls arbitrary: n seen s)
  case (Cons l ls)
  from Cons.prems(1) obtain seen1 where
    r: "parse_line unquote n (drop_cr l) seen = Inr seen1" "read_lines unquote (Suc n) ls seen1 = Inr kvs"
    by (auto split: if_splits sum.splits)
  have "corresponds seen1 (demo_line l s)" using demo_line_agrees [OF r(1)] Cons.prems by simp
  then show ?case using Cons.IH [OF r(2)] Cons.prems by simp
qed simp

lemma fold_scan_lines: "fold demo_line (scan_lines content) s = fold demo_line (split_on newline content) s"
proof (cases "last (split_on newline content) = []")
  case True
  have "trimSpace [] = []" by code_simp
  then have "demo_line [] t = t" for t by (simp add: demo_line_def stripYAMLComment_def)
  then have "fold demo_line (ls @ [[]]) s = fold demo_line ls s" for ls by simp
  moreover have "split_on newline content = butlast (split_on newline content) @ [[]]"
    using True split_on_nonempty [of newline content] append_butlast_last_id [of "split_on newline content"] by simp
  ultimately have "fold demo_line (split_on newline content) s = fold demo_line (butlast (split_on newline content)) s" by metis
  then show ?thesis using True by (simp add: scan_lines_def Let_def)
qed (simp add: scan_lines_def Let_def)

lemma demo_secret_agrees: "readSecret env path = Inr token \<Longrightarrow> demo_secret env path = Inr token"
  using readSecret_private [of env path token] by (auto simp: demo_secret_def)

text \<open>
  The two commands read a file alike.  When the server command accepts a file whose values are not quoted and
  that says \<open>true\<close> or \<open>false\<close> for \<open>disable_reconnect\<close>, the acceptance command accepts it too and comes to
  the same settings and the same token.  (It also accepts files the server rejects: it does not check
  permissions, unknown or repeated keys.)
\<close>

lemma config_readers_agree:
  assumes "loadConfig env path = Inr fc" and "ce_open env path = Inr content" and "list_all plain_line (split_on newline content)"
    and "readFlatYAML env path = Inr kvs" and "lookup kvs ''disable_reconnect'' \<in> {[], ''true'', ''false''}"
  shows "parseConfig env path = Inr \<lparr>dc_AppKey = fc_AppKey fc, dc_UserID = fc_UserID fc, dc_Token = fc_Token fc,
    dc_Domain = fc_Domain fc, dc_Resource = fc_Resource fc, dc_DisableReconnect = fc_DisableReconnect fc\<rparr>"
proof -
  obtain token where t: "loadToken env path kvs = Inr token" "token \<noteq> []"
    using assms(1) by (cases "loadToken env path kvs") (auto simp: loadConfig_def assms(4) split: option.splits if_splits)
  have fc: "fc = \<lparr>fc_AppKey = lookup kvs ''app_key'', fc_UserID = lookup kvs ''user_id'', fc_Token = token,
      fc_TokenFile = lookup kvs ''token_file'', fc_Domain = lookup kvs ''domain'', fc_Resource = lookup kvs ''resource'',
      fc_DisableReconnect = (lookup kvs ''disable_reconnect'' = ''true'')\<rparr>"
    using assms(1,5) t by (auto simp: loadConfig_def assms(4) Let_def parseBool_def split: option.splits if_splits)
  have z: "corresponds [] demo_zero" by (simp add: corresponds_def demo_zero_def lookup_def)
  have ls: "list_all plain_line (scan_lines content)"
    using assms(3) by (auto simp: scan_lines_def Let_def list_all_iff dest: in_set_butlastD)
  have "read_lines (ce_unquote env) 1 (scan_lines content) [] = Inr kvs" using assms(4) by (simp add: readFlatYAML_def assms(2))
  from demo_lines_agree [OF this ls z] have "corresponds kvs (fold demo_line (split_on newline content) demo_zero)"
    by (simp add: fold_scan_lines)
  note c = this [unfolded corresponds_def]
  have "demo_token env (lookup kvs ''token_file'') (lookup kvs ''token'') = Inr token"
    using t by (auto simp: demo_token_def loadToken_def Let_def demo_secret_agrees split: if_splits option.splits)
  then show ?thesis using t(2) by (simp add: parseConfig_def assms(2) c fc)
qed

end
