(* ===== verification/Spec2Isabelle.thy ===== *)
theory Spec2Isabelle
  imports Queue_Properties Provision_Action Identifiers DNS_Resolver Client_Properties Message_Properties Delivery Write_Pump Wire_Grammar
    Dispatch Client_Send REST_Properties Native_Developer Integration_Demo
begin

text \<open>
  A verification development of the Go IM SDK (\<open>src/sdk\<close>, \<open>src/internal/protocol\<close>, \<open>src/cmd\<close>): a client
  library that keeps one WebSocket session per logged-in user, receives messages in acknowledged batches,
  sends messages and waits for their acknowledgements, reconnects by itself, and calls REST services with
  the token of the session.

  \<^bold>\<open>The program.\<close>  A \<open>Client\<close> (\<open>client.go\<close>) resolves endpoints through a shared DNS cache (\<open>dns.go\<close>), walks over
  the candidates and follows redirects (\<open>endpoint_pool.go\<close>, \<open>connection.go\<close>), and installs a
  \<open>connectionRun\<close>.  The reader of a run admits each frame under a process-wide byte budget
  (\<open>byte_budget.go\<close>, \<open>decode_admission.go\<close>), decodes it with the native codec (\<open>nativecodec\<close>) and
  dispatches it.  A notice starts a queue; the scheduler (\<open>queue.go\<close>) keeps at most 256 queues active,
  defers the others in a ring, pulls batches with eight workers, charges each batch to the client and to
  the process (\<open>resource_budgets.go\<close>), and hands it to the workers that call the application's handler.
  \<open>Send\<close> builds a message (\<open>message.go\<close>), registers its id, writes a frame through the write pump and waits.
  \<open>Login\<close>, \<open>Logout\<close>, \<open>Close\<close>, the monitor of a run and the reconnect loop compete for the ownership of the
  lifecycle; a dispatcher delivers callbacks.  \<open>rest.go\<close> is independent of the connection but for the
  token and the login state.

  \<^bold>\<open>Theories and sources.\<close>
  \<^item> \<open>Prelude\<close>, \<open>Go_Strings\<close>, \<open>Go_Values\<close>: integers, strings, \<open>any\<close> values and the functions of the standard library
    that the code applies to them; reachability, and the locale \<open>inductive_invariant\<close> by which every
    concurrent component proves its invariant.
  \<^item> \<open>Errors\<close> (\<open>errors.go\<close>): error trees, codes, classification and the retry policies.
  \<^item> \<open>Byte_Budget\<close> (\<open>byte_budget.go\<close>): the weighted semaphore with the locale \<open>semaphore\<close>, interpreted on the plain
    and on the shared budget.  Its counter is the sum of what callers hold (C1), and no sleeper misses a
    wake-up (C2).  \<open>Batch_Reservation\<close> (\<open>resource_budgets.go\<close>, \<open>decode_admission.go\<close>): two budgets are charged or
    none (C3).
  \<^item> \<open>Protocol_Model\<close>, \<open>Retained_Weight\<close> (\<open>model.go\<close>, \<open>limits.go\<close>): the wire objects, and the memory charge of a batch,
    equal to its definition over unbounded numbers (C4).
  \<^item> \<open>Queue_Ring\<close>, \<open>Run_State\<close>, \<open>Queue_Sched\<close>, \<open>Queue_Invariant\<close>, \<open>Queue_System\<close>, \<open>Queue_Budgets\<close>, \<open>Queue_Properties\<close>
    (\<open>queue.go\<close>, \<open>connection.go\<close>): the deferred ring refines a bounded queue (locale \<open>bounded_fifo\<close>, C14); the critical
    sections of the scheduler; their interleaving by the reader, the pull workers, the watchdog, the batch
    workers and the failure path; progress of every active queue (C5), accounting of counters and byte
    budgets up to and after the end of the connection (C6), notices that are not lost (C7), and at most one
    answer, the right one, for each waiting send (C8).  C15 and C16 state two behaviours the code does
    not mean to have.
  \<^item> \<open>Client_State\<close>, \<open>Client_System\<close>, \<open>Client_Sections\<close>, \<open>Client_Lifecycle\<close>, \<open>Client_Invariant\<close>, \<open>Client_Properties\<close>
    (\<open>client.go\<close>, \<open>connection.go\<close>): the critical sections of the lifecycle, the goroutines as threads, and in
    every reachable state: one owner (C9), nobody's session is abandoned (C10), the four views of the
    state fit together (C11), \<open>Close\<close> leaves nothing (C12), a logout wins over a late reconnect (C13).
  \<^item> \<open>Wire\<close>, \<open>Envelope\<close>, \<open>Wire_Grammar\<close>, \<open>Provision_Action\<close> (\<open>nativecodec/envelope.go\<close>, \<open>provision_action.go\<close>): protobuf
    readers under one contract (locale \<open>wire_reader\<close>); the wire format as a grammar of byte strings that is
    independent of the readers, which the constant-memory scan recognises exactly (C17);
    decompression and the version of a Provision frame change the fields they mean to, and only those
    (C18, C19).
  \<^item> \<open>Identifiers\<close> (\<open>traceid.go\<close>, \<open>client.go\<close>): unique message ids (C20), increasing trace ids.
  \<^item> \<open>DNS_Endpoints\<close>, \<open>DNS_Resolver\<close>, \<open>Endpoint_Pool\<close> (\<open>dns.go\<close>, \<open>endpoint_pool.go\<close>, \<open>connection.go\<close>): candidates are safe
    URLs (C21), single flights in a bounded cache (C22), freshness of what it answers (C23), redirects that
    end without leaking a run (C24; the round is an interpretation of the locale \<open>list_iterator\<close>).
  \<^item> \<open>Dispatch\<close>, \<open>Write_Pump\<close>, \<open>Delivery\<close>, \<open>Client_Send\<close> (\<open>connection.go\<close>, \<open>queue.go\<close>): an inbound frame leads
    from reachable states to reachable states and has the effect its command and status ask for (C25), decoding memory is bounded (C26), a dead peer is noticed (C32), the wire is
    what callers were told (C27, C34), batches are delivered in order (C28, C33).
  \<^item> \<open>Message_Model\<close>, \<open>Message_Properties\<close> (\<open>message.go\<close>, \<open>message_json.go\<close>): round trips of extensions on the wire
    and of canonical values in JSON (C30, C31).
  \<^item> \<open>Native_Codec\<close>, \<open>Native_Limits\<close>, \<open>Native_Round_Trip\<close>, \<open>Native_Developer\<close> (\<open>nativecodec/codec.go\<close>,
    \<open>native/native_darwin_arm64.go\<close>): the conversions across the C boundary; whatever the library hands out
    is bounded (C35) and not changed by the limits (C40); the snapshot of an outgoing message without zero
    bytes and NaNs is what the receiver parses (C29); a string with a zero byte is cut (C39).
  \<^item> \<open>REST\<close>, \<open>REST_Properties\<close> (\<open>rest.go\<close>): what a call sends, returns and reports (C37), and that identifiers and
    values cannot change a request (C38).
  \<^item> \<open>Server_Config\<close>, \<open>Integration_Demo\<close> (\<open>cmd/server\<close>, \<open>cmd/integration-demo\<close>): configuration files; a token never
    comes from a file that others can read (C36).

  \<^bold>\<open>Conventions.\<close>  An \<open>int64\<close> is an \<open>int\<close> with \<open>wrap64\<close> where the source adds or multiplies; a \<open>uint64\<close> is a
  \<open>64 word\<close>; a string is its bytes; a map is an association list; pointers to shared objects are
  positions in a store; channels are lists.  A definition is the code between two acquisitions of a mutex,
  or between two points where a goroutine waits, and the step relations (\<open>budget_step\<close>, \<open>sched_step\<close>,
  \<open>pump_step\<close>, \<open>decode_step\<close>, \<open>dns_step\<close>, \<open>id_step\<close>, \<open>client_step\<close>) interleave them; whatever timers, contexts,
  the network and the application do is a choice of the step relation or an argument.  Coarser than that
  are only the two places where \<open>startQueue\<close> and \<open>processBatch\<close> release the mutex and then call \<open>fail\<close>: section
  and failure are one step there.  The ticks of the heartbeat in C32 are regular, without jitter.

  \<^bold>\<open>Parameters and hypotheses.\<close>  Code that is not in the repository is an argument: the C library
  (\<open>em_library\<close>), zlib, the text level of \<open>encoding/json\<close> (\<open>json_lib\<close>), \<open>net/url\<close> (\<open>url_lib\<close>), HTTP, DNS, the clock,
  the file system and the runtime's growth of slices.  Three theorems assume documented behaviour of such
  code beyond its type, each with a witness that it can hold: C21 which bytes \<open>net.ParseIP\<close> accepts and what
  \<open>url.Parse\<close> takes for a host (\<open>parseIP_chars\<close>, \<open>urlParse_host\<close>), C29 that the library, decoding the
  bytes it made of the message at hand, presents the fields it was given (\<open>reads_back\<close>; the header of the
  library is silent on it, its test \<open>TestNativeCodecSemanticRoundTrip\<close> expects it), and C31 that a printed floating-point number is read
  back as itself (\<open>json_floats_ok\<close>).
  Sizes of structures in \<open>Retained_Weight\<close> are those of 64-bit targets.

  \<^bold>\<open>Termination.\<close>  Loops are structural or have a measure.  The wait of the trace id generator for a new
  millisecond is a partial function, and that it returns once the clock moves is proved
  (\<open>trace_next_terminates\<close>).  No definition uses fuel.

  \<^bold>\<open>Not modelled.\<close>  Logging and debug output; the WebSocket library, TLS and the socket deadlines; the
  allocation and release of C memory; memory-model effects below sequentially consistent critical
  sections and atomics; the callbacks and signals of the two \<open>main\<close> functions; helpers only tests use; build-tag glue (\<open>codec_native.go\<close>,
  \<open>codec_unsupported.go\<close>, \<open>unsupported.go\<close>, \<open>log.go\<close>); the C library itself, which is shipped as a binary; scripts.
\<close>

end
